(* ===== verification/Prelude.thy ===== *)
theory Prelude
  imports Complex_Main "HOL-Library.Word" "HOL-Library.Sublist" "HOL-Library.Char_ord"
begin

text \<open>
  Shared vocabulary of the VIGIL development: results and the question-mark operator, machine
  integers and instants, the Rust string functions the crates use, IEEE doubles without
  rounding, and the hash map interface with its association-list implementation.

  Conventions used by every theory of the library:
  \<^item> a Rust \<^verbatim>\<open>char\<close> is a Unicode scalar value. The model's \<^typ>\<open>char\<close> covers the scalars below
    256; every character the sources compare against is ASCII. Byte lengths
    (\<^verbatim>\<open>str::len\<close>) are UTF-8 lengths, so a scalar above 127 counts twice;
  \<^item> an identifier newtype of \<^verbatim>\<open>vigil-common/src/ids.rs\<close> is the string it wraps;
  \<^item> an instant (\<^verbatim>\<open>chrono::DateTime<Utc>\<close>) is its count of nanoseconds, a signed integer;
    chrono's own range limit (years beyond 262000) is not modelled;
  \<^item> the text of an error message is not modelled, the branch that raises it is: each component
    has an error type with one constructor for each message.
\<close>

section \<open>Collections of facts\<close>

named_theorems result_simps \<open>rewriting of results\<close>
named_theorems hash_map_simps \<open>rewriting of hash map operations\<close>

section \<open>Results\<close>

text \<open>\<^verbatim>\<open>Result<T, E>\<close> is \<open>'e + 'a\<close>; \<^verbatim>\<open>r?\<close> followed by the rest of the body is \<open>rbind\<close>.\<close>

definition rbind :: "'e + 'a \<Rightarrow> ('a \<Rightarrow> 'e + 'b) \<Rightarrow> 'e + 'b" where
  "rbind r f = (case r of Inl e \<Rightarrow> Inl e | Inr x \<Rightarrow> f x)"

definition ensure :: "bool \<Rightarrow> 'e \<Rightarrow> 'e + unit" where
  "ensure b e = (if b then Inr () else Inl e)"

definition ok_or :: "'a option \<Rightarrow> 'e \<Rightarrow> 'e + 'a" where
  "ok_or x e = (case x of None \<Rightarrow> Inl e | Some v \<Rightarrow> Inr v)"

definition is_ok :: "'e + 'a \<Rightarrow> bool" where
  "is_ok r = (case r of Inl _ \<Rightarrow> False | Inr _ \<Rightarrow> True)"

lemma rbind_Inl [simp, result_simps]: "rbind (Inl e) f = Inl e"
  by (simp add: rbind_def)

lemma rbind_Inr [simp, result_simps]: "rbind (Inr x) f = f x"
  by (simp add: rbind_def)

lemma is_ok_simps [simp, result_simps]: "is_ok (Inl e) = False" "is_ok (Inr x) = True"
  by (simp_all add: is_ok_def)

lemma is_ok_iff: "is_ok r \<longleftrightarrow> (\<exists>x. r = Inr x)"
  by (cases r) simp_all

lemma rbind_eq_Inr [result_simps]:
  "rbind r f = Inr y \<longleftrightarrow> (\<exists>x. r = Inr x \<and> f x = Inr y)"
  by (cases r) simp_all

lemma rbind_eq_Inl [result_simps]:
  "rbind r f = Inl e \<longleftrightarrow> r = Inl e \<or> (\<exists>x. r = Inr x \<and> f x = Inl e)"
  by (cases r) simp_all

lemma ensure_simps [simp, result_simps]: "ensure True e = Inr ()" "ensure False e = Inl e"
  by (simp_all add: ensure_def)

lemma ensure_eq_Inr [simp, result_simps]: "ensure b e = Inr u \<longleftrightarrow> b"
  by (simp add: ensure_def)

lemma ensure_eq_Inl [simp, result_simps]: "ensure b e = Inl e' \<longleftrightarrow> \<not> b \<and> e' = e"
  by (auto simp: ensure_def)

lemma ok_or_simps [simp, result_simps]: "ok_or None e = Inl e" "ok_or (Some v) e = Inr v"
  by (simp_all add: ok_or_def)

lemma ok_or_eq_Inr [simp, result_simps]: "ok_or x e = Inr v \<longleftrightarrow> x = Some v"
  by (cases x) simp_all

lemma ok_or_eq_Inl [simp, result_simps]: "ok_or x e = Inl e' \<longleftrightarrow> x = None \<and> e' = e"
  by (cases x) auto

section \<open>Machine integers and instants\<close>

type_synonym u8 = "8 word"
type_synonym u32 = "32 word"
type_synonym u64 = "64 word"

lemma unat_inc: "unat a + 1 < 2 ^ 32 \<Longrightarrow> unat (a + 1 :: u32) = unat a + 1"
  by (simp add: unat_word_ariths)

text \<open>An instant or a signed duration, in nanoseconds.\<close>

type_synonym timestamp = int

definition nanos_per_second :: int where
  "nanos_per_second = 1000000000"

definition seconds :: "int \<Rightarrow> int" where
  "seconds s = s * nanos_per_second"

text \<open>\<^verbatim>\<open>TimeDelta::num_seconds\<close> and \<^verbatim>\<open>num_minutes\<close> drop the fraction, rounding towards zero.\<close>

definition quot_zero :: "int \<Rightarrow> int \<Rightarrow> int" where
  "quot_zero a b = (if 0 \<le> a then a div b else - ((- a) div b))"

definition num_seconds :: "int \<Rightarrow> int" where
  "num_seconds d = quot_zero d nanos_per_second"

definition num_minutes :: "int \<Rightarrow> int" where
  "num_minutes d = quot_zero d (60 * nanos_per_second)"

definition clamp :: "int \<Rightarrow> int \<Rightarrow> int \<Rightarrow> int" where
  "clamp x lo hi = (if x < lo then lo else if hi < x then hi else x)"

lemma num_seconds_seconds [simp]: "num_seconds (seconds s) = s"
proof -
  have "- (s * nanos_per_second) div nanos_per_second = - s"
    by (metis mult_minus_left nanos_per_second_def nonzero_mult_div_cancel_right zero_neq_numeral)
  then show ?thesis
    by (simp add: num_seconds_def seconds_def quot_zero_def) (simp add: nanos_per_second_def)
qed

lemma clamp_bounds: "lo \<le> hi \<Longrightarrow> lo \<le> clamp x lo hi \<and> clamp x lo hi \<le> hi"
  by (simp add: clamp_def)

lemma seconds_mono: "seconds a \<le> seconds b \<longleftrightarrow> a \<le> b"
  by (simp add: seconds_def nanos_per_second_def)

lemma num_minutes_mono: "a \<le> b \<Longrightarrow> num_minutes a \<le> num_minutes b"
proof -
  assume ab: "a \<le> b"
  define k :: int where "k = 60 * nanos_per_second"
  have k: "0 < k" by (simp add: k_def nanos_per_second_def)
  have pos: "0 \<le> x \<Longrightarrow> 0 \<le> x div k" for x
    using k by (simp add: pos_imp_zdiv_nonneg_iff)
  have mono: "x \<le> y \<Longrightarrow> x div k \<le> y div k" for x y
    using k by (simp add: zdiv_mono1)
  show ?thesis
    unfolding num_minutes_def quot_zero_def k_def [symmetric]
    using ab pos [of "- a"] pos [of b] mono [of a b] mono [of "- b" "- a"] by auto
qed

section \<open>Doubles\<close>

text \<open>
  \<^verbatim>\<open>f64\<close> without rounding: the finite values are rationals with exact arithmetic, the special
  values compare as IEEE 754 says (every comparison with a NaN is false).
\<close>

datatype f64 = NaN | PosInf | NegInf | Fin rat

fun f64_lt :: "f64 \<Rightarrow> f64 \<Rightarrow> bool" where
  "f64_lt NaN y = False"
| "f64_lt x NaN = False"
| "f64_lt PosInf y = False"
| "f64_lt x NegInf = False"
| "f64_lt NegInf y = True"
| "f64_lt (Fin a) PosInf = True"
| "f64_lt (Fin a) (Fin b) = (a < b)"

fun f64_eq :: "f64 \<Rightarrow> f64 \<Rightarrow> bool" where
  "f64_eq NaN y = False"
| "f64_eq x NaN = False"
| "f64_eq x y = (x = y)"

definition f64_le :: "f64 \<Rightarrow> f64 \<Rightarrow> bool" where
  "f64_le x y = (f64_lt x y \<or> f64_eq x y)"

definition f64_ge :: "f64 \<Rightarrow> f64 \<Rightarrow> bool" where
  "f64_ge x y = f64_le y x"

fun f64_is_finite :: "f64 \<Rightarrow> bool" where
  "f64_is_finite (Fin a) = True"
| "f64_is_finite x = False"

fun f64_add :: "f64 \<Rightarrow> f64 \<Rightarrow> f64" where
  "f64_add NaN y = NaN"
| "f64_add x NaN = NaN"
| "f64_add PosInf NegInf = NaN"
| "f64_add NegInf PosInf = NaN"
| "f64_add PosInf y = PosInf"
| "f64_add x PosInf = PosInf"
| "f64_add NegInf y = NegInf"
| "f64_add x NegInf = NegInf"
| "f64_add (Fin a) (Fin b) = Fin (a + b)"

lemma f64_le_Fin [simp]: "f64_le (Fin a) (Fin b) \<longleftrightarrow> a \<le> b"
  by (auto simp: f64_le_def)

lemma f64_ge_Fin [simp]: "f64_ge (Fin a) (Fin b) \<longleftrightarrow> b \<le> a"
  by (simp add: f64_ge_def)

lemma f64_ge_NaN [simp]: "\<not> f64_ge x NaN" "\<not> f64_ge NaN x"
  by (cases x; simp add: f64_ge_def f64_le_def)+

lemma f64_is_finite_iff: "f64_is_finite x \<longleftrightarrow> (\<exists>a. x = Fin a)"
  by (cases x) simp_all

section \<open>Rust strings\<close>

definition to_ascii_lowercase_char :: "char \<Rightarrow> char" where
  "to_ascii_lowercase_char c =
     (let n = (of_char c :: nat) in if 65 \<le> n \<and> n \<le> 90 then char_of (n + 32) else c)"

definition to_ascii_uppercase_char :: "char \<Rightarrow> char" where
  "to_ascii_uppercase_char c =
     (let n = (of_char c :: nat) in if 97 \<le> n \<and> n \<le> 122 then char_of (n - 32) else c)"

definition to_ascii_lowercase :: "string \<Rightarrow> string" where
  "to_ascii_lowercase = map to_ascii_lowercase_char"

definition to_ascii_uppercase :: "string \<Rightarrow> string" where
  "to_ascii_uppercase = map to_ascii_uppercase_char"

definition eq_ignore_ascii_case :: "string \<Rightarrow> string \<Rightarrow> bool" where
  "eq_ignore_ascii_case a b = (to_ascii_lowercase a = to_ascii_lowercase b)"

text \<open>\<^verbatim>\<open>str::to_lowercase\<close> below U+0100: the ASCII letters and the Latin-1 capitals.\<close>

definition to_lowercase_char :: "char \<Rightarrow> char" where
  "to_lowercase_char c =
     (let n = (of_char c :: nat)
      in if (65 \<le> n \<and> n \<le> 90) \<or> (192 \<le> n \<and> n \<le> 222 \<and> n \<noteq> 215)
         then char_of (n + 32) else c)"

definition to_lowercase :: "string \<Rightarrow> string" where
  "to_lowercase = map to_lowercase_char"

text \<open>\<^verbatim>\<open>char::is_whitespace\<close> below U+0100.\<close>

definition is_whitespace :: "char \<Rightarrow> bool" where
  "is_whitespace c = (let n = (of_char c :: nat) in (9 \<le> n \<and> n \<le> 13) \<or> n = 32 \<or> n = 133 \<or> n = 160)"

definition is_ascii_alphabetic :: "char \<Rightarrow> bool" where
  "is_ascii_alphabetic c = (let n = (of_char c :: nat) in (65 \<le> n \<and> n \<le> 90) \<or> (97 \<le> n \<and> n \<le> 122))"

definition is_ascii_alphanumeric :: "char \<Rightarrow> bool" where
  "is_ascii_alphanumeric c =
     (let n = (of_char c :: nat)
      in (48 \<le> n \<and> n \<le> 57) \<or> (65 \<le> n \<and> n \<le> 90) \<or> (97 \<le> n \<and> n \<le> 122))"

text \<open>The byte length of the UTF-8 encoding.\<close>

definition str_len :: "string \<Rightarrow> nat" where
  "str_len s = sum_list (map (\<lambda>c. if of_char c < (128 :: nat) then 1 else 2) s)"

definition trim_start :: "string \<Rightarrow> string" where
  "trim_start s = dropWhile is_whitespace s"

definition trim_end_matches :: "(char \<Rightarrow> bool) \<Rightarrow> string \<Rightarrow> string" where
  "trim_end_matches p s = rev (dropWhile p (rev s))"

definition trim :: "string \<Rightarrow> string" where
  "trim s = trim_end_matches is_whitespace (trim_start s)"

definition trim_matches :: "(char \<Rightarrow> bool) \<Rightarrow> string \<Rightarrow> string" where
  "trim_matches p s = trim_end_matches p (dropWhile p s)"

definition starts_with :: "string \<Rightarrow> string \<Rightarrow> bool" where
  "starts_with s p = prefix p s"

definition ends_with :: "string \<Rightarrow> string \<Rightarrow> bool" where
  "ends_with s p = suffix p s"

definition strip_prefix :: "string \<Rightarrow> string \<Rightarrow> string option" where
  "strip_prefix s p = (if prefix p s then Some (drop (length p) s) else None)"

definition str_contains :: "string \<Rightarrow> string \<Rightarrow> bool" where
  "str_contains s p = sublist p s"

text \<open>\<^verbatim>\<open>str::split\<close> on a set of characters: the empty string has one, empty, piece.\<close>

fun split_on :: "(char \<Rightarrow> bool) \<Rightarrow> string \<Rightarrow> string list" where
  "split_on p [] = [[]]"
| "split_on p (c # cs) =
     (if p c then [] # split_on p cs
      else (case split_on p cs of [] \<Rightarrow> [[c]] | w # ws \<Rightarrow> (c # w) # ws))"

definition split_whitespace :: "string \<Rightarrow> string list" where
  "split_whitespace s = filter (\<lambda>w. w \<noteq> []) (split_on is_whitespace s)"

text \<open>\<^verbatim>\<open>str::split_once\<close>: the text before and after the first occurrence.\<close>

fun split_once :: "string \<Rightarrow> string \<Rightarrow> (string \<times> string) option" where
  "split_once d [] = (if d = [] then Some ([], []) else None)"
| "split_once d (c # cs) =
     (if prefix d (c # cs) then Some ([], drop (length d) (c # cs))
      else map_option (\<lambda>(a, b). (c # a, b)) (split_once d cs))"

fun join_with :: "string \<Rightarrow> string list \<Rightarrow> string" where
  "join_with sep [] = []"
| "join_with sep [w] = w"
| "join_with sep (w # ws) = w @ sep @ join_with sep ws"

lemma split_on_nonempty [simp]: "split_on p s \<noteq> []"
  by (cases s) (auto split: list.splits)

lemma split_on_pieces: "w \<in> set (split_on p s) \<Longrightarrow> c \<in> set w \<Longrightarrow> \<not> p c"
proof (induction s arbitrary: w)
  case Nil
  then show ?case by simp
next
  case (Cons d s)
  obtain u us where "split_on p s = u # us"
    using split_on_nonempty [of p s] by (cases "split_on p s") auto
  with Cons.prems Cons.IH [of u] Cons.IH [of w] show ?case
    by (auto split: if_splits)
qed

lemma split_on_no_sep: "(\<And>c. c \<in> set s \<Longrightarrow> \<not> p c) \<Longrightarrow> split_on p s = [s]"
  by (induction s) auto

lemma split_on_append_sep:
  "p c \<Longrightarrow> split_on p (a @ c # b) = split_on p a @ split_on p b"
  by (induction a) (auto split: list.splits)

lemma join_with_Cons: "ws \<noteq> [] \<Longrightarrow> join_with sep (w # ws) = w @ sep @ join_with sep ws"
  by (cases ws) simp_all

lemma split_on_join:
  assumes "\<And>w c. w \<in> set ws \<Longrightarrow> c \<in> set w \<Longrightarrow> \<not> p c" and "ws \<noteq> []" and "p d"
  shows "split_on p (join_with [d] ws) = ws"
  using assms
proof (induction ws)
  case Nil
  then show ?case by simp
next
  case (Cons w ws)
  have w: "split_on p w = [w]"
    using Cons.prems(1) by (intro split_on_no_sep) auto
  show ?case
  proof (cases "ws = []")
    case True
    then show ?thesis using w by simp
  next
    case False
    then have "split_on p (join_with [d] ws) = ws"
      using Cons.IH Cons.prems(1,3) by auto
    then show ?thesis
      using w Cons.prems(3) False by (simp add: join_with_Cons split_on_append_sep)
  qed
qed

lemma trim_end_matches_prefix: "prefix (trim_end_matches p s) s"
proof -
  have "s = rev (dropWhile p (rev s)) @ rev (takeWhile p (rev s))"
    by (metis rev_append rev_rev_ident takeWhile_dropWhile_id)
  then show ?thesis unfolding trim_end_matches_def prefix_def by blast
qed

lemma trim_end_matches_id: "s = [] \<or> \<not> p (last s) \<Longrightarrow> trim_end_matches p s = s"
  by (cases s rule: rev_cases) (auto simp: trim_end_matches_def)

lemma to_ascii_lowercase_idem [simp]:
  "to_ascii_lowercase (to_ascii_lowercase s) = to_ascii_lowercase s"
proof -
  have "to_ascii_lowercase_char (to_ascii_lowercase_char c) = to_ascii_lowercase_char c" for c
    by (auto simp: to_ascii_lowercase_char_def Let_def of_char_of)
  then show ?thesis by (simp add: to_ascii_lowercase_def)
qed

section \<open>Hash maps\<close>

text \<open>
  The contract of \<^verbatim>\<open>std::collections::HashMap\<close> as its clients in the crates use it. The
  iteration order of a hash map is unspecified, so no law mentions it.
\<close>

locale hash_map =
  fixes empty :: 'm
    and get :: "'m \<Rightarrow> 'k \<Rightarrow> 'v option"
    and insert :: "'k \<Rightarrow> 'v \<Rightarrow> 'm \<Rightarrow> 'm"
    and remove :: "'k \<Rightarrow> 'm \<Rightarrow> 'm"
    and retain :: "('k \<Rightarrow> 'v \<Rightarrow> bool) \<Rightarrow> 'm \<Rightarrow> 'm"
    and len :: "'m \<Rightarrow> nat"
    and invar :: "'m \<Rightarrow> bool"
  assumes invar_empty: "invar empty"
    and invar_insert: "invar m \<Longrightarrow> invar (insert k v m)"
    and invar_remove: "invar m \<Longrightarrow> invar (remove k m)"
    and invar_retain: "invar m \<Longrightarrow> invar (retain P m)"
    and get_empty: "get empty k = None"
    and get_insert: "get (insert k v m) k' = (if k' = k then Some v else get m k')"
    and get_remove: "invar m \<Longrightarrow> get (remove k m) k' = (if k' = k then None else get m k')"
    and get_retain: "invar m \<Longrightarrow> get (retain P m) k =
          (case get m k of None \<Rightarrow> None | Some v \<Rightarrow> if P k v then Some v else None)"
    and finite_get: "finite (dom (get m))"
    and len_get: "invar m \<Longrightarrow> len m = card (dom (get m))"
begin

lemma len_empty: "len empty = 0"
  by (simp add: len_get invar_empty get_empty dom_def)

lemma len_insert_fresh:
  assumes "invar m" and "get m k = None"
  shows "len (insert k v m) = Suc (len m)"
proof -
  have "dom (get (insert k v m)) = Set.insert k (dom (get m))"
    by (auto simp: get_insert split: if_splits)
  moreover have "k \<notin> dom (get m)"
    using assms(2) by auto
  ultimately show ?thesis
    using assms by (simp add: len_get invar_insert finite_get)
qed

lemma len_insert_present:
  assumes "invar m" and "get m k \<noteq> None"
  shows "len (insert k v m) = len m"
proof -
  have "dom (get (insert k v m)) = dom (get m)"
    using assms by (auto simp: get_insert split: if_splits)
  then show ?thesis
    using assms by (simp add: len_get invar_insert)
qed

lemma len_retain_le:
  assumes "invar m"
  shows "len (retain P m) \<le> len m"
proof -
  have "dom (get (retain P m)) \<subseteq> dom (get m)"
    using assms by (auto simp: get_retain split: option.splits)
  then show ?thesis
    using assms by (simp add: len_get invar_retain card_mono finite_get)
qed

lemma retain_all:
  assumes "invar m" and "\<And>k v. get m k = Some v \<Longrightarrow> P k v"
  shows "get (retain P m) k = get m k"
  using assms by (auto simp: get_retain split: option.splits)

end

type_synonym ('k, 'v) hmap = "('k \<times> 'v) list"

definition hm_get :: "('k, 'v) hmap \<Rightarrow> 'k \<Rightarrow> 'v option" where
  "hm_get m k = map_of m k"

fun hm_insert :: "'k \<Rightarrow> 'v \<Rightarrow> ('k, 'v) hmap \<Rightarrow> ('k, 'v) hmap" where
  "hm_insert k v [] = [(k, v)]"
| "hm_insert k v ((k', v') # m) = (if k = k' then (k, v) # m else (k', v') # hm_insert k v m)"

definition hm_remove :: "'k \<Rightarrow> ('k, 'v) hmap \<Rightarrow> ('k, 'v) hmap" where
  "hm_remove k m = filter (\<lambda>(k', v). k' \<noteq> k) m"

definition hm_retain :: "('k \<Rightarrow> 'v \<Rightarrow> bool) \<Rightarrow> ('k, 'v) hmap \<Rightarrow> ('k, 'v) hmap" where
  "hm_retain P m = filter (\<lambda>(k, v). P k v) m"

definition hm_invar :: "('k, 'v) hmap \<Rightarrow> bool" where
  "hm_invar m = distinct (map fst m)"

definition hm_values :: "('k, 'v) hmap \<Rightarrow> 'v list" where
  "hm_values m = map snd m"

lemma hm_get_insert [simp, hash_map_simps]:
  "hm_get (hm_insert k v m) k' = (if k' = k then Some v else hm_get m k')"
  by (induction m) (auto simp: hm_get_def)

lemma hm_get_Nil [simp, hash_map_simps]: "hm_get [] k = None"
  by (simp add: hm_get_def)

lemma hm_insert_keys: "fst ` set (hm_insert k v m) = insert k (fst ` set m)"
  by (induction k v m rule: hm_insert.induct) (simp_all add: insert_commute)

lemma hm_invar_insert [hash_map_simps]: "hm_invar m \<Longrightarrow> hm_invar (hm_insert k v m)"
proof (induction m)
  case Nil
  then show ?case by (simp add: hm_invar_def)
next
  case (Cons kv m)
  then show ?case
    using hm_insert_keys [of k v m] by (cases kv) (auto simp: hm_invar_def)
qed

lemma hm_invar_filter: "hm_invar m \<Longrightarrow> hm_invar (filter Q m)"
  by (induction m) (auto simp: hm_invar_def)

lemma hm_get_filter:
  "hm_invar m \<Longrightarrow> hm_get (filter Q m) k =
     (case hm_get m k of None \<Rightarrow> None | Some v \<Rightarrow> if Q (k, v) then Some v else None)"
proof (induction m)
  case Nil
  then show ?case by simp
next
  case (Cons kv m)
  obtain k' v' where kv: "kv = (k', v')" by (cases kv)
  with Cons.prems have "map_of m k' = None" and m: "hm_invar m"
    by (auto simp: hm_invar_def map_of_eq_None_iff)
  with Cons.IH [OF m] show ?case
    by (auto simp: hm_get_def kv split: option.splits)
qed

lemma hm_get_values: "hm_get m k = Some v \<Longrightarrow> v \<in> set (hm_values m)"
  by (force simp: hm_get_def hm_values_def dest: map_of_SomeD)

lemma hm_values_get: "hm_invar m \<Longrightarrow> v \<in> set (hm_values m) \<Longrightarrow> \<exists>k. hm_get m k = Some v"
  by (force simp: hm_get_def hm_values_def hm_invar_def)

interpretation hm: hash_map "[]" hm_get hm_insert hm_remove hm_retain length hm_invar
proof
  show "finite (dom (hm_get m))" for m :: "('a, 'b) hmap"
    using finite_dom_map_of [of m] by (simp add: dom_def hm_get_def)
  show "length m = card (dom (hm_get m))" if "hm_invar m" for m :: "('a, 'b) hmap"
  proof -
    have "dom (hm_get m) = set (map fst m)"
      using dom_map_of_conv_image_fst [of m] by (simp add: dom_def hm_get_def)
    then show ?thesis
      using that distinct_card [of "map fst m"] by (simp add: hm_invar_def)
  qed
qed (auto simp: hm_remove_def hm_retain_def hm_invar_filter hm_get_filter hm_invar_insert
      hm_invar_def [of "[]"] split: option.splits)

lemmas hm_laws = hm.get_remove hm.get_retain hm.invar_insert hm.invar_remove hm.invar_retain

end
