(* ===== verification/Decisions.thy ===== *)
theory Decisions
  imports Prelude "HOL-Library.Multiset"
begin

text \<open>
  The decision lattice of \<^verbatim>\<open>vigil-protocol/src/decision.rs\<close> and the trust and taint labels of
  \<^verbatim>\<open>vigil-protocol/src/trust.rs\<close>. Both merge operations are instances of one interface, the
  locale \<open>ranked_merge\<close>: a merge that keeps the argument of larger rank. What the pipeline needs
  of a merge (order independence, monotonicity, absorption) is proved once, in the locale.
\<close>

section \<open>Merges that keep the larger rank\<close>

text \<open>Folding a value into an accumulator that starts empty.\<close>

definition opt_merge :: "('a \<Rightarrow> 'a \<Rightarrow> 'a) \<Rightarrow> 'a option \<Rightarrow> 'a \<Rightarrow> 'a option" where
  "opt_merge f acc y = Some (case acc of Some d \<Rightarrow> f d y | None \<Rightarrow> y)"

locale ranked_merge =
  fixes rank :: "'a \<Rightarrow> int" and merge :: "'a \<Rightarrow> 'a \<Rightarrow> 'a"
  assumes rank_inj: "rank x = rank y \<Longrightarrow> x = y"
    and merge_eq: "merge x y = (if rank x < rank y then y else x)"
begin

lemma rank_merge: "rank (merge x y) = max (rank x) (rank y)"
  by (simp add: merge_eq)

lemma merge_commute: "merge x y = merge y x"
  by (rule rank_inj) (simp add: rank_merge max.commute)

lemma merge_assoc: "merge (merge x y) z = merge x (merge y z)"
  by (rule rank_inj) (simp add: rank_merge max.assoc)

lemma merge_left_commute: "merge x (merge y z) = merge y (merge x z)"
  by (metis merge_assoc merge_commute)

lemma merge_idem: "merge x x = x"
  by (simp add: merge_eq)

lemma rank_foldl: "rank (foldl merge x ys) = fold max (map rank ys) (rank x)"
  by (induction ys arbitrary: x) (simp_all add: rank_merge max.commute)

lemma foldl_ge_start: "rank x \<le> rank (foldl merge x ys)"
proof (induction ys arbitrary: x)
  case Nil
  then show ?case by simp
next
  case (Cons y ys)
  have "rank x \<le> rank (merge x y)" by (simp add: rank_merge)
  also have "\<dots> \<le> rank (foldl merge (merge x y) ys)" by (rule Cons.IH)
  finally show ?case by simp
qed

lemma foldl_ge_elem: "y \<in> set ys \<Longrightarrow> rank y \<le> rank (foldl merge x ys)"
proof (induction ys arbitrary: x)
  case Nil
  then show ?case by simp
next
  case (Cons z ys)
  show ?case
  proof (cases "y = z")
    case True
    have "rank z \<le> rank (merge x z)" by (simp add: rank_merge)
    also have "\<dots> \<le> rank (foldl merge (merge x z) ys)" by (rule foldl_ge_start)
    finally show ?thesis using True by simp
  next
    case False
    with Cons show ?thesis by simp
  qed
qed

lemma foldl_in: "foldl merge x ys \<in> insert x (set ys)"
proof (induction ys arbitrary: x)
  case Nil
  then show ?case by simp
next
  case (Cons y ys)
  have "foldl merge (merge x y) ys \<in> insert (merge x y) (set ys)" by (rule Cons.IH)
  moreover have "merge x y \<in> {x, y}" by (simp add: merge_eq)
  ultimately show ?case by auto
qed

lemma foldl_merge_out: "foldl merge (merge x y) ys = merge x (foldl merge y ys)"
  by (induction ys arbitrary: y) (simp_all add: merge_assoc)

lemma foldl_perm: "mset ys = mset zs \<Longrightarrow> foldl merge x ys = foldl merge x zs"
proof (induction ys arbitrary: zs)
  case Nil
  then show ?case by simp
next
  case (Cons y ys)
  from Cons.prems have "y \<in> set zs"
    by (metis list.set_intros(1) set_mset_mset)
  then obtain us vs where zs: "zs = us @ y # vs"
    by (meson split_list)
  with Cons.prems have "mset ys = mset (us @ vs)" by simp
  then have "foldl merge x ys = foldl merge x (us @ vs)" by (rule Cons.IH)
  then have "merge y (foldl merge x ys) = merge y (foldl merge x (us @ vs))" by simp
  moreover have "foldl merge x (y # ys) = merge y (foldl merge x ys)"
    by (simp add: merge_commute [of x y] foldl_merge_out)
  moreover have "foldl merge x (us @ y # vs) = merge y (foldl merge x (us @ vs))"
    by (simp add: merge_commute [of _ y] foldl_merge_out)
  ultimately show ?case using zs by simp
qed

lemma opt_foldl_Some: "foldl (opt_merge merge) (Some x) ys = Some (foldl merge x ys)"
  by (induction ys arbitrary: x) (simp_all add: opt_merge_def)

lemma opt_foldl_None_iff: "foldl (opt_merge merge) None ys = None \<longleftrightarrow> ys = []"
  by (cases ys) (simp_all add: opt_merge_def [of merge None] opt_foldl_Some)

text \<open>The fold from an empty accumulator selects the element of largest rank.\<close>

lemma opt_foldl_Some_iff:
  "foldl (opt_merge merge) None ys = Some m \<longleftrightarrow> m \<in> set ys \<and> (\<forall>y \<in> set ys. rank y \<le> rank m)"
proof (cases ys)
  case Nil
  then show ?thesis by simp
next
  case (Cons z zs)
  define r where "r = foldl merge z zs"
  have fold: "foldl (opt_merge merge) None ys = Some r"
    using Cons by (simp add: opt_merge_def [of merge None] opt_foldl_Some r_def)
  have r: "r \<in> set ys" "\<forall>y \<in> set ys. rank y \<le> rank r"
    using foldl_in [of z zs] foldl_ge_start [of z zs] foldl_ge_elem [of _ zs z] Cons
    by (auto simp: r_def)
  have "m = r" if "m \<in> set ys" "\<forall>y \<in> set ys. rank y \<le> rank m"
    using that r by (intro rank_inj antisym) auto
  then show ?thesis using fold r by auto
qed

lemma opt_foldl_set:
  "set ys = set zs \<Longrightarrow> foldl (opt_merge merge) None ys = foldl (opt_merge merge) None zs"
  using opt_foldl_Some_iff [of ys] opt_foldl_Some_iff [of zs]
  by (metis not_None_eq)

end

section \<open>Decisions\<close>

datatype Decision =
    Allow
  | AllowWithConstraints
  | AllowWithRedaction
  | RequireApproval
  | Quarantine
  | Deny
  | TerminateSession

fun restrictiveness :: "Decision \<Rightarrow> nat" where
  "restrictiveness Allow = 0"
| "restrictiveness AllowWithConstraints = 1"
| "restrictiveness AllowWithRedaction = 2"
| "restrictiveness RequireApproval = 3"
| "restrictiveness Quarantine = 4"
| "restrictiveness Deny = 5"
| "restrictiveness TerminateSession = 6"

definition decision_combine :: "Decision \<Rightarrow> Decision \<Rightarrow> Decision" where
  "decision_combine self other =
     (if restrictiveness other > restrictiveness self then other else self)"

fun permits_execution :: "Decision \<Rightarrow> bool" where
  "permits_execution Allow = True"
| "permits_execution AllowWithConstraints = True"
| "permits_execution AllowWithRedaction = True"
| "permits_execution d = False"

definition mints_capability :: "Decision \<Rightarrow> bool" where
  "mints_capability d = permits_execution d"

definition terminates_session :: "Decision \<Rightarrow> bool" where
  "terminates_session d = (d = TerminateSession)"

definition fail_closed :: Decision where
  "fail_closed = Deny"

text \<open>The order by restrictiveness, in which \<open>decision_combine\<close> is the maximum.\<close>

instantiation Decision :: linorder
begin

definition less_eq_Decision :: "Decision \<Rightarrow> Decision \<Rightarrow> bool" where
  "less_eq_Decision a b = (restrictiveness a \<le> restrictiveness b)"

definition less_Decision :: "Decision \<Rightarrow> Decision \<Rightarrow> bool" where
  "less_Decision a b = (restrictiveness a < restrictiveness b)"

instance
proof
  fix x y z :: Decision
  show "x < y \<longleftrightarrow> x \<le> y \<and> \<not> y \<le> x" by (auto simp: less_eq_Decision_def less_Decision_def)
  show "x \<le> x" by (simp add: less_eq_Decision_def)
  show "x \<le> y \<Longrightarrow> y \<le> z \<Longrightarrow> x \<le> z" by (simp add: less_eq_Decision_def)
  show "x \<le> y \<or> y \<le> x" by (auto simp: less_eq_Decision_def)
  show "x \<le> y \<Longrightarrow> y \<le> x \<Longrightarrow> x = y"
    by (cases x; cases y; simp add: less_eq_Decision_def)
qed

end

lemma restrictiveness_inj: "restrictiveness a = restrictiveness b \<Longrightarrow> a = b"
  by (cases a; cases b) simp_all

interpretation decision: ranked_merge "\<lambda>d. int (restrictiveness d)" decision_combine
  by unfold_locales (simp_all add: restrictiveness_inj decision_combine_def)

lemma decision_combine_max: "decision_combine a b = max a b"
  using restrictiveness_inj [of a b]
  by (auto simp: decision_combine_def max_def less_eq_Decision_def)

lemma permits_execution_iff: "permits_execution d \<longleftrightarrow> d < RequireApproval"
  by (cases d) (simp_all add: less_Decision_def)

lemma not_permits_iff: "\<not> permits_execution d \<longleftrightarrow> RequireApproval \<le> d"
  by (simp add: permits_execution_iff not_less)

lemma permits_combine [simp]:
  "permits_execution (decision_combine a b) \<longleftrightarrow> permits_execution a \<and> permits_execution b"
  by (auto simp: permits_execution_iff decision_combine_max)

lemma le_decision_combine: "a \<le> decision_combine a b" "b \<le> decision_combine a b"
  by (simp_all add: decision_combine_max)

lemma foldl_decision_combine_ge: "a \<le> foldl decision_combine a ds"
  using decision.foldl_ge_start [of a ds] by (simp add: less_eq_Decision_def)

text \<open>
  Constraints, redactions and obligations are carried by decisions and enforced by other
  components.
\<close>

datatype Constraint =
    AllowedHosts "string list"
  | MaxResponseBytes u64
  | TimeoutMs u64
  | ArgumentAllowlist "string list"
  | MaxUses u32
  | SqlOperations "string list"
  | PathRoots "string list"

datatype RedactionMethod = Mask | Tokenize | HashMethod | DropField

datatype Obligation =
    HumanApproval "string list" u64
  | BrokeredCredentials string
  | EvidenceCapture string
  | Alert string

section \<open>Trust levels\<close>

datatype TrustLevel =
    SystemTrusted
  | AdminTrusted
  | ToolSigned
  | MemoryValidated
  | UserAuthenticated
  | UserUntrusted
  | ToolUnverified
  | MemoryUntrusted
  | AgentUntrusted
  | McpUntrusted
  | RagUntrusted
  | EmailUntrusted
  | WebUntrusted
  | ExternalUntrusted

fun trust_rank :: "TrustLevel \<Rightarrow> nat" where
  "trust_rank SystemTrusted = 100"
| "trust_rank AdminTrusted = 90"
| "trust_rank ToolSigned = 70"
| "trust_rank MemoryValidated = 60"
| "trust_rank UserAuthenticated = 50"
| "trust_rank UserUntrusted = 30"
| "trust_rank ToolUnverified = 25"
| "trust_rank MemoryUntrusted = 20"
| "trust_rank AgentUntrusted = 18"
| "trust_rank McpUntrusted = 15"
| "trust_rank RagUntrusted = 12"
| "trust_rank EmailUntrusted = 10"
| "trust_rank WebUntrusted = 8"
| "trust_rank ExternalUntrusted = 0"

definition trust_combine :: "TrustLevel \<Rightarrow> TrustLevel \<Rightarrow> TrustLevel" where
  "trust_combine self other = (if trust_rank self \<le> trust_rank other then self else other)"

definition carries_instruction_authority :: "TrustLevel \<Rightarrow> bool" where
  "carries_instruction_authority t = (trust_rank t \<ge> trust_rank UserAuthenticated)"

fun is_external :: "TrustLevel \<Rightarrow> bool" where
  "is_external ExternalUntrusted = True"
| "is_external WebUntrusted = True"
| "is_external EmailUntrusted = True"
| "is_external RagUntrusted = True"
| "is_external McpUntrusted = True"
| "is_external AgentUntrusted = True"
| "is_external t = False"

definition trust_conservative_default :: TrustLevel where
  "trust_conservative_default = ExternalUntrusted"

lemma trust_rank_inj: "trust_rank a = trust_rank b \<Longrightarrow> a = b"
  by (cases a; cases b) simp_all

text \<open>Trust merges downwards, so its rank in the interface is the negated authority.\<close>

interpretation trust: ranked_merge "\<lambda>t. - int (trust_rank t)" trust_combine
  by unfold_locales (auto simp: trust_combine_def dest: trust_rank_inj)

lemma trust_combine_rank [simp]:
  "trust_rank (trust_combine a b) = min (trust_rank a) (trust_rank b)"
  by (simp add: trust_combine_def)

lemma is_external_no_authority: "is_external t \<Longrightarrow> \<not> carries_instruction_authority t"
  by (cases t) (simp_all add: carries_instruction_authority_def)

lemma carries_authority_combine [simp]:
  "carries_instruction_authority (trust_combine a b) \<longleftrightarrow>
     carries_instruction_authority a \<and> carries_instruction_authority b"
  by (auto simp: carries_instruction_authority_def)

section \<open>Taints\<close>

datatype TaintKind =
    UntrustedInstruction
  | Secret
  | Credential
  | Pii
  | FinancialData
  | AuthenticationData
  | ConfidentialData
  | ExecutableContent
  | ExternalUrl
  | UntrustedCode
  | SecurityPolicyContent
  | ApprovalData

fun is_egress_sensitive :: "TaintKind \<Rightarrow> bool" where
  "is_egress_sensitive Secret = True"
| "is_egress_sensitive Credential = True"
| "is_egress_sensitive Pii = True"
| "is_egress_sensitive FinancialData = True"
| "is_egress_sensitive AuthenticationData = True"
| "is_egress_sensitive ConfidentialData = True"
| "is_egress_sensitive t = False"

fun taint_risk_weight :: "TaintKind \<Rightarrow> rat" where
  "taint_risk_weight Secret = 1"
| "taint_risk_weight Credential = 1"
| "taint_risk_weight AuthenticationData = 1"
| "taint_risk_weight FinancialData = 9 / 10"
| "taint_risk_weight Pii = 7 / 10"
| "taint_risk_weight ConfidentialData = 6 / 10"
| "taint_risk_weight UntrustedInstruction = 5 / 10"
| "taint_risk_weight UntrustedCode = 5 / 10"
| "taint_risk_weight ExecutableContent = 5 / 10"
| "taint_risk_weight SecurityPolicyContent = 4 / 10"
| "taint_risk_weight ApprovalData = 3 / 10"
| "taint_risk_weight ExternalUrl = 2 / 10"

lemma taint_risk_weight_bounds: "0 \<le> taint_risk_weight t \<and> taint_risk_weight t \<le> 1"
  by (cases t) simp_all

end
