(* ===== verification/Actions.thy ===== *)
theory Actions
  imports Decisions
begin

text \<open>
  The normalized action of \<^verbatim>\<open>vigil-protocol/src/action.rs\<close>: impact tiers and side-effect classes,
  the action variants with the fields that determine impact, what each action is called and does,
  the strings a detector inspects, and the material projection that approvals and capabilities
  bind to. Requests and their structural validation close the theory, with the schema version
  check of \<^verbatim>\<open>vigil-protocol/src/lib.rs\<close> and the principals of \<^verbatim>\<open>principal.rs\<close>.
\<close>

section \<open>Impact tiers and side effects\<close>

datatype ImpactTier =
    Tier0Observational
  | Tier1LowRiskRead
  | Tier2ControlledMutation
  | Tier3HighImpact
  | Tier4Critical

fun tier_index :: "ImpactTier \<Rightarrow> nat" where
  "tier_index Tier0Observational = 0"
| "tier_index Tier1LowRiskRead = 1"
| "tier_index Tier2ControlledMutation = 2"
| "tier_index Tier3HighImpact = 3"
| "tier_index Tier4Critical = 4"

text \<open>The derived \<^verbatim>\<open>Ord\<close>: declaration order.\<close>

instantiation ImpactTier :: linorder
begin

definition less_eq_ImpactTier :: "ImpactTier \<Rightarrow> ImpactTier \<Rightarrow> bool" where
  "less_eq_ImpactTier a b = (tier_index a \<le> tier_index b)"

definition less_ImpactTier :: "ImpactTier \<Rightarrow> ImpactTier \<Rightarrow> bool" where
  "less_ImpactTier a b = (tier_index a < tier_index b)"

instance
proof
  fix x y z :: ImpactTier
  show "x < y \<longleftrightarrow> x \<le> y \<and> \<not> y \<le> x" by (auto simp: less_eq_ImpactTier_def less_ImpactTier_def)
  show "x \<le> x" by (simp add: less_eq_ImpactTier_def)
  show "x \<le> y \<Longrightarrow> y \<le> z \<Longrightarrow> x \<le> z" by (simp add: less_eq_ImpactTier_def)
  show "x \<le> y \<or> y \<le> x" by (auto simp: less_eq_ImpactTier_def)
  show "x \<le> y \<Longrightarrow> y \<le> x \<Longrightarrow> x = y"
    by (cases x; cases y; simp add: less_eq_ImpactTier_def)
qed

end

lemmas tier_order_defs = less_eq_ImpactTier_def less_ImpactTier_def

fun default_requires_approval :: "ImpactTier \<Rightarrow> bool" where
  "default_requires_approval Tier3HighImpact = True"
| "default_requires_approval Tier4Critical = True"
| "default_requires_approval t = False"

fun must_fail_closed :: "ImpactTier \<Rightarrow> bool" where
  "must_fail_closed Tier2ControlledMutation = True"
| "must_fail_closed Tier3HighImpact = True"
| "must_fail_closed Tier4Critical = True"
| "must_fail_closed t = False"

fun tier_risk_weight :: "ImpactTier \<Rightarrow> rat" where
  "tier_risk_weight Tier0Observational = 0"
| "tier_risk_weight Tier1LowRiskRead = 15 / 100"
| "tier_risk_weight Tier2ControlledMutation = 4 / 10"
| "tier_risk_weight Tier3HighImpact = 75 / 100"
| "tier_risk_weight Tier4Critical = 1"

definition tier_conservative_default :: ImpactTier where
  "tier_conservative_default = Tier3HighImpact"

datatype SideEffectClass =
    Observational
  | InternalRead
  | InternalWrite
  | ExternalRead
  | ExternalWrite
  | Execute
  | PrivilegeChange
  | Destructive
  | Financial

fun floor_tier :: "SideEffectClass \<Rightarrow> ImpactTier" where
  "floor_tier Observational = Tier0Observational"
| "floor_tier InternalRead = Tier1LowRiskRead"
| "floor_tier InternalWrite = Tier2ControlledMutation"
| "floor_tier ExternalRead = Tier1LowRiskRead"
| "floor_tier ExternalWrite = Tier3HighImpact"
| "floor_tier Execute = Tier3HighImpact"
| "floor_tier PrivilegeChange = Tier4Critical"
| "floor_tier Destructive = Tier4Critical"
| "floor_tier Financial = Tier3HighImpact"

fun is_reversible :: "SideEffectClass \<Rightarrow> bool" where
  "is_reversible Observational = True"
| "is_reversible InternalRead = True"
| "is_reversible ExternalRead = True"
| "is_reversible InternalWrite = True"
| "is_reversible c = False"

fun is_egress :: "SideEffectClass \<Rightarrow> bool" where
  "is_egress ExternalWrite = True"
| "is_egress Financial = True"
| "is_egress c = False"

lemma tier_risk_weight_mono: "a \<le> b \<Longrightarrow> tier_risk_weight a \<le> tier_risk_weight b"
  by (cases a; cases b) (simp_all add: tier_order_defs)

lemma tier_risk_weight_bounds: "0 \<le> tier_risk_weight t \<and> tier_risk_weight t \<le> 1"
  by (cases t) simp_all

lemma must_fail_closed_iff: "must_fail_closed t \<longleftrightarrow> Tier2ControlledMutation \<le> t"
  by (cases t) (simp_all add: tier_order_defs)

lemma irreversible_fails_closed: "\<not> is_reversible c \<Longrightarrow> must_fail_closed (floor_tier c)"
  by (cases c) simp_all

section \<open>JSON values\<close>

text \<open>\<^verbatim>\<open>serde_json::Value\<close> with \<^verbatim>\<open>preserve_order\<close>: an object is its list of members.\<close>

datatype json =
    JNull
  | JBool bool
  | JInt int
  | JFloat f64
  | JStr string
  | JArr "json list"
  | JObj "(string \<times> json) list"

definition json_of_option :: "string option \<Rightarrow> json" where
  "json_of_option x = (case x of None \<Rightarrow> JNull | Some s \<Rightarrow> JStr s)"

definition json_of_strings :: "string list \<Rightarrow> json" where
  "json_of_strings xs = JArr (map JStr xs)"

lemma json_of_option_inj [simp]: "json_of_option a = json_of_option b \<longleftrightarrow> a = b"
  by (auto simp: json_of_option_def split: option.splits)

lemma json_of_strings_inj [simp]: "json_of_strings a = json_of_strings b \<longleftrightarrow> a = b"
  by (auto simp: json_of_strings_def inj_map_eq_map inj_def)

text \<open>Decimal digits, as \<^verbatim>\<open>format!\<close> prints an index.\<close>

fun show_nat :: "nat \<Rightarrow> string" where
  "show_nat n = (if n < 10 then [char_of (48 + n)] else show_nat (n div 10) @ [char_of (48 + n mod 10)])"

declare show_nat.simps [simp del]

fun collect_strings :: "string \<Rightarrow> json \<Rightarrow> (string \<times> string) list"
  and collect_items :: "string \<Rightarrow> nat \<Rightarrow> json list \<Rightarrow> (string \<times> string) list"
  and collect_fields :: "string \<Rightarrow> (string \<times> json) list \<Rightarrow> (string \<times> string) list"
where
  "collect_strings pre (JStr s) = [(pre, s)]"
| "collect_strings pre (JArr items) = collect_items pre 0 items"
| "collect_strings pre (JObj fields) = collect_fields pre fields"
| "collect_strings pre v = []"
| "collect_items pre i [] = []"
| "collect_items pre i (v # vs) =
     collect_strings (pre @ ''['' @ show_nat i @ '']'') v @ collect_items pre (Suc i) vs"
| "collect_fields pre [] = []"
| "collect_fields pre ((k, v) # fs) =
     collect_strings (pre @ ''.'' @ k) v @ collect_fields pre fs"

text \<open>Every string leaf of a value.\<close>

fun string_leaves :: "json \<Rightarrow> string list" where
  "string_leaves (JStr s) = [s]"
| "string_leaves (JArr items) = concat (map string_leaves items)"
| "string_leaves (JObj fields) = concat (map (\<lambda>(k, v). string_leaves v) fields)"
| "string_leaves v = []"

lemma collect_strings_leaves:
  "map snd (collect_strings pre v) = string_leaves v"
  "map snd (collect_items pre i vs) = concat (map string_leaves vs)"
  "map snd (collect_fields pre fs) = concat (map (\<lambda>(k, v). string_leaves v) fs)"
  by (induction pre v and pre i vs and pre fs
      rule: collect_strings_collect_items_collect_fields.induct) auto

section \<open>Actions\<close>

datatype ToolProtocol = Native | Mcp | A2a | Http | ShellProtocol | Filesystem | Sql

datatype MemoryScope = SessionScope | UserScope | AgentScope | TenantScope

record ProvenanceRef =
  pr_node_id :: string
  pr_trust_level :: TrustLevel
  pr_origin :: string
  pr_content_hash :: "string option"

record ToolCall =
  tc_protocol :: ToolProtocol
  tc_server :: "string option"
  tc_tool_id :: string
  tc_name :: string
  tc_version :: "string option"
  tc_operation :: "string option"
  tc_arguments :: json
  tc_target_resource :: "string option"
  tc_declared_side_effect :: "SideEffectClass option"

record ModelCall =
  mc_provider :: string
  mc_model :: string
  mc_purpose :: "string option"
  mc_context_provenance :: "ProvenanceRef list"
  mc_input_tokens :: "u64 option"
  mc_estimated_cost_usd :: "f64 option"

record NetworkRequest =
  nr_method :: string
  nr_url :: string
  nr_content_type :: "string option"
  nr_header_names :: "string list"
  nr_body :: "json option"
  nr_resolved_addresses :: "string list"
  nr_redirect_chain :: "string list"

record FileOperation =
  fo_operation :: string
  fo_path :: string
  fo_content :: "string option"
  fo_mode :: "string option"

record ShellExecution =
  se_command :: string
  se_argv :: "string list"
  se_cwd :: "string option"
  se_uses_shell :: bool

record DatabaseOperation =
  db_engine :: string
  db_statement :: string
  db_parameters :: "json list"
  db_database :: "string option"

record MemoryOperation =
  mo_namespace :: string
  mo_key :: string
  mo_content :: "string option"
  mo_asserted_trust :: "TrustLevel option"
  mo_scope :: MemoryScope

record AgentMessage =
  am_to_agent :: string
  am_content :: string
  am_content_provenance :: "ProvenanceRef list"

record Delegation =
  dg_delegate_to :: string
  dg_task :: string
  dg_granted_scope :: "string list"
  dg_depth :: u32
  dg_lineage :: "string list"

datatype Action =
    ActToolCall ToolCall
  | ActModelCall ModelCall
  | ActNetwork NetworkRequest
  | ActFile FileOperation
  | ActShell ShellExecution
  | ActDatabase DatabaseOperation
  | ActMemoryRead MemoryOperation
  | ActMemoryWrite MemoryOperation
  | ActAgentMessage AgentMessage
  | ActDelegation Delegation

fun action_kind :: "Action \<Rightarrow> string" where
  "action_kind (ActToolCall _) = ''tool_call''"
| "action_kind (ActModelCall _) = ''model_call''"
| "action_kind (ActNetwork _) = ''network''"
| "action_kind (ActFile _) = ''file''"
| "action_kind (ActShell _) = ''shell''"
| "action_kind (ActDatabase _) = ''database''"
| "action_kind (ActMemoryRead _) = ''memory_read''"
| "action_kind (ActMemoryWrite _) = ''memory_write''"
| "action_kind (ActAgentMessage _) = ''agent_message''"
| "action_kind (ActDelegation _) = ''delegation''"

text \<open>
  \<^verbatim>\<open>host_of\<close>: the authority between the scheme and the first of slash, question mark and hash,
  without user information and port.
\<close>

definition host_of :: "string \<Rightarrow> string option" where
  "host_of url =
     (case split_once ''://'' url of
        None \<Rightarrow> None
      | Some (_, rest) \<Rightarrow>
          let authority = hd (split_on (\<lambda>c. c = CHR ''/'' \<or> c = CHR ''?'' \<or> c = CHR ''#'') rest);
              host = last (split_on (\<lambda>c. c = CHR ''@'') authority)
          in Some (to_ascii_lowercase (hd (split_on (\<lambda>c. c = CHR '':'') host))))"

text \<open>What follows the first occurrence of a delimiter, or nothing.\<close>

definition after_first :: "string \<Rightarrow> string \<Rightarrow> string" where
  "after_first d s = (case split_once d s of Some (_, r) \<Rightarrow> r | None \<Rightarrow> [])"

lemma split_once_length: "split_once d s = Some (a, b) \<Longrightarrow> length b \<le> length s"
  by (induction s arbitrary: a b) (force split: if_splits)+

lemma after_first_length: "length (after_first d s) \<le> length s"
  by (auto simp: after_first_def split: option.splits dest: split_once_length)

lemma trim_start_length: "length (trim_start s) \<le> length s"
  by (simp add: trim_start_def length_dropWhile_le)

lemma trim_start_less: "length (trim_start s) < Suc (length s)"
  by (simp add: le_imp_less_Suc trim_start_length)

lemma trim_after_less: "length (trim_start (after_first d s)) < Suc (length s)"
  using trim_start_length [of "after_first d s"] after_first_length [of d s] by simp

lemma strip_prefix_Some: "strip_prefix s p = Some r \<longleftrightarrow> s = p @ r"
  by (auto simp: strip_prefix_def prefix_def split: if_splits)

text \<open>The loop of \<^verbatim>\<open>sql_operation\<close> that drops leading comments and parentheses.\<close>

function sql_strip :: "string \<Rightarrow> string" where
  "sql_strip s =
     (case strip_prefix s ''--'' of
        Some rest \<Rightarrow> sql_strip (trim_start (after_first [CHR 0x0A] rest))
      | None \<Rightarrow>
     (case strip_prefix s ''/*'' of
        Some rest \<Rightarrow> sql_strip (trim_start (after_first ''*/'' rest))
      | None \<Rightarrow>
     (case strip_prefix s [CHR 0x28] of
        Some rest \<Rightarrow> sql_strip (trim_start rest)
      | None \<Rightarrow> s)))"
  by pat_completeness auto
termination
  by (relation "measure length")
    (auto simp: strip_prefix_Some trim_start_less trim_after_less less_SucI)

declare sql_strip.simps [simp del]

definition sql_operation :: "string \<Rightarrow> string" where
  "sql_operation statement =
     (let s = sql_strip (trim_start statement);
          word = (case split_whitespace s of [] \<Rightarrow> [] | w # _ \<Rightarrow> w)
      in to_ascii_uppercase (trim_matches (\<lambda>c. \<not> is_ascii_alphabetic c) word))"

definition or_else :: "'a option \<Rightarrow> 'a \<Rightarrow> 'a" where
  "or_else x d = (case x of None \<Rightarrow> d | Some v \<Rightarrow> v)"

fun resource_name :: "Action \<Rightarrow> string" where
  "resource_name (ActToolCall t) = tc_name t"
| "resource_name (ActModelCall m) = mc_provider m @ ''/'' @ mc_model m"
| "resource_name (ActNetwork n) = ''net:'' @ or_else (host_of (nr_url n)) []"
| "resource_name (ActFile f) = ''file:'' @ fo_operation f"
| "resource_name (ActShell _) = ''shell:exec''"
| "resource_name (ActDatabase d) = ''db:'' @ db_engine d"
| "resource_name (ActMemoryRead m) = ''memory:'' @ mo_namespace m"
| "resource_name (ActMemoryWrite m) = ''memory:'' @ mo_namespace m"
| "resource_name (ActAgentMessage a) = ''agent:'' @ am_to_agent a"
| "resource_name (ActDelegation d) = ''delegate:'' @ dg_delegate_to d"

fun operation :: "Action \<Rightarrow> string" where
  "operation (ActToolCall t) = or_else (tc_operation t) ''invoke''"
| "operation (ActModelCall m) = or_else (mc_purpose m) ''invoke''"
| "operation (ActNetwork n) = to_ascii_uppercase (nr_method n)"
| "operation (ActFile f) = fo_operation f"
| "operation (ActShell _) = ''exec''"
| "operation (ActDatabase d) = sql_operation (db_statement d)"
| "operation (ActMemoryRead _) = ''read''"
| "operation (ActMemoryWrite _) = ''write''"
| "operation (ActAgentMessage _) = ''send''"
| "operation (ActDelegation _) = ''delegate''"

fun intrinsic_side_effect :: "Action \<Rightarrow> SideEffectClass" where
  "intrinsic_side_effect (ActToolCall t) = or_else (tc_declared_side_effect t) ExternalWrite"
| "intrinsic_side_effect (ActModelCall _) = Observational"
| "intrinsic_side_effect (ActNetwork n) =
     (if to_ascii_uppercase (nr_method n) \<in> {''GET'', ''HEAD''} then ExternalRead
      else ExternalWrite)"
| "intrinsic_side_effect (ActFile f) =
     (if fo_operation f \<in> {''read'', ''list''} then InternalRead
      else if fo_operation f = ''delete'' then Destructive
      else if fo_operation f = ''chmod'' then PrivilegeChange
      else InternalWrite)"
| "intrinsic_side_effect (ActShell _) = Execute"
| "intrinsic_side_effect (ActDatabase d) =
     (let op = sql_operation (db_statement d)
      in if op = ''SELECT'' then InternalRead
         else if op \<in> {''DROP'', ''TRUNCATE'', ''DELETE''} then Destructive
         else if op \<in> {''GRANT'', ''REVOKE'', ''ALTER''} then PrivilegeChange
         else InternalWrite)"
| "intrinsic_side_effect (ActMemoryRead _) = InternalRead"
| "intrinsic_side_effect (ActMemoryWrite _) = InternalWrite"
| "intrinsic_side_effect (ActAgentMessage _) = ExternalWrite"
| "intrinsic_side_effect (ActDelegation _) = PrivilegeChange"

definition option_entry :: "string \<Rightarrow> string option \<Rightarrow> (string \<times> string) list" where
  "option_entry k x = (case x of None \<Rightarrow> [] | Some v \<Rightarrow> [(k, v)])"

definition indexed :: "string \<Rightarrow> string list \<Rightarrow> (string \<times> string) list" where
  "indexed pre xs = map (\<lambda>(i, x). (pre @ ''['' @ show_nat i @ '']'', x)) (enumerate 0 xs)"

fun content_strings :: "Action \<Rightarrow> (string \<times> string) list" where
  "content_strings (ActToolCall t) =
     collect_strings ''arguments'' (tc_arguments t)
     @ option_entry ''target_resource'' (tc_target_resource t)"
| "content_strings (ActModelCall _) = []"
| "content_strings (ActNetwork n) =
     (''url'', nr_url n) #
     (case nr_body n of None \<Rightarrow> [] | Some b \<Rightarrow> collect_strings ''body'' b)"
| "content_strings (ActFile f) = (''path'', fo_path f) # option_entry ''content'' (fo_content f)"
| "content_strings (ActShell s) = (''command'', se_command s) # indexed ''argv'' (se_argv s)"
| "content_strings (ActDatabase d) =
     (''statement'', db_statement d) # collect_items ''parameters'' 0 (db_parameters d)"
| "content_strings (ActMemoryRead m) = (''key'', mo_key m) # option_entry ''content'' (mo_content m)"
| "content_strings (ActMemoryWrite m) = (''key'', mo_key m) # option_entry ''content'' (mo_content m)"
| "content_strings (ActAgentMessage a) = [(''content'', am_content a)]"
| "content_strings (ActDelegation d) =
     (''task'', dg_task d) # indexed ''granted_scope'' (dg_granted_scope d)"

fun protocol_str :: "ToolProtocol \<Rightarrow> string" where
  "protocol_str Native = ''native''"
| "protocol_str Mcp = ''mcp''"
| "protocol_str A2a = ''a2a''"
| "protocol_str Http = ''http''"
| "protocol_str ShellProtocol = ''shell''"
| "protocol_str Filesystem = ''filesystem''"
| "protocol_str Sql = ''sql''"

fun scope_str :: "MemoryScope \<Rightarrow> string" where
  "scope_str SessionScope = ''session''"
| "scope_str UserScope = ''user''"
| "scope_str AgentScope = ''agent''"
| "scope_str TenantScope = ''tenant''"

lemma protocol_str_inj [simp]: "protocol_str a = protocol_str b \<longleftrightarrow> a = b"
  by (cases a; cases b) simp_all

lemma scope_str_inj [simp]: "scope_str a = scope_str b \<longleftrightarrow> a = b"
  by (cases a; cases b) simp_all

fun material_projection :: "Action \<Rightarrow> json" where
  "material_projection (ActToolCall t) = JObj
     [(''kind'', JStr ''tool_call''), (''protocol'', JStr (protocol_str (tc_protocol t))),
      (''server'', json_of_option (tc_server t)), (''tool_id'', JStr (tc_tool_id t)),
      (''name'', JStr (tc_name t)), (''operation'', json_of_option (tc_operation t)),
      (''arguments'', tc_arguments t), (''target_resource'', json_of_option (tc_target_resource t))]"
| "material_projection (ActModelCall m) = JObj
     [(''kind'', JStr ''model_call''), (''provider'', JStr (mc_provider m)),
      (''model'', JStr (mc_model m)), (''purpose'', json_of_option (mc_purpose m))]"
| "material_projection (ActNetwork n) = JObj
     [(''kind'', JStr ''network''), (''method'', JStr (to_ascii_uppercase (nr_method n))),
      (''url'', JStr (nr_url n)), (''content_type'', json_of_option (nr_content_type n)),
      (''body'', or_else (nr_body n) JNull)]"
| "material_projection (ActFile f) = JObj
     [(''kind'', JStr ''file''), (''operation'', JStr (fo_operation f)), (''path'', JStr (fo_path f)),
      (''content'', json_of_option (fo_content f)), (''mode'', json_of_option (fo_mode f))]"
| "material_projection (ActShell s) = JObj
     [(''kind'', JStr ''shell''), (''command'', JStr (se_command s)),
      (''argv'', json_of_strings (se_argv s)), (''cwd'', json_of_option (se_cwd s)),
      (''uses_shell'', JBool (se_uses_shell s))]"
| "material_projection (ActDatabase d) = JObj
     [(''kind'', JStr ''database''), (''engine'', JStr (db_engine d)),
      (''statement'', JStr (db_statement d)), (''parameters'', JArr (db_parameters d)),
      (''database'', json_of_option (db_database d))]"
| "material_projection (ActMemoryRead m) = JObj
     [(''kind'', JStr ''memory_read''), (''namespace'', JStr (mo_namespace m)),
      (''key'', JStr (mo_key m)), (''scope'', JStr (scope_str (mo_scope m)))]"
| "material_projection (ActMemoryWrite m) = JObj
     [(''kind'', JStr ''memory_write''), (''namespace'', JStr (mo_namespace m)),
      (''key'', JStr (mo_key m)), (''content'', json_of_option (mo_content m)),
      (''scope'', JStr (scope_str (mo_scope m)))]"
| "material_projection (ActAgentMessage a) = JObj
     [(''kind'', JStr ''agent_message''), (''to_agent'', JStr (am_to_agent a)),
      (''content'', JStr (am_content a))]"
| "material_projection (ActDelegation d) = JObj
     [(''kind'', JStr ''delegation''), (''delegate_to'', JStr (dg_delegate_to d)),
      (''task'', JStr (dg_task d)), (''granted_scope'', json_of_strings (dg_granted_scope d)),
      (''depth'', JInt (uint (dg_depth d)))]"

text \<open>
  The part of an action that its projection keeps: the transport version and the caller's
  side-effect claim, provenance, cost and resolution data, the letter case of an HTTP method, the
  lineage of a delegation, and the content and claimed trust of a memory read are dropped.
\<close>

fun material_core :: "Action \<Rightarrow> Action" where
  "material_core (ActToolCall t) =
     ActToolCall (t\<lparr>tc_version := None, tc_declared_side_effect := None\<rparr>)"
| "material_core (ActModelCall m) =
     ActModelCall (m\<lparr>mc_context_provenance := [], mc_input_tokens := None,
                     mc_estimated_cost_usd := None\<rparr>)"
| "material_core (ActNetwork n) =
     ActNetwork (n\<lparr>nr_method := to_ascii_uppercase (nr_method n), nr_header_names := [],
                   nr_body := Some (or_else (nr_body n) JNull),
                   nr_resolved_addresses := [], nr_redirect_chain := []\<rparr>)"
| "material_core (ActMemoryRead m) =
     ActMemoryRead (m\<lparr>mo_content := None, mo_asserted_trust := None\<rparr>)"
| "material_core (ActMemoryWrite m) = ActMemoryWrite (m\<lparr>mo_asserted_trust := None\<rparr>)"
| "material_core (ActAgentMessage a) = ActAgentMessage (a\<lparr>am_content_provenance := []\<rparr>)"
| "material_core (ActDelegation d) = ActDelegation (d\<lparr>dg_lineage := []\<rparr>)"
| "material_core a = a"

lemma material_projection_core: "material_projection (material_core a) = material_projection a"
proof (cases a)
  case (ActNetwork n)
  have "to_ascii_uppercase_char (to_ascii_uppercase_char c) = to_ascii_uppercase_char c" for c
    by (auto simp: to_ascii_uppercase_char_def Let_def of_char_of)
  then show ?thesis
    using ActNetwork by (simp add: or_else_def to_ascii_uppercase_def)
qed simp_all

lemma material_core_projection:
  assumes "material_projection a = material_projection b"
  shows "material_core a = material_core b"
proof (cases a)
  case (ActToolCall x)
  with assms show ?thesis by (cases b) auto
next
  case (ActModelCall x)
  with assms show ?thesis by (cases b) auto
next
  case (ActNetwork x)
  with assms show ?thesis by (cases b) auto
next
  case (ActFile x)
  with assms show ?thesis by (cases b) auto
next
  case (ActShell x)
  with assms show ?thesis by (cases b) auto
next
  case (ActDatabase x)
  with assms show ?thesis by (cases b) auto
next
  case (ActMemoryRead x)
  with assms show ?thesis by (cases b) auto
next
  case (ActMemoryWrite x)
  with assms show ?thesis by (cases b) auto
next
  case (ActAgentMessage x)
  with assms show ?thesis by (cases b) auto
next
  case (ActDelegation x)
  with assms show ?thesis by (cases b) (auto simp: word_uint_eq_iff)
qed

section \<open>Principals and requests\<close>

datatype PrincipalKind = Human | Service | AgentPrincipal | Anonymous

definition is_accountable_human :: "PrincipalKind \<Rightarrow> bool" where
  "is_accountable_human k = (k = Human)"

record Principal =
  p_id :: string
  p_kind :: PrincipalKind
  p_tenant_id :: string
  p_roles :: "string list"
  p_auth_method :: "string option"
  p_mfa :: bool

definition has_role :: "Principal \<Rightarrow> string \<Rightarrow> bool" where
  "has_role p r = (r \<in> set (p_roles p))"

record WorkloadIdentity =
  wi_id :: string
  wi_attestation_method :: string
  wi_verified :: bool

definition wi_unverified :: "string \<Rightarrow> WorkloadIdentity" where
  "wi_unverified claimed =
     \<lparr>wi_id = claimed, wi_attestation_method = ''self_asserted'', wi_verified = False\<rparr>"

definition wi_attested :: "string \<Rightarrow> string \<Rightarrow> WorkloadIdentity" where
  "wi_attested i m = \<lparr>wi_id = i, wi_attestation_method = m, wi_verified = True\<rparr>"

text \<open>
  The fields of a request context that the core reads. The declared objective, the action
  rationale and the adapter metadata are carried for forensics.
\<close>

record RequestContext =
  rc_declared_objective :: "string option"
  rc_action_rationale :: "string option"
  rc_influencing_sources :: "ProvenanceRef list"
  rc_step :: u32
  rc_approval_token :: "string option"
  rc_adapter_metadata :: json

record TraceContext =
  tx_trace_id :: "string option"
  tx_span_id :: "string option"
  tx_parent_span_id :: "string option"

record ActionRequest =
  ar_schema_version :: string
  ar_request_id :: string
  ar_occurred_at :: timestamp
  ar_tenant_id :: string
  ar_environment_id :: string
  ar_session_id :: string
  ar_agent_id :: string
  ar_agent_instance_id :: string
  ar_principal :: Principal
  ar_workload_identity :: "WorkloadIdentity option"
  ar_trace :: TraceContext
  ar_action :: Action
  ar_context :: RequestContext

definition SCHEMA_VERSION :: string where
  "SCHEMA_VERSION = ''vigil.v1''"

text \<open>\<^verbatim>\<open>str::parse::<u32>\<close>: an optional plus sign, then digits, within the range.\<close>

definition digit_value :: "char \<Rightarrow> nat option" where
  "digit_value c =
     (let n = (of_char c :: nat) in if 48 \<le> n \<and> n \<le> 57 then Some (n - 48) else None)"

fun parse_digits :: "nat \<Rightarrow> string \<Rightarrow> nat option" where
  "parse_digits acc [] = Some acc"
| "parse_digits acc (c # cs) =
     (case digit_value c of
        None \<Rightarrow> None
      | Some d \<Rightarrow> (let acc' = 10 * acc + d in if acc' < 2 ^ 32 then parse_digits acc' cs else None))"

definition parse_u32 :: "string \<Rightarrow> nat option" where
  "parse_u32 s =
     (let ds = (case s of c # cs \<Rightarrow> if c = CHR ''+'' then cs else s | [] \<Rightarrow> [])
      in if ds = [] then None else parse_digits 0 ds)"

definition schema_major :: "string \<Rightarrow> nat option" where
  "schema_major version =
     (case split_once ''.'' version of
        None \<Rightarrow> None
      | Some (namespace, major) \<Rightarrow>
          if namespace \<noteq> ''vigil'' then None
          else (case strip_prefix major ''v'' of None \<Rightarrow> None | Some n \<Rightarrow> parse_u32 n))"

definition schema_major_of_this_build :: nat where
  "schema_major_of_this_build = or_else (schema_major SCHEMA_VERSION) 1"

datatype request_error =
    UnsupportedSchema
  | PrincipalTenantMismatch
  | HeaderNameHasValue
  | LineageTooLong

definition check_schema_version :: "string \<Rightarrow> request_error + unit" where
  "check_schema_version received =
     ensure (received = SCHEMA_VERSION \<or> schema_major received = Some schema_major_of_this_build)
       UnsupportedSchema"

definition request_validate :: "ActionRequest \<Rightarrow> request_error + unit" where
  "request_validate r =
     rbind (check_schema_version (ar_schema_version r)) (\<lambda>_.
     rbind (ensure (p_tenant_id (ar_principal r) = ar_tenant_id r) PrincipalTenantMismatch) (\<lambda>_.
     rbind (case ar_action r of
              ActNetwork n \<Rightarrow> ensure (\<not> list_ex (\<lambda>h. CHR '':'' \<in> set h) (nr_header_names n))
                               HeaderNameHasValue
            | _ \<Rightarrow> Inr ()) (\<lambda>_.
     (case ar_action r of
        ActDelegation d \<Rightarrow> ensure (\<not> 64 < length (dg_lineage d)) LineageTooLong
      | _ \<Rightarrow> Inr ()))))"

definition request_material_projection :: "ActionRequest \<Rightarrow> json" where
  "request_material_projection r = JObj
     [(''schema'', JStr SCHEMA_VERSION), (''tenant_id'', JStr (ar_tenant_id r)),
      (''environment_id'', JStr (ar_environment_id r)), (''agent_id'', JStr (ar_agent_id r)),
      (''session_id'', JStr (ar_session_id r)), (''principal_id'', JStr (p_id (ar_principal r))),
      (''action'', material_projection (ar_action r))]"

definition descriptor :: "ActionRequest \<Rightarrow> string" where
  "descriptor r = action_kind (ar_action r) @ '':'' @ resource_name (ar_action r)"

section \<open>Sample inputs\<close>

definition sample_request :: "Action \<Rightarrow> ActionRequest" where
  "sample_request a = \<lparr>ar_schema_version = ''vigil.v1'', ar_request_id = ''r1'', ar_occurred_at = 0,
     ar_tenant_id = ''t1'', ar_environment_id = ''prod'', ar_session_id = ''s1'', ar_agent_id = ''support'',
     ar_agent_instance_id = ''i1'',
     ar_principal = \<lparr>p_id = ''u1'', p_kind = Human, p_tenant_id = ''t1'', p_roles = [],
       p_auth_method = None, p_mfa = False\<rparr>,
     ar_workload_identity = None,
     ar_trace = \<lparr>tx_trace_id = None, tx_span_id = None, tx_parent_span_id = None\<rparr>,
     ar_action = a,
     ar_context = \<lparr>rc_declared_objective = None, rc_action_rationale = None, rc_influencing_sources = [],
       rc_step = 0, rc_approval_token = None, rc_adapter_metadata = JNull\<rparr>\<rparr>"

definition sample_shell :: Action where
  "sample_shell = ActShell \<lparr>se_command = ''ls'', se_argv = [], se_cwd = None, se_uses_shell = False\<rparr>"

definition sample_statement :: "string \<Rightarrow> Action" where
  "sample_statement s = ActDatabase \<lparr>db_engine = ''pg'', db_statement = s, db_parameters = [], db_database = None\<rparr>"

section \<open>Lemmas on statements\<close>

lemma after_first_found:
  "\<not> sublist d (butlast (c @ d)) \<Longrightarrow> d \<noteq> [] \<Longrightarrow> after_first d (c @ d @ s) = s"
proof (induction c)
  case Nil
  then show ?case by (cases d) (auto simp: after_first_def)
next
  case (Cons x c)
  have "\<not> prefix d (x # c @ d @ s)"
  proof
    assume "prefix d (x # c @ d @ s)"
    then have "prefix d ((x # butlast (c @ d)) @ last (c @ d) # s)"
      using Cons.prems(2) by (metis append.assoc append_Cons append_butlast_last_id append_is_Nil_conv append_Nil)
    moreover have "length d \<le> length (x # butlast (c @ d))" using Cons.prems(2) by simp
    ultimately have "prefix d (x # butlast (c @ d))"
      by (meson prefix_def prefix_length_prefix)
    then show False using Cons.prems by (auto simp: prefix_imp_sublist)
  qed
  moreover have "after_first d (c @ d @ s) = s"
    using Cons by (auto simp: sublist_Cons_right)
  moreover have "split_once d (c @ d @ s) \<noteq> None"
  proof (induction c)
    case Nil
    then show ?case using Cons.prems(2) by (cases d) auto
  qed auto
  ultimately show ?case by (auto simp: after_first_def split: option.splits)
qed

lemma sql_strip_block: "sql_strip (''/*'' @ r) = sql_strip (trim_start (after_first ''*/'' r))"
  by (subst sql_strip.simps) (simp add: strip_prefix_def)

lemma sql_strip_line: "sql_strip (''--'' @ r) = sql_strip (trim_start (after_first [CHR 0x0A] r))"
  by (subst sql_strip.simps) (simp add: strip_prefix_def)

lemma sql_strip_paren: "sql_strip (CHR 0x28 # r) = sql_strip (trim_start r)"
  by (subst sql_strip.simps) (simp add: strip_prefix_def)

lemma trim_start_nonspace: "\<not> is_whitespace c \<Longrightarrow> trim_start (c # s) = c # s"
  by (simp add: trim_start_def)

lemma newline_absent: "CHR 0x0A \<notin> set c \<Longrightarrow> \<not> sublist [CHR 0x0A] (butlast (c @ [CHR 0x0A]))"
  by (auto dest: set_mono_sublist)

section \<open>Properties\<close>

text \<open>
  A leading comment or parenthesis does not hide the operation of a statement: the classified
  verb is that of the statement behind it, whatever the comment contains up to its end.
\<close>

theorem sql_operation_skips_comments:
  "(\<not> sublist ''*/'' (c @ ''*'') \<longrightarrow> sql_operation (''/*'' @ c @ ''*/'' @ s) = sql_operation s) \<and>
   (CHR 0x0A \<notin> set d \<longrightarrow> sql_operation (''--'' @ d @ [CHR 0x0A] @ s) = sql_operation s) \<and>
   sql_operation (CHR 0x28 # s) = sql_operation s"
proof (intro conjI impI)
  assume "\<not> sublist ''*/'' (c @ ''*'')"
  then have "after_first ''*/'' (c @ ''*/'' @ s) = s"
    by (intro after_first_found) (simp_all add: butlast_append)
  then show "sql_operation (''/*'' @ c @ ''*/'' @ s) = sql_operation s"
    using sql_strip_block [of "c @ ''*/'' @ s"] trim_start_nonspace [of "CHR ''/''"]
    by (simp add: sql_operation_def is_whitespace_def)
next
  assume "CHR 0x0A \<notin> set d"
  then have "after_first [CHR 0x0A] (d @ [CHR 0x0A] @ s) = s"
    using newline_absent by (intro after_first_found) simp_all
  then show "sql_operation (''--'' @ d @ [CHR 0x0A] @ s) = sql_operation s"
    using sql_strip_line [of "d @ [CHR 0x0A] @ s"] trim_start_nonspace [of "CHR ''-''"]
    by (simp add: sql_operation_def is_whitespace_def)
next
  show "sql_operation (CHR 0x28 # s) = sql_operation s"
    using sql_strip_paren [of s] trim_start_nonspace [of "CHR 0x28"]
    by (simp add: sql_operation_def is_whitespace_def)
qed

theorem sql_operation_skips_comments_witness:
  "sql_operation (''/*'' @ ''x'' @ ''*/'' @ ''drop table t'') = sql_operation ''drop table t''"
proof -
  have "\<not> sublist ''*/'' (''x'' @ ''*'')" by code_simp
  then show ?thesis using sql_operation_skips_comments [of "''x''" "''drop table t''"] by blast
qed

text \<open>
  A comment between the verb and its object does hide it: the statement that drops a table is
  classified as an ordinary write when an empty comment replaces the space, two tiers lower.
\<close>

theorem sql_inline_comment_lowers_tier:
  "intrinsic_side_effect (sample_statement ''DROP TABLE t'') = Destructive \<and>
   intrinsic_side_effect (sample_statement ''DROP/**/TABLE t'') = InternalWrite \<and>
   floor_tier InternalWrite < floor_tier Destructive"
  by code_simp

text \<open>
  Structural validation accepts a request exactly when the schema is this build's or has its
  major version, the principal belongs to the tenant of the request, no header name carries a
  value, and a delegation lineage has at most 64 entries.
\<close>

theorem request_validate_ok:
  "request_validate r = Inr () \<longleftrightarrow>
     (ar_schema_version r = SCHEMA_VERSION \<or>
        schema_major (ar_schema_version r) = Some schema_major_of_this_build) \<and>
     p_tenant_id (ar_principal r) = ar_tenant_id r \<and>
     (case ar_action r of
        ActNetwork n \<Rightarrow> (\<forall>h. h \<in> set (nr_header_names n) \<longrightarrow> CHR '':'' \<notin> set h)
      | ActDelegation d \<Rightarrow> length (dg_lineage d) \<le> 64
      | _ \<Rightarrow> True)"
  by (cases "ar_action r")
    (auto simp: request_validate_def check_schema_version_def result_simps list_ex_iff)

theorem request_validate_ok_witness:
  "request_validate (sample_request sample_shell) = Inr ()"
  using request_validate_ok [of "sample_request sample_shell"]
  by (simp add: sample_request_def sample_shell_def SCHEMA_VERSION_def)

end
