(* ===== verification/Canonical.thy ===== *)
theory Canonical
  imports Actions "HOL-Library.List_Lexorder"
begin

text \<open>
  The canonical JSON of \<^verbatim>\<open>vigil-common/src/canonical.rs\<close>, on which every hash and signature of the
  system rests, the content hash of \<^verbatim>\<open>hash.rs\<close> and the action hash of a request. The shortest
  decimal rendering of a double and its parser (serde_json) and the digest (sha2) are arguments.
  The order of keys by UTF-16 code units is, below U+0100, the order of the scalars.
\<close>

section \<open>Writing a value\<close>

text \<open>How \<^verbatim>\<open>serde_json\<close> renders and parses a number that is not an integer.\<close>

record number_format =
  nf_render :: "rat \<Rightarrow> string"
  nf_parse :: "string \<Rightarrow> rat option"

datatype canon_error =
    NonFinite
  | MagnitudeTooLarge
  | NeedsExponent
  | NoRoundTrip

definition show_int :: "int \<Rightarrow> string" where
  "show_int i = (if i < 0 then CHR ''-'' # show_nat (nat (- i)) else show_nat (nat i))"

definition is_integral :: "rat \<Rightarrow> bool" where
  "is_integral f = (of_int \<lfloor>f\<rfloor> = f)"

definition MAX_CANONICAL_MAGNITUDE :: rat where
  "MAX_CANONICAL_MAGNITUDE = 10 ^ 16"

definition write_float :: "number_format \<Rightarrow> rat \<Rightarrow> canon_error + string" where
  "write_float nf f =
     (if \<bar>f\<bar> \<ge> MAX_CANONICAL_MAGNITUDE then Inl MagnitudeTooLarge
      else if is_integral f \<and> \<bar>f\<bar> < 9007199254740992 then Inr (show_int \<lfloor>f\<rfloor>)
      else let rendered = nf_render nf f
           in if CHR ''e'' \<in> set rendered \<or> CHR ''E'' \<in> set rendered then Inl NeedsExponent
              else if nf_parse nf rendered \<noteq> Some f then Inl NoRoundTrip
              else Inr rendered)"

definition hex_digit :: "nat \<Rightarrow> char" where
  "hex_digit n = (if n < 10 then char_of (48 + n) else char_of (87 + n))"

definition short_form :: "char \<Rightarrow> char option" where
  "short_form = map_of
     [(CHR 0x22, CHR 0x22), (CHR 0x5C, CHR 0x5C), (CHR 0x08, CHR ''b''), (CHR 0x09, CHR ''t''),
      (CHR 0x0A, CHR ''n''), (CHR 0x0C, CHR ''f''), (CHR 0x0D, CHR ''r'')]"

definition escape_char :: "char \<Rightarrow> string" where
  "escape_char c =
     (case short_form c of
        Some d \<Rightarrow> [CHR 0x5C, d]
      | None \<Rightarrow>
          if of_char c < (32 :: nat)
          then [CHR 0x5C, CHR ''u'', CHR ''0'', CHR ''0'',
                hex_digit (of_char c div 16), hex_digit (of_char c mod 16)]
          else [c])"

definition write_string :: "string \<Rightarrow> string" where
  "write_string s = CHR 0x22 # concat (map escape_char s) @ [CHR 0x22]"

text \<open>The outputs of the elements, separated by commas; the first failure is the result.\<close>

fun join_results :: "(canon_error + string) list \<Rightarrow> canon_error + string" where
  "join_results [] = Inr []"
| "join_results [x] = x"
| "join_results (x # y # ys) =
     rbind x (\<lambda>a. rbind (join_results (y # ys)) (\<lambda>b. Inr (a @ CHR '','' # b)))"

definition write_member :: "string \<times> (canon_error + string) \<Rightarrow> canon_error + string" where
  "write_member m = rbind (snd m) (\<lambda>v. Inr (write_string (fst m) @ CHR '':'' # v))"

fun write_value :: "number_format \<Rightarrow> json \<Rightarrow> canon_error + string" where
  "write_value nf JNull = Inr ''null''"
| "write_value nf (JBool b) = Inr (if b then ''true'' else ''false'')"
| "write_value nf (JInt i) = Inr (show_int i)"
| "write_value nf (JFloat f) = (case f of Fin q \<Rightarrow> write_float nf q | _ \<Rightarrow> Inl NonFinite)"
| "write_value nf (JStr s) = Inr (write_string s)"
| "write_value nf (JArr items) =
     rbind (join_results (map (write_value nf) items)) (\<lambda>a. Inr (CHR ''['' # a @ '']''))"
| "write_value nf (JObj ms) =
     rbind (join_results (map write_member
              (sort_key fst (map (\<lambda>(k, v). (k, write_value nf v)) ms))))
       (\<lambda>a. Inr (CHR ''{'' # a @ ''}''))"

definition canonicalize :: "number_format \<Rightarrow> json \<Rightarrow> canon_error + string" where
  "canonicalize nf v = write_value nf v"

text \<open>\<^verbatim>\<open>String::into_bytes\<close>: UTF-8.\<close>

definition utf8_char :: "char \<Rightarrow> u8 list" where
  "utf8_char c =
     (let n = (of_char c :: nat)
      in if n < 128 then [of_nat n] else [of_nat (192 + n div 64), of_nat (128 + n mod 64)])"

definition utf8 :: "string \<Rightarrow> u8 list" where
  "utf8 s = concat (map utf8_char s)"

definition canonical_bytes :: "number_format \<Rightarrow> json \<Rightarrow> canon_error + u8 list" where
  "canonical_bytes nf v = rbind (canonicalize nf v) (\<lambda>s. Inr (utf8 s))"

section \<open>Content hashes\<close>

datatype HashAlgorithm = Sha256

fun hash_label :: "HashAlgorithm \<Rightarrow> string" where
  "hash_label Sha256 = ''sha256''"

definition hash_algorithm_from_str :: "string \<Rightarrow> HashAlgorithm option" where
  "hash_algorithm_from_str s = (if s = ''sha256'' then Some Sha256 else None)"

record ContentHash =
  ch_algorithm :: HashAlgorithm
  ch_hex :: string

text \<open>The digest in lowercase hexadecimal is an argument.\<close>

definition hash_bytes :: "(u8 list \<Rightarrow> string) \<Rightarrow> u8 list \<Rightarrow> ContentHash" where
  "hash_bytes sha bytes = \<lparr>ch_algorithm = Sha256, ch_hex = sha bytes\<rparr>"

definition hash_canonical_json ::
  "number_format \<Rightarrow> (u8 list \<Rightarrow> string) \<Rightarrow> json \<Rightarrow> canon_error + ContentHash" where
  "hash_canonical_json nf sha v = rbind (canonical_bytes nf v) (\<lambda>b. Inr (hash_bytes sha b))"

text \<open>\<^verbatim>\<open>ct_eq\<close> accumulates the differences of the bytes.\<close>

unbundle bit_operations_syntax

definition ct_diff :: "u8 list \<Rightarrow> u8 list \<Rightarrow> u8" where
  "ct_diff xs ys = foldl (\<lambda>diff (a, b). diff OR (a XOR b)) 0 (zip xs ys)"

definition ct_eq :: "ContentHash \<Rightarrow> ContentHash \<Rightarrow> bool" where
  "ct_eq a b =
     (if ch_algorithm a \<noteq> ch_algorithm b \<or> str_len (ch_hex a) \<noteq> str_len (ch_hex b) then False
      else ct_diff (utf8 (ch_hex a)) (utf8 (ch_hex b)) = 0)"

definition hash_display :: "ContentHash \<Rightarrow> string" where
  "hash_display h = hash_label (ch_algorithm h) @ '':'' @ ch_hex h"

definition is_lower_hex :: "char \<Rightarrow> bool" where
  "is_lower_hex c = (let n = (of_char c :: nat) in (48 \<le> n \<and> n \<le> 57) \<or> (97 \<le> n \<and> n \<le> 102))"

definition hash_from_str :: "string \<Rightarrow> ContentHash option" where
  "hash_from_str s =
     (case split_once '':'' s of
        None \<Rightarrow> None
      | Some (alg, hex_part) \<Rightarrow>
          (case hash_algorithm_from_str alg of
             None \<Rightarrow> None
           | Some a \<Rightarrow>
               if str_len hex_part \<noteq> 64 \<or> \<not> list_all is_lower_hex hex_part then None
               else Some \<lparr>ch_algorithm = a, ch_hex = hex_part\<rparr>))"

definition request_action_hash ::
  "number_format \<Rightarrow> (u8 list \<Rightarrow> string) \<Rightarrow> ActionRequest \<Rightarrow> canon_error + ContentHash" where
  "request_action_hash nf sha r = hash_canonical_json nf sha (request_material_projection r)"

section \<open>Tokens\<close>

definition is_digit :: "char \<Rightarrow> bool" where
  "is_digit c = (let n = (of_char c :: nat) in 48 \<le> n \<and> n \<le> 57)"

definition number_char :: "char \<Rightarrow> bool" where
  "number_char c = (is_digit c \<or> c = CHR ''-'' \<or> c = CHR ''.'')"

definition digits_value :: "string \<Rightarrow> nat" where
  "digits_value s = foldl (\<lambda>a c. 10 * a + (of_char c - 48)) 0 s"

lemma of_char_digit: "n < 10 \<Longrightarrow> of_char (char_of (48 + n) :: char) = (48 + n :: nat)"
  by (simp add: of_char_of)

lemma show_nat_value: "digits_value (show_nat n) = n"
proof (induction n rule: show_nat.induct)
  case (1 n)
  then show ?case
    by (subst show_nat.simps) (auto simp: digits_value_def of_char_of)
qed

lemma show_nat_digits: "list_all is_digit (show_nat n) \<and> show_nat n \<noteq> []"
proof (induction n rule: show_nat.induct)
  case (1 n)
  then show ?case
    using show_nat.simps [of n] by (auto simp: is_digit_def of_char_of)
qed

lemma show_nat_inj: "show_nat m = show_nat n \<Longrightarrow> m = n"
  by (metis show_nat_value)

lemma minus_not_digit: "\<not> is_digit (CHR ''-'')" "\<not> is_digit (CHR ''.'')"
  by (simp_all add: is_digit_def)

lemma show_int_chars: "list_all number_char (show_int i) \<and> show_int i \<noteq> [] \<and> CHR ''.'' \<notin> set (show_int i)"
  using show_nat_digits [of "nat i"] show_nat_digits [of "nat (- i)"] minus_not_digit
  by (auto simp: show_int_def number_char_def list_all_iff)

lemma show_nat_no_minus: "show_nat n \<noteq> CHR ''-'' # x"
  using show_nat_digits [of n] minus_not_digit by (auto simp: list_all_iff)

lemma show_int_inj: "show_int i = show_int j \<Longrightarrow> i = j"
  using show_nat_no_minus show_nat_inj [of "nat i" "nat j"] show_nat_inj [of "nat (- i)" "nat (- j)"]
  by (auto simp: show_int_def split: if_splits) (metis show_nat_no_minus)

text \<open>A token of number characters ends where the first other character stands.\<close>

definition ends :: "string \<Rightarrow> bool" where
  "ends r \<longleftrightarrow> r = [] \<or> hd r = CHR '','' \<or> hd r = CHR '']'' \<or> hd r = CHR ''}''"

lemma ends_Cons [simp]: "ends (CHR '','' # r)" "ends (CHR '']'' # r)" "ends (CHR ''}'' # r)" "ends []"
  by (simp_all add: ends_def)

lemma ends_takeWhile: "list_all number_char a \<Longrightarrow> ends r \<Longrightarrow> takeWhile number_char (a @ r) = a"
proof -
  assume a: "list_all number_char a" and r: "ends r"
  have "takeWhile number_char r = []"
    using r by (cases r) (auto simp: ends_def number_char_def is_digit_def)
  with a show ?thesis by (simp add: takeWhile_append list_all_iff)
qed

lemma number_token:
  assumes "list_all number_char a" "list_all number_char b" "a @ r = b @ s" "ends r" "ends s"
  shows "a = b \<and> r = s"
  using assms ends_takeWhile [of a r] ends_takeWhile [of b s] by simp

text \<open>An escaped character determines the character and where it ends.\<close>

lemma short_form_facts:
  "short_form c = Some d \<Longrightarrow> d \<noteq> CHR ''u''"
  "short_form c = Some d \<Longrightarrow> short_form c' = Some d \<Longrightarrow> c = c'"
  "short_form c = None \<Longrightarrow> c \<noteq> CHR 0x22 \<and> c \<noteq> CHR 0x5C"
  by (auto simp: short_form_def split: if_splits)

lemma escape_cases:
  obtains (plain) "escape_char c = [c]" "short_form c = None"
  | (pair) d where "escape_char c = [CHR 0x5C, d]" "short_form c = Some d"
  | (hex) "escape_char c = [CHR 0x5C, CHR ''u'', CHR ''0'', CHR ''0'',
        hex_digit (of_char c div 16), hex_digit (of_char c mod 16)]"
      "of_char c < (32 :: nat)"
  by (cases "short_form c"; cases "of_char c < (32 :: nat)") (simp_all add: escape_char_def)

lemma hex_digit_inj: "m < 16 \<Longrightarrow> n < 16 \<Longrightarrow> hex_digit m = hex_digit n \<Longrightarrow> m = n"
proof -
  assume mn: "m < 16" "n < 16" and h: "hex_digit m = hex_digit n"
  have val: "(of_char (hex_digit k) :: nat) = (if k < 10 then 48 + k else 87 + k)" if "k < 16" for k
    using that by (simp add: hex_digit_def of_char_of)
  have "(of_char (hex_digit m) :: nat) = of_char (hex_digit n)" using h by simp
  then show "m = n" using val [OF mn(1)] val [OF mn(2)] mn by (auto split: if_splits)
qed

lemma escape_inj:
  assumes "escape_char c @ x = escape_char d @ y"
  shows "c = d \<and> x = y"
proof -
  have hexeq: "c = d" if "hex_digit (of_char c div 16) = hex_digit (of_char d div 16)"
    "hex_digit (of_char c mod 16) = hex_digit (of_char d mod 16)" "of_char c < (32::nat)" "of_char d < (32::nat)"
  proof -
    have "(of_char c :: nat) div 16 = of_char d div 16" "(of_char c :: nat) mod 16 = of_char d mod 16"
      using that by (auto intro!: hex_digit_inj)
    then have "(of_char c :: nat) = of_char d" by (metis div_mult_mod_eq)
    then show ?thesis by simp
  qed
  show ?thesis
  proof (cases c rule: escape_cases)
    case plain
    then show ?thesis
      by (cases d rule: escape_cases) (use assms short_form_facts(3) [of c] in auto)
  next
    case (pair e)
    then show ?thesis
    proof (cases d rule: escape_cases)
      case plain
      then show ?thesis using assms pair short_form_facts(3) [of d] by auto
    next
      case pair2: (pair f)
      then have "e = f" "x = y" using assms pair by auto
      with short_form_facts(2) [OF pair(2), of d] pair2(2) show ?thesis by blast
    next
      case hex
      then show ?thesis using assms pair short_form_facts(1) [OF pair(2)] by auto
    qed
  next
    case hex
    then show ?thesis
    proof (cases d rule: escape_cases)
      case (pair e)
      then show ?thesis using assms hex short_form_facts(1) [of d] by auto
    next
      case plain
      then show ?thesis using assms hex short_form_facts(3) [of d] by auto
    next
      case hex2: hex
      then show ?thesis using assms hex hexeq by auto
    qed
  qed
qed

lemma escape_no_quote: "escape_char c @ x \<noteq> CHR 0x22 # y"
  by (cases c rule: escape_cases) (use short_form_facts(3) [of c] in auto)

lemma escaped_inj:
  "concat (map escape_char cs) @ CHR 0x22 # r = concat (map escape_char ds) @ CHR 0x22 # s \<Longrightarrow> cs = ds \<and> r = s"
proof (induction cs arbitrary: ds)
  case Nil
  then show ?case by (cases ds) (auto simp: escape_no_quote [symmetric])
next
  case (Cons c cs)
  show ?case
  proof (cases ds)
    case Nil
    with Cons.prems escape_no_quote [of c "concat (map escape_char cs) @ CHR 0x22 # r" s] show ?thesis by simp
  next
    case (Cons d ds')
    with Cons.prems escape_inj [of c "concat (map escape_char cs) @ CHR 0x22 # r" d
        "concat (map escape_char ds') @ CHR 0x22 # s"] Cons.IH [of ds']
    show ?thesis by simp
  qed
qed

lemma write_string_inj: "write_string k @ r = write_string k' @ s \<Longrightarrow> k = k' \<and> r = s"
  using escaped_inj [of k r k' s] by (simp add: write_string_def)

section \<open>Unique readability\<close>

text \<open>
  The normal form of a value: members sorted by key, and integral doubles below the exact range as
  integers. The canonical text is a function of the normal form and determines it.
\<close>

definition num_norm :: "f64 \<Rightarrow> json" where
  "num_norm f =
     (case f of
        Fin q \<Rightarrow> if is_integral q \<and> \<bar>q\<bar> < 9007199254740992 then JInt \<lfloor>q\<rfloor> else JFloat f
      | _ \<Rightarrow> JFloat f)"

fun jnorm :: "json \<Rightarrow> json" where
  "jnorm (JFloat f) = num_norm f"
| "jnorm (JArr items) = JArr (map jnorm items)"
| "jnorm (JObj ms) = JObj (sort_key fst (map (\<lambda>(k, v). (k, jnorm v)) ms))"
| "jnorm v = v"

text \<open>
  What serde_json promises of a double that is not written as an integer: the text consists of
  digits, sign, point and exponent mark, and has a point or an exponent.
\<close>

definition decimal_rendering :: "number_format \<Rightarrow> bool" where
  "decimal_rendering nf \<longleftrightarrow>
     (\<forall>q. (\<forall>c \<in> set (nf_render nf q). number_char c \<or> c = CHR ''e'' \<or> c = CHR ''E'') \<and>
          (CHR ''.'' \<in> set (nf_render nf q) \<or> CHR ''e'' \<in> set (nf_render nf q)))"

lemma write_float_token:
  assumes "decimal_rendering nf" and "write_float nf q = Inr a"
  shows "list_all number_char a \<and> a \<noteq> []"
proof (cases "is_integral q \<and> \<bar>q\<bar> < 9007199254740992")
  case True
  then show ?thesis
    using assms(2) show_int_chars by (auto simp: write_float_def split: if_splits)
next
  case False
  then have a: "a = nf_render nf q" "CHR ''e'' \<notin> set a" "CHR ''E'' \<notin> set a"
    using assms(2) by (auto simp: write_float_def Let_def split: if_splits)
  then have "number_char c" if "c \<in> set a" for c
    using that assms(1) unfolding decimal_rendering_def by metis
  moreover have "a \<noteq> []"
    using assms(1) a unfolding decimal_rendering_def by (metis empty_iff list.set(1))
  ultimately show ?thesis by (simp add: list_all_iff)
qed

lemma write_float_norm:
  assumes "decimal_rendering nf" and "write_float nf q = Inr a"
  shows "(\<exists>i. num_norm (Fin q) = JInt i \<and> a = show_int i) \<or>
         (num_norm (Fin q) = JFloat (Fin q) \<and> CHR ''.'' \<in> set a \<and> nf_parse nf a = Some q)"
proof (cases "is_integral q \<and> \<bar>q\<bar> < 9007199254740992")
  case True
  then show ?thesis using assms(2) by (auto simp: write_float_def num_norm_def split: if_splits)
next
  case False
  then have a: "a = nf_render nf q" "CHR ''e'' \<notin> set a" "nf_parse nf a = Some q"
    using assms(2) by (auto simp: write_float_def Let_def split: if_splits)
  then have "CHR ''.'' \<in> set a" using assms(1) unfolding decimal_rendering_def by metis
  with a False show ?thesis by (auto simp: num_norm_def)
qed


text \<open>The first character tells the kind of a value.\<close>

fun head_of :: "json \<Rightarrow> char option" where
  "head_of JNull = Some (CHR ''n'')"
| "head_of (JBool b) = Some (if b then CHR ''t'' else CHR ''f'')"
| "head_of (JStr s) = Some (CHR 0x22)"
| "head_of (JArr xs) = Some (CHR ''['')"
| "head_of (JObj ms) = Some (CHR ''{'')"
| "head_of v = None"

lemma write_value_head:
  "write_value nf v = Inr a \<Longrightarrow> head_of v = Some c \<Longrightarrow> \<exists>x. a = c # x"
  by (cases v) (auto simp: write_string_def result_simps split: if_splits)

lemma write_value_number:
  assumes "decimal_rendering nf" "write_value nf v = Inr a" "head_of v = None"
  shows "list_all number_char a \<and> a \<noteq> []"
proof (cases v)
  case (JInt i)
  with assms show_int_chars [of i] show ?thesis by auto
next
  case (JFloat f)
  with assms write_float_token show ?thesis by (cases f) auto
qed (use assms in \<open>auto split: if_splits\<close>)

lemma head_not_number: "head_of v = Some c \<Longrightarrow> \<not> number_char c \<and> c \<notin> {CHR '']'', CHR ''}'', CHR '',''}"
  by (cases v) (auto simp: number_char_def is_digit_def split: if_splits)

lemma number_char_not_end: "number_char c \<Longrightarrow> c \<notin> {CHR '']'', CHR ''}'', CHR '',''}"
  by (auto simp: number_char_def is_digit_def Let_def)

lemma write_value_start:
  assumes "decimal_rendering nf" "write_value nf v = Inr a"
  obtains c x where "a = c # x" "c \<notin> {CHR '']'', CHR ''}'', CHR '',''}" "number_char c \<longleftrightarrow> head_of v = None"
    "head_of v = Some d \<Longrightarrow> c = d"
proof (cases "head_of v")
  case None
  then obtain c x where "a = c # x" "number_char c"
    using write_value_number [OF assms None] by (cases a) auto
  with None that [of c x] number_char_not_end [of c] show ?thesis by auto
next
  case (Some e)
  with write_value_head [OF assms(2) Some] head_not_number [OF Some] that show ?thesis by auto
qed

lemma write_value_number_unique:
  assumes "decimal_rendering nf" "write_value nf v = Inr a" "write_value nf w = Inr a"
    "head_of v = None" "head_of w = None"
  shows "jnorm v = jnorm w"
proof -
  have norm: "(\<exists>i. u = JInt i \<and> a = show_int i) \<or> (\<exists>q. u = JFloat (Fin q) \<and> write_float nf q = Inr a)"
    if "write_value nf u = Inr a" "head_of u = None" for u
    using that by (cases u) (auto split: if_splits f64.splits)
  have num: "(\<exists>i. jnorm u = JInt i \<and> a = show_int i) \<or>
      (\<exists>q. jnorm u = JFloat (Fin q) \<and> CHR ''.'' \<in> set a \<and> nf_parse nf a = Some q)"
    if "write_value nf u = Inr a" "head_of u = None" for u
    using norm [OF that] write_float_norm [OF assms(1)] by fastforce
  show ?thesis
    using num [OF assms(2,4)] num [OF assms(3,5)] show_int_chars show_int_inj by (metis option.inject)
qed

lemma sort_key_map_snd:
  "sort_key fst (map (\<lambda>(k, v). (k, f v)) ms) = map (\<lambda>(k, v). (k, f v)) (sort_key fst ms)"
proof -
  have "insort_key fst (k, f v) (map (\<lambda>(k, v). (k, f v)) xs) =
      map (\<lambda>(k, v). (k, f v)) (insort_key fst (k, v) xs)" for k :: "'a :: linorder" and v xs
    by (induction xs) auto
  then show ?thesis by (induction ms) (auto simp: sort_key_def)
qed

text \<open>
  Lists of written elements: two lists whose elements are uniquely readable, written with the same
  closing bracket, are the same. Stated for any writer, so that it serves items and members.
\<close>

definition readable :: "('a \<Rightarrow> canon_error + string) \<Rightarrow> ('a \<Rightarrow> 'b) \<Rightarrow> 'a \<Rightarrow> bool" where
  "readable w nrm x \<longleftrightarrow>
     (\<forall>y a b r s. w x = Inr a \<longrightarrow> w y = Inr b \<longrightarrow> a @ r = b @ s \<longrightarrow> ends r \<longrightarrow> ends s \<longrightarrow>
        nrm x = nrm y \<and> r = s)"

definition opens :: "('a \<Rightarrow> canon_error + string) \<Rightarrow> bool" where
  "opens w \<longleftrightarrow> (\<forall>x a. w x = Inr a \<longrightarrow> (\<exists>c z. a = c # z \<and> c \<notin> {CHR '']'', CHR ''}'', CHR '',''}))"

lemma join_results_Cons:
  "join_results (x # xs) = Inr a \<longleftrightarrow>
     (\<exists>b. x = Inr b \<and> (if xs = [] then a = b else \<exists>d. join_results xs = Inr d \<and> a = b @ CHR '','' # d))"
  by (cases xs) (auto simp: result_simps)

lemma join_results_unique:
  assumes "\<And>x. x \<in> set xs \<Longrightarrow> readable w nrm x" and "opens w"
    and "join_results (map w xs) = Inr a" and "join_results (map w ys) = Inr b"
    and "a @ e # r = b @ e # s" and "e \<in> {CHR '']'', CHR ''}''}"
  shows "map nrm xs = map nrm ys \<and> r = s"
  using assms(1,3-5)
proof (induction xs arbitrary: ys a b)
  case Nil
  then show ?case
    using assms(2,6) by (cases ys) (auto simp: join_results_Cons opens_def split: if_splits, fastforce+)
next
  case (Cons x xs)
  from Cons.prems(2) obtain a1 where a1: "w x = Inr a1"
    "if xs = [] then a = a1 else \<exists>d. join_results (map w xs) = Inr d \<and> a = a1 @ CHR '','' # d"
    by (auto simp: join_results_Cons)
  show ?case
  proof (cases ys)
    case Nil
    with Cons.prems(3,4) a1 assms(2,6) show ?thesis
      by (auto simp: opens_def split: if_splits, fastforce+)
  next
    case (Cons y ys')
    from Cons.prems(3) Cons obtain b1 where b1: "w y = Inr b1"
      "if ys' = [] then b = b1 else \<exists>d. join_results (map w ys') = Inr d \<and> b = b1 @ CHR '','' # d"
      by (auto simp: join_results_Cons)
    obtain ra where ra: "a @ e # r = a1 @ ra" "ends ra"
      "if xs = [] then ra = e # r else \<exists>d. join_results (map w xs) = Inr d \<and> ra = CHR '','' # d @ e # r"
      using a1(2) assms(6) by (auto split: if_splits)
    obtain rb where rb: "b @ e # s = b1 @ rb" "ends rb"
      "if ys' = [] then rb = e # s else \<exists>d. join_results (map w ys') = Inr d \<and> rb = CHR '','' # d @ e # s"
      using b1(2) assms(6) by (auto split: if_splits)
    have x: "nrm x = nrm y" "ra = rb"
      using Cons.prems(1) [of x] a1(1) b1(1) ra rb Cons.prems(4) unfolding readable_def
      by (metis list.set_intros(1))+
    show ?thesis
    proof (cases "xs = []")
      case True
      with x ra(3) rb(3) assms(6) Cons show ?thesis by (auto split: if_splits)
    next
      case False
      then obtain d where d: "join_results (map w xs) = Inr d" "ra = CHR '','' # d @ e # r"
        using ra(3) by auto
      with x(2) rb(3) assms(6) obtain d' where d': "join_results (map w ys') = Inr d'"
        "d @ e # r = d' @ e # s"
        by (auto split: if_splits)
      have "map nrm xs = map nrm ys' \<and> r = s"
        using Cons.prems(1) by (intro Cons.IH [OF _ d(1) d'(1) d'(2)]) simp
      with x(1) Cons show ?thesis by simp
    qed
  qed
qed

lemma opens_write_value: "decimal_rendering nf \<Longrightarrow> opens (write_value nf)"
  unfolding opens_def by (meson write_value_start)

definition write_field :: "number_format \<Rightarrow> string \<times> json \<Rightarrow> canon_error + string" where
  "write_field nf m = write_member (fst m, write_value nf (snd m))"

lemma write_field_Inr:
  "write_field nf m = Inr a \<longleftrightarrow>
     (\<exists>x. write_value nf (snd m) = Inr x \<and> a = write_string (fst m) @ CHR '':'' # x)"
  by (auto simp: write_field_def write_member_def result_simps)

lemma opens_write_field: "opens (write_field nf)"
  by (auto simp: opens_def write_field_Inr write_string_def)

lemma write_value_object:
  "write_value nf (JObj ms) =
     rbind (join_results (map (write_field nf) (sort_key fst ms))) (\<lambda>a. Inr (CHR ''{'' # a @ ''}''))"
proof -
  have "map write_member (sort_key fst (map (\<lambda>(k, v). (k, write_value nf v)) ms)) =
      map (write_field nf) (sort_key fst ms)"
    by (simp add: sort_key_map_snd comp_def write_field_def split_beta)
  then show ?thesis by simp
qed

lemma readable_field:
  assumes "readable (write_value nf) jnorm (snd m)"
  shows "readable (write_field nf) (\<lambda>(k, v). (k, jnorm v)) m"
  unfolding readable_def
proof (intro allI impI)
  fix n a b r s
  assume "write_field nf m = Inr a" "write_field nf n = Inr b" "a @ r = b @ s" "ends r" "ends s"
  moreover from this obtain x y where x: "write_value nf (snd m) = Inr x" "a = write_string (fst m) @ CHR '':'' # x"
    and y: "write_value nf (snd n) = Inr y" "b = write_string (fst n) @ CHR '':'' # y"
    by (auto simp: write_field_Inr)
  ultimately have "write_string (fst m) @ CHR '':'' # x @ r = write_string (fst n) @ CHR '':'' # y @ s" by simp
  from write_string_inj [OF this] have k: "fst m = fst n" "x @ r = y @ s" by auto
  have "jnorm (snd m) = jnorm (snd n) \<and> r = s"
    using assms x(1) y(1) k(2) \<open>ends r\<close> \<open>ends s\<close> unfolding readable_def by blast
  with k(1) show "(case m of (k, v) \<Rightarrow> (k, jnorm v)) = (case n of (k, v) \<Rightarrow> (k, jnorm v)) \<and> r = s"
    by (simp add: split_beta)
qed

lemma same_head:
  assumes "decimal_rendering nf" "write_value nf v = Inr a" "write_value nf w = Inr b" "a @ r = b @ s"
  shows "head_of v = head_of w"
proof -
  obtain c x where c: "a = c # x" "number_char c \<longleftrightarrow> head_of v = None" "\<And>d. head_of v = Some d \<Longrightarrow> c = d"
    using write_value_start [OF assms(1,2)] by (metis option.inject)
  obtain c' x' where c': "b = c' # x'" "number_char c' \<longleftrightarrow> head_of w = None" "\<And>d. head_of w = Some d \<Longrightarrow> c' = d"
    using write_value_start [OF assms(1,3)] by (metis option.inject)
  have "c = c'" using assms(4) c(1) c'(1) by simp
  with c c' show ?thesis by (cases "head_of v"; cases "head_of w") auto
qed

lemma readable_number:
  assumes nf: "decimal_rendering nf" and v: "head_of v = None"
  shows "readable (write_value nf) jnorm v"
  unfolding readable_def
proof (intro allI impI)
  fix w a b r s
  assume w: "write_value nf v = Inr a" "write_value nf w = Inr b" "a @ r = b @ s" "ends r" "ends s"
  have h: "head_of w = None" using same_head [OF nf w(1,2,3)] v by simp
  have "a = b \<and> r = s"
    using number_token [OF _ _ w(3-5)] write_value_number [OF nf w(1) v] write_value_number [OF nf w(2) h]
    by blast
  then show "jnorm v = jnorm w \<and> r = s"
    using write_value_number_unique [OF nf w(1) _ v h] w(2) by simp
qed

lemma readable_value:
  assumes nf: "decimal_rendering nf"
  shows "readable (write_value nf) jnorm v"
proof (induction v)
  case (JArr items)
  show ?case
    unfolding readable_def
  proof (intro allI impI)
    fix w a b r s
    assume w: "write_value nf (JArr items) = Inr a" "write_value nf w = Inr b" "a @ r = b @ s" "ends r" "ends s"
    then obtain ws where ws: "w = JArr ws"
      using same_head [OF nf w(1,2,3)] by (cases w) (auto split: if_splits)
    from w ws obtain a' b' where "join_results (map (write_value nf) items) = Inr a'"
      "join_results (map (write_value nf) ws) = Inr b'" "a' @ CHR '']'' # r = b' @ CHR '']'' # s"
      by (auto simp: result_simps)
    from join_results_unique [OF JArr.IH opens_write_value [OF nf] this]
    show "jnorm (JArr items) = jnorm w \<and> r = s" using ws by simp
  qed
next
  case (JObj ms)
  show ?case
    unfolding readable_def
  proof (intro allI impI)
    fix w a b r s
    assume w: "write_value nf (JObj ms) = Inr a" "write_value nf w = Inr b" "a @ r = b @ s" "ends r" "ends s"
    then obtain ws where ws: "w = JObj ws"
      using same_head [OF nf w(1,2,3)] by (cases w) (auto split: if_splits)
    from w ws obtain a' b' where ab: "join_results (map (write_field nf) (sort_key fst ms)) = Inr a'"
      "join_results (map (write_field nf) (sort_key fst ws)) = Inr b'" "a' @ CHR ''}'' # r = b' @ CHR ''}'' # s"
      by (auto simp: write_value_object result_simps simp del: write_value.simps)
    have "readable (write_field nf) (\<lambda>(k, v). (k, jnorm v)) m" if "m \<in> set (sort_key fst ms)" for m
      using that JObj.IH [of m "snd m"] by (intro readable_field) (auto simp: snds.simps)
    from join_results_unique [OF this opens_write_field ab]
    show "jnorm (JObj ms) = jnorm w \<and> r = s" using ws by (simp add: sort_key_map_snd)
  qed
next
  case (JStr t)
  show ?case
    unfolding readable_def
  proof (intro allI impI)
    fix w a b r s
    assume w: "write_value nf (JStr t) = Inr a" "write_value nf w = Inr b" "a @ r = b @ s" "ends r" "ends s"
    then obtain u where "w = JStr u"
      using same_head [OF nf w(1,2,3)] by (cases w) (auto split: if_splits)
    with w write_string_inj [of t r u s] show "jnorm (JStr t) = jnorm w \<and> r = s" by auto
  qed
next
  case JNull
  show ?case unfolding readable_def
  proof (intro allI impI)
    fix w a b r s
    assume w: "write_value nf JNull = Inr a" "write_value nf w = Inr b" "a @ r = b @ s"
    with same_head [OF nf w] show "jnorm JNull = jnorm w \<and> r = s" by (cases w) (auto split: if_splits)
  qed
next
  case (JBool t)
  show ?case unfolding readable_def
  proof (intro allI impI)
    fix w a b r s
    assume w: "write_value nf (JBool t) = Inr a" "write_value nf w = Inr b" "a @ r = b @ s"
    with same_head [OF nf w] show "jnorm (JBool t) = jnorm w \<and> r = s"
      by (cases w) (auto split: if_splits)
  qed
next
  case (JInt i)
  show ?case by (rule readable_number [OF nf]) simp
next
  case (JFloat f)
  show ?case by (rule readable_number [OF nf]) simp
qed

lemma write_value_jnorm: "write_value nf (jnorm v) = write_value nf v"
proof (induction v)
  case (JFloat f)
  have "\<bar>q\<bar> < 9007199254740992 \<Longrightarrow> \<not> MAX_CANONICAL_MAGNITUDE \<le> \<bar>q\<bar>" for q
    by (simp add: MAX_CANONICAL_MAGNITUDE_def)
  then show ?case by (auto simp: num_norm_def write_float_def split: f64.splits)
next
  case (JArr items)
  then show ?case by (simp add: comp_def cong: map_cong)
next
  case (JObj ms)
  let ?N = "\<lambda>(k, v). (k, jnorm v)"
  have "sort_key fst (sort_key fst (map ?N ms)) = map ?N (sort_key fst ms)"
    by (metis sort_key_map_snd sorted_sort_key sort_key_id_if_sorted)
  moreover have "map (write_field nf) (map ?N (sort_key fst ms)) = map (write_field nf) (sort_key fst ms)"
    using JObj.IH by (auto simp: write_field_def write_member_def snds.simps)
  ultimately show ?case by (simp only: jnorm.simps(3) write_value_object)
qed simp_all

section \<open>Reading members back\<close>

definition obj_get :: "json \<Rightarrow> string \<Rightarrow> json option" where
  "obj_get j k = (case j of JObj ms \<Rightarrow> map_of ms k | _ \<Rightarrow> None)"

lemma map_of_mset_eq:
  assumes "distinct (map fst xs)" "mset xs = mset ys"
  shows "map_of xs = map_of ys"
proof -
  have d: "distinct (map fst ys)"
    using assms by (metis mset_eq_imp_distinct_iff mset_map)
  have "map_of xs k = Some v \<longleftrightarrow> map_of ys k = Some v" for k v
    using assms d mset_eq_setD [OF assms(2)] by (simp add: map_of_eq_Some_iff)
  then show ?thesis by (metis ext option.exhaust)
qed

lemma obj_get_jnorm:
  "distinct (map fst ms) \<Longrightarrow> obj_get (jnorm (JObj ms)) k = map_option jnorm (map_of ms k)"
proof -
  assume d: "distinct (map fst ms)"
  let ?N = "\<lambda>(k, v). (k, jnorm v)"
  have "map_of (sort_key fst (map ?N ms)) = map_of (map ?N ms)"
    using d by (intro map_of_mset_eq [symmetric]) (simp_all add: comp_def split_beta)
  moreover have "map_of (map ?N ms) k = map_option jnorm (map_of ms k)"
    by (induction ms) auto
  ultimately show ?thesis by (simp add: obj_get_def)
qed

text \<open>The material core of an action with its embedded JSON in normal form.\<close>

fun action_norm :: "Action \<Rightarrow> Action" where
  "action_norm (ActToolCall t) = material_core (ActToolCall (t\<lparr>tc_arguments := jnorm (tc_arguments t)\<rparr>))"
| "action_norm (ActNetwork n) =
     material_core (ActNetwork (n\<lparr>nr_body := Some (jnorm (or_else (nr_body n) JNull))\<rparr>))"
| "action_norm (ActDatabase d) =
     material_core (ActDatabase (d\<lparr>db_parameters := map jnorm (db_parameters d)\<rparr>))"
| "action_norm a = material_core a"

lemma jnorm_option [simp]: "jnorm (json_of_option x) = json_of_option x"
  by (simp add: json_of_option_def split: option.splits)

lemma jnorm_strings [simp]: "jnorm (json_of_strings xs) = json_of_strings xs"
  by (simp add: json_of_strings_def comp_def)

fun members :: "json \<Rightarrow> (string \<times> json) list" where
  "members (JObj ms) = ms"
| "members v = []"

abbreviation norm_members :: "(string \<times> json) list \<Rightarrow> (string \<times> json) list" where
  "norm_members ms \<equiv> map (\<lambda>(k, v). (k, jnorm v)) ms"

lemma to_ascii_uppercase_idem: "to_ascii_uppercase (to_ascii_uppercase s) = to_ascii_uppercase s"
proof -
  have "to_ascii_uppercase_char (to_ascii_uppercase_char c) = to_ascii_uppercase_char c" for c
    by (auto simp: to_ascii_uppercase_char_def Let_def of_char_of)
  then show ?thesis by (simp add: to_ascii_uppercase_def)
qed

lemma projection_object: "material_projection a = JObj (members (material_projection a))"
  by (cases a) simp_all

lemma projection_keys_distinct: "distinct (map fst (members (material_projection a)))"
  by (cases a) simp_all

lemma projection_kind: "map_of (members (material_projection a)) ''kind'' = Some (JStr (action_kind a))"
  by (cases a) simp_all

lemma projection_keys:
  "action_kind a = action_kind b \<Longrightarrow>
     map fst (members (material_projection a)) = map fst (members (material_projection b))"
  by (cases a; cases b; simp)

lemma projection_norm:
  "material_projection (action_norm a) = JObj (norm_members (members (material_projection a)))"
  by (cases a) (simp_all add: material_projection_core del: material_core.simps, simp_all add: or_else_def)

lemma list_from_map_of:
  assumes "map fst xs = map fst ys" "distinct (map fst xs)" "mset xs = mset ys"
  shows "xs = ys"
proof -
  have "map (\<lambda>k. (k, the (map_of zs k))) (map fst zs) = zs" if "distinct (map fst zs)" for zs :: "('a \<times> 'b) list"
    using that unfolding map_map by (intro map_idI) auto
  then show ?thesis
    using assms map_of_mset_eq [OF assms(2,3)] by metis
qed

lemma projection_binds:
  assumes "jnorm (material_projection a) = jnorm (material_projection b)"
  shows "action_norm a = action_norm b"
proof -
  let ?a = "members (material_projection a)" and ?b = "members (material_projection b)"
  have eq: "jnorm (JObj ?a) = jnorm (JObj ?b)"
    using assms by (simp only: projection_object [symmetric])
  then have "map_option jnorm (map_of ?a ''kind'') = map_option jnorm (map_of ?b ''kind'')"
    by (metis obj_get_jnorm projection_keys_distinct)
  then have "action_kind a = action_kind b" by (simp add: projection_kind)
  then have keys: "map fst ?a = map fst ?b" by (rule projection_keys)
  have "sort_key fst (norm_members ?a) = sort_key fst (norm_members ?b)"
    using eq by simp
  then have "mset (norm_members ?a) = mset (norm_members ?b)" by (metis mset_sort)
  with keys have "norm_members ?a = norm_members ?b"
    using projection_keys_distinct [of a]
    by (intro list_from_map_of) (simp_all add: comp_def split_beta del: mset_map)
  then have "material_projection (action_norm a) = material_projection (action_norm b)"
    by (simp add: projection_norm)
  then have "material_core (action_norm a) = material_core (action_norm b)"
    by (rule material_core_projection)
  moreover have "material_core (action_norm c) = action_norm c" for c
    by (cases c) (simp_all add: or_else_def to_ascii_uppercase_idem)
  ultimately show ?thesis by simp
qed

section \<open>Bytes and hashes\<close>

lemma u8_of_nat_eq: "a < 256 \<Longrightarrow> b < 256 \<Longrightarrow> (of_nat a :: u8) = of_nat b \<longleftrightarrow> a = b"
  by (simp add: word_of_nat_eq_iff take_bit_eq_mod)

lemma utf8_char_inj:
  assumes "utf8_char c @ x = utf8_char d @ y"
  shows "c = d \<and> x = y"
proof -
  define m n where "m = (of_char c :: nat)" and "n = (of_char d :: nat)"
  have "m < 256" "n < 256" by (simp_all add: m_def n_def)
  then have b: "m div 64 < 4" "m mod 64 < 64" "n div 64 < 4" "n mod 64 < 64" by auto
  have "m = n \<and> x = y"
  proof (cases "m < 128"; cases "n < 128")
    assume "m < 128" "n < 128"
    then show ?thesis using assms by (simp add: utf8_char_def Let_def u8_of_nat_eq flip: m_def n_def)
  next
    assume "m < 128" "\<not> n < 128"
    then show ?thesis
      using assms b u8_of_nat_eq [of m "192 + n div 64"]
      by (simp add: utf8_char_def Let_def flip: m_def n_def)
  next
    assume "\<not> m < 128" "n < 128"
    then show ?thesis
      using assms b u8_of_nat_eq [of "192 + m div 64" n]
      by (simp add: utf8_char_def Let_def flip: m_def n_def)
  next
    assume "\<not> m < 128" "\<not> n < 128"
    then have "(of_nat (192 + m div 64) :: u8) = of_nat (192 + n div 64)"
      "(of_nat (128 + m mod 64) :: u8) = of_nat (128 + n mod 64)" "x = y"
      using assms by (simp_all add: utf8_char_def Let_def flip: m_def n_def)
    then have "m div 64 = n div 64" "m mod 64 = n mod 64"
      using b u8_of_nat_eq [of "192 + m div 64" "192 + n div 64"]
        u8_of_nat_eq [of "128 + m mod 64" "128 + n mod 64"] by auto
    with \<open>x = y\<close> show ?thesis by (metis div_mult_mod_eq)
  qed
  then show ?thesis by (simp add: m_def n_def)
qed

lemma utf8_inj: "utf8 s = utf8 t \<Longrightarrow> s = t"
proof (induction s arbitrary: t)
  case Nil
  then show ?case by (cases t) (auto simp: utf8_def utf8_char_def Let_def split: if_splits)
next
  case (Cons c s)
  then obtain d t' where t: "t = d # t'"
    by (cases t) (auto simp: utf8_def utf8_char_def Let_def split: if_splits)
  with Cons.prems have "utf8_char c @ utf8 s = utf8_char d @ utf8 t'" by (simp add: utf8_def)
  from utf8_char_inj [OF this] Cons.IH [of t'] t show ?case by simp
qed

lemma utf8_length: "length (utf8 s) = str_len s"
  by (induction s) (simp_all add: utf8_def str_len_def utf8_char_def Let_def)

lemma xor_zero_iff: "a XOR b = 0 \<longleftrightarrow> a = (b :: u8)"
  by (metis xor.assoc xor.left_neutral xor.right_neutral xor_self_eq)

lemma ct_diff_zero: "length xs = length ys \<Longrightarrow> ct_diff xs ys = 0 \<longleftrightarrow> xs = ys"
proof -
  have "foldl (\<lambda>diff (a, b). diff OR (a XOR b)) d (zip xs ys) = 0 \<longleftrightarrow> d = 0 \<and> xs = ys"
    if "length xs = length ys" for d :: u8 and xs ys
    using that
    by (induction xs ys arbitrary: d rule: list_induct2) (simp_all add: or_eq_0_iff xor_zero_iff conj_assoc)
  then show "length xs = length ys \<Longrightarrow> ct_diff xs ys = 0 \<longleftrightarrow> xs = ys" by (simp add: ct_diff_def)
qed

lemma ct_eq_iff: "ct_eq a b \<longleftrightarrow> a = b"
proof
  assume h: "ct_eq a b"
  then have "length (utf8 (ch_hex a)) = length (utf8 (ch_hex b))"
    by (simp add: ct_eq_def utf8_length split: if_splits)
  with h have "utf8 (ch_hex a) = utf8 (ch_hex b)" "ch_algorithm a = ch_algorithm b"
    by (auto simp: ct_eq_def ct_diff_zero split: if_splits)
  then show "a = b" using utf8_inj by (metis (full_types) ContentHash.equality unit.exhaust)
qed (simp add: ct_eq_def ct_diff_zero)

lemma split_once_label: "split_once '':'' (''sha256'' @ '':'' @ x) = Some (''sha256'', x)"
  by simp

lemma lower_hex_len: "list_all is_lower_hex s \<Longrightarrow> str_len s = length s"
  by (induction s) (auto simp: str_len_def is_lower_hex_def Let_def)

lemma canonicalize_unique:
  assumes "decimal_rendering nf" "canonicalize nf v = Inr s" "canonicalize nf w = Inr s"
  shows "jnorm v = jnorm w"
  using readable_value [OF assms(1), of v, unfolded readable_def, rule_format, of s w s "[]" "[]"]
    assms(2,3) by (simp add: canonicalize_def)

text \<open>Only a double can fail to have a canonical text.\<close>

fun no_floats :: "json \<Rightarrow> bool" where
  "no_floats (JFloat f) = False"
| "no_floats (JArr items) = list_all no_floats items"
| "no_floats (JObj ms) = list_all (\<lambda>(k, v). no_floats v) ms"
| "no_floats v = True"

lemma join_results_total: "(\<And>x. x \<in> set xs \<Longrightarrow> is_ok x) \<Longrightarrow> is_ok (join_results xs)"
proof (induction xs rule: join_results.induct)
  case (3 x y ys)
  from "3.prems" [of x] obtain a where "x = Inr a" by (auto simp: is_ok_iff)
  moreover obtain b where "join_results (y # ys) = Inr b" using 3 by (auto simp: is_ok_iff)
  ultimately show ?case by simp
qed simp_all

lemma write_value_total: "no_floats v \<Longrightarrow> is_ok (write_value nf v)"
proof (induction v)
  case (JArr items)
  have "is_ok (join_results (map (write_value nf) items))"
    using JArr by (intro join_results_total) (auto simp: list_all_iff)
  then show ?case by (auto simp: is_ok_iff)
next
  case (JObj ms)
  have "is_ok (write_field nf m)" if "m \<in> set ms" for m
    using that JObj.IH [of m "snd m"] JObj.prems
    by (auto simp: is_ok_iff write_field_Inr list_all_iff snds.simps)
  then have "is_ok (join_results (map (write_field nf) (sort_key fst ms)))"
    by (intro join_results_total) auto
  then show ?case by (auto simp: is_ok_iff write_value_object simp del: write_value.simps)
qed simp_all

section \<open>Sample inputs\<close>

definition sample_format :: number_format where
  "sample_format = \<lparr>nf_render = (\<lambda>_. ''0.5''), nf_parse = (\<lambda>s. if s = ''0.5'' then Some (1 / 2) else None)\<rparr>"

lemma sample_format_decimal: "decimal_rendering sample_format"
  by (simp add: decimal_rendering_def sample_format_def number_char_def is_digit_def)

section \<open>Properties\<close>

text \<open>
  C36: canonical JSON is a faithful name for a value: two values have the same canonical text exactly
  when they are the same up to the order of members and the spelling of integral doubles, so no two
  different documents share a text and reordered members never change it.
\<close>

theorem canonicalize_faithful:
  assumes "decimal_rendering nf" and "canonicalize nf v = Inr s"
  shows "canonicalize nf w = Inr s \<longleftrightarrow> jnorm v = jnorm w"
proof
  assume "canonicalize nf w = Inr s"
  then show "jnorm v = jnorm w" by (rule canonicalize_unique [OF assms])
next
  assume "jnorm v = jnorm w"
  then show "canonicalize nf w = Inr s"
    using assms(2) write_value_jnorm [of nf v] write_value_jnorm [of nf w] by (simp add: canonicalize_def)
qed

theorem canonicalize_faithful_witness:
  "canonicalize sample_format (JObj [(''to'', JStr ''x''), (''n'', JFloat (Fin (1 / 2)))]) =
   canonicalize sample_format (JObj [(''n'', JFloat (Fin (1 / 2))), (''to'', JStr ''x'')])"
proof -
  let ?v = "JObj [(''to'', JStr ''x''), (''n'', JFloat (Fin (1 / 2)))]"
    and ?w = "JObj [(''n'', JFloat (Fin (1 / 2))), (''to'', JStr ''x'')]"
  have "\<lfloor>1 / 2 :: rat\<rfloor> = 0" by (simp add: floor_eq_iff)
  then have f: "write_float sample_format (1 / 2) = Inr ''0.5''"
    by (simp add: write_float_def sample_format_def MAX_CANONICAL_MAGNITUDE_def is_integral_def)
  have "\<exists>s. canonicalize sample_format ?v = Inr s"
    by (simp add: canonicalize_def f write_member_def split_beta)
  then obtain s where s: "canonicalize sample_format ?v = Inr s" by blast
  have "jnorm ?v = jnorm ?w" by simp
  with canonicalize_faithful [OF sample_format_decimal s, of ?w] s show ?thesis by simp
qed

text \<open>
  C37: the action hash binds the request: two requests with the same hash agree in tenant,
  environment, agent, session and principal and in every material field of the action, its embedded
  JSON taken up to member order, or else they exhibit a collision of the digest.
\<close>

theorem action_hash_binds:
  assumes "decimal_rendering nf"
    and "request_action_hash nf sha r = Inr h" and "request_action_hash nf sha r' = Inr h"
  shows "(\<exists>x y. x \<noteq> y \<and> sha x = sha y) \<or>
     (ar_tenant_id r = ar_tenant_id r' \<and> ar_environment_id r = ar_environment_id r' \<and>
      ar_agent_id r = ar_agent_id r' \<and> ar_session_id r = ar_session_id r' \<and>
      p_id (ar_principal r) = p_id (ar_principal r') \<and>
      action_norm (ar_action r) = action_norm (ar_action r'))"
proof -
  obtain s where s: "canonicalize nf (request_material_projection r) = Inr s" "ch_hex h = sha (utf8 s)"
    using assms(2)
    by (auto simp: request_action_hash_def hash_canonical_json_def canonical_bytes_def hash_bytes_def result_simps)
  obtain s' where s': "canonicalize nf (request_material_projection r') = Inr s'" "ch_hex h = sha (utf8 s')"
    using assms(3)
    by (auto simp: request_action_hash_def hash_canonical_json_def canonical_bytes_def hash_bytes_def result_simps)
  show ?thesis
  proof (cases "s = s'")
    case False
    then show ?thesis using s(2) s'(2) utf8_inj by metis
  next
    case True
    with s s' have eq: "jnorm (request_material_projection r) = jnorm (request_material_projection r')"
      using canonicalize_unique [OF assms(1)] by blast
    have g: "obj_get (jnorm (request_material_projection r)) k = obj_get (jnorm (request_material_projection r')) k" for k
      using eq by simp
    note p = request_material_projection_def obj_get_jnorm
    have "jnorm (material_projection (ar_action r)) = jnorm (material_projection (ar_action r'))"
      using g [of "''action''"] by (simp add: p del: jnorm.simps(3))
    moreover have "ar_tenant_id r = ar_tenant_id r'" "ar_environment_id r = ar_environment_id r'"
      "ar_agent_id r = ar_agent_id r'" "ar_session_id r = ar_session_id r'"
      "p_id (ar_principal r) = p_id (ar_principal r')"
      using g [of "''tenant_id''"] g [of "''environment_id''"] g [of "''agent_id''"] g [of "''session_id''"]
        g [of "''principal_id''"] by (simp_all add: p del: jnorm.simps(3))
    ultimately show ?thesis using projection_binds by blast
  qed
qed

theorem action_hash_binds_witness:
  "\<exists>h. request_action_hash sample_format (map (\<lambda>w. char_of (unat w))) (sample_request sample_shell) = Inr h \<and>
     request_action_hash sample_format (map (\<lambda>w. char_of (unat w)))
       ((sample_request sample_shell)\<lparr>ar_request_id := ''r2''\<rparr>) = Inr h \<and>
     action_norm (ar_action (sample_request sample_shell)) =
       action_norm (ar_action ((sample_request sample_shell)\<lparr>ar_request_id := ''r2''\<rparr>))"
proof -
  let ?sha = "map (\<lambda>w :: u8. char_of (unat w) :: char)"
  let ?r = "sample_request sample_shell" and ?r' = "(sample_request sample_shell)\<lparr>ar_request_id := ''r2''\<rparr>"
  have "no_floats (request_material_projection ?r)"
    by (simp add: request_material_projection_def sample_request_def sample_shell_def json_of_strings_def
        json_of_option_def)
  then obtain h where h: "request_action_hash sample_format ?sha ?r = Inr h"
    using write_value_total [of "request_material_projection ?r" sample_format]
    by (auto simp: request_action_hash_def hash_canonical_json_def canonical_bytes_def canonicalize_def is_ok_iff)
  then have h': "request_action_hash sample_format ?sha ?r' = Inr h"
    by (simp add: request_action_hash_def request_material_projection_def)
  have "x = y" if "?sha x = ?sha y" for x y
  proof -
    have "inj (\<lambda>w :: u8. char_of (unat w) :: char)"
    proof (rule injI)
      fix v w :: u8
      assume "char_of (unat v) = (char_of (unat w) :: char)"
      then have "(of_char (char_of (unat v) :: char) :: nat) = of_char (char_of (unat w) :: char)" by simp
      moreover have "unat v < 256" "unat w < 256" using unsigned_less [of v] unsigned_less [of w] by simp_all
      ultimately show "v = w" by (simp add: of_char_of word_unat_eq_iff)
    qed
    with that show "x = y" by (simp add: inj_map_eq_map)
  qed
  with action_hash_binds [OF sample_format_decimal h h'] h h' show ?thesis by blast
qed

text \<open>
  A content hash survives printing and parsing, and the constant-time comparison is equality.
\<close>

theorem content_hash_roundtrip:
  "(hash_from_str (hash_display h) = Some h \<longleftrightarrow> length (ch_hex h) = 64 \<and> list_all is_lower_hex (ch_hex h)) \<and>
   (ct_eq h h' \<longleftrightarrow> h = h')"
proof
  have a: "ch_algorithm h = Sha256" by (cases "ch_algorithm h")
  have d: "split_once '':'' (hash_display h) = Some (''sha256'', ch_hex h)"
    using split_once_label [of "ch_hex h"] by (simp add: hash_display_def a)
  show "hash_from_str (hash_display h) = Some h \<longleftrightarrow> length (ch_hex h) = 64 \<and> list_all is_lower_hex (ch_hex h)"
    using lower_hex_len [of "ch_hex h"] a
    by (auto simp: hash_from_str_def d hash_algorithm_from_str_def)
  show "ct_eq h h' \<longleftrightarrow> h = h'" by (rule ct_eq_iff)
qed

end
