(* ===== verification/Trace.thy ===== *)
theory Trace
  imports Canonical
begin

text \<open>
  The provenance graph of a session, \<^verbatim>\<open>vigil-trace/src\<close>: tracked values and the encodings under which
  they are recognised (\<^verbatim>\<open>flow.rs\<close>), ingestion, causal chains and the analysis of a candidate action
  (\<^verbatim>\<open>lib.rs\<close>). Base64, hexadecimal and the digest are arguments; the random node identifier is an
  argument of \<open>ingest\<close>. A \<^verbatim>\<open>BTreeSet\<close> of taints is a set, and a hash map is iterated in the order of
  its association list.
\<close>

section \<open>Tracked values\<close>

definition MIN_TRACKABLE_LENGTH :: nat where
  "MIN_TRACKABLE_LENGTH = 8"

datatype FlowEncoding =
    Verbatim
  | Base64
  | Hex
  | PercentEncoded
  | Reversed
  | SeparatorsStripped

fun suggests_evasion :: "FlowEncoding \<Rightarrow> bool" where
  "suggests_evasion Reversed = True"
| "suggests_evasion SeparatorsStripped = True"
| "suggests_evasion Base64 = True"
| "suggests_evasion Hex = True"
| "suggests_evasion e = False"

fun flow_as_str :: "FlowEncoding \<Rightarrow> string" where
  "flow_as_str Verbatim = ''verbatim''"
| "flow_as_str Base64 = ''base64''"
| "flow_as_str Hex = ''hex''"
| "flow_as_str PercentEncoded = ''percent_encoded''"
| "flow_as_str Reversed = ''reversed''"
| "flow_as_str SeparatorsStripped = ''separators_stripped''"

text \<open>The text codecs of the base64 and hex crates, and the digest in hexadecimal.\<close>

record value_codec =
  vc_base64 :: "u8 list \<Rightarrow> string"
  vc_base64_url :: "u8 list \<Rightarrow> string"
  vc_hex :: "u8 list \<Rightarrow> string"
  vc_hex_upper :: "u8 list \<Rightarrow> string"
  vc_sha :: "u8 list \<Rightarrow> string"

definition upper_hex_digit :: "nat \<Rightarrow> char" where
  "upper_hex_digit n = (if n < 10 then char_of (48 + n) else char_of (55 + n))"

definition percent_byte :: "u8 \<Rightarrow> string" where
  "percent_byte b =
     (let c = (char_of (unat b) :: char)
      in if is_ascii_alphanumeric c \<or> c \<in> {CHR ''-'', CHR ''_'', CHR ''.'', CHR ''~''} then [c]
         else [CHR ''%'', upper_hex_digit (unat b div 16), upper_hex_digit (unat b mod 16)])"

definition percent_encode :: "string \<Rightarrow> string" where
  "percent_encode s = concat (map percent_byte (utf8 s))"

definition is_separator :: "char \<Rightarrow> bool" where
  "is_separator c =
     (c \<in> {CHR ''-'', CHR ''_'', CHR ''.'', CHR '','', CHR '':'', CHR ''|'', CHR ''/''})"

definition strip_separators :: "string \<Rightarrow> string" where
  "strip_separators s = filter (\<lambda>c. \<not> is_whitespace c \<and> \<not> is_separator c) s"

record TrackedValue =
  tv_value :: string
  tv_encodings :: "(FlowEncoding \<times> string) list"

definition value_encodings :: "value_codec \<Rightarrow> string \<Rightarrow> (FlowEncoding \<times> string) list" where
  "value_encodings k v =
     (let bytes = utf8 v;
          es0 = [(Verbatim, v), (Base64, vc_base64 k bytes)];
          url = vc_base64_url k bytes;
          es1 = (if url \<in> snd ` set es0 then es0 else es0 @ [(Base64, url)]);
          es2 = es1 @ [(Hex, vc_hex k bytes), (Hex, vc_hex_upper k bytes),
                       (PercentEncoded, percent_encode v), (Reversed, rev v)];
          stripped = strip_separators v
      in if stripped \<noteq> v \<and> length stripped \<ge> MIN_TRACKABLE_LENGTH
         then es2 @ [(SeparatorsStripped, stripped)] else es2)"

definition tracked_new :: "value_codec \<Rightarrow> string \<Rightarrow> TrackedValue option" where
  "tracked_new k value =
     (let trimmed = trim value
      in if length trimmed < MIN_TRACKABLE_LENGTH then None
         else Some \<lparr>tv_value = trimmed, tv_encodings = value_encodings k trimmed\<rparr>)"

definition fingerprint :: "value_codec \<Rightarrow> string \<Rightarrow> string" where
  "fingerprint k v = ''fp:'' @ take 16 (vc_sha k (utf8 v))"

definition tracked_fingerprint :: "value_codec \<Rightarrow> TrackedValue \<Rightarrow> string" where
  "tracked_fingerprint k tv = fingerprint k (tv_value tv)"

fun find_encoding :: "string \<Rightarrow> string \<Rightarrow> (FlowEncoding \<times> string) list \<Rightarrow> FlowEncoding option" where
  "find_encoding content stripped [] = None"
| "find_encoding content stripped ((e, needle) # es) =
     (if str_contains content needle then Some e
      else if e = Verbatim \<and> str_contains stripped (strip_separators needle)
              \<and> length (strip_separators needle) \<ge> MIN_TRACKABLE_LENGTH
           then Some SeparatorsStripped
      else find_encoding content stripped es)"

definition find_in :: "TrackedValue \<Rightarrow> string \<Rightarrow> FlowEncoding option" where
  "find_in tv content = find_encoding content (strip_separators content) (tv_encodings tv)"

section \<open>The graph\<close>

record ProvenanceNode =
  pn_id :: string
  pn_trust :: TrustLevel
  pn_origin :: string
  pn_content_hash :: "ContentHash option"
  pn_taints :: "TaintKind set"
  pn_derived_from :: "string list"
  pn_created_at :: timestamp
  pn_tracked_values :: "TrackedValue list"

definition node_ref :: "ProvenanceNode \<Rightarrow> ProvenanceRef" where
  "node_ref n = \<lparr>pr_node_id = pn_id n, pr_trust_level = pn_trust n, pr_origin = pn_origin n,
     pr_content_hash = map_option hash_display (pn_content_hash n)\<rparr>"

record SessionTrace =
  tr_nodes :: "(string, ProvenanceNode) hmap"
  tr_order :: "string list"

definition trace_new :: SessionTrace where
  "trace_new = \<lparr>tr_nodes = [], tr_order = []\<rparr>"

definition trace_get :: "SessionTrace \<Rightarrow> string \<Rightarrow> ProvenanceNode option" where
  "trace_get t i = hm_get (tr_nodes t) i"

fun inherit :: "SessionTrace \<Rightarrow> string list \<Rightarrow> TrustLevel \<times> TaintKind set \<Rightarrow> TrustLevel \<times> TaintKind set" where
  "inherit t [] acc = acc"
| "inherit t (p # ps) (trust, taints) =
     inherit t ps (case trace_get t p of
                     None \<Rightarrow> (trust, taints)
                   | Some n \<Rightarrow> (trust_combine trust (pn_trust n), taints \<union> pn_taints n))"

definition ingest ::
  "value_codec \<Rightarrow> string \<Rightarrow> string \<Rightarrow> TrustLevel \<Rightarrow> string option \<Rightarrow> TaintKind list \<Rightarrow> string list
   \<Rightarrow> timestamp \<Rightarrow> SessionTrace \<Rightarrow> SessionTrace" where
  "ingest k i origin declared content taints derived_from now t =
     (let (trust, inherited) = inherit t derived_from (declared, {})
      in \<lparr>tr_nodes = hm_insert i
            \<lparr>pn_id = i, pn_trust = trust, pn_origin = origin,
             pn_content_hash = map_option (\<lambda>c. hash_bytes (vc_sha k) (utf8 c)) content,
             pn_taints = inherited \<union> set taints, pn_derived_from = derived_from,
             pn_created_at = now, pn_tracked_values = []\<rparr> (tr_nodes t),
          tr_order = tr_order t @ [i]\<rparr>)"

definition track_value :: "value_codec \<Rightarrow> string \<Rightarrow> string \<Rightarrow> SessionTrace \<Rightarrow> bool \<times> SessionTrace" where
  "track_value k i value t =
     (case trace_get t i of
        None \<Rightarrow> (False, t)
      | Some n \<Rightarrow>
          (case tracked_new k value of
             None \<Rightarrow> (False, t)
           | Some tv \<Rightarrow>
               (True, t\<lparr>tr_nodes := hm_insert i
                          (n\<lparr>pn_tracked_values := pn_tracked_values n @ [tv]\<rparr>) (tr_nodes t)\<rparr>)))"

subsection \<open>Causal chains\<close>

definition unseen :: "SessionTrace \<Rightarrow> string set \<Rightarrow> nat" where
  "unseen t seen = card (set (map fst (tr_nodes t)) - seen)"

lemma unseen_less:
  "trace_get t i = Some n \<Longrightarrow> i \<notin> seen \<Longrightarrow> unseen t (insert i seen) < unseen t seen"
proof -
  assume "trace_get t i = Some n" "i \<notin> seen"
  then have "i \<in> set (map fst (tr_nodes t)) - seen"
    by (force simp: trace_get_def hm_get_def dest: map_of_SomeD)
  then show ?thesis
    unfolding unseen_def by (intro psubset_card_mono) auto
qed

lemma unseen_le: "unseen t (insert i seen) \<le> unseen t seen"
  unfolding unseen_def by (intro card_mono) auto

text \<open>The loop of \<^verbatim>\<open>causal_chain\<close>: the seen identifiers, the queue and the nodes collected so far.\<close>

function chain_loop ::
  "SessionTrace \<Rightarrow> string set \<Rightarrow> string list \<Rightarrow> ProvenanceNode list \<Rightarrow> ProvenanceNode list" where
  "chain_loop t seen [] collected = collected"
| "chain_loop t seen (i # queue) collected =
     (if i \<in> seen then chain_loop t seen queue collected
      else case trace_get t i of
             None \<Rightarrow> chain_loop t (insert i seen) queue collected
           | Some n \<Rightarrow> chain_loop t (insert i seen) (queue @ pn_derived_from n) (collected @ [n]))"
  by pat_completeness auto
termination
  by (relation "measures [\<lambda>(t, seen, q, _). unseen t seen, \<lambda>(t, seen, q, _). length q]")
    (auto simp: unseen_less intro: le_neq_implies_less unseen_le)

text \<open>
  The position of an identifier in the insertion order, the last one when it occurs twice. An
  identifier that was never inserted sorts behind all others.
\<close>

definition position :: "string list \<Rightarrow> string \<Rightarrow> nat" where
  "position order i =
     (case map_of (rev (zip order [0..<length order])) i of Some p \<Rightarrow> p | None \<Rightarrow> length order)"

definition causal_chain :: "SessionTrace \<Rightarrow> string \<Rightarrow> ProvenanceRef list" where
  "causal_chain t start =
     map node_ref (sort_key (\<lambda>n. position (tr_order t) (pn_id n)) (chain_loop t {} [start] []))"

subsection \<open>Analysis of an action\<close>

record TraceFindings =
  tf_taints :: "TaintKind set"
  tf_chain :: "ProvenanceRef list"
  tf_lowest_trust :: "TrustLevel option"
  tf_untrusted_instruction_influence :: bool
  tf_value_flows :: "(string \<times> FlowEncoding) list"
  tf_evasive_encoding :: bool

definition findings_default :: TraceFindings where
  "findings_default = \<lparr>tf_taints = {}, tf_chain = [], tf_lowest_trust = None,
     tf_untrusted_instruction_influence = False, tf_value_flows = [], tf_evasive_encoding = False\<rparr>"

definition lowest_trust :: "SessionTrace \<Rightarrow> TrustLevel option" where
  "lowest_trust t = foldl (opt_merge trust_combine) None (map pn_trust (hm_values (tr_nodes t)))"

text \<open>The first content string in which a tracked value occurs.\<close>

fun first_flow :: "TrackedValue \<Rightarrow> (string \<times> string) list \<Rightarrow> FlowEncoding option" where
  "first_flow tv [] = None"
| "first_flow tv ((path, content) # cs) =
     (case find_in tv content of Some e \<Rightarrow> Some e | None \<Rightarrow> first_flow tv cs)"

definition node_flows :: "(string \<times> string) list \<Rightarrow> ProvenanceNode \<Rightarrow> (TrackedValue \<times> FlowEncoding) list" where
  "node_flows contents n =
     List.map_filter (\<lambda>tv. map_option (Pair tv) (first_flow tv contents)) (pn_tracked_values n)"

definition add_flow_node ::
  "(string \<times> string) list \<Rightarrow> ProvenanceNode list \<Rightarrow> ProvenanceNode \<Rightarrow> ProvenanceNode list" where
  "add_flow_node contents contributing n =
     (if node_flows contents n \<noteq> [] \<and> pn_id n \<notin> pn_id ` set contributing
      then contributing @ [n] else contributing)"

fun merge_chain :: "string set \<Rightarrow> ProvenanceRef list \<Rightarrow> ProvenanceRef list" where
  "merge_chain seen [] = []"
| "merge_chain seen (r # rs) =
     (if pr_node_id r \<in> seen then merge_chain seen rs
      else r # merge_chain (insert (pr_node_id r) seen) rs)"

definition contributing_nodes ::
  "SessionTrace \<Rightarrow> string list \<Rightarrow> (string \<times> string) list \<Rightarrow> ProvenanceNode list" where
  "contributing_nodes t declared contents =
     foldl (add_flow_node contents) (List.map_filter (trace_get t) declared) (hm_values (tr_nodes t))"

definition analyze_action ::
  "value_codec \<Rightarrow> SessionTrace \<Rightarrow> string list \<Rightarrow> (string \<times> string) list \<Rightarrow> TraceFindings" where
  "analyze_action k t declared contents =
     (let contributing = contributing_nodes t declared contents;
          flows = concat (map (node_flows contents) (hm_values (tr_nodes t)));
          value_flows = map (\<lambda>(tv, e). (tracked_fingerprint k tv, e)) flows;
          evasive = list_ex (\<lambda>(tv, e). suggests_evasion e) flows
      in if contributing = [] then
           let influenced = list_ex (\<lambda>n. UntrustedInstruction \<in> pn_taints n) (hm_values (tr_nodes t))
           in findings_default\<lparr>tf_lowest_trust := lowest_trust t,
                tf_untrusted_instruction_influence := influenced,
                tf_taints := (if influenced then {UntrustedInstruction} else {}),
                tf_value_flows := value_flows, tf_evasive_encoding := evasive\<rparr>
         else
           \<lparr>tf_taints = \<Union> (pn_taints ` set contributing),
            tf_chain = sort_key (\<lambda>r. position (tr_order t) (pr_node_id r))
              (merge_chain {} (concat (map (\<lambda>n. causal_chain t (pn_id n)) contributing))),
            tf_lowest_trust = foldl (opt_merge trust_combine) None (map pn_trust contributing),
            tf_untrusted_instruction_influence =
              list_ex (\<lambda>n. UntrustedInstruction \<in> pn_taints n
                           \<and> \<not> carries_instruction_authority (pn_trust n)) contributing,
            tf_value_flows = value_flows, tf_evasive_encoding = evasive\<rparr>)"

text \<open>\<^verbatim>\<open>taints_vec\<close>: the taints in declaration order, which is the order of the set.\<close>

definition all_taints :: "TaintKind list" where
  "all_taints = [UntrustedInstruction, Secret, Credential, Pii, FinancialData, AuthenticationData,
     ConfidentialData, ExecutableContent, ExternalUrl, UntrustedCode, SecurityPolicyContent, ApprovalData]"

definition taints_vec :: "TraceFindings \<Rightarrow> TaintKind list" where
  "taints_vec f = filter (\<lambda>x. x \<in> tf_taints f) all_taints"

section \<open>Inheritance of trust and taints\<close>

lemma trace_get_new [simp]: "trace_get trace_new i = None"
  by (simp add: trace_get_def trace_new_def)

lemma inherit_result:
  "inherit t ps (trust, taints) =
     (foldl trust_combine trust (map pn_trust (List.map_filter (trace_get t) ps)),
      taints \<union> \<Union> (pn_taints ` set (List.map_filter (trace_get t) ps)))"
  by (induction ps arbitrary: trust taints)
    (auto simp: List.map_filter_simps split: option.splits)

lemma map_filter_mem: "y \<in> set (List.map_filter f xs) \<longleftrightarrow> (\<exists>x \<in> set xs. f x = Some y)"
  by (induction xs) (auto simp: List.map_filter_simps split: option.splits)

lemma foldl_trust_le_start: "trust_rank (foldl trust_combine x ts) \<le> trust_rank x"
  using trust.foldl_ge_start [of x ts] by simp

lemma foldl_trust_le_elem: "y \<in> set ts \<Longrightarrow> trust_rank (foldl trust_combine x ts) \<le> trust_rank y"
  using trust.foldl_ge_elem [of y ts x] by simp

lemma ingest_get:
  "trace_get (ingest k i origin declared content taints ps now t) j =
     (if j = i then
        Some \<lparr>pn_id = i, pn_trust = foldl trust_combine declared (map pn_trust (List.map_filter (trace_get t) ps)),
          pn_origin = origin, pn_content_hash = map_option (\<lambda>c. hash_bytes (vc_sha k) (utf8 c)) content,
          pn_taints = \<Union> (pn_taints ` set (List.map_filter (trace_get t) ps)) \<union> set taints,
          pn_derived_from = ps, pn_created_at = now, pn_tracked_values = []\<rparr>
      else trace_get t j)"
  by (simp add: ingest_def trace_get_def inherit_result)

lemma track_value_get:
  "trace_get (snd (track_value k i v t)) j =
     (case tracked_new k v of
        None \<Rightarrow> trace_get t j
      | Some tv \<Rightarrow> (if j = i then map_option (\<lambda>n. n\<lparr>pn_tracked_values := pn_tracked_values n @ [tv]\<rparr>) (trace_get t i)
                    else trace_get t j))"
  by (auto simp: track_value_def trace_get_def split: option.splits)

text \<open>
  How a trace evolves. A generated identifier is new: no node has it and none refers to it.
\<close>

definition fresh :: "SessionTrace \<Rightarrow> string \<Rightarrow> bool" where
  "fresh t i \<longleftrightarrow> trace_get t i = None \<and> (\<forall>j n. trace_get t j = Some n \<longrightarrow> i \<notin> set (pn_derived_from n))"

inductive trace_reach :: "value_codec \<Rightarrow> SessionTrace \<Rightarrow> bool" for k where
  new: "trace_reach k trace_new"
| ingest: "trace_reach k t \<Longrightarrow> fresh t i \<Longrightarrow> i \<notin> set ps \<Longrightarrow>
     trace_reach k (ingest k i origin declared content taints ps now t)"
| track: "trace_reach k t \<Longrightarrow> trace_reach k (snd (track_value k i v t))"

inductive ancestor :: "SessionTrace \<Rightarrow> string \<Rightarrow> string \<Rightarrow> bool" for t i where
  self: "trace_get t i = Some n \<Longrightarrow> ancestor t i i"
| parent: "ancestor t i j \<Longrightarrow> trace_get t j = Some n \<Longrightarrow> p \<in> set (pn_derived_from n) \<Longrightarrow>
     trace_get t p = Some m \<Longrightarrow> ancestor t i p"

text \<open>Every node is at most as trusted as each of its parents and carries all their taints.\<close>

definition edges_ok :: "SessionTrace \<Rightarrow> bool" where
  "edges_ok t \<longleftrightarrow>
     (\<forall>i n p m. trace_get t i = Some n \<longrightarrow> p \<in> set (pn_derived_from n) \<longrightarrow> trace_get t p = Some m \<longrightarrow>
        trust_rank (pn_trust n) \<le> trust_rank (pn_trust m) \<and> pn_taints m \<subseteq> pn_taints n)"

definition ids_ok :: "SessionTrace \<Rightarrow> bool" where
  "ids_ok t \<longleftrightarrow> hm_invar (tr_nodes t) \<and> (\<forall>i n. trace_get t i = Some n \<longrightarrow> pn_id n = i)"

lemma ingest_edges:
  assumes "edges_ok t" "fresh t i" "i \<notin> set ps"
  shows "edges_ok (ingest k i origin declared content taints ps now t)"
  unfolding edges_ok_def
proof (intro allI impI)
  let ?t = "ingest k i origin declared content taints ps now t"
  fix j n p m
  assume j: "trace_get ?t j = Some n" and p: "p \<in> set (pn_derived_from n)" and m: "trace_get ?t p = Some m"
  have "p \<noteq> i" using j p assms(2,3) by (auto simp: ingest_get fresh_def split: if_splits)
  with m have m': "trace_get t p = Some m" by (simp add: ingest_get)
  show "trust_rank (pn_trust n) \<le> trust_rank (pn_trust m) \<and> pn_taints m \<subseteq> pn_taints n"
  proof (cases "j = i")
    case True
    with j p have "p \<in> set ps" by (auto simp: ingest_get)
    with m' have mem: "m \<in> set (List.map_filter (trace_get t) ps)" by (auto simp: map_filter_mem)
    then have "trust_rank (foldl trust_combine declared (map pn_trust (List.map_filter (trace_get t) ps)))
        \<le> trust_rank (pn_trust m)"
      by (intro foldl_trust_le_elem) simp
    with mem True j show ?thesis by (auto simp: ingest_get)
  next
    case False
    with assms(1) j p m' show ?thesis unfolding edges_ok_def by (auto simp: ingest_get)
  qed
qed

lemma track_edges: "edges_ok t \<Longrightarrow> edges_ok (snd (track_value k i v t))"
  unfolding edges_ok_def by (fastforce simp: track_value_get split: option.splits if_splits)

lemma trace_reach_edges: "trace_reach k t \<Longrightarrow> edges_ok t"
proof (induction rule: trace_reach.induct)
  case new
  then show ?case by (simp add: edges_ok_def trace_get_def trace_new_def)
qed (simp_all add: ingest_edges track_edges)

lemma trace_reach_ids: "trace_reach k t \<Longrightarrow> ids_ok t"
proof (induction rule: trace_reach.induct)
  case new
  then show ?case by (simp add: ids_ok_def trace_get_def trace_new_def hm_invar_def)
next
  case (ingest t i ps origin declared content taints now)
  then show ?case
    by (auto simp: ids_ok_def ingest_get) (simp add: ingest_def hm_invar_insert split_beta)
next
  case (track t i v)
  have "hm_invar (tr_nodes (snd (track_value k i v t)))"
    using track.IH by (auto simp: ids_ok_def track_value_def hm_invar_insert split: option.splits)
  with track.IH show ?case
    by (auto simp: ids_ok_def track_value_get split: option.splits if_splits)
qed

lemma ancestor_trust:
  assumes "ancestor t i j" "edges_ok t" "trace_get t i = Some n" "trace_get t j = Some m"
  shows "trust_rank (pn_trust n) \<le> trust_rank (pn_trust m) \<and> pn_taints m \<subseteq> pn_taints n"
  using assms(1,4)
proof (induction arbitrary: m rule: ancestor.induct)
  case (self n')
  then show ?case using assms(3) by simp
next
  case (parent j n' p m')
  have "trust_rank (pn_trust n') \<le> trust_rank (pn_trust m) \<and> pn_taints m \<subseteq> pn_taints n'"
    using assms(2) parent unfolding edges_ok_def by blast
  with parent.IH [OF parent.hyps(2)] show ?case by auto
qed

section \<open>Causal chains are the ancestors\<close>

definition from_start :: "SessionTrace \<Rightarrow> string \<Rightarrow> string list \<Rightarrow> ProvenanceNode list \<Rightarrow> bool" where
  "from_start t s queue collected \<longleftrightarrow>
     (\<forall>n \<in> set collected. trace_get t (pn_id n) = Some n \<and> ancestor t s (pn_id n)) \<and>
     (\<forall>q \<in> set queue. \<forall>n. trace_get t q = Some n \<longrightarrow> ancestor t s q)"

lemma chain_loop_sound:
  "ids_ok t \<Longrightarrow> from_start t s queue collected \<Longrightarrow> from_start t s [] (chain_loop t seen queue collected)"
proof (induction t seen queue collected rule: chain_loop.induct)
  case (2 t seen i queue collected)
  show ?case
  proof (cases "i \<in> seen \<or> trace_get t i = None")
    case True
    have "from_start t s queue collected" using "2.prems"(2) by (simp add: from_start_def)
    with True 2 show ?thesis by auto
  next
    case False
    then obtain m where m: "trace_get t i = Some m" and i: "i \<notin> seen" by auto
    have anc: "ancestor t s i" using "2.prems"(2) m by (auto simp: from_start_def)
    have "pn_id m = i" using "2.prems"(1) m by (simp add: ids_ok_def)
    then have "from_start t s (queue @ pn_derived_from m) (collected @ [m])"
      using "2.prems"(2) m anc ancestor.parent [OF anc m] by (auto simp: from_start_def)
    with "2.IH"(3) [OF i m "2.prems"(1)] m i show ?thesis by simp
  qed
qed simp

definition chain_inv :: "SessionTrace \<Rightarrow> string set \<Rightarrow> string list \<Rightarrow> ProvenanceNode list \<Rightarrow> bool" where
  "chain_inv t seen queue collected \<longleftrightarrow>
     (\<forall>i n. i \<in> seen \<longrightarrow> trace_get t i = Some n \<longrightarrow> n \<in> set collected) \<and>
     (\<forall>n p. n \<in> set collected \<longrightarrow> p \<in> set (pn_derived_from n) \<longrightarrow> p \<in> seen \<or> p \<in> set queue)"

definition parents_closed :: "SessionTrace \<Rightarrow> ProvenanceNode set \<Rightarrow> bool" where
  "parents_closed t R \<longleftrightarrow>
     (\<forall>n p m. n \<in> R \<longrightarrow> p \<in> set (pn_derived_from n) \<longrightarrow> trace_get t p = Some m \<longrightarrow> m \<in> R)"

lemma chain_loop_complete:
  "chain_inv t seen queue collected \<Longrightarrow>
     set collected \<subseteq> set (chain_loop t seen queue collected) \<and>
     (\<forall>q n. q \<in> set queue \<longrightarrow> trace_get t q = Some n \<longrightarrow> n \<in> set (chain_loop t seen queue collected)) \<and>
     parents_closed t (set (chain_loop t seen queue collected))"
proof (induction t seen queue collected rule: chain_loop.induct)
  case (1 t seen collected)
  then show ?case by (auto simp: chain_inv_def parents_closed_def)
next
  case (2 t seen i queue collected)
  show ?case
  proof (cases "i \<in> seen")
    case True
    then have "chain_inv t seen queue collected"
      using "2.prems" by (auto simp: chain_inv_def)
    from "2.IH"(1) [OF True this] True "2.prems" show ?thesis by (auto simp: chain_inv_def)
  next
    case False
    show ?thesis
    proof (cases "trace_get t i")
      case None
      then have "chain_inv t (insert i seen) queue collected"
        using "2.prems" by (auto simp: chain_inv_def)
      from "2.IH"(2) [OF False None this] None False show ?thesis by auto
    next
      case (Some m)
      then have "chain_inv t (insert i seen) (queue @ pn_derived_from m) (collected @ [m])"
        using "2.prems" by (auto simp: chain_inv_def)
      from "2.IH"(3) [OF False Some this] Some False show ?thesis by auto
    qed
  qed
qed

lemma chain_loop_distinct:
  assumes "ids_ok t" "distinct (map pn_id collected)" "pn_id ` set collected \<subseteq> seen"
  shows "distinct (map pn_id (chain_loop t seen queue collected))"
  using assms
proof (induction t seen queue collected rule: chain_loop.induct)
  case (2 t seen i queue collected)
  have id: "pn_id n = i" if "trace_get t i = Some n" for n using that "2.prems"(1) by (auto simp: ids_ok_def)
  have "pn_id ` set collected \<subseteq> insert i seen" "i \<notin> seen \<Longrightarrow> i \<notin> pn_id ` set collected"
    using "2.prems"(3) by auto
  with id 2 show ?case by (cases "i \<in> seen"; cases "trace_get t i") simp_all
qed simp

lemma chain_loop_ancestors:
  assumes "ids_ok t"
  shows "n \<in> set (chain_loop t {} [start] []) \<longleftrightarrow> trace_get t (pn_id n) = Some n \<and> ancestor t start (pn_id n)"
proof
  assume "n \<in> set (chain_loop t {} [start] [])"
  then show "trace_get t (pn_id n) = Some n \<and> ancestor t start (pn_id n)"
    using chain_loop_sound [OF assms, of start "[start]" "[]" "{}"] ancestor.self
    by (auto simp: from_start_def)
next
  assume h: "trace_get t (pn_id n) = Some n \<and> ancestor t start (pn_id n)"
  have R: "trace_get t start = Some m \<Longrightarrow> m \<in> set (chain_loop t {} [start] [])"
    "parents_closed t (set (chain_loop t {} [start] []))" for m
    using chain_loop_complete [of t "{}" "[start]" "[]"] by (auto simp: chain_inv_def)
  have "\<forall>m. trace_get t j = Some m \<longrightarrow> m \<in> set (chain_loop t {} [start] [])" if "ancestor t start j" for j
    using that by (induction rule: ancestor.induct) (use R in \<open>auto simp: parents_closed_def\<close>)
  with h show "n \<in> set (chain_loop t {} [start] [])" by auto
qed

section \<open>What contributes to an action\<close>

lemma node_values: "ids_ok t \<Longrightarrow> n \<in> set (hm_values (tr_nodes t)) \<longleftrightarrow> trace_get t (pn_id n) = Some n"
  using hm_values_get [of "tr_nodes t" n] hm_get_values [of "tr_nodes t" _ n]
  by (auto simp: ids_ok_def trace_get_def)

lemma add_flow_nodes:
  "set ns \<subseteq> set (foldl (add_flow_node cs) ns ms) \<and>
   set (foldl (add_flow_node cs) ns ms) \<subseteq> set ns \<union> set ms \<and>
   (\<forall>m \<in> set ms. node_flows cs m \<noteq> [] \<longrightarrow> pn_id m \<in> pn_id ` set (foldl (add_flow_node cs) ns ms))"
proof (induction ms arbitrary: ns)
  case (Cons m ms)
  have "set ns \<subseteq> set (add_flow_node cs ns m)" "set (add_flow_node cs ns m) \<subseteq> insert m (set ns)"
    "node_flows cs m \<noteq> [] \<Longrightarrow> pn_id m \<in> pn_id ` set (add_flow_node cs ns m)"
    by (auto simp: add_flow_node_def)
  with Cons.IH [of "add_flow_node cs ns m"] show ?case by auto
qed simp

lemma first_flow_found: "(p, c) \<in> set cs \<Longrightarrow> find_in tv c \<noteq> None \<Longrightarrow> first_flow tv cs \<noteq> None"
  by (induction cs) (auto split: option.splits)

lemma node_flows_found:
  "tv \<in> set (pn_tracked_values n) \<Longrightarrow> (p, c) \<in> set cs \<Longrightarrow> find_in tv c \<noteq> None \<Longrightarrow> node_flows cs n \<noteq> []"
proof -
  assume h: "tv \<in> set (pn_tracked_values n)" "(p, c) \<in> set cs" "find_in tv c \<noteq> None"
  then obtain e where "first_flow tv cs = Some e" using first_flow_found by blast
  then have "(tv, e) \<in> set (node_flows cs n)" using h(1) by (force simp: node_flows_def map_filter_mem)
  then show ?thesis by auto
qed

definition influences :: "SessionTrace \<Rightarrow> string list \<Rightarrow> (string \<times> string) list \<Rightarrow> ProvenanceNode \<Rightarrow> bool" where
  "influences t declared contents n \<longleftrightarrow>
     trace_get t (pn_id n) = Some n \<and>
     (pn_id n \<in> set declared \<or>
      (\<exists>tv p c. tv \<in> set (pn_tracked_values n) \<and> (p, c) \<in> set contents \<and> find_in tv c \<noteq> None))"

lemma influences_contributes:
  assumes "ids_ok t" "influences t declared contents n"
  shows "n \<in> set (contributing_nodes t declared contents)"
proof -
  let ?R = "contributing_nodes t declared contents"
  note R = add_flow_nodes [where ns = "List.map_filter (trace_get t) declared" and ms = "hm_values (tr_nodes t)"
      and cs = contents, folded contributing_nodes_def]
  have known: "trace_get t (pn_id m) = Some m" if "m \<in> set ?R" for m
  proof -
    have "m \<in> set (List.map_filter (trace_get t) declared) \<or> m \<in> set (hm_values (tr_nodes t))"
      using R that by blast
    then show ?thesis
      using assms(1) node_values [OF assms(1), of m] by (auto simp: map_filter_mem ids_ok_def)
  qed
  from assms(2) have n: "trace_get t (pn_id n) = Some n" by (simp add: influences_def)
  show ?thesis
  proof (cases "pn_id n \<in> set declared")
    case True
    then have "n \<in> set (List.map_filter (trace_get t) declared)" using n by (auto simp: map_filter_mem)
    then show ?thesis using R by blast
  next
    case False
    with assms(2) have "node_flows contents n \<noteq> []"
      by (auto simp: influences_def dest: node_flows_found)
    moreover have "n \<in> set (hm_values (tr_nodes t))" using n node_values [OF assms(1), of n] by simp
    ultimately have "pn_id n \<in> pn_id ` set ?R" using R by blast
    then obtain m where "m \<in> set ?R" "pn_id n = pn_id m" by (rule imageE)
    with known [of m] n show ?thesis by simp
  qed
qed

lemma opt_trust_fold:
  assumes "n \<in> set ns"
  obtains l where "foldl (opt_merge trust_combine) None (map pn_trust ns) = Some l"
    "trust_rank l \<le> trust_rank (pn_trust n)"
proof -
  have "map pn_trust ns \<noteq> []" using assms by auto
  then obtain l where l: "foldl (opt_merge trust_combine) None (map pn_trust ns) = Some l"
    using trust.opt_foldl_None_iff [of "map pn_trust ns"] by fastforce
  then have "\<forall>y \<in> set (map pn_trust ns). - int (trust_rank y) \<le> - int (trust_rank l)"
    using trust.opt_foldl_Some_iff [of "map pn_trust ns" l] by blast
  then have "trust_rank l \<le> trust_rank (pn_trust n)" using assms by auto
  with l that show ?thesis by blast
qed

lemma find_encoding_found:
  "(e, needle) \<in> set es \<Longrightarrow> str_contains c needle \<Longrightarrow> find_encoding c s es \<noteq> None"
  by (induction es) auto

section \<open>Sample inputs\<close>

definition sample_codec :: value_codec where
  "sample_codec = \<lparr>vc_base64 = (\<lambda>b. ''b64''), vc_base64_url = (\<lambda>b. ''b64url''), vc_hex = (\<lambda>b. ''hex''),
     vc_hex_upper = (\<lambda>b. ''HEX''), vc_sha = (\<lambda>b. ''00'')\<rparr>"

definition sample_page :: SessionTrace where
  "sample_page = ingest sample_codec ''page'' ''web:a'' WebUntrusted None [UntrustedInstruction] [] 0 trace_new"

definition sample_trace :: SessionTrace where
  "sample_trace = ingest sample_codec ''out'' ''model'' SystemTrusted None [] [''page''] 1 sample_page"

lemma sample_page_reach: "trace_reach sample_codec sample_page"
  unfolding sample_page_def
  by (rule trace_reach.ingest [OF trace_reach.new]) (simp_all add: fresh_def trace_get_def trace_new_def)

lemma sample_trace_reach: "trace_reach sample_codec sample_trace"
  unfolding sample_trace_def
  by (rule trace_reach.ingest [OF sample_page_reach])
    (auto simp: fresh_def sample_page_def ingest_get)

lemma sample_trace_get:
  "trace_get sample_trace ''page'' = Some n \<longleftrightarrow> n = \<lparr>pn_id = ''page'', pn_trust = WebUntrusted, pn_origin = ''web:a'',
     pn_content_hash = None, pn_taints = {UntrustedInstruction}, pn_derived_from = [], pn_created_at = 0,
     pn_tracked_values = []\<rparr>"
  "trace_get sample_trace ''out'' = Some n \<longleftrightarrow> n = \<lparr>pn_id = ''out'', pn_trust = WebUntrusted, pn_origin = ''model'',
     pn_content_hash = None, pn_taints = {UntrustedInstruction}, pn_derived_from = [''page''], pn_created_at = 1,
     pn_tracked_values = []\<rparr>"
  by (auto simp: sample_trace_def sample_page_def ingest_get List.map_filter_simps trust_combine_def)

section \<open>Properties\<close>

text \<open>
  C38: trust never rises and taints never vanish along derivation: in every trace built by ingestion
  with fresh identifiers and by tracking values, a node is at most as trusted as each of its
  ancestors and carries every taint of theirs, however long the chain.
\<close>

theorem trace_trust_never_rises:
  assumes "trace_reach k t" and "ancestor t i j" and "trace_get t i = Some n" and "trace_get t j = Some m"
  shows "trust_rank (pn_trust n) \<le> trust_rank (pn_trust m) \<and> pn_taints m \<subseteq> pn_taints n"
  using assms(2) trace_reach_edges [OF assms(1)] assms(3,4) by (rule ancestor_trust)

theorem trace_trust_never_rises_witness:
  "\<exists>n. trace_get sample_trace ''out'' = Some n \<and> trust_rank (pn_trust n) \<le> trust_rank WebUntrusted \<and>
     UntrustedInstruction \<in> pn_taints n"
proof -
  obtain n m where n: "trace_get sample_trace ''out'' = Some n" "pn_derived_from n = [''page'']"
    and m: "trace_get sample_trace ''page'' = Some m" "pn_trust m = WebUntrusted" "UntrustedInstruction \<in> pn_taints m"
    using sample_trace_get by auto
  have "ancestor sample_trace ''out'' ''page''"
    using ancestor.parent [OF ancestor.self [OF n(1)] n(1) _ m(1)] n(2) by simp
  from trace_trust_never_rises [OF sample_trace_reach this n(1) m(1)] n m show ?thesis by auto
qed

text \<open>
  C39: the causal chain of a node is complete, free of duplicates and in order: the search ends on
  every graph, cyclic ones included, and its result lists exactly the known ancestors of the start,
  each once, by their position in the session.
\<close>

theorem causal_chain_ancestors:
  assumes "trace_reach k t"
  shows "set (map pr_node_id (causal_chain t start)) = {i. ancestor t start i} \<and>
         distinct (map pr_node_id (causal_chain t start)) \<and>
         sorted (map (\<lambda>r. position (tr_order t) (pr_node_id r)) (causal_chain t start))"
proof -
  have ids: "ids_ok t" using assms by (rule trace_reach_ids)
  let ?ns = "sort_key (\<lambda>n. position (tr_order t) (pn_id n)) (chain_loop t {} [start] [])"
  have refs: "map pr_node_id (causal_chain t start) = map pn_id ?ns"
    by (simp add: causal_chain_def node_ref_def comp_def)
  have known: "\<exists>n. trace_get t i = Some n \<and> pn_id n = i" if "ancestor t start i" for i
    using that ids by (cases rule: ancestor.cases) (auto simp: ids_ok_def)
  have "pn_id ` set (chain_loop t {} [start] []) = {i. ancestor t start i}"
  proof (intro set_eqI iffI)
    fix i
    assume "i \<in> {i. ancestor t start i}"
    with known obtain n where "trace_get t i = Some n" "pn_id n = i" "ancestor t start i" by blast
    then show "i \<in> pn_id ` set (chain_loop t {} [start] [])"
      using chain_loop_ancestors [OF ids, of n start] by (auto simp del: chain_loop.simps)
  qed (use chain_loop_ancestors [OF ids] in \<open>auto simp del: chain_loop.simps\<close>)
  moreover have "distinct (map pn_id ?ns)"
  proof -
    have "distinct (map pn_id (chain_loop t {} [start] []))"
      using ids by (intro chain_loop_distinct) simp_all
    then show ?thesis by (metis mset_map mset_sort mset_eq_imp_distinct_iff)
  qed
  moreover have "sorted (map (\<lambda>r. position (tr_order t) (pr_node_id r)) (causal_chain t start))"
    by (simp add: causal_chain_def node_ref_def comp_def)
  ultimately show ?thesis unfolding refs by simp
qed

theorem causal_chain_ancestors_witness:
  "''page'' \<in> set (map pr_node_id (causal_chain sample_trace ''out''))"
proof -
  obtain n m where n: "trace_get sample_trace ''out'' = Some n" "pn_derived_from n = [''page'']"
    and m: "trace_get sample_trace ''page'' = Some m"
    using sample_trace_get by auto
  have "ancestor sample_trace ''out'' ''page''"
    using ancestor.parent [OF ancestor.self [OF n(1)] n(1) _ m(1)] n(2) by simp
  then show ?thesis using causal_chain_ancestors [OF sample_trace_reach, of "''out''"] by simp
qed

text \<open>
  An action inherits from everything that influences it. Whatever node the adapter declares, and
  whatever node has a tracked value that occurs in the action under a watched encoding, declared or
  not: its taints are among the findings, the lowest trust reported is at most its trust, and if it
  carries untrusted instructions without authority, the influence is reported.
\<close>

theorem analyze_action_covers:
  assumes "trace_reach k t" and "influences t declared contents n"
  shows "let f = analyze_action k' t declared contents in
     pn_taints n \<subseteq> tf_taints f \<and>
     (\<exists>l. tf_lowest_trust f = Some l \<and> trust_rank l \<le> trust_rank (pn_trust n)) \<and>
     (UntrustedInstruction \<in> pn_taints n \<and> \<not> carries_instruction_authority (pn_trust n)
        \<longrightarrow> tf_untrusted_instruction_influence f)"
proof -
  have n: "n \<in> set (contributing_nodes t declared contents)"
    using trace_reach_ids [OF assms(1)] assms(2) by (rule influences_contributes)
  then have ne: "contributing_nodes t declared contents \<noteq> []" by auto
  obtain l where "foldl (opt_merge trust_combine) None (map pn_trust (contributing_nodes t declared contents)) = Some l"
    "trust_rank l \<le> trust_rank (pn_trust n)"
    using n by (rule opt_trust_fold)
  with n ne show ?thesis
    by (auto simp: analyze_action_def Let_def list_ex_iff)
qed

theorem analyze_action_covers_witness:
  "tf_untrusted_instruction_influence (analyze_action sample_codec sample_trace [''out''] [])"
proof -
  obtain n where n: "trace_get sample_trace ''out'' = Some n" "pn_id n = ''out''"
    "UntrustedInstruction \<in> pn_taints n" "pn_trust n = WebUntrusted"
    using sample_trace_get by auto
  then have "influences sample_trace [''out''] [] n" by (simp add: influences_def)
  from analyze_action_covers [OF sample_trace_reach this, of sample_codec] n show ?thesis
    by (simp add: Let_def carries_instruction_authority_def)
qed

text \<open>
  A tracked value is recognised verbatim, in both Base64 alphabets, in both cases of
  hexadecimal, percent-encoded and reversed.
\<close>

theorem tracked_value_found:
  assumes "tracked_new k v = Some tv"
    and "str_contains content (trim v) \<or> str_contains content (vc_base64 k (utf8 (trim v))) \<or>
         str_contains content (vc_base64_url k (utf8 (trim v))) \<or> str_contains content (vc_hex k (utf8 (trim v))) \<or>
         str_contains content (vc_hex_upper k (utf8 (trim v))) \<or> str_contains content (percent_encode (trim v)) \<or>
         str_contains content (rev (trim v))"
  shows "find_in tv content \<noteq> None"
proof -
  have tv: "tv_encodings tv = value_encodings k (trim v)"
    using assms(1) by (auto simp: tracked_new_def Let_def split: if_splits)
  have "\<exists>e needle. (e, needle) \<in> set (value_encodings k (trim v)) \<and> str_contains content needle"
    using assms(2) by (auto simp: value_encodings_def Let_def)
  then show ?thesis unfolding find_in_def tv by (meson find_encoding_found)
qed

theorem tracked_value_found_witness:
  "\<exists>tv. tracked_new sample_codec ''sk-live-42'' = Some tv \<and> find_in tv ''nothing here'' = None \<and>
     find_in tv ''x24-evil-ks'' \<noteq> None"
proof -
  have "map_option (\<lambda>tv. find_in tv ''nothing here'') (tracked_new sample_codec ''sk-live-42'') = Some None"
    by code_simp
  then obtain tv where tv: "tracked_new sample_codec ''sk-live-42'' = Some tv" "find_in tv ''nothing here'' = None"
    by blast
  have "str_contains ''x24-evil-ks'' (rev (trim ''sk-live-42''))" by code_simp
  with tv tracked_value_found [OF tv(1), of "''x24-evil-ks''"] show ?thesis by blast
qed

text \<open>
  An action of a session without any recorded content is reported as uninfluenced: no trust
  level, no untrusted influence and no taint, whatever sources it declares and whatever it carries.
\<close>

theorem empty_trace_uninfluenced:
  "analyze_action k trace_new declared contents = findings_default"
  by (simp add: analyze_action_def contributing_nodes_def lowest_trust_def findings_default_def Let_def
      trace_new_def trace_get_def hm_values_def List.map_filter_def)

end
