(* ===== verification/Redact.thy ===== *)
theory Redact
  imports Trace
begin

text \<open>
  Redaction and evidence (\<^verbatim>\<open>vigil-common/src/redact.rs\<close>). The marks that the code shows for a control
  character (U+2426) and for a truncation lie outside the characters of the model; they are the
  fields of a record, with what the code relies on as the predicate \<open>plain_marks\<close>.
\<close>

definition is_control :: "char \<Rightarrow> bool" where
  "is_control c = (let n = (of_char c :: nat) in n < 32 \<or> (127 \<le> n \<and> n < 160))"

definition newline :: char where
  "newline = CHR 0x0A"

record marks =
  mk_control :: char
  mk_truncated :: string

definition redact :: "value_codec \<Rightarrow> string \<Rightarrow> string" where
  "redact k v = ''[redacted len='' @ show_nat (str_len v) @ '' '' @ fingerprint k v @ '']''"

definition redact_low_entropy :: "string \<Rightarrow> string" where
  "redact_low_entropy v = ''[redacted len='' @ show_nat (str_len v) @ '']''"

text \<open>
  \<^verbatim>\<open>excerpt\<close> keeps at most the given number of characters, marks a truncation, and replaces control
  characters other than the newline; \<^verbatim>\<open>single_line_excerpt\<close> replaces the newline too.
\<close>

definition excerpt :: "marks \<Rightarrow> string \<Rightarrow> nat \<Rightarrow> string" where
  "excerpt mk v n =
     (let out = take n v;
          out = (if n < length v then out @ mk_truncated mk else out)
      in map (\<lambda>c. if is_control c \<and> c \<noteq> newline then mk_control mk else c) out)"

definition single_line_excerpt :: "marks \<Rightarrow> string \<Rightarrow> nat \<Rightarrow> string" where
  "single_line_excerpt mk v n = map (\<lambda>c. if is_control c then mk_control mk else c) (excerpt mk v n)"

definition MAX_REDACTED_URL_CHARS :: nat where
  "MAX_REDACTED_URL_CHARS = 200"

text \<open>\<^verbatim>\<open>rsplit_once\<close> at a single character: everything before and after its last occurrence.\<close>

definition rsplit_once_char :: "char \<Rightarrow> string \<Rightarrow> (string \<times> string) option" where
  "rsplit_once_char c s =
     (if c \<in> set s
      then Some (rev (tl (dropWhile (\<lambda>x. x \<noteq> c) (rev s))), rev (takeWhile (\<lambda>x. x \<noteq> c) (rev s)))
      else None)"

definition redact_pair :: "string \<Rightarrow> string" where
  "redact_pair pair =
     (case split_once ''='' pair of Some (k, _) \<Rightarrow> k @ ''=[redacted]'' | None \<Rightarrow> pair @ ''=[redacted]'')"

definition redact_query :: "string \<Rightarrow> string" where
  "redact_query q = join_with ''&'' (map redact_pair (filter (\<lambda>p. p \<noteq> []) (split_on (\<lambda>c. c = CHR ''&'') q)))"

definition redact_authority :: "string \<Rightarrow> string" where
  "redact_authority a =
     (case rsplit_once_char (CHR ''@'') a of
        Some (_, host) \<Rightarrow> ''[redacted-userinfo]@'' @ host
      | None \<Rightarrow> a)"

definition redact_url :: "marks \<Rightarrow> string \<Rightarrow> string" where
  "redact_url mk raw =
     (case split_once ''://'' raw of
        None \<Rightarrow> ''[unparsable-url]''
      | Some (scheme, rest) \<Rightarrow>
          let authority = takeWhile (\<lambda>c. c \<noteq> CHR ''/'') rest;
              path_and_query = dropWhile (\<lambda>c. c \<noteq> CHR ''/'') rest;
              host = redact_authority authority;
              rendered = (case split_once ''?'' path_and_query of
                            Some (p, q) \<Rightarrow> scheme @ ''://'' @ host @ p @ ''?'' @ redact_query q
                          | None \<Rightarrow> scheme @ ''://'' @ host @ path_and_query)
          in single_line_excerpt mk rendered MAX_REDACTED_URL_CHARS)"

section \<open>Lemmas\<close>

definition plain_marks :: "marks \<Rightarrow> bool" where
  "plain_marks mk \<longleftrightarrow> \<not> is_control (mk_control mk) \<and> list_all (\<lambda>c. \<not> is_control c) (mk_truncated mk)"

definition sample_marks :: marks where
  "sample_marks = \<lparr>mk_control = CHR ''?'', mk_truncated = ''...[truncated]''\<rparr>"

lemma single_line_excerpt_clean:
  "plain_marks mk \<Longrightarrow> c \<in> set (single_line_excerpt mk v n) \<Longrightarrow> \<not> is_control c"
  by (auto simp: single_line_excerpt_def plain_marks_def)

lemma single_line_excerpt_length:
  "length (single_line_excerpt mk v n) \<le> n + length (mk_truncated mk)"
  by (simp add: single_line_excerpt_def excerpt_def Let_def)

text \<open>The values of a query never survive: only the keys and the fixed mark do.\<close>

lemma redact_pair_value:
  "CHR ''='' \<notin> set k \<Longrightarrow> redact_pair (k @ ''='' @ v) = k @ ''=[redacted]''"
proof -
  assume "CHR ''='' \<notin> set k"
  then have "split_once ''='' (k @ ''='' @ v) = Some (k, v)"
    by (induction k) auto
  then show ?thesis by (simp add: redact_pair_def)
qed

lemma redact_authority_userinfo:
  "CHR ''@'' \<notin> set host \<Longrightarrow> redact_authority (userinfo @ ''@'' @ host) = ''[redacted-userinfo]@'' @ host"
proof -
  assume h: "CHR ''@'' \<notin> set host"
  have "rsplit_once_char (CHR ''@'') (userinfo @ ''@'' @ host) = Some (userinfo, host)"
    using h by (simp add: rsplit_once_char_def takeWhile_append dropWhile_append)
  then show ?thesis by (simp add: redact_authority_def)
qed

end
