(* ===== verification/Reasons.thy ===== *)
theory Reasons
  imports Prelude "HOL-Library.List_Lexorder" "HOL-Library.Char_ord"
begin

text \<open>
  The machine-readable reason codes of \<^verbatim>\<open>vigil-protocol/src/reason.rs\<close>. The macro
  \<^verbatim>\<open>reason_codes!\<close> is given one table of variants and wire strings and derives the enum, the
  printer \<^verbatim>\<open>as_str\<close>, the list \<^verbatim>\<open>all\<close> and the parser \<^verbatim>\<open>from_str\<close> from it; so does the model.
\<close>

datatype (plugins only: code size) ReasonCode =
    SchemaInvalid
  | CanonicalizationFailed
  | RequestTooLarge
  | WorkloadIdentityUnverified
  | AgentIdentityMismatch
  | CrossTenantRequest
  | InsufficientAuthentication
  | CapabilitySignatureInvalid
  | CapabilityExpired
  | CapabilityReplay
  | CapabilityActionMismatch
  | CapabilityBindingMismatch
  | CapabilityMissing
  | PolicyDeny
  | PolicyDefaultDeny
  | PolicyRequiresApproval
  | PolicyEngineUnavailable
  | OutOfRemitTool
  | OutOfRemitOperation
  | OutOfRemitResource
  | ForbiddenGoal
  | RemitDrift
  | RemitMissing
  | UntrustedInstructionFlow
  | UntrustedAuthorityClaim
  | SecretEgress
  | PiiEgress
  | FinancialDataEgress
  | TaintedDestination
  | UntrustedMemoryRead
  | MemoryPoisoningAttempt
  | PromptInjectionSuspected
  | GuardrailEvasionAttempt
  | ObfuscatedContent
  | RoleSpoofing
  | DetectorDegraded
  | DangerousShellCommand
  | CommandInjectionSuspected
  | PathTraversal
  | PathOutsideAllowlist
  | SqlOperationForbidden
  | SqlInjectionSuspected
  | EgressDestinationForbidden
  | SsrfPrivateAddress
  | SsrfMetadataEndpoint
  | ProtocolSchemeForbidden
  | RedirectOutsidePolicy
  | ToolArgumentSchemaViolation
  | ToolUnregistered
  | McpToolDefinitionChanged
  | McpToolDescriptionPoisoned
  | McpExcessiveScope
  | McpTokenPassthrough
  | McpServerSubstitution
  | DelegationPrivilegeExpansion
  | DelegationCycle
  | DelegationDepthExceeded
  | PoisonedAgentMessage
  | ApprovalRequired
  | ApprovalExpired
  | ApprovalReplay
  | ApprovalActionMutated
  | SelfApprovalRejected
  | ApprovalSignatureInvalid
  | ToolCallBudgetExceeded
  | ModelCallBudgetExceeded
  | WallClockBudgetExceeded
  | CostBudgetExceeded
  | LoopDetected
  | RateLimitExceeded
  | DeniedActionRetryPattern
  | PrivilegeSeeking
  | SelfModificationAttempt
  | PersistenceAttempt
  | BehavioralAnomaly
  | PolicyAllow
  | WithinRemit
  | ApprovalSatisfied
  | LowImpactRead
  | ExceptionApplied
  | FailClosed
  | DegradedModeAllow
  | Other string

definition reason_codes :: "(ReasonCode \<times> string) list" where
  "reason_codes =
  [(SchemaInvalid, ''SCHEMA_INVALID''),
   (CanonicalizationFailed, ''CANONICALIZATION_FAILED''),
   (RequestTooLarge, ''REQUEST_TOO_LARGE''),
   (WorkloadIdentityUnverified, ''WORKLOAD_IDENTITY_UNVERIFIED''),
   (AgentIdentityMismatch, ''AGENT_IDENTITY_MISMATCH''),
   (CrossTenantRequest, ''CROSS_TENANT_REQUEST''),
   (InsufficientAuthentication, ''INSUFFICIENT_AUTHENTICATION''),
   (CapabilitySignatureInvalid, ''CAPABILITY_SIGNATURE_INVALID''),
   (CapabilityExpired, ''CAPABILITY_EXPIRED''),
   (CapabilityReplay, ''CAPABILITY_REPLAY''),
   (CapabilityActionMismatch, ''CAPABILITY_ACTION_MISMATCH''),
   (CapabilityBindingMismatch, ''CAPABILITY_BINDING_MISMATCH''),
   (CapabilityMissing, ''CAPABILITY_MISSING''),
   (PolicyDeny, ''POLICY_DENY''),
   (PolicyDefaultDeny, ''POLICY_DEFAULT_DENY''),
   (PolicyRequiresApproval, ''POLICY_REQUIRES_APPROVAL''),
   (PolicyEngineUnavailable, ''POLICY_ENGINE_UNAVAILABLE''),
   (OutOfRemitTool, ''OUT_OF_REMIT_TOOL''),
   (OutOfRemitOperation, ''OUT_OF_REMIT_OPERATION''),
   (OutOfRemitResource, ''OUT_OF_REMIT_RESOURCE''),
   (ForbiddenGoal, ''FORBIDDEN_GOAL''),
   (RemitDrift, ''REMIT_DRIFT''),
   (RemitMissing, ''REMIT_MISSING''),
   (UntrustedInstructionFlow, ''UNTRUSTED_INSTRUCTION_FLOW''),
   (UntrustedAuthorityClaim, ''UNTRUSTED_AUTHORITY_CLAIM''),
   (SecretEgress, ''SECRET_EGRESS''),
   (PiiEgress, ''PII_EGRESS''),
   (FinancialDataEgress, ''FINANCIAL_DATA_EGRESS''),
   (TaintedDestination, ''TAINTED_DESTINATION''),
   (UntrustedMemoryRead, ''UNTRUSTED_MEMORY_READ''),
   (MemoryPoisoningAttempt, ''MEMORY_POISONING_ATTEMPT''),
   (PromptInjectionSuspected, ''PROMPT_INJECTION_SUSPECTED''),
   (GuardrailEvasionAttempt, ''GUARDRAIL_EVASION_ATTEMPT''),
   (ObfuscatedContent, ''OBFUSCATED_CONTENT''),
   (RoleSpoofing, ''ROLE_SPOOFING''),
   (DetectorDegraded, ''DETECTOR_DEGRADED''),
   (DangerousShellCommand, ''DANGEROUS_SHELL_COMMAND''),
   (CommandInjectionSuspected, ''COMMAND_INJECTION_SUSPECTED''),
   (PathTraversal, ''PATH_TRAVERSAL''),
   (PathOutsideAllowlist, ''PATH_OUTSIDE_ALLOWLIST''),
   (SqlOperationForbidden, ''SQL_OPERATION_FORBIDDEN''),
   (SqlInjectionSuspected, ''SQL_INJECTION_SUSPECTED''),
   (EgressDestinationForbidden, ''EGRESS_DESTINATION_FORBIDDEN''),
   (SsrfPrivateAddress, ''SSRF_PRIVATE_ADDRESS''),
   (SsrfMetadataEndpoint, ''SSRF_METADATA_ENDPOINT''),
   (ProtocolSchemeForbidden, ''PROTOCOL_SCHEME_FORBIDDEN''),
   (RedirectOutsidePolicy, ''REDIRECT_OUTSIDE_POLICY''),
   (ToolArgumentSchemaViolation, ''TOOL_ARGUMENT_SCHEMA_VIOLATION''),
   (ToolUnregistered, ''TOOL_UNREGISTERED''),
   (McpToolDefinitionChanged, ''MCP_TOOL_DEFINITION_CHANGED''),
   (McpToolDescriptionPoisoned, ''MCP_TOOL_DESCRIPTION_POISONED''),
   (McpExcessiveScope, ''MCP_EXCESSIVE_SCOPE''),
   (McpTokenPassthrough, ''MCP_TOKEN_PASSTHROUGH''),
   (McpServerSubstitution, ''MCP_SERVER_SUBSTITUTION''),
   (DelegationPrivilegeExpansion, ''DELEGATION_PRIVILEGE_EXPANSION''),
   (DelegationCycle, ''DELEGATION_CYCLE''),
   (DelegationDepthExceeded, ''DELEGATION_DEPTH_EXCEEDED''),
   (PoisonedAgentMessage, ''POISONED_AGENT_MESSAGE''),
   (ApprovalRequired, ''APPROVAL_REQUIRED''),
   (ApprovalExpired, ''APPROVAL_EXPIRED''),
   (ApprovalReplay, ''APPROVAL_REPLAY''),
   (ApprovalActionMutated, ''APPROVAL_ACTION_MUTATED''),
   (SelfApprovalRejected, ''SELF_APPROVAL_REJECTED''),
   (ApprovalSignatureInvalid, ''APPROVAL_SIGNATURE_INVALID''),
   (ToolCallBudgetExceeded, ''TOOL_CALL_BUDGET_EXCEEDED''),
   (ModelCallBudgetExceeded, ''MODEL_CALL_BUDGET_EXCEEDED''),
   (WallClockBudgetExceeded, ''WALL_CLOCK_BUDGET_EXCEEDED''),
   (CostBudgetExceeded, ''COST_BUDGET_EXCEEDED''),
   (LoopDetected, ''LOOP_DETECTED''),
   (RateLimitExceeded, ''RATE_LIMIT_EXCEEDED''),
   (DeniedActionRetryPattern, ''DENIED_ACTION_RETRY_PATTERN''),
   (PrivilegeSeeking, ''PRIVILEGE_SEEKING''),
   (SelfModificationAttempt, ''SELF_MODIFICATION_ATTEMPT''),
   (PersistenceAttempt, ''PERSISTENCE_ATTEMPT''),
   (BehavioralAnomaly, ''BEHAVIORAL_ANOMALY''),
   (PolicyAllow, ''POLICY_ALLOW''),
   (WithinRemit, ''WITHIN_REMIT''),
   (ApprovalSatisfied, ''APPROVAL_SATISFIED''),
   (LowImpactRead, ''LOW_IMPACT_READ''),
   (ExceptionApplied, ''EXCEPTION_APPLIED''),
   (FailClosed, ''FAIL_CLOSED''),
   (DegradedModeAllow, ''DEGRADED_MODE_ALLOW'')]"

definition reason_all :: "ReasonCode list" where
  "reason_all = map fst reason_codes"

text \<open>\<^verbatim>\<open>as_str\<close>: the wire string of the table; an unknown code is its own string.\<close>

definition reason_as_str :: "ReasonCode \<Rightarrow> string" where
  "reason_as_str c =
     (case c of Other s \<Rightarrow> s
      | _ \<Rightarrow> (case map_of reason_codes c of Some s \<Rightarrow> s | None \<Rightarrow> []))"

text \<open>\<^verbatim>\<open>from_str\<close>: the first row with that wire string, otherwise \<^const>\<open>Other\<close>.\<close>

definition reason_from_str :: "string \<Rightarrow> ReasonCode" where
  "reason_from_str s =
     (case find (\<lambda>(c, w). w = s) reason_codes of Some (c, w) \<Rightarrow> c | None \<Rightarrow> Other s)"

text \<open>
  \<^verbatim>\<open>codes.sort(); codes.dedup()\<close>: the derived order is the declaration order, with the unknown codes
  last and ordered by their strings.
\<close>

definition unknown_of :: "ReasonCode \<Rightarrow> string list" where
  "unknown_of c = (case c of Other s \<Rightarrow> [s] | _ \<Rightarrow> [])"

definition reason_sort_dedup :: "ReasonCode list \<Rightarrow> ReasonCode list" where
  "reason_sort_dedup cs =
     filter (\<lambda>c. c \<in> set cs) reason_all @
     map Other (remdups (sort (concat (map unknown_of cs))))"

lemma reason_wire_distinct: "distinct (map snd reason_codes)"
  by code_simp

lemma reason_all_distinct: "distinct reason_all"
  by code_simp

lemma reason_all_complete: "(\<exists>s. c = Other s) \<or> c \<in> set reason_all"
  by (cases c) (simp_all add: reason_all_def reason_codes_def)

lemma reason_all_no_Other: "Other s \<notin> set reason_all"
  by (simp add: reason_all_def reason_codes_def)

lemma reason_as_str_Other [simp]: "reason_as_str (Other s) = s"
  by (simp add: reason_as_str_def)

lemma reason_as_str_row:
  assumes "(c, s) \<in> set reason_codes"
  shows "reason_as_str c = s"
proof -
  have m: "map_of reason_codes c = Some s"
    using assms reason_all_distinct by (simp add: reason_all_def)
  have "c \<in> set reason_all"
    using assms by (force simp: reason_all_def)
  then have "\<And>u. c \<noteq> Other u"
    using reason_all_no_Other by blast
  then have "reason_as_str c = (case map_of reason_codes c of Some s \<Rightarrow> s | None \<Rightarrow> [])"
    by (cases c) (auto simp: reason_as_str_def)
  with m show ?thesis
    by simp
qed

lemma reason_from_str_row:
  assumes "(c, s) \<in> set reason_codes"
  shows "reason_from_str s = c"
proof -
  obtain p where p: "find (\<lambda>(c, w). w = s) reason_codes = Some p"
    using assms by (cases "find (\<lambda>(c, w). w = s) reason_codes") (auto simp: find_None_iff)
  then have "p \<in> set reason_codes" and "snd p = s"
    by (auto simp: find_Some_iff in_set_conv_nth)
  moreover have "inj_on snd (set reason_codes)"
    using reason_wire_distinct by (simp add: distinct_map)
  ultimately have "p = (c, s)"
    using assms by (intro inj_onD [of snd "set reason_codes" p "(c, s)"]) auto
  with p show ?thesis
    by (simp add: reason_from_str_def)
qed

lemma reason_from_str_unknown:
  assumes "s \<notin> snd ` set reason_codes"
  shows "reason_from_str s = Other s"
proof -
  have "find (\<lambda>(c, w). w = s) reason_codes = None"
    using assms by (force simp: find_None_iff)
  then show ?thesis by (simp add: reason_from_str_def)
qed

lemma unknown_of_set: "s \<in> set (unknown_of c) \<longleftrightarrow> c = Other s"
  by (cases c) (auto simp: unknown_of_def)

lemma unknown_of_concat: "s \<in> set (concat (map unknown_of cs)) \<longleftrightarrow> Other s \<in> set cs"
  by (auto simp: unknown_of_set)

lemma reason_sort_dedup_set [simp]: "set (reason_sort_dedup cs) = set cs"
proof
  show "set (reason_sort_dedup cs) \<subseteq> set cs"
    by (auto simp: reason_sort_dedup_def unknown_of_set)
  show "set cs \<subseteq> set (reason_sort_dedup cs)"
  proof
    fix c
    assume "c \<in> set cs"
    with reason_all_complete [of c] show "c \<in> set (reason_sort_dedup cs)"
      by (auto simp: reason_sort_dedup_def unknown_of_set image_iff)
  qed
qed

lemma reason_sort_dedup_Nil [simp]: "reason_sort_dedup cs = [] \<longleftrightarrow> cs = []"
  by (metis reason_sort_dedup_set set_empty)

lemma reason_sort_dedup_distinct [simp]: "distinct (reason_sort_dedup cs)"
  using reason_all_distinct reason_all_no_Other
  by (auto simp: reason_sort_dedup_def distinct_map inj_on_def)

end
