(* ===== verification/Risk.thy ===== *)
theory Risk
  imports Actions Reasons "HOL-Library.Multiset"
begin

text \<open>
  Detector results (\<^verbatim>\<open>vigil-protocol/src/detector.rs\<close>), the detector registry of
  \<^verbatim>\<open>vigil-detect/src/lib.rs\<close> and the composite risk engine (\<^verbatim>\<open>vigil-core/src/risk.rs\<close>). Scores are exact
  rationals: the rounding of double arithmetic is not modelled, the rounding to four decimals that
  the code performs is. What a detector concludes is an argument.
\<close>

section \<open>Rounding\<close>

text \<open>\<^verbatim>\<open>(v * 10000.0).round() / 10000.0\<close> with \<^verbatim>\<open>f64::round\<close>, half away from zero.\<close>

definition round_half_away :: "rat \<Rightarrow> int" where
  "round_half_away q = (if 0 \<le> q then \<lfloor>q + 1 / 2\<rfloor> else - \<lfloor>1 / 2 - q\<rfloor>)"

definition round_score :: "rat \<Rightarrow> rat" where
  "round_score v = of_int (round_half_away (v * 10000)) / 10000"

definition clamp01 :: "rat \<Rightarrow> rat" where
  "clamp01 v = (if v < 0 then 0 else if 1 < v then 1 else v)"

lemma clamp01_bounds: "0 \<le> clamp01 v \<and> clamp01 v \<le> 1"
  by (simp add: clamp01_def)

lemma clamp01_id: "0 \<le> v \<Longrightarrow> v \<le> 1 \<Longrightarrow> clamp01 v = v"
  by (simp add: clamp01_def)

lemma round_half_away_mono: "0 \<le> a \<Longrightarrow> a \<le> b \<Longrightarrow> round_half_away a \<le> round_half_away b"
  by (simp add: round_half_away_def floor_mono)

lemma round_score_mono: "0 \<le> a \<Longrightarrow> a \<le> b \<Longrightarrow> round_score a \<le> round_score b"
  using round_half_away_mono [of "a * 10000" "b * 10000"]
  by (simp add: round_score_def divide_right_mono)

lemma round_score_ends: "round_score 0 = 0" "round_score 1 = 1"
  by (simp_all add: round_score_def round_half_away_def floor_eq_iff)

lemma round_score_bounds: "0 \<le> v \<Longrightarrow> v \<le> 1 \<Longrightarrow> 0 \<le> round_score v \<and> round_score v \<le> 1"
  using round_score_mono [of 0 v] round_score_mono [of v 1] by (simp add: round_score_ends)

section \<open>Detector results\<close>

datatype DetectorOutcome = Completed | TimedOut | Errored | Skipped

fun is_conclusive :: "DetectorOutcome \<Rightarrow> bool" where
  "is_conclusive Completed = True"
| "is_conclusive Skipped = True"
| "is_conclusive oc = False"

fun is_degraded :: "DetectorOutcome \<Rightarrow> bool" where
  "is_degraded TimedOut = True"
| "is_degraded Errored = True"
| "is_degraded oc = False"

record EvidenceRef =
  ev_node_id :: string
  ev_span :: "(u32 \<times> u32) option"
  ev_excerpt :: "string option"

record DetectorResult =
  dr_detector_id :: string
  dr_detector_version :: string
  dr_outcome :: DetectorOutcome
  dr_risk :: rat
  dr_confidence :: rat
  dr_reason_codes :: "ReasonCode list"
  dr_evidence :: "EvidenceRef list"
  dr_proposed_escalation :: "Decision option"
  dr_duration_ms :: u64

definition DEGRADED_RISK_FLOOR :: rat where
  "DEGRADED_RISK_FLOOR = 35 / 100"

fun clamp_unit :: "f64 \<Rightarrow> rat" where
  "clamp_unit NaN = 1"
| "clamp_unit PosInf = 1"
| "clamp_unit NegInf = 0"
| "clamp_unit (Fin v) = round_score (clamp01 v)"

definition detector_completed :: "string \<Rightarrow> string \<Rightarrow> f64 \<Rightarrow> f64 \<Rightarrow> DetectorResult" where
  "detector_completed i version risk confidence =
     \<lparr>dr_detector_id = i, dr_detector_version = version, dr_outcome = Completed, dr_risk = clamp_unit risk,
      dr_confidence = clamp_unit confidence, dr_reason_codes = [], dr_evidence = [],
      dr_proposed_escalation = None, dr_duration_ms = 0\<rparr>"

definition detector_clean :: "string \<Rightarrow> string \<Rightarrow> DetectorResult" where
  "detector_clean i version = detector_completed i version (Fin 0) (Fin 1)"

definition detector_degraded :: "string \<Rightarrow> string \<Rightarrow> DetectorOutcome \<Rightarrow> u64 \<Rightarrow> DetectorResult" where
  "detector_degraded i version oc ms =
     \<lparr>dr_detector_id = i, dr_detector_version = version, dr_outcome = oc, dr_risk = DEGRADED_RISK_FLOOR,
      dr_confidence = 0, dr_reason_codes = [DetectorDegraded], dr_evidence = [],
      dr_proposed_escalation = None, dr_duration_ms = ms\<rparr>"

definition detector_skipped :: "string \<Rightarrow> string \<Rightarrow> DetectorResult" where
  "detector_skipped i version =
     \<lparr>dr_detector_id = i, dr_detector_version = version, dr_outcome = Skipped, dr_risk = 0, dr_confidence = 1,
      dr_reason_codes = [], dr_evidence = [], dr_proposed_escalation = None, dr_duration_ms = 0\<rparr>"

definition proposing :: "Decision \<Rightarrow> DetectorResult \<Rightarrow> DetectorResult" where
  "proposing d r = r\<lparr>dr_proposed_escalation := (if permits_execution d then None else Some d)\<rparr>"

definition weighted_risk :: "DetectorResult \<Rightarrow> rat" where
  "weighted_risk r = (if is_degraded (dr_outcome r) then dr_risk r else dr_risk r * dr_confidence r)"

text \<open>
  A registered detector: what it says it is, whether it applies, and what a run under its deadline
  gave: a result, an error, or nothing in time, with the elapsed milliseconds.
\<close>

datatype run_result = RunOk DetectorResult | RunErr | RunTimeout

record 'ctx detector =
  dt_id :: string
  dt_version :: string
  dt_applies :: "'ctx \<Rightarrow> bool"
  dt_run :: "'ctx \<Rightarrow> run_result \<times> u64"

definition run_one :: "'ctx detector \<Rightarrow> 'ctx \<Rightarrow> DetectorResult" where
  "run_one d ctx =
     (if \<not> dt_applies d ctx then detector_skipped (dt_id d) (dt_version d)
      else case dt_run d ctx of
             (RunOk r, ms) \<Rightarrow> r\<lparr>dr_duration_ms := ms\<rparr>
           | (RunErr, ms) \<Rightarrow> detector_degraded (dt_id d) (dt_version d) Errored ms
           | (RunTimeout, ms) \<Rightarrow> detector_degraded (dt_id d) (dt_version d) TimedOut ms)"

definition run_all :: "'ctx detector list \<Rightarrow> 'ctx \<Rightarrow> DetectorResult list" where
  "run_all ds ctx = map (\<lambda>d. run_one d ctx) ds"

section \<open>The composite score\<close>

record RiskInputs =
  ri_impact_tier :: "ImpactTier option"
  ri_reversible :: bool
  ri_egress :: bool
  ri_lowest_influencing_trust :: "TrustLevel option"
  ri_untrusted_instruction_influence :: bool
  ri_taints :: "TaintKind list"
  ri_evasive_encoding :: bool
  ri_out_of_remit :: bool
  ri_prior_distinct_denials :: u32
  ri_retry_of_denied_action :: bool
  ri_approval_satisfied :: bool
  ri_delegation_depth :: u32
  ri_detector_results :: "DetectorResult list"

record RiskAssessment =
  ra_risk :: rat
  ra_confidence :: rat
  ra_contributions :: "(string \<times> rat) list"
  ra_model_version :: string

definition RISK_MODEL_VERSION :: string where
  "RISK_MODEL_VERSION = ''composite/1''"

definition REVIEW_THRESHOLD :: rat where
  "REVIEW_THRESHOLD = 6 / 10"

definition HIGH_RISK_THRESHOLD :: rat where
  "HIGH_RISK_THRESHOLD = 8 / 10"

definition CONFIDENT_THRESHOLD :: rat where
  "CONFIDENT_THRESHOLD = 7 / 10"

definition warrants_review :: "RiskAssessment \<Rightarrow> bool" where
  "warrants_review a = (ra_risk a \<ge> REVIEW_THRESHOLD)"

definition is_confident_high_risk :: "RiskAssessment \<Rightarrow> bool" where
  "is_confident_high_risk a = (ra_risk a \<ge> HIGH_RISK_THRESHOLD \<and> ra_confidence a \<ge> CONFIDENT_THRESHOLD)"

fun taint_label :: "TaintKind \<Rightarrow> string" where
  "taint_label UntrustedInstruction = ''UNTRUSTED_INSTRUCTION''"
| "taint_label Secret = ''SECRET''"
| "taint_label Credential = ''CREDENTIAL''"
| "taint_label Pii = ''PII''"
| "taint_label FinancialData = ''FINANCIAL_DATA''"
| "taint_label AuthenticationData = ''AUTHENTICATION_DATA''"
| "taint_label ConfidentialData = ''CONFIDENTIAL_DATA''"
| "taint_label ExecutableContent = ''EXECUTABLE_CONTENT''"
| "taint_label ExternalUrl = ''EXTERNAL_URL''"
| "taint_label UntrustedCode = ''UNTRUSTED_CODE''"
| "taint_label SecurityPolicyContent = ''SECURITY_POLICY_CONTENT''"
| "taint_label ApprovalData = ''APPROVAL_DATA''"

text \<open>\<^verbatim>\<open>push\<close> keeps positive weights only.\<close>

definition push :: "string \<Rightarrow> rat \<Rightarrow> (string \<times> rat) list" where
  "push label weight = (if 0 < weight then [(label, weight)] else [])"

definition push_if :: "bool \<Rightarrow> string \<Rightarrow> rat \<Rightarrow> (string \<times> rat) list" where
  "push_if b label weight = (if b then push label weight else [])"

definition trust_contribution :: "TrustLevel option \<Rightarrow> (string \<times> rat) list" where
  "trust_contribution t =
     (case t of
        None \<Rightarrow> []
      | Some trust \<Rightarrow>
          if carries_instruction_authority trust then []
          else push ''low_trust_influence''
                 (35 / 100 * ((of_nat (trust_rank UserAuthenticated) - of_nat (trust_rank trust))
                              / of_nat (trust_rank UserAuthenticated))))"

definition contributions :: "RiskInputs \<Rightarrow> (string \<times> rat) list" where
  "contributions i =
     (case ri_impact_tier i of None \<Rightarrow> [] | Some t \<Rightarrow> push ''impact_tier'' (tier_risk_weight t * (6 / 10)))
     @ push_if (\<not> ri_reversible i) ''irreversible_operation'' (3 / 10)
     @ push_if (ri_egress i) ''crosses_trust_boundary'' (25 / 100)
     @ trust_contribution (ri_lowest_influencing_trust i)
     @ push_if (ri_untrusted_instruction_influence i) ''untrusted_instruction_influence'' (55 / 100)
     @ concat (map (\<lambda>t. push (''taint:'' @ taint_label t) (taint_risk_weight t * (5 / 10))) (ri_taints i))
     @ push_if (ri_evasive_encoding i) ''evasive_encoding'' (4 / 10)
     @ push_if (ri_out_of_remit i) ''out_of_remit'' (5 / 10)
     @ push_if (ri_retry_of_denied_action i) ''retry_of_denied_action'' (45 / 100)
     @ push_if (ri_prior_distinct_denials i > 0) ''prior_distinct_denials''
         (min (of_nat (unat (ri_prior_distinct_denials i)) * (12 / 100)) (5 / 10))
     @ push_if (ri_delegation_depth i > 0) ''delegation_depth''
         (min (of_nat (unat (ri_delegation_depth i)) * (8 / 100)) (3 / 10))
     @ concat (map (\<lambda>r. if weighted_risk r > 0
                         then push (''detector:'' @ dr_detector_id r) (weighted_risk r * (5 / 10)) else [])
                 (ri_detector_results i))"

definition saturate :: "rat \<Rightarrow> rat \<Rightarrow> rat" where
  "saturate risk weight = risk + (1 - risk) * clamp01 weight"

definition confidence_of :: "RiskInputs \<Rightarrow> rat" where
  "confidence_of i =
     (let c0 = 5 / 10;
          c1 = (if ri_impact_tier i \<noteq> None then c0 + 15 / 100 else c0);
          c2 = (if ri_out_of_remit i \<or> ri_untrusted_instruction_influence i then c1 + 15 / 100 else c1);
          c3 = (if ri_taints i \<noteq> [] then c2 + 1 / 10 else c2);
          degraded = length (filter (\<lambda>r. is_degraded (dr_outcome r)) (ri_detector_results i));
          concl = filter (\<lambda>r. is_conclusive (dr_outcome r)) (ri_detector_results i);
          c4 = (if length concl > 0
                then c3 + 1 / 10 * (sum_list (map dr_confidence concl) / of_nat (length concl)) else c3)
      in clamp01 (c4 - 2 / 10 * of_nat degraded))"

definition assess :: "RiskInputs \<Rightarrow> RiskAssessment" where
  "assess i =
     (let cs = contributions i;
          approval_discount = (if ri_approval_satisfied i then 4 / 10 else 0);
          risk = foldl saturate 0 (map snd cs) * (1 - approval_discount)
      in \<lparr>ra_risk = round_score (clamp01 risk), ra_confidence = round_score (confidence_of i),
          ra_contributions = sort_key (\<lambda>c. - snd c) cs, ra_model_version = RISK_MODEL_VERSION\<rparr>)"

section \<open>The score in closed form\<close>

lemma saturate_complement: "1 - saturate r w = (1 - r) * (1 - clamp01 w)"
  by (simp add: saturate_def algebra_simps)

lemma foldl_saturate: "1 - foldl saturate r ws = (1 - r) * prod_list (map (\<lambda>w. 1 - clamp01 w) ws)"
  by (induction ws arbitrary: r) (simp_all add: saturate_complement)

lemma headroom_bounds: "0 \<le> prod_list (map (\<lambda>w. 1 - clamp01 w) ws) \<and> prod_list (map (\<lambda>w. 1 - clamp01 w) ws) \<le> 1"
proof (induction ws)
  case (Cons w ws)
  then show ?case
    using clamp01_bounds [of w] by (auto intro!: mult_le_one)
qed simp

lemma foldl_saturate_zero: "foldl saturate 0 ws = 1 - prod_list (map (\<lambda>w. 1 - clamp01 w) ws)"
  using foldl_saturate [of 0 ws] by simp

definition headroom :: "(string \<times> rat) multiset \<Rightarrow> rat" where
  "headroom cs = (\<Prod>c\<in>#cs. 1 - clamp01 (snd c))"

lemma headroom_mset: "headroom (mset cs) = prod_list (map (\<lambda>w. 1 - clamp01 w) (map snd cs))"
  by (simp add: headroom_def comp_def flip: prod_mset_prod_list)

lemma headroom_unit: "0 \<le> headroom cs \<and> headroom cs \<le> 1"
proof -
  obtain xs where "cs = mset xs" by (metis ex_mset)
  then show ?thesis using headroom_bounds [of "map snd xs"] by (simp add: headroom_mset)
qed

lemma headroom_antimono: "a \<subseteq># b \<Longrightarrow> headroom b \<le> headroom a"
proof -
  assume "a \<subseteq># b"
  then obtain c where b: "b = a + c" by (metis mset_subset_eq_exists_conv)
  have "headroom b = headroom a * headroom c" by (simp add: b headroom_def)
  also have "\<dots> \<le> headroom a * 1"
    using headroom_unit [of a] headroom_unit [of c] by (intro mult_left_mono) auto
  finally show ?thesis by simp
qed

definition residual :: "bool \<Rightarrow> rat" where
  "residual approved = (if approved then 6 / 10 else 1)"

lemma residual_unit: "0 \<le> residual b \<and> residual b \<le> 1"
  by (simp add: residual_def)

lemma score_unit: "0 \<le> residual b * (1 - headroom cs) \<and> residual b * (1 - headroom cs) \<le> 1"
  using headroom_unit [of cs] residual_unit [of b] by (auto intro!: mult_le_one)

lemma assess_risk:
  "ra_risk (assess i) = round_score (residual (ri_approval_satisfied i) * (1 - headroom (mset (contributions i))))"
proof -
  have "foldl saturate 0 (map snd (contributions i)) = 1 - headroom (mset (contributions i))"
    by (simp add: headroom_mset foldl_saturate_zero)
  moreover have "1 - (if b then 4 / 10 else 0) = residual b" for b
    by (simp add: residual_def)
  ultimately show ?thesis
    using score_unit [of "ri_approval_satisfied i" "mset (contributions i)"]
    by (simp only: assess_def Let_def RiskAssessment.simps mult.commute clamp01_id)
qed

lemma confidence_unit: "0 \<le> confidence_of i \<and> confidence_of i \<le> 1"
  by (simp add: confidence_of_def Let_def clamp01_bounds)

lemma push_positive: "c \<in> set (push l w) \<Longrightarrow> 0 < snd c"
  by (auto simp: push_def split: if_splits)

lemma contributions_positive: "c \<in> set (contributions i) \<Longrightarrow> 0 < snd c"
  by (auto simp: contributions_def push_if_def trust_contribution_def dest: push_positive
           split: if_splits option.splits)

text \<open>The largest weight a single signal carries is six tenths.\<close>

definition modest :: "(string \<times> rat) list \<Rightarrow> bool" where
  "modest cs \<longleftrightarrow> list_all (\<lambda>c. snd c \<le> 6 / 10) cs"

lemma modest_simps:
  "modest []" "modest (a @ b) \<longleftrightarrow> modest a \<and> modest b" "modest (concat (map f xs)) \<longleftrightarrow> list_all (\<lambda>x. modest (f x)) xs"
  by (auto simp: modest_def list_all_iff)

lemma modest_push: "w \<le> 6 / 10 \<Longrightarrow> modest (push l w)" "w \<le> 6 / 10 \<Longrightarrow> modest (push_if b l w)"
  by (simp_all add: modest_def push_def push_if_def)

definition unit_result :: "DetectorResult \<Rightarrow> bool" where
  "unit_result r \<longleftrightarrow> 0 \<le> dr_risk r \<and> dr_risk r \<le> 1 \<and> 0 \<le> dr_confidence r \<and> dr_confidence r \<le> 1"

lemma weighted_risk_unit: "unit_result r \<Longrightarrow> weighted_risk r \<le> 1"
  by (auto simp: unit_result_def weighted_risk_def intro: mult_le_one)

lemma clamp_unit_bounds: "0 \<le> clamp_unit v \<and> clamp_unit v \<le> 1"
  by (cases v) (use clamp01_bounds round_score_bounds in auto)

lemma unit_result_constructors:
  "unit_result (detector_completed i v r c)" "unit_result (detector_degraded i v oc ms)"
  "unit_result (detector_skipped i v)"
  using clamp_unit_bounds [of r] clamp_unit_bounds [of c]
  by (simp_all add: unit_result_def detector_completed_def detector_degraded_def detector_skipped_def
      DEGRADED_RISK_FLOOR_def)

lemma tier_weight_unit: "tier_risk_weight t \<le> 1"
  by (cases t) simp_all

lemma taint_weight_unit: "taint_risk_weight t \<le> 1"
  by (cases t) simp_all

lemma modest_trust: "modest (trust_contribution t)"
proof (cases t)
  case (Some u)
  have "modest (push l (35 / 100 * ((of_nat (trust_rank UserAuthenticated) - of_nat (trust_rank u))
          / of_nat (trust_rank UserAuthenticated))))" for l
    by (rule modest_push) (cases u; simp)
  then show ?thesis by (simp add: Some trust_contribution_def modest_simps)
qed (simp add: trust_contribution_def modest_simps)

lemma modest_contributions:
  assumes "list_all unit_result (ri_detector_results i)"
  shows "modest (contributions i)"
proof -
  have taint: "taint_risk_weight t * 5 \<le> 6" for t
    using taint_weight_unit [of t] by simp
  have det: "weighted_risk r * 5 \<le> 6" if "r \<in> set (ri_detector_results i)" for r
    using weighted_risk_unit [of r] that assms by (simp add: list_all_iff)
  show ?thesis
    unfolding contributions_def modest_simps
    by (intro conjI)
       (auto simp: modest_simps list_all_iff min_le_iff_disj
             intro!: modest_push modest_trust tier_weight_unit taint det split: option.split)
qed

section \<open>Properties\<close>

definition sample_inputs :: RiskInputs where
  "sample_inputs =
     \<lparr>ri_impact_tier = Some Tier3HighImpact, ri_reversible = False, ri_egress = False,
      ri_lowest_influencing_trust = Some ExternalUntrusted, ri_untrusted_instruction_influence = False,
      ri_taints = [], ri_evasive_encoding = False, ri_out_of_remit = False, ri_prior_distinct_denials = 0,
      ri_retry_of_denied_action = False, ri_approval_satisfied = False, ri_delegation_depth = 0,
      ri_detector_results = [detector_clean ''dlp'' ''1'']\<rparr>"

text \<open>
  The composite score saturates. Both scores lie in the unit interval; the risk is one minus the
  product of what each reported contribution leaves open, scaled by six tenths under a satisfied
  approval, so it does not depend on the order of the signals; every reported contribution is
  positive, and, when the detectors keep to the unit interval, none is above six tenths, so that no
  signal reaches certainty alone.
\<close>

theorem assess_saturates:
  assumes "list_all unit_result (ri_detector_results i)"
  shows "let a = assess i in
     ra_risk a = round_score ((if ri_approval_satisfied i then 6 / 10 else 1)
                   * (1 - (\<Prod>c\<in>#mset (ra_contributions a). 1 - snd c))) \<and>
     0 \<le> ra_risk a \<and> ra_risk a \<le> 1 \<and> 0 \<le> ra_confidence a \<and> ra_confidence a \<le> 1 \<and>
     list_all (\<lambda>c. 0 < snd c \<and> snd c \<le> 6 / 10) (ra_contributions a)"
proof -
  let ?cs = "contributions i"
  have cs: "mset (ra_contributions (assess i)) = mset ?cs" "set (ra_contributions (assess i)) = set ?cs"
    by (simp_all add: assess_def Let_def)
  have range: "0 < snd c \<and> snd c \<le> 6 / 10" if "c \<in> set ?cs" for c
    using that contributions_positive [of c i] modest_contributions [OF assms]
    by (auto simp: modest_def list_all_iff)
  have "headroom (mset ?cs) = (\<Prod>c\<in>#mset ?cs. 1 - snd c)"
    unfolding headroom_def
    by (intro arg_cong [where f = prod_mset] image_mset_cong)
       (use range in \<open>force simp: clamp01_def\<close>)
  then have risk: "ra_risk (assess i) = round_score (residual (ri_approval_satisfied i)
      * (1 - (\<Prod>c\<in>#mset (ra_contributions (assess i)). 1 - snd c)))"
    by (simp only: assess_risk cs(1))
  have "0 \<le> ra_risk (assess i) \<and> ra_risk (assess i) \<le> 1"
    unfolding assess_risk by (rule round_score_bounds) (use score_unit in auto)
  moreover have "0 \<le> ra_confidence (assess i) \<and> ra_confidence (assess i) \<le> 1"
    using round_score_bounds [of "confidence_of i"] confidence_unit [of i] by (simp add: assess_def Let_def)
  ultimately show ?thesis
    using risk range by (simp only: Let_def residual_def list_all_iff cs(2) conj_assoc) blast
qed

theorem assess_saturates_witness:
  "list_all unit_result (ri_detector_results sample_inputs) \<and>
   ra_risk (assess sample_inputs) \<le> 1 \<and> ra_contributions (assess sample_inputs) \<noteq> []"
proof -
  have u: "list_all unit_result (ri_detector_results sample_inputs)"
    by (simp add: sample_inputs_def detector_clean_def unit_result_constructors)
  have "ra_contributions (assess sample_inputs) \<noteq> []" by code_simp
  then show ?thesis using u assess_saturates [OF u] by (simp add: Let_def)
qed

text \<open>
  Further signals never lower the score: when every contribution of one assessment is also a
  contribution of another, and both or neither have an approval, the second risk is at least the
  first.
\<close>

theorem assess_monotone:
  assumes "mset (contributions i) \<subseteq># mset (contributions j)"
    and "ri_approval_satisfied i = ri_approval_satisfied j"
  shows "ra_risk (assess i) \<le> ra_risk (assess j)"
  unfolding assess_risk assms(2)
  using headroom_antimono [OF assms(1)] residual_unit [of "ri_approval_satisfied j"]
    score_unit [of "ri_approval_satisfied j" "mset (contributions i)"]
  by (intro round_score_mono mult_left_mono) auto

theorem assess_monotone_witness:
  "ra_risk (assess sample_inputs) \<le> ra_risk (assess (sample_inputs\<lparr>ri_egress := True\<rparr>))"
  by (rule assess_monotone) (simp_all add: sample_inputs_def contributions_def push_if_def push_def)

end
