(* ===== verification/AuditLog.thy ===== *)
theory AuditLog
  imports Redact Risk
begin

text \<open>
  The evidence log (\<^verbatim>\<open>vigil-audit/src/lib.rs\<close>, \<^verbatim>\<open>vigil-audit/src/sink.rs\<close>) and the security event it stores
  (\<^verbatim>\<open>vigil-protocol/src/event.rs\<close>): hash chaining, signed checkpoints, the file sink with recovery after a
  restart, and independent verification of an exported bundle. Serde, SHA-256, Ed25519, Base64 and the
  RFC 3339 printer are parameters.
\<close>

section \<open>Events\<close>

datatype EventType =
    SessionStart | SessionEnd | ContentIngested | ModelInvocation | ActionRequested | DecisionRendered
  | CapabilityIssued | CapabilityPresented | CapabilityRejected | ActionExecuted | ActionResultObserved
  | ApprovalRequested | ApprovalGranted | ApprovalRejected | MemoryWritten | DelegationRequested
  | BudgetEvent | AdminMutation | SecurityFinding | ComponentDegraded

definition is_audit_mandatory :: "EventType \<Rightarrow> bool" where
  "is_audit_mandatory t \<longleftrightarrow>
     t \<in> {DecisionRendered, CapabilityIssued, CapabilityRejected, ActionExecuted, ApprovalRequested,
          ApprovalGranted, ApprovalRejected, AdminMutation, SessionEnd, ComponentDegraded}"

record DataClassification =
  dc_classes :: "string list"
  dc_crosses_trust_boundary :: bool
  dc_fingerprints :: "string list"

record TaintSummary =
  ts_kinds :: "TaintKind list"
  ts_chain :: "ProvenanceRef list"
  ts_untrusted_instruction_influence :: bool

record Enforcement =
  en_executed :: bool
  en_capability_id :: "string option"
  en_stopped_at_gateway :: bool
  en_obligations_met :: "Obligation list"
  en_error :: "string option"

record IntegrityEnvelope =
  ie_sequence :: u64
  ie_event_hash :: ContentHash
  ie_previous_hash :: "ContentHash option"
  ie_checkpoint_signature :: "string option"

record VigilSecurityEvent =
  se_schema_version :: string
  se_event_id :: string
  se_timestamp :: timestamp
  se_event_type :: EventType
  se_trace :: TraceContext
  se_tenant_id :: string
  se_environment_id :: string
  se_session_id :: string
  se_agent_id :: string
  se_agent_instance_id :: string
  se_principal :: Principal
  se_workload_identity :: "WorkloadIdentity option"
  se_source :: string
  se_trust_level :: "TrustLevel option"
  se_provenance :: "ProvenanceRef list"
  se_action :: "Action option"
  se_action_hash :: "ContentHash option"
  se_data_classification :: DataClassification
  se_taint :: TaintSummary
  se_remit_version :: "string option"
  se_policy_bundle_version :: "string option"
  se_detector_results :: "DetectorResult list"
  se_decision :: "Decision option"
  se_reason_codes :: "ReasonCode list"
  se_risk_score :: "f64 option"
  se_enforcement :: "Enforcement option"
  se_approval_id :: "string option"
  se_incident_id :: "string option"
  se_integrity :: "IntegrityEnvelope option"
  se_extensions :: "(string \<times> json) list"

section \<open>The chain\<close>

record AuditEntry =
  ae_sequence :: u64
  ae_event :: VigilSecurityEvent
  ae_chain_hash :: ContentHash
  ae_previous_hash :: "ContentHash option"

record Checkpoint =
  cp_tenant_id :: string
  cp_sequence :: u64
  cp_chain_hash :: ContentHash
  cp_signed_at :: timestamp
  cp_key_id :: string
  cp_signature :: string

text \<open>What the chain takes from the serializer, the digest and the signature scheme.\<close>

record ('sk, 'vk) audit_env =
  ak_event_value :: "VigilSecurityEvent \<Rightarrow> json"
  ak_entry_line :: "AuditEntry \<Rightarrow> string"
  ak_entry_parse :: "string \<Rightarrow> AuditEntry option"
  ak_checkpoint_line :: "Checkpoint \<Rightarrow> string"
  ak_checkpoint_parse :: "string \<Rightarrow> Checkpoint option"
  ak_rfc3339 :: "timestamp \<Rightarrow> string"
  ak_format :: number_format
  ak_sha :: "u8 list \<Rightarrow> string"
  ak_b64_encode :: "u8 list \<Rightarrow> string"
  ak_b64_decode :: "string \<Rightarrow> u8 list option"
  ak_sign :: "'sk \<Rightarrow> u8 list \<Rightarrow> u8 list"
  ak_verify :: "'vk \<Rightarrow> u8 list \<Rightarrow> u8 list \<Rightarrow> bool"
  ak_public :: "'sk \<Rightarrow> 'vk"
  ak_marks :: marks

datatype audit_error = ChainPoisoned | EmptyChain | EventNotCanonical canon_error | SinkPoisoned | SinkIo
  | UnreadableRecord nat

definition integrity_payload :: "('sk, 'vk) audit_env \<Rightarrow> VigilSecurityEvent \<Rightarrow> json" where
  "integrity_payload k ev =
     (case ak_event_value k ev of
        JObj ms \<Rightarrow> JObj (filter (\<lambda>(name, _). name \<noteq> ''integrity'') ms)
      | v \<Rightarrow> v)"

definition event_content_hash :: "('sk, 'vk) audit_env \<Rightarrow> VigilSecurityEvent \<Rightarrow> canon_error + ContentHash" where
  "event_content_hash k ev = hash_canonical_json (ak_format k) (ak_sha k) (integrity_payload k ev)"

definition signing_payload ::
    "('sk, 'vk) audit_env \<Rightarrow> string \<Rightarrow> u64 \<Rightarrow> ContentHash \<Rightarrow> timestamp \<Rightarrow> string \<Rightarrow> canon_error + u8 list" where
  "signing_payload k tenant sequence chain_hash signed_at key_id =
     canonical_bytes (ak_format k) (JObj
       [(''tenant_id'', JStr tenant), (''sequence'', JInt (uint sequence)),
        (''chain_hash'', JStr (hash_display chain_hash)), (''signed_at'', JStr (ak_rfc3339 k signed_at)),
        (''key_id'', JStr key_id)])"

definition link_body :: "u64 \<Rightarrow> ContentHash \<Rightarrow> ContentHash option \<Rightarrow> json" where
  "link_body sequence event_hash previous = JObj
     [(''sequence'', JInt (uint sequence)), (''event_hash'', JStr (hash_display event_hash)),
      (''previous_hash'', json_of_option (map_option hash_display previous))]"

definition link_hash ::
    "('sk, 'vk) audit_env \<Rightarrow> u64 \<Rightarrow> ContentHash \<Rightarrow> ContentHash option \<Rightarrow> canon_error + ContentHash" where
  "link_hash k sequence event_hash previous =
     hash_canonical_json (ak_format k) (ak_sha k) (link_body sequence event_hash previous)"

section \<open>The file sink\<close>

text \<open>
  A file is its text. An append either writes the whole line and its newline, or fails after some prefix
  of it reached the file, or fails to synchronize the file after the line was written; the outcome of the
  system calls is an argument.
\<close>

datatype io_outcome = IoOk | IoFailed nat | SyncFailed

record FileAuditSink =
  fs_entries :: string
  fs_checkpoints :: string
  fs_poisoned :: bool

definition append_line :: "io_outcome \<Rightarrow> string \<Rightarrow> string \<Rightarrow> (audit_error + unit) \<times> string" where
  "append_line io line file =
     (let text = line @ [CHR 0x0A]
      in case io of
           IoOk \<Rightarrow> (Inr (), file @ text)
         | IoFailed n \<Rightarrow> (Inl SinkIo, file @ take n text)
         | SyncFailed \<Rightarrow> (Inl SinkIo, file @ text))"

definition sink_append :: "('sk, 'vk) audit_env \<Rightarrow> io_outcome \<Rightarrow> AuditEntry \<Rightarrow> FileAuditSink \<Rightarrow> (audit_error + unit) \<times> FileAuditSink" where
  "sink_append k io en s =
     (if fs_poisoned s then (Inl SinkPoisoned, s)
      else let (x, file) = append_line io (ak_entry_line k en) (fs_entries s) in (x, s\<lparr>fs_entries := file\<rparr>))"

definition sink_append_checkpoint ::
    "('sk, 'vk) audit_env \<Rightarrow> io_outcome \<Rightarrow> Checkpoint \<Rightarrow> FileAuditSink \<Rightarrow> (audit_error + unit) \<times> FileAuditSink" where
  "sink_append_checkpoint k io cp s =
     (if fs_poisoned s then (Inl SinkPoisoned, s)
      else let (x, file) = append_line io (ak_checkpoint_line k cp) (fs_checkpoints s) in (x, s\<lparr>fs_checkpoints := file\<rparr>))"

definition strip_cr :: "string \<Rightarrow> string" where
  "strip_cr l = (if l \<noteq> [] \<and> last l = CHR 0x0D then butlast l else l)"

definition file_lines :: "string \<Rightarrow> string list" where
  "file_lines file =
     (let parts = split_on (\<lambda>c. c = CHR 0x0A) file
      in map strip_cr (if last parts = [] then butlast parts else parts))"

fun read_records :: "(string \<Rightarrow> 'a option) \<Rightarrow> nat \<Rightarrow> string list \<Rightarrow> audit_error + 'a list" where
  "read_records parse i [] = Inr []"
| "read_records parse i (l # ls) =
     (if trim l = [] then read_records parse (i + 1) ls
      else case parse l of
             None \<Rightarrow> Inl (UnreadableRecord (i + 1))
           | Some v \<Rightarrow> rbind (read_records parse (i + 1) ls) (\<lambda>vs. Inr (v # vs)))"

definition sink_load :: "('sk, 'vk) audit_env \<Rightarrow> FileAuditSink \<Rightarrow> audit_error + (AuditEntry list \<times> Checkpoint list)" where
  "sink_load k s =
     rbind (read_records (ak_entry_parse k) 0 (file_lines (fs_entries s))) (\<lambda>es.
     rbind (read_records (ak_checkpoint_parse k) 0 (file_lines (fs_checkpoints s))) (\<lambda>cs. Inr (es, cs)))"

record RecoveredState =
  rv_next_sequence :: u64
  rv_head :: "ContentHash option"
  rv_entries_recovered :: u64
  rv_checkpoints_recovered :: u64

definition next_after :: "AuditEntry list \<Rightarrow> u64" where
  "next_after es = (if es = [] then 0 else ae_sequence (last es) + 1)"

definition head_after :: "AuditEntry list \<Rightarrow> ContentHash option" where
  "head_after es = (if es = [] then None else Some (ae_chain_hash (last es)))"

definition sink_recover :: "('sk, 'vk) audit_env \<Rightarrow> FileAuditSink \<Rightarrow> audit_error + RecoveredState" where
  "sink_recover k s = rbind (sink_load k s) (\<lambda>(es, cs). Inr
     \<lparr>rv_next_sequence = next_after es, rv_head = head_after es,
      rv_entries_recovered = of_nat (length es), rv_checkpoints_recovered = of_nat (length cs)\<rparr>)"

section \<open>Appending and signing\<close>

record 'sk AuditChain =
  ch_tenant_id :: string
  ch_entries :: "AuditEntry list"
  ch_checkpoints :: "Checkpoint list"
  ch_next_sequence :: u64
  ch_head :: "ContentHash option"
  ch_poisoned :: bool
  ch_key_id :: string
  ch_key :: 'sk
  ch_sink :: "FileAuditSink option"

definition chain_new :: "string \<Rightarrow> string \<Rightarrow> 'sk \<Rightarrow> 'sk AuditChain" where
  "chain_new tenant key_id key = \<lparr>ch_tenant_id = tenant, ch_entries = [], ch_checkpoints = [],
     ch_next_sequence = 0, ch_head = None, ch_poisoned = False, ch_key_id = key_id, ch_key = key, ch_sink = None\<rparr>"

definition chain_with_sink :: "('sk, 'vk) audit_env \<Rightarrow> FileAuditSink \<Rightarrow> 'sk AuditChain \<Rightarrow> audit_error + 'sk AuditChain" where
  "chain_with_sink k s ch = rbind (sink_load k s) (\<lambda>(es, cs). Inr
     ((if ch_poisoned ch then ch
       else ch\<lparr>ch_entries := es, ch_checkpoints := cs, ch_next_sequence := next_after es, ch_head := head_after es\<rparr>)
      \<lparr>ch_sink := Some s\<rparr>))"

definition chain_append ::
    "('sk, 'vk) audit_env \<Rightarrow> io_outcome \<Rightarrow> VigilSecurityEvent \<Rightarrow> 'sk AuditChain
      \<Rightarrow> (audit_error + IntegrityEnvelope) \<times> 'sk AuditChain" where
  "chain_append k io ev ch =
     (case event_content_hash k ev of
        Inl err \<Rightarrow> (Inl (EventNotCanonical err), ch)
      | Inr event_hash \<Rightarrow>
          if ch_poisoned ch then (Inl ChainPoisoned, ch)
          else case link_hash k (ch_next_sequence ch) event_hash (ch_head ch) of
            Inl err \<Rightarrow> (Inl (EventNotCanonical err), ch)
          | Inr chain_hash \<Rightarrow>
              let envelope = \<lparr>ie_sequence = ch_next_sequence ch, ie_event_hash = event_hash,
                    ie_previous_hash = ch_head ch, ie_checkpoint_signature = None\<rparr>;
                  entry = \<lparr>ae_sequence = ch_next_sequence ch, ae_event = ev\<lparr>se_integrity := Some envelope\<rparr>,
                    ae_chain_hash = chain_hash, ae_previous_hash = ch_head ch\<rparr>;
                  (written, sink) = (case ch_sink ch of None \<Rightarrow> (Inr (), None)
                    | Some s \<Rightarrow> (let (x, s') = sink_append k io entry s in (x, Some s')))
              in case written of
                   Inl err \<Rightarrow> (Inl err, ch\<lparr>ch_sink := sink\<rparr>)
                 | Inr _ \<Rightarrow> (Inr envelope,
                     ch\<lparr>ch_sink := sink, ch_entries := ch_entries ch @ [entry],
                        ch_next_sequence := ch_next_sequence ch + 1, ch_head := Some chain_hash\<rparr>))"

definition chain_checkpoint ::
    "('sk, 'vk) audit_env \<Rightarrow> io_outcome \<Rightarrow> timestamp \<Rightarrow> 'sk AuditChain \<Rightarrow> (audit_error + Checkpoint) \<times> 'sk AuditChain" where
  "chain_checkpoint k io now ch =
     (if ch_poisoned ch then (Inl ChainPoisoned, ch)
      else case ch_head ch of
        None \<Rightarrow> (Inl EmptyChain, ch)
      | Some head \<Rightarrow>
          let sequence = (if ch_next_sequence ch = 0 then 0 else ch_next_sequence ch - 1)
          in case signing_payload k (ch_tenant_id ch) sequence head now (ch_key_id ch) of
               Inl err \<Rightarrow> (Inl (EventNotCanonical err), ch)
             | Inr payload \<Rightarrow>
                 let cp = \<lparr>cp_tenant_id = ch_tenant_id ch, cp_sequence = sequence, cp_chain_hash = head,
                       cp_signed_at = now, cp_key_id = ch_key_id ch,
                       cp_signature = ak_b64_encode k (ak_sign k (ch_key ch) payload)\<rparr>;
                     (written, sink) = (case ch_sink ch of None \<Rightarrow> (Inr (), None)
                       | Some s \<Rightarrow> (let (x, s') = sink_append_checkpoint k io cp s in (x, Some s')))
                 in case written of
                      Inl err \<Rightarrow> (Inl err, ch\<lparr>ch_sink := sink\<rparr>)
                    | Inr _ \<Rightarrow> (Inr cp, ch\<lparr>ch_sink := sink, ch_checkpoints := ch_checkpoints ch @ [cp]\<rparr>))"

record AuditBundle =
  ab_tenant_id :: string
  ab_entries :: "AuditEntry list"
  ab_checkpoints :: "Checkpoint list"

definition chain_export :: "'sk AuditChain \<Rightarrow> audit_error + AuditBundle" where
  "chain_export ch = (if ch_poisoned ch then Inl ChainPoisoned
     else Inr \<lparr>ab_tenant_id = ch_tenant_id ch, ab_entries = ch_entries ch, ab_checkpoints = ch_checkpoints ch\<rparr>)"

section \<open>Verification\<close>

datatype IntegrityFailure =
    ContentModified u64
  | ChainBroken u64
  | SequenceGap u64 u64
  | DuplicateSequence u64
  | CheckpointSignatureInvalid u64
  | CheckpointKeyUnknown u64 string
  | CheckpointMismatch u64
  | TruncatedBelowCheckpoint u64 u64

record VerificationReport =
  vr_entries_checked :: u64
  vr_checkpoints_checked :: u64
  vr_failures :: "IntegrityFailure list"

definition report_is_valid :: "VerificationReport \<Rightarrow> bool" where
  "report_is_valid r \<longleftrightarrow> vr_failures r = []"

text \<open>The loop over the entries carries the expected sequence, the previous hash, the sequences seen and the hash at each.\<close>

record verify_state =
  vs_expected :: u64
  vs_previous :: "ContentHash option"
  vs_seen :: "u64 list"
  vs_hash_at :: "(u64, ContentHash) hmap"
  vs_failures :: "IntegrityFailure list"

definition entry_failures :: "('sk, 'vk) audit_env \<Rightarrow> verify_state \<Rightarrow> AuditEntry \<Rightarrow> IntegrityFailure list" where
  "entry_failures k v en =
     (let n = ae_sequence en
      in (if n \<in> set (vs_seen v) then [DuplicateSequence n] else [])
         @ (if n \<noteq> vs_expected v then [SequenceGap (vs_expected v) n] else [])
         @ (case event_content_hash k (ae_event en) of
              Inl _ \<Rightarrow> [ContentModified n]
            | Inr recomputed \<Rightarrow>
                (if (case se_integrity (ae_event en) of None \<Rightarrow> True | Some i \<Rightarrow> \<not> ct_eq (ie_event_hash i) recomputed)
                 then [ContentModified n] else [])
                @ (case link_hash k n recomputed (vs_previous v) of
                     Inl _ \<Rightarrow> [ContentModified n]
                   | Inr expected \<Rightarrow> if ct_eq expected (ae_chain_hash en) then [] else [ChainBroken n])))"

definition verify_entry :: "('sk, 'vk) audit_env \<Rightarrow> verify_state \<Rightarrow> AuditEntry \<Rightarrow> verify_state" where
  "verify_entry k v en =
     \<lparr>vs_expected = ae_sequence en + 1, vs_previous = Some (ae_chain_hash en),
      vs_seen = ae_sequence en # vs_seen v,
      vs_hash_at = hm_insert (ae_sequence en) (ae_chain_hash en) (vs_hash_at v),
      vs_failures = vs_failures v @ entry_failures k v en\<rparr>"

definition signature_ok :: "('sk, 'vk) audit_env \<Rightarrow> 'vk \<Rightarrow> u8 list \<Rightarrow> string \<Rightarrow> bool" where
  "signature_ok k key payload signature =
     (case ak_b64_decode k signature of
        None \<Rightarrow> False
      | Some b \<Rightarrow> length b = 64 \<and> ak_verify k key payload b)"

definition checkpoint_failures ::
    "('sk, 'vk) audit_env \<Rightarrow> (string, 'vk) hmap \<Rightarrow> (u64, ContentHash) hmap \<Rightarrow> u64 \<Rightarrow> Checkpoint \<Rightarrow> IntegrityFailure list" where
  "checkpoint_failures k trusted hash_at last_sequence cp =
     (case hm_get trusted (cp_key_id cp) of
        None \<Rightarrow> [CheckpointKeyUnknown (cp_sequence cp) (single_line_excerpt (ak_marks k) (cp_key_id cp) 32)]
      | Some key \<Rightarrow>
          (case signing_payload k (cp_tenant_id cp) (cp_sequence cp) (cp_chain_hash cp) (cp_signed_at cp) (cp_key_id cp) of
             Inl _ \<Rightarrow> [CheckpointSignatureInvalid (cp_sequence cp)]
           | Inr payload \<Rightarrow>
               if \<not> signature_ok k key payload (cp_signature cp) then [CheckpointSignatureInvalid (cp_sequence cp)]
               else case hm_get hash_at (cp_sequence cp) of
                      Some actual \<Rightarrow> if ct_eq actual (cp_chain_hash cp) then [] else [CheckpointMismatch (cp_sequence cp)]
                    | None \<Rightarrow> [TruncatedBelowCheckpoint (cp_sequence cp) last_sequence]))"

definition verify_start :: verify_state where
  "verify_start = \<lparr>vs_expected = 0, vs_previous = None, vs_seen = [], vs_hash_at = [], vs_failures = []\<rparr>"

definition verify_bundle :: "('sk, 'vk) audit_env \<Rightarrow> (string, 'vk) hmap \<Rightarrow> AuditBundle \<Rightarrow> VerificationReport" where
  "verify_bundle k trusted b =
     (let v = foldl (verify_entry k) verify_start (ab_entries b);
          last_sequence = (if ab_entries b = [] then 0 else ae_sequence (last (ab_entries b)))
      in \<lparr>vr_entries_checked = of_nat (length (ab_entries b)),
          vr_checkpoints_checked = of_nat (length (ab_checkpoints b)),
          vr_failures = vs_failures v @
            concat (map (checkpoint_failures k trusted (vs_hash_at v) last_sequence) (ab_checkpoints b))\<rparr>)"

section \<open>What verification accepts\<close>

definition entry_linked :: "('sk, 'vk) audit_env \<Rightarrow> u64 \<Rightarrow> ContentHash option \<Rightarrow> AuditEntry \<Rightarrow> bool" where
  "entry_linked k n p en \<longleftrightarrow>
     (\<exists>h i. event_content_hash k (ae_event en) = Inr h \<and> se_integrity (ae_event en) = Some i \<and> ie_event_hash i = h \<and>
        link_hash k n h p = Inr (ae_chain_hash en))"

primrec chained :: "('sk, 'vk) audit_env \<Rightarrow> u64 \<Rightarrow> ContentHash option \<Rightarrow> AuditEntry list \<Rightarrow> bool" where
  "chained k n p [] = True"
| "chained k n p (en # es) \<longleftrightarrow>
     ae_sequence en = n \<and> entry_linked k n p en \<and> chained k (n + 1) (Some (ae_chain_hash en)) es"

definition committed_at :: "AuditEntry list \<Rightarrow> u64 \<Rightarrow> ContentHash \<Rightarrow> bool" where
  "committed_at es n h \<longleftrightarrow> (\<exists>en \<in> set es. ae_sequence en = n \<and> ae_chain_hash en = h)"

definition checkpoint_sound ::
    "('sk, 'vk) audit_env \<Rightarrow> (string, 'vk) hmap \<Rightarrow> AuditEntry list \<Rightarrow> Checkpoint \<Rightarrow> bool" where
  "checkpoint_sound k trusted es cp \<longleftrightarrow>
     (\<exists>key payload. hm_get trusted (cp_key_id cp) = Some key \<and>
        signing_payload k (cp_tenant_id cp) (cp_sequence cp) (cp_chain_hash cp) (cp_signed_at cp) (cp_key_id cp) = Inr payload \<and>
        signature_ok k key payload (cp_signature cp)) \<and>
     committed_at es (cp_sequence cp) (cp_chain_hash cp)"

lemma entry_failures_none:
  "entry_failures k v en = [] \<longleftrightarrow>
     ae_sequence en \<notin> set (vs_seen v) \<and> ae_sequence en = vs_expected v \<and> entry_linked k (vs_expected v) (vs_previous v) en"
  by (auto simp: entry_failures_def entry_linked_def Let_def ct_eq_iff split: sum.splits option.splits)

lemma verify_entries_failures:
  "vs_failures (foldl (verify_entry k) v es) = [] \<longleftrightarrow>
     vs_failures v = [] \<and> chained k (vs_expected v) (vs_previous v) es \<and>
     distinct (map ae_sequence es) \<and> set (vs_seen v) \<inter> ae_sequence ` set es = {}"
proof (induction es arbitrary: v)
  case (Cons en es)
  show ?case
    using Cons.IH [of "verify_entry k v en"] by (auto simp: verify_entry_def entry_failures_none)
qed simp

lemma other_sequence: "distinct (map ae_sequence (en # es)) \<Longrightarrow> x \<in> set es \<Longrightarrow> ae_sequence x \<noteq> ae_sequence en"
  by (simp add: image_iff) metis

lemma verify_entries_hashes:
  "distinct (map ae_sequence es) \<Longrightarrow>
     hm_get (vs_hash_at (foldl (verify_entry k) v es)) n =
       (case find (\<lambda>en. ae_sequence en = n) es of Some en \<Rightarrow> Some (ae_chain_hash en) | None \<Rightarrow> hm_get (vs_hash_at v) n)"
proof (induction es arbitrary: v)
  case (Cons en es)
  have "find (\<lambda>x. ae_sequence x = n) es = None" if "ae_sequence en = n"
    using other_sequence [OF Cons.prems] that by (auto simp: find_None_iff)
  with Cons show ?case by (auto simp: verify_entry_def split: option.splits)
qed simp

lemma find_committed:
  assumes "distinct (map ae_sequence es)"
  shows "(\<exists>en. find (\<lambda>en. ae_sequence en = n) es = Some en \<and> ae_chain_hash en = h) \<longleftrightarrow> committed_at es n h"
  using assms
proof (induction es)
  case (Cons en es)
  show ?case
  proof (cases "ae_sequence en = n")
    case True
    then have "\<forall>x \<in> set es. ae_sequence x \<noteq> n" using other_sequence [OF Cons.prems] by auto
    with True show ?thesis by (auto simp: committed_at_def)
  next
    case False
    then show ?thesis using Cons by (auto simp: committed_at_def)
  qed
qed (simp add: committed_at_def)

lemma checkpoint_failures_none:
  assumes "distinct (map ae_sequence es)"
    and "\<And>n. hm_get hashes n = map_option ae_chain_hash (find (\<lambda>en. ae_sequence en = n) es)"
  shows "checkpoint_failures k trusted hashes l cp = [] \<longleftrightarrow> checkpoint_sound k trusted es cp"
  using find_committed [OF assms(1), of "cp_sequence cp" "cp_chain_hash cp"]
  by (auto simp: checkpoint_failures_def checkpoint_sound_def assms(2) ct_eq_iff split: option.splits sum.splits)

lemma verify_valid_iff:
  "report_is_valid (verify_bundle k trusted b) \<longleftrightarrow>
     chained k 0 None (ab_entries b) \<and> distinct (map ae_sequence (ab_entries b)) \<and>
     (\<forall>cp \<in> set (ab_checkpoints b). checkpoint_sound k trusted (ab_entries b) cp)"
proof -
  let ?v = "foldl (verify_entry k) verify_start (ab_entries b)"
  have hashes: "hm_get (vs_hash_at ?v) n = map_option ae_chain_hash (find (\<lambda>en. ae_sequence en = n) (ab_entries b))"
    if "distinct (map ae_sequence (ab_entries b))" for n
    using verify_entries_hashes [OF that, of k verify_start n] by (auto simp: verify_start_def split: option.splits)
  have "vs_failures ?v = [] \<longleftrightarrow> chained k 0 None (ab_entries b) \<and> distinct (map ae_sequence (ab_entries b))"
    by (simp add: verify_entries_failures verify_start_def)
  then show ?thesis
    using checkpoint_failures_none [OF _ hashes, where k = k and trusted = trusted]
    by (auto simp: report_is_valid_def verify_bundle_def Let_def)
qed

section \<open>Chains as they are written\<close>

lemma chained_append:
  "chained k n p (es @ [en]) \<longleftrightarrow>
     chained k n p es \<and> ae_sequence en = n + of_nat (length es) \<and>
     entry_linked k (n + of_nat (length es)) (if es = [] then p else Some (ae_chain_hash (last es))) en"
  by (induction es arbitrary: n p) (auto simp: algebra_simps)

lemma chained_sequences: "chained k n p es \<Longrightarrow> map ae_sequence es = map (\<lambda>i. n + of_nat i) [0..<length es]"
proof (induction es rule: rev_induct)
  case (snoc en es)
  then show ?case by (simp add: chained_append)
qed simp

lemma chained_distinct:
  assumes "chained k 0 None es" "length es \<le> 2 ^ 64"
  shows "distinct (map ae_sequence es)"
proof -
  have "inj_on (of_nat :: nat \<Rightarrow> u64) {0..<length es}"
  proof (rule inj_onI)
    fix x y
    assume "x \<in> {0..<length es}" "y \<in> {0..<length es}" "(of_nat x :: u64) = of_nat y"
    then show "x = y" using assms(2) by (simp add: word_of_nat_eq_iff take_bit_nat_eq_self)
  qed
  then show ?thesis
    using chained_sequences [OF assms(1)] by (simp add: distinct_map)
qed

text \<open>Steps of the log: appending an event and signing a checkpoint, with any outcome of the file system.\<close>

inductive audit_step :: "('sk, 'vk) audit_env \<Rightarrow> 'sk AuditChain \<Rightarrow> 'sk AuditChain \<Rightarrow> bool" for k where
  append: "chain_append k io ev ch = (x, ch') \<Longrightarrow> audit_step k ch ch'"
| checkpoint: "chain_checkpoint k io now ch = (x, ch') \<Longrightarrow> audit_step k ch ch'"

inductive audit_steps :: "('sk, 'vk) audit_env \<Rightarrow> 'sk AuditChain \<Rightarrow> 'sk AuditChain \<Rightarrow> bool" for k where
  none: "audit_steps k ch ch"
| more: "audit_steps k ch ch' \<Longrightarrow> audit_step k ch' ch'' \<Longrightarrow> audit_steps k ch ch''"

inductive_cases audit_stepE: "audit_step k ch ch'"

text \<open>The laws of the serializer and the signature scheme the log rests on.\<close>

definition audit_laws :: "('sk, 'vk) audit_env \<Rightarrow> bool" where
  "audit_laws k \<longleftrightarrow>
     (\<forall>ev i. integrity_payload k (ev\<lparr>se_integrity := i\<rparr>) = integrity_payload k ev) \<and>
     (\<forall>b. ak_b64_decode k (ak_b64_encode k b) = Some b) \<and>
     (\<forall>sk m. length (ak_sign k sk m) = 64 \<and> ak_verify k (ak_public k sk) m (ak_sign k sk m))"

definition signed_by :: "('sk, 'vk) audit_env \<Rightarrow> string \<Rightarrow> 'sk \<Rightarrow> Checkpoint \<Rightarrow> bool" where
  "signed_by k key_id key cp \<longleftrightarrow>
     (\<exists>payload. signing_payload k (cp_tenant_id cp) (cp_sequence cp) (cp_chain_hash cp) (cp_signed_at cp) (cp_key_id cp) =
        Inr payload \<and> cp_signature cp = ak_b64_encode k (ak_sign k key payload) \<and> cp_key_id cp = key_id)"

definition chain_inv :: "('sk, 'vk) audit_env \<Rightarrow> string \<Rightarrow> 'sk \<Rightarrow> 'sk AuditChain \<Rightarrow> bool" where
  "chain_inv k key_id key ch \<longleftrightarrow>
     chained k 0 None (ch_entries ch) \<and> ch_next_sequence ch = of_nat (length (ch_entries ch)) \<and>
     ch_head ch = head_after (ch_entries ch) \<and> ch_key_id ch = key_id \<and> ch_key ch = key \<and>
     (\<forall>cp \<in> set (ch_checkpoints ch). signed_by k key_id key cp \<and> cp_tenant_id cp = ch_tenant_id ch \<and>
        committed_at (ch_entries ch) (cp_sequence cp) (cp_chain_hash cp))"

lemma chain_inv_new: "chain_inv k key_id key (chain_new tenant key_id key)"
  by (simp add: chain_inv_def chain_new_def head_after_def)

lemma committed_at_append: "committed_at es n h \<Longrightarrow> committed_at (es @ es') n h"
  by (auto simp: committed_at_def)

lemma chain_append_cases:
  assumes "chain_append k io ev ch = (x, ch')"
  obtains (failed) sink err where "ch' = ch\<lparr>ch_sink := sink\<rparr>" "x = Inl err"
  | (written) sink h c i where "event_content_hash k ev = Inr h" "link_hash k (ch_next_sequence ch) h (ch_head ch) = Inr c"
      "i = \<lparr>ie_sequence = ch_next_sequence ch, ie_event_hash = h, ie_previous_hash = ch_head ch, ie_checkpoint_signature = None\<rparr>"
      "ch' = ch\<lparr>ch_sink := sink, ch_entries := ch_entries ch @ [\<lparr>ae_sequence = ch_next_sequence ch,
         ae_event = ev\<lparr>se_integrity := Some i\<rparr>, ae_chain_hash = c, ae_previous_hash = ch_head ch\<rparr>],
         ch_next_sequence := ch_next_sequence ch + 1, ch_head := Some c\<rparr>"
      "x = Inr i" "\<not> ch_poisoned ch"
proof -
  have same: thesis if "ch' = ch" "x = Inl err" for err
    using that failed [of "ch_sink ch" err] by simp
  show thesis
  proof (cases "event_content_hash k ev")
    case (Inl err)
    then show ?thesis using assms same by (auto simp: chain_append_def)
  next
    case h: (Inr h)
    show ?thesis
    proof (cases "ch_poisoned ch")
      case True
      then show ?thesis using assms same h by (auto simp: chain_append_def)
    next
      case False
      show ?thesis
      proof (cases "link_hash k (ch_next_sequence ch) h (ch_head ch)")
        case (Inl err)
        then show ?thesis using assms same h False by (auto simp: chain_append_def)
      next
        case (Inr c)
        show ?thesis
          using assms failed written [OF h Inr refl] unfolding chain_append_def Let_def h sum.case Inr
          by (auto simp: False split: prod.splits sum.splits)
      qed
    qed
  qed
qed

lemma chain_checkpoint_cases:
  assumes "chain_checkpoint k io now ch = (x, ch')"
  obtains (failed) sink err where "ch' = ch\<lparr>ch_sink := sink\<rparr>" "x = Inl err"
  | (written) sink h cp payload where "ch_head ch = Some h"
      "signing_payload k (ch_tenant_id ch) (cp_sequence cp) h now (ch_key_id ch) = Inr payload"
      "cp = \<lparr>cp_tenant_id = ch_tenant_id ch, cp_sequence = (if ch_next_sequence ch = 0 then 0 else ch_next_sequence ch - 1),
         cp_chain_hash = h, cp_signed_at = now, cp_key_id = ch_key_id ch,
         cp_signature = ak_b64_encode k (ak_sign k (ch_key ch) payload)\<rparr>"
      "ch' = ch\<lparr>ch_sink := sink, ch_checkpoints := ch_checkpoints ch @ [cp]\<rparr>" "x = Inr cp"
proof -
  let ?n = "if ch_next_sequence ch = 0 then 0 else ch_next_sequence ch - 1"
  have same: thesis if "ch' = ch" "x = Inl err" for err
    using that failed [of "ch_sink ch" err] by simp
  show thesis
  proof (cases "ch_poisoned ch \<or> ch_head ch = None")
    case True
    then show ?thesis using assms same by (auto simp: chain_checkpoint_def split: if_splits)
  next
    case False
    then obtain h where h: "ch_head ch = Some h" "\<not> ch_poisoned ch" by auto
    show ?thesis
    proof (cases "signing_payload k (ch_tenant_id ch) ?n h now (ch_key_id ch)")
      case (Inl err)
      then show ?thesis using assms same h by (auto simp: chain_checkpoint_def Let_def)
    next
      case (Inr payload)
      let ?cp = "\<lparr>cp_tenant_id = ch_tenant_id ch, cp_sequence = ?n, cp_chain_hash = h, cp_signed_at = now,
         cp_key_id = ch_key_id ch, cp_signature = ak_b64_encode k (ak_sign k (ch_key ch) payload)\<rparr>"
      have "signing_payload k (ch_tenant_id ch) (cp_sequence ?cp) h now (ch_key_id ch) = Inr payload"
        using Inr by simp
      from written [OF h(1) this refl] failed assms show ?thesis
        unfolding chain_checkpoint_def Let_def h option.case Inr sum.case
        by (simp only: h if_False) (auto split: prod.splits sum.splits)
    qed
  qed
qed

lemma chain_step_inv:
  assumes "audit_laws k" "audit_step k ch ch'" "chain_inv k key_id key ch" "length (ch_entries ch) < 2 ^ 64"
  shows "chain_inv k key_id key ch'"
  using assms(2)
proof (cases rule: audit_step.cases)
  case (append io ev x)
  then show ?thesis
  proof (cases rule: chain_append_cases)
    case (failed sink err)
    then show ?thesis using assms(3) by (simp add: chain_inv_def)
  next
    case (written sink h c i)
    have "event_content_hash k (ev\<lparr>se_integrity := Some i\<rparr>) = Inr h"
      using assms(1) written(1) by (simp add: event_content_hash_def audit_laws_def)
    then have "entry_linked k (ch_next_sequence ch) (ch_head ch) \<lparr>ae_sequence = ch_next_sequence ch,
        ae_event = ev\<lparr>se_integrity := Some i\<rparr>, ae_chain_hash = c, ae_previous_hash = ch_head ch\<rparr>"
      using written(2,3) by (simp add: entry_linked_def)
    then show ?thesis
      using assms(3) written(4)
      by (auto simp: chain_inv_def chained_append head_after_def committed_at_append split: if_splits)
  qed
next
  case (checkpoint io now x)
  then show ?thesis
  proof (cases rule: chain_checkpoint_cases)
    case (failed sink err)
    then show ?thesis using assms(3) by (simp add: chain_inv_def)
  next
    case (written sink h cp payload)
    have ne: "ch_entries ch \<noteq> []" and last: "ae_chain_hash (last (ch_entries ch)) = h"
      using written(1) assms(3) by (auto simp: chain_inv_def head_after_def split: if_splits)
    let ?m = "length (ch_entries ch) - 1"
    have "ae_sequence (last (ch_entries ch)) = of_nat ?m"
      using arg_cong [OF chained_sequences [of k 0 None "ch_entries ch"], of last] assms(3) ne
      by (simp add: chain_inv_def last_map)
    moreover have "(of_nat (length (ch_entries ch)) :: u64) \<noteq> 0" "(of_nat (length (ch_entries ch)) :: u64) - 1 = of_nat ?m"
      using ne assms(4) by (auto simp: word_of_nat_eq_0_iff of_nat_diff Suc_le_eq dest: nat_dvd_not_less)
    ultimately have "committed_at (ch_entries ch) (cp_sequence cp) (cp_chain_hash cp)"
      using last ne assms(3) last_in_set [OF ne] unfolding committed_at_def
      by (intro bexI [of _ "last (ch_entries ch)"]) (simp_all add: written(3) chain_inv_def)
    moreover have "signed_by k key_id key cp"
      using written(2,3) assms(3) by (auto simp: signed_by_def chain_inv_def)
    ultimately show ?thesis
      using assms(3) written(3,4) by (auto simp: chain_inv_def)
  qed
qed

lemma chain_step_length: "audit_step k ch ch' \<Longrightarrow> length (ch_entries ch) \<le> length (ch_entries ch')"
  by (erule audit_step.cases; erule chain_append_cases chain_checkpoint_cases; simp)

lemma chain_steps_inv:
  assumes "audit_steps k ch ch'" "audit_laws k" "chain_inv k key_id key ch" "length (ch_entries ch') < 2 ^ 64"
  shows "chain_inv k key_id key ch'"
  using assms(1,3,4)
proof (induction rule: audit_steps.induct)
  case (more ch ch' ch'')
  from chain_step_length [OF more.hyps(2)] more.prems(2) have "length (ch_entries ch') < 2 ^ 64" by simp
  with more show ?case by (auto intro: chain_step_inv [OF assms(2)])
qed

lemma checkpoint_signed_sound:
  assumes "audit_laws k" "hm_get trusted key_id = Some (ak_public k key)" "signed_by k key_id key cp"
    "committed_at es (cp_sequence cp) (cp_chain_hash cp)"
  shows "checkpoint_sound k trusted es cp"
  using assms by (auto simp: checkpoint_sound_def signed_by_def signature_ok_def audit_laws_def)

section \<open>Hashes commit\<close>

definition collision :: "(u8 list \<Rightarrow> string) \<Rightarrow> bool" where
  "collision sha \<longleftrightarrow> (\<exists>x y. x \<noteq> y \<and> sha x = sha y)"

lemma hash_commits:
  assumes "decimal_rendering nf" "\<not> collision sha"
    "hash_canonical_json nf sha v = Inr h" "hash_canonical_json nf sha w = Inr h"
  shows "jnorm v = jnorm w"
proof -
  obtain s where s: "canonicalize nf v = Inr s" "ch_hex h = sha (utf8 s)"
    using assms(3) by (auto simp: hash_canonical_json_def canonical_bytes_def hash_bytes_def result_simps)
  obtain s' where s': "canonicalize nf w = Inr s'" "ch_hex h = sha (utf8 s')"
    using assms(4) by (auto simp: hash_canonical_json_def canonical_bytes_def hash_bytes_def result_simps)
  have "utf8 s = utf8 s'" using assms(2) s(2) s'(2) unfolding collision_def by metis
  then show ?thesis using canonicalize_unique [OF assms(1) s(1)] s'(1) utf8_inj by blast
qed

lemma event_commits:
  assumes "decimal_rendering (ak_format k)" "\<not> collision (ak_sha k)"
    "event_content_hash k x = Inr h" "event_content_hash k y = Inr h"
  shows "jnorm (integrity_payload k x) = jnorm (integrity_payload k y)"
  using assms(3,4) unfolding event_content_hash_def by (rule hash_commits [OF assms(1,2)])

lemma committed_nth: "committed_at es n h \<Longrightarrow> \<exists>i < length es. ae_chain_hash (es ! i) = h"
  by (auto simp: committed_at_def in_set_conv_nth)

lemma hash_display_inj: "hash_display a = hash_display b \<Longrightarrow> a = b"
  by (cases "ch_algorithm a"; cases "ch_algorithm b") (simp add: hash_display_def)

lemma link_commits:
  assumes "decimal_rendering (ak_format k)" "\<not> collision (ak_sha k)"
    "link_hash k n h p = Inr c" "link_hash k m h' p' = Inr c"
  shows "n = m" "h = h'" "p = p'"
proof -
  have j: "jnorm (link_body n h p) = jnorm (link_body m h' p')"
    using assms by (auto simp: link_hash_def intro: hash_commits)
  have get: "obj_get (jnorm (link_body n h p)) name = map_option jnorm (obj_get (link_body n h p) name)" for n h p name
    unfolding link_body_def by (subst obj_get_jnorm) (simp_all add: obj_get_def)
  have eq: "map_option jnorm (obj_get (link_body n h p) name) = map_option jnorm (obj_get (link_body m h' p') name)" for name
    using get j by metis
  show "n = m" using eq [of "''sequence''"] by (simp add: link_body_def obj_get_def word_uint_eq_iff)
  show "h = h'" using eq [of "''event_hash''"] by (auto simp: link_body_def obj_get_def dest: hash_display_inj)
  show "p = p'" using eq [of "''previous_hash''"]
    by (cases p; cases p') (auto simp: link_body_def obj_get_def json_of_option_def dest: hash_display_inj)
qed

lemma chain_step_poisoned: "audit_step k ch ch' \<Longrightarrow> ch_poisoned ch' = ch_poisoned ch"
  by (erule audit_step.cases; erule chain_append_cases chain_checkpoint_cases; simp)

lemma chain_steps_poisoned: "audit_steps k ch ch' \<Longrightarrow> ch_poisoned ch' = ch_poisoned ch"
  by (induction rule: audit_steps.induct) (simp_all add: chain_step_poisoned)

lemma payload_commits:
  assumes "decimal_rendering (ak_format k)"
    "signing_payload k t n c time i = Inr m" "signing_payload k t' n' c' time' i' = Inr m"
  shows "t = t'" "n = n'" "c = c'"
proof -
  let ?J = "\<lambda>t n c time i. [(''tenant_id'', JStr t), (''sequence'', JInt (uint n)),
        (''chain_hash'', JStr (hash_display c)), (''signed_at'', JStr (ak_rfc3339 k time)), (''key_id'', JStr i)]"
  have j: "jnorm (JObj (?J t n c time i)) = jnorm (JObj (?J t' n' c' time' i'))"
  proof -
    obtain s where s: "canonicalize (ak_format k) (JObj (?J t n c time i)) = Inr s" "m = utf8 s"
      using assms(2) by (auto simp: signing_payload_def canonical_bytes_def result_simps)
    obtain s' where s': "canonicalize (ak_format k) (JObj (?J t' n' c' time' i')) = Inr s'" "m = utf8 s'"
      using assms(3) by (auto simp: signing_payload_def canonical_bytes_def result_simps)
    from s(2) s'(2) have "s = s'" using utf8_inj by simp
    with canonicalize_unique [OF assms(1) s(1)] s'(1) show ?thesis by simp
  qed
  have eq: "map_option jnorm (map_of (?J t n c time i) name) = map_option jnorm (map_of (?J t' n' c' time' i') name)" for name
    using arg_cong [OF j, of "\<lambda>v. obj_get v name"] by (simp add: obj_get_jnorm del: jnorm.simps)
  show "t = t'" using eq [of "''tenant_id''"] by simp
  show "n = n'" using eq [of "''sequence''"] by (simp add: word_uint_eq_iff)
  show "c = c'" using eq [of "''chain_hash''"] by (simp add: hash_display_inj)
qed

definition previous_of :: "AuditEntry list \<Rightarrow> nat \<Rightarrow> ContentHash option" where
  "previous_of es i = (if i = 0 then None else Some (ae_chain_hash (es ! (i - 1))))"

lemma chained_nth: "chained k 0 None es \<Longrightarrow> i < length es \<Longrightarrow> entry_linked k (of_nat i) (previous_of es i) (es ! i)"
proof (induction es rule: rev_induct)
  case (snoc en es)
  show ?case
  proof (cases "i < length es")
    case True
    then show ?thesis using snoc by (auto simp: chained_append nth_append previous_of_def split: if_splits)
  next
    case False
    then show ?thesis using snoc.prems by (auto simp: chained_append nth_append previous_of_def last_conv_nth less_Suc_eq)
  qed
qed simp

text \<open>Two linked logs that agree on one chain hash agree on everything up to it.\<close>

lemma chains_agree:
  assumes "decimal_rendering (ak_format k)" "\<not> collision (ak_sha k)" "chained k 0 None es" "chained k 0 None fs"
  shows "i < length es \<Longrightarrow> j < length fs \<Longrightarrow> ae_chain_hash (es ! i) = ae_chain_hash (fs ! j) \<Longrightarrow>
     i = j \<and> (\<forall>m \<le> i. jnorm (integrity_payload k (ae_event (es ! m))) = jnorm (integrity_payload k (ae_event (fs ! m))) \<and>
       ae_chain_hash (es ! m) = ae_chain_hash (fs ! m))"
proof (induction i arbitrary: j)
  case (0 j)
  obtain h where h: "event_content_hash k (ae_event (es ! 0)) = Inr h" "link_hash k 0 h None = Inr (ae_chain_hash (es ! 0))"
    using chained_nth [OF assms(3) 0(1)] by (auto simp: entry_linked_def previous_of_def)
  obtain h' where h': "event_content_hash k (ae_event (fs ! j)) = Inr h'"
    "link_hash k (of_nat j) h' (previous_of fs j) = Inr (ae_chain_hash (fs ! j))"
    using chained_nth [OF assms(4) 0(2)] by (auto simp: entry_linked_def)
  note l = link_commits [OF assms(1,2) h(2)] 
  have "None = previous_of fs j" "h = h'" using l(2,3) h'(2) 0(3) by simp_all
  then have "j = 0" "jnorm (integrity_payload k (ae_event (es ! 0))) = jnorm (integrity_payload k (ae_event (fs ! j)))"
    using event_commits [OF assms(1,2) h(1)] h'(1) by (simp_all add: previous_of_def split: if_splits)
  with 0 show ?case by simp
next
  case (Suc i j)
  obtain h where h: "event_content_hash k (ae_event (es ! Suc i)) = Inr h"
    "link_hash k (of_nat (Suc i)) h (Some (ae_chain_hash (es ! i))) = Inr (ae_chain_hash (es ! Suc i))"
    using chained_nth [OF assms(3) Suc.prems(1)] by (auto simp: entry_linked_def previous_of_def)
  obtain h' where h': "event_content_hash k (ae_event (fs ! j)) = Inr h'"
    "link_hash k (of_nat j) h' (previous_of fs j) = Inr (ae_chain_hash (fs ! j))"
    using chained_nth [OF assms(4) Suc.prems(2)] by (auto simp: entry_linked_def)
  note l = link_commits [OF assms(1,2) h(2)]
  have p: "Some (ae_chain_hash (es ! i)) = previous_of fs j" "h = h'" using l(2,3) h'(2) Suc.prems(3) by simp_all
  then obtain j' where j: "j = Suc j'" "ae_chain_hash (es ! i) = ae_chain_hash (fs ! j')"
    by (cases j) (auto simp: previous_of_def)
  have "jnorm (integrity_payload k (ae_event (es ! Suc i))) = jnorm (integrity_payload k (ae_event (fs ! j)))"
    using event_commits [OF assms(1,2) h(1)] h'(1) p(2) by simp
  with Suc.IH [OF _ _ j(2)] Suc.prems j(1) show ?case by (auto simp: le_Suc_eq)
qed

text \<open>The signatures of a bundle are not forged: the chain signed every accepted checkpoint body.\<close>

definition checkpoint_payload :: "('sk, 'vk) audit_env \<Rightarrow> Checkpoint \<Rightarrow> canon_error + u8 list" where
  "checkpoint_payload k cp =
     signing_payload k (cp_tenant_id cp) (cp_sequence cp) (cp_chain_hash cp) (cp_signed_at cp) (cp_key_id cp)"

definition unforged :: "('sk, 'vk) audit_env \<Rightarrow> 'sk \<Rightarrow> 'sk AuditChain \<Rightarrow> AuditBundle \<Rightarrow> bool" where
  "unforged k key ch b \<longleftrightarrow>
     (\<forall>cp \<in> set (ab_checkpoints b). \<forall>m.
        checkpoint_payload k cp = Inr m \<and> signature_ok k (ak_public k key) m (cp_signature cp) \<longrightarrow>
        (\<exists>cp' \<in> set (ch_checkpoints ch). checkpoint_payload k cp' = Inr m))"

section \<open>A sample log\<close>

definition sample_audit_env :: "(unit, unit) audit_env" where
  "sample_audit_env = \<lparr>ak_event_value = (\<lambda>ev. JObj [(''event_id'', JStr (se_event_id ev))]),
     ak_entry_line = (\<lambda>en. ''{'' @ se_event_id (ae_event en) @ ''}''), ak_entry_parse = (\<lambda>l. None),
     ak_checkpoint_line = (\<lambda>cp. ''{}''), ak_checkpoint_parse = (\<lambda>l. None), ak_rfc3339 = (\<lambda>t. ''now''),
     ak_format = sample_format, ak_sha = map (\<lambda>w. char_of (unat w)), ak_b64_encode = map (\<lambda>w. char_of (unat w)),
     ak_b64_decode = (\<lambda>s. Some (map (\<lambda>c. of_nat (of_char c)) s)), ak_sign = (\<lambda>_ m. replicate 64 0),
     ak_verify = (\<lambda>_ m s. s = replicate 64 0), ak_public = (\<lambda>_. ()), ak_marks = sample_marks\<rparr>"

definition sample_event :: "string \<Rightarrow> VigilSecurityEvent" where
  "sample_event i = \<lparr>se_schema_version = SCHEMA_VERSION, se_event_id = i, se_timestamp = 0, se_event_type = DecisionRendered,
     se_trace = \<lparr>tx_trace_id = None, tx_span_id = None, tx_parent_span_id = None\<rparr>, se_tenant_id = ''t1'',
     se_environment_id = ''prod'', se_session_id = ''s1'', se_agent_id = ''support'', se_agent_instance_id = ''i1'',
     se_principal = ar_principal (sample_request sample_shell), se_workload_identity = None, se_source = ''core'',
     se_trust_level = None, se_provenance = [], se_action = None, se_action_hash = None,
     se_data_classification = \<lparr>dc_classes = [], dc_crosses_trust_boundary = False, dc_fingerprints = []\<rparr>,
     se_taint = \<lparr>ts_kinds = [], ts_chain = [], ts_untrusted_instruction_influence = False\<rparr>, se_remit_version = None,
     se_policy_bundle_version = None, se_detector_results = [], se_decision = Some Deny, se_reason_codes = [],
     se_risk_score = None, se_enforcement = None, se_approval_id = None, se_incident_id = None, se_integrity = None,
     se_extensions = []\<rparr>"

definition sample_chain :: "unit AuditChain" where
  "sample_chain =
     snd (chain_checkpoint sample_audit_env IoOk 5
       (snd (chain_append sample_audit_env IoOk (sample_event ''e1'')
         (snd (chain_append sample_audit_env IoOk (sample_event ''e0'') (chain_new ''t1'' ''k1'' ()))))))"

lemma byte_char: "(of_nat (of_char (char_of (unat w) :: char)) :: u8) = w"
proof -
  have "unat w < 2 ^ LENGTH(8)" by (rule unsigned_less)
  then show ?thesis by simp
qed

lemma sample_no_collision: "\<not> collision (ak_sha sample_audit_env)"
proof -
  have "inj (\<lambda>w :: u8. char_of (unat w) :: char)" by (rule injI) (metis byte_char)
  then show ?thesis by (auto simp: collision_def sample_audit_env_def inj_map_eq_map)
qed

lemma link_hash_total: "\<exists>c. link_hash k n h p = Inr c"
proof -
  have "no_floats (link_body n h p)" by (simp add: link_body_def json_of_option_def split: option.splits)
  from write_value_total [OF this, of "ak_format k"] show ?thesis
    by (auto simp: link_hash_def hash_canonical_json_def canonical_bytes_def canonicalize_def is_ok_iff result_simps)
qed

lemma signing_payload_total: "\<exists>m. signing_payload k t n c time i = Inr m"
proof -
  have "no_floats (JObj [(''tenant_id'', JStr t), (''sequence'', JInt (uint n)), (''chain_hash'', JStr (hash_display c)),
      (''signed_at'', JStr (ak_rfc3339 k time)), (''key_id'', JStr i)])" by simp
  from write_value_total [OF this, of "ak_format k"] show ?thesis
    by (auto simp: signing_payload_def canonical_bytes_def canonicalize_def is_ok_iff result_simps)
qed

text \<open>A chain in memory takes every event that has a canonical form.\<close>

lemma append_in_memory:
  assumes "event_content_hash k ev = Inr h" "ch_sink ch = None" "\<not> ch_poisoned ch"
  shows "length (ch_entries (snd (chain_append k io ev ch))) = Suc (length (ch_entries ch))"
    "ch_sink (snd (chain_append k io ev ch)) = None" "\<not> ch_poisoned (snd (chain_append k io ev ch))"
    "ch_head (snd (chain_append k io ev ch)) \<noteq> None"
proof -
  obtain c where "link_hash k (ch_next_sequence ch) h (ch_head ch) = Inr c" using link_hash_total by blast
  then show "length (ch_entries (snd (chain_append k io ev ch))) = Suc (length (ch_entries ch))"
    "ch_sink (snd (chain_append k io ev ch)) = None" "\<not> ch_poisoned (snd (chain_append k io ev ch))"
    "ch_head (snd (chain_append k io ev ch)) \<noteq> None"
    using assms by (simp_all add: chain_append_def Let_def)
qed

lemma checkpoint_in_memory:
  assumes "ch_sink ch = None" "\<not> ch_poisoned ch" "ch_head ch \<noteq> None"
  shows "ch_checkpoints (snd (chain_checkpoint k io now ch)) \<noteq> []"
    "ch_entries (snd (chain_checkpoint k io now ch)) = ch_entries ch"
proof -
  obtain h where h: "ch_head ch = Some h" using assms(3) by (cases "ch_head ch") simp_all
  obtain m where "signing_payload k (ch_tenant_id ch) (if ch_next_sequence ch = 0 then 0 else ch_next_sequence ch - 1) h now (ch_key_id ch) = Inr m"
    using signing_payload_total by blast
  then show "ch_checkpoints (snd (chain_checkpoint k io now ch)) \<noteq> []"
    "ch_entries (snd (chain_checkpoint k io now ch)) = ch_entries ch"
    using assms(1,2) h by (simp_all add: chain_checkpoint_def Let_def)
qed

lemma sample_audit_laws: "audit_laws sample_audit_env"
proof -
  have "map (\<lambda>c. of_nat (of_char c)) (map (\<lambda>w. char_of (unat w) :: char) b) = (b :: u8 list)" for b
    by (induction b) (simp_all only: list.map byte_char)
  then show ?thesis
    by (simp add: audit_laws_def sample_audit_env_def integrity_payload_def)
qed

lemma audit_step_append: "audit_step k ch (snd (chain_append k io ev ch))"
  by (rule audit_step.append) (rule prod.collapse [symmetric])

lemma audit_step_checkpoint: "audit_step k ch (snd (chain_checkpoint k io now ch))"
  by (rule audit_step.checkpoint) (rule prod.collapse [symmetric])

lemma sample_steps: "audit_steps sample_audit_env (chain_new ''t1'' ''k1'' ()) sample_chain"
  unfolding sample_chain_def
  by (rule audit_steps.more [OF audit_steps.more [OF audit_steps.more [OF audit_steps.none audit_step_append]
        audit_step_append] audit_step_checkpoint])

lemma sample_event_hash: "\<exists>h. event_content_hash sample_audit_env (sample_event i) = Inr h"
proof -
  have "no_floats (integrity_payload sample_audit_env (sample_event i))"
    by (simp add: integrity_payload_def sample_audit_env_def)
  from write_value_total [OF this, of "ak_format sample_audit_env"] show ?thesis
    by (auto simp: event_content_hash_def hash_canonical_json_def canonical_bytes_def canonicalize_def is_ok_iff result_simps)
qed

lemma sample_chain_shape: "length (ch_entries sample_chain) = 2" "ch_checkpoints sample_chain \<noteq> []"
proof -
  obtain h0 h1 where h: "event_content_hash sample_audit_env (sample_event ''e0'') = Inr h0"
    "event_content_hash sample_audit_env (sample_event ''e1'') = Inr h1" using sample_event_hash by blast
  let ?c1 = "snd (chain_append sample_audit_env IoOk (sample_event ''e0'') (chain_new ''t1'' ''k1'' ()))"
  have 1: "length (ch_entries ?c1) = 1" "ch_sink ?c1 = None" "\<not> ch_poisoned ?c1"
    using append_in_memory [OF h(1), of "chain_new ''t1'' ''k1'' ()" IoOk] by (simp_all add: chain_new_def)
  note 2 = append_in_memory [OF h(2) 1(2,3), of IoOk]
  note 3 = checkpoint_in_memory [OF 2(2,3,4), of sample_audit_env IoOk 5]
  show "length (ch_entries sample_chain) = 2" "ch_checkpoints sample_chain \<noteq> []"
    using 1(1) 2(1) 3 by (simp_all add: sample_chain_def)
qed

lemma steps_verify:
  assumes "audit_laws k" and "audit_steps k ch0 ch" "chain_inv k key_id key ch0" "\<not> ch_poisoned ch0"
    and "length (ch_entries ch) < 2 ^ 64" and "hm_get trusted key_id = Some (ak_public k key)"
  shows "chain_export ch = Inr \<lparr>ab_tenant_id = ch_tenant_id ch, ab_entries = ch_entries ch, ab_checkpoints = ch_checkpoints ch\<rparr> \<and>
    report_is_valid (verify_bundle k trusted \<lparr>ab_tenant_id = ch_tenant_id ch, ab_entries = ch_entries ch, ab_checkpoints = ch_checkpoints ch\<rparr>)"
proof -
  have inv: "chain_inv k key_id key ch"
    using chain_steps_inv [OF assms(2,1,3,5)] .
  then have "\<forall>cp \<in> set (ch_checkpoints ch). checkpoint_sound k trusted (ch_entries ch) cp"
    using checkpoint_signed_sound [OF assms(1,6)] by (auto simp: chain_inv_def)
  moreover have c: "chained k 0 None (ch_entries ch)" using inv by (simp add: chain_inv_def)
  moreover have "distinct (map ae_sequence (ch_entries ch))"
    using chained_distinct [OF c less_imp_le [OF assms(5)]] .
  moreover have "\<not> ch_poisoned ch" using chain_steps_poisoned [OF assms(2)] assms(4) by simp
  ultimately show ?thesis by (simp add: chain_export_def verify_valid_iff)
qed

section \<open>Recovery\<close>

definition record_line :: "string \<Rightarrow> bool" where
  "record_line l \<longleftrightarrow> l \<noteq> [] \<and> hd l = CHR ''{'' \<and> last l = CHR ''}'' \<and> CHR 0x0A \<notin> set l"

definition file_text :: "string list \<Rightarrow> string" where
  "file_text ls = concat (map (\<lambda>l. l @ [CHR 0x0A]) ls)"

lemma file_text_append [simp]: "file_text (ls @ [l]) = file_text ls @ l @ [CHR 0x0A]"
  by (simp add: file_text_def)

lemma file_text_join: "file_text ls = join_with [CHR 0x0A] (ls @ [[]])"
  by (induction ls) (simp_all add: file_text_def join_with_Cons)

lemma record_line_kept: "record_line l \<Longrightarrow> strip_cr l = l \<and> trim l = l"
proof -
  assume l: "record_line l"
  have "\<not> is_whitespace (CHR ''{'')" "\<not> is_whitespace (CHR ''}'')" by code_simp+
  with l have "trim_start l = l" "trim_end_matches is_whitespace l = l"
    by (cases l; simp add: record_line_def trim_start_def trim_end_matches_id)+
  with l show ?thesis by (simp add: trim_def strip_cr_def record_line_def)
qed

lemma file_lines_text:
  assumes "\<And>l. l \<in> set ls \<Longrightarrow> record_line l"
  shows "file_lines (file_text ls) = ls"
proof -
  have "split_on (\<lambda>c. c = CHR 0x0A) (join_with [CHR 0x0A] (ls @ [[]])) = ls @ [[]]"
    using assms by (intro split_on_join) (auto simp: record_line_def)
  moreover have "map strip_cr ls = ls" using assms record_line_kept by (simp add: map_idI)
  ultimately show ?thesis by (simp add: file_lines_def file_text_join)
qed

definition readable :: "('a \<Rightarrow> string) \<Rightarrow> (string \<Rightarrow> 'a option) \<Rightarrow> 'a list \<Rightarrow> bool" where
  "readable line parse vs \<longleftrightarrow> (\<forall>v \<in> set vs. record_line (line v) \<and> parse (line v) = Some v)"

lemma read_records_lines: "readable line parse vs \<Longrightarrow> read_records parse i (map line vs) = Inr vs"
proof (induction vs arbitrary: i)
  case (Cons v vs)
  then have "trim (line v) \<noteq> []" using record_line_kept [of "line v"] by (auto simp: readable_def record_line_def)
  with Cons show ?case by (simp add: readable_def)
qed simp

lemma read_file:
  assumes "readable line parse vs"
  shows "read_records parse i (file_lines (file_text (map line vs))) = Inr vs"
proof -
  have "file_lines (file_text (map line vs)) = map line vs"
    using assms by (intro file_lines_text) (auto simp: readable_def)
  with read_records_lines [OF assms] show ?thesis by simp
qed

definition file_of :: "('sk, 'vk) audit_env \<Rightarrow> AuditEntry list \<Rightarrow> Checkpoint list \<Rightarrow> FileAuditSink" where
  "file_of k es cs = \<lparr>fs_entries = file_text (map (ak_entry_line k) es),
     fs_checkpoints = file_text (map (ak_checkpoint_line k) cs), fs_poisoned = False\<rparr>"

definition readable_log :: "('sk, 'vk) audit_env \<Rightarrow> AuditEntry list \<Rightarrow> Checkpoint list \<Rightarrow> bool" where
  "readable_log k es cs \<longleftrightarrow>
     readable (ak_entry_line k) (ak_entry_parse k) es \<and> readable (ak_checkpoint_line k) (ak_checkpoint_parse k) cs"

lemma sink_load_file_of: "readable_log k es cs \<Longrightarrow> sink_load k (file_of k es cs) = Inr (es, cs)"
  by (simp add: sink_load_def file_of_def readable_log_def read_file)

text \<open>
  A run: appends and checkpoints, each with the outcome of its write; and what the callers were told, the events with the
  envelopes that were returned and the checkpoints that were returned.
\<close>

datatype audit_op = AppendEvent io_outcome VigilSecurityEvent | SignHead io_outcome timestamp

primrec audit_op_step :: "('sk, 'vk) audit_env \<Rightarrow> audit_op \<Rightarrow> 'sk AuditChain \<Rightarrow> 'sk AuditChain" where
  "audit_op_step k (AppendEvent io ev) ch = snd (chain_append k io ev ch)"
| "audit_op_step k (SignHead io now) ch = snd (chain_checkpoint k io now ch)"

primrec op_event :: "('sk, 'vk) audit_env \<Rightarrow> 'sk AuditChain \<Rightarrow> audit_op \<Rightarrow> VigilSecurityEvent list" where
  "op_event k ch (AppendEvent io ev) =
     (case fst (chain_append k io ev ch) of Inl _ \<Rightarrow> [] | Inr envelope \<Rightarrow> [ev\<lparr>se_integrity := Some envelope\<rparr>])"
| "op_event k ch (SignHead io now) = []"

primrec op_checkpoint :: "('sk, 'vk) audit_env \<Rightarrow> 'sk AuditChain \<Rightarrow> audit_op \<Rightarrow> Checkpoint list" where
  "op_checkpoint k ch (AppendEvent io ev) = []"
| "op_checkpoint k ch (SignHead io now) =
     (case fst (chain_checkpoint k io now ch) of Inl _ \<Rightarrow> [] | Inr cp \<Rightarrow> [cp])"

fun acknowledged :: "('sk, 'vk) audit_env \<Rightarrow> audit_op list \<Rightarrow> 'sk AuditChain \<Rightarrow> VigilSecurityEvent list \<times> Checkpoint list" where
  "acknowledged k [] ch = ([], [])"
| "acknowledged k (a # ops) ch =
     (case acknowledged k ops (audit_op_step k a ch) of
        (evs, cps) \<Rightarrow> (op_event k ch a @ evs, op_checkpoint k ch a @ cps))"

definition audit_run :: "('sk, 'vk) audit_env \<Rightarrow> audit_op list \<Rightarrow> 'sk AuditChain \<Rightarrow> 'sk AuditChain" where
  "audit_run k ops ch = fold (audit_op_step k) ops ch"

definition on_file :: "('sk, 'vk) audit_env \<Rightarrow> 'sk AuditChain \<Rightarrow> bool" where
  "on_file k ch \<longleftrightarrow> ch_sink ch = Some (file_of k (ch_entries ch) (ch_checkpoints ch)) \<and> \<not> ch_poisoned ch"

definition chain_on_file :: "string \<Rightarrow> string \<Rightarrow> 'sk \<Rightarrow> 'sk AuditChain" where
  "chain_on_file tenant key_id key =
     (chain_new tenant key_id key)\<lparr>ch_sink := Some \<lparr>fs_entries = [], fs_checkpoints = [], fs_poisoned = False\<rparr>\<rparr>"

lemma on_file_new: "on_file k (chain_on_file tenant key_id key)"
  by (simp add: on_file_def chain_on_file_def chain_new_def file_of_def file_text_def)

text \<open>A write that succeeded, or failed before a byte of the record reached the file.\<close>

definition clean_write :: "io_outcome \<Rightarrow> bool" where
  "clean_write io \<longleftrightarrow> io = IoOk \<or> io = IoFailed 0"

primrec clean_op :: "audit_op \<Rightarrow> bool" where
  "clean_op (AppendEvent io ev) = clean_write io"
| "clean_op (SignHead io now) = clean_write io"

lemma on_file_append: "on_file k ch \<Longrightarrow> clean_write io \<Longrightarrow> on_file k (snd (chain_append k io ev ch))"
  by (auto simp: clean_write_def on_file_def chain_append_def sink_append_def append_line_def file_of_def Let_def split: sum.split)

lemma on_file_checkpoint: "on_file k ch \<Longrightarrow> clean_write io \<Longrightarrow> on_file k (snd (chain_checkpoint k io now ch))"
  by (auto simp: clean_write_def on_file_def chain_checkpoint_def sink_append_checkpoint_def append_line_def file_of_def Let_def
      split: sum.split option.split)

lemma audit_op_step_step: "audit_step k ch (audit_op_step k a ch)"
  by (cases a) (simp_all add: audit_step_append audit_step_checkpoint)

lemma audit_run_steps: "audit_steps k ch (audit_run k ops ch)"
proof (induction ops rule: rev_induct)
  case (snoc a ops)
  then show ?case using audit_steps.more [OF _ audit_op_step_step] by (simp add: audit_run_def)
qed (simp add: audit_run_def audit_steps.none)

lemma on_file_run: "on_file k ch \<Longrightarrow> list_all clean_op ops \<Longrightarrow> on_file k (audit_run k ops ch)"
proof (induction ops rule: rev_induct)
  case (snoc a ops)
  then show ?case by (cases a) (simp_all add: audit_run_def on_file_append on_file_checkpoint)
qed (simp add: audit_run_def)

lemma op_step_told:
  "map ae_event (ch_entries (audit_op_step k a ch)) = map ae_event (ch_entries ch) @ op_event k ch a"
  "ch_checkpoints (audit_op_step k a ch) = ch_checkpoints ch @ op_checkpoint k ch a"
proof -
  have append: "map ae_event (ch_entries ch') = map ae_event (ch_entries ch) @ op_event k ch (AppendEvent io ev) \<and>
      ch_checkpoints ch' = ch_checkpoints ch" if "chain_append k io ev ch = (x, ch')" for io ev x ch'
    using that by (cases rule: chain_append_cases) (simp_all add: that)
  have sign: "ch_checkpoints ch' = ch_checkpoints ch @ op_checkpoint k ch (SignHead io now) \<and> ch_entries ch' = ch_entries ch"
    if "chain_checkpoint k io now ch = (x, ch')" for io now x ch'
    using that by (cases rule: chain_checkpoint_cases) (simp_all add: that)
  show "map ae_event (ch_entries (audit_op_step k a ch)) = map ae_event (ch_entries ch) @ op_event k ch a"
    "ch_checkpoints (audit_op_step k a ch) = ch_checkpoints ch @ op_checkpoint k ch a"
    using append sign by (cases a; simp; metis prod.collapse)+
qed

text \<open>The log holds what its callers were told, in this order.\<close>

lemma run_told:
  "(map ae_event (ch_entries (audit_run k ops ch)), ch_checkpoints (audit_run k ops ch)) =
     (map ae_event (ch_entries ch) @ fst (acknowledged k ops ch), ch_checkpoints ch @ snd (acknowledged k ops ch))"
proof (induction ops arbitrary: ch)
  case (Cons a ops)
  have "audit_run k (a # ops) ch = audit_run k ops (audit_op_step k a ch)" by (simp add: audit_run_def)
  then show ?case using Cons.IH [of "audit_op_step k a ch"] by (simp add: op_step_told split: prod.splits)
qed (simp add: audit_run_def)

text \<open>A chain as it starts: in memory only, or on an empty file.\<close>

definition chain_started :: "('sk, 'vk) audit_env \<Rightarrow> string \<Rightarrow> string \<Rightarrow> 'sk \<Rightarrow> 'sk AuditChain \<Rightarrow> bool" where
  "chain_started k tenant key_id key ch \<longleftrightarrow>
     ch = chain_new tenant key_id key \<or>
     (\<exists>s. fs_entries s = [] \<and> fs_checkpoints s = [] \<and> chain_with_sink k s (chain_new tenant key_id key) = Inr ch)"

lemma chain_started_empty:
  assumes "chain_started k tenant key_id key ch"
  shows "chain_inv k key_id key ch" "\<not> ch_poisoned ch" "ch_entries ch = []" "ch_checkpoints ch = []"
proof -
  have "file_lines [] = []" by (simp add: file_lines_def)
  then have "sink_load k s = Inr ([], [])" if "fs_entries s = []" "fs_checkpoints s = []" for s
    using that by (simp add: sink_load_def)
  then obtain sink where "ch = (chain_new tenant key_id key)\<lparr>ch_sink := sink\<rparr>"
    using assms by (auto simp: chain_started_def chain_with_sink_def chain_new_def next_after_def head_after_def)
  then show "chain_inv k key_id key ch" "\<not> ch_poisoned ch" "ch_entries ch = []" "ch_checkpoints ch = []"
    by (simp_all add: chain_inv_def chain_new_def head_after_def)
qed

lemma chain_step_names: "audit_step k ch ch' \<Longrightarrow> ch_tenant_id ch' = ch_tenant_id ch"
  by (erule audit_step.cases; erule chain_append_cases chain_checkpoint_cases; simp)

lemma chain_steps_tenant: "audit_steps k ch ch' \<Longrightarrow> ch_tenant_id ch' = ch_tenant_id ch"
  by (induction rule: audit_steps.induct) (simp_all add: chain_step_names)

lemma next_after_chained:
  assumes "chained k 0 None es"
  shows "next_after es = of_nat (length es)"
proof (cases es rule: rev_cases)
  case (snoc xs x)
  then show ?thesis using assms by (simp add: next_after_def chained_append)
qed (simp add: next_after_def)

lemma chain_inv_on_file: "chain_inv k key_id key (chain_on_file tenant key_id key)"
  by (simp add: chain_inv_def chain_on_file_def chain_new_def head_after_def)

text \<open>The entry an append makes.\<close>

definition new_entry :: "('sk, 'vk) audit_env \<Rightarrow> 'sk AuditChain \<Rightarrow> VigilSecurityEvent \<Rightarrow> AuditEntry" where
  "new_entry k ch ev =
     (let h = projr (event_content_hash k ev);
          c = projr (link_hash k (ch_next_sequence ch) h (ch_head ch))
      in \<lparr>ae_sequence = ch_next_sequence ch, ae_event = ev\<lparr>se_integrity := Some
            \<lparr>ie_sequence = ch_next_sequence ch, ie_event_hash = h, ie_previous_hash = ch_head ch, ie_checkpoint_signature = None\<rparr>\<rparr>,
          ae_chain_hash = c, ae_previous_hash = ch_head ch\<rparr>)"

lemma new_entry_appended:
  assumes "on_file k ch" "event_content_hash k ev = Inr h"
  shows "ch_entries (snd (chain_append k IoOk ev ch)) = ch_entries ch @ [new_entry k ch ev]"
proof -
  obtain c where "link_hash k (ch_next_sequence ch) h (ch_head ch) = Inr c" using link_hash_total by blast
  with assms show ?thesis
    by (simp add: on_file_def chain_append_def sink_append_def append_line_def new_entry_def file_of_def Let_def)
qed

definition sample_on_file :: "unit AuditChain" where
  "sample_on_file = chain_on_file ''t1'' ''k1'' ()"

definition sample_reader :: "(unit, unit) audit_env" where
  "sample_reader = sample_audit_env\<lparr>ak_entry_parse := (\<lambda>l.
     if l = ''{e0}'' then Some (new_entry sample_audit_env sample_on_file (sample_event ''e0''))
     else Some (new_entry sample_audit_env sample_on_file (sample_event ''e1'')))\<rparr>"

lemma sample_reader_writes:
  "event_content_hash sample_reader ev = event_content_hash sample_audit_env ev"
  "link_hash sample_reader n h p = link_hash sample_audit_env n h p"
  by (simp_all add: sample_reader_def event_content_hash_def integrity_payload_def link_hash_def)

lemma sample_reader_entry: "new_entry sample_reader ch ev = new_entry sample_audit_env ch ev"
  by (simp add: new_entry_def sample_reader_writes)

lemma sample_line: "ak_entry_line sample_reader (new_entry k ch (sample_event i)) = ''{'' @ i @ ''}''"
  by (simp add: sample_reader_def sample_audit_env_def new_entry_def sample_event_def Let_def)

lemma sample_readable:
  "readable_log sample_reader [new_entry sample_reader sample_on_file (sample_event ''e0''),
     new_entry sample_reader sample_on_file (sample_event ''e1'')] []"
  "readable_log sample_reader [new_entry sample_reader sample_on_file (sample_event ''e0'')] []"
  by (simp_all add: readable_log_def readable_def sample_line sample_reader_entry record_line_def)
     (simp_all add: sample_reader_def)

lemma sample_reader_laws: "audit_laws sample_reader"
  using sample_audit_laws by (simp add: audit_laws_def sample_reader_def integrity_payload_def)

section \<open>Properties\<close>

text \<open>
  Verification accepts exactly the linked logs. A report has no failure when and only when the
  sequence numbers count up from zero without repetition, every event hashes to its recorded hash, every
  chain hash commits to the sequence, the event and the previous chain hash, and every checkpoint bears a
  valid signature of a trusted key over a chain hash the log shows at that sequence.
\<close>

theorem verify_bundle_exact:
  "report_is_valid (verify_bundle k trusted b) \<longleftrightarrow>
     chained k 0 None (ab_entries b) \<and> distinct (map ae_sequence (ab_entries b)) \<and>
     list_all (checkpoint_sound k trusted (ab_entries b)) (ab_checkpoints b)"
  by (simp add: verify_valid_iff list_all_iff)

text \<open>
  C11: the log holds what was acknowledged and verifies. A chain is started in memory or on an empty file; events are appended
  and heads signed in any order, and the write of any record succeeds, fails after any part of it reached the file, or
  fails to synchronize. Then the export holds exactly the events whose append returned an envelope and the checkpoints that were
  returned, in this order, and passes verification under the public key of the chain.
\<close>

theorem audit_log_verifies:
  assumes "audit_laws k" and "chain_started k tenant key_id key ch0" and "ch = audit_run k ops ch0"
    and "length (ch_entries ch) < 2 ^ 64" and "hm_get trusted key_id = Some (ak_public k key)"
  shows "\<exists>b. chain_export ch = Inr b \<and> report_is_valid (verify_bundle k trusted b) \<and>
    (map ae_event (ab_entries b), ab_checkpoints b) = acknowledged k ops ch0"
proof -
  note start = chain_started_empty [OF assms(2)]
  have "audit_steps k ch0 ch" unfolding assms(3) by (rule audit_run_steps)
  from steps_verify [OF assms(1) this start(1,2) assms(4,5)] run_told [of k ops ch0] show ?thesis
    by (simp add: start(3,4) assms(3) prod_eq_iff)
qed

definition sample_ops :: "audit_op list" where
  "sample_ops = [AppendEvent IoOk (sample_event ''e0''), AppendEvent (IoFailed 3) (sample_event ''e1''),
     AppendEvent IoOk (sample_event ''e1'')]"

lemma sample_on_file_started: "chain_started sample_reader ''t1'' ''k1'' () sample_on_file"
proof -
  have "file_lines [] = []" by (simp add: file_lines_def)
  then have "sink_load sample_reader \<lparr>fs_entries = [], fs_checkpoints = [], fs_poisoned = False\<rparr> = Inr ([], [])"
    by (simp add: sink_load_def)
  then show ?thesis
    by (auto simp: chain_started_def chain_with_sink_def sample_on_file_def chain_on_file_def chain_new_def next_after_def head_after_def
        intro!: exI [of _ "\<lparr>fs_entries = [], fs_checkpoints = [], fs_poisoned = False\<rparr>"])
qed

lemma append_on_sink:
  assumes "ch_sink ch = Some s" "\<not> fs_poisoned s" "\<not> ch_poisoned ch" "event_content_hash k ev = Inr h"
  shows "length (ch_entries (snd (chain_append k io ev ch))) = length (ch_entries ch) + (if io = IoOk then 1 else 0)"
    "\<not> ch_poisoned (snd (chain_append k io ev ch))"
    "\<exists>s. ch_sink (snd (chain_append k io ev ch)) = Some s \<and> \<not> fs_poisoned s"
proof -
  obtain c where "link_hash k (ch_next_sequence ch) h (ch_head ch) = Inr c" using link_hash_total by blast
  then show "length (ch_entries (snd (chain_append k io ev ch))) = length (ch_entries ch) + (if io = IoOk then 1 else 0)"
    "\<not> ch_poisoned (snd (chain_append k io ev ch))"
    "\<exists>s. ch_sink (snd (chain_append k io ev ch)) = Some s \<and> \<not> fs_poisoned s"
    using assms by (cases io; simp add: chain_append_def sink_append_def append_line_def Let_def)+
qed

lemma sample_ops_shape: "length (ch_entries (audit_run sample_reader sample_ops sample_on_file)) = 2"
proof -
  obtain h0 h1 where h: "event_content_hash sample_reader (sample_event ''e0'') = Inr h0"
    "event_content_hash sample_reader (sample_event ''e1'') = Inr h1"
    using sample_event_hash sample_reader_writes(1) by metis
  let ?c1 = "snd (chain_append sample_reader IoOk (sample_event ''e0'') sample_on_file)"
  let ?c2 = "snd (chain_append sample_reader (IoFailed 3) (sample_event ''e1'') ?c1)"
  have 0: "ch_sink sample_on_file = Some \<lparr>fs_entries = [], fs_checkpoints = [], fs_poisoned = False\<rparr>" "\<not> ch_poisoned sample_on_file"
    "ch_entries sample_on_file = []"
    by (simp_all add: sample_on_file_def chain_on_file_def chain_new_def)
  note 1 = append_on_sink [OF 0(1) _ 0(2) h(1), of IoOk]
  obtain s1 where s1: "ch_sink ?c1 = Some s1" "\<not> fs_poisoned s1" using 1(3) by auto
  note 2 = append_on_sink [OF s1 _ h(2), of "IoFailed 3"]
  obtain s2 where s2: "ch_sink ?c2 = Some s2" "\<not> fs_poisoned s2" using 1(2) 2(3) by auto
  note 3 = append_on_sink [OF s2 _ h(2), of IoOk]
  show ?thesis using 1 2 3 0(3) by (simp add: audit_run_def sample_ops_def)
qed

theorem audit_log_verifies_witness:
  "length (ch_entries (audit_run sample_reader sample_ops sample_on_file)) = 2 \<and>
   (\<exists>b. chain_export (audit_run sample_reader sample_ops sample_on_file) = Inr b \<and>
      report_is_valid (verify_bundle sample_reader [(''k1'', ())] b))"
proof -
  have "ak_public sample_reader () = ()" by simp
  then show ?thesis
    using audit_log_verifies [OF sample_reader_laws sample_on_file_started refl, where ops = sample_ops and trusted = "[(''k1'', ())]"] sample_ops_shape
    by (auto simp: hm_get_def)
qed

text \<open>
  C10: tamper evidence. Take any bundle that verifies under the key of an honest chain whose signatures
  cannot be forged. Unless the digest has a collision, every entry of the bundle up to any of its
  checkpoints has the content the honest chain recorded at that position: nothing there was altered,
  inserted, removed or reordered.
\<close>

theorem verified_prefix_authentic:
  assumes "decimal_rendering (ak_format k)" and "audit_laws k"
    and "audit_steps k (chain_new tenant key_id key) ch" and "length (ch_entries ch) < 2 ^ 64"
    and "unforged k key ch b"
    and "report_is_valid (verify_bundle k [(key_id, ak_public k key)] b)" and "cp \<in> set (ab_checkpoints b)"
  shows "collision (ak_sha k) \<or>
     (\<exists>n. n < length (ab_entries b) \<and> n < length (ch_entries ch) \<and> cp_chain_hash cp = ae_chain_hash (ab_entries b ! n) \<and>
        (\<forall>i \<le> n. jnorm (integrity_payload k (ae_event (ab_entries b ! i))) =
                   jnorm (integrity_payload k (ae_event (ch_entries ch ! i)))))"
proof (cases "collision (ak_sha k)")
  case False
  have inv: "chain_inv k key_id key ch"
    using chain_steps_inv [OF assms(3,2) chain_inv_new assms(4)] .
  have b: "chained k 0 None (ab_entries b)" "checkpoint_sound k [(key_id, ak_public k key)] (ab_entries b) cp"
    using assms(6,7) by (auto simp: verify_valid_iff)
  then obtain m where m: "checkpoint_payload k cp = Inr m" "signature_ok k (ak_public k key) m (cp_signature cp)"
    by (auto simp: checkpoint_sound_def checkpoint_payload_def hm_get_def split: if_splits)
  then obtain cp' where cp': "cp' \<in> set (ch_checkpoints ch)" "checkpoint_payload k cp' = Inr m"
    using assms(5,7) unfolding unforged_def by blast
  have "cp_chain_hash cp' = cp_chain_hash cp" 
    using payload_commits(3) [OF assms(1)] cp'(2) m(1) by (auto simp: checkpoint_payload_def)
  moreover have "committed_at (ch_entries ch) (cp_sequence cp') (cp_chain_hash cp')"
    using inv cp'(1) by (simp add: chain_inv_def)
  ultimately obtain j where j: "j < length (ch_entries ch)" "ae_chain_hash (ch_entries ch ! j) = cp_chain_hash cp"
    using committed_nth by metis
  obtain n where n: "n < length (ab_entries b)" "ae_chain_hash (ab_entries b ! n) = cp_chain_hash cp"
    using b(2) committed_nth unfolding checkpoint_sound_def by blast
  have c: "chained k 0 None (ch_entries ch)" using inv by (simp add: chain_inv_def)
  from chains_agree [OF assms(1) False b(1) c n(1) j(1)] n j show ?thesis by auto
qed simp

theorem verified_prefix_authentic_witness:
  "\<exists>b cp n. chain_export sample_chain = Inr b \<and> cp \<in> set (ab_checkpoints b) \<and> n < length (ab_entries b) \<and>
     cp_chain_hash cp = ae_chain_hash (ab_entries b ! n)"
proof -
  obtain b where b: "chain_export sample_chain = Inr b" "report_is_valid (verify_bundle sample_audit_env [(''k1'', ())] b)"
    using steps_verify [OF sample_audit_laws sample_steps chain_inv_new, of "[(''k1'', ())]"] sample_chain_shape(1)
    by (auto simp: hm_get_def chain_new_def)
  then have same: "ab_checkpoints b = ch_checkpoints sample_chain" by (auto simp: chain_export_def split: if_splits)
  then obtain cp where cp: "cp \<in> set (ab_checkpoints b)" using sample_chain_shape(2) by (metis hd_in_set)
  have u: "unforged sample_audit_env () sample_chain b" using same by (auto simp: unforged_def)
  have d: "decimal_rendering (ak_format sample_audit_env)"
    using sample_format_decimal by (simp add: sample_audit_env_def)
  have l: "length (ch_entries sample_chain) < 2 ^ 64" using sample_chain_shape(1) by simp
  have v: "report_is_valid (verify_bundle sample_audit_env [(''k1'', ak_public sample_audit_env ())] b)"
    using b(2) by simp
  from verified_prefix_authentic [OF d sample_audit_laws sample_steps l u v cp] sample_no_collision b(1) cp
  show ?thesis by blast
qed

text \<open>
  The recorded back links are not evidence. Changing the \<^verbatim>\<open>previous_hash\<close> of any entries and the tenant
  of the bundle changes nothing in the report: verification recomputes the links and never reads them.
\<close>

theorem verify_ignores_recorded_links:
  "verify_bundle k trusted (b\<lparr>ab_tenant_id := t, ab_entries := map (\<lambda>en. en\<lparr>ae_previous_hash := p en\<rparr>) (ab_entries b)\<rparr>) =
     verify_bundle k trusted b"
proof -
  let ?f = "\<lambda>en. en\<lparr>ae_previous_hash := p en\<rparr>"
  have "verify_entry k v (?f en) = verify_entry k v en" for v en
    by (simp add: verify_entry_def entry_failures_def Let_def split: sum.splits)
  then have "foldl (verify_entry k) v (map ?f es) = foldl (verify_entry k) v es" for v es
    by (induction es arbitrary: v) simp_all
  then show ?thesis by (simp add: verify_bundle_def last_map)
qed

text \<open>
  C12: a restart resumes the chain, unless a failed write left something behind. When the chain was started on an empty file, every
  write succeeded or failed before a byte of its record reached the file, and every record that was written is one line that
  parses back to it, then a fresh process that opens the file gets back the entries, the checkpoints, the next sequence number and the
  head of the process that wrote it, so that no second chain is started.
\<close>

theorem restart_resumes_chain:
  assumes "audit_laws k" and "list_all clean_op ops" and "ch = audit_run k ops (chain_on_file tenant key_id key)"
    and "length (ch_entries ch) < 2 ^ 64" and "readable_log k (ch_entries ch) (ch_checkpoints ch)"
  shows "\<exists>s. ch_sink ch = Some s \<and> chain_with_sink k s (chain_new tenant key_id key) = Inr ch"
proof -
  have steps: "audit_steps k (chain_on_file tenant key_id key) ch"
    unfolding assms(3) by (rule audit_run_steps)
  have inv: "chain_inv k key_id key ch"
    using chain_steps_inv [OF steps assms(1) chain_inv_on_file assms(4)] .
  have f: "on_file k ch" unfolding assms(3) by (rule on_file_run [OF on_file_new assms(2)])
  have "ch_tenant_id ch = tenant" using chain_steps_tenant [OF steps] by (simp add: chain_on_file_def chain_new_def)
  then show ?thesis
    using inv f sink_load_file_of [OF assms(5)] next_after_chained [of k "ch_entries ch"]
    by (simp add: on_file_def chain_inv_def chain_with_sink_def chain_new_def)
qed

theorem restart_resumes_chain_witness:
  "let ops = [AppendEvent IoOk (sample_event ''e0''), AppendEvent (IoFailed 0) (sample_event ''e1'')]
   in \<exists>s. ch_sink (audit_run sample_reader ops sample_on_file) = Some s \<and>
     chain_with_sink sample_reader s (chain_new ''t1'' ''k1'' ()) = Inr (audit_run sample_reader ops sample_on_file)"
proof -
  let ?ops = "[AppendEvent IoOk (sample_event ''e0''), AppendEvent (IoFailed 0) (sample_event ''e1'')]"
  let ?c1 = "snd (chain_append sample_reader IoOk (sample_event ''e0'') sample_on_file)"
  have f: "on_file sample_reader sample_on_file" unfolding sample_on_file_def by (rule on_file_new)
  have f1: "on_file sample_reader ?c1" by (rule on_file_append [OF f]) (simp add: clean_write_def)
  obtain h where h: "event_content_hash sample_reader (sample_event ''e0'') = Inr h"
    using sample_event_hash sample_reader_writes(1) by metis
  have "ch_entries ?c1 = [new_entry sample_reader sample_on_file (sample_event ''e0'')]" "ch_checkpoints ?c1 = []"
    using new_entry_appended [OF f h] op_step_told(2) [of sample_reader "AppendEvent IoOk (sample_event ''e0'')" sample_on_file]
    by (simp_all add: sample_on_file_def chain_on_file_def chain_new_def)
  moreover have "chain_append sample_reader (IoFailed 0) ev ch = (x, ch') \<Longrightarrow> on_file sample_reader ch \<Longrightarrow>
      ch_entries ch' = ch_entries ch \<and> ch_checkpoints ch' = ch_checkpoints ch" for ev ch x ch'
    by (auto simp: on_file_def chain_append_def sink_append_def append_line_def Let_def file_of_def split: sum.splits)
  ultimately have "ch_entries (audit_run sample_reader ?ops sample_on_file) = [new_entry sample_reader sample_on_file (sample_event ''e0'')]"
    "ch_checkpoints (audit_run sample_reader ?ops sample_on_file) = []"
    using f1 by (simp_all add: audit_run_def) (metis prod.collapse)+
  then show ?thesis
    using restart_resumes_chain [OF sample_reader_laws _ refl, of ?ops "''t1''" "''k1''" "()"] sample_readable(2)
    by (simp add: sample_on_file_def clean_write_def)
qed

text \<open>
  A failed synchronization forks the log. If the line of an entry reached the file but its
  synchronization was reported as failed, the chain does not advance, and the next successful append
  writes a second entry with the same sequence number: a process that reopens the readable file holds a
  log that does not verify.
\<close>

theorem failed_sync_forks_log:
  assumes "on_file k ch" and "event_content_hash k ev = Inr h" and "event_content_hash k ev' = Inr h'"
  defines "ch2 \<equiv> snd (chain_append k IoOk ev' (snd (chain_append k SyncFailed ev ch)))"
    and "es \<equiv> ch_entries ch @ [new_entry k ch ev, new_entry k ch ev']"
  shows "ch_sink ch2 = Some (file_of k es (ch_checkpoints ch)) \<and>
     (readable_log k es (ch_checkpoints ch) \<longrightarrow>
        (\<exists>ch3 b. chain_with_sink k (file_of k es (ch_checkpoints ch)) (chain_new tenant key_id key) = Inr ch3 \<and>
           chain_export ch3 = Inr b \<and> \<not> report_is_valid (verify_bundle k trusted b)))"
proof -
  obtain c where c: "link_hash k (ch_next_sequence ch) h (ch_head ch) = Inr c" using link_hash_total by blast
  obtain c' where c': "link_hash k (ch_next_sequence ch) h' (ch_head ch) = Inr c'" using link_hash_total by blast
  have "ch_sink ch2 = Some (file_of k es (ch_checkpoints ch))"
    using assms(1-3) c c' unfolding ch2_def es_def
    by (simp add: on_file_def chain_append_def sink_append_def append_line_def file_of_def file_text_def new_entry_def Let_def)
  moreover have "\<not> report_is_valid (verify_bundle k trusted \<lparr>ab_tenant_id = t, ab_entries = es, ab_checkpoints = cs\<rparr>)" for t cs
    by (simp add: verify_valid_iff es_def new_entry_def Let_def)
  ultimately show ?thesis
    by (simp add: chain_with_sink_def sink_load_file_of chain_new_def chain_export_def)
qed

theorem failed_sync_forks_log_witness:
  "\<exists>ch3 b. chain_with_sink sample_reader (file_of sample_reader [new_entry sample_reader sample_on_file (sample_event ''e0''),
        new_entry sample_reader sample_on_file (sample_event ''e1'')] []) (chain_new ''t1'' ''k1'' ()) = Inr ch3 \<and>
     chain_export ch3 = Inr b \<and> \<not> report_is_valid (verify_bundle sample_reader [(''k1'', ())] b)"
proof -
  have f: "on_file sample_reader sample_on_file" unfolding sample_on_file_def by (rule on_file_new)
  have e: "ch_entries sample_on_file = []" "ch_checkpoints sample_on_file = []"
    by (simp_all add: sample_on_file_def chain_on_file_def chain_new_def)
  obtain h h' where h: "event_content_hash sample_reader (sample_event ''e0'') = Inr h"
    "event_content_hash sample_reader (sample_event ''e1'') = Inr h'"
    using sample_event_hash sample_reader_writes(1) by metis
  show ?thesis
    using failed_sync_forks_log [OF f h, of "''t1''" "''k1''" "()" "[(''k1'', ())]"] sample_readable
    by (simp add: e)
qed

end
