(* ===== verification/Paths.thy ===== *)
theory Paths
  imports Prelude
begin

text \<open>
  Lexical path normalization and containment, \<^verbatim>\<open>vigil-common/src/path.rs\<close>: \<open>normalize\<close> and
  \<open>is_inside_any\<close>. The containment test compares strings; the theory shows that for absolute roots
  it is containment of the resolved component lists. Resolution through the filesystem
  (\<open>path_resolve\<close>, \<open>is_inside_any_resolved\<close>) takes the canonicalization of the host as an argument.
\<close>

section \<open>Normalization\<close>

definition is_sep :: "char \<Rightarrow> bool" where
  "is_sep c = (c = CHR ''/'' \<or> c = CHR 0x5C)"

definition is_absolute :: "string \<Rightarrow> bool" where
  "is_absolute path = (case path of [] \<Rightarrow> False | c # _ \<Rightarrow> is_sep c)"

text \<open>One turn of the component loop of \<open>normalize\<close>.\<close>

definition norm_step :: "bool \<Rightarrow> string list \<Rightarrow> string \<Rightarrow> string list" where
  "norm_step absolute stack component =
     (if component = [] \<or> component = ''.'' then stack
      else if component = ''..'' then
        (if stack \<noteq> [] \<and> last stack \<noteq> ''..'' then butlast stack
         else if \<not> absolute then stack @ [''..'']
         else stack)
      else stack @ [component])"

definition norm_stack :: "string \<Rightarrow> string list" where
  "norm_stack path = foldl (norm_step (is_absolute path)) [] (split_on is_sep path)"

definition normalize :: "string \<Rightarrow> string" where
  "normalize path =
     (let joined = join_with ''/'' (norm_stack path)
      in if is_absolute path then ''/'' @ joined
         else if joined = [] then ''.''
         else joined)"

definition is_inside_any :: "string \<Rightarrow> string list \<Rightarrow> bool" where
  "is_inside_any path roots =
     (if roots = [] then False
      else let normalized = normalize path
           in list_ex (\<lambda>root.
                let root' = trim_end_matches (\<lambda>c. c = CHR ''/'') (normalize root)
                in normalized = root' \<or> starts_with normalized (root' @ ''/'')) roots)"

section \<open>Containment on the real filesystem\<close>

text \<open>
  \<^verbatim>\<open>resolve\<close> and \<^verbatim>\<open>is_inside_any_resolved\<close>. The filesystem is a parameter: what \<^verbatim>\<open>canonicalize\<close> returns for
  the text of a path, as the components of the real path.
\<close>

datatype Containment = Inside | Outside | Unresolved

definition path_text :: "bool \<Rightarrow> string list \<Rightarrow> string" where
  "path_text absolute components = (if absolute then ''/'' @ join_with ''/'' components else join_with ''/'' components)"

fun resolve_from :: "(string \<Rightarrow> string list option) \<Rightarrow> bool \<Rightarrow> string list \<Rightarrow> string list \<Rightarrow> string list option" where
  "resolve_from canon absolute [] tail = map_option (\<lambda>found. found @ tail) (canon (path_text absolute []))"
| "resolve_from canon absolute (c # cs) tail =
     (case canon (path_text absolute (rev (c # cs))) of
        Some found \<Rightarrow> Some (found @ tail)
      | None \<Rightarrow> if c = ''.'' \<or> c = ''..'' then None else resolve_from canon absolute cs (c # tail))"

definition path_resolve :: "(string \<Rightarrow> string list option) \<Rightarrow> string \<Rightarrow> string list option" where
  "path_resolve canon path =
     (let stack = norm_stack path
      in if \<not> is_absolute path \<and> stack = [] then canon ''.''
         else resolve_from canon (is_absolute path) (rev stack) [])"

definition is_inside_any_resolved :: "(string \<Rightarrow> string list option) \<Rightarrow> string \<Rightarrow> string list \<Rightarrow> Containment" where
  "is_inside_any_resolved canon path roots =
     (if roots = [] then Unresolved
      else case path_resolve canon path of
        None \<Rightarrow> Unresolved
      | Some resolved \<Rightarrow>
          let real_roots = List.map_filter (path_resolve canon) roots
          in if list_ex (\<lambda>root. prefix root resolved) real_roots then Inside
             else if real_roots \<noteq> [] then Outside
             else Unresolved)"

section \<open>The stack of components\<close>

definition plain_component :: "string \<Rightarrow> bool" where
  "plain_component w \<longleftrightarrow> w \<noteq> [] \<and> w \<noteq> ''.'' \<and> w \<noteq> ''..'' \<and> (\<forall>c \<in> set w. \<not> is_sep c)"

lemma plain_component_no_slash: "plain_component w \<Longrightarrow> CHR ''/'' \<notin> set w"
  by (auto simp: plain_component_def is_sep_def)

lemma norm_step_absolute_plain:
  assumes "\<forall>w \<in> set stack. plain_component w" and "\<forall>c \<in> set seg. \<not> is_sep c"
  shows "\<forall>w \<in> set (norm_step True stack seg). plain_component w"
  using assms
  by (auto simp: norm_step_def plain_component_def dest: in_set_butlastD split: if_splits)

lemma foldl_norm_step_plain:
  "\<forall>w \<in> set stack. plain_component w \<Longrightarrow> \<forall>seg \<in> set segs. \<forall>c \<in> set seg. \<not> is_sep c \<Longrightarrow>
     \<forall>w \<in> set (foldl (norm_step True) stack segs). plain_component w"
proof (induction segs arbitrary: stack)
  case Nil
  then show ?case by simp
next
  case (Cons seg segs)
  have "\<forall>w \<in> set (norm_step True stack seg). plain_component w"
    using Cons.prems by (intro norm_step_absolute_plain) auto
  with Cons show ?case by simp
qed

lemma norm_stack_plain: "is_absolute p \<Longrightarrow> w \<in> set (norm_stack p) \<Longrightarrow> plain_component w"
  using foldl_norm_step_plain [of "[]" "split_on is_sep p"] split_on_pieces
  by (auto simp: norm_stack_def)

lemma norm_step_no_sep:
  assumes "\<forall>w \<in> set stack. \<forall>c \<in> set w. \<not> is_sep c" and "\<forall>c \<in> set seg. \<not> is_sep c"
  shows "\<forall>w \<in> set (norm_step b stack seg). \<forall>c \<in> set w. \<not> is_sep c"
proof -
  have "set (norm_step b stack seg) \<subseteq> set stack \<union> {seg, ''..''}"
    using in_set_butlastD [of _ stack] by (auto simp: norm_step_def)
  moreover have "\<not> is_sep CHR ''.''" by (simp add: is_sep_def)
  ultimately show ?thesis using assms by fastforce
qed

lemma norm_stack_no_sep: "\<forall>w \<in> set (norm_stack p). \<forall>c \<in> set w. \<not> is_sep c"
proof -
  have "\<forall>seg \<in> set segs. \<forall>c \<in> set seg. \<not> is_sep c \<Longrightarrow>
      \<forall>w \<in> set stack. \<forall>c \<in> set w. \<not> is_sep c \<Longrightarrow>
      \<forall>w \<in> set (foldl (norm_step b) stack segs). \<forall>c \<in> set w. \<not> is_sep c" for b stack segs
  proof (induction segs arbitrary: stack)
    case Nil
    then show ?case by simp
  next
    case (Cons seg segs)
    have "\<forall>w \<in> set (norm_step b stack seg). \<forall>c \<in> set w. \<not> is_sep c"
      using Cons.prems by (intro norm_step_no_sep) auto
    with Cons show ?case by simp
  qed
  from this [of "split_on is_sep p" "[]" "is_absolute p"] show ?thesis
    using split_on_pieces [of _ is_sep p] by (simp add: norm_stack_def)
qed

lemma foldl_norm_step_id:
  "\<forall>w \<in> set ws. plain_component w \<Longrightarrow> foldl (norm_step b) stack ws = stack @ ws"
  by (induction ws arbitrary: stack) (auto simp: norm_step_def plain_component_def)

section \<open>Joined component lists\<close>

lemma join_append:
  "us \<noteq> [] \<Longrightarrow> vs \<noteq> [] \<Longrightarrow> join_with sep (us @ vs) = join_with sep us @ sep @ join_with sep vs"
  by (induction us rule: list_nonempty_induct) (auto simp: join_with_Cons)

lemma join_nonempty: "ws \<noteq> [] \<Longrightarrow> \<forall>w \<in> set ws. w \<noteq> [] \<Longrightarrow> join_with sep ws \<noteq> []"
  by (cases ws) (auto simp: join_with_Cons, cases "tl ws = []", auto simp: join_with_Cons)

lemma split_joined:
  "ws \<noteq> [] \<Longrightarrow> \<forall>w \<in> set ws. plain_component w \<Longrightarrow> split_on is_sep (join_with ''/'' ws) = ws"
  by (rule split_on_join) (auto simp: plain_component_def is_sep_def)

lemma join_inj:
  assumes "\<forall>w \<in> set us. plain_component w" and "\<forall>w \<in> set vs. plain_component w"
    and "join_with ''/'' us = join_with ''/'' vs"
  shows "us = vs"
proof (cases "us = [] \<or> vs = []")
  case True
  then show ?thesis
    using assms join_nonempty [of us "''/''"] join_nonempty [of vs "''/''"]
    unfolding plain_component_def by force
next
  case False
  then have "us = split_on is_sep (join_with ''/'' us)" "vs = split_on is_sep (join_with ''/'' vs)"
    using split_joined [of us] split_joined [of vs] assms(1,2) by auto
  with assms(3) show ?thesis by simp
qed

lemma join_prefix:
  assumes "\<forall>w \<in> set us. plain_component w" and "\<forall>w \<in> set vs. plain_component w" and "us \<noteq> []"
  shows "prefix (join_with ''/'' us @ ''/'') (join_with ''/'' vs) \<longleftrightarrow> strict_prefix us vs"
proof
  assume "prefix (join_with ''/'' us @ ''/'') (join_with ''/'' vs)"
  then obtain r where r: "join_with ''/'' vs = join_with ''/'' us @ CHR ''/'' # r"
    by (auto simp: prefix_def)
  then have vs: "vs \<noteq> []" by auto
  have "vs = split_on is_sep (join_with ''/'' us) @ split_on is_sep r"
    using split_joined [OF vs assms(2)] r split_on_append_sep [of is_sep "CHR ''/''"]
    by (simp add: is_sep_def)
  then have "vs = us @ split_on is_sep r" by (simp only: split_joined [OF assms(3,1)])
  then show "strict_prefix us vs" by (auto simp: strict_prefix_def)
next
  assume "strict_prefix us vs"
  then obtain ws where "vs = us @ ws" "ws \<noteq> []"
    by (auto simp: strict_prefix_def prefix_def)
  then show "prefix (join_with ''/'' us @ ''/'') (join_with ''/'' vs)"
    using assms(3) by (simp add: join_append prefix_def)
qed

lemma last_joined:
  assumes "ws \<noteq> []" and "\<forall>w \<in> set ws. plain_component w"
  shows "last (join_with ''/'' ws) \<noteq> CHR ''/''"
proof -
  have "last (join_with ''/'' ws) = last (last ws)"
    using assms
  proof (induction ws rule: list_nonempty_induct)
    case (single w)
    then show ?case by simp
  next
    case (cons w ws)
    then have "join_with ''/'' ws \<noteq> []"
      using join_nonempty [of ws "''/''"] by (auto simp: plain_component_def)
    with cons show ?case by (simp add: join_with_Cons)
  qed
  moreover have "plain_component (last ws)" using assms by simp
  ultimately show ?thesis
    using plain_component_no_slash by (metis last_in_set plain_component_def)
qed

section \<open>Absolute paths\<close>

lemma normalize_absolute:
  "is_absolute p \<Longrightarrow> normalize p = CHR ''/'' # join_with ''/'' (norm_stack p)"
  by (simp add: normalize_def)

lemma normalize_relative_head:
  assumes "\<not> is_absolute p"
  shows "\<exists>c s. normalize p = c # s \<and> c \<noteq> CHR ''/''"
proof (cases "join_with ''/'' (norm_stack p)")
  case Nil
  then show ?thesis using assms by (simp add: normalize_def)
next
  case (Cons c s)
  have "c \<noteq> CHR ''/''"
  proof (cases "norm_stack p")
    case Nil
    then show ?thesis using Cons by simp
  next
    case (Cons w ws)
    have "w \<noteq> []"
    proof -
      have "\<forall>w \<in> set stack. w \<noteq> [] \<Longrightarrow> \<forall>w \<in> set (foldl (norm_step b) stack segs). w \<noteq> []"
        for b stack segs
      proof (induction segs arbitrary: stack)
        case Nil
        then show ?case by simp
      next
        case (Cons seg segs)
        have "\<forall>w \<in> set (norm_step b stack seg). w \<noteq> []"
          using Cons.prems by (auto simp: norm_step_def dest: in_set_butlastD split: if_splits)
        with Cons show ?case by simp
      qed
      from this [of "[]" "is_absolute p" "split_on is_sep p"] show ?thesis
        using Cons by (simp add: norm_stack_def)
    qed
    then obtain d u where "w = d # u" by (cases w) auto
    moreover have "\<not> is_sep d"
      using norm_stack_no_sep [of p] Cons \<open>w = d # u\<close> by auto
    ultimately show ?thesis
      using \<open>join_with ''/'' (norm_stack p) = c # s\<close> Cons
      by (cases ws) (auto simp: is_sep_def)
  qed
  then show ?thesis using assms Cons by (simp add: normalize_def)
qed

text \<open>The containment test against one absolute root.\<close>

lemma inside_absolute_root:
  assumes r: "is_absolute r"
  shows "(let root' = trim_end_matches (\<lambda>c. c = CHR ''/'') (normalize r)
          in normalize p = root' \<or> starts_with (normalize p) (root' @ ''/'')) \<longleftrightarrow>
         is_absolute p \<and> prefix (norm_stack r) (norm_stack p)"
proof (cases "is_absolute p")
  case False
  obtain c s where cs: "normalize p = c # s" "c \<noteq> CHR ''/''"
    using normalize_relative_head [OF False] by blast
  have "\<exists>u. trim_end_matches (\<lambda>c. c = CHR ''/'') (normalize r) = [] \<or>
      trim_end_matches (\<lambda>c. c = CHR ''/'') (normalize r) = CHR ''/'' # u"
    using trim_end_matches_prefix [of "\<lambda>c. c = CHR ''/''" "normalize r"] normalize_absolute [OF r]
    by (cases "trim_end_matches (\<lambda>c. c = CHR ''/'') (normalize r)") auto
  with cs False show ?thesis by (auto simp: starts_with_def)
next
  case True
  have pp: "\<forall>w \<in> set (norm_stack p). plain_component w"
    and pr: "\<forall>w \<in> set (norm_stack r). plain_component w"
    using norm_stack_plain True r by auto
  show ?thesis
  proof (cases "norm_stack r = []")
    case True
    then have "trim_end_matches (\<lambda>c. c = CHR ''/'') (normalize r) = []"
      using normalize_absolute [OF r] by (simp add: trim_end_matches_def)
    with True \<open>is_absolute p\<close> show ?thesis
      by (simp add: normalize_absolute starts_with_def)
  next
    case False
    have "trim_end_matches (\<lambda>c. c = CHR ''/'') (normalize r) = normalize r"
      using last_joined [OF False pr] join_nonempty [OF False, of "''/''"] pr
      by (intro trim_end_matches_id) (auto simp: normalize_absolute [OF r] plain_component_def)
    moreover have "normalize p = normalize r \<longleftrightarrow> norm_stack p = norm_stack r"
      using join_inj [OF pp pr] by (auto simp: normalize_absolute r True)
    moreover have "prefix (normalize r @ ''/'') (normalize p) \<longleftrightarrow>
        strict_prefix (norm_stack r) (norm_stack p)"
      using join_prefix [OF pr pp False] by (simp add: normalize_absolute r True)
    moreover have "(norm_stack p = norm_stack r \<or> strict_prefix (norm_stack r) (norm_stack p)) \<longleftrightarrow>
        prefix (norm_stack r) (norm_stack p)"
      by (auto simp: strict_prefix_def)
    ultimately show ?thesis
      unfolding Let_def starts_with_def using True by simp
  qed
qed

section \<open>Canonical form\<close>

text \<open>Unresolved parent steps come first, and only on relative paths.\<close>

definition stack_form :: "bool \<Rightarrow> string list \<Rightarrow> bool" where
  "stack_form b stack \<longleftrightarrow>
     (\<exists>n ws. stack = replicate n ''..'' @ ws \<and> (\<forall>w \<in> set ws. plain_component w) \<and> (b \<longrightarrow> n = 0))"

lemma stack_form_step:
  assumes "stack_form b stack" and "\<forall>c \<in> set seg. \<not> is_sep c"
  shows "stack_form b (norm_step b stack seg)"
proof -
  obtain n ws where st: "stack = replicate n ''..'' @ ws" "\<forall>w \<in> set ws. plain_component w"
    "b \<longrightarrow> n = 0"
    using assms(1) by (auto simp: stack_form_def)
  consider (skip) "seg = [] \<or> seg = ''.''" | (up) "seg = ''..''" | (push) "plain_component seg"
    using assms(2) by (auto simp: plain_component_def)
  then show ?thesis
  proof cases
    case skip
    then show ?thesis using assms(1) by (auto simp: norm_step_def)
  next
    case up
    show ?thesis
    proof (cases ws rule: rev_cases)
      case Nil
      then have "norm_step b stack seg = replicate (if b then 0 else Suc n) ''..''"
        using st up by (cases n) (auto simp: norm_step_def replicate_append_same last_replicate)
      then show ?thesis
        unfolding stack_form_def by (intro exI [of _ "if b then 0 else Suc n"] exI [of _ "[]"]) auto
    next
      case (snoc us w)
      then have "norm_step b stack seg = replicate n ''..'' @ us"
        using st up by (auto simp: norm_step_def plain_component_def butlast_append)
      then show ?thesis
        using st snoc unfolding stack_form_def by auto
    qed
  next
    case push
    then have "norm_step b stack seg = replicate n ''..'' @ (ws @ [seg])"
      using st by (simp add: norm_step_def plain_component_def)
    moreover have "\<forall>w \<in> set (ws @ [seg]). plain_component w"
      using st push by simp
    ultimately show ?thesis
      using st(3) unfolding stack_form_def by blast
  qed
qed

lemma norm_stack_form: "stack_form (is_absolute p) (norm_stack p)"
proof -
  have "stack_form b stack \<Longrightarrow> \<forall>seg \<in> set segs. \<forall>c \<in> set seg. \<not> is_sep c \<Longrightarrow>
      stack_form b (foldl (norm_step b) stack segs)" for b stack segs
    by (induction segs arbitrary: stack) (simp_all add: stack_form_step)
  moreover have "stack_form b []" for b
    unfolding stack_form_def by (intro exI [of _ 0] exI [of _ "[]"]) simp
  moreover have "\<forall>seg \<in> set (split_on is_sep p). \<forall>c \<in> set seg. \<not> is_sep c"
    using split_on_pieces by blast
  ultimately show ?thesis unfolding norm_stack_def by blast
qed

lemma foldl_norm_step_form:
  assumes "stack_form b stack"
  shows "foldl (norm_step b) [] stack = stack"
proof -
  obtain n ws where st: "stack = replicate n ''..'' @ ws" "\<forall>w \<in> set ws. plain_component w"
    "b \<longrightarrow> n = 0"
    using assms by (auto simp: stack_form_def)
  have "foldl (norm_step b) (replicate k ''..'') (replicate n ''..'') = replicate (k + n) ''..''" for k
  proof (cases b)
    case True
    then show ?thesis using st(3) by simp
  next
    case False
    then show ?thesis
    proof (induction n arbitrary: k)
      case 0
      then show ?case by simp
    next
      case (Suc n)
      have "norm_step b (replicate k ''..'') ''..'' = replicate (Suc k) ''..''"
        using False by (cases k) (auto simp: norm_step_def replicate_append_same last_replicate)
      with Suc.IH [of "Suc k"] Suc.prems show ?case by simp
    qed
  qed
  from this [of 0] show ?thesis
    using st by (simp add: foldl_norm_step_id)
qed

lemma stack_form_pieces:
  assumes "stack_form b stack"
  shows "\<forall>w \<in> set stack. w \<noteq> [] \<and> (\<forall>c \<in> set w. \<not> is_sep c)"
proof -
  obtain n ws where st: "stack = replicate n ''..'' @ ws" "\<forall>w \<in> set ws. plain_component w"
    using assms unfolding stack_form_def by blast
  have dots: "''..'' \<noteq> [] \<and> (\<forall>c \<in> set ''..''. \<not> is_sep c)" by (simp add: is_sep_def)
  show ?thesis
  proof
    fix w
    assume "w \<in> set stack"
    then have "w = ''..'' \<or> w \<in> set ws" by (auto simp: st(1))
    then show "w \<noteq> [] \<and> (\<forall>c \<in> set w. \<not> is_sep c)"
      using dots st(2) unfolding plain_component_def by blast
  qed
qed

lemma norm_stack_joined:
  assumes form: "stack_form b stack" and ne: "stack \<noteq> []"
  shows "split_on is_sep (join_with ''/'' stack) = stack"
    and "\<not> is_absolute (join_with ''/'' stack)" and "join_with ''/'' stack \<noteq> []"
proof -
  note pieces = stack_form_pieces [OF form]
  show "split_on is_sep (join_with ''/'' stack) = stack"
    using pieces ne by (intro split_on_join) (auto simp: is_sep_def)
  show nonempty: "join_with ''/'' stack \<noteq> []"
    using pieces ne by (intro join_nonempty) auto
  obtain w ws where "stack = w # ws" using ne by (cases stack) auto
  moreover then obtain c u where "w = c # u" using pieces by (cases w) auto
  ultimately show "\<not> is_absolute (join_with ''/'' stack)"
    using pieces by (cases ws) (auto simp: is_absolute_def)
qed

lemma normalize_idem: "normalize (normalize p) = normalize p"
proof (cases "is_absolute p")
  case True
  have abs: "is_absolute (normalize p)"
    by (simp add: normalize_absolute [OF True] is_absolute_def is_sep_def)
  have split: "split_on is_sep (normalize p) = [] # split_on is_sep (join_with ''/'' (norm_stack p))"
    by (simp add: normalize_absolute [OF True] is_sep_def)
  have "foldl (norm_step True) [] (split_on is_sep (join_with ''/'' (norm_stack p))) = norm_stack p"
  proof (cases "norm_stack p = []")
    case True
    then show ?thesis by (simp add: norm_step_def)
  next
    case False
    then show ?thesis
      using norm_stack_form [of p] \<open>is_absolute p\<close>
      by (simp add: norm_stack_joined foldl_norm_step_form)
  qed
  then have "norm_stack (normalize p) = norm_stack p"
    using abs split by (simp add: norm_stack_def norm_step_def)
  then show ?thesis using abs True by (simp add: normalize_absolute)
next
  case False
  note form = norm_stack_form [of p]
  show ?thesis
  proof (cases "norm_stack p = []")
    case True
    then show ?thesis
      using False by (simp add: normalize_def norm_stack_def is_absolute_def norm_step_def is_sep_def)
  next
    case ne: False
    note j = norm_stack_joined [OF form ne]
    have n: "normalize p = join_with ''/'' (norm_stack p)"
      using False j(3) by (simp add: normalize_def)
    have "norm_stack (normalize p) = norm_stack p"
      using foldl_norm_step_form [OF form] False j
      by (simp add: n norm_stack_def [of "join_with _ _"])
    then show ?thesis
      using n j by (simp add: normalize_def)
  qed
qed

text \<open>The spelling with forward slashes only.\<close>

definition forward_slashes :: "string \<Rightarrow> string" where
  "forward_slashes p = map (\<lambda>c. if c = CHR 0x5C then CHR ''/'' else c) p"

lemma split_on_forward: "split_on is_sep (forward_slashes p) = split_on is_sep p"
  by (induction p) (auto simp: forward_slashes_def is_sep_def split: list.splits)

lemma is_absolute_forward: "is_absolute (forward_slashes p) = is_absolute p"
  by (cases p) (auto simp: forward_slashes_def is_absolute_def is_sep_def)

section \<open>Properties\<close>

text \<open>
  Against absolute roots, the string comparison of \<open>is_inside_any\<close> is exactly containment of
  resolved components: a path is inside when it is absolute and the components of some root are an
  initial segment of its own, so no parent step and no look-alike directory name gets in.
\<close>

theorem is_inside_any_absolute:
  "\<forall>r \<in> set roots. is_absolute r \<Longrightarrow>
     is_inside_any p roots \<longleftrightarrow>
       is_absolute p \<and> (\<exists>r \<in> set roots. prefix (norm_stack r) (norm_stack p))"
  using inside_absolute_root [of _ p]
  by (auto simp: is_inside_any_def list_ex_iff Let_def)

theorem is_inside_any_absolute_witness:
  "is_absolute ''/workspace'' \<and>
     is_inside_any ''/workspace/a/../b'' [''/workspace''] \<and>
     \<not> is_inside_any ''/workspace-evil/b'' [''/workspace'']"
proof -
  have h: "\<forall>r \<in> set [''/workspace'']. is_absolute r" by code_simp
  have a: "is_absolute ''/workspace/a/../b'' \<and> norm_stack ''/workspace/a/../b'' = [''workspace'', ''b'']"
    by code_simp
  have e: "norm_stack ''/workspace-evil/b'' = [''workspace-evil'', ''b'']" by code_simp
  have r: "norm_stack ''/workspace'' = [''workspace'']" by code_simp
  show ?thesis
    using h is_inside_any_absolute [OF h, of "''/workspace/a/../b''"] a r
      is_inside_any_absolute [OF h, of "''/workspace-evil/b''"] e by simp
qed

text \<open>
  Normalization yields a canonical spelling: it is idempotent, and a backslash spelling
  normalizes like the forward-slash spelling of the same path.
\<close>

theorem normalize_canonical:
  "normalize (normalize p) = normalize p \<and> normalize (forward_slashes p) = normalize p"
proof
  show "normalize (normalize p) = normalize p" by (rule normalize_idem)
  show "normalize (forward_slashes p) = normalize p"
    by (simp add: normalize_def norm_stack_def split_on_forward is_absolute_forward)
qed

text \<open>
  With the relative root of one parent step, a path with two parent steps counts as inside,
  although it lies above the root: unresolved parent steps are compared as ordinary names.
\<close>

theorem is_inside_any_parent_root:
  "is_inside_any ''../../etc/passwd'' [''..''] \<and>
   norm_stack ''../../etc/passwd'' = [''..'', ''..'', ''etc'', ''passwd''] \<and>
   norm_stack ''..'' = [''..'']"
  by code_simp

end
