(* ===== verification/Commands.thy ===== *)
theory Commands
  imports Reasons Paths Actions
begin

text \<open>
  Shell, SQL and path safety (\<^verbatim>\<open>vigil-detect/src/command.rs\<close>). Statements and commands are strings of
  characters; in the path section a string is the sequence of its UTF-8 bytes, so that the lossy
  decoding of \<^verbatim>\<open>String::from_utf8_lossy\<close> can be written out.
\<close>

record CommandFindings =
  cf_reason_codes :: "ReasonCode list"
  cf_risk :: rat
  cf_issues :: "string list"

definition cf_default :: CommandFindings where
  "cf_default = \<lparr>cf_reason_codes = [], cf_risk = 0, cf_issues = []\<rparr>"

definition cf_is_clean :: "CommandFindings \<Rightarrow> bool" where
  "cf_is_clean f = (cf_reason_codes f = [])"

definition cf_add :: "ReasonCode \<Rightarrow> rat \<Rightarrow> string \<Rightarrow> CommandFindings \<Rightarrow> CommandFindings" where
  "cf_add code risk issue f = \<lparr>cf_reason_codes = cf_reason_codes f @ [code], cf_risk = max (cf_risk f) risk,
     cf_issues = cf_issues f @ [issue]\<rparr>"

definition cf_finish :: "CommandFindings \<Rightarrow> CommandFindings" where
  "cf_finish f = f\<lparr>cf_reason_codes := reason_sort_dedup (cf_reason_codes f),
     cf_risk := (if cf_risk f < 0 then 0 else if 1 < cf_risk f then 1 else cf_risk f)\<rparr>"

section \<open>Shell commands\<close>

definition SHELL_METACHARACTERS :: string where
  "SHELL_METACHARACTERS = '';|&$`><'' @ [CHR 0x0A, CHR 0x0D]"

definition DANGEROUS_COMMANDS :: "(string \<times> string) list" where
  "DANGEROUS_COMMANDS =
     [(''rm -rf /'', ''recursive delete from root''), (''rm -rf ~'', ''recursive delete of the home directory''),
      (''mkfs'', ''filesystem creation''), (''dd if='', ''raw device write''),
      ('':(){ :|:& };:'', ''fork bomb''), (''chmod 777'', ''world-writable permission change''),
      (''chmod -R 777'', ''recursive world-writable permission change''),
      (''curl'', ''network fetch from a shell''), (''wget'', ''network fetch from a shell''),
      (''nc '', ''netcat''), (''ncat'', ''netcat''), (''/dev/tcp/'', ''bash network redirection''),
      (''crontab'', ''scheduled-task persistence''), (''systemctl enable'', ''service persistence''),
      (''authorized_keys'', ''SSH key persistence''), (''history -c'', ''shell history clearing''),
      (''base64 -d'', ''decoding an encoded payload before execution''), (''eval'', ''dynamic evaluation''),
      (''sudo'', ''privilege elevation''), (''chown'', ''ownership change''),
      (''iptables'', ''firewall modification'')]"

definition add_fragment :: "string \<Rightarrow> string \<times> string \<Rightarrow> CommandFindings \<Rightarrow> CommandFindings" where
  "add_fragment lowered = (\<lambda>(fragment, description) f.
     if str_contains lowered fragment
     then cf_add DangerousShellCommand (95 / 100) (''command performs '' @ description) f else f)"

definition has_metacharacter :: "string \<Rightarrow> bool" where
  "has_metacharacter s = list_ex (\<lambda>c. c \<in> set s) SHELL_METACHARACTERS"

definition analyze_shell :: "string \<Rightarrow> string list \<Rightarrow> bool \<Rightarrow> CommandFindings" where
  "analyze_shell command argv uses_shell =
     (let f = fold (add_fragment (to_lowercase command)) DANGEROUS_COMMANDS cf_default;
          present = filter (\<lambda>c. c \<in> set command) SHELL_METACHARACTERS;
          f = (if uses_shell \<and> present \<noteq> []
               then cf_add CommandInjectionSuspected (8 / 10)
                      (''shell interpretation is enabled and the command contains '' @
                       show_nat (length present) @ '' metacharacter(s)'') f
               else f);
          f = (if list_ex has_metacharacter argv
               then cf_add CommandInjectionSuspected (6 / 10) ''an argument contains shell metacharacters'' f
               else f)
      in cf_finish f)"

section \<open>SQL statements\<close>

text \<open>
  \<^verbatim>\<open>str::to_uppercase\<close> below U+0100. The two letters whose capitals lie above it are kept: no test
  below tells them from their capitals.
\<close>

definition to_uppercase_char :: "char \<Rightarrow> string" where
  "to_uppercase_char c =
     (let n = (of_char c :: nat)
      in if (97 \<le> n \<and> n \<le> 122) \<or> (224 \<le> n \<and> n \<le> 254 \<and> n \<noteq> 247) then [char_of (n - 32)]
         else if n = 223 then ''SS'' else [c])"

definition to_uppercase :: "string \<Rightarrow> string" where
  "to_uppercase s = concat (map to_uppercase_char s)"

definition SQL_STRUCTURAL_OPERATIONS :: "string list" where
  "SQL_STRUCTURAL_OPERATIONS =
     [''DROP'', ''TRUNCATE'', ''ALTER'', ''GRANT'', ''REVOKE'', ''CREATE'', ''ATTACH'', ''COPY'']"

definition SQL_PATTERNS :: "(string \<times> string) list" where
  "SQL_PATTERNS =
     [([CHR 0x27] @ '' OR '' @ [CHR 0x27] @ ''1'' @ [CHR 0x27] @ ''='' @ [CHR 0x27] @ ''1'', ''tautology''),
      ([CHR 0x27] @ '' OR 1=1'', ''tautology''), ('' OR 1=1'', ''tautology''),
      ([CHR 0x27] @ ''--'', ''comment-terminated string literal''),
      (''UNION SELECT'', ''union-based extraction''), (''UNION ALL SELECT'', ''union-based extraction''),
      (''SLEEP('', ''time-based probe''), (''PG_SLEEP'', ''time-based probe''),
      (''WAITFOR DELAY'', ''time-based probe''), (''XP_CMDSHELL'', ''command execution through the database''),
      (''LOAD_FILE('', ''file read through the database''), (''INTO OUTFILE'', ''file write through the database'')]"

definition word_char :: "char \<Rightarrow> bool" where
  "word_char c = (is_ascii_alphanumeric c \<or> c = CHR ''_'')"

lemma split_once_append: "split_once d s = Some (a, b) \<Longrightarrow> s = a @ d @ b"
proof (induction s arbitrary: a)
  case (Cons c s)
  then show ?case by (auto simp: prefix_def split: if_splits)
qed (auto split: if_splits)

text \<open>
  \<^verbatim>\<open>contains_word\<close>: the loop finds the next occurrence, tests the bytes on both sides, and goes on
  after it. The text before the search position is carried along. It is called on non-empty words
  only; an empty word would not advance.
\<close>

function contains_word_from :: "string \<Rightarrow> string \<Rightarrow> string \<Rightarrow> bool" where
  "contains_word_from word before rest =
     (if word = [] then False
      else case split_once word rest of
             None \<Rightarrow> False
           | Some (a, b) \<Rightarrow>
               if (before @ a = [] \<or> \<not> word_char (last (before @ a))) \<and> (b = [] \<or> \<not> word_char (hd b))
               then True else contains_word_from word (before @ a @ word) b)"
  by pat_completeness auto

termination
  by (relation "measure (\<lambda>(word, before, rest). length rest)") (auto dest: split_once_append)

definition contains_word :: "string \<Rightarrow> string \<Rightarrow> bool" where
  "contains_word haystack word = contains_word_from word [] haystack"

definition counts_quoted_literals :: "string \<Rightarrow> nat" where
  "counts_quoted_literals s = count_list s (CHR 0x27) div 2"

definition add_structural :: "string \<Rightarrow> string \<Rightarrow> CommandFindings \<Rightarrow> CommandFindings" where
  "add_structural upper op f =
     (if contains_word upper op
      then cf_add SqlOperationForbidden (9 / 10) (''statement contains the structural operation '' @ op) f else f)"

definition add_sql_pattern :: "string \<Rightarrow> string \<times> string \<Rightarrow> CommandFindings \<Rightarrow> CommandFindings" where
  "add_sql_pattern upper = (\<lambda>(needle, description) f.
     if str_contains upper needle
     then cf_add SqlInjectionSuspected (9 / 10) (''statement shows a '' @ description @ '' pattern'') f else f)"

definition analyze_sql :: "string \<Rightarrow> json list \<Rightarrow> CommandFindings" where
  "analyze_sql statement parameters =
     (let upper = to_uppercase statement;
          f = fold (add_structural upper) SQL_STRUCTURAL_OPERATIONS cf_default;
          trimmed = trim_end_matches (\<lambda>c. c = CHR '';'') (trim_end_matches is_whitespace statement);
          f = (if CHR '';'' \<in> set trimmed
               then cf_add SqlInjectionSuspected (85 / 100) ''statement contains a stacked query'' f else f);
          f = fold (add_sql_pattern upper) SQL_PATTERNS f;
          f = (if parameters = [] \<and> counts_quoted_literals statement > 0 \<and> \<not> starts_with upper ''SELECT 1''
               then f\<lparr>cf_risk := max (cf_risk f) (3 / 10),
                      cf_issues := cf_issues f @ [''statement embeds literals instead of binding parameters'']\<rparr>
               else f)
      in cf_finish f)"

section \<open>Paths\<close>

text \<open>\<^verbatim>\<open>String::from_utf8_lossy\<close>: each maximal invalid part becomes U+FFFD, three bytes.\<close>

definition in_range :: "char \<Rightarrow> nat \<Rightarrow> nat \<Rightarrow> bool" where
  "in_range c lo hi = (let n = (of_char c :: nat) in lo \<le> n \<and> n \<le> hi)"

text \<open>The ranges of the continuation bytes that a leading byte asks for.\<close>

definition utf8_tail :: "char \<Rightarrow> (nat \<times> nat) list option" where
  "utf8_tail c =
     (if in_range c 0 0x7F then Some []
      else if in_range c 0xC2 0xDF then Some [(0x80, 0xBF)]
      else if in_range c 0xE0 0xE0 then Some [(0xA0, 0xBF), (0x80, 0xBF)]
      else if in_range c 0xED 0xED then Some [(0x80, 0x9F), (0x80, 0xBF)]
      else if in_range c 0xE1 0xEF then Some [(0x80, 0xBF), (0x80, 0xBF)]
      else if in_range c 0xF0 0xF0 then Some [(0x90, 0xBF), (0x80, 0xBF), (0x80, 0xBF)]
      else if in_range c 0xF1 0xF3 then Some [(0x80, 0xBF), (0x80, 0xBF), (0x80, 0xBF)]
      else if in_range c 0xF4 0xF4 then Some [(0x80, 0x8F), (0x80, 0xBF), (0x80, 0xBF)]
      else None)"

text \<open>How many continuation bytes are there, and whether all are.\<close>

fun utf8_match :: "(nat \<times> nat) list \<Rightarrow> string \<Rightarrow> nat \<times> bool" where
  "utf8_match [] s = (0, True)"
| "utf8_match ((lo, hi) # rs) [] = (0, False)"
| "utf8_match ((lo, hi) # rs) (c # s) =
     (if in_range c lo hi then (case utf8_match rs s of (n, ok) \<Rightarrow> (Suc n, ok)) else (0, False))"

definition REPLACEMENT :: string where
  "REPLACEMENT = [CHR 0xEF, CHR 0xBF, CHR 0xBD]"

function utf8_lossy :: "string \<Rightarrow> string" where
  "utf8_lossy [] = []"
| "utf8_lossy (c # s) =
     (case utf8_tail c of
        None \<Rightarrow> REPLACEMENT @ utf8_lossy s
      | Some rs \<Rightarrow>
          (case utf8_match rs s of
             (n, True) \<Rightarrow> c # take n s @ utf8_lossy (drop n s)
           | (n, False) \<Rightarrow> REPLACEMENT @ utf8_lossy (drop n s)))"
  by pat_completeness auto
termination
  by (relation "measure length") auto

definition hex_digit_of :: "char \<Rightarrow> nat option" where
  "hex_digit_of c =
     (if in_range c 48 57 then Some (of_char c - 48)
      else if in_range c 97 102 then Some (of_char c - 87)
      else if in_range c 65 70 then Some (of_char c - 55) else None)"

fun percent_bytes :: "string \<Rightarrow> string" where
  "percent_bytes (p # h # l # s) =
     (if p = CHR 0x25 then
        (case (hex_digit_of h, hex_digit_of l) of
           (Some hi, Some lo) \<Rightarrow> char_of (hi * 16 + lo) # percent_bytes s
         | _ \<Rightarrow> p # percent_bytes (h # l # s))
      else p # percent_bytes (h # l # s))"
| "percent_bytes s = s"

definition percent_decode_lossy :: "string \<Rightarrow> string" where
  "percent_decode_lossy s = utf8_lossy (percent_bytes s)"

fun decode_passes :: "nat \<Rightarrow> string \<Rightarrow> string" where
  "decode_passes 0 s = s"
| "decode_passes (Suc n) s =
     (let decoded = percent_decode_lossy s in if decoded = s then s else decode_passes n decoded)"

definition decode_traversal :: "string \<Rightarrow> string" where
  "decode_traversal path = map (\<lambda>c. if c = CHR 0x5C then CHR ''/'' else c) (decode_passes 3 path)"

definition dot_components :: "string \<Rightarrow> nat" where
  "dot_components s = length (filter (\<lambda>w. w = ''.'' \<or> w = ''..'') (split_on is_sep s))"

definition separators :: "string \<Rightarrow> nat" where
  "separators s = length (filter is_sep s)"

definition reveals_traversal_primitives :: "string \<Rightarrow> string \<Rightarrow> bool" where
  "reveals_traversal_primitives original decoded \<longleftrightarrow>
     dot_components original < dot_components decoded \<or> separators original < separators decoded \<or>
     CHR 0x00 \<in> set decoded"

definition analyze_path :: "string \<Rightarrow> string list \<Rightarrow> CommandFindings" where
  "analyze_path path allowed_roots =
     (let decoded = decode_traversal path;
          f = (if decoded \<noteq> path \<and> reveals_traversal_primitives path decoded
               then cf_add PathTraversal (7 / 10) ''path uses encoded traversal sequences'' cf_default
               else cf_default);
          f = (if CHR 0x00 \<in> set decoded
               then cf_add PathTraversal (9 / 10) ''path contains a null byte'' f else f);
          normalized = normalize decoded;
          f = (if starts_with normalized ''..'' \<or> str_contains normalized ''/../''
               then cf_add PathTraversal (85 / 100) ''path escapes its base directory'' f else f);
          f = (if allowed_roots \<noteq> [] \<and> \<not> is_inside_any normalized allowed_roots
               then cf_add PathOutsideAllowlist (8 / 10) ''path is outside every permitted root'' f else f)
      in cf_finish f)"

section \<open>The word search\<close>

lemma split_once_here: "split_once d (d @ b) = Some ([], b)"
proof (cases "d @ b")
  case (Cons c s)
  moreover have "prefix d (d @ b)" by simp
  ultimately show ?thesis by (metis append_eq_conv_conj split_once.simps(2))
qed simp

lemma split_once_first: "split_once d s = Some (a, b) \<Longrightarrow> s = a' @ d @ b' \<Longrightarrow> length a \<le> length a'"
proof (induction s arbitrary: a a')
  case (Cons c s)
  then show ?case by (cases a') (auto simp: split_once_here split: if_splits)
qed simp

lemma split_once_complete: "split_once d (a @ d @ b) \<noteq> None"
  by (induction a) (auto simp: split_once_here)

text \<open>An occurrence of the word with no word character on either side.\<close>

definition free_before :: "string \<Rightarrow> bool" where
  "free_before s \<longleftrightarrow> s = [] \<or> \<not> word_char (last s)"

definition free_after :: "string \<Rightarrow> bool" where
  "free_after s \<longleftrightarrow> s = [] \<or> \<not> word_char (hd s)"

lemma overlap_not_free:
  assumes "list_all word_char word" "a @ word @ b = a' @ word @ b'"
    and "length a < length a'" "length a' < length (a @ word)"
  shows "\<not> free_before (before @ a')"
proof -
  have "a' = take (length a') (a @ word @ b)" using assms(2) by simp
  also have "\<dots> = a @ take (length a' - length a) word"
    using assms(3,4) by (simp add: take_append)
  finally have a': "a' = a @ take (length a' - length a) word" .
  have ne: "take (length a' - length a) word \<noteq> []" using assms(3,4) by auto
  then have "last (before @ a') \<in> set word"
    using a' by (metis in_set_takeD last_appendR last_in_set append_is_Nil_conv)
  then show ?thesis using assms(1) a' ne by (auto simp: free_before_def list_all_iff)
qed

lemma contains_word_from_iff:
  assumes "list_all word_char word" "word \<noteq> []"
  shows "contains_word_from word before rest \<longleftrightarrow>
     (\<exists>a b. rest = a @ word @ b \<and> free_before (before @ a) \<and> free_after b)"
  using assms
proof (induction word before rest rule: contains_word_from.induct)
  case (1 word before rest)
  show ?case
  proof (cases "split_once word rest")
    case None
    then have "\<nexists>a b. rest = a @ word @ b" using split_once_complete by blast
    then show ?thesis using None by simp
  next
    case (Some ab)
    obtain a b where ab: "ab = (a, b)" by (cases ab)
    have s: "split_once word rest = Some (a, b)" using Some ab by simp
    have rest: "rest = a @ word @ b" by (rule split_once_append [OF s])
    show ?thesis
    proof (cases "free_before (before @ a) \<and> free_after b")
      case True
      then show ?thesis
        using s rest "1.prems"(2) by (subst contains_word_from.simps) (auto simp: free_before_def free_after_def)
    next
      case False
      have "contains_word_from word before rest = contains_word_from word (before @ a @ word) b"
        using s False "1.prems"(2) by (subst contains_word_from.simps) (auto simp: free_before_def free_after_def)
      also have "\<dots> \<longleftrightarrow> (\<exists>c d. b = c @ word @ d \<and> free_before ((before @ a @ word) @ c) \<and> free_after d)"
        using "1.IH" [OF "1.prems"(2) s refl] False "1.prems" by (auto simp: free_before_def free_after_def)
      also have "\<dots> \<longleftrightarrow> (\<exists>a b. rest = a @ word @ b \<and> free_before (before @ a) \<and> free_after b)"
      proof
        assume "\<exists>a' b'. rest = a' @ word @ b' \<and> free_before (before @ a') \<and> free_after b'"
        then obtain a' b' where o': "rest = a' @ word @ b'" "free_before (before @ a')" "free_after b'" by blast
        have "a' \<noteq> a" using o' rest False by auto
        moreover have "length a \<le> length a'" by (rule split_once_first [OF s o'(1)])
        ultimately have "length a < length a'" using o'(1) rest by (metis append_eq_append_conv le_neq_implies_less)
        then have "length (a @ word) \<le> length a'"
          using overlap_not_free [OF "1.prems"(1), of a b a' b' before] o' rest by (metis not_le)
        then obtain c where "a' = (a @ word) @ c"
          using o'(1) rest by (metis append.assoc append_eq_append_conv_if append_take_drop_id)
        then show "\<exists>c d. b = c @ word @ d \<and> free_before ((before @ a @ word) @ c) \<and> free_after d"
          using o' rest by auto
      next
        assume "\<exists>c d. b = c @ word @ d \<and> free_before ((before @ a @ word) @ c) \<and> free_after d"
        then obtain c d where "b = c @ word @ d" "free_before ((before @ a @ word) @ c)" "free_after d" by blast
        then show "\<exists>a b. rest = a @ word @ b \<and> free_before (before @ a) \<and> free_after b"
          using rest by (intro exI [of _ "a @ word @ c"] exI [of _ d]) simp
      qed
      finally show ?thesis .
    qed
  qed
qed

lemma structural_operations_words: "list_all (\<lambda>w. w \<noteq> [] \<and> list_all word_char w) SQL_STRUCTURAL_OPERATIONS"
  by code_simp

lemma fold_structural_codes:
  "SqlOperationForbidden \<in> set (cf_reason_codes (fold (add_structural u) ops f)) \<longleftrightarrow>
     SqlOperationForbidden \<in> set (cf_reason_codes f) \<or> list_ex (contains_word u) ops"
  by (induction ops arbitrary: f) (auto simp: add_structural_def cf_add_def)

lemma fold_pattern_codes:
  "SqlOperationForbidden \<in> set (cf_reason_codes (fold (add_sql_pattern u) ps f)) \<longleftrightarrow>
     SqlOperationForbidden \<in> set (cf_reason_codes f)"
  by (induction ps arbitrary: f) (auto simp: add_sql_pattern_def cf_add_def split: prod.splits)

section \<open>Properties\<close>

text \<open>
  A statement is reported for a structural operation exactly when one of the operations occurs
  in its upper-case form as a whole word, that is, with no letter, digit or underscore on either
  side. The search, which skips past each rejected occurrence, ends and misses none.
\<close>

theorem sql_structural_exact:
  "SqlOperationForbidden \<in> set (cf_reason_codes (analyze_sql statement parameters)) \<longleftrightarrow>
     (\<exists>op a b. op \<in> set SQL_STRUCTURAL_OPERATIONS \<and> to_uppercase statement = a @ op @ b \<and>
        free_before a \<and> free_after b)"
proof -
  have word: "contains_word h op \<longleftrightarrow> (\<exists>a b. h = a @ op @ b \<and> free_before a \<and> free_after b)"
    if "op \<in> set SQL_STRUCTURAL_OPERATIONS" for h op
    using that structural_operations_words contains_word_from_iff [of op "[]" h]
    by (auto simp: contains_word_def list_all_iff)
  have "SqlOperationForbidden \<in> set (cf_reason_codes (analyze_sql statement parameters)) \<longleftrightarrow>
      list_ex (contains_word (to_uppercase statement)) SQL_STRUCTURAL_OPERATIONS"
    by (simp add: analyze_sql_def Let_def cf_finish_def fold_pattern_codes fold_structural_codes)
       (simp add: cf_add_def cf_default_def fold_structural_codes fold_pattern_codes)
  then show ?thesis using word by (auto simp: list_ex_iff)
qed

text \<open>
  The recursive permission change of the table of dangerous commands is never recognised: the
  command is compared in lower case with an entry that has a capital letter.
\<close>

theorem recursive_chmod_unrecognised:
  "(''chmod -R 777'', ''recursive world-writable permission change'') \<in> set DANGEROUS_COMMANDS \<and>
   \<not> str_contains (to_lowercase command) ''chmod -R 777'' \<and>
   analyze_shell ''chmod -R 777 /etc'' [] False = cf_default"
proof (intro conjI)
  have up: "CHR ''R'' \<notin> set (to_lowercase s)" for s
  proof
    assume "CHR ''R'' \<in> set (to_lowercase s)"
    then obtain c where "to_lowercase_char c = CHR ''R''" by (auto simp: to_lowercase_def)
    moreover have "of_char (to_lowercase_char c) \<noteq> (82 :: nat)"
      by (auto simp: to_lowercase_char_def Let_def split: if_splits)
    ultimately show False by simp
  qed
  show "\<not> str_contains (to_lowercase command) ''chmod -R 777''"
    using up [of command] by (auto simp: str_contains_def dest: set_mono_sublist)
  show "(''chmod -R 777'', ''recursive world-writable permission change'') \<in> set DANGEROUS_COMMANDS"
    by (simp add: DANGEROUS_COMMANDS_def)
  show "analyze_shell ''chmod -R 777 /etc'' [] False = cf_default"
    by code_simp
qed

end
