(* ===== verification/Approval.thy ===== *)
theory Approval
  imports Canonical
begin

text \<open>
  Transaction-bound approvals, \<^verbatim>\<open>vigil-core/src/approval.rs\<close>: raising a request, granting or rejecting
  it, and redeeming the signed token. Base64, the JSON coding of the claims, Ed25519 and the random
  identifiers and nonces are arguments. The lifecycle is a step relation that remembers which claims
  were signed and for whom.
\<close>

section \<open>Data\<close>

record TransactionPreview =
  pw_action_descriptor :: string
  pw_target :: "string option"
  pw_parameters :: "(string \<times> string) list"
  pw_sensitive_data :: "string list"
  pw_rationale :: "string option"
  pw_triggering_policies :: "string list"
  pw_risk_score :: rat
  pw_irreversible :: bool
  pw_reason_codes :: "string list"

record ApprovalRequest =
  aq_approval_id :: string
  aq_tenant_id :: string
  aq_agent_id :: string
  aq_session_id :: string
  aq_requesting_principal :: string
  aq_action_hash :: ContentHash
  aq_preview :: TransactionPreview
  aq_approver_roles :: "string list"
  aq_requested_at :: timestamp
  aq_expires_at :: timestamp

record ApprovalGrant =
  ag_approval_id :: string
  ag_approver :: string
  ag_granted_at :: timestamp
  ag_expires_at :: timestamp
  ag_token :: string

record ApprovalClaims =
  ac_approval_id :: string
  ac_tenant_id :: string
  ac_agent_id :: string
  ac_session_id :: string
  ac_action_hash :: ContentHash
  ac_approver :: string
  ac_granted_at :: timestamp
  ac_expires_at :: timestamp
  ac_nonce :: string

datatype ApprovalState = Pending | Granted | Consumed | Rejected

record StoredApproval =
  sa_request :: ApprovalRequest
  sa_state :: ApprovalState
  sa_approver :: "string option"
  sa_nonce :: "string option"

record ApprovalService =
  as_approvals :: "(string, StoredApproval) hmap"
  as_poisoned :: bool

datatype approval_error =
    ApprovalStoreUnavailable
  | ApprovalNotFound
  | NoLongerPending
  | RequestExpired
  | ApproverTenant
  | SelfApproval
  | NotAccountableHuman
  | RoleMissing
  | ClaimsUnserializable
  | ApprovalMalformed
  | ApprovalNotBase64
  | ApprovalSignatureMalformed
  | ApprovalSignatureInvalid
  | ApprovalClaimsUnreadable
  | WrongSubject
  | ActionChanged
  | ApprovalExpired
  | UnknownApproval
  | AlreadyUsed
  | NotGranted
  | NonceMismatch

record approval_crypto =
  ax_encode :: "u8 list \<Rightarrow> string"
  ax_decode :: "string \<Rightarrow> u8 list option"
  ax_value :: "ApprovalClaims \<Rightarrow> json"
  ax_parse :: "u8 list \<Rightarrow> ApprovalClaims option"
  ax_sign :: "u8 list \<Rightarrow> u8 list"
  ax_verify :: "u8 list \<Rightarrow> u8 list \<Rightarrow> bool"

definition DEFAULT_APPROVAL_TTL_SECONDS :: int where
  "DEFAULT_APPROVAL_TTL_SECONDS = 900"

definition approval_service_new :: ApprovalService where
  "approval_service_new = \<lparr>as_approvals = [], as_poisoned = False\<rparr>"

section \<open>Operations\<close>

definition request_approval ::
  "timestamp \<Rightarrow> string \<Rightarrow> string \<Rightarrow> string \<Rightarrow> string \<Rightarrow> string \<Rightarrow> ContentHash \<Rightarrow> TransactionPreview
   \<Rightarrow> string list \<Rightarrow> int \<Rightarrow> ApprovalService \<Rightarrow> (approval_error + ApprovalRequest) \<times> ApprovalService" where
  "request_approval now i tenant agent session requester h preview roles ttl svc =
     (let request = \<lparr>aq_approval_id = i, aq_tenant_id = tenant, aq_agent_id = agent, aq_session_id = session,
            aq_requesting_principal = requester, aq_action_hash = h, aq_preview = preview,
            aq_approver_roles = roles, aq_requested_at = now,
            aq_expires_at = now + seconds (clamp ttl 30 86400)\<rparr>
      in if as_poisoned svc then (Inl ApprovalStoreUnavailable, svc)
         else (Inr request,
               svc\<lparr>as_approvals := hm_insert i
                 \<lparr>sa_request = request, sa_state = Pending, sa_approver = None, sa_nonce = None\<rparr>
                 (as_approvals svc)\<rparr>))"

definition get_approval :: "string \<Rightarrow> ApprovalService \<Rightarrow> approval_error + ApprovalRequest option" where
  "get_approval i svc =
     (if as_poisoned svc then Inl ApprovalStoreUnavailable
      else Inr (map_option sa_request (hm_get (as_approvals svc) i)))"

text \<open>The checks of \<^verbatim>\<open>grant\<close> in their order.\<close>

definition check_grant :: "timestamp \<Rightarrow> Principal \<Rightarrow> StoredApproval \<Rightarrow> approval_error + unit" where
  "check_grant now approver stored =
     (let req = sa_request stored
      in if sa_state stored \<noteq> Pending then Inl NoLongerPending
         else if now \<ge> aq_expires_at req then Inl RequestExpired
         else if p_tenant_id approver \<noteq> aq_tenant_id req then Inl ApproverTenant
         else if p_id approver = aq_requesting_principal req then Inl SelfApproval
         else if \<not> is_accountable_human (p_kind approver) then Inl NotAccountableHuman
         else if \<not> list_ex (has_role approver) (aq_approver_roles req) then Inl RoleMissing
         else Inr ())"

definition grant_claims :: "timestamp \<Rightarrow> string \<Rightarrow> Principal \<Rightarrow> ApprovalRequest \<Rightarrow> ApprovalClaims" where
  "grant_claims now nonce approver req =
     \<lparr>ac_approval_id = aq_approval_id req, ac_tenant_id = aq_tenant_id req, ac_agent_id = aq_agent_id req,
      ac_session_id = aq_session_id req, ac_action_hash = aq_action_hash req, ac_approver = p_id approver,
      ac_granted_at = now, ac_expires_at = now + seconds DEFAULT_APPROVAL_TTL_SECONDS, ac_nonce = nonce\<rparr>"

definition set_approval :: "string \<Rightarrow> StoredApproval \<Rightarrow> ApprovalService \<Rightarrow> ApprovalService" where
  "set_approval i a svc = svc\<lparr>as_approvals := hm_insert i a (as_approvals svc)\<rparr>"

definition grant ::
  "approval_crypto \<Rightarrow> number_format \<Rightarrow> timestamp \<Rightarrow> string \<Rightarrow> string \<Rightarrow> Principal \<Rightarrow> ApprovalService
   \<Rightarrow> (approval_error + ApprovalGrant) \<times> ApprovalService" where
  "grant k nf now nonce i approver svc =
     (if as_poisoned svc then (Inl ApprovalStoreUnavailable, svc)
      else case hm_get (as_approvals svc) i of
             None \<Rightarrow> (Inl ApprovalNotFound, svc)
           | Some stored \<Rightarrow>
               (case check_grant now approver stored of
                  Inl RequestExpired \<Rightarrow> (Inl RequestExpired, set_approval i (stored\<lparr>sa_state := Rejected\<rparr>) svc)
                | Inl e \<Rightarrow> (Inl e, svc)
                | Inr _ \<Rightarrow>
                    let claims = grant_claims now nonce approver (sa_request stored)
                    in case canonical_bytes nf (ax_value k claims) of
                         Inl _ \<Rightarrow> (Inl ClaimsUnserializable, svc)
                       | Inr body \<Rightarrow>
                           (Inr \<lparr>ag_approval_id = aq_approval_id (sa_request stored), ag_approver = p_id approver,
                                 ag_granted_at = now, ag_expires_at = ac_expires_at claims,
                                 ag_token = ax_encode k body @ ''.'' @ ax_encode k (ax_sign k body)\<rparr>,
                            set_approval i (stored\<lparr>sa_state := Granted, sa_approver := Some (p_id approver),
                              sa_nonce := Some nonce\<rparr>) svc)))"

definition reject_approval :: "string \<Rightarrow> ApprovalService \<Rightarrow> (approval_error + unit) \<times> ApprovalService" where
  "reject_approval i svc =
     (if as_poisoned svc then (Inl ApprovalStoreUnavailable, svc)
      else case hm_get (as_approvals svc) i of
             None \<Rightarrow> (Inl ApprovalNotFound, svc)
           | Some stored \<Rightarrow> (Inr (), set_approval i (stored\<lparr>sa_state := Rejected\<rparr>) svc))"

text \<open>The checks of \<^verbatim>\<open>verify_and_consume\<close> before the store is consulted.\<close>

definition approval_claims_of ::
  "approval_crypto \<Rightarrow> timestamp \<Rightarrow> string \<Rightarrow> string \<Rightarrow> string \<Rightarrow> string \<Rightarrow> ContentHash
   \<Rightarrow> approval_error + ApprovalClaims" where
  "approval_claims_of k now token tenant agent session h =
     rbind (ok_or (split_once ''.'' token) ApprovalMalformed) (\<lambda>(body_b64, sig_b64).
     rbind (ok_or (ax_decode k body_b64) ApprovalNotBase64) (\<lambda>body.
     rbind (case ax_decode k sig_b64 of
              Some b \<Rightarrow> if length b = 64 then Inr b else Inl ApprovalSignatureMalformed
            | None \<Rightarrow> Inl ApprovalSignatureMalformed) (\<lambda>sig.
     rbind (ensure (ax_verify k body sig) ApprovalSignatureInvalid) (\<lambda>_.
     rbind (ok_or (ax_parse k body) ApprovalClaimsUnreadable) (\<lambda>claims.
     if ac_tenant_id claims \<noteq> tenant \<or> ac_agent_id claims \<noteq> agent \<or> ac_session_id claims \<noteq> session
     then Inl WrongSubject
     else if \<not> ct_eq (ac_action_hash claims) h then Inl ActionChanged
     else if now \<ge> ac_expires_at claims then Inl ApprovalExpired
     else Inr claims)))))"

definition redeem_approval ::
  "approval_crypto \<Rightarrow> timestamp \<Rightarrow> string \<Rightarrow> string \<Rightarrow> string \<Rightarrow> string \<Rightarrow> ContentHash \<Rightarrow> ApprovalService
   \<Rightarrow> (approval_error + string) \<times> ApprovalService" where
  "redeem_approval k now token tenant agent session h svc =
     (case approval_claims_of k now token tenant agent session h of
        Inl e \<Rightarrow> (Inl e, svc)
      | Inr claims \<Rightarrow>
          if as_poisoned svc then (Inl ApprovalStoreUnavailable, svc)
          else (case hm_get (as_approvals svc) (ac_approval_id claims) of
                  None \<Rightarrow> (Inl UnknownApproval, svc)
                | Some stored \<Rightarrow>
                    (case sa_state stored of
                       Consumed \<Rightarrow> (Inl AlreadyUsed, svc)
                     | Granted \<Rightarrow>
                         if sa_nonce stored \<noteq> Some (ac_nonce claims) then (Inl NonceMismatch, svc)
                         else (Inr (ac_approval_id claims),
                               set_approval (ac_approval_id claims) (stored\<lparr>sa_state := Consumed\<rparr>) svc)
                     | _ \<Rightarrow> (Inl NotGranted, svc))))"

section \<open>The lifecycle\<close>

text \<open>
  A step of the service with the record of what it signed: the claims and the approver of every
  successful grant. A request gets a fresh identifier.
\<close>

type_synonym grant_log = "(ApprovalClaims \<times> Principal) list"

inductive approval_step ::
  "approval_crypto \<Rightarrow> number_format \<Rightarrow> ApprovalService \<times> grant_log \<Rightarrow> ApprovalService \<times> grant_log \<Rightarrow> bool"
  for k nf where
  request: "hm_get (as_approvals svc) i = None \<Longrightarrow>
     approval_step k nf (svc, lg)
       (snd (request_approval now i tenant agent session requester h preview roles ttl svc), lg)"
| granted: "grant k nf now nonce i approver svc = (Inr g, svc') \<Longrightarrow>
     hm_get (as_approvals svc) i = Some stored \<Longrightarrow>
     approval_step k nf (svc, lg) (svc', (grant_claims now nonce approver (sa_request stored), approver) # lg)"
| refused: "grant k nf now nonce i approver svc = (Inl e, svc') \<Longrightarrow> approval_step k nf (svc, lg) (svc', lg)"
| reject: "approval_step k nf (svc, lg) (snd (reject_approval i svc), lg)"
| redeem: "approval_step k nf (svc, lg) (snd (redeem_approval k now token tenant agent session h svc), lg)"

inductive approval_steps ::
  "approval_crypto \<Rightarrow> number_format \<Rightarrow> ApprovalService \<times> grant_log \<Rightarrow> ApprovalService \<times> grant_log \<Rightarrow> bool"
  for k nf where
  none: "approval_steps k nf s s"
| more: "approval_steps k nf s s' \<Longrightarrow> approval_step k nf s' s'' \<Longrightarrow> approval_steps k nf s s''"

section \<open>Lemmas\<close>

lemma hm_get_set [simp]:
  "hm_get (as_approvals (set_approval i a svc)) j = (if j = i then Some a else hm_get (as_approvals svc) j)"
  by (simp add: set_approval_def)

lemma check_grant_ok:
  "check_grant now approver stored = Inr () \<longleftrightarrow>
     sa_state stored = Pending \<and> now < aq_expires_at (sa_request stored) \<and>
     p_tenant_id approver = aq_tenant_id (sa_request stored) \<and>
     p_id approver \<noteq> aq_requesting_principal (sa_request stored) \<and> p_kind approver = Human \<and>
     (\<exists>role \<in> set (aq_approver_roles (sa_request stored)). has_role approver role)"
  by (auto simp: check_grant_def Let_def is_accountable_human_def list_ex_iff)

lemma grant_ok:
  assumes "grant k nf now nonce i approver svc = (Inr g, svc')"
  obtains stored where "hm_get (as_approvals svc) i = Some stored" "check_grant now approver stored = Inr ()"
    "svc' = set_approval i (stored\<lparr>sa_state := Granted, sa_approver := Some (p_id approver), sa_nonce := Some nonce\<rparr>) svc"
    "ag_expires_at g = now + seconds DEFAULT_APPROVAL_TTL_SECONDS"
  using assms
  by (auto simp: grant_def Let_def grant_claims_def split: if_splits option.splits sum.splits approval_error.splits)

lemma grant_refused:
  assumes "grant k nf now nonce i approver svc = (Inl e, svc')"
  shows "svc' = svc \<or>
     (\<exists>stored. hm_get (as_approvals svc) i = Some stored \<and> sa_state stored = Pending \<and>
        svc' = set_approval i (stored\<lparr>sa_state := Rejected\<rparr>) svc)"
proof -
  have pending: "check_grant now approver stored = Inl RequestExpired \<Longrightarrow> sa_state stored = Pending" for stored
    by (auto simp: check_grant_def Let_def split: if_splits)
  show ?thesis
    using assms
    by (auto simp: grant_def Let_def dest: pending
        split: if_splits option.splits sum.splits approval_error.splits)
qed

lemma approval_claims_ok:
  assumes "approval_claims_of k now token tenant agent session h = Inr c"
  shows "ac_tenant_id c = tenant \<and> ac_agent_id c = agent \<and> ac_session_id c = session \<and>
     ac_action_hash c = h \<and> now < ac_expires_at c"
  using assms
  by (auto simp: approval_claims_of_def result_simps ct_eq_iff split: if_splits prod.splits option.splits)

lemma redeem_ok:
  assumes "redeem_approval k now token tenant agent session h svc = (Inr i, svc')"
  obtains c stored where "approval_claims_of k now token tenant agent session h = Inr c" "i = ac_approval_id c"
    "hm_get (as_approvals svc) i = Some stored" "sa_state stored = Granted" "sa_nonce stored = Some (ac_nonce c)"
    "svc' = set_approval i (stored\<lparr>sa_state := Consumed\<rparr>) svc"
  using assms
  by (auto simp: redeem_approval_def split: if_splits option.splits sum.splits ApprovalState.splits)

lemma redeem_effect:
  "snd (redeem_approval k now token tenant agent session h svc) = svc \<or>
   (\<exists>i stored. hm_get (as_approvals svc) i = Some stored \<and> sa_state stored = Granted \<and>
      snd (redeem_approval k now token tenant agent session h svc) = set_approval i (stored\<lparr>sa_state := Consumed\<rparr>) svc)"
  by (auto simp: redeem_approval_def split: if_splits option.splits sum.splits ApprovalState.splits)

lemma reject_effect:
  "snd (reject_approval i svc) = svc \<or>
   (\<exists>stored. hm_get (as_approvals svc) i = Some stored \<and>
      snd (reject_approval i svc) = set_approval i (stored\<lparr>sa_state := Rejected\<rparr>) svc)"
  by (auto simp: reject_approval_def split: if_splits option.splits)

lemma request_effect:
  "snd (request_approval now i tenant agent session requester h preview roles ttl svc) = svc \<or>
   (\<exists>req. aq_approval_id req = i \<and>
      snd (request_approval now i tenant agent session requester h preview roles ttl svc) =
        set_approval i \<lparr>sa_request = req, sa_state = Pending, sa_approver = None, sa_nonce = None\<rparr> svc)"
proof (cases "as_poisoned svc")
  case True
  then show ?thesis by (simp add: request_approval_def Let_def)
next
  case False
  let ?req = "\<lparr>aq_approval_id = i, aq_tenant_id = tenant, aq_agent_id = agent, aq_session_id = session,
    aq_requesting_principal = requester, aq_action_hash = h, aq_preview = preview, aq_approver_roles = roles,
    aq_requested_at = now, aq_expires_at = now + seconds (clamp ttl 30 86400)\<rparr>"
  show ?thesis
    by (rule disjI2, rule exI [of _ ?req]) (simp add: False request_approval_def set_approval_def Let_def)
qed

text \<open>What a step does to the stored approvals and to the record of grants.\<close>

lemma approval_step_cases:
  assumes "approval_step k nf (svc, lg) (svc', lg')"
  obtains (same) "svc' = svc" "lg' = lg"
  | (new) i req where "hm_get (as_approvals svc) i = None" "aq_approval_id req = i" "lg' = lg"
      "svc' = set_approval i \<lparr>sa_request = req, sa_state = Pending, sa_approver = None, sa_nonce = None\<rparr> svc"
  | (grant) i now nonce approver stored where "hm_get (as_approvals svc) i = Some stored"
      "check_grant now approver stored = Inr ()"
      "svc' = set_approval i (stored\<lparr>sa_state := Granted, sa_approver := Some (p_id approver), sa_nonce := Some nonce\<rparr>) svc"
      "lg' = (grant_claims now nonce approver (sa_request stored), approver) # lg"
  | (close) i stored st where "hm_get (as_approvals svc) i = Some stored" "lg' = lg"
      "svc' = set_approval i (stored\<lparr>sa_state := st\<rparr>) svc" "st = Rejected \<or> (st = Consumed \<and> sa_state stored = Granted)"
  using assms
proof (cases rule: approval_step.cases)
  case (request i now tenant agent session requester h preview roles ttl)
  with request_effect [of now i tenant agent session requester h preview roles ttl svc] same new show ?thesis by auto
next
  case (granted now nonce i approver g stored)
  from grant_ok [OF granted(2)] granted that(3) show ?thesis by (metis option.inject)
next
  case (refused now nonce i approver e)
  with grant_refused [OF refused(2)] same close show ?thesis by blast
next
  case (reject i)
  with reject_effect [of i svc] same close show ?thesis by blast
next
  case (redeem now token tenant agent session h)
  with redeem_effect [of k now token tenant agent session h svc] same close show ?thesis by blast
qed

text \<open>
  The claims a token carries behind a valid signature, and that this token is not a forgery: if there are such claims, the
  service signed them. Nothing is said of other tokens.
\<close>

definition approval_token_claims :: "approval_crypto \<Rightarrow> string \<Rightarrow> ApprovalClaims option" where
  "approval_token_claims k token =
     (case split_once ''.'' token of
        None \<Rightarrow> None
      | Some (body_b64, sig_b64) \<Rightarrow>
          (case (ax_decode k body_b64, ax_decode k sig_b64) of
             (Some body, Some sig) \<Rightarrow> if ax_verify k body sig then ax_parse k body else None
           | _ \<Rightarrow> None))"

definition unforged_token :: "approval_crypto \<Rightarrow> grant_log \<Rightarrow> string \<Rightarrow> bool" where
  "unforged_token k lg token \<longleftrightarrow> (\<forall>c. approval_token_claims k token = Some c \<longrightarrow> c \<in> fst ` set lg)"

lemma approval_claims_signed:
  "approval_claims_of k now token tenant agent session h = Inr c \<Longrightarrow> approval_token_claims k token = Some c"
  by (auto simp: approval_claims_of_def approval_token_claims_def result_simps split: if_splits prod.splits option.splits)

definition eligible :: "Principal \<Rightarrow> ApprovalRequest \<Rightarrow> bool" where
  "eligible p req \<longleftrightarrow>
     p_tenant_id p = aq_tenant_id req \<and> p_id p \<noteq> aq_requesting_principal req \<and> p_kind p = Human \<and>
     (\<exists>role \<in> set (aq_approver_roles req). has_role p role)"

text \<open>Every signed claim set is the grant of a stored request to an eligible approver.\<close>

definition approval_inv :: "ApprovalService \<times> grant_log \<Rightarrow> bool" where
  "approval_inv s \<longleftrightarrow>
     (\<forall>i stored. hm_get (as_approvals (fst s)) i = Some stored \<longrightarrow> aq_approval_id (sa_request stored) = i) \<and>
     (\<forall>c p. (c, p) \<in> set (snd s) \<longrightarrow>
        (\<exists>stored. hm_get (as_approvals (fst s)) (ac_approval_id c) = Some stored \<and>
           c = grant_claims (ac_granted_at c) (ac_nonce c) p (sa_request stored) \<and> eligible p (sa_request stored)))"

lemma approval_inv_update:
  assumes "approval_inv (svc, lg)" "hm_get (as_approvals svc) i = Some stored" "sa_request a = sa_request stored"
  shows "approval_inv (set_approval i a svc, lg)"
  using assms unfolding approval_inv_def by (fastforce split: if_splits)

lemma approval_inv_step:
  assumes "approval_step k nf (svc, lg) (svc', lg')" "approval_inv (svc, lg)"
  shows "approval_inv (svc', lg')"
  using assms(1)
proof (cases rule: approval_step_cases)
  case same
  then show ?thesis using assms(2) by simp
next
  case (new i req)
  have "ac_approval_id c \<noteq> i" if "(c, p) \<in> set lg" for c p
    using that assms(2) new(1) unfolding approval_inv_def by fastforce
  then show ?thesis using assms(2) new unfolding approval_inv_def by auto
next
  case (grant i now nonce approver stored)
  have inv: "approval_inv (svc', lg)"
    unfolding grant(3) by (rule approval_inv_update [OF assms(2) grant(1)]) simp
  have "aq_approval_id (sa_request stored) = i" using assms(2) grant(1) by (simp add: approval_inv_def)
  moreover have "eligible approver (sa_request stored)"
    using grant(2) by (simp add: check_grant_ok eligible_def)
  ultimately show ?thesis
    using inv unfolding approval_inv_def grant(3,4) by (auto simp: grant_claims_def)
next
  case (close i stored st)
  then show ?thesis using approval_inv_update [OF assms(2) close(1), of "stored\<lparr>sa_state := st\<rparr>"] by simp
qed

lemma approval_steps_inv:
  "approval_steps k nf s s' \<Longrightarrow> approval_inv s \<Longrightarrow> approval_inv s'"
proof (induction rule: approval_steps.induct)
  case (more s s' s'')
  then show ?case using approval_inv_step [of k nf "fst s'" "snd s'" "fst s''" "snd s''"] by simp
qed

lemma approval_inv_new: "approval_inv (approval_service_new, [])"
  by (simp add: approval_inv_def approval_service_new_def)

definition spent :: "string \<Rightarrow> ApprovalService \<Rightarrow> bool" where
  "spent i svc \<longleftrightarrow> (\<exists>stored. hm_get (as_approvals svc) i = Some stored \<and> sa_state stored \<in> {Consumed, Rejected})"

lemma spent_step:
  assumes "approval_step k nf (svc, lg) (svc', lg')" "spent i svc"
  shows "spent i svc'"
  using assms(1)
proof (cases rule: approval_step_cases)
  case (grant j now nonce approver stored)
  then have "j \<noteq> i" using assms(2) by (auto simp: spent_def check_grant_ok)
  then show ?thesis using assms(2) grant(3) by (auto simp: spent_def)
qed (use assms(2) in \<open>auto simp: spent_def\<close>)

lemma spent_steps: "approval_steps k nf s s' \<Longrightarrow> spent i (fst s) \<Longrightarrow> spent i (fst s')"
proof (induction rule: approval_steps.induct)
  case (more s s' s'')
  then show ?case using spent_step [of k nf "fst s'" "snd s'" "fst s''" "snd s''"] by simp
qed

text \<open>A redemption rests on a recorded grant of this very action.\<close>

lemma redeemed_grant:
  assumes "approval_steps k nf (approval_service_new, []) (svc, lg)"
    and "unforged_token k lg token"
    and "redeem_approval k now token tenant agent session h svc = (Inr i, svc')"
  shows "\<exists>c p stored. approval_token_claims k token = Some c \<and> (c, p) \<in> set lg \<and> ac_approval_id c = i \<and>
     hm_get (as_approvals svc) i = Some stored \<and> sa_state stored = Granted \<and> sa_nonce stored = Some (ac_nonce c) \<and>
     c = grant_claims (ac_granted_at c) (ac_nonce c) p (sa_request stored) \<and>
     aq_tenant_id (sa_request stored) = tenant \<and> aq_agent_id (sa_request stored) = agent \<and>
     aq_session_id (sa_request stored) = session \<and> aq_action_hash (sa_request stored) = h \<and>
     eligible p (sa_request stored) \<and> now < ac_granted_at c + seconds 900"
proof -
  obtain c stored where c: "approval_claims_of k now token tenant agent session h = Inr c" "i = ac_approval_id c"
    "hm_get (as_approvals svc) i = Some stored" "sa_state stored = Granted" "sa_nonce stored = Some (ac_nonce c)"
    using assms(3) by (rule redeem_ok)
  note ok = approval_claims_ok [OF c(1)] and signed_claims = approval_claims_signed [OF c(1)]
  then obtain p where p: "(c, p) \<in> set lg" using assms(2) unfolding unforged_token_def by force
  have "approval_inv (svc, lg)"
    using assms(1) approval_inv_new by (rule approval_steps_inv)
  with p c(2,3) have g: "c = grant_claims (ac_granted_at c) (ac_nonce c) p (sa_request stored)"
    "eligible p (sa_request stored)"
    unfolding approval_inv_def by fastforce+
  from arg_cong [OF g(1), of ac_tenant_id] arg_cong [OF g(1), of ac_agent_id] arg_cong [OF g(1), of ac_session_id]
    arg_cong [OF g(1), of ac_action_hash] arg_cong [OF g(1), of ac_expires_at]
  have "aq_tenant_id (sa_request stored) = tenant" "aq_agent_id (sa_request stored) = agent"
    "aq_session_id (sa_request stored) = session" "aq_action_hash (sa_request stored) = h"
    "now < ac_granted_at c + seconds 900"
    using ok by (simp_all add: grant_claims_def DEFAULT_APPROVAL_TTL_SECONDS_def)
  with p c g signed_claims show ?thesis by blast
qed

section \<open>Sample inputs\<close>

definition sample_approver :: Principal where
  "sample_approver = \<lparr>p_id = ''boss'', p_kind = Human, p_tenant_id = ''t1'', p_roles = [''approver''],
     p_auth_method = None, p_mfa = True\<rparr>"

definition sample_preview :: TransactionPreview where
  "sample_preview = \<lparr>pw_action_descriptor = ''shell:shell:exec'', pw_target = None, pw_parameters = [],
     pw_sensitive_data = [], pw_rationale = None, pw_triggering_policies = [], pw_risk_score = 0,
     pw_irreversible = False, pw_reason_codes = []\<rparr>"

definition sample_hash :: ContentHash where
  "sample_hash = \<lparr>ch_algorithm = Sha256, ch_hex = ''00''\<rparr>"

definition sample_pending :: ApprovalRequest where
  "sample_pending = \<lparr>aq_approval_id = ''ap1'', aq_tenant_id = ''t1'', aq_agent_id = ''support'', aq_session_id = ''s1'',
     aq_requesting_principal = ''u1'', aq_action_hash = sample_hash, aq_preview = sample_preview,
     aq_approver_roles = [''approver''], aq_requested_at = 0, aq_expires_at = seconds 60\<rparr>"

definition sample_approval_claims :: ApprovalClaims where
  "sample_approval_claims = grant_claims 1 ''n1'' sample_approver sample_pending"

definition sample_approval_crypto :: approval_crypto where
  "sample_approval_crypto = \<lparr>ax_encode = (\<lambda>b. replicate (length b) (CHR ''A'')),
     ax_decode = (\<lambda>s. Some (replicate (length s) 0)), ax_value = (\<lambda>c. JNull),
     ax_parse = (\<lambda>b. if b = replicate 4 0 then Some sample_approval_claims else None),
     ax_sign = (\<lambda>b. replicate 64 0), ax_verify = (\<lambda>b s. s = replicate 64 0)\<rparr>"

definition sample_pending_service :: ApprovalService where
  "sample_pending_service =
     snd (request_approval 0 ''ap1'' ''t1'' ''support'' ''s1'' ''u1'' sample_hash sample_preview [''approver''] 60 approval_service_new)"

definition sample_granted_service :: ApprovalService where
  "sample_granted_service =
     snd (grant sample_approval_crypto sample_format 1 ''n1'' ''ap1'' sample_approver sample_pending_service)"

definition sample_approval_token :: string where
  "sample_approval_token = ''AAAA.'' @ replicate 64 (CHR ''A'')"

lemma sample_pending_get:
  "hm_get (as_approvals sample_pending_service) ''ap1'' =
     Some \<lparr>sa_request = sample_pending, sa_state = Pending, sa_approver = None, sa_nonce = None\<rparr>"
  "\<not> as_poisoned sample_pending_service"
  by (simp_all add: sample_pending_service_def request_approval_def approval_service_new_def sample_pending_def
      clamp_def Let_def hm_get_def)

lemma sample_grant:
  "\<exists>g. grant sample_approval_crypto sample_format 1 ''n1'' ''ap1'' sample_approver sample_pending_service =
     (Inr g, sample_granted_service) \<and> ag_expires_at g = 1 + seconds 900"
proof -
  have "check_grant 1 sample_approver \<lparr>sa_request = sample_pending, sa_state = Pending, sa_approver = None, sa_nonce = None\<rparr> = Inr ()"
    by (simp add: check_grant_ok sample_approver_def sample_pending_def has_role_def seconds_def nanos_per_second_def)
  then show ?thesis
    unfolding sample_granted_service_def
    by (simp add: grant_def sample_pending_get Let_def canonical_bytes_def canonicalize_def sample_approval_crypto_def
        grant_claims_def DEFAULT_APPROVAL_TTL_SECONDS_def)
qed

lemma sample_lifecycle:
  "approval_steps sample_approval_crypto sample_format (approval_service_new, [])
     (sample_granted_service, [(sample_approval_claims, sample_approver)])"
proof -
  have "approval_step sample_approval_crypto sample_format (approval_service_new, []) (sample_pending_service, [])"
    unfolding sample_pending_service_def by (rule approval_step.request) (simp add: approval_service_new_def)
  with approval_steps.none have "approval_steps sample_approval_crypto sample_format (approval_service_new, [])
      (sample_pending_service, [])" by (rule approval_steps.more)
  moreover obtain g where g: "grant sample_approval_crypto sample_format 1 ''n1'' ''ap1'' sample_approver
      sample_pending_service = (Inr g, sample_granted_service)" using sample_grant by blast
  have "approval_step sample_approval_crypto sample_format (sample_pending_service, [])
      (sample_granted_service, [(sample_approval_claims, sample_approver)])"
    using approval_step.granted [OF g sample_pending_get(1), of "[]"] by (simp add: sample_approval_claims_def)
  ultimately show ?thesis by (rule approval_steps.more)
qed

lemma sample_redeem:
  "\<exists>svc. redeem_approval sample_approval_crypto 2 sample_approval_token ''t1'' ''support'' ''s1'' sample_hash
     sample_granted_service = (Inr ''ap1'', svc)"
proof -
  have "split_once ''.'' sample_approval_token = Some (''AAAA'', replicate 64 (CHR ''A''))"
    by (simp add: sample_approval_token_def)
  then have c: "approval_claims_of sample_approval_crypto 2 sample_approval_token ''t1'' ''support'' ''s1'' sample_hash =
      Inr sample_approval_claims"
    by (simp add: approval_claims_of_def sample_approval_crypto_def sample_approval_claims_def grant_claims_def
        sample_pending_def ct_eq_iff DEFAULT_APPROVAL_TTL_SECONDS_def seconds_def nanos_per_second_def numeral_eq_Suc)
  obtain g where "grant sample_approval_crypto sample_format 1 ''n1'' ''ap1'' sample_approver
      sample_pending_service = (Inr g, sample_granted_service)" using sample_grant by blast
  then obtain st where e: "sample_granted_service = set_approval ''ap1''
      (st\<lparr>sa_state := Granted, sa_approver := Some (p_id sample_approver), sa_nonce := Some ''n1''\<rparr>) sample_pending_service"
    by (rule grant_ok)
  have "\<exists>stored. hm_get (as_approvals sample_granted_service) ''ap1'' = Some stored \<and>
      sa_state stored = Granted \<and> sa_nonce stored = Some ''n1''" "\<not> as_poisoned sample_granted_service"
    unfolding e using sample_pending_get(2) by (simp_all add: set_approval_def)
  then show ?thesis
    by (auto simp: redeem_approval_def c) (auto simp: sample_approval_claims_def grant_claims_def sample_pending_def)
qed

section \<open>Properties\<close>

text \<open>
  A redeemed approval is the approval of this very action. In every history of the service, if the presented token
  is no forgery, a redemption succeeds only with claims the service signed when it granted the redeemed request: to a
  human of the tenant, not the requester, holding one of the roles the request names, for the same tenant, agent,
  session and action hash; and less than 900 seconds ago.
\<close>

theorem approval_transaction_bound:
  assumes "approval_steps k nf (approval_service_new, []) (svc, lg)"
    and "unforged_token k lg token"
    and "redeem_approval k now token tenant agent session h svc = (Inr i, svc')"
  shows "\<exists>c p stored. approval_token_claims k token = Some c \<and> (c, p) \<in> set lg \<and> ac_approval_id c = i \<and>
     hm_get (as_approvals svc) i = Some stored \<and> sa_state stored = Granted \<and> sa_nonce stored = Some (ac_nonce c) \<and>
     c = grant_claims (ac_granted_at c) (ac_nonce c) p (sa_request stored) \<and>
     aq_tenant_id (sa_request stored) = tenant \<and> aq_agent_id (sa_request stored) = agent \<and>
     aq_session_id (sa_request stored) = session \<and> aq_action_hash (sa_request stored) = h \<and>
     eligible p (sa_request stored) \<and> now < ac_granted_at c + seconds 900"
  using assms by (rule redeemed_grant)

lemma sample_unforged: "unforged_token sample_approval_crypto [(sample_approval_claims, sample_approver)] sample_approval_token"
  by (auto simp: unforged_token_def approval_token_claims_def sample_approval_crypto_def split: if_splits option.splits)

theorem approval_transaction_bound_witness:
  "\<exists>stored. hm_get (as_approvals sample_granted_service) ''ap1'' = Some stored \<and>
     aq_action_hash (sa_request stored) = sample_hash"
proof -
  obtain svc where r: "redeem_approval sample_approval_crypto 2 sample_approval_token ''t1'' ''support'' ''s1''
      sample_hash sample_granted_service = (Inr ''ap1'', svc)" using sample_redeem by blast
  show ?thesis using approval_transaction_bound [OF sample_lifecycle sample_unforged r] by blast
qed

text \<open>
  C14: an approval is redeemed at most once: after a redemption no history of requests, grants,
  rejections and redemptions makes the same approval redeemable again.
\<close>

theorem approval_single_use:
  assumes "redeem_approval k now token tenant agent session h svc = (Inr i, svc')"
    and "approval_steps k nf (svc', lg) (svc'', lg'')"
  shows "fst (redeem_approval k now' token' tenant' agent' session' h' svc'') \<noteq> Inr i"
proof
  assume "fst (redeem_approval k now' token' tenant' agent' session' h' svc'') = Inr i"
  then obtain svc3 where "redeem_approval k now' token' tenant' agent' session' h' svc'' = (Inr i, svc3)"
    by (metis prod.collapse)
  then obtain stored where g: "hm_get (as_approvals svc'') i = Some stored" "sa_state stored = Granted"
    by (rule redeem_ok)
  have "spent i svc'" using assms(1) by (elim redeem_ok) (auto simp: spent_def)
  then have "spent i svc''" using spent_steps [OF assms(2)] by simp
  with g show False by (auto simp: spent_def)
qed

theorem approval_single_use_witness:
  "\<exists>svc. redeem_approval sample_approval_crypto 2 sample_approval_token ''t1'' ''support'' ''s1'' sample_hash
       sample_granted_service = (Inr ''ap1'', svc) \<and>
     fst (redeem_approval sample_approval_crypto 3 sample_approval_token ''t1'' ''support'' ''s1'' sample_hash svc) \<noteq>
       Inr ''ap1''"
proof -
  obtain svc where r: "redeem_approval sample_approval_crypto 2 sample_approval_token ''t1'' ''support'' ''s1''
      sample_hash sample_granted_service = (Inr ''ap1'', svc)" using sample_redeem by blast
  show ?thesis using r approval_single_use [OF r approval_steps.none] by blast
qed

text \<open>
  The lifetime a policy asks of an approval does not reach the grant: whatever the time to live
  of the request, a granted token is valid for 900 seconds.
\<close>

theorem grant_ignores_requested_ttl:
  assumes "request_approval now i tenant agent session requester h preview roles ttl svc = (Inr req, svc')"
    and "grant k nf now' nonce i approver svc' = (Inr g, svc'')"
  shows "aq_expires_at req = now + seconds (clamp ttl 30 86400) \<and> ag_expires_at g = now' + seconds 900"
proof
  show "aq_expires_at req = now + seconds (clamp ttl 30 86400)"
    using assms(1) by (auto simp: request_approval_def Let_def split: if_splits)
  show "ag_expires_at g = now' + seconds 900"
    using assms(2) by (elim grant_ok) (simp add: DEFAULT_APPROVAL_TTL_SECONDS_def)
qed

theorem grant_ignores_requested_ttl_witness:
  "\<exists>req g. request_approval 0 ''ap1'' ''t1'' ''support'' ''s1'' ''u1'' sample_hash sample_preview [''approver''] 60
       approval_service_new = (Inr req, sample_pending_service) \<and>
     aq_expires_at req = seconds 60 \<and>
     grant sample_approval_crypto sample_format 1 ''n1'' ''ap1'' sample_approver sample_pending_service =
       (Inr g, sample_granted_service) \<and> ag_expires_at g = 1 + seconds 900"
proof -
  obtain req where r: "request_approval 0 ''ap1'' ''t1'' ''support'' ''s1'' ''u1'' sample_hash sample_preview
      [''approver''] 60 approval_service_new = (Inr req, sample_pending_service)"
    unfolding sample_pending_service_def by (simp add: request_approval_def approval_service_new_def Let_def)
  obtain g where g: "grant sample_approval_crypto sample_format 1 ''n1'' ''ap1'' sample_approver
      sample_pending_service = (Inr g, sample_granted_service)" using sample_grant by blast
  from grant_ignores_requested_ttl [OF r g] r g show ?thesis by (auto simp: clamp_def)
qed

end
