(* ===== verification/Capability.thy ===== *)
theory Capability
  imports Canonical
begin

text \<open>
  Capabilities, \<^verbatim>\<open>vigil-capability/src\<close>: the claims with their binding and lifetime checks
  (\<^verbatim>\<open>claims.rs\<close>), the nonce store (\<^verbatim>\<open>nonce.rs\<close>), the token format (\<^verbatim>\<open>token.rs\<close>), the issuer and the
  verifier (\<^verbatim>\<open>signer.rs\<close>). Base64, JSON coding of header and claims, Ed25519 and the randomness of the
  operating system are not code of the repository: they are the fields of \<open>crypto\<close> and the nonce
  argument of \<open>issue\<close>. A nonce store is an interface, the locale \<open>nonce_store\<close>, interpreted on the
  in-memory store.
\<close>

section \<open>Claims\<close>

definition CLAIMS_VERSION :: string where
  "CLAIMS_VERSION = ''vcap.v1''"

definition MAX_CAPABILITY_TTL_SECONDS :: int where
  "MAX_CAPABILITY_TTL_SECONDS = 900"

definition CLOCK_SKEW_LEEWAY_SECONDS :: int where
  "CLOCK_SKEW_LEEWAY_SECONDS = 30"

record CapabilityClaims =
  cc_version :: string
  cc_capability_id :: string
  cc_tenant_id :: string
  cc_environment_id :: string
  cc_agent_id :: string
  cc_agent_instance_id :: string
  cc_session_id :: string
  cc_principal_id :: string
  cc_action_kind :: string
  cc_tool_id :: "string option"
  cc_operation :: string
  cc_target_resource :: "string option"
  cc_action_hash :: ContentHash
  cc_remit_version :: string
  cc_policy_bundle_version :: string
  cc_approval_id :: "string option"
  cc_constraints :: "Constraint list"
  cc_issued_at :: timestamp
  cc_expires_at :: timestamp
  cc_nonce :: string
  cc_max_uses :: u32

record PresentedAction =
  ps_tenant_id :: string
  ps_environment_id :: string
  ps_agent_id :: string
  ps_agent_instance_id :: string
  ps_session_id :: string
  ps_principal_id :: string
  ps_action_kind :: string
  ps_tool_id :: "string option"
  ps_operation :: string
  ps_target_resource :: "string option"
  ps_action_hash :: ContentHash

datatype capability_error =
    TokenTooLong
  | TokenMalformed
  | TokenPrefix
  | TokenNotBase64
  | HeaderInvalid
  | UnsupportedAlgorithm
  | UntrustedKey
  | SignatureLength
  | SignatureInvalid
  | ClaimsUnreadable
  | CapabilityExpired
  | NotYetValid
  | LifetimeInverted
  | LifetimeTooLong
  | ClaimsVersion
  | BindingMismatch string
  | ToolMismatch
  | TargetMismatch
  | ActionMismatch
  | AlreadyRedeemed u32
  | NonceStoreUnavailable
  | ClaimsNotCanonical

definition binding :: "string \<Rightarrow> 'a \<Rightarrow> 'a \<Rightarrow> capability_error + unit" where
  "binding field claimed presented = ensure (claimed = presented) (BindingMismatch field)"

definition check_binding :: "CapabilityClaims \<Rightarrow> PresentedAction \<Rightarrow> capability_error + unit" where
  "check_binding c p =
     (if cc_version c \<noteq> CLAIMS_VERSION then Inl ClaimsVersion
      else
        rbind (binding ''tenant'' (cc_tenant_id c) (ps_tenant_id p)) (\<lambda>_.
        rbind (binding ''environment'' (cc_environment_id c) (ps_environment_id p)) (\<lambda>_.
        rbind (binding ''agent'' (cc_agent_id c) (ps_agent_id p)) (\<lambda>_.
        rbind (binding ''agent_instance'' (cc_agent_instance_id c) (ps_agent_instance_id p)) (\<lambda>_.
        rbind (binding ''session'' (cc_session_id c) (ps_session_id p)) (\<lambda>_.
        rbind (binding ''principal'' (cc_principal_id c) (ps_principal_id p)) (\<lambda>_.
        rbind (binding ''action_kind'' (cc_action_kind c) (ps_action_kind p)) (\<lambda>_.
        rbind (binding ''operation'' (cc_operation c) (ps_operation p)) (\<lambda>_.
        if cc_tool_id c \<noteq> ps_tool_id p then Inl ToolMismatch
        else if cc_target_resource c \<noteq> ps_target_resource p then Inl TargetMismatch
        else if \<not> ct_eq (cc_action_hash c) (ps_action_hash p) then Inl ActionMismatch
        else Inr ())))))))))"

definition check_lifetime :: "CapabilityClaims \<Rightarrow> timestamp \<Rightarrow> int \<Rightarrow> capability_error + unit" where
  "check_lifetime c now leeway_seconds =
     (if now \<ge> cc_expires_at c then Inl CapabilityExpired
      else if now < cc_issued_at c - seconds (max leeway_seconds 0) then Inl NotYetValid
      else if cc_expires_at c \<le> cc_issued_at c then Inl LifetimeInverted
      else if num_seconds (cc_expires_at c - cc_issued_at c) > MAX_CAPABILITY_TTL_SECONDS
           then Inl LifetimeTooLong
      else Inr ())"

definition remaining_seconds :: "CapabilityClaims \<Rightarrow> timestamp \<Rightarrow> int" where
  "remaining_seconds c now = max (num_seconds (cc_expires_at c - now)) 0"

section \<open>The nonce store\<close>

datatype NonceVerdict = Accepted u32 | Replay u32

fun is_accepted :: "NonceVerdict \<Rightarrow> bool" where
  "is_accepted (Accepted n) = True"
| "is_accepted (Replay n) = False"

record NonceEntry =
  ne_uses :: u32
  ne_expires_at :: timestamp

text \<open>
  The lock of \<^verbatim>\<open>InMemoryNonceStore\<close> serialises the two operations; a poisoned lock makes both fail.
\<close>

record InMemoryNonceStore =
  ns_entries :: "(string, NonceEntry) hmap"
  ns_poisoned :: bool

definition nonce_store_new :: InMemoryNonceStore where
  "nonce_store_new = \<lparr>ns_entries = [], ns_poisoned = False\<rparr>"

definition consume ::
  "string \<Rightarrow> u32 \<Rightarrow> timestamp \<Rightarrow> InMemoryNonceStore
   \<Rightarrow> (capability_error + NonceVerdict) \<times> InMemoryNonceStore" where
  "consume nonce max_uses expires_at s =
     (if ns_poisoned s then (Inl NonceStoreUnavailable, s)
      else let entry = or_else (hm_get (ns_entries s) nonce) \<lparr>ne_uses = 0, ne_expires_at = expires_at\<rparr>
           in if ne_uses entry \<ge> max_uses
              then (Inr (Replay (ne_uses entry)),
                    s\<lparr>ns_entries := hm_insert nonce entry (ns_entries s)\<rparr>)
              else let entry' = entry\<lparr>ne_uses := ne_uses entry + 1\<rparr>
                   in (Inr (Accepted (ne_uses entry')),
                       s\<lparr>ns_entries := hm_insert nonce entry' (ns_entries s)\<rparr>))"

definition purge_expired ::
  "timestamp \<Rightarrow> InMemoryNonceStore \<Rightarrow> (capability_error + nat) \<times> InMemoryNonceStore" where
  "purge_expired now s =
     (if ns_poisoned s then (Inl NonceStoreUnavailable, s)
      else let kept = hm_retain (\<lambda>_ e. ne_expires_at e > now) (ns_entries s)
           in (Inr (length (ns_entries s) - length kept), s\<lparr>ns_entries := kept\<rparr>))"

section \<open>Tokens\<close>

definition CAPABILITY_TOKEN_PREFIX :: string where
  "CAPABILITY_TOKEN_PREFIX = ''vcap1''"

definition ALG_ED25519 :: string where
  "ALG_ED25519 = ''Ed25519''"

definition MAX_TOKEN_BYTES :: nat where
  "MAX_TOKEN_BYTES = 8 * 1024"

record TokenHeader =
  th_alg :: string
  th_kid :: string

record ParsedToken =
  pt_header :: TokenHeader
  pt_claims_json :: "u8 list"
  pt_signature :: "u8 list"
  pt_signed_payload :: "u8 list"

record ('sk, 'vk) crypto =
  b64_encode :: "u8 list \<Rightarrow> string"
  b64_decode :: "string \<Rightarrow> u8 list option"
  header_json :: "TokenHeader \<Rightarrow> u8 list"
  header_parse :: "u8 list \<Rightarrow> TokenHeader option"
  claims_value :: "CapabilityClaims \<Rightarrow> json"
  claims_parse :: "u8 list \<Rightarrow> CapabilityClaims option"
  ed_sign :: "'sk \<Rightarrow> u8 list \<Rightarrow> u8 list"
  ed_verify :: "'vk \<Rightarrow> u8 list \<Rightarrow> u8 list \<Rightarrow> bool"
  ed_public :: "'sk \<Rightarrow> 'vk"

definition signing_input :: "string \<Rightarrow> string \<Rightarrow> u8 list" where
  "signing_input header_b64 claims_b64 = utf8 (header_b64 @ ''.'' @ claims_b64)"

definition token_encode :: "('sk, 'vk) crypto \<Rightarrow> TokenHeader \<Rightarrow> u8 list \<Rightarrow> u8 list \<Rightarrow> string" where
  "token_encode k header claims_json signature =
     CAPABILITY_TOKEN_PREFIX @ ''.'' @ b64_encode k (header_json k header) @ ''.''
     @ b64_encode k claims_json @ ''.'' @ b64_encode k signature"

definition token_parse :: "('sk, 'vk) crypto \<Rightarrow> string \<Rightarrow> capability_error + ParsedToken" where
  "token_parse k token =
     (if str_len token > MAX_TOKEN_BYTES then Inl TokenTooLong
      else case split_on (\<lambda>c. c = CHR ''.'') token of
             [pre, header_b64, claims_b64, sig_b64] \<Rightarrow>
               if pre \<noteq> CAPABILITY_TOKEN_PREFIX then Inl TokenPrefix
               else
                 rbind (ok_or (b64_decode k header_b64) TokenNotBase64) (\<lambda>header_bytes.
                 rbind (ok_or (header_parse k header_bytes) HeaderInvalid) (\<lambda>header.
                 rbind (ok_or (b64_decode k claims_b64) TokenNotBase64) (\<lambda>claims.
                 rbind (ok_or (b64_decode k sig_b64) TokenNotBase64) (\<lambda>signature.
                 Inr \<lparr>pt_header = header, pt_claims_json = claims, pt_signature = signature,
                      pt_signed_payload = signing_input header_b64 claims_b64\<rparr>))))
           | _ \<Rightarrow> Inl TokenMalformed)"

section \<open>Issuing\<close>

record 'sk CapabilityIssuer =
  ci_key_id :: string
  ci_key :: 'sk

text \<open>The claims an issuer signs: version, lifetime, nonce and a positive use count are its own.\<close>

definition issued_claims :: "timestamp \<Rightarrow> string \<Rightarrow> CapabilityClaims \<Rightarrow> int \<Rightarrow> CapabilityClaims" where
  "issued_claims now nonce claims ttl_seconds =
     (let ttl = clamp ttl_seconds 1 MAX_CAPABILITY_TTL_SECONDS
      in claims\<lparr>cc_version := CLAIMS_VERSION, cc_issued_at := now, cc_expires_at := now + seconds ttl,
                cc_nonce := nonce,
                cc_max_uses := (if cc_max_uses claims = 0 then 1 else cc_max_uses claims)\<rparr>)"

definition issue ::
  "('sk, 'vk) crypto \<Rightarrow> number_format \<Rightarrow> 'sk CapabilityIssuer \<Rightarrow> timestamp \<Rightarrow> string
   \<Rightarrow> CapabilityClaims \<Rightarrow> int \<Rightarrow> capability_error + (string \<times> CapabilityClaims)" where
  "issue k nf issuer now nonce claims ttl_seconds =
     (let claims' = issued_claims now nonce claims ttl_seconds
      in case canonical_bytes nf (claims_value k claims') of
           Inl _ \<Rightarrow> Inl ClaimsNotCanonical
         | Inr claims_json \<Rightarrow>
             let header = \<lparr>th_alg = ALG_ED25519, th_kid = ci_key_id issuer\<rparr>;
                 header_b64 = b64_encode k (header_json k header);
                 claims_b64 = b64_encode k claims_json;
                 signature = ed_sign k (ci_key issuer) (signing_input header_b64 claims_b64)
             in Inr (token_encode k header claims_json signature, claims'))"

section \<open>Verifying\<close>

record 'vk CapabilityVerifier =
  cv_keys :: "(string, 'vk) hmap"
  cv_leeway_seconds :: int

definition verifier_new :: "'vk CapabilityVerifier" where
  "verifier_new = \<lparr>cv_keys = [], cv_leeway_seconds = CLOCK_SKEW_LEEWAY_SECONDS\<rparr>"

definition trust_key :: "string \<Rightarrow> 'vk \<Rightarrow> 'vk CapabilityVerifier \<Rightarrow> 'vk CapabilityVerifier" where
  "trust_key key_id key v = v\<lparr>cv_keys := hm_insert key_id key (cv_keys v)\<rparr>"

record VerifiedCapability =
  vc_claims :: CapabilityClaims
  vc_use_number :: u32
  vc_verified_at :: timestamp

text \<open>Key lookup, signature length and signature of a parsed token.\<close>

definition check_signature ::
  "('sk, 'vk) crypto \<Rightarrow> 'vk CapabilityVerifier \<Rightarrow> ParsedToken \<Rightarrow> capability_error + unit" where
  "check_signature k v parsed =
     rbind (ok_or (hm_get (cv_keys v) (th_kid (pt_header parsed))) UntrustedKey) (\<lambda>key.
     rbind (ensure (length (pt_signature parsed) = 64) SignatureLength) (\<lambda>_.
     ensure (ed_verify k key (pt_signed_payload parsed) (pt_signature parsed)) SignatureInvalid))"

text \<open>The steps of \<^verbatim>\<open>verify_and_consume\<close> before the nonce store is consulted.\<close>

definition authenticate_token ::
  "('sk, 'vk) crypto \<Rightarrow> 'vk CapabilityVerifier \<Rightarrow> timestamp \<Rightarrow> string \<Rightarrow> PresentedAction
   \<Rightarrow> capability_error + CapabilityClaims" where
  "authenticate_token k v now token presented =
     rbind (token_parse k token) (\<lambda>parsed.
     rbind (ensure (th_alg (pt_header parsed) = ALG_ED25519) UnsupportedAlgorithm) (\<lambda>_.
     rbind (check_signature k v parsed) (\<lambda>_.
     rbind (ok_or (claims_parse k (pt_claims_json parsed)) ClaimsUnreadable) (\<lambda>claims.
     rbind (check_lifetime claims now (cv_leeway_seconds v)) (\<lambda>_.
     rbind (check_binding claims presented) (\<lambda>_.
     Inr claims))))))"

definition verify_and_consume ::
  "('sk, 'vk) crypto \<Rightarrow> 'vk CapabilityVerifier \<Rightarrow> timestamp \<Rightarrow> string \<Rightarrow> PresentedAction
   \<Rightarrow> InMemoryNonceStore \<Rightarrow> (capability_error + VerifiedCapability) \<times> InMemoryNonceStore" where
  "verify_and_consume k v now token presented s =
     (case authenticate_token k v now token presented of
        Inl e \<Rightarrow> (Inl e, s)
      | Inr claims \<Rightarrow>
          (case consume (cc_nonce claims) (cc_max_uses claims) (cc_expires_at claims) s of
             (Inl e, s') \<Rightarrow> (Inl e, s')
           | (Inr (Accepted n), s') \<Rightarrow>
               (Inr \<lparr>vc_claims = claims, vc_use_number = n, vc_verified_at = now\<rparr>, s')
           | (Inr (Replay n), s') \<Rightarrow> (Inl (AlreadyRedeemed n), s')))"

definition inspect ::
  "('sk, 'vk) crypto \<Rightarrow> 'vk CapabilityVerifier \<Rightarrow> string \<Rightarrow> capability_error + CapabilityClaims" where
  "inspect k v token =
     rbind (token_parse k token) (\<lambda>parsed.
     rbind (check_signature k v parsed) (\<lambda>_.
     ok_or (claims_parse k (pt_claims_json parsed)) ClaimsUnreadable))"

section \<open>The interface of a nonce store\<close>

text \<open>
  What a store promises of its two operations: \<open>uses\<close> counts the redemptions it remembers of a nonce,
  and \<open>expiry\<close> is the instant until which it must remember them.
\<close>

locale nonce_store =
  fixes con :: "string \<Rightarrow> u32 \<Rightarrow> timestamp \<Rightarrow> 's \<Rightarrow> ('e + NonceVerdict) \<times> 's"
    and purge :: "timestamp \<Rightarrow> 's \<Rightarrow> 's"
    and uses :: "'s \<Rightarrow> string \<Rightarrow> nat"
    and expiry :: "'s \<Rightarrow> string \<Rightarrow> timestamp option"
    and invar :: "'s \<Rightarrow> bool"
  assumes con_invar: "invar s \<Longrightarrow> invar (snd (con n m x s))"
    and purge_invar: "invar s \<Longrightarrow> invar (purge t s)"
    and con_accepted: "invar s \<Longrightarrow> con n m x s = (Inr (Accepted u), s') \<Longrightarrow>
          uses s n < unat m \<and> uses s' = (uses s)(n := uses s n + 1) \<and> unat u = uses s n + 1 \<and>
          expiry s' n = Some (or_else (expiry s n) x) \<and> (\<forall>k. k \<noteq> n \<longrightarrow> expiry s' k = expiry s k)"
    and con_rejected: "invar s \<Longrightarrow> con n m x s = (r, s') \<Longrightarrow> (\<forall>u. r \<noteq> Inr (Accepted u)) \<Longrightarrow>
          uses s' = uses s \<and> (\<forall>k. uses s k > 0 \<longrightarrow> expiry s' k = expiry s k) \<and>
          (\<forall>k. k \<noteq> n \<longrightarrow> expiry s' k = expiry s k) \<and> expiry s' n \<in> {expiry s n, Some (or_else (expiry s n) x)}"
    and purge_keeps: "invar s \<Longrightarrow> expiry s n = Some x \<Longrightarrow> t < x \<Longrightarrow>
          uses (purge t s) n = uses s n \<and> expiry (purge t s) n = Some x"
    and purge_bound: "invar s \<Longrightarrow> uses (purge t s) n \<le> uses s n"
    and purge_expiry: "invar s \<Longrightarrow> expiry (purge t s) n = Some x \<Longrightarrow> expiry s n = Some x"

text \<open>A history of a store: redemptions that passed every other check, and purges.\<close>

datatype nonce_event =
    Redeem timestamp string u32 timestamp
  | Purge timestamp

fun event_time :: "nonce_event \<Rightarrow> timestamp" where
  "event_time (Redeem t n m x) = t"
| "event_time (Purge t) = t"

fun accepts ::
  "(string \<Rightarrow> u32 \<Rightarrow> timestamp \<Rightarrow> 's \<Rightarrow> ('e + NonceVerdict) \<times> 's) \<Rightarrow> (timestamp \<Rightarrow> 's \<Rightarrow> 's)
   \<Rightarrow> string \<Rightarrow> 's \<Rightarrow> nonce_event list \<Rightarrow> nat" where
  "accepts con purge n s [] = 0"
| "accepts con purge n s (Purge t # es) = accepts con purge n (purge t s) es"
| "accepts con purge n s (Redeem t n' m x # es) =
     (case con n' m x s of
        (Inr (Accepted u), s') \<Rightarrow> (if n' = n then 1 else 0) + accepts con purge n s' es
      | (_, s') \<Rightarrow> accepts con purge n s' es)"

text \<open>Every redemption of the nonce is made before its expiry and claims the same limit and expiry.\<close>

definition uniform :: "string \<Rightarrow> u32 \<Rightarrow> timestamp \<Rightarrow> nonce_event list \<Rightarrow> bool" where
  "uniform n m x es \<longleftrightarrow> (\<forall>t m' x'. Redeem t n m' x' \<in> set es \<longrightarrow> m' = m \<and> x' = x \<and> t < x)"

context nonce_store
begin

lemma accepts_none:
  "(\<And>t m x. Redeem t n m x \<notin> set es) \<Longrightarrow> accepts con purge n s es = 0"
proof (induction es arbitrary: s)
  case (Cons e es)
  then have "accepts con purge n s' es = 0" for s'
    by (metis list.set_intros(2))
  with Cons.prems show ?case
    by (cases e) (auto split: prod.splits sum.splits NonceVerdict.splits)
qed simp

text \<open>Once the expiry of a nonce has passed, no redemption of it follows.\<close>

lemma accepts_after_expiry:
  assumes "uniform n m x es" "\<And>e. e \<in> set es \<Longrightarrow> x \<le> event_time e"
  shows "accepts con purge n s es = 0"
proof (rule accepts_none)
  show "Redeem t n m' x' \<notin> set es" for t m' x'
    using assms(1) assms(2) [of "Redeem t n m' x'"] by (fastforce simp: uniform_def)
qed

lemma accepts_bound:
  assumes "invar s" "sorted (map event_time es)" "uniform n m x es"
    "expiry s n \<in> {None, Some x}" "uses s n > 0 \<longrightarrow> expiry s n = Some x" "uses s n \<le> unat m"
  shows "uses s n + accepts con purge n s es \<le> unat m"
  using assms
proof (induction es arbitrary: s)
  case Nil
  then show ?case by simp
next
  case (Cons e es)
  have u: "uniform n m x es" and so: "sorted (map event_time es)"
    using Cons.prems by (auto simp: uniform_def)
  show ?case
  proof (cases e)
    case (Purge t)
    show ?thesis
    proof (cases "x \<le> t")
      case True
      have "x \<le> event_time e'" if "e' \<in> set es" for e'
        using that Cons.prems(2) Purge True by force
      then have "accepts con purge n (purge t s) es = 0"
        using accepts_after_expiry [OF u] by blast
      then show ?thesis using Purge Cons.prems(6) by simp
    next
      case False
      have kept: "uses s n > 0 \<Longrightarrow> uses (purge t s) n = uses s n \<and> expiry (purge t s) n = Some x"
        using purge_keeps [OF Cons.prems(1), of n x t] Cons.prems(5) False by simp
      have ex: "expiry (purge t s) n \<in> {None, Some x}"
        using purge_expiry [OF Cons.prems(1), of t n] Cons.prems(4)
        by (cases "expiry (purge t s) n") auto
      have "uses (purge t s) n + accepts con purge n (purge t s) es \<le> unat m"
        using kept purge_bound [OF Cons.prems(1), of t n] Cons.prems(6) ex
        by (intro Cons.IH [OF purge_invar [OF Cons.prems(1)] so u]) auto
      moreover have "uses (purge t s) n = uses s n"
        using kept purge_bound [OF Cons.prems(1), of t n] by (cases "uses s n") auto
      ultimately show ?thesis using Purge by simp
    qed
  next
    case (Redeem t k m' x')
    obtain r s' where c: "con k m' x' s = (r, s')" by (cases "con k m' x' s")
    have i: "invar s'" using con_invar [OF Cons.prems(1), of k m' x'] c by simp
    have eq: "k = n \<Longrightarrow> m' = m \<and> x' = x"
      using Cons.prems(3) Redeem by (auto simp: uniform_def)
    show ?thesis
    proof (cases "\<exists>v. r = Inr (Accepted v)")
      case True
      then obtain v where v: "r = Inr (Accepted v)" by blast
      note a = con_accepted [OF Cons.prems(1) c [unfolded v]]
      have ex: "expiry s' n \<in> {None, Some x}" "uses s' n > 0 \<longrightarrow> expiry s' n = Some x"
        using a eq Cons.prems(4,5) by (cases "k = n"; auto simp: or_else_def)+
      have "uses s' n \<le> unat m" using a eq Cons.prems(6) by (cases "k = n") auto
      from Cons.IH [OF i so u ex this] show ?thesis
        using a c v Redeem by (cases "k = n") auto
    next
      case False
      then have rej: "\<forall>w. r \<noteq> Inr (Accepted w)" by blast
      note a = con_rejected [OF Cons.prems(1) c rej]
      have ex: "expiry s' n \<in> {None, Some x}" "uses s' n > 0 \<longrightarrow> expiry s' n = Some x"
        using a eq Cons.prems(4,5) by (cases "k = n"; auto simp: or_else_def)+
      have "uses s' n \<le> unat m" using a Cons.prems(6) by simp
      from Cons.IH [OF i so u ex this] show ?thesis
        using a c rej Redeem by (auto split: sum.splits NonceVerdict.splits)
    qed
  qed
qed

end

section \<open>The in-memory store meets the interface\<close>

definition store_uses :: "InMemoryNonceStore \<Rightarrow> string \<Rightarrow> nat" where
  "store_uses s n = (case hm_get (ns_entries s) n of None \<Rightarrow> 0 | Some e \<Rightarrow> unat (ne_uses e))"

definition store_expiry :: "InMemoryNonceStore \<Rightarrow> string \<Rightarrow> timestamp option" where
  "store_expiry s n = map_option ne_expires_at (hm_get (ns_entries s) n)"

definition store_invar :: "InMemoryNonceStore \<Rightarrow> bool" where
  "store_invar s = hm_invar (ns_entries s)"

lemma consume_invar: "store_invar s \<Longrightarrow> store_invar (snd (consume n m x s))"
  by (simp add: consume_def store_invar_def Let_def hm_invar_insert)

lemma consume_accepted:
  assumes "consume n m x s = (Inr (Accepted u), s')"
  shows "store_uses s n < unat m \<and> store_uses s' = (store_uses s)(n := store_uses s n + 1) \<and>
     unat u = store_uses s n + 1 \<and> store_expiry s' n = Some (or_else (store_expiry s n) x) \<and>
     (\<forall>k. k \<noteq> n \<longrightarrow> store_expiry s' k = store_expiry s k)"
proof -
  define e where "e = or_else (hm_get (ns_entries s) n) \<lparr>ne_uses = 0, ne_expires_at = x\<rparr>"
  have c: "ne_uses e < m" "u = ne_uses e + 1"
    "s' = s\<lparr>ns_entries := hm_insert n (e\<lparr>ne_uses := ne_uses e + 1\<rparr>) (ns_entries s)\<rparr>"
    using assms by (auto simp: consume_def Let_def e_def [symmetric] split: if_splits)
  have lt: "unat (ne_uses e) < unat m" using c(1) by (simp add: word_less_nat_alt)
  have "unat m < 2 ^ 32" using unsigned_less [of m] by simp
  with lt have u: "unat (ne_uses e + 1) = unat (ne_uses e) + 1"
    by (intro unat_inc) simp
  have e: "unat (ne_uses e) = store_uses s n" "ne_expires_at e = or_else (store_expiry s n) x"
    by (auto simp: e_def store_uses_def store_expiry_def or_else_def split: option.splits)
  show ?thesis
    using c(2,3) lt u e by (auto simp: store_uses_def store_expiry_def)
qed

lemma consume_rejected:
  assumes "consume n m x s = (r, s')" "\<forall>u. r \<noteq> Inr (Accepted u)"
  shows "store_uses s' = store_uses s \<and> (\<forall>k. store_uses s k > 0 \<longrightarrow> store_expiry s' k = store_expiry s k) \<and>
     (\<forall>k. k \<noteq> n \<longrightarrow> store_expiry s' k = store_expiry s k) \<and>
     store_expiry s' n \<in> {store_expiry s n, Some (or_else (store_expiry s n) x)}"
  using assms
  by (auto simp: consume_def Let_def store_uses_def store_expiry_def or_else_def fun_eq_iff
      split: if_splits option.splits)

lemma purge_entry:
  "store_invar s \<Longrightarrow> hm_get (ns_entries (snd (purge_expired t s))) n =
     (if ns_poisoned s then hm_get (ns_entries s) n
      else case hm_get (ns_entries s) n of None \<Rightarrow> None
           | Some e \<Rightarrow> if ne_expires_at e > t then Some e else None)"
  by (simp add: purge_expired_def Let_def store_invar_def hm.get_retain)

interpretation ns: nonce_store consume "\<lambda>t s. snd (purge_expired t s)" store_uses store_expiry store_invar
proof
  show "store_invar (snd (purge_expired t s))" if "store_invar s" for t s
    using that by (simp add: purge_expired_def Let_def store_invar_def hm.invar_retain)
  show "store_uses s n < unat m \<and> store_uses s' = (store_uses s)(n := store_uses s n + 1) \<and>
      unat u = store_uses s n + 1 \<and> store_expiry s' n = Some (or_else (store_expiry s n) x) \<and>
      (\<forall>k. k \<noteq> n \<longrightarrow> store_expiry s' k = store_expiry s k)"
    if "consume n m x s = (Inr (Accepted u), s')" for n m x s u s'
    using that by (rule consume_accepted)
  show "store_uses s' = store_uses s \<and> (\<forall>k. store_uses s k > 0 \<longrightarrow> store_expiry s' k = store_expiry s k) \<and>
      (\<forall>k. k \<noteq> n \<longrightarrow> store_expiry s' k = store_expiry s k) \<and>
      store_expiry s' n \<in> {store_expiry s n, Some (or_else (store_expiry s n) x)}"
    if "consume n m x s = (r, s')" "\<forall>u. r \<noteq> Inr (Accepted u)" for n m x s r s'
    using that by (rule consume_rejected)
qed (auto simp: consume_invar purge_entry store_uses_def store_expiry_def split: option.splits if_splits)

section \<open>Histories of a verifier\<close>

datatype verifier_event =
    Verify timestamp string PresentedAction
  | PurgeNonces timestamp

fun verifier_time :: "verifier_event \<Rightarrow> timestamp" where
  "verifier_time (Verify t tok p) = t"
| "verifier_time (PurgeNonces t) = t"

fun run_verifier ::
  "('sk, 'vk) crypto \<Rightarrow> 'vk CapabilityVerifier \<Rightarrow> InMemoryNonceStore \<Rightarrow> verifier_event list
   \<Rightarrow> VerifiedCapability list" where
  "run_verifier k v s [] = []"
| "run_verifier k v s (PurgeNonces t # es) = run_verifier k v (snd (purge_expired t s)) es"
| "run_verifier k v s (Verify t tok p # es) =
     (case verify_and_consume k v t tok p s of
        (Inr vc, s') \<Rightarrow> vc # run_verifier k v s' es
      | (Inl e, s') \<Rightarrow> run_verifier k v s' es)"

text \<open>The redemptions that reach the nonce store.\<close>

fun nonce_events ::
  "('sk, 'vk) crypto \<Rightarrow> 'vk CapabilityVerifier \<Rightarrow> verifier_event list \<Rightarrow> nonce_event list" where
  "nonce_events k v [] = []"
| "nonce_events k v (PurgeNonces t # es) = Purge t # nonce_events k v es"
| "nonce_events k v (Verify t tok p # es) =
     (case authenticate_token k v t tok p of
        Inl e \<Rightarrow> nonce_events k v es
      | Inr c \<Rightarrow> Redeem t (cc_nonce c) (cc_max_uses c) (cc_expires_at c) # nonce_events k v es)"

lemma run_verifier_accepts:
  "length (filter (\<lambda>vc. cc_nonce (vc_claims vc) = n) (run_verifier k v s es)) =
     accepts consume (\<lambda>t s. snd (purge_expired t s)) n s (nonce_events k v es)"
proof (induction k v s es rule: run_verifier.induct)
  case (3 k v s t tok p es)
  then show ?case
    by (auto simp: verify_and_consume_def split: sum.splits prod.splits NonceVerdict.splits)
qed simp_all

lemma nonce_events_times:
  "sorted (map verifier_time es) \<Longrightarrow> sorted (map event_time (nonce_events k v es)) \<and>
     event_time ` set (nonce_events k v es) \<subseteq> verifier_time ` set es"
proof (induction k v es rule: nonce_events.induct)
  case (3 k v t tok p es)
  then show ?case by (fastforce split: sum.splits)
qed auto

lemma check_lifetime_ok:
  "check_lifetime c now leeway = Inr () \<longleftrightarrow>
     now < cc_expires_at c \<and> cc_issued_at c - seconds (max leeway 0) \<le> now \<and>
     cc_issued_at c < cc_expires_at c \<and>
     num_seconds (cc_expires_at c - cc_issued_at c) \<le> MAX_CAPABILITY_TTL_SECONDS"
  by (auto simp: check_lifetime_def)

lemma check_binding_ok:
  "check_binding c p = Inr () \<longleftrightarrow>
     cc_version c = CLAIMS_VERSION \<and> cc_tenant_id c = ps_tenant_id p \<and>
     cc_environment_id c = ps_environment_id p \<and> cc_agent_id c = ps_agent_id p \<and>
     cc_agent_instance_id c = ps_agent_instance_id p \<and> cc_session_id c = ps_session_id p \<and>
     cc_principal_id c = ps_principal_id p \<and> cc_action_kind c = ps_action_kind p \<and>
     cc_operation c = ps_operation p \<and> cc_tool_id c = ps_tool_id p \<and>
     cc_target_resource c = ps_target_resource p \<and> cc_action_hash c = ps_action_hash p"
  by (auto simp: check_binding_def binding_def result_simps ct_eq_iff)

lemma authenticate_token_ok:
  "authenticate_token k v now tok p = Inr c \<longleftrightarrow>
     (\<exists>parsed key. token_parse k tok = Inr parsed \<and> th_alg (pt_header parsed) = ALG_ED25519 \<and>
        hm_get (cv_keys v) (th_kid (pt_header parsed)) = Some key \<and> length (pt_signature parsed) = 64 \<and>
        ed_verify k key (pt_signed_payload parsed) (pt_signature parsed) \<and>
        claims_parse k (pt_claims_json parsed) = Some c) \<and>
     check_lifetime c now (cv_leeway_seconds v) = Inr () \<and> check_binding c p = Inr ()"
  by (auto simp: authenticate_token_def check_signature_def result_simps)

lemma nonce_events_mem:
  "Redeem t n m x \<in> set (nonce_events k v es) \<longleftrightarrow>
     (\<exists>tok p c. Verify t tok p \<in> set es \<and> authenticate_token k v t tok p = Inr c \<and>
        n = cc_nonce c \<and> m = cc_max_uses c \<and> x = cc_expires_at c)"
proof (induction k v es rule: nonce_events.induct)
  case (3 k v t' tok p es)
  then show ?case by (cases "authenticate_token k v t' tok p") auto
qed auto

lemma nonce_events_uniform:
  assumes "\<And>t tok p c. Verify t tok p \<in> set es \<Longrightarrow> authenticate_token k v t tok p = Inr c \<Longrightarrow>
      cc_nonce c = n \<Longrightarrow> cc_max_uses c = m \<and> cc_expires_at c = x"
  shows "uniform n m x (nonce_events k v es)"
  unfolding uniform_def nonce_events_mem
proof (intro allI impI)
  fix t m' x'
  assume "\<exists>tok p c. Verify t tok p \<in> set es \<and> authenticate_token k v t tok p = Inr c \<and>
    n = cc_nonce c \<and> m' = cc_max_uses c \<and> x' = cc_expires_at c"
  then obtain tok p c where c: "Verify t tok p \<in> set es" "authenticate_token k v t tok p = Inr c"
    "n = cc_nonce c" "m' = cc_max_uses c" "x' = cc_expires_at c" by blast
  have "t < cc_expires_at c" using c(2) by (simp add: authenticate_token_ok check_lifetime_ok)
  with c assms [OF c(1,2)] show "m' = m \<and> x' = x \<and> t < x" by simp
qed

section \<open>From issuer to verifier\<close>

text \<open>What the codec and the signature scheme promise.\<close>

definition crypto_laws :: "('sk, 'vk) crypto \<Rightarrow> bool" where
  "crypto_laws k \<longleftrightarrow>
     (\<forall>b. b64_decode k (b64_encode k b) = Some b \<and> CHR ''.'' \<notin> set (b64_encode k b)) \<and>
     (\<forall>sk m. length (ed_sign k sk m) = 64 \<and> ed_verify k (ed_public k sk) m (ed_sign k sk m))"

text \<open>The action a claim set was made for.\<close>

definition presented_for :: "CapabilityClaims \<Rightarrow> PresentedAction" where
  "presented_for c = \<lparr>ps_tenant_id = cc_tenant_id c, ps_environment_id = cc_environment_id c,
     ps_agent_id = cc_agent_id c, ps_agent_instance_id = cc_agent_instance_id c,
     ps_session_id = cc_session_id c, ps_principal_id = cc_principal_id c,
     ps_action_kind = cc_action_kind c, ps_tool_id = cc_tool_id c, ps_operation = cc_operation c,
     ps_target_resource = cc_target_resource c, ps_action_hash = cc_action_hash c\<rparr>"

lemma token_parse_encode:
  assumes "crypto_laws k" "header_parse k (header_json k h) = Some h"
    "str_len (token_encode k h c sig) \<le> MAX_TOKEN_BYTES"
  shows "token_parse k (token_encode k h c sig) =
     Inr \<lparr>pt_header = h, pt_claims_json = c, pt_signature = sig,
          pt_signed_payload = signing_input (b64_encode k (header_json k h)) (b64_encode k c)\<rparr>"
proof -
  let ?parts = "[CAPABILITY_TOKEN_PREFIX, b64_encode k (header_json k h), b64_encode k c, b64_encode k sig]"
  have "split_on (\<lambda>c. c = CHR ''.'') (join_with [CHR ''.''] ?parts) = ?parts"
    using assms(1) by (intro split_on_join) (auto simp: crypto_laws_def CAPABILITY_TOKEN_PREFIX_def)
  moreover have "token_encode k h c sig = join_with [CHR ''.''] ?parts"
    by (simp add: token_encode_def)
  ultimately show ?thesis
    using assms by (simp add: token_parse_def crypto_laws_def)
qed

lemma issued_lifetime:
  assumes "now \<le> t" "t < now + seconds (clamp ttl 1 MAX_CAPABILITY_TTL_SECONDS)"
  shows "check_lifetime (issued_claims now nonce c ttl) t leeway = Inr ()"
proof -
  have b: "1 \<le> clamp ttl 1 MAX_CAPABILITY_TTL_SECONDS" "clamp ttl 1 MAX_CAPABILITY_TTL_SECONDS \<le> MAX_CAPABILITY_TTL_SECONDS"
    by (simp_all add: clamp_def MAX_CAPABILITY_TTL_SECONDS_def)
  moreover have "0 \<le> seconds (max leeway 0)" by (simp add: seconds_def nanos_per_second_def)
  moreover have "0 < seconds (clamp ttl 1 MAX_CAPABILITY_TTL_SECONDS)"
    using b by (simp add: seconds_def nanos_per_second_def)
  ultimately show ?thesis
    using assms by (simp add: check_lifetime_ok issued_claims_def Let_def)
qed

lemma issued_verifies:
  assumes "crypto_laws k"
    and "issue k nf issuer now nonce claims ttl = Inr (token, claims')"
    and "header_parse k (header_json k \<lparr>th_alg = ALG_ED25519, th_kid = ci_key_id issuer\<rparr>) =
           Some \<lparr>th_alg = ALG_ED25519, th_kid = ci_key_id issuer\<rparr>"
    and "\<And>b. canonical_bytes nf (claims_value k claims') = Inr b \<Longrightarrow> claims_parse k b = Some claims'"
    and "str_len token \<le> MAX_TOKEN_BYTES"
    and "hm_get (cv_keys v) (ci_key_id issuer) = Some (ed_public k (ci_key issuer))"
    and "now \<le> t" and "t < now + seconds (clamp ttl 1 MAX_CAPABILITY_TTL_SECONDS)"
    and "\<not> ns_poisoned s" and "hm_get (ns_entries s) nonce = None"
  shows "fst (verify_and_consume k v t token (presented_for claims) s) =
     Inr \<lparr>vc_claims = claims', vc_use_number = 1, vc_verified_at = t\<rparr>"
proof -
  let ?h = "\<lparr>th_alg = ALG_ED25519, th_kid = ci_key_id issuer\<rparr>"
  from assms(2) obtain b where b: "canonical_bytes nf (claims_value k claims') = Inr b"
    and claims': "claims' = issued_claims now nonce claims ttl"
    and token: "token = token_encode k ?h b (ed_sign k (ci_key issuer)
       (signing_input (b64_encode k (header_json k ?h)) (b64_encode k b)))"
    by (auto simp: issue_def Let_def split: sum.splits)
  have parsed: "token_parse k token = Inr \<lparr>pt_header = ?h, pt_claims_json = b,
      pt_signature = ed_sign k (ci_key issuer) (signing_input (b64_encode k (header_json k ?h)) (b64_encode k b)),
      pt_signed_payload = signing_input (b64_encode k (header_json k ?h)) (b64_encode k b)\<rparr>"
    unfolding token using assms(5) [unfolded token] by (rule token_parse_encode [OF assms(1,3)])
  have "check_binding claims' (presented_for claims) = Inr ()"
    by (simp add: check_binding_ok claims' issued_claims_def Let_def presented_for_def)
  moreover have "check_lifetime claims' t (cv_leeway_seconds v) = Inr ()"
    unfolding claims' using assms(7,8) by (rule issued_lifetime)
  ultimately have "authenticate_token k v t token (presented_for claims) = Inr claims'"
    using parsed assms(1,4,6) b by (simp add: authenticate_token_ok crypto_laws_def)
  moreover have "cc_nonce claims' = nonce" "cc_max_uses claims' \<noteq> 0"
    by (simp_all add: claims' issued_claims_def Let_def)
  ultimately show ?thesis
    using assms(9,10)
    by (simp add: verify_and_consume_def consume_def or_else_def Let_def)
qed

section \<open>Sample inputs\<close>

text \<open>
  A concrete instance of the cryptographic parameters: hexadecimal digits for Base64, one known
  claim set, and a signature scheme that signs everything with a constant.
\<close>

definition sample_claims :: CapabilityClaims where
  "sample_claims = \<lparr>cc_version = ''vcap.v1'', cc_capability_id = ''c1'', cc_tenant_id = ''t1'',
     cc_environment_id = ''prod'', cc_agent_id = ''a1'', cc_agent_instance_id = ''i1'', cc_session_id = ''s1'',
     cc_principal_id = ''u1'', cc_action_kind = ''shell'', cc_tool_id = None, cc_operation = ''exec'',
     cc_target_resource = None, cc_action_hash = \<lparr>ch_algorithm = Sha256, ch_hex = ''00''\<rparr>,
     cc_remit_version = ''r1'', cc_policy_bundle_version = ''b1'', cc_approval_id = None, cc_constraints = [],
     cc_issued_at = 0, cc_expires_at = seconds 60, cc_nonce = ''n1'', cc_max_uses = 1\<rparr>"

definition sample_presented :: PresentedAction where
  "sample_presented = \<lparr>ps_tenant_id = ''t1'', ps_environment_id = ''prod'', ps_agent_id = ''a1'',
     ps_agent_instance_id = ''i1'', ps_session_id = ''s1'', ps_principal_id = ''u1'', ps_action_kind = ''shell'',
     ps_tool_id = None, ps_operation = ''exec'', ps_target_resource = None,
     ps_action_hash = \<lparr>ch_algorithm = Sha256, ch_hex = ''00''\<rparr>\<rparr>"

definition sample_header :: TokenHeader where
  "sample_header = \<lparr>th_alg = ''Ed25519'', th_kid = ''k1''\<rparr>"

definition unary :: "u8 list \<Rightarrow> string" where
  "unary bs = replicate (length bs) (CHR ''A'')"

definition sample_crypto :: "(unit, unit) crypto" where
  "sample_crypto = \<lparr>b64_encode = unary, b64_decode = (\<lambda>s. Some (replicate (length s) 0)),
     header_json = (\<lambda>h. [0]), header_parse = (\<lambda>b. if b = [0] then Some sample_header else None),
     claims_value = (\<lambda>c. JNull), claims_parse = (\<lambda>b. if b = [0, 0, 0, 0] then Some sample_claims else None),
     ed_sign = (\<lambda>k m. replicate 64 0), ed_verify = (\<lambda>k m s. s = replicate 64 0), ed_public = id\<rparr>"

definition sample_verifier :: "unit CapabilityVerifier" where
  "sample_verifier = trust_key ''k1'' () verifier_new"

definition sample_token :: string where
  "sample_token = ''vcap1.A.AAAA.'' @ replicate 64 (CHR ''A'')"

lemma sample_authenticates:
  "0 \<le> t \<Longrightarrow> t < seconds 60 \<Longrightarrow>
     authenticate_token sample_crypto sample_verifier t sample_token sample_presented = Inr sample_claims"
proof -
  assume t: "0 \<le> t" "t < seconds 60"
  have "token_parse sample_crypto sample_token = Inr \<lparr>pt_header = sample_header,
      pt_claims_json = [0, 0, 0, 0], pt_signature = replicate 64 0, pt_signed_payload = signing_input ''A'' ''AAAA''\<rparr>"
    by code_simp
  moreover have "hm_get (cv_keys sample_verifier) ''k1'' = Some ()"
    by (simp add: sample_verifier_def trust_key_def)
  moreover have "check_lifetime sample_claims t (cv_leeway_seconds sample_verifier) = Inr ()"
    using t by (simp add: check_lifetime_ok sample_claims_def sample_verifier_def trust_key_def verifier_new_def
        MAX_CAPABILITY_TTL_SECONDS_def CLOCK_SKEW_LEEWAY_SECONDS_def) (simp add: seconds_def nanos_per_second_def)
  moreover have "check_binding sample_claims sample_presented = Inr ()"
    by (simp add: check_binding_ok sample_claims_def sample_presented_def CLAIMS_VERSION_def)
  ultimately show ?thesis
    by (simp add: authenticate_token_ok sample_header_def ALG_ED25519_def sample_crypto_def)
qed

definition hex_encode :: "u8 list \<Rightarrow> string" where
  "hex_encode bs = concat (map (\<lambda>b. [hex_digit (unat b div 16), hex_digit (unat b mod 16)]) bs)"

definition hex_value :: "char \<Rightarrow> nat" where
  "hex_value c = (let n = (of_char c :: nat) in if n < 58 then n - 48 else n - 87)"

fun hex_decode :: "string \<Rightarrow> u8 list option" where
  "hex_decode [] = Some []"
| "hex_decode (a # b # cs) = map_option (\<lambda>bs. of_nat (16 * hex_value a + hex_value b) # bs) (hex_decode cs)"
| "hex_decode [a] = None"

lemma hex_value_digit: "n < 16 \<Longrightarrow> hex_value (hex_digit n) = n"
  by (auto simp: hex_value_def hex_digit_def of_char_of)

lemma hex_decode_encode: "hex_decode (hex_encode bs) = Some bs"
proof (induction bs)
  case (Cons b bs)
  have "unat b < 256" using unsigned_less [of b] by simp
  then have "unat b div 16 < 16" by simp
  moreover have "16 * (unat b div 16) + unat b mod 16 = unat b" by simp
  ultimately show ?case using Cons by (simp add: hex_encode_def hex_value_digit)
qed (simp add: hex_encode_def)

lemma hex_encode_no_dot: "CHR ''.'' \<notin> set (hex_encode bs)"
proof -
  have "CHR ''.'' \<noteq> hex_digit n" if "n < 16" for n
  proof
    assume "CHR ''.'' = hex_digit n"
    then have "(of_char (CHR ''.'') :: nat) = of_char (hex_digit n)" by simp
    with that show False by (simp add: hex_digit_def of_char_of split: if_splits)
  qed
  moreover have "unat b div 16 < 16" for b :: u8
  proof -
    have "unat b < 256" using unsigned_less [of b] by simp
    then show ?thesis by simp
  qed
  ultimately show ?thesis by (auto simp: hex_encode_def)
qed

text \<open>The same parameters with hexadecimal text, for which Base64's round trip holds.\<close>

definition hex_crypto :: "(unit, unit) crypto" where
  "hex_crypto = sample_crypto\<lparr>b64_encode := hex_encode, b64_decode := hex_decode,
     claims_parse := (\<lambda>b. Some (issued_claims 0 ''n1'' sample_claims 60))\<rparr>"

section \<open>Properties\<close>

text \<open>
  C13: a capability is redeemed at most as often as it allows. Over any sequence of verifications, by
  anyone with any tokens, and purges of the nonce store, at instants that do not go back, the
  verifier accepts at most \<open>max_uses\<close> redemptions of a nonce, provided every accepted token with that
  nonce states the same limit and expiry, which unguessable nonces and unforgeable signatures give.
\<close>

theorem capability_use_limit:
  assumes "sorted (map verifier_time es)"
    and "\<And>t tok p c. Verify t tok p \<in> set es \<Longrightarrow> authenticate_token k v t tok p = Inr c \<Longrightarrow>
           cc_nonce c = n \<Longrightarrow> cc_max_uses c = m \<and> cc_expires_at c = x"
  shows "length (filter (\<lambda>vc. cc_nonce (vc_claims vc) = n) (run_verifier k v nonce_store_new es)) \<le> unat m"
proof -
  have "store_uses nonce_store_new n + accepts consume (\<lambda>t s. snd (purge_expired t s)) n nonce_store_new
      (nonce_events k v es) \<le> unat m"
    using nonce_events_times [OF assms(1), of k v]
    by (intro ns.accepts_bound [where x = x] nonce_events_uniform [OF assms(2)])
      (auto simp: store_invar_def nonce_store_new_def hm_invar_def store_expiry_def store_uses_def)
  then show ?thesis by (simp add: run_verifier_accepts)
qed

theorem capability_use_limit_witness:
  "length (filter (\<lambda>vc. cc_nonce (vc_claims vc) = ''n1'') (run_verifier sample_crypto sample_verifier nonce_store_new
     [Verify 1 sample_token sample_presented, PurgeNonces 2, Verify 3 sample_token sample_presented])) \<le> 1"
proof -
  let ?es = "[Verify 1 sample_token sample_presented, PurgeNonces 2, Verify 3 sample_token sample_presented]"
  have "sorted (map verifier_time ?es)" by simp
  moreover have "cc_max_uses c = 1 \<and> cc_expires_at c = seconds 60"
    if "Verify t tok p \<in> set ?es" "authenticate_token sample_crypto sample_verifier t tok p = Inr c" for t tok p c
  proof -
    have "authenticate_token sample_crypto sample_verifier t tok p = Inr sample_claims"
      using that(1) sample_authenticates by (auto simp: seconds_def nanos_per_second_def)
    then show ?thesis using that(2) by (simp add: sample_claims_def)
  qed
  ultimately show ?thesis
    using capability_use_limit [of ?es sample_crypto sample_verifier "''n1''" 1 "seconds 60"] by simp
qed

text \<open>
  An accepted verification means that the token was signed by a trusted key under the allowed
  algorithm, that the clock is inside the lifetime, which is at most 900 whole seconds long, and that
  every binding equals what was presented; the store counts exactly one more use of that nonce. A
  rejected verification changes no use count, and leaves the store as it was unless the nonce was
  consulted.
\<close>

theorem verify_and_consume_sound:
  assumes "verify_and_consume k v now tok p s = (r, s')"
  shows "case r of
     Inr vc \<Rightarrow>
       (\<exists>parsed key. token_parse k tok = Inr parsed \<and> th_alg (pt_header parsed) = ALG_ED25519 \<and>
          hm_get (cv_keys v) (th_kid (pt_header parsed)) = Some key \<and>
          ed_verify k key (pt_signed_payload parsed) (pt_signature parsed) \<and>
          claims_parse k (pt_claims_json parsed) = Some (vc_claims vc)) \<and>
       now < cc_expires_at (vc_claims vc) \<and>
       num_seconds (cc_expires_at (vc_claims vc) - cc_issued_at (vc_claims vc)) \<le> MAX_CAPABILITY_TTL_SECONDS \<and>
       cc_tenant_id (vc_claims vc) = ps_tenant_id p \<and> cc_agent_id (vc_claims vc) = ps_agent_id p \<and>
       cc_session_id (vc_claims vc) = ps_session_id p \<and> cc_principal_id (vc_claims vc) = ps_principal_id p \<and>
       cc_action_hash (vc_claims vc) = ps_action_hash p \<and>
       unat (vc_use_number vc) = store_uses s (cc_nonce (vc_claims vc)) + 1 \<and>
       vc_use_number vc \<le> cc_max_uses (vc_claims vc) \<and>
       store_uses s' = (store_uses s)(cc_nonce (vc_claims vc) := store_uses s (cc_nonce (vc_claims vc)) + 1)
   | Inl e \<Rightarrow>
       store_uses s' = store_uses s \<and> ((\<forall>c. authenticate_token k v now tok p \<noteq> Inr c) \<longrightarrow> s' = s)"
proof (cases "authenticate_token k v now tok p")
  case (Inl e)
  with assms show ?thesis by (auto simp: verify_and_consume_def)
next
  case (Inr c)
  obtain rr s2 where c: "consume (cc_nonce c) (cc_max_uses c) (cc_expires_at c) s = (rr, s2)"
    by (cases "consume (cc_nonce c) (cc_max_uses c) (cc_expires_at c) s")
  show ?thesis
  proof (cases "\<exists>u. rr = Inr (Accepted u)")
    case True
    then obtain u where u: "rr = Inr (Accepted u)" by blast
    have r: "r = Inr \<lparr>vc_claims = c, vc_use_number = u, vc_verified_at = now\<rparr>" "s' = s2"
      using assms Inr c u by (auto simp: verify_and_consume_def)
    note a = consume_accepted [OF c [unfolded u]]
    have "u \<le> cc_max_uses c" using a by (simp add: word_le_nat_alt)
    with r a Inr show ?thesis
      by (auto simp: authenticate_token_ok check_lifetime_ok check_binding_ok)
  next
    case False
    then have "\<exists>e. r = Inl e" "s' = s2"
      using assms Inr c by (auto simp: verify_and_consume_def split: sum.splits NonceVerdict.splits)
    with consume_rejected [OF c] False Inr show ?thesis by auto
  qed
qed

theorem verify_and_consume_sound_witness:
  "\<exists>vc s'. verify_and_consume sample_crypto sample_verifier 1 sample_token sample_presented nonce_store_new =
     (Inr vc, s') \<and> store_uses s' = (store_uses nonce_store_new)(''n1'' := 1)"
proof -
  have a: "authenticate_token sample_crypto sample_verifier 1 sample_token sample_presented = Inr sample_claims"
    by (rule sample_authenticates) (simp_all add: seconds_def nanos_per_second_def)
  have n: "cc_nonce sample_claims = ''n1''" "cc_max_uses sample_claims = 1" by (simp_all add: sample_claims_def)
  obtain vc s' where v: "verify_and_consume sample_crypto sample_verifier 1 sample_token sample_presented
      nonce_store_new = (Inr vc, s')" "vc_claims vc = sample_claims"
    using a by (auto simp: verify_and_consume_def consume_def nonce_store_new_def n or_else_def Let_def)
  have "store_uses nonce_store_new ''n1'' = 0" by (simp add: store_uses_def nonce_store_new_def)
  then show ?thesis
    using verify_and_consume_sound [OF v(1)] v n by auto
qed

text \<open>
  A capability the issuer mints verifies. Presented with the action it was minted for, at any
  instant of its lifetime, to a verifier that trusts the issuer's key and has not seen its nonce, it
  is accepted as its first use, whatever lifetime was asked for.
\<close>

theorem issued_capability_verifies:
  assumes "crypto_laws k"
    and "issue k nf issuer now nonce claims ttl = Inr (token, claims')"
    and "header_parse k (header_json k \<lparr>th_alg = ALG_ED25519, th_kid = ci_key_id issuer\<rparr>) =
           Some \<lparr>th_alg = ALG_ED25519, th_kid = ci_key_id issuer\<rparr>"
    and "\<And>b. canonical_bytes nf (claims_value k claims') = Inr b \<Longrightarrow> claims_parse k b = Some claims'"
    and "str_len token \<le> MAX_TOKEN_BYTES"
    and "hm_get (cv_keys v) (ci_key_id issuer) = Some (ed_public k (ci_key issuer))"
    and "now \<le> t" and "t < now + seconds (clamp ttl 1 MAX_CAPABILITY_TTL_SECONDS)"
    and "\<not> ns_poisoned s" and "hm_get (ns_entries s) nonce = None"
  shows "fst (verify_and_consume k v t token (presented_for claims) s) =
     Inr \<lparr>vc_claims = claims', vc_use_number = 1, vc_verified_at = t\<rparr>"
  using assms by (rule issued_verifies)

theorem issued_capability_verifies_witness:
  "\<exists>token c. issue hex_crypto sample_format \<lparr>ci_key_id = ''k1'', ci_key = ()\<rparr> 0 ''n1'' sample_claims 60 = Inr (token, c) \<and>
     fst (verify_and_consume hex_crypto sample_verifier (seconds 59) token (presented_for sample_claims) nonce_store_new) =
       Inr \<lparr>vc_claims = c, vc_use_number = 1, vc_verified_at = seconds 59\<rparr>"
proof -
  let ?i = "\<lparr>ci_key_id = ''k1'', ci_key = ()\<rparr>"
  have laws: "crypto_laws hex_crypto"
    by (simp add: crypto_laws_def hex_crypto_def sample_crypto_def hex_decode_encode hex_encode_no_dot)
  obtain token c where i: "issue hex_crypto sample_format ?i 0 ''n1'' sample_claims 60 = Inr (token, c)"
    and c: "c = issued_claims 0 ''n1'' sample_claims 60"
    and tok: "token = token_encode hex_crypto \<lparr>th_alg = ALG_ED25519, th_kid = ''k1''\<rparr> (utf8 ''null'') (replicate 64 0)"
    by (simp add: issue_def Let_def canonical_bytes_def canonicalize_def hex_crypto_def sample_crypto_def)
  have "str_len token \<le> MAX_TOKEN_BYTES" unfolding tok by code_simp
  moreover have "header_parse hex_crypto (header_json hex_crypto \<lparr>th_alg = ALG_ED25519, th_kid = ci_key_id ?i\<rparr>) =
      Some \<lparr>th_alg = ALG_ED25519, th_kid = ci_key_id ?i\<rparr>"
    by (simp add: hex_crypto_def sample_crypto_def sample_header_def ALG_ED25519_def)
  moreover have "hm_get (cv_keys sample_verifier) (ci_key_id ?i) = Some (ed_public hex_crypto (ci_key ?i))"
    by (simp add: sample_verifier_def trust_key_def)
  moreover have "claims_parse hex_crypto b = Some c" for b
    by (simp add: hex_crypto_def c)
  ultimately have "fst (verify_and_consume hex_crypto sample_verifier (seconds 59) token (presented_for sample_claims)
      nonce_store_new) = Inr \<lparr>vc_claims = c, vc_use_number = 1, vc_verified_at = seconds 59\<rparr>"
    using issued_capability_verifies [OF laws i, of sample_verifier "seconds 59" nonce_store_new]
    by (simp add: nonce_store_new_def seconds_def nanos_per_second_def clamp_def MAX_CAPABILITY_TTL_SECONDS_def)
  with i show ?thesis by blast
qed

end
