(* ===== verification/Dlp.thy ===== *)
theory Dlp
  imports Redact
begin

text \<open>
  Sensitive-data classification (\<^verbatim>\<open>vigil-detect/src/dlp.rs\<close>). The regular-expression engine is a
  parameter: for a pattern and a text it gives the matches in order, each with its byte span and its
  text. The base-two logarithm of the entropy test is a parameter too; sums are exact.
\<close>

datatype DataClass =
    ApiKey | CloudCredential | PrivateKey | Jwt | DatabaseUri | Password | HighEntropySecret
  | EmailAddress | PhoneNumber | PaymentCard | NationalId | IpAddress

fun class_as_str :: "DataClass \<Rightarrow> string" where
  "class_as_str ApiKey = ''api_key''"
| "class_as_str CloudCredential = ''cloud_credential''"
| "class_as_str PrivateKey = ''private_key''"
| "class_as_str Jwt = ''jwt''"
| "class_as_str DatabaseUri = ''database_uri''"
| "class_as_str Password = ''password''"
| "class_as_str HighEntropySecret = ''high_entropy_secret''"
| "class_as_str EmailAddress = ''email_address''"
| "class_as_str PhoneNumber = ''phone_number''"
| "class_as_str PaymentCard = ''payment_card''"
| "class_as_str NationalId = ''national_id''"
| "class_as_str IpAddress = ''ip_address''"

fun class_taint :: "DataClass \<Rightarrow> TaintKind" where
  "class_taint ApiKey = Secret"
| "class_taint HighEntropySecret = Secret"
| "class_taint PrivateKey = Secret"
| "class_taint CloudCredential = Credential"
| "class_taint DatabaseUri = Credential"
| "class_taint Password = Credential"
| "class_taint Jwt = AuthenticationData"
| "class_taint PaymentCard = FinancialData"
| "class_taint EmailAddress = Pii"
| "class_taint PhoneNumber = Pii"
| "class_taint NationalId = Pii"
| "class_taint IpAddress = Pii"

definition fingerprintable :: "DataClass \<Rightarrow> bool" where
  "fingerprintable c = (c \<notin> {EmailAddress, PhoneNumber, NationalId, IpAddress})"

fun class_risk_weight :: "DataClass \<Rightarrow> rat" where
  "class_risk_weight PrivateKey = 1"
| "class_risk_weight CloudCredential = 1"
| "class_risk_weight ApiKey = 9 / 10"
| "class_risk_weight DatabaseUri = 9 / 10"
| "class_risk_weight Password = 9 / 10"
| "class_risk_weight Jwt = 8 / 10"
| "class_risk_weight HighEntropySecret = 7 / 10"
| "class_risk_weight PaymentCard = 8 / 10"
| "class_risk_weight NationalId = 7 / 10"
| "class_risk_weight EmailAddress = 3 / 10"
| "class_risk_weight PhoneNumber = 3 / 10"
| "class_risk_weight IpAddress = 2 / 10"

record Finding =
  fi_class :: DataClass
  fi_path :: string
  fi_evidence :: string
  fi_length :: nat

text \<open>
  The compiled patterns in their order, named by the class and the position within the class; what
  each one matches is the engine's answer.
\<close>

definition dlp_patterns :: "(DataClass \<times> nat) list" where
  "dlp_patterns =
     [(PrivateKey, 0), (CloudCredential, 0), (CloudCredential, 1), (ApiKey, 0), (ApiKey, 1), (ApiKey, 2),
      (Jwt, 0), (DatabaseUri, 0), (Password, 0), (PaymentCard, 0), (NationalId, 0), (EmailAddress, 0),
      (PhoneNumber, 0)]"

record regex_match =
  mt_start :: nat
  mt_end :: nat
  mt_text :: string

record dlp_env =
  de_codec :: value_codec
  de_find_iter :: "DataClass \<times> nat \<Rightarrow> string \<Rightarrow> regex_match list"
  de_log2 :: "rat \<Rightarrow> rat"

definition MAX_SCAN_BYTES :: int where
  "MAX_SCAN_BYTES = 256 * 1024"

text \<open>The longest prefix of at most the given number of bytes, cut on a character boundary.\<close>

fun take_bytes :: "int \<Rightarrow> string \<Rightarrow> string" where
  "take_bytes n [] = []"
| "take_bytes n (c # cs) =
     (let w = int (str_len [c]) in if w \<le> n then c # take_bytes (n - w) cs else [])"

definition scan_head :: "string \<Rightarrow> string" where
  "scan_head content = (if int (str_len content) > MAX_SCAN_BYTES then take_bytes MAX_SCAN_BYTES content else content)"

definition evidence_for :: "dlp_env \<Rightarrow> DataClass \<Rightarrow> string \<Rightarrow> string" where
  "evidence_for e c v = (if fingerprintable c then fingerprint (de_codec e) v else redact_low_entropy v)"

definition finding_of :: "dlp_env \<Rightarrow> string \<Rightarrow> DataClass \<Rightarrow> string \<Rightarrow> Finding" where
  "finding_of e path c v = \<lparr>fi_class = c, fi_path = path, fi_evidence = evidence_for e c v, fi_length = str_len v\<rparr>"

section \<open>The Luhn check\<close>

definition luhn_digit :: "nat \<Rightarrow> nat \<Rightarrow> nat" where
  "luhn_digit i d = (if i mod 2 = 1 then (if 2 * d > 9 then 2 * d - 9 else 2 * d) else d)"

definition luhn_sum :: "nat list \<Rightarrow> nat" where
  "luhn_sum ds = sum_list (map (\<lambda>(i, d). luhn_digit i d) (enumerate 0 (rev ds)))"

definition is_probable_card :: "string \<Rightarrow> bool" where
  "is_probable_card candidate =
     (let digits = List.map_filter digit_value candidate
      in 13 \<le> length digits \<and> length digits \<le> 19 \<and> luhn_sum digits mod 10 = 0)"

section \<open>Entropy\<close>

definition byte_counts :: "u8 list \<Rightarrow> nat list" where
  "byte_counts bs = filter (\<lambda>n. 0 < n) (map (\<lambda>b. count_list bs (of_nat b)) [0..<256])"

definition shannon_entropy :: "(rat \<Rightarrow> rat) \<Rightarrow> string \<Rightarrow> rat" where
  "shannon_entropy log2 s =
     (if s = [] then 0
      else let bs = utf8 s; total = of_nat (length bs)
           in sum_list (map (\<lambda>n. let p = of_nat n / total in - p * log2 p) (byte_counts bs)))"

definition has_mixed_character_classes :: "string \<Rightarrow> bool" where
  "has_mixed_character_classes s =
     (let lower = list_ex (\<lambda>c. CHR ''a'' \<le> c \<and> c \<le> CHR ''z'') s;
          upper = list_ex (\<lambda>c. CHR ''A'' \<le> c \<and> c \<le> CHR ''Z'') s;
          digit = list_ex (\<lambda>c. CHR ''0'' \<le> c \<and> c \<le> CHR ''9'') s
      in (lower \<and> upper \<and> digit) \<or> (digit \<and> (lower \<or> upper) \<and> str_len s \<ge> 32))"

section \<open>Classification\<close>

record dlp_state =
  ds_findings :: "Finding list"
  ds_claimed :: "(nat \<times> nat) list"

definition classify_match :: "dlp_env \<Rightarrow> string \<Rightarrow> DataClass \<Rightarrow> regex_match \<Rightarrow> dlp_state \<Rightarrow> dlp_state" where
  "classify_match e path c m st =
     (if list_ex (\<lambda>(s, t). mt_start m < t \<and> s < mt_end m) (ds_claimed st) then st
      else if c = PaymentCard \<and> \<not> is_probable_card (mt_text m) then st
      else \<lparr>ds_findings = ds_findings st @ [finding_of e path c (mt_text m)],
            ds_claimed = ds_claimed st @ [(mt_start m, mt_end m)]\<rparr>)"

definition classify_patterns :: "dlp_env \<Rightarrow> string \<Rightarrow> string \<Rightarrow> dlp_state" where
  "classify_patterns e path content =
     fold (\<lambda>(c, i). fold (classify_match e path c) (de_find_iter e (c, i) content)) dlp_patterns
       \<lparr>ds_findings = [], ds_claimed = []\<rparr>"

definition token_char :: "char \<Rightarrow> bool" where
  "token_char c = (is_ascii_alphanumeric c \<or> c = CHR ''-'' \<or> c = CHR ''_'')"

definition classify_token :: "dlp_env \<Rightarrow> string \<Rightarrow> string \<Rightarrow> Finding list \<Rightarrow> Finding list" where
  "classify_token e path token fs =
     (if str_len token < 24 \<or> str_len token > 512 then fs
      else if list_ex (\<lambda>f. fi_length f = str_len token) fs then fs
      else if shannon_entropy (de_log2 e) token \<ge> 4 \<and> has_mixed_character_classes token
           then fs @ [finding_of e path HighEntropySecret token] else fs)"

definition dlp_classify :: "dlp_env \<Rightarrow> string \<Rightarrow> string \<Rightarrow> Finding list" where
  "dlp_classify e path content =
     (let content = scan_head content
      in fold (classify_token e path) (split_on (\<lambda>c. \<not> token_char c) content)
           (ds_findings (classify_patterns e path content)))"

definition classify_all :: "dlp_env \<Rightarrow> (string \<times> string) list \<Rightarrow> Finding list" where
  "classify_all e strings = concat (map (\<lambda>(path, content). dlp_classify e path content) strings)"

definition taints_of :: "Finding list \<Rightarrow> TaintKind list" where
  "taints_of fs = filter (\<lambda>t. t \<in> (class_taint \<circ> fi_class) ` set fs) all_taints"

definition peak_risk :: "Finding list \<Rightarrow> rat" where
  "peak_risk fs = fold max (map (class_risk_weight \<circ> fi_class) fs) 0"

section \<open>Lemmas\<close>

lemma all_taints_complete [simp]: "t \<in> set all_taints"
  by (cases t) (simp_all add: all_taints_def)

lemma taints_of_set [simp]: "set (taints_of fs) = (class_taint \<circ> fi_class) ` set fs"
  by (auto simp: taints_of_def)

text \<open>Every finding is the evidence of some value, and evidence is a mark or a fingerprint.\<close>

definition evidential :: "dlp_env \<Rightarrow> string \<Rightarrow> Finding list \<Rightarrow> bool" where
  "evidential e path fs = list_all (\<lambda>f. \<exists>v. f = finding_of e path (fi_class f) v) fs"

lemma evidential_simps:
  "evidential e path []" "evidential e path (fs @ gs) \<longleftrightarrow> evidential e path fs \<and> evidential e path gs"
  "evidential e path [finding_of e path c v]"
  by (auto simp: evidential_def finding_of_def)

lemma fold_invariant: "P s \<Longrightarrow> (\<And>x s. x \<in> set xs \<Longrightarrow> P s \<Longrightarrow> P (f x s)) \<Longrightarrow> P (fold f xs s)"
  by (induction xs arbitrary: s) auto

lemma classify_patterns_evidential: "evidential e path (ds_findings (classify_patterns e path content))"
  unfolding classify_patterns_def
  by (rule fold_invariant [where P = "\<lambda>st. evidential e path (ds_findings st)"])
     (auto simp: evidential_simps classify_match_def
           intro!: fold_invariant [where P = "\<lambda>st. evidential e path (ds_findings st)"])

lemma dlp_classify_evidential: "evidential e path (dlp_classify e path content)"
  unfolding dlp_classify_def Let_def
  by (rule fold_invariant) (auto simp: classify_patterns_evidential classify_token_def evidential_simps)

text \<open>Claimed spans are pairwise disjoint: no text is reported by two patterns.\<close>

definition disjoint_spans :: "(nat \<times> nat) list \<Rightarrow> bool" where
  "disjoint_spans cs = (\<forall>i < length cs. \<forall>j < i. \<not> (fst (cs ! i) < snd (cs ! j) \<and> fst (cs ! j) < snd (cs ! i)))"

lemma disjoint_spans_snoc:
  "disjoint_spans (cs @ [c]) \<longleftrightarrow> disjoint_spans cs \<and> \<not> list_ex (\<lambda>(s, t). fst c < t \<and> s < snd c) cs"
  by (auto simp: disjoint_spans_def nth_append less_Suc_eq list_ex_length split_beta)

lemma classify_match_disjoint: "disjoint_spans (ds_claimed st) \<Longrightarrow> disjoint_spans (ds_claimed (classify_match e path c m st))"
  by (auto simp: classify_match_def disjoint_spans_snoc)

lemma classify_patterns_disjoint: "disjoint_spans (ds_claimed (classify_patterns e path content))"
  unfolding classify_patterns_def
  by (rule fold_invariant [where P = "\<lambda>st. disjoint_spans (ds_claimed st)"])
     (auto simp: disjoint_spans_def [of "[]"]
           intro!: fold_invariant [where P = "\<lambda>st. disjoint_spans (ds_claimed st)"] classify_match_disjoint)

text \<open>Doubling and casting out nines is a permutation of the digits, so one changed digit changes the check sum.\<close>

lemma luhn_digit_inj:
  assumes "a < 10" "b < 10"
  shows "luhn_digit i a mod 10 = luhn_digit i b mod 10 \<longleftrightarrow> a = b"
proof -
  have small: "luhn_digit i d < 10" if "d < 10" for d
    using that by (auto simp: luhn_digit_def)
  have "luhn_digit i a = luhn_digit i b \<longleftrightarrow> a = b"
    using assms by (simp add: luhn_digit_def) presburger
  then show ?thesis using small assms by simp
qed

lemma luhn_sum_update:
  assumes "k < length ds"
  shows "luhn_sum (ds[k := d]) + luhn_digit (length ds - Suc k) (ds ! k) =
         luhn_sum ds + luhn_digit (length ds - Suc k) d"
proof -
  let ?f = "\<lambda>(i, d). luhn_digit i d"
  have r: "rev (ds[k := d]) = (rev ds)[length ds - Suc k := d]"
    using assms by (simp add: rev_update)
  have split: "sum_list (map ?f (enumerate n (xs[j := d]))) + luhn_digit (n + j) (xs ! j) =
      sum_list (map ?f (enumerate n xs)) + luhn_digit (n + j) d" if "j < length xs" for n j xs
    using that
  proof (induction xs arbitrary: n j)
    case (Cons x xs)
    then show ?case
      using Cons.IH [of "j - 1" "Suc n"] by (cases j) auto
  qed simp
  have "(rev ds) ! (length ds - Suc k) = ds ! k"
    using assms by (simp add: rev_nth)
  with split [of "length ds - Suc k" "rev ds" 0] assms show ?thesis
    by (simp add: luhn_sum_def r)
qed

section \<open>Properties\<close>

text \<open>What became of a match: its span is claimed, an overlapping span is, or it failed the card check.\<close>

definition accounted :: "DataClass \<Rightarrow> regex_match \<Rightarrow> (nat \<times> nat) list \<Rightarrow> bool" where
  "accounted c m claimed \<longleftrightarrow>
     (mt_start m, mt_end m) \<in> set claimed \<or>
     list_ex (\<lambda>(s, t). mt_start m < t \<and> s < mt_end m) claimed \<or>
     (c = PaymentCard \<and> \<not> is_probable_card (mt_text m))"

lemma accounted_mono: "accounted c m cs \<Longrightarrow> set cs \<subseteq> set cs' \<Longrightarrow> accounted c m cs'"
  by (auto simp: accounted_def list_ex_iff)

lemma classify_match_mono: "set (ds_claimed st) \<subseteq> set (ds_claimed (classify_match e path c m st))"
  by (auto simp: classify_match_def)

lemma classify_match_accounted: "accounted c m (ds_claimed (classify_match e path c m st))"
  by (auto simp: classify_match_def accounted_def list_ex_iff)

lemma fold_classify_mono: "set (ds_claimed st) \<subseteq> set (ds_claimed (fold (classify_match e path c) ms st))"
  by (induction ms arbitrary: st) (auto dest: subsetD [OF classify_match_mono])

lemma fold_classify_accounted:
  "m \<in> set ms \<Longrightarrow> accounted c m (ds_claimed (fold (classify_match e path c) ms st))"
proof (induction ms arbitrary: st)
  case (Cons a ms)
  then show ?case
    using accounted_mono [OF classify_match_accounted fold_classify_mono] by auto
qed simp

lemma classify_patterns_accounted:
  assumes "(c, i) \<in> set ps" "m \<in> set (f (c, i))"
  shows "accounted c m (ds_claimed (fold (\<lambda>(c, i). fold (classify_match e path c) (f (c, i))) ps st))"
  using assms
proof (induction ps arbitrary: st)
  case (Cons p ps)
  have mono: "set (ds_claimed st) \<subseteq> set (ds_claimed (fold (\<lambda>(c, i). fold (classify_match e path c) (f (c, i))) ps st))" for st
  proof (induction ps arbitrary: st)
    case (Cons q qs)
    then show ?case
      by (cases q) (use fold_classify_mono in \<open>force dest: subsetD\<close>)
  qed simp
  show ?case
  proof (cases "p = (c, i)")
    case True
    then show ?thesis
      using accounted_mono [OF fold_classify_accounted [OF Cons.prems(2)] mono] by simp
  next
    case False
    then show ?thesis using Cons by auto
  qed
qed simp

text \<open>Changing any one digit of a card number that passes the check breaks it.\<close>

lemma luhn_detects_one_digit:
  assumes k: "k < length ds" "ds ! k < 10" "d < 10" "d \<noteq> ds ! k" "luhn_sum ds mod 10 = 0"
  shows "luhn_sum (ds[k := d]) mod 10 \<noteq> 0"
proof
  assume z: "luhn_sum (ds[k := d]) mod 10 = 0"
  have "(luhn_sum (ds[k := d]) + luhn_digit (length ds - Suc k) (ds ! k)) mod 10 =
        (luhn_sum ds + luhn_digit (length ds - Suc k) d) mod 10"
    using luhn_sum_update [OF k(1), of d] by simp
  then have "luhn_digit (length ds - Suc k) (ds ! k) mod 10 = luhn_digit (length ds - Suc k) d mod 10"
    using z k(5) by (metis mod_add_left_eq add_0)
  then show False using luhn_digit_inj [OF k(2) k(3)] k(4) by simp
qed

definition sample_dlp :: dlp_env where
  "sample_dlp = \<lparr>de_codec = sample_codec,
     de_find_iter = (\<lambda>(c, i) content.
       if c = ApiKey \<and> i = 0 \<or> c = Password
       then [\<lparr>mt_start = 0, mt_end = str_len content, mt_text = content\<rparr>] else []),
     de_log2 = (\<lambda>x. 0)\<rparr>"

text \<open>
  Pattern classification loses no match and repeats none. Every match of every pattern has its
  span claimed, overlaps a claimed span, or is a card number that fails the Luhn check; the claimed
  spans are pairwise disjoint; and each finding holds a fingerprint or a length mark of a value,
  never the value.
\<close>

theorem dlp_classification:
  "(\<forall>(c, i) \<in> set dlp_patterns. \<forall>m \<in> set (de_find_iter e (c, i) content).
      accounted c m (ds_claimed (classify_patterns e path content))) \<and>
   disjoint_spans (ds_claimed (classify_patterns e path content)) \<and>
   evidential e path (dlp_classify e path content)"
proof (intro conjI)
  show "\<forall>(c, i) \<in> set dlp_patterns. \<forall>m \<in> set (de_find_iter e (c, i) content).
      accounted c m (ds_claimed (classify_patterns e path content))"
    using classify_patterns_accounted [where f = "\<lambda>ci. de_find_iter e ci content"]
    by (fastforce simp: classify_patterns_def)
qed (rule classify_patterns_disjoint dlp_classify_evidential)+

theorem dlp_classification_witness:
  "accounted Password \<lparr>mt_start = 0, mt_end = 5, mt_text = ''abcde''\<rparr>
     (ds_claimed (classify_patterns sample_dlp ''p'' ''abcde'')) \<and>
   map fi_class (dlp_classify sample_dlp ''p'' ''abcde'') = [ApiKey]"
proof
  let ?m = "\<lparr>mt_start = 0, mt_end = 5, mt_text = ''abcde''\<rparr>"
  have p: "(Password, 0) \<in> set dlp_patterns" by (simp add: dlp_patterns_def)
  have m: "?m \<in> set (de_find_iter sample_dlp (Password, 0) ''abcde'')"
    by (simp add: sample_dlp_def str_len_def)
  show "accounted Password ?m (ds_claimed (classify_patterns sample_dlp ''p'' ''abcde''))"
    using bspec [OF conjunct1 [OF dlp_classification] p] m by (simp only: prod.case Ball_def)
  show "map fi_class (dlp_classify sample_dlp ''p'' ''abcde'') = [ApiKey]" by code_simp
qed

end
