(* ===== verification/Identity.thy ===== *)
theory Identity
  imports Actions
begin

text \<open>
  Who is calling: the authenticators of \<^verbatim>\<open>vigil-identity/src/lib.rs\<close> and the binding of a request to a
  proven identity of \<^verbatim>\<open>vigil-core/src/auth.rs\<close>. The trait \<^verbatim>\<open>Authenticator\<close> is a locale, interpreted on
  both implementations; the texts of error messages are not modelled.
\<close>

datatype CallerKind = AgentCaller | HumanCaller | ServiceCaller

record VerifiedIdentity =
  vi_workload :: WorkloadIdentity
  vi_tenant_id :: string
  vi_agent_id :: "string option"
  vi_principal_id :: "string option"
  vi_roles :: "string list"
  vi_kind :: CallerKind

definition vi_has_role :: "VerifiedIdentity \<Rightarrow> string \<Rightarrow> bool" where
  "vi_has_role i r = (r \<in> set (vi_roles i))"

datatype auth_error =
    NoClientCertificate
  | NoRegistration
  | NoBearerToken
  | UnrecognizedToken
  | DevelopmentOnly
  | TenantNotProven
  | AgentNotProven
  | HumanForNonHuman

section \<open>Authenticators\<close>

type_synonym headers = "(string, string) hmap"

type_synonym MtlsSpiffeAuthenticator = "(string, VerifiedIdentity) hmap"

definition register_agent ::
    "string \<Rightarrow> string \<Rightarrow> string \<Rightarrow> MtlsSpiffeAuthenticator \<Rightarrow> MtlsSpiffeAuthenticator" where
  "register_agent spiffe tenant agent reg =
     hm_insert spiffe \<lparr>vi_workload = wi_attested spiffe ''mtls_spiffe'', vi_tenant_id = tenant,
       vi_agent_id = Some agent, vi_principal_id = None, vi_roles = [], vi_kind = AgentCaller\<rparr> reg"

definition register_human ::
    "string \<Rightarrow> string \<Rightarrow> string \<Rightarrow> string list \<Rightarrow> MtlsSpiffeAuthenticator \<Rightarrow> MtlsSpiffeAuthenticator" where
  "register_human spiffe tenant prin roles reg =
     hm_insert spiffe \<lparr>vi_workload = wi_attested spiffe ''mtls_spiffe'', vi_tenant_id = tenant,
       vi_agent_id = None, vi_principal_id = Some prin, vi_roles = roles, vi_kind = HumanCaller\<rparr> reg"

fun first_registered :: "MtlsSpiffeAuthenticator \<Rightarrow> string list \<Rightarrow> VerifiedIdentity option" where
  "first_registered reg [] = None"
| "first_registered reg (san # sans) =
     (case hm_get reg san of Some i \<Rightarrow> Some i | None \<Rightarrow> first_registered reg sans)"

definition mtls_authenticate ::
    "MtlsSpiffeAuthenticator \<Rightarrow> headers \<Rightarrow> string list \<Rightarrow> auth_error + VerifiedIdentity" where
  "mtls_authenticate reg hs sans =
     (if sans = [] then Inl NoClientCertificate else ok_or (first_registered reg sans) NoRegistration)"

type_synonym SharedSecretAuthenticator = "(string, VerifiedIdentity) hmap"

text \<open>\<^verbatim>\<open>SharedSecretAuthenticator::new\<close>; the flag says whether the build has debug assertions.\<close>

definition shared_secret_new :: "bool \<Rightarrow> bool \<Rightarrow> auth_error + SharedSecretAuthenticator" where
  "shared_secret_new debug_build protected_mode =
     (if protected_mode \<and> \<not> debug_build then Inl DevelopmentOnly else Inr [])"

definition shared_secret_register ::
    "string \<Rightarrow> VerifiedIdentity \<Rightarrow> SharedSecretAuthenticator \<Rightarrow> SharedSecretAuthenticator" where
  "shared_secret_register token i reg = hm_insert token i reg"

definition shared_secret_authenticate ::
    "SharedSecretAuthenticator \<Rightarrow> headers \<Rightarrow> string list \<Rightarrow> auth_error + VerifiedIdentity" where
  "shared_secret_authenticate reg hs sans =
     rbind (ok_or (Option.bind (hm_get hs ''authorization'') (\<lambda>v. strip_prefix v ''Bearer '')) NoBearerToken)
       (\<lambda>token. ok_or (hm_get reg token) UnrecognizedToken)"

section \<open>Binding a request to an identity\<close>

record AuthenticatedRequest =
  au_request :: ActionRequest
  au_identity :: VerifiedIdentity

definition auth_bind :: "ActionRequest \<Rightarrow> VerifiedIdentity \<Rightarrow> AuthenticatedRequest" where
  "auth_bind r i = \<lparr>au_request = r\<lparr>ar_workload_identity := Some (vi_workload i)\<rparr>, au_identity = i\<rparr>"

definition check_claims_match_proof :: "AuthenticatedRequest \<Rightarrow> auth_error + unit" where
  "check_claims_match_proof a =
     (let r = au_request a; i = au_identity a
      in rbind (ensure (ar_tenant_id r = vi_tenant_id i) TenantNotProven) (\<lambda>_.
         rbind (case vi_agent_id i of
                  Some proven \<Rightarrow> ensure (ar_agent_id r = proven) AgentNotProven
                | None \<Rightarrow> Inr ()) (\<lambda>_.
         ensure (\<not> (vi_kind i = HumanCaller \<and> p_kind (ar_principal r) \<noteq> Human)) HumanForNonHuman)))"

definition bind_verified :: "ActionRequest \<Rightarrow> VerifiedIdentity \<Rightarrow> auth_error + AuthenticatedRequest" where
  "bind_verified r i =
     (let a = auth_bind r i in rbind (check_claims_match_proof a) (\<lambda>_. Inr a))"

definition authenticate_request ::
    "(headers \<Rightarrow> string list \<Rightarrow> auth_error + VerifiedIdentity) \<Rightarrow> ActionRequest \<Rightarrow> headers \<Rightarrow> string list
      \<Rightarrow> auth_error + AuthenticatedRequest" where
  "authenticate_request authenticate r hs sans = rbind (authenticate hs sans) (bind_verified r)"

definition for_trusted_in_process_caller :: "ActionRequest \<Rightarrow> AuthenticatedRequest" where
  "for_trusted_in_process_caller r =
     auth_bind r \<lparr>vi_workload = wi_attested (''in-process:'' @ ar_agent_id r) ''in_process_trusted_caller'',
       vi_tenant_id = ar_tenant_id r, vi_agent_id = Some (ar_agent_id r),
       vi_principal_id = Some (p_id (ar_principal r)), vi_roles = p_roles (ar_principal r),
       vi_kind = AgentCaller\<rparr>"

lemma check_claims_ok:
  "check_claims_match_proof a = Inr () \<longleftrightarrow>
     ar_tenant_id (au_request a) = vi_tenant_id (au_identity a) \<and>
     (\<forall>g. vi_agent_id (au_identity a) = Some g \<longrightarrow> ar_agent_id (au_request a) = g) \<and>
     (vi_kind (au_identity a) = HumanCaller \<longrightarrow> p_kind (ar_principal (au_request a)) = Human)"
  by (auto simp: check_claims_match_proof_def Let_def rbind_def ensure_def split: option.splits sum.splits if_splits)

lemma bind_verified_ok:
  "bind_verified r i = Inr a \<longleftrightarrow> a = auth_bind r i \<and> check_claims_match_proof a = Inr ()"
  by (auto simp: bind_verified_def Let_def rbind_def split: sum.splits)

section \<open>The interface of an authenticator\<close>

text \<open>
  What the core relies on: an identity is never made up, it is one that somebody registered, and one
  that carries an attested workload when only such identities were registered.
\<close>

locale authenticator =
  fixes authenticate :: "'reg \<Rightarrow> headers \<Rightarrow> string list \<Rightarrow> auth_error + VerifiedIdentity"
    and registered :: "'reg \<Rightarrow> VerifiedIdentity set"
  assumes registered_only: "authenticate reg hs sans = Inr i \<Longrightarrow> i \<in> registered reg"
begin

lemma authenticated_request:
  assumes "authenticate_request (authenticate reg) r hs sans = Inr a"
  shows "au_identity a \<in> registered reg" and "au_request a = r\<lparr>ar_workload_identity := Some (vi_workload (au_identity a))\<rparr>"
    and "check_claims_match_proof a = Inr ()"
proof -
  obtain i where i: "authenticate reg hs sans = Inr i" "bind_verified r i = Inr a"
    using assms by (auto simp: authenticate_request_def rbind_def split: sum.splits)
  have a: "a = auth_bind r i" "check_claims_match_proof a = Inr ()"
    using i(2) unfolding bind_verified_ok by auto
  then show "check_claims_match_proof a = Inr ()" by simp
  show "au_identity a \<in> registered reg" using registered_only [OF i(1)] a by (simp add: auth_bind_def)
  show "au_request a = r\<lparr>ar_workload_identity := Some (vi_workload (au_identity a))\<rparr>"
    using a by (simp add: auth_bind_def)
qed

end

lemma first_registered_get: "first_registered reg sans = Some i \<Longrightarrow> \<exists>san \<in> set sans. hm_get reg san = Some i"
  by (induction sans) (auto split: option.splits)

interpretation mtls: authenticator mtls_authenticate "\<lambda>reg. ran (hm_get reg)"
  by unfold_locales
     (auto simp: mtls_authenticate_def ok_or_def ran_def dest!: first_registered_get split: option.splits if_splits)

interpretation shared_secret: authenticator shared_secret_authenticate "\<lambda>reg. ran (hm_get reg)"
  by unfold_locales
     (auto simp: shared_secret_authenticate_def ok_or_def rbind_def ran_def split: option.splits sum.splits)

section \<open>Properties\<close>

text \<open>
  A request bound by certificate acts as what its caller proved. The identity is that of a
  registered certificate name among those presented, the workload claimed in the body is replaced by
  the proven one, and tenant, agent and the kind of principal agree with the registration.
\<close>

theorem mtls_request_bound:
  assumes "authenticate_request (mtls_authenticate reg) r hs sans = Inr a"
  shows "au_identity a \<in> ran (hm_get reg) \<and>
     ar_workload_identity (au_request a) = Some (vi_workload (au_identity a)) \<and>
     ar_tenant_id r = vi_tenant_id (au_identity a) \<and>
     (\<forall>g. vi_agent_id (au_identity a) = Some g \<longrightarrow> ar_agent_id r = g) \<and>
     (vi_kind (au_identity a) = HumanCaller \<longrightarrow> p_kind (ar_principal r) = Human)"
  using mtls.authenticated_request [OF assms] by (simp add: check_claims_ok)

theorem mtls_request_bound_witness:
  "let a = auth_bind (sample_request sample_shell)
             \<lparr>vi_workload = wi_attested ''spiffe://x'' ''mtls_spiffe'', vi_tenant_id = ''t1'',
              vi_agent_id = Some ''support'', vi_principal_id = None, vi_roles = [], vi_kind = AgentCaller\<rparr>
   in authenticate_request (mtls_authenticate (register_agent ''spiffe://x'' ''t1'' ''support'' []))
        (sample_request sample_shell) [] [''spiffe://x''] = Inr a \<and>
      ar_workload_identity (au_request a) = Some (vi_workload (au_identity a))"
proof -
  let ?a = "auth_bind (sample_request sample_shell)
             \<lparr>vi_workload = wi_attested ''spiffe://x'' ''mtls_spiffe'', vi_tenant_id = ''t1'',
              vi_agent_id = Some ''support'', vi_principal_id = None, vi_roles = [], vi_kind = AgentCaller\<rparr>"
  have h: "authenticate_request (mtls_authenticate (register_agent ''spiffe://x'' ''t1'' ''support'' []))
        (sample_request sample_shell) [] [''spiffe://x''] = Inr ?a"
    by code_simp
  show ?thesis unfolding Let_def using h conjunct2 [OF mtls_request_bound [OF h]] by simp
qed

text \<open>
  The principal is not part of the proof. A human authenticated as one principal may submit a
  request in the name of any other human principal of the tenant: binding succeeds for every
  principal id.
\<close>

theorem principal_not_bound:
  "let i = the (hm_get (register_human ''spiffe://h'' ''t1'' ''alice'' [] []) ''spiffe://h'');
       r = sample_request sample_shell
   in vi_principal_id i = Some ''alice'' \<and>
      bind_verified (r\<lparr>ar_principal := (ar_principal r)\<lparr>p_id := x\<rparr>\<rparr>) i =
        Inr (auth_bind (r\<lparr>ar_principal := (ar_principal r)\<lparr>p_id := x\<rparr>\<rparr>) i)"
  by (simp add: Let_def register_human_def hm_get_def bind_verified_ok check_claims_ok auth_bind_def sample_request_def)

end
