(* ===== verification/Manifests.thy ===== *)
theory Manifests
  imports Actions
begin

text \<open>
  Tool security manifests (\<^verbatim>\<open>vigil-core/src/manifest.rs\<close>): the record of a manifest, its effective tier
  and approval default, the conservative manifest of an unregistered tool, and the registry. The
  YAML parser is an argument of \<open>manifests_from_yaml\<close>; the warning that validation logs is not modelled.
\<close>

record ArgumentSpec =
  as_sensitivity :: "string option"
  as_may_contain_sensitive_data :: bool
  as_requires_trusted_source :: bool

record ToolManifest =
  tm_name :: string
  tm_description :: string
  tm_side_effect :: SideEffectClass
  tm_impact :: ImpactTier
  tm_resources :: "string list"
  tm_arguments :: "(string, ArgumentSpec) hmap"
  tm_approval_default :: bool
  tm_approval_operations :: "string list"
  tm_destinations :: "string list"
  tm_brokered :: bool
  tm_credential_ref :: "string option"
  tm_per_agent_per_minute :: "u32 option"
  tm_synthetic :: bool

definition effective_tier :: "ToolManifest \<Rightarrow> ImpactTier" where
  "effective_tier m = max (tm_impact m) (floor_tier (tm_side_effect m))"

definition manifest_requires_approval :: "ToolManifest \<Rightarrow> string \<Rightarrow> bool" where
  "manifest_requires_approval m op \<longleftrightarrow>
     tm_approval_default m \<or>
     list_ex (\<lambda>o'. eq_ignore_ascii_case o' op) (tm_approval_operations m) \<or>
     default_requires_approval (effective_tier m)"

definition manifest_conservative :: "string \<Rightarrow> ToolManifest" where
  "manifest_conservative name =
     \<lparr>tm_name = name, tm_description = ''unregistered tool; conservative defaults applied'',
      tm_side_effect = ExternalWrite, tm_impact = tier_conservative_default, tm_resources = [],
      tm_arguments = [], tm_approval_default = True, tm_approval_operations = [], tm_destinations = [],
      tm_brokered = False, tm_credential_ref = None, tm_per_agent_per_minute = None, tm_synthetic = True\<rparr>"

datatype manifest_error = ManifestNoName | ManifestsUnparsable

definition manifest_validate :: "ToolManifest \<Rightarrow> manifest_error + unit" where
  "manifest_validate m = ensure (trim (tm_name m) \<noteq> []) ManifestNoName"

type_synonym ToolManifestRegistry = "(string, ToolManifest) hmap"

definition manifest_register :: "ToolManifest \<Rightarrow> ToolManifestRegistry \<Rightarrow> manifest_error + ToolManifestRegistry" where
  "manifest_register m reg = rbind (manifest_validate m) (\<lambda>_. Inr (hm_insert (tm_name m) m reg))"

fun register_manifests :: "ToolManifest list \<Rightarrow> ToolManifestRegistry \<Rightarrow> manifest_error + ToolManifestRegistry" where
  "register_manifests [] reg = Inr reg"
| "register_manifests (m # ms) reg = rbind (manifest_register m reg) (register_manifests ms)"

text \<open>A manifest read from a file is never synthetic: the field is skipped by the deserializer.\<close>

definition manifests_from_yaml ::
    "(string \<Rightarrow> ToolManifest list option) \<Rightarrow> string \<Rightarrow> manifest_error + ToolManifestRegistry" where
  "manifests_from_yaml yaml src =
     rbind (ok_or (yaml src) ManifestsUnparsable) (\<lambda>ms.
     register_manifests (map (\<lambda>m. m\<lparr>tm_synthetic := False\<rparr>) ms) [])"

definition manifest_lookup :: "ToolManifestRegistry \<Rightarrow> string \<Rightarrow> ToolManifest" where
  "manifest_lookup reg name =
     (case hm_get reg name of Some m \<Rightarrow> m | None \<Rightarrow> manifest_conservative name)"

section \<open>Lemmas\<close>

lemma effective_tier_floor: "floor_tier (tm_side_effect m) \<le> effective_tier m"
  by (simp add: effective_tier_def)

lemma conservative_requires_approval: "manifest_requires_approval (manifest_conservative name) op"
  by (simp add: manifest_requires_approval_def manifest_conservative_def)

lemma find_snoc:
  "find P (xs @ [y]) = (case find P xs of Some x \<Rightarrow> Some x | None \<Rightarrow> if P y then Some y else None)"
  by (induction xs) auto

lemma register_manifests_get:
  "register_manifests ms reg = Inr reg' \<Longrightarrow>
     hm_get reg' name = (case find (\<lambda>m. tm_name m = name) (rev ms) of
                           Some m \<Rightarrow> Some m | None \<Rightarrow> hm_get reg name)"
proof (induction ms arbitrary: reg)
  case (Cons m ms)
  then show ?case
    by (auto simp: manifest_register_def rbind_def find_snoc hm.get_insert split: sum.splits option.splits)
qed simp

section \<open>Properties\<close>

text \<open>
  A registry read from a file answers for every tool name. A listed name gives its last entry,
  marked as registered; any other name gives the synthetic manifest, which is external, at the
  approval tier, and requires approval for every operation. In both cases the effective tier is at
  least the floor of the side effect, so no entry makes a tool milder than what it does.
\<close>

theorem manifest_lookup_total:
  assumes "manifests_from_yaml yaml src = Inr reg"
  shows "let m = manifest_lookup reg name in
     floor_tier (tm_side_effect m) \<le> effective_tier m \<and>
     (case find (\<lambda>m. tm_name m = name) (rev (the (yaml src))) of
        Some e \<Rightarrow> m = e\<lparr>tm_synthetic := False\<rparr>
      | None \<Rightarrow> tm_synthetic m \<and> tm_side_effect m = ExternalWrite \<and>
                effective_tier m = tier_conservative_default \<and> (\<forall>op. manifest_requires_approval m op))"
proof -
  obtain ms where ms: "yaml src = Some ms"
      and reg: "register_manifests (map (\<lambda>m. m\<lparr>tm_synthetic := False\<rparr>) ms) [] = Inr reg"
    using assms by (auto simp: manifests_from_yaml_def rbind_def ok_or_def split: option.splits sum.splits)
  have find: "find (\<lambda>m. tm_name m = name) (map (\<lambda>m. m\<lparr>tm_synthetic := False\<rparr>) xs)
      = map_option (\<lambda>m. m\<lparr>tm_synthetic := False\<rparr>) (find (\<lambda>m. tm_name m = name) xs)" for xs
    by (induction xs) auto
  have "hm_get reg name = map_option (\<lambda>m. m\<lparr>tm_synthetic := False\<rparr>) (find (\<lambda>m. tm_name m = name) (rev ms))"
    using register_manifests_get [OF reg, of name] by (simp add: rev_map find split: option.splits)
  moreover have "effective_tier (manifest_conservative name) = tier_conservative_default"
    by code_simp
  ultimately show ?thesis
    using effective_tier_floor conservative_requires_approval [of name]
    by (auto simp: Let_def ms manifest_lookup_def split: option.splits)
       (auto simp: manifest_conservative_def)
qed

theorem manifest_lookup_total_witness:
  "let reg = [(''mail'', (manifest_conservative ''mail'')\<lparr>tm_synthetic := False\<rparr>)] in
   manifests_from_yaml (\<lambda>_. Some [manifest_conservative ''mail'']) ''doc'' = Inr reg \<and>
   tm_synthetic (manifest_lookup reg ''shell'') \<and> \<not> tm_synthetic (manifest_lookup reg ''mail'')"
proof -
  let ?reg = "[(''mail'', (manifest_conservative ''mail'')\<lparr>tm_synthetic := False\<rparr>)]"
  have r: "manifests_from_yaml (\<lambda>_. Some [manifest_conservative ''mail'']) ''doc'' = Inr ?reg" by code_simp
  show ?thesis
    using r manifest_lookup_total [OF r, of "''shell''"] manifest_lookup_total [OF r, of "''mail''"]
    by (simp add: Let_def manifest_conservative_def)
qed

end
