(* ===== verification/Network.thy ===== *)
theory Network
  imports Redact Reasons
begin

text \<open>
  SSRF and egress destination analysis (\<^verbatim>\<open>vigil-detect/src/network.rs\<close>), with the parts of
  \<^verbatim>\<open>std::net\<close> it uses: the parser of addresses and the address predicates. The URL parser of the
  \<^verbatim>\<open>url\<close> crate is a parameter.
\<close>

section \<open>Addresses\<close>

type_synonym u16 = "16 word"

datatype IpAddr = V4 u8 u8 u8 u8 | V6 "u16 list"

text \<open>
  The reader of \<^verbatim>\<open>std::net\<close>: \<open>read_number\<close> takes the maximal run of digits and fails when it is empty,
  longer than allowed, out of range, or zero-padded where that is not allowed.
\<close>

definition to_digit :: "nat \<Rightarrow> char \<Rightarrow> nat option" where
  "to_digit radix c =
     (let n = (of_char c :: nat);
          v = (if 48 \<le> n \<and> n \<le> 57 then Some (n - 48)
               else if 97 \<le> n \<and> n \<le> 122 then Some (n - 87)
               else if 65 \<le> n \<and> n \<le> 90 then Some (n - 55) else None)
      in case v of Some d \<Rightarrow> if d < radix then Some d else None | None \<Rightarrow> None)"

definition read_number :: "nat \<Rightarrow> int \<Rightarrow> nat \<Rightarrow> bool \<Rightarrow> string \<Rightarrow> (int \<times> string) option" where
  "read_number radix limit max_digits zero_prefix s =
     (let ds = takeWhile (\<lambda>c. to_digit radix c \<noteq> None) s;
          v = foldl (\<lambda>acc c. acc * int radix + int (the (to_digit radix c))) 0 ds
      in if ds = [] \<or> max_digits < length ds \<or> (\<not> zero_prefix \<and> hd ds = CHR ''0'' \<and> 1 < length ds) \<or> limit \<le> v
         then None else Some (v, drop (length ds) s))"

definition read_separator :: "char \<Rightarrow> nat \<Rightarrow> (string \<Rightarrow> ('a \<times> string) option) \<Rightarrow> string \<Rightarrow> ('a \<times> string) option" where
  "read_separator sep i inner s =
     (if i = 0 then inner s else case s of c # cs \<Rightarrow> if c = sep then inner cs else None | [] \<Rightarrow> None)"

definition read_octet :: "nat \<Rightarrow> string \<Rightarrow> (int \<times> string) option" where
  "read_octet i s = read_separator (CHR ''.'') i (read_number 10 256 3 False) s"

definition read_ipv4 :: "string \<Rightarrow> ((u8 \<times> u8 \<times> u8 \<times> u8) \<times> string) option" where
  "read_ipv4 s =
     Option.bind (read_octet 0 s) (\<lambda>(a, s).
     Option.bind (read_octet 1 s) (\<lambda>(b, s).
     Option.bind (read_octet 2 s) (\<lambda>(c, s).
     Option.bind (read_octet 3 s) (\<lambda>(d, s).
       Some ((of_int a, of_int b, of_int c, of_int d), s)))))"

definition join_octets :: "u8 \<Rightarrow> u8 \<Rightarrow> u16" where
  "join_octets a b = ucast a * 256 + ucast b"

text \<open>\<^verbatim>\<open>read_groups\<close>: up to the given number of groups, the last two of which may be an IPv4 address.\<close>

function read_groups :: "nat \<Rightarrow> nat \<Rightarrow> u16 list \<Rightarrow> string \<Rightarrow> u16 list \<times> bool \<times> string" where
  "read_groups limit i gs s =
     (if limit \<le> i then (gs, False, s)
      else case (if i + 1 < limit then read_separator (CHR '':'') i read_ipv4 s else None) of
             Some ((a, b, c, d), rest) \<Rightarrow> (gs @ [join_octets a b, join_octets c d], True, rest)
           | None \<Rightarrow>
               (case read_separator (CHR '':'') i (read_number 16 65536 4 True) s of
                  Some (g, rest) \<Rightarrow> read_groups limit (Suc i) (gs @ [of_int g]) rest
                | None \<Rightarrow> (gs, False, s)))"
  by pat_completeness auto
termination
  by (relation "measure (\<lambda>(limit, i, gs, s). limit - i)") auto

definition read_ipv6 :: "string \<Rightarrow> (u16 list \<times> string) option" where
  "read_ipv6 s =
     (let (head, head_ipv4, rest) = read_groups 8 0 [] s
      in if length head = 8 then Some (head, rest)
         else if head_ipv4 then None
         else case strip_prefix rest ''::'' of
                None \<Rightarrow> None
              | Some rest \<Rightarrow>
                  let (tail, _, rest) = read_groups (8 - (length head + 1)) 0 [] rest
                  in Some (head @ replicate (8 - length head - length tail) 0 @ tail, rest))"

definition parse_ip :: "string \<Rightarrow> IpAddr option" where
  "parse_ip s =
     (case (case read_ipv4 s of
              Some ((a, b, c, d), rest) \<Rightarrow> Some (V4 a b c d, rest)
            | None \<Rightarrow> map_option (\<lambda>(g, rest). (V6 g, rest)) (read_ipv6 s)) of
        Some (ip, rest) \<Rightarrow> if rest = [] then Some ip else None
      | None \<Rightarrow> None)"

definition show_ipv4 :: "u8 \<Rightarrow> u8 \<Rightarrow> u8 \<Rightarrow> u8 \<Rightarrow> string" where
  "show_ipv4 a b c d = join_with ''.'' (map (\<lambda>x. show_nat (unat x)) [a, b, c, d])"

section \<open>Classification\<close>

datatype DestinationClass = Public | Loopback | PrivateNetwork | LinkLocal | CloudMetadata | Unspecified | Unresolved

definition is_ssrf :: "DestinationClass \<Rightarrow> bool" where
  "is_ssrf c = (c \<in> {Loopback, PrivateNetwork, LinkLocal, CloudMetadata, Unspecified})"

fun destination_reason :: "DestinationClass \<Rightarrow> ReasonCode option" where
  "destination_reason CloudMetadata = Some SsrfMetadataEndpoint"
| "destination_reason Loopback = Some SsrfPrivateAddress"
| "destination_reason PrivateNetwork = Some SsrfPrivateAddress"
| "destination_reason LinkLocal = Some SsrfPrivateAddress"
| "destination_reason Unspecified = Some SsrfPrivateAddress"
| "destination_reason c = None"

fun destination_risk :: "DestinationClass \<Rightarrow> rat" where
  "destination_risk CloudMetadata = 1"
| "destination_risk Loopback = 85 / 100"
| "destination_risk LinkLocal = 85 / 100"
| "destination_risk Unspecified = 85 / 100"
| "destination_risk PrivateNetwork = 75 / 100"
| "destination_risk Unresolved = 2 / 10"
| "destination_risk Public = 0"

definition METADATA_HOSTS :: "string list" where
  "METADATA_HOSTS = [''169.254.169.254'', ''metadata.google.internal'', ''metadata.goog'', ''metadata'',
     ''100.100.100.200'', ''169.254.169.253'', ''fd00:ec2::254'']"

definition METADATA_ADDRESSES :: "string list" where
  "METADATA_ADDRESSES = [''169.254.169.254'', ''169.254.169.253'', ''100.100.100.200'']"

definition ALLOWED_SCHEMES :: "string list" where
  "ALLOWED_SCHEMES = [''https'', ''http'']"

definition v4_private :: "u8 \<Rightarrow> u8 \<Rightarrow> u8 \<Rightarrow> u8 \<Rightarrow> bool" where
  "v4_private a b c d \<longleftrightarrow> a = 10 \<or> (a = 172 \<and> 16 \<le> b \<and> b \<le> 31) \<or> (a = 192 \<and> b = 168)"

definition v4_documentation :: "u8 \<Rightarrow> u8 \<Rightarrow> u8 \<Rightarrow> u8 \<Rightarrow> bool" where
  "v4_documentation a b c d \<longleftrightarrow> (a = 192 \<and> b = 0 \<and> c = 2) \<or> (a = 198 \<and> b = 51 \<and> c = 100) \<or> (a = 203 \<and> b = 0 \<and> c = 113)"

definition classify_ipv4 :: "u8 \<Rightarrow> u8 \<Rightarrow> u8 \<Rightarrow> u8 \<Rightarrow> DestinationClass" where
  "classify_ipv4 a b c d =
     (if show_ipv4 a b c d \<in> set METADATA_ADDRESSES then CloudMetadata
      else if a = 0 \<and> b = 0 \<and> c = 0 \<and> d = 0 then Unspecified
      else if a = 127 then Loopback
      else if a = 169 \<and> b = 254 then LinkLocal
      else if v4_private a b c d \<or> (a = 255 \<and> b = 255 \<and> c = 255 \<and> d = 255) \<or> v4_documentation a b c d
           then PrivateNetwork
      else if a = 100 \<and> 64 \<le> b \<and> b \<le> 127 then PrivateNetwork
      else if a = 0 then Unspecified
      else Public)"

definition high_octet :: "u16 \<Rightarrow> u8" where
  "high_octet w = ucast (drop_bit 8 w)"

definition low_octet :: "u16 \<Rightarrow> u8" where
  "low_octet w = ucast w"

unbundle bit_operations_syntax

definition to_ipv4_mapped :: "u16 list \<Rightarrow> (u8 \<times> u8 \<times> u8 \<times> u8) option" where
  "to_ipv4_mapped g =
     (if take 6 g = [0, 0, 0, 0, 0, 0xffff] \<and> length g = 8
      then Some (high_octet (g ! 6), low_octet (g ! 6), high_octet (g ! 7), low_octet (g ! 7)) else None)"

fun classify_ip :: "IpAddr \<Rightarrow> DestinationClass" where
  "classify_ip (V4 a b c d) = classify_ipv4 a b c d"
| "classify_ip (V6 g) =
     (case to_ipv4_mapped g of
        Some (a, b, c, d) \<Rightarrow> classify_ipv4 a b c d
      | None \<Rightarrow>
          if g = [0, 0, 0, 0, 0, 0, 0, 1] then Loopback
          else if g = [0, 0, 0, 0, 0, 0, 0, 0] then Unspecified
          else if hd g AND 0xffc0 = 0xfe80 then LinkLocal
          else if hd g AND 0xfe00 = 0xfc00 then PrivateNetwork
          else Public)"

definition bare_host :: "string \<Rightarrow> string" where
  "bare_host host =
     (let h = to_ascii_lowercase (trim_end_matches (\<lambda>c. c = CHR ''.'') (trim host))
      in trim_end_matches (\<lambda>c. c = CHR '']'') (dropWhile (\<lambda>c. c = CHR ''['') h))"

definition classify_host :: "string \<Rightarrow> DestinationClass" where
  "classify_host host =
     (let bare = bare_host host
      in if bare \<in> set METADATA_HOSTS then CloudMetadata
         else case parse_ip bare of
                Some ip \<Rightarrow> classify_ip ip
              | None \<Rightarrow>
                  if bare = ''localhost'' \<or> ends_with bare ''.localhost'' \<or> ends_with bare ''.local'' \<or>
                     ends_with bare ''.internal'' \<or> ends_with bare ''.localdomain''
                  then Loopback else Unresolved)"

section \<open>Analysis of a request\<close>

record url =
  url_scheme :: string
  url_username :: string
  url_password :: "string option"
  url_host :: "string option"

record NetworkFindings =
  nf_reason_codes :: "ReasonCode list"
  nf_risk :: rat
  nf_issues :: "string list"
  nf_destination_class :: "DestinationClass option"
  nf_host :: "string option"

definition nf_default :: NetworkFindings where
  "nf_default = \<lparr>nf_reason_codes = [], nf_risk = 0, nf_issues = [], nf_destination_class = None, nf_host = None\<rparr>"

definition nf_is_clean :: "NetworkFindings \<Rightarrow> bool" where
  "nf_is_clean f = (nf_reason_codes f = [])"

definition nf_add :: "ReasonCode list \<Rightarrow> rat \<Rightarrow> string \<Rightarrow> NetworkFindings \<Rightarrow> NetworkFindings" where
  "nf_add codes risk issue f = f\<lparr>nf_reason_codes := nf_reason_codes f @ codes,
     nf_risk := max (nf_risk f) risk, nf_issues := nf_issues f @ [issue]\<rparr>"

fun class_noun :: "DestinationClass \<Rightarrow> string" where
  "class_noun CloudMetadata = ''cloud instance metadata''"
| "class_noun Loopback = ''loopback''"
| "class_noun PrivateNetwork = ''private network''"
| "class_noun LinkLocal = ''link-local''"
| "class_noun Unspecified = ''unspecified''"
| "class_noun c = ''non-public''"

text \<open>The worst of the name's class and the classes of the resolved addresses.\<close>

definition worst_class :: "DestinationClass \<Rightarrow> DestinationClass list \<Rightarrow> DestinationClass" where
  "worst_class name_class resolved =
     foldl (\<lambda>worst c. if destination_risk c > destination_risk worst then c else worst)
       (if resolved = [] then name_class else if name_class = Unresolved then Public else name_class) resolved"

definition analyze_hop :: "(string \<Rightarrow> url option) \<Rightarrow> string \<Rightarrow> DestinationClass option" where
  "analyze_hop parse hop = Option.bind (parse hop) (\<lambda>u. map_option classify_host (url_host u))"

definition add_hop :: "(string \<Rightarrow> url option) \<Rightarrow> marks \<Rightarrow> string \<Rightarrow> NetworkFindings \<Rightarrow> NetworkFindings" where
  "add_hop parse mk hop f =
     (case analyze_hop parse hop of
        Some c \<Rightarrow>
          if is_ssrf c
          then nf_add (RedirectOutsidePolicy # (case destination_reason c of Some r \<Rightarrow> [r] | None \<Rightarrow> []))
                 (destination_risk c)
                 (''redirect hop reaches a non-public destination ('' @ redact_url mk hop @ '')'') f
          else f
      | None \<Rightarrow> f)"

definition analyze_scheme :: "marks \<Rightarrow> url \<Rightarrow> NetworkFindings \<Rightarrow> NetworkFindings" where
  "analyze_scheme mk u f =
     (if url_scheme u \<in> set ALLOWED_SCHEMES then f
      else nf_add [ProtocolSchemeForbidden] (9 / 10)
             (''scheme `'' @ single_line_excerpt mk (url_scheme u) 16 @
              ''` is not permitted for agent-initiated requests'') f)"

definition analyze_userinfo :: "url \<Rightarrow> NetworkFindings \<Rightarrow> NetworkFindings" where
  "analyze_userinfo u f =
     (if url_username u \<noteq> [] \<or> url_password u \<noteq> None
      then nf_add [] (6 / 10) ''URL carries embedded credentials'' f else f)"

definition analyze_destination :: "url \<Rightarrow> string list \<Rightarrow> NetworkFindings \<Rightarrow> NetworkFindings" where
  "analyze_destination u addresses f =
     (let host = to_ascii_lowercase (case url_host u of Some h \<Rightarrow> h | None \<Rightarrow> []);
          worst = worst_class (classify_host host) (map classify_ip (List.map_filter parse_ip addresses));
          f = f\<lparr>nf_host := (if host = [] then None else Some host), nf_destination_class := Some worst\<rparr>
      in case destination_reason worst of
           Some code \<Rightarrow> nf_add [code] (destination_risk worst)
             (''destination resolves to a '' @ class_noun worst @ '' address'') f
         | None \<Rightarrow> f)"

definition network_analyze ::
    "(string \<Rightarrow> url option) \<Rightarrow> marks \<Rightarrow> string \<Rightarrow> string list \<Rightarrow> string list \<Rightarrow> NetworkFindings" where
  "network_analyze parse mk raw addresses redirects =
     (case parse raw of
        None \<Rightarrow> nf_default\<lparr>nf_reason_codes := [SchemaInvalid], nf_risk := 5 / 10,
                  nf_issues := [''destination URL is unparsable'']\<rparr>
      | Some u \<Rightarrow>
          let f = fold (add_hop parse mk) redirects
                    (analyze_destination u addresses (analyze_userinfo u (analyze_scheme mk u nf_default)))
          in f\<lparr>nf_reason_codes := reason_sort_dedup (nf_reason_codes f),
               nf_risk := (if nf_risk f < 0 then 0 else if 1 < nf_risk f then 1 else nf_risk f)\<rparr>)"

section \<open>Lemmas\<close>

lemma ssrf_risk: "is_ssrf c \<longleftrightarrow> destination_risk c > 2 / 10"
  by (cases c) (simp_all add: is_ssrf_def)

lemma ssrf_reason: "is_ssrf c \<longleftrightarrow> destination_reason c \<noteq> None"
  by (cases c) (simp_all add: is_ssrf_def)

lemma metadata_risk: "c = CloudMetadata \<longleftrightarrow> destination_risk c \<ge> 1"
  by (cases c) simp_all

lemma metadata_reason: "destination_reason c = Some SsrfMetadataEndpoint \<longleftrightarrow> c = CloudMetadata"
  by (cases c) simp_all

lemma risk_unit: "0 \<le> destination_risk c \<and> destination_risk c \<le> 1"
  by (cases c) simp_all

lemma worst_fold:
  "destination_risk (foldl (\<lambda>w c. if destination_risk c > destination_risk w then c else w) w cs) =
     Max (destination_risk ` set (w # cs))"
proof (induction cs arbitrary: w)
  case (Cons c cs)
  have "Max (destination_risk ` set (w # c # cs)) =
      Max (destination_risk ` set ((if destination_risk c > destination_risk w then c else w) # cs))"
    by (cases "cs = []") (auto simp: max_def)
  with Cons show ?case by simp
qed simp

text \<open>The worst class is at least as risky as the name, unless addresses settle an unknown name, and as every address.\<close>

lemma worst_class_name: "is_ssrf n \<Longrightarrow> destination_risk n \<le> destination_risk (worst_class n rs)"
  by (auto simp: worst_class_def worst_fold is_ssrf_def intro!: Max_ge)

lemma worst_class_resolved: "r \<in> set rs \<Longrightarrow> destination_risk r \<le> destination_risk (worst_class n rs)"
  by (auto simp: worst_class_def worst_fold intro!: Max_ge)

lemma nf_add_codes [simp]: "nf_reason_codes (nf_add cs r i f) = nf_reason_codes f @ cs"
  "nf_destination_class (nf_add cs r i f) = nf_destination_class f" "nf_host (nf_add cs r i f) = nf_host f"
  "nf_risk (nf_add cs r i f) = max (nf_risk f) r"
  by (simp_all add: nf_add_def)

lemma add_hop_codes:
  "set (nf_reason_codes f) \<subseteq> set (nf_reason_codes (add_hop parse mk hop f))"
  "nf_destination_class (add_hop parse mk hop f) = nf_destination_class f"
  "nf_host (add_hop parse mk hop f) = nf_host f"
  by (auto simp: add_hop_def split: option.splits)

lemma fold_hop_codes:
  "set (nf_reason_codes f) \<subseteq> set (nf_reason_codes (fold (add_hop parse mk) hs f))"
  "nf_destination_class (fold (add_hop parse mk) hs f) = nf_destination_class f"
  "nf_host (fold (add_hop parse mk) hs f) = nf_host f"
proof (induction hs arbitrary: f)
  case (Cons h hs)
  case 1
  show ?case using Cons(1) [of "add_hop parse mk h f"] add_hop_codes(1) [of f parse mk h] by auto
  case 2
  show ?case using Cons(2) add_hop_codes(2) by simp
  case 3
  show ?case using Cons(3) add_hop_codes(3) by simp
qed simp_all

lemma fold_hop_flags:
  assumes "h \<in> set hs" "analyze_hop parse h = Some c" "is_ssrf c"
  shows "{RedirectOutsidePolicy, the (destination_reason c)} \<subseteq> set (nf_reason_codes (fold (add_hop parse mk) hs f))"
  using assms(1)
proof (induction hs arbitrary: f)
  case (Cons x hs)
  show ?case
  proof (cases "x = h")
    case True
    have "{RedirectOutsidePolicy, the (destination_reason c)} \<subseteq> set (nf_reason_codes (add_hop parse mk h f))"
      using assms(2,3) ssrf_reason [of c] by (auto simp: add_hop_def)
    then show ?thesis using True fold_hop_codes(1) [of "add_hop parse mk h f" parse mk hs] by auto
  next
    case False
    with Cons show ?thesis by simp
  qed
qed simp

lemma analyze_codes:
  assumes "parse raw = Some u"
  shows "set (nf_reason_codes (network_analyze parse mk raw addresses redirects)) =
     set (nf_reason_codes (fold (add_hop parse mk) redirects
       (analyze_destination u addresses (analyze_userinfo u (analyze_scheme mk u nf_default)))))"
  by (simp add: network_analyze_def assms Let_def)

lemma analyze_destination_flags:
  assumes "worst = worst_class (classify_host (to_ascii_lowercase (case url_host u of Some h \<Rightarrow> h | None \<Rightarrow> [])))
                     (map classify_ip (List.map_filter parse_ip addresses))"
    and "is_ssrf worst"
  shows "the (destination_reason worst) \<in> set (nf_reason_codes (analyze_destination u addresses f))"
  using assms ssrf_reason [of worst] by (auto simp: analyze_destination_def Let_def)

section \<open>Properties\<close>

definition sample_url :: "string \<Rightarrow> url option" where
  "sample_url s =
     (case split_once ''://'' s of
        Some (scheme, rest) \<Rightarrow> Some \<lparr>url_scheme = scheme, url_username = [], url_password = None,
          url_host = Some (takeWhile (\<lambda>c. c \<noteq> CHR ''/'') rest)\<rparr>
      | None \<Rightarrow> None)"

text \<open>
  No internal destination passes unreported. When the URL parses, an internal class of the host
  name or of any resolved address gives the request an SSRF reason code, whatever the other
  addresses are (a name that resolves to one public and one internal address is reported), the
  metadata class gives the metadata code, and an internal hop anywhere in the redirect chain gives
  the redirect code and the code of its class.
\<close>

theorem internal_destination_reported:
  assumes "parse raw = Some u"
    and "destinations = classify_host (to_ascii_lowercase (case url_host u of Some h \<Rightarrow> h | None \<Rightarrow> [])) #
           map classify_ip (List.map_filter parse_ip addresses)"
  shows "let codes = set (nf_reason_codes (network_analyze parse mk raw addresses redirects)) in
     (\<forall>c \<in> set destinations. is_ssrf c \<longrightarrow>
        SsrfPrivateAddress \<in> codes \<or> SsrfMetadataEndpoint \<in> codes) \<and>
     (CloudMetadata \<in> set destinations \<longrightarrow> SsrfMetadataEndpoint \<in> codes) \<and>
     (\<forall>hop \<in> set redirects. \<forall>c. analyze_hop parse hop = Some c \<and> is_ssrf c \<longrightarrow>
        RedirectOutsidePolicy \<in> codes \<and> the (destination_reason c) \<in> codes)"
proof -
  let ?codes = "set (nf_reason_codes (network_analyze parse mk raw addresses redirects))"
  let ?d = "analyze_destination u addresses (analyze_userinfo u (analyze_scheme mk u nf_default))"
  define name rs where "name = classify_host (to_ascii_lowercase (case url_host u of Some h \<Rightarrow> h | None \<Rightarrow> []))"
    and "rs = map classify_ip (List.map_filter parse_ip addresses)"
  define worst where "worst = worst_class name rs"
  have ge: "destination_risk c \<le> destination_risk worst" if "c \<in> set destinations" "is_ssrf c" for c
    using that worst_class_name worst_class_resolved by (auto simp: assms(2) worst_def name_def rs_def)
  have flagged: "the (destination_reason worst) \<in> ?codes" if "is_ssrf worst"
    using analyze_destination_flags [OF _ that] fold_hop_codes(1) [of ?d parse mk redirects]
    by (auto simp: analyze_codes [where parse = parse, OF assms(1)] worst_def name_def rs_def)
  have a: "SsrfPrivateAddress \<in> ?codes \<or> SsrfMetadataEndpoint \<in> ?codes" if "c \<in> set destinations" "is_ssrf c" for c
  proof -
    have "is_ssrf worst" using ge [OF that] that by (simp add: ssrf_risk)
    then show ?thesis using flagged by (cases worst) (auto simp: is_ssrf_def)
  qed
  have b: "SsrfMetadataEndpoint \<in> ?codes" if "CloudMetadata \<in> set destinations"
  proof -
    have "worst = CloudMetadata"
      unfolding metadata_risk using ge [OF that] by (simp add: is_ssrf_def)
    then show ?thesis using flagged by (simp add: is_ssrf_def)
  qed
  have c: "RedirectOutsidePolicy \<in> ?codes \<and> the (destination_reason c) \<in> ?codes"
    if "hop \<in> set redirects" "analyze_hop parse hop = Some c" "is_ssrf c" for hop c
    using fold_hop_flags [OF that, of mk ?d] by (simp add: analyze_codes [where parse = parse, OF assms(1)])
  show ?thesis using a b c by (simp add: Let_def) blast
qed

theorem internal_destination_reported_witness:
  "SsrfMetadataEndpoint \<in> set (nf_reason_codes (network_analyze sample_url sample_marks
     ''https://cdn.example/x'' [''93.184.216.34'', ''::ffff:169.254.169.254''] []))"
proof -
  let ?u = "\<lparr>url_scheme = ''https'', url_username = [], url_password = None, url_host = Some ''cdn.example''\<rparr>"
  have u: "sample_url ''https://cdn.example/x'' = Some ?u" by code_simp
  have "CloudMetadata \<in> set (map classify_ip (List.map_filter parse_ip [''93.184.216.34'', ''::ffff:169.254.169.254'']))"
    by code_simp
  then show ?thesis
    using internal_destination_reported [where parse = sample_url and mk = sample_marks and redirects = "[]"
        and addresses = "[''93.184.216.34'', ''::ffff:169.254.169.254'']", OF u refl]
    by (simp only: Let_def list.set insert_iff simp_thms)
qed

text \<open>
  The IPv6 metadata endpoint is known by one spelling of its name only. The address, given as a
  resolved address or as a host in another spelling, classifies as an ordinary private address, so
  it never gets the metadata code.
\<close>

theorem ipv6_metadata_by_spelling_only:
  "classify_host ''fd00:ec2::254'' = CloudMetadata \<and>
   parse_ip ''fd00:ec2:0::254'' = parse_ip ''fd00:ec2::254'' \<and>
   classify_host ''fd00:ec2:0::254'' = PrivateNetwork \<and>
   map_option classify_ip (parse_ip ''fd00:ec2::254'') = Some PrivateNetwork"
  by code_simp

end
