(* ===== verification/Globs.thy ===== *)
theory Globs
  imports Prelude
begin

text \<open>
  Pattern matching for resource and host rules, \<^verbatim>\<open>vigil-policy/src/glob.rs\<close>. The two-pointer
  matcher \<open>glob_match\<close> is related to the reference meaning \<open>glob_spec\<close> of a pattern.

  The source keeps indices \<^verbatim>\<open>pi\<close> and \<^verbatim>\<open>vi\<close> into two character vectors, the index \<^verbatim>\<open>star\<close> of the last
  star and the index \<^verbatim>\<open>resume\<close> into the value. The model keeps the suffixes these indices select:
  the rest of the pattern, the rest of the value, and, once a star was seen, the pattern after the
  star with the suffix of the value at \<^verbatim>\<open>resume\<close>.
\<close>

section \<open>The matcher\<close>

definition star_count :: "string \<Rightarrow> nat" where
  "star_count p = length (filter (\<lambda>c. c = CHR ''*'') p)"

definition stars_ahead :: "string \<Rightarrow> (string \<times> string) option \<Rightarrow> nat" where
  "stars_ahead p star =
     max (star_count p) (case star of None \<Rightarrow> 0 | Some (ps, _) \<Rightarrow> star_count ps)"

function glob_loop :: "string \<Rightarrow> string \<Rightarrow> (string \<times> string) option \<Rightarrow> bool" where
  "glob_loop p [] star = (dropWhile (\<lambda>c. c = CHR ''*'') p = [])"
| "glob_loop p (c # v) star =
     (if p \<noteq> [] \<and> (hd p = CHR ''?'' \<or> hd p = c) then glob_loop (tl p) v star
      else if p \<noteq> [] \<and> hd p = CHR ''*'' then glob_loop (tl p) (c # v) (Some (tl p, c # v))
      else (case star of
              Some (ps, resume) \<Rightarrow> glob_loop ps (tl resume) (Some (ps, tl resume))
            | None \<Rightarrow> False))"
  by pat_completeness auto
termination
proof (relation "measures [\<lambda>(p, v, star). stars_ahead p star,
    \<lambda>(p, v, star). (case star of None \<Rightarrow> 0 | Some (_, r) \<Rightarrow> length r),
    \<lambda>(p, v, star). length v]", goal_cases)
  case 1
  then show ?case by simp
next
  case (2 p c v star)
  then show ?case
    by (cases p) (auto simp: stars_ahead_def star_count_def max_def split: option.splits)
next
  case (3 p c v star)
  then show ?case
    by (cases p) (auto simp: stars_ahead_def star_count_def max_def split: option.splits)
next
  case (4 p c v star x ps resume)
  then show ?case
    by (cases resume) (auto simp: stars_ahead_def star_count_def max_def)
qed

declare glob_loop.simps(2) [simp del]

definition glob_match :: "string \<Rightarrow> string \<Rightarrow> bool" where
  "glob_match pattern value = glob_loop pattern value None"

section \<open>The meaning of a pattern\<close>

fun glob_spec :: "string \<Rightarrow> string \<Rightarrow> bool" where
  "glob_spec [] v = (v = [])"
| "glob_spec (x # p) [] = (x = CHR ''*'' \<and> glob_spec p [])"
| "glob_spec (x # p) (c # v) =
     (if x = CHR ''*'' then glob_spec p (c # v) \<or> glob_spec (x # p) v
      else (x = CHR ''?'' \<or> x = c) \<and> glob_spec p v)"

lemma glob_spec_empty_value: "glob_spec p [] \<longleftrightarrow> dropWhile (\<lambda>c. c = CHR ''*'') p = []"
  by (induction p) auto

lemma glob_spec_star: "glob_spec (CHR ''*'' # p) v \<longleftrightarrow> (\<exists>k. glob_spec p (drop k v))"
proof (induction v)
  case Nil
  then show ?case by simp
next
  case (Cons c v)
  have "(\<exists>k. glob_spec p (drop k (c # v))) \<longleftrightarrow>
      glob_spec p (c # v) \<or> (\<exists>k. glob_spec p (drop k v))"
    by (metis drop0 drop_Suc_Cons not0_implies_Suc)
  with Cons show ?case by simp
qed

lemma glob_spec_star_drop:
  "glob_spec (CHR ''*'' # p) (drop k v) \<Longrightarrow> glob_spec (CHR ''*'' # p) v"
  by (auto simp: glob_spec_star)

text \<open>Matching a star-free piece consumes exactly as many characters as the piece has.\<close>

definition piece_matches :: "string \<Rightarrow> string \<Rightarrow> bool" where
  "piece_matches pre w \<longleftrightarrow>
     length pre = length w \<and> list_all2 (\<lambda>x c. x \<noteq> CHR ''*'' \<and> (x = CHR ''?'' \<or> x = c)) pre w"

lemma piece_matches_Nil [simp]: "piece_matches [] []"
  by (simp add: piece_matches_def)

lemma piece_matches_snoc:
  "piece_matches pre w \<Longrightarrow> x \<noteq> CHR ''*'' \<Longrightarrow> x = CHR ''?'' \<or> x = c \<Longrightarrow>
     piece_matches (pre @ [x]) (w @ [c])"
  by (auto simp: piece_matches_def list_all2_append)

lemma piece_no_star: "piece_matches pre w \<Longrightarrow> CHR ''*'' \<notin> set pre"
  by (auto simp: piece_matches_def list_all2_conv_all_nth in_set_conv_nth)

lemma glob_spec_piece:
  "CHR ''*'' \<notin> set pre \<Longrightarrow> glob_spec (pre @ p) v \<longleftrightarrow>
     length pre \<le> length v \<and> piece_matches pre (take (length pre) v) \<and>
     glob_spec p (drop (length pre) v)"
proof (induction pre arbitrary: v)
  case Nil
  then show ?case by simp
next
  case (Cons x pre)
  then show ?case
    by (cases v) (auto simp: piece_matches_def)
qed

lemma glob_spec_matched:
  "piece_matches pre w \<Longrightarrow> glob_spec (pre @ p) (w @ v) = glob_spec p v"
  using glob_spec_piece [OF piece_no_star, of pre w p "w @ v"] by (auto simp: piece_matches_def)

section \<open>Correctness of the matcher\<close>

text \<open>
  While a star is pending, the text since \<^verbatim>\<open>resume\<close> matches the star-free piece since the star, and
  the loop decides whether the star and what follows it match from \<^verbatim>\<open>resume\<close> on.
\<close>

definition literal_step :: "string \<Rightarrow> char \<Rightarrow> bool" where
  "literal_step p c \<longleftrightarrow> p \<noteq> [] \<and> (hd p = CHR ''?'' \<or> hd p = c)"

lemma step_cases:
  obtains (lit) x p' where "p = x # p'" and "x = CHR ''?'' \<or> x = c" and "literal_step p c"
    | (star) p' where "p = CHR ''*'' # p'" and "\<not> literal_step p c"
    | (retry) "\<not> literal_step p c" and "p = [] \<or> hd p \<noteq> CHR ''*''"
  by (cases p) (auto simp: literal_step_def)

lemma glob_loop_step:
  "literal_step p c \<Longrightarrow> glob_loop p (c # v) star = glob_loop (tl p) v star"
  "\<not> literal_step (CHR ''*'' # p') c \<Longrightarrow>
     glob_loop (CHR ''*'' # p') (c # v) star = glob_loop p' (c # v) (Some (p', c # v))"
  "\<not> literal_step p c \<Longrightarrow> p = [] \<or> hd p \<noteq> CHR ''*'' \<Longrightarrow>
     glob_loop p (c # v) (Some (ps, r)) = glob_loop ps (tl r) (Some (ps, tl r))"
  "\<not> literal_step p c \<Longrightarrow> p = [] \<or> hd p \<noteq> CHR ''*'' \<Longrightarrow> glob_loop p (c # v) None = False"
  by (subst glob_loop.simps(2); auto simp: literal_step_def)+

text \<open>An older star is superseded: its piece has matched at the earliest place.\<close>

lemma glob_spec_superseded:
  assumes pm: "piece_matches pre w"
  shows "glob_spec (CHR ''*'' # pre @ CHR ''*'' # p) (w @ v) \<longleftrightarrow> glob_spec (CHR ''*'' # p) v"
    (is "?l \<longleftrightarrow> ?r")
proof
  assume ?l
  then obtain k where "glob_spec (pre @ CHR ''*'' # p) (drop k (w @ v))"
    by (auto simp: glob_spec_star)
  then have "glob_spec (CHR ''*'' # p) (drop (length pre) (drop k (w @ v)))"
    using glob_spec_piece [OF piece_no_star [OF pm]] by blast
  moreover have "drop (length pre) (drop k (w @ v)) = drop k (drop (length pre) (w @ v))"
    by (simp only: drop_drop add.commute)
  moreover have "drop (length pre) (w @ v) = v"
    using pm by (simp add: piece_matches_def)
  ultimately show ?r using glob_spec_star_drop by metis
next
  assume ?r
  then have "glob_spec (pre @ CHR ''*'' # p) (w @ v)"
    using glob_spec_matched [OF pm] by simp
  then show ?l unfolding glob_spec_star by (metis drop0)
qed

lemma glob_spec_exhausted:
  assumes pm: "piece_matches pre w"
  shows "glob_spec (CHR ''*'' # pre @ p) w \<longleftrightarrow> glob_spec p []"
proof -
  have len: "length pre = length w" and ns: "CHR ''*'' \<notin> set pre"
    using pm piece_no_star by (auto simp: piece_matches_def)
  have zero: "k = 0 \<or> w = []" if "glob_spec (pre @ p) (drop k w)" for k
  proof -
    have "length w \<le> length w - k"
      using that len glob_spec_piece [OF ns, of p "drop k w"] by auto
    moreover have "0 < length w" if "w \<noteq> []" using that by simp
    ultimately show ?thesis by linarith
  qed
  have "glob_spec (CHR ''*'' # pre @ p) w \<longleftrightarrow> glob_spec (pre @ p) w"
    unfolding glob_spec_star using zero by (metis drop0 drop_Nil)
  then show ?thesis
    using glob_spec_matched [OF pm, of p "[]"] by simp
qed

lemma glob_loop_pending:
  "star = Some (pre @ p, w @ v) \<Longrightarrow> piece_matches pre w \<Longrightarrow> CHR ''*'' \<notin> set (w @ v) \<Longrightarrow>
     glob_loop p v star = glob_spec (CHR ''*'' # pre @ p) (w @ v)"
proof (induction p v star arbitrary: pre w rule: glob_loop.induct)
  case (1 p star)
  then show ?case using glob_spec_exhausted [of pre w p] by (simp add: glob_spec_empty_value)
next
  case (2 p c v star)
  note pm = \<open>piece_matches pre w\<close> and st = \<open>star = Some (pre @ p, w @ c # v)\<close>
  have ns: "CHR ''*'' \<notin> set w" "c \<noteq> CHR ''*''" "CHR ''*'' \<notin> set v" using "2.prems"(3) by auto
  show ?case
  proof (cases p c rule: step_cases)
    case (lit x p')
    then have x: "x \<noteq> CHR ''*''" using ns by auto
    have "glob_loop p' v star = glob_spec (CHR ''*'' # (pre @ [x]) @ p') ((w @ [c]) @ v)"
      using "2.IH"(1) [of "pre @ [x]" "w @ [c]"] lit st ns x piece_matches_snoc [OF pm]
      by (auto simp: literal_step_def)
    with lit show ?thesis by (simp add: glob_loop_step)
  next
    case (star p')
    have "glob_loop p' (c # v) (Some (p', c # v)) = glob_spec (CHR ''*'' # p') (c # v)"
      using "2.IH"(2) [of "[]" "[]"] star ns by (auto simp: literal_step_def)
    with star show ?thesis
      by (simp add: glob_loop_step glob_spec_superseded [OF pm])
  next
    case retry
    have no: "\<not> glob_spec (pre @ p) (w @ c # v)"
      using glob_spec_matched [OF pm, of p "c # v"] retry by (cases p) (auto simp: literal_step_def)
    obtain d r where wcv: "w @ c # v = d # r" by (cases w) auto
    have "CHR ''*'' \<notin> set r"
      using "2.prems"(3) wcv by (metis list.set_intros(2))
    then have "glob_loop (pre @ p) r (Some (pre @ p, r)) = glob_spec (CHR ''*'' # pre @ p) r"
      using "2.IH"(3) [of "(pre @ p, w @ c # v)" "pre @ p" "w @ c # v" "[]" "[]"] st wcv retry
      by (auto simp: literal_step_def)
    with no st wcv retry show ?thesis by (simp add: glob_loop_step)
  qed
qed

lemma glob_loop_spec: "CHR ''*'' \<notin> set v \<Longrightarrow> glob_loop p v None = glob_spec p v"
proof (induction v arbitrary: p)
  case Nil
  then show ?case by (simp add: glob_spec_empty_value)
next
  case (Cons c v)
  show ?case
  proof (cases p c rule: step_cases)
    case (lit x p')
    with Cons show ?thesis by (auto simp: glob_loop_step)
  next
    case (star p')
    then show ?thesis
      using glob_loop_pending [of _ "[]" p' "[]" "c # v"] Cons.prems by (simp add: glob_loop_step)
  next
    case retry
    then show ?thesis by (cases p) (auto simp: glob_loop_step literal_step_def)
  qed
qed

lemma glob_loop_sound:
  "glob_loop p v star \<Longrightarrow>
     glob_spec p v \<or> (\<exists>ps r. star = Some (ps, r) \<and> glob_spec (CHR ''*'' # ps) (tl r))"
proof (induction p v star rule: glob_loop.induct)
  case (1 p star)
  then show ?case by (simp add: glob_spec_empty_value)
next
  case (2 p c v star)
  show ?case
  proof (cases p c rule: step_cases)
    case (lit x p')
    then have "glob_loop p' v star" using "2.prems" by (simp add: glob_loop_step)
    then have "glob_spec p' v \<or> (\<exists>ps r. star = Some (ps, r) \<and> glob_spec (CHR ''*'' # ps) (tl r))"
      using "2.IH"(1) lit by (simp add: literal_step_def)
    moreover have "glob_spec p' v \<Longrightarrow> glob_spec p (c # v)"
      using lit glob_spec_star [of p' v] by (cases "x = CHR ''*''") (auto intro: exI [of _ 0])
    ultimately show ?thesis by blast
  next
    case (star p')
    then have "glob_loop p' (c # v) (Some (p', c # v))" using "2.prems" by (simp add: glob_loop_step)
    then have "glob_spec p' (c # v) \<or> glob_spec (CHR ''*'' # p') v"
      using "2.IH"(2) star by (auto simp: literal_step_def)
    then show ?thesis using star by simp
  next
    case retry
    then obtain ps r where st: "star = Some (ps, r)"
      using "2.prems" by (cases star) (auto simp: glob_loop_step)
    then have "glob_loop ps (tl r) (Some (ps, tl r))" using retry "2.prems" by (simp add: glob_loop_step)
    then have "glob_spec ps (tl r) \<or> glob_spec (CHR ''*'' # ps) (tl (tl r))"
      using "2.IH"(3) [of "(ps, r)" ps r] st retry by (auto simp: literal_step_def)
    then have "glob_spec (CHR ''*'' # ps) (tl r)"
      using glob_spec_star_drop [of ps 1 "tl r"] unfolding glob_spec_star
      by (metis drop0 drop_Suc One_nat_def)
    then show ?thesis using st by blast
  qed
qed

section \<open>Host patterns\<close>

definition host_norm :: "string \<Rightarrow> string" where
  "host_norm s = to_ascii_lowercase (trim_end_matches (\<lambda>c. c = CHR ''.'') (trim s))"

definition host_matches :: "string \<Rightarrow> string \<Rightarrow> bool" where
  "host_matches pattern host =
     (if pattern = ''*'' then False
      else let pattern' = host_norm pattern; host' = host_norm host
           in if pattern' = [] \<or> host' = [] then False
              else (case strip_prefix pattern' ''*.'' of
                      Some sfx \<Rightarrow> ends_with host' (''.'' @ sfx)
                    | None \<Rightarrow> glob_match pattern' host'))"

definition any_host_matches :: "string list \<Rightarrow> string \<Rightarrow> bool" where
  "any_host_matches patterns host = list_ex (\<lambda>p. host_matches p host) patterns"

lemma trim_end_matches_append:
  "s \<noteq> [] \<Longrightarrow> \<not> p (last s) \<Longrightarrow> trim_end_matches p (a @ s) = a @ s"
  by (rule trim_end_matches_id) simp

lemma host_norm_wildcard:
  assumes "s \<noteq> []" and "last s \<noteq> CHR ''.''" and "\<not> is_whitespace (last s)"
  shows "host_norm (''*.'' @ s) = ''*.'' @ to_ascii_lowercase s"
proof -
  have ws: "\<not> is_whitespace CHR ''*''" by (simp add: is_whitespace_def)
  have "trim (''*.'' @ s) = ''*.'' @ s"
    using assms ws trim_end_matches_append [of s is_whitespace "''*.''"]
    by (simp add: trim_def trim_start_def)
  moreover have "trim_end_matches (\<lambda>c. c = CHR ''.'') (''*.'' @ s) = ''*.'' @ s"
    using assms trim_end_matches_append [of s "\<lambda>c. c = CHR ''.''" "''*.''"] by simp
  ultimately show ?thesis
    by (simp add: host_norm_def to_ascii_lowercase_def to_ascii_lowercase_char_def)
qed

section \<open>Properties\<close>

text \<open>
  The two-pointer matcher never accepts a value outside the meaning of its pattern, and on
  values without a literal star it accepts exactly the values of that meaning.
\<close>

theorem glob_match_correct:
  "(glob_match p v \<longrightarrow> glob_spec p v) \<and>
   (CHR ''*'' \<notin> set v \<longrightarrow> glob_match p v = glob_spec p v)"
  using glob_loop_sound [of p v None] glob_loop_spec [of v p] by (auto simp: glob_match_def)

theorem glob_match_correct_witness:
  "CHR ''*'' \<notin> set ''reports-2026'' \<and> glob_spec ''re*s-20?6'' ''reports-2026'' \<and>
   glob_match ''re*s-20?6'' ''reports-2026''"
proof -
  have h: "CHR ''*'' \<notin> set ''reports-2026''" by simp
  have s: "glob_spec ''re*s-20?6'' ''reports-2026''" by simp
  show ?thesis using glob_match_correct [of "''re*s-20?6''" "''reports-2026''"] h s by simp
qed

text \<open>
  A value that begins with a literal star escapes the pattern star, although the pattern means
  every value: the literal comparison is tried before the wildcard, consumes the star of the
  pattern, and nothing is left to resume from.
\<close>

theorem glob_match_star_escapes:
  "v \<noteq> [] \<Longrightarrow> glob_spec ''*'' (CHR ''*'' # v) \<and> \<not> glob_match ''*'' (CHR ''*'' # v)"
proof -
  assume "v \<noteq> []"
  then obtain c u where v: "v = c # u" by (cases v) auto
  have "glob_loop [] (c # u) None = False"
    by (simp add: glob_loop.simps(2))
  moreover have "glob_loop ''*'' (CHR ''*'' # v) None = glob_loop [] v None"
    by (simp add: glob_loop.simps(2))
  ultimately have "\<not> glob_match ''*'' (CHR ''*'' # v)"
    using v by (simp add: glob_match_def)
  moreover have "glob_spec ''*'' (CHR ''*'' # v)"
    unfolding glob_spec_star by (rule exI [of _ "Suc (length v)"]) simp
  ultimately show ?thesis by blast
qed

theorem glob_match_star_escapes_witness:
  "''a'' \<noteq> [] \<and> glob_spec ''*'' ''*a'' \<and> \<not> glob_match ''*'' ''*a''"
  using glob_match_star_escapes [of "''a''"] by simp

text \<open>
  A wildcard entry names the strict subdomains of its suffix and nothing else: the
  normalized host ends in a dot and the suffix, so neither the apex nor a look-alike matches.
\<close>

theorem host_matches_wildcard:
  assumes "s \<noteq> []" and "last s \<noteq> CHR ''.''" and "\<not> is_whitespace (last s)"
  shows "(host_matches (''*.'' @ s) host \<longleftrightarrow>
            (\<exists>sub. host_norm host = sub @ ''.'' @ to_ascii_lowercase s)) \<and>
         (host_matches (''*.'' @ s) host \<longrightarrow> host_norm host \<noteq> to_ascii_lowercase s)"
proof -
  have "host_matches (''*.'' @ s) host \<longleftrightarrow>
      (\<exists>sub. host_norm host = sub @ ''.'' @ to_ascii_lowercase s)"
    using host_norm_wildcard [OF assms]
    by (auto simp: host_matches_def Let_def strip_prefix_def ends_with_def suffix_def)
  then show ?thesis by auto
qed

theorem host_matches_wildcard_witness:
  "host_matches (''*.'' @ ''a.com'') ''API.a.com.'' \<and> \<not> host_matches (''*.'' @ ''a.com'') ''a.com''"
proof -
  have h: "''a.com'' \<noteq> []" "last ''a.com'' \<noteq> CHR ''.''" "\<not> is_whitespace (last ''a.com'')"
    by (simp_all add: is_whitespace_def)
  have api: "host_norm ''API.a.com.'' = ''api'' @ ''.'' @ to_ascii_lowercase ''a.com''"
    by code_simp
  have apex: "host_norm ''a.com'' = to_ascii_lowercase ''a.com''"
    by code_simp
  show ?thesis
    using host_matches_wildcard [OF h, of "''API.a.com.''"] api
      host_matches_wildcard [OF h, of "''a.com''"] apex by blast
qed

text \<open>
  The refusal of a bare star is decided before the pattern is trimmed. A star followed by a
  dot is not refused, is trimmed to a bare star, and then admits every host (that holds no star).
\<close>

theorem host_matches_star_dot:
  "host_norm host \<noteq> [] \<Longrightarrow> CHR ''*'' \<notin> set (host_norm host) \<Longrightarrow>
     host_matches ''*.'' host \<and> \<not> host_matches ''*'' host"
proof -
  assume h: "host_norm host \<noteq> []" "CHR ''*'' \<notin> set (host_norm host)"
  have n: "host_norm ''*.'' = ''*''" by code_simp
  have "glob_match ''*'' (host_norm host) = glob_spec ''*'' (host_norm host)"
    using glob_loop_spec [OF h(2)] by (simp add: glob_match_def)
  moreover have "glob_spec ''*'' (host_norm host)"
    unfolding glob_spec_star by (rule exI [of _ "length (host_norm host)"]) simp
  ultimately show ?thesis
    using h n by (simp add: host_matches_def strip_prefix_def)
qed

theorem host_matches_star_dot_witness:
  "host_norm ''evil.net'' \<noteq> [] \<and> host_matches ''*.'' ''evil.net''"
proof -
  have n: "host_norm ''evil.net'' = ''evil.net''" by code_simp
  show ?thesis using host_matches_star_dot [of "''evil.net''"] by (simp add: n)
qed

end
