(* ===== verification/Policy.thy ===== *)
theory Policy
  imports Actions Reasons Globs Paths
begin

text \<open>
  The deterministic rule engine of \<^verbatim>\<open>vigil-policy\<close>: the authorization question (\<^verbatim>\<open>request.rs\<close>), the
  rule language with its matcher, bundle validation and evaluation (\<^verbatim>\<open>rules.rs\<close>), and the built-in
  engine with the merge of a policy directory (\<^verbatim>\<open>lib.rs\<close>). Parsing YAML and JSON and reading files
  are the work of serde and the operating system: the definitions start from parsed bundles.
\<close>

section \<open>The authorization question\<close>

record PolicyPrincipal =
  pp_id :: string
  pp_tenant_id :: string
  pp_kind :: string
  pp_roles :: "string list"
  pp_mfa :: bool
  pp_agent_id :: string
  pp_delegation_lineage :: "string list"

record PolicyAction =
  pa_kind :: string
  pa_operation :: string
  pa_side_effect :: SideEffectClass
  pa_impact_tier :: ImpactTier

record PolicyResource =
  pres_name :: string
  pres_tool_id :: "string option"
  pres_destination_host :: "string option"
  pres_paths :: "string list"
  pres_data_classes :: "string list"

record PolicyContext =
  pc_environment_id :: "string option"
  pc_session_id :: "string option"
  pc_lowest_influencing_trust :: "TrustLevel option"
  pc_untrusted_instruction_influence :: bool
  pc_taints :: "TaintKind list"
  pc_approval_satisfied :: bool
  pc_prior_denials :: u32
  pc_delegation_depth :: u32

record PolicyRequest =
  pq_principal :: PolicyPrincipal
  pq_action :: PolicyAction
  pq_resource :: PolicyResource
  pq_context :: PolicyContext

record PolicyDecision =
  pd_decision :: Decision
  pd_matched_policies :: "string list"
  pd_reason_codes :: "ReasonCode list"
  pd_obligations :: "Obligation list"
  pd_constraints :: "Constraint list"
  pd_bundle_version :: string
  pd_severity :: "string option"

section \<open>Rules\<close>

datatype PolicyEffect =
    EffAllow
  | EffAllowWithConstraints
  | EffRequireApproval
  | EffQuarantine
  | EffDeny
  | EffTerminateSession

fun to_decision :: "PolicyEffect \<Rightarrow> Decision" where
  "to_decision EffAllow = Allow"
| "to_decision EffAllowWithConstraints = AllowWithConstraints"
| "to_decision EffRequireApproval = RequireApproval"
| "to_decision EffQuarantine = Quarantine"
| "to_decision EffDeny = Deny"
| "to_decision EffTerminateSession = TerminateSession"

datatype Severity = SevInfo | SevLow | SevMedium | SevHigh | SevCritical

fun severity_index :: "Severity \<Rightarrow> nat" where
  "severity_index SevInfo = 0"
| "severity_index SevLow = 1"
| "severity_index SevMedium = 2"
| "severity_index SevHigh = 3"
| "severity_index SevCritical = 4"

fun severity_as_str :: "Severity \<Rightarrow> string" where
  "severity_as_str SevInfo = ''INFO''"
| "severity_as_str SevLow = ''LOW''"
| "severity_as_str SevMedium = ''MEDIUM''"
| "severity_as_str SevHigh = ''HIGH''"
| "severity_as_str SevCritical = ''CRITICAL''"

text \<open>\<^verbatim>\<open>Ord::max\<close> returns its argument when the two are equal.\<close>

definition severity_max :: "Severity \<Rightarrow> Severity \<Rightarrow> Severity" where
  "severity_max self other = (if severity_index self \<le> severity_index other then other else self)"

lemma severity_index_inj: "severity_index a = severity_index b \<Longrightarrow> a = b"
  by (cases a; cases b) simp_all

interpretation severity: ranked_merge "\<lambda>s. int (severity_index s)" severity_max
  by unfold_locales (auto simp: severity_max_def dest: severity_index_inj)

record RuleMatcher =
  rm_match_all :: bool
  rm_action_kinds :: "string list"
  rm_operations :: "string list"
  rm_resources :: "string list"
  rm_side_effects :: "SideEffectClass list"
  rm_min_impact_tier :: "ImpactTier option"
  rm_destination_hosts :: "string list"
  rm_destination_not_in :: "string list"
  rm_paths :: "string list"
  rm_paths_outside :: "string list"
  rm_taints_any :: "TaintKind list"
  rm_taints_all :: "TaintKind list"
  rm_untrusted_instruction_influence :: "bool option"
  rm_influencing_trust_below :: "TrustLevel option"
  rm_data_classes_any :: "string list"
  rm_principal_kinds :: "string list"
  rm_principal_roles_any :: "string list"
  rm_principal_mfa :: "bool option"
  rm_environments :: "string list"
  rm_approval_satisfied :: "bool option"
  rm_delegation_depth_min :: "u32 option"
  rm_prior_denials_min :: "u32 option"

definition rm_default :: RuleMatcher where
  "rm_default = \<lparr>rm_match_all = False, rm_action_kinds = [], rm_operations = [], rm_resources = [],
     rm_side_effects = [], rm_min_impact_tier = None, rm_destination_hosts = [],
     rm_destination_not_in = [], rm_paths = [], rm_paths_outside = [], rm_taints_any = [],
     rm_taints_all = [], rm_untrusted_instruction_influence = None,
     rm_influencing_trust_below = None, rm_data_classes_any = [], rm_principal_kinds = [],
     rm_principal_roles_any = [], rm_principal_mfa = None, rm_environments = [],
     rm_approval_satisfied = None, rm_delegation_depth_min = None, rm_prior_denials_min = None\<rparr>"

definition matcher_is_empty :: "RuleMatcher \<Rightarrow> bool" where
  "matcher_is_empty m = (m = rm_default)"

text \<open>
  A condition given as a list is absent when the list is empty, one given as an option when it is
  \<^verbatim>\<open>None\<close>; an absent condition holds. The conditions come in the order of the early returns of
  \<^verbatim>\<open>RuleMatcher::matches\<close>.
\<close>

definition opt_holds :: "'a option \<Rightarrow> ('a \<Rightarrow> bool) \<Rightarrow> bool" where
  "opt_holds x p = (case x of None \<Rightarrow> True | Some v \<Rightarrow> p v)"

definition rm_matches_action :: "RuleMatcher \<Rightarrow> PolicyRequest \<Rightarrow> bool" where
  "rm_matches_action m req \<longleftrightarrow>
     (rm_action_kinds m \<noteq> [] \<longrightarrow> pa_kind (pq_action req) \<in> set (rm_action_kinds m)) \<and>
     (rm_operations m \<noteq> [] \<longrightarrow>
        list_ex (\<lambda>o'. eq_ignore_ascii_case o' (pa_operation (pq_action req))) (rm_operations m)) \<and>
     (rm_resources m \<noteq> [] \<longrightarrow>
        list_ex (\<lambda>p. glob_match p (pres_name (pq_resource req))) (rm_resources m)) \<and>
     (rm_side_effects m \<noteq> [] \<longrightarrow> pa_side_effect (pq_action req) \<in> set (rm_side_effects m)) \<and>
     opt_holds (rm_min_impact_tier m) (\<lambda>min. \<not> pa_impact_tier (pq_action req) < min)"

definition rm_matches_resource :: "RuleMatcher \<Rightarrow> PolicyRequest \<Rightarrow> bool" where
  "rm_matches_resource m req \<longleftrightarrow>
     (rm_destination_hosts m \<noteq> [] \<longrightarrow>
        (case pres_destination_host (pq_resource req) of
           Some h \<Rightarrow> any_host_matches (rm_destination_hosts m) h
         | None \<Rightarrow> False)) \<and>
     (rm_destination_not_in m \<noteq> [] \<longrightarrow>
        (case pres_destination_host (pq_resource req) of
           None \<Rightarrow> True
         | Some h \<Rightarrow> \<not> any_host_matches (rm_destination_not_in m) h)) \<and>
     (rm_paths m \<noteq> [] \<longrightarrow>
        list_ex (\<lambda>path. list_ex (\<lambda>p. glob_match p path) (rm_paths m)) (pres_paths (pq_resource req))) \<and>
     (rm_paths_outside m \<noteq> [] \<longrightarrow>
        \<not> (pres_paths (pq_resource req) = [] \<or>
           list_all (\<lambda>path. is_inside_any path (rm_paths_outside m)) (pres_paths (pq_resource req))))"

definition rm_matches_context :: "RuleMatcher \<Rightarrow> PolicyRequest \<Rightarrow> bool" where
  "rm_matches_context m req \<longleftrightarrow>
     (rm_taints_any m \<noteq> [] \<longrightarrow>
        list_ex (\<lambda>t. t \<in> set (pc_taints (pq_context req))) (rm_taints_any m)) \<and>
     (rm_taints_all m \<noteq> [] \<longrightarrow>
        list_all (\<lambda>t. t \<in> set (pc_taints (pq_context req))) (rm_taints_all m)) \<and>
     opt_holds (rm_untrusted_instruction_influence m)
       (\<lambda>expected. pc_untrusted_instruction_influence (pq_context req) = expected) \<and>
     opt_holds (rm_influencing_trust_below m)
       (\<lambda>threshold. case pc_lowest_influencing_trust (pq_context req) of
          Some actual \<Rightarrow> trust_rank actual < trust_rank threshold
        | None \<Rightarrow> False) \<and>
     (rm_data_classes_any m \<noteq> [] \<longrightarrow>
        list_ex (\<lambda>c. c \<in> set (pres_data_classes (pq_resource req))) (rm_data_classes_any m))"

definition rm_matches_principal :: "RuleMatcher \<Rightarrow> PolicyRequest \<Rightarrow> bool" where
  "rm_matches_principal m req \<longleftrightarrow>
     (rm_principal_kinds m \<noteq> [] \<longrightarrow> pp_kind (pq_principal req) \<in> set (rm_principal_kinds m)) \<and>
     (rm_principal_roles_any m \<noteq> [] \<longrightarrow>
        list_ex (\<lambda>r. r \<in> set (pp_roles (pq_principal req))) (rm_principal_roles_any m)) \<and>
     opt_holds (rm_principal_mfa m) (\<lambda>expected. pp_mfa (pq_principal req) = expected) \<and>
     (rm_environments m \<noteq> [] \<longrightarrow>
        (case pc_environment_id (pq_context req) of
           Some env \<Rightarrow> env \<in> set (rm_environments m)
         | None \<Rightarrow> False)) \<and>
     opt_holds (rm_approval_satisfied m)
       (\<lambda>expected. pc_approval_satisfied (pq_context req) = expected) \<and>
     opt_holds (rm_delegation_depth_min m)
       (\<lambda>min. \<not> pc_delegation_depth (pq_context req) < min) \<and>
     opt_holds (rm_prior_denials_min m) (\<lambda>min. \<not> pc_prior_denials (pq_context req) < min)"

definition matcher_matches :: "RuleMatcher \<Rightarrow> PolicyRequest \<Rightarrow> bool" where
  "matcher_matches m req \<longleftrightarrow>
     rm_match_all m \<or>
     (rm_matches_action m req \<and> rm_matches_resource m req \<and>
      rm_matches_context m req \<and> rm_matches_principal m req)"

record Rule =
  ru_id :: string
  ru_description :: string
  ru_effect :: PolicyEffect
  ru_severity :: Severity
  ru_matcher :: RuleMatcher
  ru_reason_codes :: "ReasonCode list"
  ru_obligations :: "Obligation list"
  ru_constraints :: "Constraint list"
  ru_audit_only :: bool

record PolicyBundle =
  pb_version :: string
  pb_description :: string
  pb_default_effect :: PolicyEffect
  pb_rules :: "Rule list"

section \<open>Validation\<close>

datatype policy_error =
    NoRules
  | EmptyRuleId
  | DuplicateRuleId string
  | NoConditions string
  | UniversalAllow string
  | StarHostPattern string

fun validate_rules :: "string list \<Rightarrow> Rule list \<Rightarrow> policy_error + unit" where
  "validate_rules seen [] = Inr ()"
| "validate_rules seen (r # rs) =
     (if trim (ru_id r) = [] then Inl EmptyRuleId
      else if ru_id r \<in> set seen then Inl (DuplicateRuleId (ru_id r))
      else if matcher_is_empty (ru_matcher r) then Inl (NoConditions (ru_id r))
      else if rm_match_all (ru_matcher r) \<and> ru_effect r = EffAllow then Inl (UniversalAllow (ru_id r))
      else if ''*'' \<in> set (rm_destination_hosts (ru_matcher r))
              \<or> ''*'' \<in> set (rm_destination_not_in (ru_matcher r)) then Inl (StarHostPattern (ru_id r))
      else validate_rules (ru_id r # seen) rs)"

definition bundle_validate :: "PolicyBundle \<Rightarrow> policy_error + unit" where
  "bundle_validate b =
     (if pb_rules b = [] then Inl NoRules else validate_rules [] (pb_rules b))"

section \<open>Evaluation\<close>

record ResolvedPolicy =
  rp_decision :: Decision
  rp_matched_policies :: "string list"
  rp_reason_codes :: "ReasonCode list"
  rp_obligations :: "Obligation list"
  rp_constraints :: "Constraint list"
  rp_severity :: "string option"
  rp_default_applied :: bool
  rp_audit_only_matches :: "(string \<times> PolicyEffect) list"

text \<open>The mutable variables of the evaluation loop.\<close>

record eval_state =
  es_decision :: "Decision option"
  es_matched :: "string list"
  es_reason_codes :: "ReasonCode list"
  es_obligations :: "Obligation list"
  es_constraints :: "Constraint list"
  es_severity :: "Severity option"
  es_audit_only :: "(string \<times> PolicyEffect) list"

definition eval_init :: eval_state where
  "eval_init = \<lparr>es_decision = None, es_matched = [], es_reason_codes = [], es_obligations = [],
     es_constraints = [], es_severity = None, es_audit_only = []\<rparr>"

definition eval_rule :: "PolicyRequest \<Rightarrow> eval_state \<Rightarrow> Rule \<Rightarrow> eval_state" where
  "eval_rule req s rule =
     (if \<not> matcher_matches (ru_matcher rule) req then s
      else if ru_audit_only rule then
        s\<lparr>es_audit_only := es_audit_only s @ [(ru_id rule, ru_effect rule)]\<rparr>
      else
        s\<lparr>es_matched := es_matched s @ [ru_id rule],
          es_decision := opt_merge decision_combine (es_decision s) (to_decision (ru_effect rule)),
          es_reason_codes := es_reason_codes s @ ru_reason_codes rule,
          es_obligations := es_obligations s @ ru_obligations rule,
          es_constraints := es_constraints s @ ru_constraints rule,
          es_severity := opt_merge severity_max (es_severity s) (ru_severity rule)\<rparr>)"

definition bundle_evaluate :: "PolicyBundle \<Rightarrow> PolicyRequest \<Rightarrow> ResolvedPolicy" where
  "bundle_evaluate b req =
     (let s = foldl (eval_rule req) eval_init (pb_rules b);
          (decision, default_applied) =
            (case es_decision s of
               Some d \<Rightarrow> (d, False)
             | None \<Rightarrow> (to_decision (pb_default_effect b), True));
          r1 = (if default_applied \<and> \<not> permits_execution decision
                then es_reason_codes s @ [PolicyDefaultDeny] else es_reason_codes s);
          r2 = (if \<not> default_applied \<and> permits_execution decision \<and> r1 = []
                then r1 @ [PolicyAllow] else r1);
          r3 = (if \<not> default_applied \<and> \<not> permits_execution decision \<and> r2 = []
                then r2 @ [PolicyDeny] else r2)
      in \<lparr>rp_decision = decision, rp_matched_policies = es_matched s, rp_reason_codes = r3,
          rp_obligations = es_obligations s, rp_constraints = es_constraints s,
          rp_severity = map_option severity_as_str (es_severity s),
          rp_default_applied = default_applied, rp_audit_only_matches = es_audit_only s\<rparr>)"

section \<open>The built-in engine\<close>

definition evaluate_sync :: "PolicyBundle \<Rightarrow> PolicyRequest \<Rightarrow> PolicyDecision" where
  "evaluate_sync b req =
     (let resolved = bundle_evaluate b req
      in \<lparr>pd_decision = rp_decision resolved, pd_matched_policies = rp_matched_policies resolved,
          pd_reason_codes = rp_reason_codes resolved, pd_obligations = rp_obligations resolved,
          pd_constraints = rp_constraints resolved, pd_bundle_version = pb_version b,
          pd_severity = rp_severity resolved\<rparr>)"

text \<open>
  The merge of \<^verbatim>\<open>from_directory\<close>, over the parsed bundles of the sorted files: each is validated as
  \<^verbatim>\<open>PolicyBundle::from_yaml\<close> does, the accumulator holds the default effect and the rules so far.
\<close>

fun merge_files :: "PolicyEffect \<Rightarrow> Rule list \<Rightarrow> PolicyBundle list \<Rightarrow>
    policy_error + (PolicyEffect \<times> Rule list)" where
  "merge_files default_effect rules [] = Inr (default_effect, rules)"
| "merge_files default_effect rules (b # bs) =
     rbind (bundle_validate b) (\<lambda>_.
       merge_files (if pb_default_effect b = EffDeny then EffDeny else default_effect)
         (rules @ pb_rules b) bs)"

definition from_directory :: "string \<Rightarrow> string \<Rightarrow> PolicyBundle list \<Rightarrow> policy_error + PolicyBundle" where
  "from_directory version description files =
     rbind (merge_files EffDeny [] files) (\<lambda>(default_effect, rules).
       let merged = \<lparr>pb_version = version, pb_description = description,
                     pb_default_effect = default_effect, pb_rules = rules\<rparr>
       in rbind (bundle_validate merged) (\<lambda>_. Inr merged))"

section \<open>What evaluation computes\<close>

text \<open>The rules that bear on a decision: those that match and are enforced.\<close>

definition enforced :: "PolicyRequest \<Rightarrow> Rule list \<Rightarrow> Rule list" where
  "enforced req rules =
     filter (\<lambda>r. matcher_matches (ru_matcher r) req \<and> \<not> ru_audit_only r) rules"

lemma eval_fold:
  "es_decision (foldl (eval_rule req) s rs) =
     foldl (opt_merge decision_combine) (es_decision s) (map (to_decision \<circ> ru_effect) (enforced req rs))"
  "es_severity (foldl (eval_rule req) s rs) =
     foldl (opt_merge severity_max) (es_severity s) (map ru_severity (enforced req rs))"
  "es_matched (foldl (eval_rule req) s rs) = es_matched s @ map ru_id (enforced req rs)"
  "es_reason_codes (foldl (eval_rule req) s rs) =
     es_reason_codes s @ concat (map ru_reason_codes (enforced req rs))"
  "es_obligations (foldl (eval_rule req) s rs) =
     es_obligations s @ concat (map ru_obligations (enforced req rs))"
  "es_constraints (foldl (eval_rule req) s rs) =
     es_constraints s @ concat (map ru_constraints (enforced req rs))"
  by (induction rs arbitrary: s) (simp_all add: enforced_def eval_rule_def)

lemma enforced_mset: "mset rs = mset rs' \<Longrightarrow> mset (enforced req rs) = mset (enforced req rs')"
  by (simp add: enforced_def)

lemma bundle_evaluate_default:
  "rp_default_applied (bundle_evaluate b req) \<longleftrightarrow> enforced req (pb_rules b) = []"
proof -
  have "es_decision (foldl (eval_rule req) eval_init (pb_rules b)) = None \<longleftrightarrow>
      enforced req (pb_rules b) = []"
    by (simp add: eval_fold eval_init_def decision.opt_foldl_None_iff)
  then show ?thesis
    by (auto simp: bundle_evaluate_def Let_def split: option.splits)
qed

lemma bundle_evaluate_decision:
  "rp_decision (bundle_evaluate b req) =
     (case foldl (opt_merge decision_combine) None
             (map (to_decision \<circ> ru_effect) (enforced req (pb_rules b))) of
        Some d \<Rightarrow> d | None \<Rightarrow> to_decision (pb_default_effect b))"
  by (simp add: bundle_evaluate_def Let_def eval_fold eval_init_def split: option.splits)

lemma bundle_evaluate_matched:
  "rp_matched_policies (bundle_evaluate b req) = map ru_id (enforced req (pb_rules b))"
  by (simp add: bundle_evaluate_def Let_def eval_fold eval_init_def split: option.splits)

lemma bundle_evaluate_severity:
  "rp_severity (bundle_evaluate b req) =
     map_option severity_as_str
       (foldl (opt_merge severity_max) None (map ru_severity (enforced req (pb_rules b))))"
  by (simp add: bundle_evaluate_def Let_def eval_fold eval_init_def split: option.splits)

lemma bundle_evaluate_is_max:
  assumes "enforced req (pb_rules b) \<noteq> []"
  shows "rp_decision (bundle_evaluate b req) \<in>
           (to_decision \<circ> ru_effect) ` set (enforced req (pb_rules b))"
    and "r \<in> set (enforced req (pb_rules b)) \<Longrightarrow>
           to_decision (ru_effect r) \<le> rp_decision (bundle_evaluate b req)"
proof -
  let ?ds = "map (to_decision \<circ> ru_effect) (enforced req (pb_rules b))"
  obtain d where d: "foldl (opt_merge decision_combine) None ?ds = Some d"
    using assms decision.opt_foldl_None_iff [of ?ds] by auto
  then have res: "rp_decision (bundle_evaluate b req) = d"
    by (simp add: bundle_evaluate_decision)
  have max: "d \<in> set ?ds" "\<forall>y \<in> set ?ds. restrictiveness y \<le> restrictiveness d"
    using d unfolding decision.opt_foldl_Some_iff by auto
  show "rp_decision (bundle_evaluate b req) \<in>
      (to_decision \<circ> ru_effect) ` set (enforced req (pb_rules b))"
    using max(1) res by simp
  show "r \<in> set (enforced req (pb_rules b)) \<Longrightarrow>
      to_decision (ru_effect r) \<le> rp_decision (bundle_evaluate b req)"
    using max(2) res by (simp add: less_eq_Decision_def)
qed

lemma validate_rules_ok:
  "validate_rules seen rs = Inr () \<Longrightarrow> r \<in> set rs \<Longrightarrow>
     \<not> matcher_is_empty (ru_matcher r) \<and> \<not> (rm_match_all (ru_matcher r) \<and> ru_effect r = EffAllow) \<and>
     ''*'' \<notin> set (rm_destination_hosts (ru_matcher r)) \<union> set (rm_destination_not_in (ru_matcher r))"
  by (induction seen rs rule: validate_rules.induct) (auto split: if_splits)

lemma validate_rules_distinct:
  "validate_rules seen rs = Inr () \<Longrightarrow> distinct (map ru_id rs) \<and> set seen \<inter> ru_id ` set rs = {}"
  by (induction seen rs rule: validate_rules.induct) (auto split: if_splits)

lemma merge_files_default:
  "merge_files EffDeny rules files = Inr (d, rs) \<Longrightarrow> d = EffDeny"
  by (induction files arbitrary: rules) (auto simp: result_simps)

lemma merge_files_rules:
  "merge_files e rules files = Inr (d, rs) \<Longrightarrow> rs = rules @ concat (map pb_rules files)"
  by (induction files arbitrary: e rules) (fastforce simp: result_simps)+

section \<open>Sample inputs\<close>

definition sample_policy_request :: PolicyRequest where
  "sample_policy_request = \<lparr>
     pq_principal = \<lparr>pp_id = ''u1'', pp_tenant_id = ''t1'', pp_kind = ''human'', pp_roles = [],
        pp_mfa = False, pp_agent_id = ''support'', pp_delegation_lineage = []\<rparr>,
     pq_action = \<lparr>pa_kind = ''network'', pa_operation = ''POST'', pa_side_effect = ExternalWrite,
        pa_impact_tier = Tier3HighImpact\<rparr>,
     pq_resource = \<lparr>pres_name = ''net:evil.example'', pres_tool_id = None,
        pres_destination_host = Some ''evil.example'', pres_paths = [], pres_data_classes = []\<rparr>,
     pq_context = \<lparr>pc_environment_id = None, pc_session_id = None,
        pc_lowest_influencing_trust = Some WebUntrusted, pc_untrusted_instruction_influence = True,
        pc_taints = [Secret], pc_approval_satisfied = False, pc_prior_denials = 0,
        pc_delegation_depth = 0\<rparr>\<rparr>"

definition sample_rule :: "string \<Rightarrow> PolicyEffect \<Rightarrow> Rule" where
  "sample_rule i e = \<lparr>ru_id = i, ru_description = [], ru_effect = e, ru_severity = SevHigh,
     ru_matcher = rm_default\<lparr>rm_action_kinds := [''network'']\<rparr>, ru_reason_codes = [],
     ru_obligations = [], ru_constraints = [], ru_audit_only = False\<rparr>"

definition sample_bundle :: "Rule list \<Rightarrow> PolicyBundle" where
  "sample_bundle rs = \<lparr>pb_version = ''v1'', pb_description = [], pb_default_effect = EffDeny,
     pb_rules = rs\<rparr>"

lemma sample_rule_matches [simp]:
  "enforced sample_policy_request (sample_rule i e # rs) =
     sample_rule i e # enforced sample_policy_request rs"
  by (simp add: enforced_def sample_rule_def sample_policy_request_def matcher_matches_def
      rm_matches_action_def rm_matches_resource_def rm_matches_context_def rm_matches_principal_def
      rm_default_def opt_holds_def)

lemma sample_rule_sel [simp]: "ru_effect (sample_rule i e) = e"
  by (simp add: sample_rule_def)

lemma sample_enforced_Nil [simp]: "enforced req [] = []"
  by (simp add: enforced_def)

section \<open>Properties\<close>

text \<open>
  Evaluation resolves to the most restrictive effect among the enforced matching rules, and to
  the default of the bundle when there is none; audit-only rules contribute nothing.
\<close>

theorem bundle_evaluate_resolution:
  "rp_decision (bundle_evaluate b req) =
     (let ds = {to_decision (ru_effect r) | r. r \<in> set (pb_rules b) \<and>
                  matcher_matches (ru_matcher r) req \<and> \<not> ru_audit_only r}
      in if ds = {} then to_decision (pb_default_effect b) else Max ds)"
proof -
  let ?ds = "(to_decision \<circ> ru_effect) ` set (enforced req (pb_rules b))"
  have ds: "{to_decision (ru_effect r) | r. r \<in> set (pb_rules b) \<and>
      matcher_matches (ru_matcher r) req \<and> \<not> ru_audit_only r} = ?ds"
    by (auto simp: enforced_def)
  show ?thesis
  proof (cases "enforced req (pb_rules b) = []")
    case True
    then show ?thesis unfolding ds by (simp add: bundle_evaluate_decision)
  next
    case False
    then have "rp_decision (bundle_evaluate b req) = Max ?ds"
      using bundle_evaluate_is_max [OF False] by (intro Max_eqI [symmetric]) auto
    with False show ?thesis unfolding ds by simp
  qed
qed

text \<open>
  The order of the rules in a bundle is irrelevant: any permutation of the rules gives the
  same decision, the same use of the default and the same severity, and matches the same rules.
\<close>

theorem bundle_evaluate_order_irrelevant:
  assumes "mset rules' = mset (pb_rules b)"
  shows "let r = bundle_evaluate b req; r' = bundle_evaluate (b\<lparr>pb_rules := rules'\<rparr>) req
         in rp_decision r' = rp_decision r \<and> rp_default_applied r' = rp_default_applied r \<and>
            rp_severity r' = rp_severity r \<and>
            mset (rp_matched_policies r') = mset (rp_matched_policies r)"
proof -
  have m: "mset (enforced req rules') = mset (enforced req (pb_rules b))"
    using assms by (rule enforced_mset)
  then have s: "set (enforced req rules') = set (enforced req (pb_rules b))"
    by (metis set_mset_mset)
  have "foldl (opt_merge decision_combine) None (map (to_decision \<circ> ru_effect) (enforced req rules')) =
      foldl (opt_merge decision_combine) None
        (map (to_decision \<circ> ru_effect) (enforced req (pb_rules b)))"
    by (rule decision.opt_foldl_set) (simp add: s)
  moreover have "foldl (opt_merge severity_max) None (map ru_severity (enforced req rules')) =
      foldl (opt_merge severity_max) None (map ru_severity (enforced req (pb_rules b)))"
    by (rule severity.opt_foldl_set) (simp add: s)
  moreover have "enforced req rules' = [] \<longleftrightarrow> enforced req (pb_rules b) = []"
    using s by (metis set_empty)
  moreover have "mset (map ru_id (enforced req rules')) = mset (map ru_id (enforced req (pb_rules b)))"
    using m by simp
  ultimately show ?thesis
    by (simp add: bundle_evaluate_decision bundle_evaluate_default bundle_evaluate_severity
        bundle_evaluate_matched del: mset_map split: option.splits)
qed

theorem bundle_evaluate_order_irrelevant_witness:
  "rp_decision (bundle_evaluate (sample_bundle [sample_rule ''b'' EffDeny, sample_rule ''a'' EffAllow])
       sample_policy_request) =
   rp_decision (bundle_evaluate (sample_bundle [sample_rule ''a'' EffAllow, sample_rule ''b'' EffDeny])
       sample_policy_request)"
proof -
  let ?b = "sample_bundle [sample_rule ''a'' EffAllow, sample_rule ''b'' EffDeny]"
  have h: "mset [sample_rule ''b'' EffDeny, sample_rule ''a'' EffAllow] = mset (pb_rules ?b)"
    by (simp add: sample_bundle_def)
  have e: "?b\<lparr>pb_rules := [sample_rule ''b'' EffDeny, sample_rule ''a'' EffAllow]\<rparr> =
      sample_bundle [sample_rule ''b'' EffDeny, sample_rule ''a'' EffAllow]"
    by (simp add: sample_bundle_def)
  show ?thesis
    using bundle_evaluate_order_irrelevant [OF h, of sample_policy_request] unfolding e Let_def by blast
qed

text \<open>
  A rule added to a bundle that already decides a request can only tighten the decision;
  where only the default applied, an added rule replaces the default, so an added allow rule
  turns a default deny into an allow.
\<close>

theorem bundle_add_rule:
  "(\<not> rp_default_applied (bundle_evaluate b req) \<longrightarrow>
      rp_decision (bundle_evaluate b req) \<le>
      rp_decision (bundle_evaluate (b\<lparr>pb_rules := pb_rules b @ [r]\<rparr>) req)) \<and>
   (rp_default_applied (bundle_evaluate b req) \<and> matcher_matches (ru_matcher r) req \<and>
      \<not> ru_audit_only r \<longrightarrow>
      rp_decision (bundle_evaluate (b\<lparr>pb_rules := pb_rules b @ [r]\<rparr>) req) = to_decision (ru_effect r))"
proof (intro conjI impI)
  assume "\<not> rp_default_applied (bundle_evaluate b req)"
  then have ne: "enforced req (pb_rules b) \<noteq> []" by (simp add: bundle_evaluate_default)
  let ?b' = "b\<lparr>pb_rules := pb_rules b @ [r]\<rparr>"
  obtain q where q: "q \<in> set (enforced req (pb_rules b))"
    "rp_decision (bundle_evaluate b req) = to_decision (ru_effect q)"
    using bundle_evaluate_is_max(1) [OF ne] by auto
  have "enforced req (pb_rules ?b') \<noteq> []" "q \<in> set (enforced req (pb_rules ?b'))"
    using ne q by (auto simp: enforced_def)
  from bundle_evaluate_is_max(2) [OF this]
  show "rp_decision (bundle_evaluate b req) \<le> rp_decision (bundle_evaluate ?b' req)"
    using q(2) by simp
next
  assume "rp_default_applied (bundle_evaluate b req) \<and> matcher_matches (ru_matcher r) req \<and>
    \<not> ru_audit_only r"
  then have "enforced req (pb_rules b @ [r]) = [r]"
    using bundle_evaluate_default [of b req] by (simp add: enforced_def)
  then show "rp_decision (bundle_evaluate (b\<lparr>pb_rules := pb_rules b @ [r]\<rparr>) req) =
      to_decision (ru_effect r)"
    by (simp add: bundle_evaluate_decision opt_merge_def)
qed

theorem bundle_add_rule_witness:
  "rp_decision (bundle_evaluate (sample_bundle []) sample_policy_request) = Deny \<and>
   rp_decision (bundle_evaluate (sample_bundle [sample_rule ''a'' EffAllow]) sample_policy_request) =
     Allow"
proof -
  let ?b = "sample_bundle []" and ?r = "sample_rule ''a'' EffAllow"
  have d: "rp_default_applied (bundle_evaluate ?b sample_policy_request)"
    "rp_decision (bundle_evaluate ?b sample_policy_request) = Deny"
    by (simp_all add: bundle_evaluate_default bundle_evaluate_decision sample_bundle_def)
  have m: "matcher_matches (ru_matcher ?r) sample_policy_request \<and> \<not> ru_audit_only ?r"
    using sample_rule_matches [of "''a''" EffAllow "[]"] by (simp add: enforced_def split: if_splits)
  have e: "?b\<lparr>pb_rules := pb_rules ?b @ [?r]\<rparr> = sample_bundle [?r]"
    by (simp add: sample_bundle_def)
  show ?thesis
    using bundle_add_rule [of ?b sample_policy_request ?r] d m unfolding e
    by (simp add: sample_rule_def)
qed

text \<open>
  A validated bundle with a denying default permits a request only on the strength of an
  enforced rule of the bundle that matches it, whose effect permits execution and which is not an
  unconditional allow; and every refusal carries a reason code.
\<close>

theorem validated_bundle_permits:
  assumes "bundle_validate b = Inr ()" and "pb_default_effect b = EffDeny"
  shows "(permits_execution (rp_decision (bundle_evaluate b req)) \<longrightarrow>
            (\<exists>r \<in> set (pb_rules b). matcher_matches (ru_matcher r) req \<and> \<not> ru_audit_only r \<and>
               permits_execution (to_decision (ru_effect r)) \<and>
               \<not> (rm_match_all (ru_matcher r) \<and> ru_effect r = EffAllow))) \<and>
         rp_reason_codes (bundle_evaluate b req) \<noteq> []"
proof
  show "permits_execution (rp_decision (bundle_evaluate b req)) \<longrightarrow>
      (\<exists>r \<in> set (pb_rules b). matcher_matches (ru_matcher r) req \<and> \<not> ru_audit_only r \<and>
         permits_execution (to_decision (ru_effect r)) \<and>
         \<not> (rm_match_all (ru_matcher r) \<and> ru_effect r = EffAllow))"
  proof
    assume p: "permits_execution (rp_decision (bundle_evaluate b req))"
    then have ne: "enforced req (pb_rules b) \<noteq> []"
      using assms(2) by (auto simp: bundle_evaluate_decision)
    obtain r where r: "r \<in> set (enforced req (pb_rules b))"
      "rp_decision (bundle_evaluate b req) = to_decision (ru_effect r)"
      using bundle_evaluate_is_max(1) [OF ne] by auto
    moreover from r have "r \<in> set (pb_rules b)" by (simp add: enforced_def)
    moreover have "validate_rules [] (pb_rules b) = Inr ()"
      using assms(1) by (simp add: bundle_validate_def split: if_splits)
    ultimately show "\<exists>r \<in> set (pb_rules b). matcher_matches (ru_matcher r) req \<and>
        \<not> ru_audit_only r \<and> permits_execution (to_decision (ru_effect r)) \<and>
        \<not> (rm_match_all (ru_matcher r) \<and> ru_effect r = EffAllow)"
      using p validate_rules_ok by (intro bexI [of _ r]) (auto simp: enforced_def)
  qed
  show "rp_reason_codes (bundle_evaluate b req) \<noteq> []"
    using assms(2) by (auto simp: bundle_evaluate_def Let_def split: option.splits)
qed

theorem validated_bundle_permits_witness:
  "bundle_validate (sample_bundle [sample_rule ''a'' EffAllow]) = Inr () \<and>
   (\<exists>r \<in> set [sample_rule ''a'' EffAllow]. matcher_matches (ru_matcher r) sample_policy_request)"
proof -
  let ?b = "sample_bundle [sample_rule ''a'' EffAllow]"
  have v: "bundle_validate ?b = Inr ()"
    by (simp add: bundle_validate_def sample_bundle_def sample_rule_def matcher_is_empty_def
        rm_default_def trim_def trim_start_def trim_end_matches_def is_whitespace_def)
  have d: "pb_default_effect ?b = EffDeny" and rs: "pb_rules ?b = [sample_rule ''a'' EffAllow]"
    by (simp_all add: sample_bundle_def)
  have p: "permits_execution (rp_decision (bundle_evaluate ?b sample_policy_request))"
    by (simp add: bundle_evaluate_decision rs opt_merge_def)
  show ?thesis
    using v validated_bundle_permits [OF v d, of sample_policy_request] p unfolding rs by blast
qed

text \<open>
  The default of a merged policy directory is always deny, whatever the files say, so a file
  whose default ends the session is merged into a bundle whose default only denies.
\<close>

theorem from_directory_default:
  "from_directory version description files = Inr b \<Longrightarrow>
     pb_default_effect b = EffDeny \<and> pb_rules b = concat (map pb_rules files)"
  by (auto simp: from_directory_def Let_def result_simps
      dest: merge_files_default merge_files_rules split: prod.splits)

theorem from_directory_default_witness:
  "let file = (sample_bundle [sample_rule ''a'' EffAllow])\<lparr>pb_default_effect := EffTerminateSession\<rparr>
   in \<exists>b. from_directory ''m'' [] [file] = Inr b \<and> pb_default_effect b = EffDeny"
proof -
  let ?f = "(sample_bundle [sample_rule ''a'' EffAllow])\<lparr>pb_default_effect := EffTerminateSession\<rparr>"
  have "\<exists>b. from_directory ''m'' [] [?f] = Inr b"
    by (simp add: from_directory_def Let_def bundle_validate_def sample_bundle_def sample_rule_def
        matcher_is_empty_def rm_default_def trim_def trim_start_def trim_end_matches_def
        is_whitespace_def)
  then show ?thesis using from_directory_default by (auto simp: Let_def)
qed

end
