(* ===== verification/Remit.thy ===== *)
theory Remit
  imports Actions Reasons Globs Paths
begin

text \<open>
  The remit of an agent, \<^verbatim>\<open>vigil-remit/src\<close>: the document and its validation (\<^verbatim>\<open>schema.rs\<close>), the
  compiled remit, its evaluation of an action and the registry (\<^verbatim>\<open>lib.rs\<close>), and the budget ledger of
  a session (\<^verbatim>\<open>budget.rs\<close>). The YAML parser and the directory listing are arguments of the loaders.
\<close>

section \<open>The document\<close>

record ToolPermission =
  tp_name :: string
  tp_operations :: "string list"
  tp_approval_required_operations :: "string list"
  tp_description :: string

record DataBoundary =
  da_allowed_classes :: "string list"
  da_forbidden_egress_classes :: "string list"

record Limits =
  li_max_tool_calls :: u32
  li_max_model_calls :: u32
  li_max_session_minutes :: u32
  li_max_external_domains :: u32
  li_max_cost_usd :: f64
  li_max_delegation_depth :: u32
  li_max_repeated_actions :: u32

definition limits_default :: Limits where
  "limits_default = \<lparr>li_max_tool_calls = 40, li_max_model_calls = 25, li_max_session_minutes = 30,
     li_max_external_domains = 3, li_max_cost_usd = Fin 2, li_max_delegation_depth = 2,
     li_max_repeated_actions = 3\<rparr>"

text \<open>The boundaries of files and of the network have one field each and are that field.\<close>

record Remit =
  re_agent :: string
  re_version :: string
  re_purpose :: "string list"
  re_forbidden_goals :: "string list"
  re_tools :: "ToolPermission list"
  re_data :: DataBoundary
  re_allowed_roots :: "string list"
  re_allowed_destinations :: "string list"
  re_limits :: Limits

datatype remit_error =
    NoAgentName
  | BadAgentId
  | NoVersion
  | NoPurpose
  | DuplicateTool string
  | NoOperations string
  | ApprovalNotPermitted string string
  | ZeroBudget
  | WildcardDestination
  | RemitUnparsable
  | RemitIo

definition MAX_ID_LEN :: nat where
  "MAX_ID_LEN = 128"

definition id_char :: "char \<Rightarrow> bool" where
  "id_char c = (is_ascii_alphanumeric c \<or> c \<in> {CHR ''.'', CHR ''_'', CHR '':'', CHR ''-''})"

datatype id_error = IdEmpty | IdTooLong | IdBadByte

text \<open>
  \<^verbatim>\<open>validate_id\<close> looks at bytes; a scalar above 127 is encoded by bytes above 127, none of which is
  allowed, so the test on scalars is the same.
\<close>

definition validate_id :: "string \<Rightarrow> id_error + unit" where
  "validate_id value =
     (if value = [] then Inl IdEmpty
      else if str_len value > MAX_ID_LEN then Inl IdTooLong
      else if list_ex (\<lambda>c. \<not> id_char c) value then Inl IdBadByte
      else Inr ())"

fun validate_tools :: "string list \<Rightarrow> ToolPermission list \<Rightarrow> remit_error + unit" where
  "validate_tools seen [] = Inr ()"
| "validate_tools seen (t # ts) =
     (if tp_name t \<in> set seen then Inl (DuplicateTool (tp_name t))
      else if tp_operations t = [] then Inl (NoOperations (tp_name t))
      else case find (\<lambda>op. op \<notin> set (tp_operations t)) (tp_approval_required_operations t) of
             Some op \<Rightarrow> Inl (ApprovalNotPermitted (tp_name t) op)
           | None \<Rightarrow> validate_tools (tp_name t # seen) ts)"

definition remit_validate :: "Remit \<Rightarrow> remit_error + unit" where
  "remit_validate r =
     (if trim (re_agent r) = [] then Inl NoAgentName
      else if \<not> is_ok (validate_id (re_agent r)) then Inl BadAgentId
      else if trim (re_version r) = [] then Inl NoVersion
      else if re_purpose r = [] then Inl NoPurpose
      else rbind (validate_tools [] (re_tools r)) (\<lambda>_.
        if li_max_tool_calls (re_limits r) = 0 \<or> li_max_session_minutes (re_limits r) = 0
        then Inl ZeroBudget
        else if ''*'' \<in> set (re_allowed_destinations r) then Inl WildcardDestination
        else Inr ()))"

definition remit_from_yaml :: "(string \<Rightarrow> Remit option) \<Rightarrow> string \<Rightarrow> remit_error + Remit" where
  "remit_from_yaml yaml src =
     rbind (ok_or (yaml src) RemitUnparsable) (\<lambda>r.
     rbind (remit_validate r) (\<lambda>_. Inr r))"

section \<open>The compiled remit\<close>

datatype RemitVerdict =
    InRemit
  | RequiresApproval
  | OutOfRemit ReasonCode
  | NoRemit

definition remit_verdict_permits :: "RemitVerdict \<Rightarrow> bool" where
  "remit_verdict_permits v = (v = InRemit)"

fun remit_reason_code :: "RemitVerdict \<Rightarrow> ReasonCode" where
  "remit_reason_code InRemit = WithinRemit"
| "remit_reason_code RequiresApproval = ApprovalRequired"
| "remit_reason_code (OutOfRemit code) = code"
| "remit_reason_code NoRemit = RemitMissing"

record CompiledRemit =
  cr_remit :: Remit
  cr_tools :: "(string, ToolPermission) hmap"
  cr_version :: string

definition tool_table :: "ToolPermission list \<Rightarrow> (string, ToolPermission) hmap" where
  "tool_table ts = foldl (\<lambda>m t. hm_insert (tp_name t) t m) [] ts"

definition remit_compile :: "Remit \<Rightarrow> remit_error + CompiledRemit" where
  "remit_compile r =
     rbind (remit_validate r) (\<lambda>_.
     Inr \<lparr>cr_remit = r, cr_tools = tool_table (re_tools r),
          cr_version = re_agent r @ ''@'' @ re_version r\<rparr>)"

definition compiled_from_yaml ::
  "(string \<Rightarrow> Remit option) \<Rightarrow> string \<Rightarrow> remit_error + CompiledRemit" where
  "compiled_from_yaml yaml src = rbind (remit_from_yaml yaml src) remit_compile"

definition remit_summary :: "CompiledRemit \<Rightarrow> string" where
  "remit_summary c =
     ''Agent `'' @ re_agent (cr_remit c) @ ''` exists to: ''
     @ join_with ''; '' (re_purpose (cr_remit c)) @ ''. It must never: ''
     @ join_with ''; '' (re_forbidden_goals (cr_remit c)) @ ''.''"

text \<open>\<^verbatim>\<open>url::host_of\<close> of this crate, which also drops trailing dots.\<close>

definition remit_host_of :: "string \<Rightarrow> string option" where
  "remit_host_of url =
     (case split_once ''://'' url of
        None \<Rightarrow> None
      | Some (_, rest) \<Rightarrow>
          let authority = hd (split_on (\<lambda>c. c = CHR ''/'' \<or> c = CHR ''?'' \<or> c = CHR ''#'') rest);
              host = last (split_on (\<lambda>c. c = CHR ''@'') authority);
              host' = hd (split_on (\<lambda>c. c = CHR '':'') host)
          in Some (to_ascii_lowercase (trim_end_matches (\<lambda>c. c = CHR ''.'') host')))"

definition matches_forbidden_goal :: "CompiledRemit \<Rightarrow> string \<Rightarrow> string \<Rightarrow> bool" where
  "matches_forbidden_goal c resource oper =
     (let haystack = to_lowercase (resource @ '' '' @ oper)
      in list_ex (\<lambda>goal. list_ex (str_contains haystack)
                          (filter (\<lambda>w. str_len w > 4) (split_whitespace (to_lowercase goal))))
           (re_forbidden_goals (cr_remit c)))"

definition evaluate_path :: "CompiledRemit \<Rightarrow> string \<Rightarrow> RemitVerdict" where
  "evaluate_path c path =
     (let roots = re_allowed_roots (cr_remit c)
      in if roots = [] then OutOfRemit OutOfRemitResource
         else if is_inside_any path roots then InRemit
         else OutOfRemit PathOutsideAllowlist)"

definition evaluate_destination :: "CompiledRemit \<Rightarrow> NetworkRequest \<Rightarrow> RemitVerdict" where
  "evaluate_destination c request =
     (let allowed = re_allowed_destinations (cr_remit c);
          host = or_else (remit_host_of (nr_url request)) []
      in if allowed = [] then OutOfRemit EgressDestinationForbidden
         else if host = [] then OutOfRemit EgressDestinationForbidden
         else if any_host_matches allowed host then InRemit
         else OutOfRemit EgressDestinationForbidden)"

definition evaluate_tool :: "CompiledRemit \<Rightarrow> string \<Rightarrow> string \<Rightarrow> RemitVerdict" where
  "evaluate_tool c resource oper =
     (case hm_get (cr_tools c) resource of
        None \<Rightarrow> OutOfRemit OutOfRemitTool
      | Some p \<Rightarrow>
          if oper \<notin> set (tp_operations p) then OutOfRemit OutOfRemitOperation
          else if oper \<in> set (tp_approval_required_operations p) then RequiresApproval
          else InRemit)"

definition remit_evaluate :: "CompiledRemit \<Rightarrow> Action \<Rightarrow> RemitVerdict" where
  "remit_evaluate c action =
     (let resource = resource_name action; oper = operation action
      in if matches_forbidden_goal c resource oper then OutOfRemit ForbiddenGoal
         else case action of
                ActFile f \<Rightarrow> evaluate_path c (fo_path f)
              | ActNetwork n \<Rightarrow> evaluate_destination c n
              | ActDelegation d \<Rightarrow>
                  if dg_depth d \<ge> li_max_delegation_depth (re_limits (cr_remit c))
                  then OutOfRemit DelegationDepthExceeded
                  else evaluate_tool c resource oper
              | _ \<Rightarrow> evaluate_tool c resource oper)"

definition permits_egress_of :: "CompiledRemit \<Rightarrow> string \<Rightarrow> bool" where
  "permits_egress_of c data_class =
     (\<not> list_ex (\<lambda>k. eq_ignore_ascii_case k data_class) (da_forbidden_egress_classes (re_data (cr_remit c))))"

section \<open>The registry\<close>

type_synonym RemitRegistry = "(string, CompiledRemit) hmap"

definition registry_register :: "CompiledRemit \<Rightarrow> RemitRegistry \<Rightarrow> RemitRegistry" where
  "registry_register c reg = hm_insert (re_agent (cr_remit c)) c reg"

text \<open>
  A directory entry is the extension of its path and the outcome of reading it.
\<close>

fun load_entries ::
  "(string \<Rightarrow> Remit option) \<Rightarrow> RemitRegistry \<Rightarrow> (string option \<times> string option) list
   \<Rightarrow> remit_error + RemitRegistry" where
  "load_entries yaml reg [] = Inr reg"
| "load_entries yaml reg ((ext, content) # es) =
     (if ext \<noteq> Some ''yaml'' \<and> ext \<noteq> Some ''yml'' then load_entries yaml reg es
      else rbind (ok_or content RemitIo) (\<lambda>src.
           rbind (compiled_from_yaml yaml src) (\<lambda>c.
           load_entries yaml (registry_register c reg) es)))"

definition load_directory ::
  "(string \<Rightarrow> Remit option) \<Rightarrow> (string option \<times> string option) list option
   \<Rightarrow> remit_error + RemitRegistry" where
  "load_directory yaml entries = rbind (ok_or entries RemitIo) (load_entries yaml [])"

definition registry_evaluate :: "RemitRegistry \<Rightarrow> string \<Rightarrow> Action \<Rightarrow> RemitVerdict \<times> string option" where
  "registry_evaluate reg agent action =
     (case hm_get reg agent of
        Some c \<Rightarrow> (remit_evaluate c action, Some (cr_version c))
      | None \<Rightarrow> (NoRemit, None))"

section \<open>The budget ledger\<close>

datatype BudgetVerdict = Within | Exhausted ReasonCode

definition budget_permits :: "BudgetVerdict \<Rightarrow> bool" where
  "budget_permits v = (v = Within)"

record BudgetSnapshot =
  bs_tool_calls :: u32
  bs_model_calls :: u32
  bs_elapsed_minutes :: int
  bs_external_domains :: u32
  bs_cost_usd :: f64
  bs_max_repeat_count :: u32

text \<open>
  The set of external domains is a list without duplicates. Counters are \<^verbatim>\<open>u32\<close> and wrap, as the
  release profile of the workspace compiles them.
\<close>

record BudgetLedger =
  bl_started_at :: timestamp
  bl_tool_calls :: u32
  bl_model_calls :: u32
  bl_cost_usd :: f64
  bl_external_domains :: "string list"
  bl_action_counts :: "(string, u32) hmap"

definition ledger_new :: "timestamp \<Rightarrow> BudgetLedger" where
  "ledger_new started = \<lparr>bl_started_at = started, bl_tool_calls = 0, bl_model_calls = 0,
     bl_cost_usd = Fin 0, bl_external_domains = [], bl_action_counts = []\<rparr>"

definition ledger_snapshot :: "BudgetLedger \<Rightarrow> timestamp \<Rightarrow> BudgetSnapshot" where
  "ledger_snapshot l now =
     \<lparr>bs_tool_calls = bl_tool_calls l, bs_model_calls = bl_model_calls l,
      bs_elapsed_minutes = max (num_minutes (now - bl_started_at l)) 0,
      bs_external_domains = of_nat (length (bl_external_domains l)),
      bs_cost_usd = bl_cost_usd l,
      bs_max_repeat_count = foldl max 0 (hm_values (bl_action_counts l))\<rparr>"

definition ledger_check :: "BudgetLedger \<Rightarrow> Limits \<Rightarrow> timestamp \<Rightarrow> BudgetVerdict" where
  "ledger_check l limits now =
     (if bl_tool_calls l \<ge> li_max_tool_calls limits then Exhausted ToolCallBudgetExceeded
      else if bl_model_calls l \<ge> li_max_model_calls limits then Exhausted ModelCallBudgetExceeded
      else if num_minutes (now - bl_started_at l) \<ge> uint (li_max_session_minutes limits)
           then Exhausted WallClockBudgetExceeded
      else if f64_ge (bl_cost_usd l) (li_max_cost_usd limits) then Exhausted CostBudgetExceeded
      else Within)"

definition action_count :: "BudgetLedger \<Rightarrow> string \<Rightarrow> u32" where
  "action_count l h = or_else (hm_get (bl_action_counts l) h) 0"

definition ledger_check_action ::
  "BudgetLedger \<Rightarrow> Limits \<Rightarrow> string \<Rightarrow> string option \<Rightarrow> BudgetVerdict" where
  "ledger_check_action l limits action_hash destination =
     (if action_count l action_hash \<ge> li_max_repeated_actions limits then Exhausted LoopDetected
      else case destination of
             None \<Rightarrow> Within
           | Some host \<Rightarrow>
               if to_ascii_lowercase host \<notin> set (bl_external_domains l)
                  \<and> (of_nat (length (bl_external_domains l)) :: u32) \<ge> li_max_external_domains limits
               then Exhausted RateLimitExceeded else Within)"

definition ledger_charge ::
  "string \<Rightarrow> string \<Rightarrow> string option \<Rightarrow> f64 \<Rightarrow> BudgetLedger \<Rightarrow> BudgetLedger" where
  "ledger_charge kind action_hash destination cost l =
     \<lparr>bl_started_at = bl_started_at l,
      bl_tool_calls = (if kind = ''model_call'' then bl_tool_calls l else bl_tool_calls l + 1),
      bl_model_calls = (if kind = ''model_call'' then bl_model_calls l + 1 else bl_model_calls l),
      bl_cost_usd = (if f64_is_finite cost \<and> f64_lt (Fin 0) cost
                     then f64_add (bl_cost_usd l) cost else bl_cost_usd l),
      bl_external_domains = (case destination of
                               None \<Rightarrow> bl_external_domains l
                             | Some host \<Rightarrow> List.insert (to_ascii_lowercase host) (bl_external_domains l)),
      bl_action_counts = hm_insert action_hash (action_count l action_hash + 1) (bl_action_counts l)\<rparr>"

section \<open>Lemmas on compiled remits\<close>

lemma validate_tools_ok:
  assumes "validate_tools seen ts = Inr ()"
  shows "distinct (map tp_name ts) \<and> set (map tp_name ts) \<inter> set seen = {} \<and>
         (\<forall>t \<in> set ts. tp_operations t \<noteq> [] \<and>
            set (tp_approval_required_operations t) \<subseteq> set (tp_operations t))"
  using assms
proof (induction seen ts rule: validate_tools.induct)
  case (1 seen)
  then show ?case by simp
next
  case (2 seen t ts)
  then have new: "tp_name t \<notin> set seen" and ops: "tp_operations t \<noteq> []"
    and none: "find (\<lambda>op. op \<notin> set (tp_operations t)) (tp_approval_required_operations t) = None"
    and rest: "validate_tools (tp_name t # seen) ts = Inr ()"
    by (auto split: if_splits option.splits)
  have "set (tp_approval_required_operations t) \<subseteq> set (tp_operations t)"
    using none by (auto simp: find_None_iff)
  with "2.IH" [OF new ops none rest] new ops show ?case by auto
qed

lemma remit_validate_tools: "remit_validate r = Inr () \<Longrightarrow> validate_tools [] (re_tools r) = Inr ()"
  by (auto simp: remit_validate_def result_simps split: if_splits)

lemma remit_compile_ok:
  "remit_compile r = Inr c \<longleftrightarrow>
     remit_validate r = Inr () \<and>
     c = \<lparr>cr_remit = r, cr_tools = tool_table (re_tools r),
          cr_version = re_agent r @ ''@'' @ re_version r\<rparr>"
  by (auto simp: remit_compile_def result_simps)

lemma tool_table_snoc: "tool_table (ts @ [t]) = hm_insert (tp_name t) t (tool_table ts)"
  by (simp add: tool_table_def)

lemma tool_table_get:
  "distinct (map tp_name ts) \<Longrightarrow>
     hm_get (tool_table ts) n = Some t \<longleftrightarrow> t \<in> set ts \<and> tp_name t = n"
proof (induction ts rule: rev_induct)
  case Nil
  then show ?case by (simp add: tool_table_def)
next
  case (snoc u ts)
  then show ?case by (auto simp: tool_table_snoc rev_image_eqI)
qed

lemma compiled_tool_get:
  "remit_compile r = Inr c \<Longrightarrow>
     hm_get (cr_tools c) n = Some t \<longleftrightarrow> t \<in> set (re_tools r) \<and> tp_name t = n"
  using validate_tools_ok [of "[]" "re_tools r"] tool_table_get [of "re_tools r" n t]
  by (auto simp: remit_compile_ok dest: remit_validate_tools)

lemma evaluate_tool_InRemit:
  "evaluate_tool c n op = InRemit \<longleftrightarrow>
     (\<exists>t. hm_get (cr_tools c) n = Some t \<and> op \<in> set (tp_operations t) \<and>
        op \<notin> set (tp_approval_required_operations t))"
  by (auto simp: evaluate_tool_def split: option.splits)

lemma evaluate_path_InRemit:
  "evaluate_path c p = InRemit \<longleftrightarrow> is_inside_any p (re_allowed_roots (cr_remit c))"
  by (auto simp: evaluate_path_def Let_def is_inside_any_def)

lemma evaluate_destination_InRemit:
  "evaluate_destination c n = InRemit \<longleftrightarrow>
     (\<exists>h. remit_host_of (nr_url n) = Some h \<and> h \<noteq> [] \<and>
        any_host_matches (re_allowed_destinations (cr_remit c)) h)"
  by (auto simp: evaluate_destination_def Let_def or_else_def any_host_matches_def split: option.splits)

lemmas evaluate_InRemit = evaluate_tool_InRemit evaluate_path_InRemit evaluate_destination_InRemit

lemma load_entries_inv:
  assumes "load_entries yaml reg es = Inr reg'"
    and "\<And>a c. hm_get reg a = Some c \<Longrightarrow> re_agent (cr_remit c) = a \<and> remit_compile (cr_remit c) = Inr c"
  shows "hm_get reg' a = Some c \<Longrightarrow> re_agent (cr_remit c) = a \<and> remit_compile (cr_remit c) = Inr c"
  using assms
proof (induction yaml reg es arbitrary: a c rule: load_entries.induct)
  case (1 yaml reg)
  then show ?case by simp
next
  case (2 yaml reg ext content es)
  show ?case
  proof (cases "ext \<noteq> Some ''yaml'' \<and> ext \<noteq> Some ''yml''")
    case True
    with "2.prems" "2.IH"(1) show ?thesis by auto
  next
    case False
    with "2.prems"(2) obtain src d where d: "content = Some src" "compiled_from_yaml yaml src = Inr d"
      "load_entries yaml (registry_register d reg) es = Inr reg'"
      by (auto simp: result_simps)
    have "remit_compile (cr_remit d) = Inr d"
      using d(2) by (auto simp: compiled_from_yaml_def result_simps remit_compile_ok)
    then have "hm_get (registry_register d reg) a' = Some c' \<Longrightarrow>
        re_agent (cr_remit c') = a' \<and> remit_compile (cr_remit c') = Inr c'" for a' c'
      using "2.prems"(3) [of a' c'] by (cases "a' = re_agent (cr_remit d)") (auto simp: registry_register_def)
    then show ?thesis
      by (rule "2.IH"(2) [OF False "2.prems"(1) d(3)])
  qed
qed

section \<open>Budgets under interleaving\<close>

text \<open>
  The pipeline checks the budget of an action in one critical section, awaits the policy engine
  and the detectors, and charges the action in another. A state is the ledger of a session and the
  actions that passed the check and are not settled yet; at most \<open>k\<close> actions are in flight.
\<close>

record BudgetCall =
  bc_kind :: string
  bc_hash :: string
  bc_destination :: "string option"
  bc_cost :: f64

definition budget_verdict :: "Limits \<Rightarrow> timestamp \<Rightarrow> string \<Rightarrow> string option \<Rightarrow> BudgetLedger \<Rightarrow> BudgetVerdict" where
  "budget_verdict limits now action_hash destination l =
     (let overall = ledger_check l limits now
      in if \<not> budget_permits overall then overall
         else ledger_check_action l limits action_hash destination)"

definition charge_call :: "BudgetCall \<Rightarrow> BudgetLedger \<Rightarrow> BudgetLedger" where
  "charge_call c = ledger_charge (bc_kind c) (bc_hash c) (bc_destination c) (bc_cost c)"

inductive budget_step ::
  "nat \<Rightarrow> Limits \<Rightarrow> BudgetLedger \<times> BudgetCall list \<Rightarrow> BudgetLedger \<times> BudgetCall list \<Rightarrow> bool"
  for k limits where
  check: "budget_permits (budget_verdict limits now (bc_hash c) (bc_destination c) l) \<Longrightarrow>
     length ps < k \<Longrightarrow> budget_step k limits (l, ps) (l, c # ps)"
| charge: "c \<in> set ps \<Longrightarrow> budget_step k limits (l, ps) (charge_call c l, remove1 c ps)"
| refuse: "c \<in> set ps \<Longrightarrow> budget_step k limits (l, ps) (l, remove1 c ps)"

inductive budget_reach :: "nat \<Rightarrow> Limits \<Rightarrow> BudgetLedger \<times> BudgetCall list \<Rightarrow> bool"
  for k limits where
  start: "budget_reach k limits (ledger_new t, [])"
| step: "budget_reach k limits s \<Longrightarrow> budget_step k limits s s' \<Longrightarrow> budget_reach k limits s'"

abbreviation in_flight :: "(BudgetCall \<Rightarrow> bool) \<Rightarrow> BudgetCall list \<Rightarrow> nat" where
  "in_flight P ps \<equiv> length (filter P ps)"

definition pending_domains :: "BudgetCall list \<Rightarrow> string set" where
  "pending_domains ps = to_ascii_lowercase ` set (List.map_filter bc_destination ps)"

definition budget_inv :: "nat \<Rightarrow> Limits \<Rightarrow> BudgetLedger \<times> BudgetCall list \<Rightarrow> bool" where
  "budget_inv k limits s \<longleftrightarrow> (case s of (l, ps) \<Rightarrow>
     length ps \<le> k \<and>
     unat (bl_tool_calls l) + in_flight (\<lambda>c. bc_kind c \<noteq> ''model_call'') ps
       \<le> unat (li_max_tool_calls limits) + (k - 1) \<and>
     unat (bl_model_calls l) + in_flight (\<lambda>c. bc_kind c = ''model_call'') ps
       \<le> unat (li_max_model_calls limits) + (k - 1) \<and>
     (\<forall>h. unat (action_count l h) + in_flight (\<lambda>c. bc_hash c = h) ps
       \<le> unat (li_max_repeated_actions limits) + (k - 1)) \<and>
     length (bl_external_domains l) + card (pending_domains ps - set (bl_external_domains l))
       \<le> unat (li_max_external_domains limits) + (k - 1))"

text \<open>The limits leave room for the actions in flight below the largest \<^verbatim>\<open>u32\<close>.\<close>

definition limits_fit :: "nat \<Rightarrow> Limits \<Rightarrow> bool" where
  "limits_fit k limits \<longleftrightarrow>
     unat (li_max_tool_calls limits) + k \<le> 2 ^ 32 \<and> unat (li_max_model_calls limits) + k \<le> 2 ^ 32 \<and>
     unat (li_max_repeated_actions limits) + k \<le> 2 ^ 32 \<and>
     unat (li_max_external_domains limits) + k \<le> 2 ^ 32"

lemma unat_u32_less: "unat (x :: u32) < 2 ^ 32"
  using unsigned_less [of x] by simp

lemma limits_fit_one: "limits_fit 1 limits"
  using unat_u32_less [of "li_max_tool_calls limits"] unat_u32_less [of "li_max_model_calls limits"]
    unat_u32_less [of "li_max_repeated_actions limits"]
    unat_u32_less [of "li_max_external_domains limits"]
  by (simp add: limits_fit_def)

lemma in_flight_le: "in_flight P ps \<le> length ps"
  by simp

lemma in_flight_remove1:
  "c \<in> set ps \<Longrightarrow> in_flight P ps = in_flight P (remove1 c ps) + (if P c then 1 else 0)"
  by (induction ps) auto

lemma pending_domains_finite [simp]: "finite (pending_domains ps)"
  by (simp add: pending_domains_def)

lemma pending_domains_Cons:
  "pending_domains (c # ps) =
     (case bc_destination c of None \<Rightarrow> pending_domains ps
      | Some h \<Rightarrow> insert (to_ascii_lowercase h) (pending_domains ps))"
  by (auto simp: pending_domains_def List.map_filter_simps split: option.splits)

lemma pending_domains_card: "card (pending_domains ps) \<le> length ps"
proof (induction ps)
  case Nil
  then show ?case by (simp add: pending_domains_def List.map_filter_simps)
next
  case (Cons c ps)
  then show ?case
    using card_insert_le_m1 [of "length (c # ps)" "pending_domains ps"]
    by (auto simp: pending_domains_Cons split: option.splits intro: order_trans [OF card_insert_le_m1])
qed

lemma pending_domains_mem: "c \<in> set ps \<Longrightarrow> bc_destination c = Some h \<Longrightarrow> to_ascii_lowercase h \<in> pending_domains ps"
  by (induction ps) (auto simp: pending_domains_Cons split: option.splits)

lemma pending_domains_remove1: "pending_domains (remove1 c ps) \<subseteq> pending_domains ps"
proof (induction ps)
  case (Cons d ps)
  then show ?case by (auto simp: pending_domains_Cons split: option.splits)
qed simp

lemma budget_verdict_permits:
  assumes "budget_permits (budget_verdict limits now h d l)"
  shows "bl_tool_calls l < li_max_tool_calls limits" "bl_model_calls l < li_max_model_calls limits"
    "action_count l h < li_max_repeated_actions limits"
    "d = Some host \<Longrightarrow> to_ascii_lowercase host \<in> set (bl_external_domains l) \<or>
       (of_nat (length (bl_external_domains l)) :: u32) < li_max_external_domains limits"
  using assms
  by (auto simp: budget_verdict_def ledger_check_def ledger_check_action_def budget_permits_def Let_def
      not_le split: if_splits option.splits)

lemma budget_inv_start: "budget_inv k limits (ledger_new t, [])"
  by (simp add: budget_inv_def ledger_new_def action_count_def or_else_def pending_domains_def
      List.map_filter_simps)

lemma budget_inv_check:
  assumes inv: "budget_inv k limits (l, ps)" and fit: "limits_fit k limits" and room: "length ps < k"
    and ok: "budget_permits (budget_verdict limits now (bc_hash c) (bc_destination c) l)"
  shows "budget_inv k limits (l, c # ps)"
proof -
  note v = budget_verdict_permits [OF ok, unfolded word_less_nat_alt]
  let ?D = "set (bl_external_domains l)"
  have len: "length (c # ps) \<le> k" using room by simp
  have T: "unat (bl_tool_calls l) + in_flight (\<lambda>c. bc_kind c \<noteq> ''model_call'') (c # ps)
      \<le> unat (li_max_tool_calls limits) + (k - 1)"
    using v(1) in_flight_le [of "\<lambda>c. bc_kind c \<noteq> ''model_call''" "c # ps"] len by linarith
  have M: "unat (bl_model_calls l) + in_flight (\<lambda>c. bc_kind c = ''model_call'') (c # ps)
      \<le> unat (li_max_model_calls limits) + (k - 1)"
    using v(2) in_flight_le [of "\<lambda>c. bc_kind c = ''model_call''" "c # ps"] len by linarith
  have R: "unat (action_count l h) + in_flight (\<lambda>c. bc_hash c = h) (c # ps)
      \<le> unat (li_max_repeated_actions limits) + (k - 1)" for h
  proof (cases "h = bc_hash c")
    case True
    then show ?thesis
      using v(3) in_flight_le [of "\<lambda>c. bc_hash c = h" "c # ps"] len unfolding True by linarith
  next
    case False
    then show ?thesis using inv by (simp add: budget_inv_def)
  qed
  have D: "length (bl_external_domains l) + card (pending_domains (c # ps) - ?D)
      \<le> unat (li_max_external_domains limits) + (k - 1)"
  proof (cases "pending_domains (c # ps) - ?D = pending_domains ps - ?D")
    case True
    then show ?thesis using inv by (simp add: budget_inv_def)
  next
    case False
    then obtain h where h: "bc_destination c = Some h" "to_ascii_lowercase h \<notin> ?D"
      by (auto simp: pending_domains_Cons split: option.splits)
    have "length (bl_external_domains l) < 2 ^ 32"
      using inv fit room by (auto simp: budget_inv_def limits_fit_def)
    then have "length (bl_external_domains l) < unat (li_max_external_domains limits)"
      using v(4) [OF h(1)] h(2) by (simp add: unat_of_nat)
    moreover have "card (pending_domains (c # ps) - ?D) \<le> length (c # ps)"
      using pending_domains_card [of "c # ps"] card_mono [of "pending_domains (c # ps)"]
      by (meson Diff_subset order_trans pending_domains_finite)
    ultimately show ?thesis using len by linarith
  qed
  show ?thesis
    unfolding budget_inv_def using len T M R D by simp
qed

lemma budget_inv_charge:
  assumes inv: "budget_inv k limits (l, ps)" and fit: "limits_fit k limits" and c: "c \<in> set ps"
  shows "budget_inv k limits (charge_call c l, remove1 c ps)"
proof -
  let ?l = "charge_call c l" and ?ps = "remove1 c ps"
  have ps: "length ps \<le> k" using inv by (simp add: budget_inv_def)
  then have k: "0 < k" using length_pos_if_in_set [OF c] by linarith
  have len: "length ?ps \<le> k" using ps c by (simp add: length_remove1)
  have T: "unat (bl_tool_calls ?l) + in_flight (\<lambda>c. bc_kind c \<noteq> ''model_call'') ?ps
      \<le> unat (li_max_tool_calls limits) + (k - 1)"
    using inv fit k in_flight_remove1 [OF c, of "\<lambda>c. bc_kind c \<noteq> ''model_call''"] unat_inc [of "bl_tool_calls l"]
    by (auto simp: budget_inv_def limits_fit_def charge_call_def ledger_charge_def split: if_splits)
  have M: "unat (bl_model_calls ?l) + in_flight (\<lambda>c. bc_kind c = ''model_call'') ?ps
      \<le> unat (li_max_model_calls limits) + (k - 1)"
    using inv fit k in_flight_remove1 [OF c, of "\<lambda>c. bc_kind c = ''model_call''"] unat_inc [of "bl_model_calls l"]
    by (auto simp: budget_inv_def limits_fit_def charge_call_def ledger_charge_def split: if_splits)
  have R: "unat (action_count ?l h) + in_flight (\<lambda>c. bc_hash c = h) ?ps
      \<le> unat (li_max_repeated_actions limits) + (k - 1)" for h
  proof -
    have "unat (action_count l h) + in_flight (\<lambda>c. bc_hash c = h) ps
        \<le> unat (li_max_repeated_actions limits) + (k - 1)"
      using inv by (simp add: budget_inv_def)
    then show ?thesis
      using fit k in_flight_remove1 [OF c, of "\<lambda>c. bc_hash c = h"] unat_inc [of "action_count l h"]
      by (auto simp: limits_fit_def charge_call_def ledger_charge_def action_count_def or_else_def
          split: if_splits)
  qed
  have D: "length (bl_external_domains ?l) + card (pending_domains ?ps - set (bl_external_domains ?l))
      \<le> unat (li_max_external_domains limits) + (k - 1)"
  proof -
    let ?d = "bl_external_domains l" and ?d' = "bl_external_domains ?l"
    have "length ?d' + card (pending_domains ?ps - set ?d') \<le> length ?d + card (pending_domains ps - set ?d)"
    proof (cases "bc_destination c")
      case None
      then have "?d' = ?d" by (simp add: charge_call_def ledger_charge_def)
      then show ?thesis
        using card_mono [of "pending_domains ps - set ?d" "pending_domains ?ps - set ?d"]
          pending_domains_remove1 [of c ps] by auto
    next
      case (Some h)
      let ?h = "to_ascii_lowercase h"
      have d': "?d' = List.insert ?h ?d" by (simp add: charge_call_def ledger_charge_def Some)
      have sub: "pending_domains ?ps - set ?d' \<subseteq> (pending_domains ps - set ?d) - {?h}"
        using pending_domains_remove1 [of c ps] d' by auto
      have mem: "?h \<in> pending_domains ps" by (rule pending_domains_mem [OF c Some])
      have "card (pending_domains ?ps - set ?d') \<le> card ((pending_domains ps - set ?d) - {?h})"
        using sub by (rule card_mono [rotated]) simp
      then show ?thesis
        using mem d' card_Suc_Diff1 [of "pending_domains ps - set ?d" ?h]
        by (cases "?h \<in> set ?d") auto
    qed
    then show ?thesis using inv by (simp add: budget_inv_def)
  qed
  show ?thesis unfolding budget_inv_def using len T M R D by simp
qed

lemma budget_inv_refuse:
  assumes inv: "budget_inv k limits (l, ps)" and c: "c \<in> set ps"
  shows "budget_inv k limits (l, remove1 c ps)"
proof -
  have le: "in_flight P (remove1 c ps) \<le> in_flight P ps" for P
    using in_flight_remove1 [OF c, of P] by simp
  have "card (pending_domains (remove1 c ps) - set (bl_external_domains l))
      \<le> card (pending_domains ps - set (bl_external_domains l))"
    using pending_domains_remove1 [of c ps] by (intro card_mono) auto
  moreover have "length (remove1 c ps) \<le> length ps" by (simp add: length_remove1)
  moreover have "unat (action_count l h) + in_flight (\<lambda>c. bc_hash c = h) (remove1 c ps)
      \<le> unat (li_max_repeated_actions limits) + (k - 1)" for h
  proof -
    have "unat (action_count l h) + in_flight (\<lambda>c. bc_hash c = h) ps
        \<le> unat (li_max_repeated_actions limits) + (k - 1)"
      using inv by (simp add: budget_inv_def)
    then show ?thesis using le [of "\<lambda>c. bc_hash c = h"] by linarith
  qed
  ultimately show ?thesis
    using inv le [of "\<lambda>c. bc_kind c \<noteq> ''model_call''"] le [of "\<lambda>c. bc_kind c = ''model_call''"]
    unfolding budget_inv_def by auto
qed

lemma budget_reach_inv:
  "budget_reach k limits s \<Longrightarrow> limits_fit k limits \<Longrightarrow> budget_inv k limits s"
proof (induction rule: budget_reach.induct)
  case (start t)
  then show ?case by (simp add: budget_inv_start)
next
  case (step s s')
  from step.hyps(2) step.IH [OF step.prems] step.prems show ?case
    by (cases rule: budget_step.cases)
      (auto intro: budget_inv_check budget_inv_charge budget_inv_refuse)
qed

section \<open>Sample inputs\<close>

definition sample_remit :: Remit where
  "sample_remit = \<lparr>re_agent = ''support'', re_version = ''3'', re_purpose = [''answer''],
     re_forbidden_goals = [''never enumerate credentials''],
     re_tools = [\<lparr>tp_name = ''send_email'', tp_operations = [''draft'', ''send''],
       tp_approval_required_operations = [''send''], tp_description = []\<rparr>],
     re_data = \<lparr>da_allowed_classes = [], da_forbidden_egress_classes = []\<rparr>,
     re_allowed_roots = [''/workspace''], re_allowed_destinations = [''*.example.com''],
     re_limits = limits_default\<rparr>"

definition sample_tool_call :: "string \<Rightarrow> string \<Rightarrow> Action" where
  "sample_tool_call n op = ActToolCall \<lparr>tc_protocol = Native, tc_server = None, tc_tool_id = ''t1'',
     tc_name = n, tc_version = None, tc_operation = Some op, tc_arguments = JNull,
     tc_target_resource = None, tc_declared_side_effect = None\<rparr>"

definition sample_limits :: Limits where
  "sample_limits = limits_default\<lparr>li_max_tool_calls := 1\<rparr>"

definition sample_call :: "string \<Rightarrow> BudgetCall" where
  "sample_call h = \<lparr>bc_kind = ''tool_call'', bc_hash = h, bc_destination = None, bc_cost = Fin 0\<rparr>"

lemma sample_remit_valid: "remit_validate sample_remit = Inr ()"
  by code_simp

lemma sample_check:
  "budget_permits (budget_verdict sample_limits 0 (bc_hash (sample_call h)) (bc_destination (sample_call h))
     (ledger_new 0))"
  by (simp add: budget_permits_def budget_verdict_def ledger_check_def ledger_check_action_def
      sample_limits_def limits_default_def ledger_new_def sample_call_def action_count_def or_else_def
      num_minutes_def quot_zero_def)

lemma sample_reach_two:
  "budget_reach 2 sample_limits (ledger_new 0, [sample_call ''b'', sample_call ''a''])"
proof -
  have "budget_step 2 sample_limits (ledger_new 0, []) (ledger_new 0, [sample_call ''a''])"
    by (rule budget_step.check [OF sample_check]) simp
  with budget_reach.start have "budget_reach 2 sample_limits (ledger_new 0, [sample_call ''a''])"
    by (rule budget_reach.step)
  moreover have "budget_step 2 sample_limits (ledger_new 0, [sample_call ''a''])
      (ledger_new 0, [sample_call ''b'', sample_call ''a''])"
    by (rule budget_step.check [OF sample_check]) simp
  ultimately show ?thesis by (rule budget_reach.step)
qed

section \<open>Properties\<close>

text \<open>
  C15: a compiled remit puts an action in remit exactly when no keyword of a forbidden goal occurs in
  its resource and operation and the boundary of its class admits it: a file lies under an allowed
  root, a network destination has a host that matches an allowed destination, and any other action
  names a declared tool and one of its operations that needs no approval, a delegation in addition
  staying below the depth limit.
\<close>

theorem remit_evaluate_in_remit:
  assumes "remit_compile r = Inr c"
  shows "remit_evaluate c a = InRemit \<longleftrightarrow>
     \<not> matches_forbidden_goal c (resource_name a) (operation a) \<and>
     (case a of
        ActFile f \<Rightarrow> is_inside_any (fo_path f) (re_allowed_roots r)
      | ActNetwork n \<Rightarrow> (\<exists>h. remit_host_of (nr_url n) = Some h \<and> h \<noteq> [] \<and>
                           any_host_matches (re_allowed_destinations r) h)
      | _ \<Rightarrow> (\<exists>t \<in> set (re_tools r). tp_name t = resource_name a \<and>
               operation a \<in> set (tp_operations t) \<and>
               operation a \<notin> set (tp_approval_required_operations t)) \<and>
             (case a of ActDelegation d \<Rightarrow> dg_depth d < li_max_delegation_depth (re_limits r) | _ \<Rightarrow> True))"
proof -
  have r: "cr_remit c = r" using assms by (simp add: remit_compile_ok)
  have t: "evaluate_tool c n op = InRemit \<longleftrightarrow>
      (\<exists>t \<in> set (re_tools r). tp_name t = n \<and> op \<in> set (tp_operations t) \<and>
         op \<notin> set (tp_approval_required_operations t))" for n op
    using compiled_tool_get [OF assms] by (auto simp: evaluate_tool_InRemit)
  show ?thesis
    unfolding remit_evaluate_def Let_def
    by (cases a) (auto simp: t r evaluate_path_InRemit evaluate_destination_InRemit not_le
        simp del: resource_name.simps operation.simps)
qed

theorem remit_evaluate_in_remit_witness:
  "\<exists>c. remit_compile sample_remit = Inr c \<and>
     remit_evaluate c (sample_tool_call ''send_email'' ''draft'') = InRemit"
proof -
  obtain c where c: "remit_compile sample_remit = Inr c" "cr_remit c = sample_remit"
    using sample_remit_valid by (simp add: remit_compile_def)
  have "matches_forbidden_goal c ''send_email'' ''draft'' = False"
    unfolding matches_forbidden_goal_def c(2) by code_simp
  then show ?thesis
    using c remit_evaluate_in_remit [OF c(1), of "sample_tool_call ''send_email'' ''draft''"]
    by (auto simp: sample_tool_call_def sample_remit_def or_else_def)
qed

text \<open>
  Every remit of a loaded directory is validated, is filed under the agent it names and is the
  compilation of its own document.
\<close>

theorem load_directory_compiled:
  assumes "load_directory yaml entries = Inr reg" and "hm_get reg agent = Some c"
  shows "re_agent (cr_remit c) = agent \<and> remit_validate (cr_remit c) = Inr () \<and>
         remit_compile (cr_remit c) = Inr c"
proof -
  obtain es where "load_entries yaml [] es = Inr reg"
    using assms(1) by (auto simp: load_directory_def result_simps)
  from load_entries_inv [OF this _ assms(2)] show ?thesis by (auto simp: remit_compile_ok)
qed

theorem load_directory_compiled_witness:
  "\<exists>reg c. load_directory (\<lambda>_. Some sample_remit) (Some [(Some ''md'', None), (Some ''yaml'', Some [])])
       = Inr reg \<and> hm_get reg ''support'' = Some c \<and> remit_validate (cr_remit c) = Inr ()"
proof -
  let ?c = "\<lparr>cr_remit = sample_remit, cr_tools = tool_table (re_tools sample_remit),
    cr_version = ''support@3''\<rparr>"
  have e: "load_directory (\<lambda>_. Some sample_remit) (Some [(Some ''md'', None), (Some ''yaml'', Some [])]) =
      Inr [(''support'', ?c)]"
    using sample_remit_valid
    by (simp add: load_directory_def compiled_from_yaml_def remit_from_yaml_def remit_compile_def
        registry_register_def) (simp add: sample_remit_def)
  have g: "hm_get [(''support'', ?c)] ''support'' = Some ?c" by (simp add: hm_get_def)
  show ?thesis using e g load_directory_compiled [OF e g] by blast
qed

text \<open>
  When the actions of a session run one after the other, no counter of the ledger ever passes
  its limit or wraps: tool calls, model calls, the repeats of one action and the external domains.
\<close>

theorem sequential_budget:
  assumes "budget_reach 1 limits (l, ps)"
  shows "bl_tool_calls l \<le> li_max_tool_calls limits \<and> bl_model_calls l \<le> li_max_model_calls limits \<and>
         (\<forall>h. action_count l h \<le> li_max_repeated_actions limits) \<and>
         length (bl_external_domains l) \<le> unat (li_max_external_domains limits)"
proof -
  have "budget_inv 1 limits (l, ps)"
    using assms limits_fit_one by (rule budget_reach_inv)
  then show ?thesis
    by (auto simp: budget_inv_def word_le_nat_alt intro: le_trans [OF le_add1])
qed

theorem sequential_budget_witness:
  "\<exists>l. budget_reach 1 sample_limits (l, []) \<and> bl_tool_calls l = 1 \<and>
       bl_tool_calls l \<le> li_max_tool_calls sample_limits"
proof -
  let ?l = "charge_call (sample_call ''a'') (ledger_new 0)"
  have "budget_step 1 sample_limits (ledger_new 0, []) (ledger_new 0, [sample_call ''a''])"
    by (rule budget_step.check [OF sample_check]) simp
  with budget_reach.start have "budget_reach 1 sample_limits (ledger_new 0, [sample_call ''a''])"
    by (rule budget_reach.step)
  moreover have "budget_step 1 sample_limits (ledger_new 0, [sample_call ''a'']) (?l, [])"
    using budget_step.charge [of "sample_call ''a''" "[sample_call ''a'']"] by simp
  ultimately have r: "budget_reach 1 sample_limits (?l, [])" by (rule budget_reach.step)
  moreover have "bl_tool_calls ?l = 1"
    by (simp add: charge_call_def ledger_charge_def ledger_new_def sample_call_def)
  ultimately show ?thesis using sequential_budget [OF r] by blast
qed

text \<open>
  C16: with \<open>k\<close> actions of a session in flight the counters exceed their limits by at most
  \<open>k - 1\<close>, and they do exceed them: two concurrent actions take a session with one permitted tool
  call to two, because the check and the charge are separate critical sections.
\<close>

theorem concurrent_budget:
  "(budget_reach k limits (l, ps) \<and> limits_fit k limits \<longrightarrow>
      unat (bl_tool_calls l) \<le> unat (li_max_tool_calls limits) + (k - 1) \<and>
      unat (bl_model_calls l) \<le> unat (li_max_model_calls limits) + (k - 1) \<and>
      (\<forall>h. unat (action_count l h) \<le> unat (li_max_repeated_actions limits) + (k - 1)) \<and>
      length (bl_external_domains l) \<le> unat (li_max_external_domains limits) + (k - 1)) \<and>
   (\<exists>l'. budget_reach 2 sample_limits (l', []) \<and> bl_tool_calls l' = 2 \<and>
      li_max_tool_calls sample_limits = 1)"
proof (intro conjI impI)
  assume "budget_reach k limits (l, ps) \<and> limits_fit k limits"
  then have inv: "budget_inv k limits (l, ps)" by (simp add: budget_reach_inv)
  then have "unat (action_count l h) \<le> unat (li_max_repeated_actions limits) + (k - 1)" for h
    unfolding budget_inv_def by (auto intro: le_trans [OF le_add1])
  then show "unat (bl_tool_calls l) \<le> unat (li_max_tool_calls limits) + (k - 1)"
    "unat (bl_model_calls l) \<le> unat (li_max_model_calls limits) + (k - 1)"
    "\<forall>h. unat (action_count l h) \<le> unat (li_max_repeated_actions limits) + (k - 1)"
    "length (bl_external_domains l) \<le> unat (li_max_external_domains limits) + (k - 1)"
    using inv unfolding budget_inv_def by auto
next
  let ?a = "sample_call ''a''" and ?b = "sample_call ''b''"
  let ?l = "charge_call ?b (charge_call ?a (ledger_new 0))"
  have ne: "?a \<noteq> ?b" by (simp add: sample_call_def)
  have "budget_step 2 sample_limits (ledger_new 0, [?b, ?a]) (charge_call ?a (ledger_new 0), [?b])"
    using budget_step.charge [of ?a "[?b, ?a]" 2 sample_limits "ledger_new 0"] ne by simp
  with sample_reach_two have "budget_reach 2 sample_limits (charge_call ?a (ledger_new 0), [?b])"
    by (rule budget_reach.step)
  moreover have "budget_step 2 sample_limits (charge_call ?a (ledger_new 0), [?b]) (?l, [])"
    using budget_step.charge [of ?b "[?b]" 2 sample_limits "charge_call ?a (ledger_new 0)"] by simp
  ultimately have "budget_reach 2 sample_limits (?l, [])" by (rule budget_reach.step)
  moreover have "bl_tool_calls ?l = 2" "li_max_tool_calls sample_limits = 1"
    by (simp_all add: charge_call_def ledger_charge_def ledger_new_def sample_call_def sample_limits_def)
  ultimately show "\<exists>l'. budget_reach 2 sample_limits (l', []) \<and> bl_tool_calls l' = 2 \<and>
      li_max_tool_calls sample_limits = 1" by blast
qed

theorem concurrent_budget_witness:
  "unat (bl_tool_calls (ledger_new 0)) \<le> unat (li_max_tool_calls sample_limits) + (2 - 1) \<and>
   budget_reach 2 sample_limits (ledger_new 0, [sample_call ''b'', sample_call ''a''])"
proof -
  have "limits_fit 2 sample_limits"
    by (simp add: limits_fit_def sample_limits_def limits_default_def)
  with sample_reach_two show ?thesis
    using concurrent_budget [of 2 sample_limits "ledger_new 0" "[sample_call ''b'', sample_call ''a'']"]
    by blast
qed

text \<open>
  A cost limit that is not a number passes validation and is never exhausted, whatever the
  session spends.
\<close>

theorem nan_cost_limit_never_exhausted:
  "remit_validate r = Inr () \<Longrightarrow>
     remit_validate (r\<lparr>re_limits := (re_limits r)\<lparr>li_max_cost_usd := NaN\<rparr>\<rparr>) = Inr () \<and>
     ledger_check l ((re_limits r)\<lparr>li_max_cost_usd := NaN\<rparr>) now \<noteq> Exhausted CostBudgetExceeded"
proof -
  let ?r = "r\<lparr>re_limits := (re_limits r)\<lparr>li_max_cost_usd := NaN\<rparr>\<rparr>"
  assume "remit_validate r = Inr ()"
  moreover have "remit_validate ?r = remit_validate r" by (simp add: remit_validate_def)
  ultimately show ?thesis by (simp add: ledger_check_def)
qed

theorem nan_cost_limit_never_exhausted_witness:
  "remit_validate (sample_remit\<lparr>re_limits := limits_default\<lparr>li_max_cost_usd := NaN\<rparr>\<rparr>) = Inr ()"
  using nan_cost_limit_never_exhausted [OF sample_remit_valid] by (simp add: sample_remit_def)

end
