(* ===== verification/Sessions.thy ===== *)
theory Sessions
  imports Remit Trace
begin

text \<open>
  Per-session state (\<^verbatim>\<open>vigil-core/src/session.rs\<close>): what a session has done, the store of live sessions
  and the composite key that names a session. The store is a mutex around a map; each operation
  below is one critical section. A poisoned lock, which needs a panic inside a critical section, is
  not modelled. Counters are 32-bit and wrap, as the release build does.
\<close>

section \<open>The state of a session\<close>

record SessionKey =
  sk_tenant_id :: string
  sk_session_id :: string
  sk_agent_id :: string
  sk_agent_instance_id :: string
  sk_principal_id :: string

record SessionState =
  ss_key :: SessionKey
  ss_started_at :: timestamp
  ss_trace :: SessionTrace
  ss_budget :: BudgetLedger
  ss_remit_version :: "string option"
  ss_denial_count :: u32
  ss_denied_action_hashes :: "string list"
  ss_recent :: "(string \<times> Decision) list"
  ss_terminated :: bool

definition RECENT_CAPACITY :: nat where
  "RECENT_CAPACITY = 64"

definition session_new :: "SessionKey \<Rightarrow> timestamp \<Rightarrow> SessionState" where
  "session_new k started =
     \<lparr>ss_key = k, ss_started_at = started, ss_trace = trace_new, ss_budget = ledger_new started,
      ss_remit_version = None, ss_denial_count = 0, ss_denied_action_hashes = [], ss_recent = [],
      ss_terminated = False\<rparr>"

text \<open>\<^verbatim>\<open>SessionState::record\<close>; \<^verbatim>\<open>recent.remove(0)\<close> drops the oldest entry.\<close>

definition note_denial :: "ContentHash \<Rightarrow> SessionState \<Rightarrow> SessionState" where
  "note_denial h s = s\<lparr>ss_denial_count := ss_denial_count s + 1,
     ss_denied_action_hashes :=
       (if ch_hex h \<in> set (ss_denied_action_hashes s) then ss_denied_action_hashes s
        else ss_denied_action_hashes s @ [ch_hex h])\<rparr>"

definition session_record :: "ContentHash \<Rightarrow> Decision \<Rightarrow> SessionState \<Rightarrow> SessionState" where
  "session_record h d s =
     (let s1 = (if permits_execution d then s else note_denial h s);
          s2 = (if terminates_session d then s1\<lparr>ss_terminated := True\<rparr> else s1);
          recent = ss_recent s2 @ [(ch_hex h, d)]
      in s2\<lparr>ss_recent := (if RECENT_CAPACITY < length recent then drop 1 recent else recent)\<rparr>)"

definition was_denied_before :: "SessionState \<Rightarrow> ContentHash \<Rightarrow> bool" where
  "was_denied_before s h = list_ex (\<lambda>x. x = ch_hex h) (ss_denied_action_hashes s)"

definition distinct_denials :: "SessionState \<Rightarrow> u32" where
  "distinct_denials s = of_nat (length (ss_denied_action_hashes s))"

section \<open>The store\<close>

text \<open>
  The map behind the lock. Every operation takes the lock first and fails when it is poisoned; whether it is, is an argument.
\<close>

type_synonym SessionStore = "(string, SessionState) hmap"

datatype session_error = SessionStoreUnavailable

definition session_composite :: "SessionKey \<Rightarrow> string" where
  "session_composite k = sk_tenant_id k @ ''/'' @ sk_session_id k @ ''/'' @ sk_agent_id k @ ''/'' @
     sk_agent_instance_id k"

definition session_key_of :: "ActionRequest \<Rightarrow> SessionKey" where
  "session_key_of r = \<lparr>sk_tenant_id = ar_tenant_id r, sk_session_id = ar_session_id r,
     sk_agent_id = ar_agent_id r, sk_agent_instance_id = ar_agent_instance_id r,
     sk_principal_id = p_id (ar_principal r)\<rparr>"

definition session_at :: "SessionStore \<Rightarrow> SessionKey \<Rightarrow> timestamp \<Rightarrow> SessionState" where
  "session_at st k now =
     (case hm_get st (session_composite k) of Some s \<Rightarrow> s | None \<Rightarrow> session_new k now)"

text \<open>The entry of the session, created on first use, with the closure applied to it.\<close>

definition session_update ::
    "SessionKey \<Rightarrow> timestamp \<Rightarrow> (SessionState \<Rightarrow> 'a \<times> SessionState) \<Rightarrow> SessionStore \<Rightarrow> 'a \<times> SessionStore" where
  "session_update k now f st =
     (case f (session_at st k now) of (a, s) \<Rightarrow> (a, hm_insert (session_composite k) s st))"

definition with_session ::
    "bool \<Rightarrow> SessionKey \<Rightarrow> timestamp \<Rightarrow> (SessionState \<Rightarrow> 'a \<times> SessionState) \<Rightarrow> SessionStore
      \<Rightarrow> (session_error + 'a) \<times> SessionStore" where
  "with_session poisoned k now f st =
     (if poisoned then (Inl SessionStoreUnavailable, st)
      else case session_update k now f st of (a, st') \<Rightarrow> (Inr a, st'))"

definition session_inspect :: "bool \<Rightarrow> SessionKey \<Rightarrow> (SessionState \<Rightarrow> 'a) \<Rightarrow> SessionStore \<Rightarrow> session_error + 'a option" where
  "session_inspect poisoned k f st =
     (if poisoned then Inl SessionStoreUnavailable else Inr (map_option f (hm_get st (session_composite k))))"

definition session_end :: "bool \<Rightarrow> SessionKey \<Rightarrow> SessionStore \<Rightarrow> (session_error + bool) \<times> SessionStore" where
  "session_end poisoned k st =
     (if poisoned then (Inl SessionStoreUnavailable, st)
      else (Inr (hm_get st (session_composite k) \<noteq> None), hm_remove (session_composite k) st))"

definition evict_older_than :: "bool \<Rightarrow> timestamp \<Rightarrow> SessionStore \<Rightarrow> (session_error + nat) \<times> SessionStore" where
  "evict_older_than poisoned cutoff st =
     (if poisoned then (Inl SessionStoreUnavailable, st)
      else let kept = hm_retain (\<lambda>_ s. ss_started_at s > cutoff) st in (Inr (length st - length kept), kept))"

section \<open>Keys\<close>

lemma split_at_slash:
  "c \<notin> set a \<Longrightarrow> c \<notin> set b \<Longrightarrow> a @ c # x = b @ c # y \<longleftrightarrow> a = b \<and> x = y"
proof (induction a arbitrary: b)
  case Nil
  then show ?case by (cases b) auto
next
  case (Cons z a)
  then show ?case by (cases b) auto
qed

lemma valid_id_no_slash: "is_ok (validate_id s) \<Longrightarrow> CHR ''/'' \<notin> set s"
proof
  assume "is_ok (validate_id s)" "CHR ''/'' \<in> set s"
  moreover have "\<not> id_char (CHR ''/'')" by code_simp
  ultimately show False
    by (auto simp: validate_id_def is_ok_def list_ex_iff split: if_splits)
qed

definition valid_key :: "SessionKey \<Rightarrow> bool" where
  "valid_key k \<longleftrightarrow> is_ok (validate_id (sk_tenant_id k)) \<and> is_ok (validate_id (sk_session_id k)) \<and>
     is_ok (validate_id (sk_agent_id k)) \<and> is_ok (validate_id (sk_agent_instance_id k))"

lemma composite_inj:
  assumes "valid_key k" "valid_key k'"
  shows "session_composite k = session_composite k' \<longleftrightarrow>
     sk_tenant_id k = sk_tenant_id k' \<and> sk_session_id k = sk_session_id k' \<and>
     sk_agent_id k = sk_agent_id k' \<and> sk_agent_instance_id k = sk_agent_instance_id k'"
proof -
  note ns = assms [unfolded valid_key_def]
  show ?thesis
    using ns by (simp add: session_composite_def split_at_slash valid_id_no_slash)
qed

section \<open>Store lemmas\<close>

lemma with_session_open:
  "\<not> poisoned \<Longrightarrow> with_session poisoned k now f st = (Inr (fst (session_update k now f st)), snd (session_update k now f st))"
  by (simp add: with_session_def split: prod.split)

lemma with_session_poisoned: "poisoned \<Longrightarrow> with_session poisoned k now f st = (Inl SessionStoreUnavailable, st)"
  by (simp add: with_session_def)

lemma session_update_get:
  "hm_get (snd (session_update k now f st)) c =
     (if c = session_composite k then Some (snd (f (session_at st k now))) else hm_get st c)"
  by (simp add: session_update_def hm.get_insert split: prod.split)

lemma session_update_result: "fst (session_update k now f st) = fst (f (session_at st k now))"
  by (simp add: session_update_def split: prod.split)

lemma session_update_invar: "hm_invar st \<Longrightarrow> hm_invar (snd (session_update k now f st))"
  by (simp add: session_update_def hm.invar_insert split: prod.split)

lemma session_at_session_update:
  "session_composite k' = session_composite k \<Longrightarrow>
     session_at (snd (session_update k now f st)) k' now' = snd (f (session_at st k now))"
  by (simp add: session_at_def session_update_get)

lemma session_at_with_other:
  "session_composite k' \<noteq> session_composite k \<Longrightarrow>
     session_at (snd (session_update k now f st)) k' now' = session_at st k' now'"
  by (simp add: session_at_def session_update_get)

lemma session_record_simps [simp]:
  "ss_key (session_record h d s) = ss_key s" "ss_started_at (session_record h d s) = ss_started_at s"
  "ss_trace (session_record h d s) = ss_trace s" "ss_budget (session_record h d s) = ss_budget s"
  "ss_terminated (session_record h d s) = (ss_terminated s \<or> terminates_session d)"
  by (simp_all add: session_record_def note_denial_def Let_def)

lemma denied_hashes_record:
  "set (ss_denied_action_hashes (session_record h d s)) =
     set (ss_denied_action_hashes s) \<union> (if permits_execution d then {} else {ch_hex h})"
  "distinct (ss_denied_action_hashes (session_record h d s)) = distinct (ss_denied_action_hashes s)"
  by (auto simp: session_record_def note_denial_def Let_def)

section \<open>Histories of one session\<close>

definition run_record :: "(ContentHash \<times> Decision) list \<Rightarrow> SessionState \<Rightarrow> SessionState" where
  "run_record os s = foldl (\<lambda>s (h, d). session_record h d s) s os"

lemma run_record_snoc: "run_record (os @ [o']) s = session_record (fst o') (snd o') (run_record os s)"
  by (simp add: run_record_def split: prod.split)

definition denied_hexes :: "(ContentHash \<times> Decision) list \<Rightarrow> string set" where
  "denied_hexes os = {ch_hex h |h d. (h, d) \<in> set os \<and> \<not> permits_execution d}"

lemma denied_hexes_snoc:
  "denied_hexes (os @ [o']) =
     denied_hexes os \<union> (if permits_execution (snd o') then {} else {ch_hex (fst o')})"
  by (cases o') (auto simp: denied_hexes_def)

lemma run_record_denied:
  "set (ss_denied_action_hashes (run_record os (session_new k t))) = denied_hexes os \<and>
   distinct (ss_denied_action_hashes (run_record os (session_new k t)))"
proof (induction os rule: rev_induct)
  case Nil
  then show ?case by (simp add: run_record_def session_new_def denied_hexes_def)
next
  case (snoc o' os)
  then show ?case by (simp add: run_record_snoc denied_hexes_snoc denied_hashes_record)
qed

lemma run_record_terminated:
  "ss_terminated (run_record os (session_new k t)) \<longleftrightarrow> list_ex (\<lambda>o'. terminates_session (snd o')) os"
proof (induction os rule: rev_induct)
  case (snoc o' os)
  then show ?case by (simp add: run_record_snoc disj_commute)
qed (simp add: run_record_def session_new_def)

lemma run_record_count:
  "ss_denial_count (run_record os (session_new k t)) =
     of_nat (length (filter (\<lambda>o'. \<not> permits_execution (snd o')) os))"
proof (induction os rule: rev_induct)
  case (snoc o' os)
  then show ?case by (simp add: run_record_snoc session_record_def note_denial_def Let_def)
qed (simp add: run_record_def session_new_def)

lemma run_record_recent:
  "ss_recent (run_record os (session_new k t)) =
     drop (length os - RECENT_CAPACITY) (map (\<lambda>o'. (ch_hex (fst o'), snd o')) os)"
proof (induction os rule: rev_induct)
  case (snoc o' os)
  have "ss_recent (session_record h d s) =
      (if RECENT_CAPACITY < Suc (length (ss_recent s)) then drop 1 (ss_recent s @ [(ch_hex h, d)])
       else ss_recent s @ [(ch_hex h, d)])" for h d s
    by (simp add: session_record_def note_denial_def Let_def)
  moreover have "Suc (length os - 64) = length os - 63" if "63 < length os - (length os - 64)"
    using that by arith
  ultimately show ?case
    by (cases "63 < length os") (simp_all add: run_record_snoc snoc RECENT_CAPACITY_def)
qed (simp add: run_record_def session_new_def)

section \<open>Properties\<close>

text \<open>
  Session state is what the recorded outcomes say. After any sequence of recorded outcomes, the
  session is terminated exactly when one of them terminates it, an action counts as denied before
  exactly when an outcome with its hash did not permit execution, the distinct denials are the number
  of such hashes, the denial counter counts the denials (modulo its width), and the last 64 outcomes
  are kept in order.
\<close>

theorem session_history:
  "let s = run_record os (session_new k t) in
     (ss_terminated s \<longleftrightarrow> (\<exists>(h, d) \<in> set os. terminates_session d)) \<and>
     (was_denied_before s h \<longleftrightarrow> ch_hex h \<in> denied_hexes os) \<and>
     distinct_denials s = of_nat (card (denied_hexes os)) \<and>
     ss_denial_count s = of_nat (length (filter (\<lambda>o'. \<not> permits_execution (snd o')) os)) \<and>
     ss_recent s = drop (length os - 64) (map (\<lambda>o'. (ch_hex (fst o'), snd o')) os)"
proof -
  have "length (ss_denied_action_hashes (run_record os (session_new k t))) = card (denied_hexes os)"
    using run_record_denied [of os k t] distinct_card by fastforce
  then show ?thesis
    using run_record_denied [of os k t]
    by (auto simp: Let_def run_record_terminated was_denied_before_def list_ex_iff distinct_denials_def
        run_record_count run_record_recent RECENT_CAPACITY_def split_beta)
qed

text \<open>
  Sessions are isolated. For keys whose components are valid identifiers, an operation on one
  session leaves every session that differs in tenant, session, agent or instance as it was, and
  operations on the same four components meet the same state, whatever the principal.
\<close>

theorem session_isolation:
  assumes "valid_key k" "valid_key k'"
  shows "session_at (snd (session_update k now f st)) k' now' =
     (if sk_tenant_id k = sk_tenant_id k' \<and> sk_session_id k = sk_session_id k' \<and>
         sk_agent_id k = sk_agent_id k' \<and> sk_agent_instance_id k = sk_agent_instance_id k'
      then snd (f (session_at st k now)) else session_at st k' now')"
  using composite_inj [OF assms] by (auto simp: session_at_session_update session_at_with_other)

theorem session_isolation_witness:
  "let k = session_key_of (sample_request sample_shell);
       st = snd (session_update k 0 (\<lambda>s. ((), s\<lparr>ss_terminated := True\<rparr>)) [])
   in ss_terminated (session_at st (k\<lparr>sk_principal_id := ''u2''\<rparr>) 5) \<and>
      \<not> ss_terminated (session_at st (k\<lparr>sk_tenant_id := ''t2''\<rparr>) 5)"
proof -
  let ?k = "session_key_of (sample_request sample_shell)"
  have v: "valid_key ?k" "valid_key (?k\<lparr>sk_principal_id := ''u2''\<rparr>)" "valid_key (?k\<lparr>sk_tenant_id := ''t2''\<rparr>)"
    by code_simp+
  have t: "sk_tenant_id ?k = ''t1''" by code_simp
  show ?thesis
    unfolding Let_def session_isolation [OF v(1) v(2)] session_isolation [OF v(1) v(3)]
    using t by (simp add: session_at_def session_new_def)
qed

end
