(* ===== verification/Pipeline.thy ===== *)
theory Pipeline
  imports Approval Capability Dlp Identity Manifests Network Policy Risk Sessions
begin

text \<open>
  The decision pipeline (\<^verbatim>\<open>vigil-core/src/pipeline.rs\<close>), its configuration (\<^verbatim>\<open>vigil-core/src/config.rs\<close>) and
  the response types of \<^verbatim>\<open>vigil-protocol/src/decision.rs\<close>. The stages are the definitions below in the
  order of the code; \<open>decide\<close> composes them over the session store and the approval service, one
  critical section at a time. The policy engine and the detectors are trait objects in the code and
  fields of the environment here; what the clock, the identifier generators and the nonce generator
  give during one call are fields of the call.
\<close>

section \<open>Configuration\<close>

datatype EnforcementMode = Protected | Observability

record CoreConfig =
  co_mode :: EnforcementMode
  co_require_workload_identity :: bool
  co_allow_unregistered_agents :: bool
  co_capability_ttl_seconds :: int
  co_skip_detectors :: bool
  co_default_approver_roles :: "string list"
  co_max_request_body_bytes :: int
  co_decision_deadline_ms :: int
  co_session_max_lifetime_minutes :: int

definition DEFAULT_CAPABILITY_TTL_SECONDS :: int where
  "DEFAULT_CAPABILITY_TTL_SECONDS = 60"

definition config_default :: CoreConfig where
  "config_default = \<lparr>co_mode = Protected, co_require_workload_identity = True,
     co_allow_unregistered_agents = False, co_capability_ttl_seconds = DEFAULT_CAPABILITY_TTL_SECONDS,
     co_skip_detectors = True,
     co_default_approver_roles = [''SecurityAnalyst'', ''TenantAdmin'', ''IncidentResponder''],
     co_max_request_body_bytes = 1024 * 1024, co_decision_deadline_ms = 500,
     co_session_max_lifetime_minutes = 240\<rparr>"

definition config_development :: CoreConfig where
  "config_development = config_default\<lparr>co_require_workload_identity := False, co_allow_unregistered_agents := True\<rparr>"

datatype config_error = TtlTooLong | TtlTooShort | NoBodyAllowed

definition config_validate :: "CoreConfig \<Rightarrow> config_error + unit" where
  "config_validate c =
     (if co_capability_ttl_seconds c > MAX_CAPABILITY_TTL_SECONDS then Inl TtlTooLong
      else if co_capability_ttl_seconds c < 1 then Inl TtlTooShort
      else if co_max_request_body_bytes c = 0 then Inl NoBodyAllowed
      else Inr ())"

section \<open>Responses\<close>

record DecisionProvenance =
  dp_policy_bundle_version :: "string option"
  dp_remit_version :: "string option"
  dp_matched_policies :: "string list"
  dp_deciding_stage :: string
  dp_detector_versions :: "(string \<times> string) list"

record DecisionResponse =
  rs_schema_version :: string
  rs_decision_id :: string
  rs_decision :: Decision
  rs_action_hash :: ContentHash
  rs_risk_score :: rat
  rs_confidence :: rat
  rs_reason_codes :: "ReasonCode list"
  rs_constraints :: "Constraint list"
  rs_obligations :: "Obligation list"
  rs_detector_results :: "DetectorResult list"
  rs_provenance :: DecisionProvenance
  rs_capability :: "string option"
  rs_approval_id :: "string option"
  rs_evaluated_at :: timestamp
  rs_latency_ms :: nat

definition is_coherent :: "DecisionResponse \<Rightarrow> bool" where
  "is_coherent r \<longleftrightarrow>
     (rs_capability r \<noteq> None) = mints_capability (rs_decision r) \<and>
     0 \<le> rs_risk_score r \<and> rs_risk_score r \<le> 1 \<and>
     0 \<le> rs_confidence r \<and> rs_confidence r \<le> 1 \<and> rs_reason_codes r \<noteq> []"

record DecisionOutcome =
  oc_response :: DecisionResponse
  oc_action_hash :: ContentHash
  oc_taints :: "TaintKind list"
  oc_causal_chain :: "ProvenanceRef list"
  oc_risk_contributions :: "(string \<times> rat) list"
  oc_approval_request :: "ApprovalRequest option"
  oc_effective_tier :: ImpactTier

definition elapsed_ms :: "timestamp \<Rightarrow> timestamp \<Rightarrow> nat" where
  "elapsed_ms start end' = nat (quot_zero (end' - start) 1000000)"

section \<open>The environment, the state and a call\<close>

record UntrustedContent =
  uc_node_id :: "string option"
  uc_origin :: string
  uc_trust :: TrustLevel
  uc_content :: string

record DetectionContext =
  dc_agent_remit_summary :: string
  dc_action :: Action
  dc_impact_tier :: ImpactTier
  dc_action_strings :: "(string \<times> string) list"
  dc_established_taints :: "TaintKind list"
  dc_untrusted_influence :: bool
  dc_untrusted_content :: "UntrustedContent list"
  dc_allowed_path_roots :: "string list"

record ('sk, 'vk) core_env =
  ce_config :: CoreConfig
  ce_policy :: "PolicyRequest \<Rightarrow> PolicyDecision option"
  ce_bundle_version :: string
  ce_remits :: RemitRegistry
  ce_manifests :: ToolManifestRegistry
  ce_detectors :: "DetectionContext detector list"
  ce_issuer :: "'sk CapabilityIssuer"
  ce_crypto :: "('sk, 'vk) crypto"
  ce_approval_crypto :: approval_crypto
  ce_format :: number_format
  ce_sha :: "u8 list \<Rightarrow> string"
  ce_codec :: value_codec
  ce_dlp :: dlp_env
  ce_url :: "string \<Rightarrow> url option"
  ce_marks :: marks

record core_state =
  cs_sessions :: SessionStore
  cs_sessions_poisoned :: bool
  cs_approvals :: ApprovalService

record core_call =
  ca_started :: timestamp
  ca_redeemed :: timestamp
  ca_issued :: timestamp
  ca_requested :: timestamp
  ca_finished :: timestamp
  ca_capability_id :: string
  ca_nonce :: string
  ca_approval_id :: string
  ca_decision_id :: string

datatype core_error =
    RequestInvalid request_error
  | CrossTenant
  | ClaimsMismatch auth_error
  | WorkloadUnverified
  | NotCanonical canon_error
  | CapabilityFailed capability_error
  | DisjointApproverRoles "string list"
  | ApprovalFailed approval_error
  | SessionsFailed session_error

section \<open>Facts about an action\<close>

fun principal_kind_label :: "PrincipalKind \<Rightarrow> string" where
  "principal_kind_label Human = ''human''"
| "principal_kind_label Service = ''service''"
| "principal_kind_label AgentPrincipal = ''agent''"
| "principal_kind_label Anonymous = ''anonymous''"

fun tool_id_of :: "Action \<Rightarrow> string option" where
  "tool_id_of (ActToolCall t) = Some (tc_tool_id t)"
| "tool_id_of _ = None"

fun target_resource_of :: "Action \<Rightarrow> string option" where
  "target_resource_of (ActToolCall t) = tc_target_resource t"
| "target_resource_of (ActNetwork n) = Some (nr_url n)"
| "target_resource_of (ActFile f) = Some (fo_path f)"
| "target_resource_of (ActDatabase d) = db_database d"
| "target_resource_of _ = None"

fun destination_host :: "(string \<Rightarrow> url option) \<Rightarrow> marks \<Rightarrow> Action \<Rightarrow> string option" where
  "destination_host parse mk (ActNetwork n) =
     nf_host (network_analyze parse mk (nr_url n) (nr_resolved_addresses n) [])"
| "destination_host parse mk _ = None"

fun touched_paths :: "Action \<Rightarrow> string list" where
  "touched_paths (ActFile f) = [normalize (fo_path f)]"
| "touched_paths _ = []"

fun delegation_depth :: "Action \<Rightarrow> u32" where
  "delegation_depth (ActDelegation d) = dg_depth d"
| "delegation_depth _ = 0"

fun delegation_lineage :: "Action \<Rightarrow> string list" where
  "delegation_lineage (ActDelegation d) = dg_lineage d"
| "delegation_lineage _ = []"

fun estimated_cost :: "Action \<Rightarrow> f64" where
  "estimated_cost (ActModelCall m) = or_else (mc_estimated_cost_usd m) (Fin 0)"
| "estimated_cost _ = Fin 0"

fun is_tool_call :: "Action \<Rightarrow> bool" where
  "is_tool_call (ActToolCall t) = True"
| "is_tool_call _ = False"

section \<open>Identity and manifest\<close>

definition check_identity :: "CoreConfig \<Rightarrow> AuthenticatedRequest \<Rightarrow> core_error + unit" where
  "check_identity cfg a =
     (let r = au_request a
      in if p_tenant_id (ar_principal r) \<noteq> ar_tenant_id r then Inl CrossTenant
         else case check_claims_match_proof a of
                Inl e \<Rightarrow> Inl (ClaimsMismatch e)
              | Inr _ \<Rightarrow>
                  if co_mode cfg = Protected \<and> co_require_workload_identity cfg \<and>
                     \<not> wi_verified (vi_workload (au_identity a))
                  then Inl WorkloadUnverified else Inr ())"

definition action_manifest :: "('sk, 'vk) core_env \<Rightarrow> Action \<Rightarrow> ToolManifest" where
  "action_manifest e a = manifest_lookup (ce_manifests e) (resource_name a)"

definition action_side_effect :: "('sk, 'vk) core_env \<Rightarrow> Action \<Rightarrow> SideEffectClass" where
  "action_side_effect e a =
     (let m = action_manifest e a in if tm_synthetic m then intrinsic_side_effect a else tm_side_effect m)"

definition action_tier :: "('sk, 'vk) core_env \<Rightarrow> Action \<Rightarrow> ImpactTier" where
  "action_tier e a = max (effective_tier (action_manifest e a)) (floor_tier (action_side_effect e a))"

section \<open>Taints, remit and budget\<close>

definition action_findings :: "('sk, 'vk) core_env \<Rightarrow> Action \<Rightarrow> Finding list" where
  "action_findings e a = classify_all (ce_dlp e) (content_strings a)"

definition data_classes_of :: "('sk, 'vk) core_env \<Rightarrow> Action \<Rightarrow> string list" where
  "data_classes_of e a = map (class_as_str \<circ> fi_class) (action_findings e a)"

text \<open>The taints of the trace and of the classifier, sorted: the order of \<^verbatim>\<open>TaintKind\<close> is that of \<open>all_taints\<close>.\<close>

definition combined_taints :: "('sk, 'vk) core_env \<Rightarrow> TraceFindings \<Rightarrow> Action \<Rightarrow> TaintKind list" where
  "combined_taints e tf a =
     filter (\<lambda>t. t \<in> set (taints_vec tf) \<or> t \<in> set (taints_of (action_findings e a))) all_taints"

fun verdict_decision :: "bool \<Rightarrow> RemitVerdict \<Rightarrow> Decision" where
  "verdict_decision unregistered InRemit = Allow"
| "verdict_decision unregistered RequiresApproval = RequireApproval"
| "verdict_decision unregistered (OutOfRemit c) = Deny"
| "verdict_decision unregistered NoRemit = (if unregistered then Allow else Deny)"

definition forbidden_classes :: "('sk, 'vk) core_env \<Rightarrow> ActionRequest \<Rightarrow> string list" where
  "forbidden_classes e r =
     (if is_egress (action_side_effect e (ar_action r))
      then (case hm_get (ce_remits e) (ar_agent_id r) of
              Some remit \<Rightarrow> filter (\<lambda>c. \<not> permits_egress_of remit c) (data_classes_of e (ar_action r))
            | None \<Rightarrow> [])
      else [])"

definition remit_stage :: "('sk, 'vk) core_env \<Rightarrow> ActionRequest \<Rightarrow> Decision" where
  "remit_stage e r =
     foldl (\<lambda>d _. decision_combine d Deny)
       (verdict_decision (co_allow_unregistered_agents (ce_config e))
          (fst (registry_evaluate (ce_remits e) (ar_agent_id r) (ar_action r))))
       (forbidden_classes e r)"

definition remit_reasons :: "('sk, 'vk) core_env \<Rightarrow> ActionRequest \<Rightarrow> ReasonCode list" where
  "remit_reasons e r =
     (let v = fst (registry_evaluate (ce_remits e) (ar_agent_id r) (ar_action r))
      in (if v = InRemit then [WithinRemit] else [remit_reason_code v]))
     @ map (\<lambda>_. OutOfRemitResource) (forbidden_classes e r)"

definition limits_of :: "('sk, 'vk) core_env \<Rightarrow> ActionRequest \<Rightarrow> Limits" where
  "limits_of e r =
     (case hm_get (ce_remits e) (ar_agent_id r) of
        Some remit \<Rightarrow> re_limits (cr_remit remit) | None \<Rightarrow> limits_default)"

fun budget_decision :: "BudgetVerdict \<Rightarrow> Decision" where
  "budget_decision Within = Allow"
| "budget_decision (Exhausted c) = Deny"

fun budget_reasons :: "BudgetVerdict \<Rightarrow> ReasonCode list" where
  "budget_reasons Within = []"
| "budget_reasons (Exhausted c) = [c]"

section \<open>Policy\<close>

definition policy_request_of ::
    "('sk, 'vk) core_env \<Rightarrow> ActionRequest \<Rightarrow> TraceFindings \<Rightarrow> u32 \<Rightarrow> bool \<Rightarrow> PolicyRequest" where
  "policy_request_of e r tf denials approved =
     (let a = ar_action r
      in \<lparr>pq_principal = \<lparr>pp_id = p_id (ar_principal r), pp_tenant_id = ar_tenant_id r,
             pp_kind = principal_kind_label (p_kind (ar_principal r)), pp_roles = p_roles (ar_principal r),
             pp_mfa = p_mfa (ar_principal r), pp_agent_id = ar_agent_id r,
             pp_delegation_lineage = delegation_lineage a\<rparr>,
           pq_action = \<lparr>pa_kind = action_kind a, pa_operation = operation a,
             pa_side_effect = action_side_effect e a, pa_impact_tier = action_tier e a\<rparr>,
           pq_resource = \<lparr>pres_name = resource_name a, pres_tool_id = tool_id_of a,
             pres_destination_host = destination_host (ce_url e) (ce_marks e) a,
             pres_paths = touched_paths a, pres_data_classes = data_classes_of e a\<rparr>,
           pq_context = \<lparr>pc_environment_id = Some (ar_environment_id r), pc_session_id = Some (ar_session_id r),
             pc_lowest_influencing_trust = tf_lowest_trust tf,
             pc_untrusted_instruction_influence = tf_untrusted_instruction_influence tf,
             pc_taints = combined_taints e tf a, pc_approval_satisfied = approved,
             pc_prior_denials = denials, pc_delegation_depth = delegation_depth a\<rparr>\<rparr>)"

definition policy_unavailable :: "string \<Rightarrow> PolicyDecision" where
  "policy_unavailable version =
     \<lparr>pd_decision = fail_closed, pd_matched_policies = [], pd_reason_codes = [], pd_obligations = [],
      pd_constraints = [], pd_bundle_version = version, pd_severity = Some ''HIGH''\<rparr>"

definition policy_stage :: "('sk, 'vk) core_env \<Rightarrow> PolicyRequest \<Rightarrow> PolicyDecision" where
  "policy_stage e q =
     (case ce_policy e q of Some d \<Rightarrow> d | None \<Rightarrow> policy_unavailable (ce_bundle_version e))"

definition policy_reasons :: "('sk, 'vk) core_env \<Rightarrow> PolicyRequest \<Rightarrow> ReasonCode list" where
  "policy_reasons e q =
     (case ce_policy e q of Some d \<Rightarrow> pd_reason_codes d | None \<Rightarrow> [PolicyEngineUnavailable, FailClosed])"

section \<open>Detectors and risk\<close>

fun json_text :: "json \<Rightarrow> string \<Rightarrow> string option" where
  "json_text (JObj ms) k = (case map_of ms k of Some (JStr s) \<Rightarrow> Some s | _ \<Rightarrow> None)"
| "json_text _ k = None"

definition untrusted_nodes :: "SessionState option \<Rightarrow> ActionRequest \<Rightarrow> UntrustedContent list" where
  "untrusted_nodes s r =
     (case s of
        None \<Rightarrow> []
      | Some state \<Rightarrow>
          concat (map (\<lambda>source.
            case trace_get (ss_trace state) (pr_node_id source) of
              Some n \<Rightarrow> if carries_instruction_authority (pn_trust n) then []
                        else [\<lparr>uc_node_id = Some (pn_id n), uc_origin = pn_origin n, uc_trust = pn_trust n,
                               uc_content = []\<rparr>]
            | None \<Rightarrow> []) (rc_influencing_sources (ar_context r))))"

definition untrusted_texts :: "ActionRequest \<Rightarrow> UntrustedContent list" where
  "untrusted_texts r =
     concat (map (\<lambda>source.
       if carries_instruction_authority (pr_trust_level source) then []
       else case json_text (rc_adapter_metadata (ar_context r)) (pr_node_id source) of
              Some text \<Rightarrow> [\<lparr>uc_node_id = Some (pr_node_id source), uc_origin = pr_origin source,
                             uc_trust = pr_trust_level source, uc_content = text\<rparr>]
            | None \<Rightarrow> []) (rc_influencing_sources (ar_context r)))"

definition detection_context ::
    "('sk, 'vk) core_env \<Rightarrow> ActionRequest \<Rightarrow> SessionState option \<Rightarrow> TraceFindings \<Rightarrow> DetectionContext" where
  "detection_context e r s tf =
     (let remit = hm_get (ce_remits e) (ar_agent_id r)
      in \<lparr>dc_agent_remit_summary =
            (case remit of Some c \<Rightarrow> remit_summary c | None \<Rightarrow> ''unregistered agent; no declared purpose''),
          dc_action = ar_action r, dc_impact_tier = action_tier e (ar_action r),
          dc_action_strings = content_strings (ar_action r),
          dc_established_taints = combined_taints e tf (ar_action r),
          dc_untrusted_influence = tf_untrusted_instruction_influence tf,
          dc_untrusted_content = untrusted_nodes s r @ untrusted_texts r,
          dc_allowed_path_roots =
            (case remit of Some c \<Rightarrow> re_allowed_roots (cr_remit c) | None \<Rightarrow> [])\<rparr>)"

definition deterministic_decision :: "PolicyDecision \<Rightarrow> Decision \<Rightarrow> Decision \<Rightarrow> Decision" where
  "deterministic_decision pd remit budget =
     decision_combine (decision_combine (pd_decision pd) remit) budget"

definition detector_stage ::
    "('sk, 'vk) core_env \<Rightarrow> Decision \<Rightarrow> DetectionContext \<Rightarrow> DetectorResult list" where
  "detector_stage e so_far ctx =
     (if co_skip_detectors (ce_config e) \<and> so_far = Deny then [] else run_all (ce_detectors e) ctx)"

definition risk_inputs ::
    "('sk, 'vk) core_env \<Rightarrow> ActionRequest \<Rightarrow> TraceFindings \<Rightarrow> u32 \<Rightarrow> bool \<Rightarrow> bool \<Rightarrow> DetectorResult list \<Rightarrow> RiskInputs" where
  "risk_inputs e r tf denials retry approved results =
     (let a = ar_action r; se = action_side_effect e a
      in \<lparr>ri_impact_tier = Some (action_tier e a), ri_reversible = is_reversible se, ri_egress = is_egress se,
          ri_lowest_influencing_trust = tf_lowest_trust tf,
          ri_untrusted_instruction_influence = tf_untrusted_instruction_influence tf,
          ri_taints = combined_taints e tf a, ri_evasive_encoding = tf_evasive_encoding tf,
          ri_out_of_remit =
            (fst (registry_evaluate (ce_remits e) (ar_agent_id r) a) \<notin> {InRemit, RequiresApproval}),
          ri_prior_distinct_denials = denials, ri_retry_of_denied_action = retry,
          ri_approval_satisfied = approved, ri_delegation_depth = delegation_depth a,
          ri_detector_results = results\<rparr>)"

section \<open>The final decision\<close>

definition fold_proposals :: "Decision \<Rightarrow> DetectorResult list \<Rightarrow> Decision" where
  "fold_proposals d results =
     foldl (\<lambda>d r. case dr_proposed_escalation r of Some p \<Rightarrow> decision_combine d p | None \<Rightarrow> d) d results"

definition final_decision ::
    "Decision \<Rightarrow> DetectorResult list \<Rightarrow> bool \<Rightarrow> bool \<Rightarrow> bool \<Rightarrow> Decision" where
  "final_decision so_far results needs_approval review approved =
     (let d = fold_proposals so_far results;
          d = (if needs_approval \<and> \<not> approved then decision_combine d RequireApproval else d);
          d = (if review \<and> \<not> approved then decision_combine d RequireApproval else d)
      in if approved \<and> d = RequireApproval then AllowWithConstraints else d)"

definition deciding_stage :: "Decision \<Rightarrow> Decision \<Rightarrow> Decision \<Rightarrow> Decision \<Rightarrow> bool \<Rightarrow> string" where
  "deciding_stage final policy remit budget policy_failed =
     (if policy_failed then ''policy_unavailable''
      else if final = budget \<and> budget \<noteq> Allow then ''budget''
      else if final = remit \<and> remit \<noteq> Allow then ''remit''
      else if final = policy \<and> policy \<noteq> Allow then ''policy''
      else if restrictiveness final > max (max (restrictiveness policy) (restrictiveness remit)) (restrictiveness budget)
           then ''detectors_or_risk''
      else ''policy'')"

section \<open>Raising an approval\<close>

definition human_approvals :: "Obligation list \<Rightarrow> (string list \<times> u64) list" where
  "human_approvals os = List.map_filter (\<lambda>ob. case ob of HumanApproval roles ttl \<Rightarrow> Some (roles, ttl) | _ \<Rightarrow> None) os"

definition required_roles :: "string list \<Rightarrow> (string list \<times> u64) list \<Rightarrow> string list" where
  "required_roles defaults approvals =
     remdups (sort (case approvals of
        [] \<Rightarrow> defaults
      | (first, _) # others \<Rightarrow> foldl (\<lambda>acc (roles, _). filter (\<lambda>x. x \<in> set roles) acc) first others))"

definition required_ttl :: "(string list \<times> u64) list \<Rightarrow> int" where
  "required_ttl approvals =
     (case map (\<lambda>(_, ttl). sint ttl) approvals of
        [] \<Rightarrow> DEFAULT_APPROVAL_TTL_SECONDS
      | t # ts \<Rightarrow> fold min ts t)"

definition preview_parameter :: "('sk, 'vk) core_env \<Rightarrow> string \<times> string \<Rightarrow> string \<times> string" where
  "preview_parameter e = (\<lambda>(path, value).
     (path, if list_ex (\<lambda>f. fingerprintable (fi_class f)) (dlp_classify (ce_dlp e) path value)
            then redact (ce_codec e) value else single_line_excerpt (ce_marks e) value 200))"

definition approval_preview ::
    "('sk, 'vk) core_env \<Rightarrow> ActionRequest \<Rightarrow> PolicyDecision \<Rightarrow> RiskAssessment \<Rightarrow> ReasonCode list \<Rightarrow> TransactionPreview" where
  "approval_preview e r pd ra codes =
     (let a = ar_action r
      in \<lparr>pw_action_descriptor = descriptor r, pw_target = target_resource_of a,
          pw_parameters = map (preview_parameter e) (content_strings a),
          pw_sensitive_data = data_classes_of e a, pw_rationale = rc_action_rationale (ar_context r),
          pw_triggering_policies = pd_matched_policies pd, pw_risk_score = ra_risk ra,
          pw_irreversible = (\<not> is_reversible (action_side_effect e a)),
          pw_reason_codes = map reason_as_str codes\<rparr>)"

definition raise_approval ::
    "('sk, 'vk) core_env \<Rightarrow> core_call \<Rightarrow> ActionRequest \<Rightarrow> ContentHash \<Rightarrow> PolicyDecision \<Rightarrow> RiskAssessment
      \<Rightarrow> ReasonCode list \<Rightarrow> ApprovalService \<Rightarrow> (core_error + ApprovalRequest) \<times> ApprovalService" where
  "raise_approval e c r h pd ra codes svc =
     (let approvals = human_approvals (pd_obligations pd);
          roles = required_roles (co_default_approver_roles (ce_config e)) approvals
      in if roles = [] then (Inl (DisjointApproverRoles (pd_matched_policies pd)), svc)
         else case request_approval (ca_requested c) (ca_approval_id c) (ar_tenant_id r) (ar_agent_id r)
                     (ar_session_id r) (p_id (ar_principal r)) h (approval_preview e r pd ra codes) roles
                     (required_ttl approvals) svc of
                (Inl err, svc') \<Rightarrow> (Inl (ApprovalFailed err), svc')
              | (Inr q, svc') \<Rightarrow> (Inr q, svc'))"

section \<open>The decision\<close>

text \<open>
  Everything \<^verbatim>\<open>decide\<close> computes between the session snapshot and the first effect on the outcome: a
  function of the environment, the request, its hash, the session, the budget verdict and whether an
  approval was redeemed.
\<close>

record Evaluation =
  ev_trace :: TraceFindings
  ev_remit :: Decision
  ev_budget :: Decision
  ev_policy :: PolicyDecision
  ev_policy_failed :: bool
  ev_detectors :: "DetectorResult list"
  ev_assessment :: RiskAssessment
  ev_decision :: Decision
  ev_reasons :: "ReasonCode list"

definition needs_approval :: "('sk, 'vk) core_env \<Rightarrow> Action \<Rightarrow> bool" where
  "needs_approval e a = manifest_requires_approval (action_manifest e a) (operation a)"

definition session_findings :: "('sk, 'vk) core_env \<Rightarrow> ActionRequest \<Rightarrow> SessionState \<Rightarrow> TraceFindings" where
  "session_findings e r s =
     analyze_action (ce_codec e) (ss_trace s) (map pr_node_id (rc_influencing_sources (ar_context r)))
       (content_strings (ar_action r))"

definition evaluate_action ::
    "('sk, 'vk) core_env \<Rightarrow> ActionRequest \<Rightarrow> ContentHash \<Rightarrow> SessionState \<Rightarrow> SessionState option \<Rightarrow> BudgetVerdict
      \<Rightarrow> bool \<Rightarrow> Evaluation" where
  "evaluate_action e r h s inspected bv approved =
     (let a = ar_action r;
          tf = session_findings e r s;
          remit = remit_stage e r;
          budget = budget_decision bv;
          denials = distinct_denials s;
          q = policy_request_of e r tf denials approved;
          pd = policy_stage e q;
          so_far = deterministic_decision pd remit budget;
          results = detector_stage e so_far (detection_context e r inspected tf);
          ra = assess (risk_inputs e r tf denials (was_denied_before s h) approved results);
          needs = needs_approval e a
      in \<lparr>ev_trace = tf, ev_remit = remit, ev_budget = budget, ev_policy = pd,
          ev_policy_failed = (ce_policy e q = None), ev_detectors = results, ev_assessment = ra,
          ev_decision = final_decision so_far results needs (warrants_review ra) approved,
          ev_reasons =
            (if tm_synthetic (action_manifest e a) \<and> is_tool_call a then [ToolUnregistered] else [])
            @ remit_reasons e r @ budget_reasons bv @ (if approved then [ApprovalSatisfied] else [])
            @ policy_reasons e q @ concat (map dr_reason_codes results)
            @ (if needs \<and> \<not> approved then [ApprovalRequired] else [])\<rparr>)"

definition capability_claims_for ::
    "core_call \<Rightarrow> ActionRequest \<Rightarrow> ContentHash \<Rightarrow> string option \<Rightarrow> PolicyDecision \<Rightarrow> string option \<Rightarrow> CapabilityClaims" where
  "capability_claims_for c r h remit_version pd approval =
     \<lparr>cc_version = [], cc_capability_id = ca_capability_id c, cc_tenant_id = ar_tenant_id r,
      cc_environment_id = ar_environment_id r, cc_agent_id = ar_agent_id r,
      cc_agent_instance_id = ar_agent_instance_id r, cc_session_id = ar_session_id r,
      cc_principal_id = p_id (ar_principal r), cc_action_kind = action_kind (ar_action r),
      cc_tool_id = tool_id_of (ar_action r), cc_operation = operation (ar_action r),
      cc_target_resource = target_resource_of (ar_action r), cc_action_hash = h,
      cc_remit_version = or_else remit_version ''none'', cc_policy_bundle_version = pd_bundle_version pd,
      cc_approval_id = approval, cc_constraints = pd_constraints pd, cc_issued_at = ca_started c,
      cc_expires_at = ca_started c, cc_nonce = [], cc_max_uses = 1\<rparr>"

definition terminated_outcome ::
    "('sk, 'vk) core_env \<Rightarrow> core_call \<Rightarrow> ContentHash \<Rightarrow> ImpactTier \<Rightarrow> DecisionOutcome" where
  "terminated_outcome e c h tier =
     \<lparr>oc_response = \<lparr>rs_schema_version = SCHEMA_VERSION, rs_decision_id = ca_decision_id c,
        rs_decision = TerminateSession, rs_action_hash = h, rs_risk_score = 1, rs_confidence = 1,
        rs_reason_codes = [BehavioralAnomaly], rs_constraints = [], rs_obligations = [],
        rs_detector_results = [],
        rs_provenance = \<lparr>dp_policy_bundle_version = Some (ce_bundle_version e), dp_remit_version = None,
          dp_matched_policies = [], dp_deciding_stage = ''session_terminated'', dp_detector_versions = []\<rparr>,
        rs_capability = None, rs_approval_id = None, rs_evaluated_at = ca_started c,
        rs_latency_ms = elapsed_ms (ca_started c) (ca_finished c)\<rparr>,
      oc_action_hash = h, oc_taints = [], oc_causal_chain = [], oc_risk_contributions = [],
      oc_approval_request = None, oc_effective_tier = tier\<rparr>"

definition recorded_reasons :: "ReasonCode list \<Rightarrow> ReasonCode list" where
  "recorded_reasons cs =
     (let sorted = reason_sort_dedup cs in if sorted = [] then [Other ''NO_REASON_RECORDED''] else sorted)"

definition outcome_of ::
    "('sk, 'vk) core_env \<Rightarrow> core_call \<Rightarrow> ActionRequest \<Rightarrow> ContentHash \<Rightarrow> Evaluation \<Rightarrow> string option
      \<Rightarrow> ApprovalRequest option \<Rightarrow> DecisionOutcome" where
  "outcome_of e c r h ev capability approval =
     \<lparr>oc_response = \<lparr>rs_schema_version = SCHEMA_VERSION, rs_decision_id = ca_decision_id c,
        rs_decision = ev_decision ev, rs_action_hash = h, rs_risk_score = ra_risk (ev_assessment ev),
        rs_confidence = ra_confidence (ev_assessment ev), rs_reason_codes = recorded_reasons (ev_reasons ev),
        rs_constraints = pd_constraints (ev_policy ev), rs_obligations = pd_obligations (ev_policy ev),
        rs_detector_results = ev_detectors ev,
        rs_provenance = \<lparr>dp_policy_bundle_version = Some (pd_bundle_version (ev_policy ev)),
          dp_remit_version = snd (registry_evaluate (ce_remits e) (ar_agent_id r) (ar_action r)),
          dp_matched_policies = pd_matched_policies (ev_policy ev),
          dp_deciding_stage = deciding_stage (ev_decision ev) (pd_decision (ev_policy ev)) (ev_remit ev)
            (ev_budget ev) (ev_policy_failed ev),
          dp_detector_versions = map (\<lambda>d. (dr_detector_id d, dr_detector_version d)) (ev_detectors ev)\<rparr>,
        rs_capability = capability, rs_approval_id = map_option aq_approval_id approval,
        rs_evaluated_at = ca_started c, rs_latency_ms = elapsed_ms (ca_started c) (ca_finished c)\<rparr>,
      oc_action_hash = h, oc_taints = combined_taints e (ev_trace ev) (ar_action r),
      oc_causal_chain = tf_chain (ev_trace ev), oc_risk_contributions = ra_contributions (ev_assessment ev),
      oc_approval_request = approval, oc_effective_tier = action_tier e (ar_action r)\<rparr>"

text \<open>The effects after the decision: a capability and a charge, an approval request, or neither.\<close>

definition charge_session :: "('sk, 'vk) core_env \<Rightarrow> ActionRequest \<Rightarrow> ContentHash \<Rightarrow> SessionState \<Rightarrow> SessionState" where
  "charge_session e r h s = s\<lparr>ss_budget :=
     ledger_charge (action_kind (ar_action r)) (ch_hex h) (destination_host (ce_url e) (ce_marks e) (ar_action r))
       (estimated_cost (ar_action r)) (ss_budget s)\<rparr>"

definition conclude ::
    "('sk, 'vk) core_env \<Rightarrow> core_call \<Rightarrow> ActionRequest \<Rightarrow> ContentHash \<Rightarrow> string option \<Rightarrow> Evaluation
      \<Rightarrow> core_state \<Rightarrow> (core_error + (string option \<times> ApprovalRequest option)) \<times> core_state" where
  "conclude e c r h approval ev st =
     (if mints_capability (ev_decision ev) then
        (case issue (ce_crypto e) (ce_format e) (ce_issuer e) (ca_issued c) (ca_nonce c)
                (capability_claims_for c r h (snd (registry_evaluate (ce_remits e) (ar_agent_id r) (ar_action r)))
                   (ev_policy ev) approval)
                (co_capability_ttl_seconds (ce_config e)) of
           Inl err \<Rightarrow> (Inl (CapabilityFailed err), st)
         | Inr (token, _) \<Rightarrow>
             (case with_session (cs_sessions_poisoned st) (session_key_of r) (ca_started c)
                     (\<lambda>s. ((), charge_session e r h s)) (cs_sessions st) of
                (Inl err, sessions) \<Rightarrow> (Inl (SessionsFailed err), st\<lparr>cs_sessions := sessions\<rparr>)
              | (Inr _, sessions) \<Rightarrow> (Inr (Some token, None), st\<lparr>cs_sessions := sessions\<rparr>)))
      else if ev_decision ev = RequireApproval then
        (case raise_approval e c r h (ev_policy ev) (ev_assessment ev) (ev_reasons ev) (cs_approvals st) of
           (Inl err, svc) \<Rightarrow> (Inl err, st\<lparr>cs_approvals := svc\<rparr>)
         | (Inr q, svc) \<Rightarrow> (Inr (None, Some q), st\<lparr>cs_approvals := svc\<rparr>))
      else (Inr (None, None), st))"

definition verify_presented_approval ::
    "('sk, 'vk) core_env \<Rightarrow> core_call \<Rightarrow> ActionRequest \<Rightarrow> ContentHash \<Rightarrow> ApprovalService
      \<Rightarrow> string option \<times> ApprovalService" where
  "verify_presented_approval e c r h svc =
     (case rc_approval_token (ar_context r) of
        None \<Rightarrow> (None, svc)
      | Some token \<Rightarrow>
          (case redeem_approval (ce_approval_crypto e) (ca_redeemed c) token (ar_tenant_id r) (ar_agent_id r)
                  (ar_session_id r) h svc of
             (Inr i, svc') \<Rightarrow> (Some i, svc')
           | (Inl _, svc') \<Rightarrow> (None, svc')))"

definition pin_remit :: "('sk, 'vk) core_env \<Rightarrow> ActionRequest \<Rightarrow> SessionState \<Rightarrow> SessionState" where
  "pin_remit e r s =
     (if ss_remit_version s = None then
        (case snd (registry_evaluate (ce_remits e) (ar_agent_id r) (ar_action r)) of
           Some v \<Rightarrow> s\<lparr>ss_remit_version := Some v\<rparr> | None \<Rightarrow> s)
      else s)"

text \<open>The part of \<^verbatim>\<open>decide\<close> for a session that has not been terminated.\<close>

definition decide_live ::
    "('sk, 'vk) core_env \<Rightarrow> core_call \<Rightarrow> ActionRequest \<Rightarrow> ContentHash \<Rightarrow> core_state
      \<Rightarrow> (core_error + DecisionOutcome) \<times> core_state" where
  "decide_live e c r h st =
     (let k = session_key_of r; now = ca_started c; poisoned = cs_sessions_poisoned st
      in case with_session poisoned k now (\<lambda>s. (s, pin_remit e r s)) (cs_sessions st) of
           (Inl err, sessions) \<Rightarrow> (Inl (SessionsFailed err), st\<lparr>cs_sessions := sessions\<rparr>)
         | (Inr s, sessions) \<Rightarrow>
      (case with_session poisoned k now (\<lambda>s. (budget_verdict (limits_of e r) now (ch_hex h)
              (destination_host (ce_url e) (ce_marks e) (ar_action r)) (ss_budget s), s)) sessions of
           (Inl err, sessions) \<Rightarrow> (Inl (SessionsFailed err), st\<lparr>cs_sessions := sessions\<rparr>)
         | (Inr bv, sessions) \<Rightarrow>
      (let (approval, svc) = verify_presented_approval e c r h (cs_approvals st);
           seen = (case session_inspect poisoned k (\<lambda>s. s) sessions of Inl _ \<Rightarrow> None | Inr x \<Rightarrow> x);
           ev = evaluate_action e r h s seen bv (approval \<noteq> None)
       in case conclude e c r h approval ev \<lparr>cs_sessions = sessions, cs_sessions_poisoned = poisoned, cs_approvals = svc\<rparr> of
            (Inl err, st') \<Rightarrow> (Inl err, st')
          | (Inr (capability, request), st') \<Rightarrow>
              (case with_session (cs_sessions_poisoned st') k now
                      (\<lambda>s. ((), session_record h (ev_decision ev) s)) (cs_sessions st') of
                 (Inl err, sessions) \<Rightarrow> (Inl (SessionsFailed err), st'\<lparr>cs_sessions := sessions\<rparr>)
               | (Inr _, sessions) \<Rightarrow>
                   (Inr (outcome_of e c r h ev capability request), st'\<lparr>cs_sessions := sessions\<rparr>)))))"

definition decide ::
    "('sk, 'vk) core_env \<Rightarrow> core_call \<Rightarrow> AuthenticatedRequest \<Rightarrow> core_state
      \<Rightarrow> (core_error + DecisionOutcome) \<times> core_state" where
  "decide e c auth st =
     (let r = au_request auth
      in case request_validate r of
           Inl err \<Rightarrow> (Inl (RequestInvalid err), st)
         | Inr _ \<Rightarrow>
             (case check_identity (ce_config e) auth of
                Inl err \<Rightarrow> (Inl err, st)
              | Inr _ \<Rightarrow>
                  (case request_action_hash (ce_format e) (ce_sha e) r of
                     Inl err \<Rightarrow> (Inl (NotCanonical err), st)
                   | Inr h \<Rightarrow>
                       (case with_session (cs_sessions_poisoned st) (session_key_of r) (ca_started c) (\<lambda>s. (s, s))
                               (cs_sessions st) of
                          (Inl err, sessions) \<Rightarrow> (Inl (SessionsFailed err), st\<lparr>cs_sessions := sessions\<rparr>)
                        | (Inr s, sessions) \<Rightarrow>
                            let st = st\<lparr>cs_sessions := sessions\<rparr>
                            in if ss_terminated s
                               then (Inr (terminated_outcome e c h (action_tier e (ar_action r))), st)
                               else decide_live e c r h st))))"

section \<open>Lemmas\<close>

definition live_session :: "core_call \<Rightarrow> ActionRequest \<Rightarrow> core_state \<Rightarrow> SessionState" where
  "live_session c r st = session_at (cs_sessions st) (session_key_of r) (ca_started c)"

definition live_budget :: "('sk, 'vk) core_env \<Rightarrow> core_call \<Rightarrow> ActionRequest \<Rightarrow> ContentHash \<Rightarrow> core_state \<Rightarrow> BudgetVerdict" where
  "live_budget e c r h st =
     budget_verdict (limits_of e r) (ca_started c) (ch_hex h)
       (destination_host (ce_url e) (ce_marks e) (ar_action r)) (ss_budget (live_session c r st))"

definition live_approval :: "('sk, 'vk) core_env \<Rightarrow> core_call \<Rightarrow> ActionRequest \<Rightarrow> ContentHash \<Rightarrow> core_state \<Rightarrow> string option" where
  "live_approval e c r h st = fst (verify_presented_approval e c r h (cs_approvals st))"

definition live_evaluation :: "('sk, 'vk) core_env \<Rightarrow> core_call \<Rightarrow> ActionRequest \<Rightarrow> ContentHash \<Rightarrow> core_state \<Rightarrow> Evaluation" where
  "live_evaluation e c r h st =
     (let s = live_session c r st
      in evaluate_action e r h s (Some (pin_remit e r s)) (live_budget e c r h st) (live_approval e c r h st \<noteq> None))"

lemma pin_remit_simps [simp]:
  "ss_budget (pin_remit e r s) = ss_budget s" "ss_trace (pin_remit e r s) = ss_trace s"
  "ss_terminated (pin_remit e r s) = ss_terminated s"
  by (auto simp: pin_remit_def split: option.splits)

lemma session_update_pair:
  "session_update k now f st = (fst (f (session_at st k now)), snd (session_update k now f st))"
  by (simp add: prod_eq_iff session_update_result)

text \<open>The state in which the outcome takes effect: the session is pinned, a presented approval is spent.\<close>

definition live_state :: "('sk, 'vk) core_env \<Rightarrow> core_call \<Rightarrow> ActionRequest \<Rightarrow> ContentHash \<Rightarrow> core_state \<Rightarrow> core_state" where
  "live_state e c r h st =
     \<lparr>cs_sessions =
        snd (session_update (session_key_of r) (ca_started c) (\<lambda>s. (live_budget e c r h st, s))
          (snd (session_update (session_key_of r) (ca_started c) (\<lambda>s. (s, pin_remit e r s)) (cs_sessions st)))),
      cs_sessions_poisoned = cs_sessions_poisoned st,
      cs_approvals = snd (verify_presented_approval e c r h (cs_approvals st))\<rparr>"

lemma session_update_cong:
  "f (session_at st k now) = g (session_at st k now) \<Longrightarrow> session_update k now f st = session_update k now g st"
  by (simp add: session_update_def)

lemma conclude_sessions_poisoned: "cs_sessions_poisoned (snd (conclude e c r h ap ev st)) = cs_sessions_poisoned st"
  by (simp add: conclude_def split: sum.split prod.split)

lemma decide_live_unavailable: "cs_sessions_poisoned st \<Longrightarrow> \<exists>err st'. decide_live e c r h st = (Inl err, st')"
  by (simp add: decide_live_def with_session_poisoned Let_def)

lemma decide_live_unfold:
  assumes "\<not> cs_sessions_poisoned st"
  shows "decide_live e c r h st =
     (case conclude e c r h (live_approval e c r h st) (live_evaluation e c r h st) (live_state e c r h st) of
        (Inl err, st') \<Rightarrow> (Inl err, st')
      | (Inr (capability, request), st') \<Rightarrow>
          (Inr (outcome_of e c r h (live_evaluation e c r h st) capability request),
           st'\<lparr>cs_sessions := snd (session_update (session_key_of r) (ca_started c)
             (\<lambda>s. ((), session_record h (ev_decision (live_evaluation e c r h st)) s)) (cs_sessions st'))\<rparr>))"
proof -
  let ?k = "session_key_of r" and ?now = "ca_started c"
  let ?s = "live_session c r st"
  let ?bv = "\<lambda>s. budget_verdict (limits_of e r) ?now (ch_hex h)
      (destination_host (ce_url e) (ce_marks e) (ar_action r)) (ss_budget s)"
  obtain S1 where p1: "session_update ?k ?now (\<lambda>s. (s, pin_remit e r s)) (cs_sessions st) = (?s, S1)"
    using session_update_pair [of ?k ?now "\<lambda>s. (s, pin_remit e r s)" "cs_sessions st"] by (auto simp: live_session_def)
  have at1: "session_at S1 ?k t = pin_remit e r ?s" for t
    using session_at_session_update [of ?k ?k ?now "\<lambda>s. (s, pin_remit e r s)" "cs_sessions st" t]
    by (simp add: p1 live_session_def)
  have bv: "?bv (session_at S1 ?k ?now) = live_budget e c r h st"
    by (simp add: at1 live_budget_def)
  obtain S2 where p2: "session_update ?k ?now (\<lambda>s. (live_budget e c r h st, s)) S1 = (live_budget e c r h st, S2)"
    using session_update_pair [of ?k ?now "\<lambda>s. (live_budget e c r h st, s)" S1] by auto
  have p3: "session_update ?k ?now (\<lambda>s. (?bv s, s)) S1 = (live_budget e c r h st, S2)"
    using session_update_cong [of "\<lambda>s. (?bv s, s)" S1 ?k ?now "\<lambda>s. (live_budget e c r h st, s)"] bv p2 by simp
  have inspect: "session_inspect (cs_sessions_poisoned st) ?k (\<lambda>s. s) S2 = Inr (Some (pin_remit e r ?s))"
    using session_update_get [of ?k ?now "\<lambda>s. (live_budget e c r h st, s)" S1 "session_composite ?k"] assms
    by (simp add: session_inspect_def p2 at1)
  have w1: "with_session (cs_sessions_poisoned st) ?k ?now (\<lambda>s. (s, pin_remit e r s)) (cs_sessions st) = (Inr ?s, S1)"
    and w3: "with_session (cs_sessions_poisoned st) ?k ?now (\<lambda>s. (?bv s, s)) S1 = (Inr (live_budget e c r h st), S2)"
    by (simp_all add: with_session_open [OF assms] p1 p3)
  obtain ap svc where v: "verify_presented_approval e c r h (cs_approvals st) = (ap, svc)"
    by (cases "verify_presented_approval e c r h (cs_approvals st)")
  have "live_state e c r h st = \<lparr>cs_sessions = S2, cs_sessions_poisoned = cs_sessions_poisoned st, cs_approvals = svc\<rparr>"
    by (simp add: live_state_def p1 p2 v)
  moreover have "live_evaluation e c r h st =
      evaluate_action e r h ?s (Some (pin_remit e r ?s)) (live_budget e c r h st) (ap \<noteq> None)" "live_approval e c r h st = ap"
    by (simp_all add: live_evaluation_def live_approval_def v Let_def)
  ultimately have run: "decide_live e c r h st =
      (case conclude e c r h (live_approval e c r h st) (live_evaluation e c r h st) (live_state e c r h st) of
         (Inl err, st') \<Rightarrow> (Inl err, st')
       | (Inr (capability, request), st') \<Rightarrow>
           (case with_session (cs_sessions_poisoned st') ?k ?now
                   (\<lambda>s. ((), session_record h (ev_decision (live_evaluation e c r h st)) s)) (cs_sessions st') of
              (Inl err, sessions) \<Rightarrow> (Inl (SessionsFailed err), st'\<lparr>cs_sessions := sessions\<rparr>)
            | (Inr _, sessions) \<Rightarrow>
                (Inr (outcome_of e c r h (live_evaluation e c r h st) capability request), st'\<lparr>cs_sessions := sessions\<rparr>)))"
    by (simp only: decide_live_def Let_def w1 w3 prod.case sum.case inspect v)
  have kept: "\<not> cs_sessions_poisoned st'" if "conclude e c r h (live_approval e c r h st) (live_evaluation e c r h st)
      (live_state e c r h st) = (x, st')" for x st'
    using conclude_sessions_poisoned [of e c r h "live_approval e c r h st" "live_evaluation e c r h st" "live_state e c r h st"] assms that
    by (simp add: live_state_def)
  show ?thesis
    unfolding run by (auto simp: with_session_open kept split: prod.splits sum.splits)
qed

lemma conclude_ok:
  assumes "conclude e c r h ap ev st = (Inr (cap, req), st')"
  shows "(cap \<noteq> None \<longleftrightarrow> mints_capability (ev_decision ev)) \<and> (req \<noteq> None \<longleftrightarrow> ev_decision ev = RequireApproval)"
proof -
  have "\<not> mints_capability RequireApproval" by (simp add: mints_capability_def)
  then show ?thesis
    using assms by (auto simp: conclude_def split: if_splits sum.splits prod.splits)
qed

lemma conclude_capability:
  assumes "conclude e c r h ap ev st = (Inr (Some token, req), st')"
  shows "\<exists>claims. issue (ce_crypto e) (ce_format e) (ce_issuer e) (ca_issued c) (ca_nonce c)
     (capability_claims_for c r h (snd (registry_evaluate (ce_remits e) (ar_agent_id r) (ar_action r)))
        (ev_policy ev) ap) (co_capability_ttl_seconds (ce_config e)) = Inr (token, claims)"
  using assms by (auto simp: conclude_def split: if_splits sum.splits prod.splits)

text \<open>What the session of the request looks like after the effects of the outcome.\<close>

lemma conclude_sessions:
  assumes "conclude e c r h ap ev st = (Inr (cap, req), st')"
  shows "session_at (cs_sessions st') (session_key_of r) t =
     (if mints_capability (ev_decision ev) then charge_session e r h (session_at (cs_sessions st) (session_key_of r) (ca_started c))
      else session_at (cs_sessions st) (session_key_of r) t)"
  using assms
  by (cases "cs_sessions_poisoned st")
     (auto simp: conclude_def with_session_poisoned with_session_open session_at_session_update split: if_splits sum.splits prod.splits)

lemma decide_cases:
  assumes "decide e c auth st = (Inr oc, st')"
  obtains h where "request_validate (au_request auth) = Inr ()" "check_identity (ce_config e) auth = Inr ()"
    "request_action_hash (ce_format e) (ce_sha e) (au_request auth) = Inr h"
    "if ss_terminated (live_session c (au_request auth) st)
     then oc = terminated_outcome e c h (action_tier e (ar_action (au_request auth))) \<and>
          live_session c (au_request auth) st' = live_session c (au_request auth) st
     else \<exists>st1. decide_live e c (au_request auth) h st1 = (Inr oc, st') \<and> cs_approvals st1 = cs_approvals st \<and>
            (\<forall>t. session_at (cs_sessions st1) (session_key_of (au_request auth)) t = live_session c (au_request auth) st)"
proof -
  let ?r = "au_request auth"
  obtain S where w: "session_update (session_key_of ?r) (ca_started c) (\<lambda>s. (s, s)) (cs_sessions st) =
      (live_session c ?r st, S)"
    using session_update_pair [of "session_key_of ?r" "ca_started c" "\<lambda>s. (s, s)" "cs_sessions st"]
    by (auto simp: live_session_def)
  have at: "session_at S (session_key_of ?r) t = live_session c ?r st" for t
    using session_at_session_update [of "session_key_of ?r" "session_key_of ?r" "ca_started c" "\<lambda>s. (s, s)" "cs_sessions st" t]
    by (simp add: w live_session_def)
  obtain h where h: "request_validate ?r = Inr ()" "check_identity (ce_config e) auth = Inr ()"
    "request_action_hash (ce_format e) (ce_sha e) ?r = Inr h"
    using assms by (auto simp: decide_def Let_def split: sum.splits)
  have np: "\<not> cs_sessions_poisoned st"
    using assms h by (auto simp: decide_def Let_def with_session_poisoned)
  have ws: "with_session (cs_sessions_poisoned st) (session_key_of ?r) (ca_started c) (\<lambda>s. (s, s)) (cs_sessions st) =
      (Inr (live_session c ?r st), S)"
    by (simp add: with_session_open [OF np] w)
  have d: "(if ss_terminated (live_session c ?r st)
      then (Inr (terminated_outcome e c h (action_tier e (ar_action ?r))), st\<lparr>cs_sessions := S\<rparr>)
      else decide_live e c ?r h (st\<lparr>cs_sessions := S\<rparr>)) = (Inr oc, st')"
    using assms by (simp only: decide_def Let_def h ws sum.case prod.case)
  show thesis
  proof (rule that [OF h])
    show "if ss_terminated (live_session c ?r st)
     then oc = terminated_outcome e c h (action_tier e (ar_action ?r)) \<and>
          live_session c ?r st' = live_session c ?r st
     else \<exists>st1. decide_live e c ?r h st1 = (Inr oc, st') \<and> cs_approvals st1 = cs_approvals st \<and>
            (\<forall>t. session_at (cs_sessions st1) (session_key_of ?r) t = live_session c ?r st)"
    proof (cases "ss_terminated (live_session c ?r st)")
      case True
      then have "st' = st\<lparr>cs_sessions := S\<rparr>" "oc = terminated_outcome e c h (action_tier e (ar_action ?r))"
        using d by auto
      then show ?thesis using True at by (simp add: live_session_def)
    next
      case False
      then have "decide_live e c ?r h (st\<lparr>cs_sessions := S\<rparr>) = (Inr oc, st')" using d by simp
      then show ?thesis using False at by auto
    qed
  qed
qed

lemma live_cong:
  assumes "cs_approvals st1 = cs_approvals st" "live_session c r st1 = live_session c r st"
  shows "live_evaluation e c r h st1 = live_evaluation e c r h st" "live_approval e c r h st1 = live_approval e c r h st"
    "live_budget e c r h st1 = live_budget e c r h st"
  by (simp_all add: live_evaluation_def live_approval_def live_budget_def assms)

section \<open>The decision as a maximum\<close>

text \<open>
  The abstract account of a decision: every stage has a verdict, the strictest one stands, and the
  only thing an approval changes is a strictest verdict of exactly \<^const>\<open>RequireApproval\<close>.
\<close>

definition proposals :: "DetectorResult list \<Rightarrow> Decision list" where
  "proposals results = List.map_filter dr_proposed_escalation results"

definition verdicts :: "bool \<Rightarrow> bool \<Rightarrow> Evaluation \<Rightarrow> Decision list" where
  "verdicts needs approved ev =
     [pd_decision (ev_policy ev), ev_remit ev, ev_budget ev] @ proposals (ev_detectors ev) @
     (if (needs \<or> warrants_review (ev_assessment ev)) \<and> \<not> approved then [RequireApproval] else [])"

definition resolve :: "bool \<Rightarrow> Decision list \<Rightarrow> Decision" where
  "resolve approved vs =
     (let m = Max (set vs) in if approved \<and> m = RequireApproval then AllowWithConstraints else m)"

lemma fold_proposals_Max: "fold_proposals d results = Max (set (d # proposals results))"
proof (induction results arbitrary: d)
  case (Cons x xs)
  have "Max (set (max d p # ps)) = Max (set (d # p # ps))" for p ps
    by (cases "ps = []") (simp_all add: max.assoc)
  with Cons show ?case
    by (simp add: fold_proposals_def proposals_def map_filter_simps decision_combine_max split: option.splits)
qed (simp add: fold_proposals_def proposals_def map_filter_simps)

lemma final_decision_resolve:
  "final_decision (deterministic_decision pd remit budget) results needs review approved =
     resolve approved ([pd_decision pd, remit, budget] @ proposals results @
       (if (needs \<or> review) \<and> \<not> approved then [RequireApproval] else []))"
proof -
  let ?ps = "proposals results"
  have det: "Max (set (deterministic_decision pd remit budget # ?ps)) = Max (set ([pd_decision pd, remit, budget] @ ?ps))"
    by (cases "set ?ps = {}") (simp_all add: deterministic_decision_def decision_combine_max max.assoc)
  have extra: "Max (set (vs @ [RequireApproval])) = max (Max (set vs)) RequireApproval" if "vs \<noteq> []" for vs
    using that by (simp add: max.commute)
  define vs where "vs = [pd_decision pd, remit, budget] @ ?ps"
  have m: "fold_proposals (deterministic_decision pd remit budget) results = Max (set vs)"
    unfolding fold_proposals_Max det vs_def ..
  have ne: "vs \<noteq> []" by (simp add: vs_def)
  have "final_decision (deterministic_decision pd remit budget) results needs review approved =
      resolve approved (vs @ (if (needs \<or> review) \<and> \<not> approved then [RequireApproval] else []))"
    unfolding final_decision_def resolve_def Let_def m
    by (cases needs; cases review; cases approved; simp only: decision_combine_max extra [OF ne] if_True if_False
        simp_thms max.assoc max.idem append_Nil2)
  then show ?thesis unfolding vs_def by (simp only: append.assoc)
qed

lemma evaluation_resolve:
  "ev_decision (evaluate_action e r h s i bv approved) =
     resolve approved (verdicts (needs_approval e (ar_action r)) approved (evaluate_action e r h s i bv approved))"
  by (simp only: evaluate_action_def Let_def Evaluation.simps final_decision_resolve verdicts_def)

lemma resolve_ge: "v \<in> set vs \<Longrightarrow> Quarantine \<le> v \<Longrightarrow> v \<le> resolve approved vs"
proof -
  assume v: "v \<in> set vs" "Quarantine \<le> v"
  then have "v \<le> Max (set vs)" by simp
  moreover from this v have "Max (set vs) \<noteq> RequireApproval"
    by (cases v; cases "Max (set vs)") (auto simp: less_eq_Decision_def)
  ultimately show ?thesis by (simp add: resolve_def Let_def)
qed

lemma resolve_permits:
  assumes "permits_execution (resolve approved vs)" "vs \<noteq> []"
  shows "\<forall>v \<in> set vs. permits_execution v \<or> (approved \<and> v = RequireApproval)"
proof
  fix v
  assume "v \<in> set vs"
  then have "v \<le> Max (set vs)" by simp
  then show "permits_execution v \<or> (approved \<and> v = RequireApproval)"
    using assms(1) by (cases v; cases "Max (set vs)") (auto simp: resolve_def Let_def less_eq_Decision_def split: if_splits)
qed

section \<open>Stages that refuse\<close>

lemma remit_stage_deny:
  "forbidden_classes e r \<noteq> [] \<or> verdict_decision (co_allow_unregistered_agents (ce_config e))
     (fst (registry_evaluate (ce_remits e) (ar_agent_id r) (ar_action r))) = Deny \<Longrightarrow> Deny \<le> remit_stage e r"
proof -
  have start: "d \<le> foldl (\<lambda>d _. decision_combine d Deny) d xs" for d and xs :: "string list"
    by (induction xs arbitrary: d) (auto intro: order_trans le_decision_combine)
  have some: "Deny \<le> foldl (\<lambda>d _. decision_combine d Deny) d xs" if "xs \<noteq> []" for d and xs :: "string list"
    using that start [of "decision_combine d Deny" "tl xs"] le_decision_combine(2) [of Deny d]
    by (cases xs) (auto intro: order_trans)
  assume "forbidden_classes e r \<noteq> [] \<or> verdict_decision (co_allow_unregistered_agents (ce_config e))
     (fst (registry_evaluate (ce_remits e) (ar_agent_id r) (ar_action r))) = Deny"
  then show ?thesis
    using start [of Deny] some unfolding remit_stage_def by fastforce
qed

text \<open>A stage refuses the request: policy is unavailable or denies, the remit or its egress boundary denies, or the budget is spent.\<close>

definition refused_by_stage :: "('sk, 'vk) core_env \<Rightarrow> core_call \<Rightarrow> ActionRequest \<Rightarrow> ContentHash \<Rightarrow> core_state \<Rightarrow> bool" where
  "refused_by_stage e c r h st \<longleftrightarrow>
     (let s = live_session c r st;
          q = policy_request_of e r (session_findings e r s) (distinct_denials s) (live_approval e c r h st \<noteq> None)
      in ce_policy e q = None \<or> (\<exists>d. ce_policy e q = Some d \<and> Quarantine \<le> pd_decision d) \<or>
         verdict_decision (co_allow_unregistered_agents (ce_config e))
           (fst (registry_evaluate (ce_remits e) (ar_agent_id r) (ar_action r))) = Deny \<or>
         forbidden_classes e r \<noteq> [] \<or> live_budget e c r h st \<noteq> Within)"

lemma live_evaluation_simps:
  "ev_remit (live_evaluation e c r h st) = remit_stage e r"
  "ev_budget (live_evaluation e c r h st) = budget_decision (live_budget e c r h st)"
  "ev_policy (live_evaluation e c r h st) =
     policy_stage e (policy_request_of e r (session_findings e r (live_session c r st))
       (distinct_denials (live_session c r st)) (live_approval e c r h st \<noteq> None))"
  "ev_decision (live_evaluation e c r h st) =
     resolve (live_approval e c r h st \<noteq> None) (verdicts (needs_approval e (ar_action r)) (live_approval e c r h st \<noteq> None)
       (live_evaluation e c r h st))"
  unfolding live_evaluation_def Let_def
  by (rule evaluation_resolve | simp only: evaluate_action_def Let_def Evaluation.simps)+

lemma refused_by_stage_denied:
  assumes "refused_by_stage e c r h st"
  shows "Quarantine \<le> ev_decision (live_evaluation e c r h st)"
proof -
  let ?ev = "live_evaluation e c r h st"
  have q: "Quarantine \<le> Deny" by (simp add: less_eq_Decision_def)
  have "\<exists>v \<in> {pd_decision (ev_policy ?ev), ev_remit ?ev, ev_budget ?ev}. Quarantine \<le> v"
    using assms remit_stage_deny [of e r] q
    by (cases "live_budget e c r h st")
       (auto simp: refused_by_stage_def Let_def live_evaluation_simps policy_stage_def policy_unavailable_def
          fail_closed_def intro: order_trans)
  then obtain v where v: "v \<in> {pd_decision (ev_policy ?ev), ev_remit ?ev, ev_budget ?ev}" "Quarantine \<le> v" by blast
  then have "v \<in> set (verdicts (needs_approval e (ar_action r)) (live_approval e c r h st \<noteq> None) ?ev)"
    by (auto simp: verdicts_def)
  from resolve_ge [OF this v(2)] v(2) show ?thesis
    unfolding live_evaluation_simps(4) by (rule order_trans [rotated])
qed

section \<open>Sample inputs\<close>

definition sample_manifest :: ToolManifest where
  "sample_manifest = (manifest_conservative ''notes'')\<lparr>tm_side_effect := InternalRead,
     tm_impact := Tier0Observational, tm_approval_default := False, tm_synthetic := False\<rparr>"

definition sample_policy :: "Decision \<Rightarrow> PolicyDecision" where
  "sample_policy d = \<lparr>pd_decision = d, pd_matched_policies = [''p1''], pd_reason_codes = [PolicyAllow],
     pd_obligations = [], pd_constraints = [], pd_bundle_version = ''b1'', pd_severity = None\<rparr>"

definition sample_env_with :: "(unit, unit) crypto \<Rightarrow> PolicyDecision option \<Rightarrow> (unit, unit) core_env" where
  "sample_env_with k pd = \<lparr>ce_config = config_development, ce_policy = (\<lambda>q. pd), ce_bundle_version = ''b1'',
     ce_remits = [], ce_manifests = [(''notes'', sample_manifest)], ce_detectors = [],
     ce_issuer = \<lparr>ci_key_id = ''k1'', ci_key = ()\<rparr>, ce_crypto = k,
     ce_approval_crypto = sample_approval_crypto, ce_format = sample_format, ce_sha = (\<lambda>b. ''00''),
     ce_codec = sample_codec, ce_dlp = sample_dlp, ce_url = sample_url, ce_marks = sample_marks\<rparr>"

abbreviation sample_env :: "PolicyDecision option \<Rightarrow> (unit, unit) core_env" where
  "sample_env pd \<equiv> sample_env_with hex_crypto pd"

definition sample_core_call :: core_call where
  "sample_core_call = \<lparr>ca_started = 2, ca_redeemed = 2, ca_issued = 2, ca_requested = 2, ca_finished = 3,
     ca_capability_id = ''c1'', ca_nonce = ''n1'', ca_approval_id = ''ap2'', ca_decision_id = ''d1''\<rparr>"

definition sample_state :: core_state where
  "sample_state = \<lparr>cs_sessions = [], cs_sessions_poisoned = False, cs_approvals = approval_service_new\<rparr>"

definition sample_auth :: AuthenticatedRequest where
  "sample_auth = for_trusted_in_process_caller (sample_request (sample_tool_call ''notes'' ''read''))"

section \<open>Facts for the properties\<close>

lemma decide_live_ok:
  assumes "decide_live e c r h st = (Inr oc, st')"
  obtains cap req st2 where
    "conclude e c r h (live_approval e c r h st) (live_evaluation e c r h st) (live_state e c r h st) = (Inr (cap, req), st2)"
    "oc = outcome_of e c r h (live_evaluation e c r h st) cap req"
    "st' = st2\<lparr>cs_sessions := snd (session_update (session_key_of r) (ca_started c)
       (\<lambda>s. ((), session_record h (ev_decision (live_evaluation e c r h st)) s)) (cs_sessions st2))\<rparr>"
proof -
  have "\<not> cs_sessions_poisoned st" using assms decide_live_unavailable [of st e c r h] by auto
  from assms [unfolded decide_live_unfold [OF this]] that show thesis by (auto split: prod.splits sum.splits)
qed

text \<open>An answered request is either of a terminated session or went through the stages.\<close>

lemma decide_answer:
  assumes "decide e c auth st = (Inr oc, st')"
  obtains (terminated) h where "request_action_hash (ce_format e) (ce_sha e) (au_request auth) = Inr h"
      "ss_terminated (live_session c (au_request auth) st)"
      "oc = terminated_outcome e c h (action_tier e (ar_action (au_request auth)))"
      "live_session c (au_request auth) st' = live_session c (au_request auth) st"
  | (live) h st1 cap req st2 where "request_action_hash (ce_format e) (ce_sha e) (au_request auth) = Inr h"
      "\<not> ss_terminated (live_session c (au_request auth) st)"
      "conclude e c (au_request auth) h (live_approval e c (au_request auth) h st)
         (live_evaluation e c (au_request auth) h st) (live_state e c (au_request auth) h st1) = (Inr (cap, req), st2)"
      "\<forall>t. session_at (cs_sessions st1) (session_key_of (au_request auth)) t = live_session c (au_request auth) st"
      "oc = outcome_of e c (au_request auth) h (live_evaluation e c (au_request auth) h st) cap req"
      "st' = st2\<lparr>cs_sessions := snd (session_update (session_key_of (au_request auth)) (ca_started c)
         (\<lambda>s. ((), session_record h (ev_decision (live_evaluation e c (au_request auth) h st)) s)) (cs_sessions st2))\<rparr>"
proof -
  let ?r = "au_request auth"
  obtain h where h: "request_action_hash (ce_format e) (ce_sha e) ?r = Inr h" and
    cases: "if ss_terminated (live_session c ?r st)
     then oc = terminated_outcome e c h (action_tier e (ar_action ?r)) \<and> live_session c ?r st' = live_session c ?r st
     else \<exists>st1. decide_live e c ?r h st1 = (Inr oc, st') \<and> cs_approvals st1 = cs_approvals st \<and>
            (\<forall>t. session_at (cs_sessions st1) (session_key_of ?r) t = live_session c ?r st)"
    using decide_cases [OF assms] by metis
  show thesis
  proof (cases "ss_terminated (live_session c ?r st)")
    case True
    then show ?thesis using terminated h cases by simp
  next
    case False
    then obtain st1 where d: "decide_live e c ?r h st1 = (Inr oc, st')" "cs_approvals st1 = cs_approvals st"
      "\<forall>t. session_at (cs_sessions st1) (session_key_of ?r) t = live_session c ?r st"
      using cases by auto
    have "live_session c ?r st1 = live_session c ?r st" using d(3) by (simp add: live_session_def)
    note same = live_cong [OF d(2) this]
    from d(1) show ?thesis
      by (rule decide_live_ok) (use live [OF h False] d(3) same in metis)
  qed
qed

lemma live_state_session: "session_at (cs_sessions (live_state e c r h st)) (session_key_of r) t = pin_remit e r (live_session c r st)"
  by (simp add: live_state_def session_at_session_update live_session_def)

lemma live_state_approvals: "cs_approvals (live_state e c r h st) = snd (verify_presented_approval e c r h (cs_approvals st))"
  by (simp add: live_state_def)

lemma assess_unit: "0 \<le> ra_risk (assess i) \<and> ra_risk (assess i) \<le> 1 \<and> 0 \<le> ra_confidence (assess i) \<and> ra_confidence (assess i) \<le> 1"
proof -
  have "0 \<le> ra_risk (assess i) \<and> ra_risk (assess i) \<le> 1"
    unfolding assess_risk by (rule round_score_bounds) (use score_unit in auto)
  moreover have "0 \<le> ra_confidence (assess i) \<and> ra_confidence (assess i) \<le> 1"
    using round_score_bounds [of "confidence_of i"] confidence_unit [of i] by (simp add: assess_def Let_def)
  ultimately show ?thesis by simp
qed

lemma live_assessment: "\<exists>i. ev_assessment (live_evaluation e c r h st) = assess i"
  unfolding live_evaluation_def Let_def by (simp only: evaluate_action_def Let_def Evaluation.simps) blast

lemma recorded_reasons_nonempty [simp]: "recorded_reasons cs \<noteq> []"
  by (simp add: recorded_reasons_def Let_def)

lemma outcome_simps [simp]:
  "rs_decision (oc_response (outcome_of e c r h ev cap req)) = ev_decision ev"
  "rs_capability (oc_response (outcome_of e c r h ev cap req)) = cap"
  "rs_action_hash (oc_response (outcome_of e c r h ev cap req)) = h"
  "oc_approval_request (outcome_of e c r h ev cap req) = req"
  "rs_risk_score (oc_response (outcome_of e c r h ev cap req)) = ra_risk (ev_assessment ev)"
  "rs_confidence (oc_response (outcome_of e c r h ev cap req)) = ra_confidence (ev_assessment ev)"
  "rs_reason_codes (oc_response (outcome_of e c r h ev cap req)) = recorded_reasons (ev_reasons ev)"
  by (simp_all add: outcome_of_def)

lemma terminated_simps [simp]:
  "rs_decision (oc_response (terminated_outcome e c h t)) = TerminateSession"
  "rs_capability (oc_response (terminated_outcome e c h t)) = None"
  "oc_approval_request (terminated_outcome e c h t) = None"
  by (simp_all add: terminated_outcome_def)

end
