(* ===== verification/Decide.thy ===== *)
theory Decide
  imports Pipeline
begin

text \<open>
  What a decision of the pipeline guarantees: it is the strictest verdict of its stages, a capability
  exists exactly when execution is permitted, a refusing stage is never overridden, a terminated session
  stays closed, and every well-formed request is answered.
\<close>

section \<open>The answer\<close>

lemma issue_succeeds:
  "(\<exists>x. issue k nf issuer now nonce claims ttl = Inr x) \<longleftrightarrow>
     (\<exists>b. canonical_bytes nf (claims_value k (issued_claims now nonce claims ttl)) = Inr b)"
  by (auto simp: issue_def Let_def split: sum.splits)

lemma raise_succeeds:
  "(\<exists>q svc'. raise_approval e c r h pd ra codes svc = (Inr q, svc')) \<longleftrightarrow>
     required_roles (co_default_approver_roles (ce_config e)) (human_approvals (pd_obligations pd)) \<noteq> [] \<and> \<not> as_poisoned svc"
  by (simp add: raise_approval_def request_approval_def Let_def)

text \<open>When the effects of an outcome succeed.\<close>

lemma conclude_answers:
  assumes "\<not> cs_sessions_poisoned st"
  shows "(\<exists>x st'. conclude e c r h ap ev st = (Inr x, st')) \<longleftrightarrow>
    (mints_capability (ev_decision ev) \<longrightarrow>
       (\<exists>b. canonical_bytes (ce_format e) (claims_value (ce_crypto e) (issued_claims (ca_issued c) (ca_nonce c)
          (capability_claims_for c r h (snd (registry_evaluate (ce_remits e) (ar_agent_id r) (ar_action r))) (ev_policy ev) ap)
          (co_capability_ttl_seconds (ce_config e)))) = Inr b)) \<and>
    (ev_decision ev = RequireApproval \<longrightarrow>
       required_roles (co_default_approver_roles (ce_config e)) (human_approvals (pd_obligations (ev_policy ev))) \<noteq> [] \<and>
       \<not> as_poisoned (cs_approvals st))"
proof -
  have excl: "\<not> mints_capability RequireApproval" by (simp add: mints_capability_def)
  show ?thesis
  proof (cases "mints_capability (ev_decision ev)")
    case True
    let ?issued = "issue (ce_crypto e) (ce_format e) (ce_issuer e) (ca_issued c) (ca_nonce c)
      (capability_claims_for c r h (snd (registry_evaluate (ce_remits e) (ar_agent_id r) (ar_action r))) (ev_policy ev) ap)
      (co_capability_ttl_seconds (ce_config e))"
    have "(\<exists>x st'. conclude e c r h ap ev st = (Inr x, st')) \<longleftrightarrow> (\<exists>x. ?issued = Inr x)"
      using True by (cases ?issued) (auto simp: conclude_def with_session_open [OF assms])
    moreover have "ev_decision ev \<noteq> RequireApproval" using True excl by metis
    ultimately show ?thesis using True by (simp only: issue_succeeds simp_thms)
  next
    case False
    then show ?thesis
      unfolding raise_succeeds [of e c r h "ev_policy ev" "ev_assessment ev" "ev_reasons ev" "cs_approvals st", symmetric]
      by (auto simp: conclude_def split: sum.splits prod.splits)
  qed
qed

lemma redeem_poisoned: "as_poisoned (snd (redeem_approval k now token tenant agent session h svc)) = as_poisoned svc"
  by (auto simp: redeem_approval_def set_approval_def Let_def
      split: sum.splits option.splits prod.splits ApprovalState.splits)

lemma presented_poisoned: "as_poisoned (snd (verify_presented_approval e c r h svc)) = as_poisoned svc"
proof -
  have "as_poisoned svc' = as_poisoned svc"
    if "redeem_approval (ce_approval_crypto e) (ca_redeemed c) token (ar_tenant_id r) (ar_agent_id r)
          (ar_session_id r) h svc = (x, svc')" for token x svc'
    using redeem_poisoned [of "ce_approval_crypto e" "ca_redeemed c" token] that by (metis snd_conv)
  then show ?thesis
    unfolding verify_presented_approval_def by (auto split: option.splits sum.splits prod.splits)
qed

text \<open>The requests that are answered.\<close>

lemma decide_answered:
  assumes "request_action_hash (ce_format e) (ce_sha e) (au_request auth) = Inr h"
  shows "(\<exists>oc st'. decide e c auth st = (Inr oc, st')) \<longleftrightarrow>
    request_validate (au_request auth) = Inr () \<and> check_identity (ce_config e) auth = Inr () \<and> \<not> cs_sessions_poisoned st \<and>
    (ss_terminated (live_session c (au_request auth) st) \<or>
     (\<exists>x st'. conclude e c (au_request auth) h (live_approval e c (au_request auth) h st) (live_evaluation e c (au_request auth) h st)
        (live_state e c (au_request auth) h st) = (Inr x, st')))"
proof (cases "request_validate (au_request auth) = Inr () \<and> check_identity (ce_config e) auth = Inr () \<and> \<not> cs_sessions_poisoned st")
  case False
  then show ?thesis
    using assms by (auto simp: decide_def Let_def with_session_poisoned split: sum.splits)
next
  case ok: True
  let ?r = "au_request auth"
  let ?st = "st\<lparr>cs_sessions := snd (session_update (session_key_of ?r) (ca_started c) (\<lambda>s. (s, s)) (cs_sessions st))\<rparr>"
  have w: "with_session (cs_sessions_poisoned st) (session_key_of ?r) (ca_started c) (\<lambda>s. (s, s)) (cs_sessions st) =
      (Inr (live_session c ?r st), cs_sessions ?st)"
    using ok by (simp add: with_session_open session_update_result live_session_def)
  have d: "decide e c auth st =
      (if ss_terminated (live_session c ?r st) then (Inr (terminated_outcome e c h (action_tier e (ar_action ?r))), ?st)
       else decide_live e c ?r h ?st)"
    by (simp only: decide_def Let_def conjunct1 [OF ok] conjunct1 [OF conjunct2 [OF ok]] assms w sum.case prod.case) simp
  have np: "\<not> cs_sessions_poisoned ?st" using ok by simp
  have at: "live_session c ?r ?st = live_session c ?r st" by (simp add: live_session_def session_at_session_update)
  have same: "live_approval e c ?r h ?st = live_approval e c ?r h st" "live_evaluation e c ?r h ?st = live_evaluation e c ?r h st"
    using live_cong [OF _ at, of e h] by simp_all
  have flags: "cs_sessions_poisoned (live_state e c ?r h s) = cs_sessions_poisoned s"
    "cs_approvals (live_state e c ?r h s) = snd (verify_presented_approval e c ?r h (cs_approvals s))" for s
    by (simp_all add: live_state_def)
  have live: "(\<exists>oc st'. decide_live e c ?r h ?st = (Inr oc, st')) \<longleftrightarrow>
      (\<exists>x st'. conclude e c ?r h (live_approval e c ?r h st) (live_evaluation e c ?r h st) (live_state e c ?r h ?st) = (Inr x, st'))"
    unfolding decide_live_unfold [OF np] same by (auto split: sum.splits prod.splits)
  have "(\<exists>oc st'. decide_live e c ?r h ?st = (Inr oc, st')) \<longleftrightarrow>
      (\<exists>x st'. conclude e c ?r h (live_approval e c ?r h st) (live_evaluation e c ?r h st) (live_state e c ?r h st) = (Inr x, st'))"
    unfolding live using ok by (subst (1 2) conclude_answers) (simp_all add: flags)
  then show ?thesis using ok by (simp add: d)
qed

lemma decide_returns:
  assumes "request_validate (au_request auth) = Inr ()" "check_identity (ce_config e) auth = Inr ()"
    and "request_action_hash (ce_format e) (ce_sha e) (au_request auth) = Inr h"
    and "\<And>claims. \<exists>b. canonical_bytes (ce_format e) (claims_value (ce_crypto e) claims) = Inr b"
    and "\<And>q. required_roles (co_default_approver_roles (ce_config e))
           (human_approvals (pd_obligations (policy_stage e q))) \<noteq> []"
    and "\<not> as_poisoned (cs_approvals st) \<and> \<not> cs_sessions_poisoned st"
  obtains oc st' where "decide e c auth st = (Inr oc, st')"
proof -
  have np: "\<not> cs_sessions_poisoned (live_state e c (au_request auth) h st)" using assms(6) by (simp add: live_state_def)
  have "\<exists>x st'. conclude e c (au_request auth) h (live_approval e c (au_request auth) h st) (live_evaluation e c (au_request auth) h st)
        (live_state e c (au_request auth) h st) = (Inr x, st')"
    unfolding conclude_answers [OF np] live_evaluation_simps(3) live_state_approvals presented_poisoned using assms(4-6) by blast
  then have "\<exists>oc st'. decide e c auth st = (Inr oc, st')" using decide_answered [OF assms(3)] assms by blast
  with that show thesis by blast
qed

section \<open>A terminated session stays closed\<close>

definition closed :: "SessionKey \<Rightarrow> SessionStore \<Rightarrow> bool" where
  "closed k S \<longleftrightarrow> (\<exists>s. hm_get S (session_composite k) = Some s \<and> ss_terminated s)"

lemma closed_session: "closed k S \<Longrightarrow> ss_terminated (session_at S k t)"
  by (auto simp: closed_def session_at_def)

lemma closed_session_update:
  assumes "closed k S" "\<And>s. ss_terminated s \<Longrightarrow> ss_terminated (snd (f s))"
  shows "closed k (snd (session_update k' now f S))"
  using assms(1) assms(2) [OF closed_session [OF assms(1), of now]]
  by (auto simp: closed_def session_update_get session_at_def)

lemma closed_with_session:
  assumes "closed k S" "\<And>s. ss_terminated s \<Longrightarrow> ss_terminated (snd (f s))"
  shows "closed k (snd (with_session poisoned k' now f S))"
  using assms closed_session_update [OF assms] by (cases poisoned) (simp_all add: with_session_poisoned with_session_open)

lemma closed_conclude:
  assumes "closed k (cs_sessions st)"
  shows "closed k (cs_sessions (snd (conclude e c r h ap ev st)))"
proof -
  have "closed k S" if "with_session p k' now (\<lambda>s. ((), charge_session e r h s)) (cs_sessions st) = (x, S)" for p k' now x S
    using closed_with_session [OF assms, of "\<lambda>s. ((), charge_session e r h s)" p k' now] that by (simp add: charge_session_def)
  then show ?thesis using assms by (auto simp: conclude_def split: sum.splits prod.splits)
qed

lemma closed_decide_live:
  assumes "closed k (cs_sessions st)"
  shows "closed k (cs_sessions (snd (decide_live e c r h st)))"
proof (cases "cs_sessions_poisoned st")
  case True
  then show ?thesis using assms by (simp add: decide_live_def with_session_poisoned Let_def)
next
  case False
  have "closed k (cs_sessions (live_state e c r h st))"
    by (simp add: live_state_def) (intro closed_session_update assms; simp)
  from closed_conclude [OF this]
  have "closed k (cs_sessions (snd (conclude e c r h (live_approval e c r h st) (live_evaluation e c r h st) (live_state e c r h st))))" .
  then show ?thesis
    unfolding decide_live_unfold [OF False] by (auto split: prod.splits sum.splits intro!: closed_session_update)
qed

lemma closed_decide:
  assumes "closed k (cs_sessions st)"
  shows "closed k (cs_sessions (snd (decide e c auth st)))"
proof -
  obtain s S where w: "with_session (cs_sessions_poisoned st) (session_key_of (au_request auth)) (ca_started c) (\<lambda>s. (s, s)) (cs_sessions st) = (s, S)"
    by fastforce
  with closed_with_session [OF assms, of "\<lambda>s. (s, s)"] have "closed k S" by (metis snd_conv)
  then show ?thesis
    using closed_decide_live [of k "st\<lparr>cs_sessions := S\<rparr>"] assms
    by (auto simp: decide_def Let_def w split: sum.splits)
qed

text \<open>Any number of decisions, each under its own configuration, clock readings and identifiers.\<close>

primrec decide_run :: "(('sk, 'vk) core_env \<times> core_call \<times> AuthenticatedRequest) list \<Rightarrow> core_state \<Rightarrow> core_state" where
  "decide_run [] st = st"
| "decide_run (x # xs) st = (case x of (e, c, auth) \<Rightarrow> decide_run xs (snd (decide e c auth st)))"

lemma closed_run: "closed k (cs_sessions st) \<Longrightarrow> closed k (cs_sessions (decide_run xs st))"
proof (induction xs arbitrary: st)
  case (Cons x xs)
  then show ?case by (cases x) (simp add: closed_decide)
qed simp

lemma terminated_closes:
  assumes "decide e c auth st = (Inr oc, st')" "rs_decision (oc_response oc) = TerminateSession"
  shows "closed (session_key_of (au_request auth)) (cs_sessions st')"
  using assms(1)
proof (cases rule: decide_answer)
  case (terminated h)
  have "hm_get (cs_sessions st') (session_composite (session_key_of (au_request auth))) \<noteq> None"
    using terminated(2,4) by (auto simp: live_session_def session_at_def session_new_def split: option.splits)
  then show ?thesis
    using terminated(2,4) by (auto simp: closed_def live_session_def session_at_def)
next
  case (live h st1 cap req st2)
  then show ?thesis using assms(2) by (simp add: closed_def session_update_get terminates_session_def)
qed

lemma request_poisoned: "as_poisoned (snd (request_approval now i tenant agent session p h preview roles ttl svc)) = as_poisoned svc"
  by (simp add: request_approval_def Let_def)

lemma raise_poisoned: "as_poisoned (snd (raise_approval e c r h pd ra codes svc)) = as_poisoned svc"
proof -
  have "as_poisoned svc' = as_poisoned svc"
    if "request_approval now i tenant agent session p h preview roles ttl svc = (x, svc')"
    for now i tenant agent session p preview roles ttl x svc'
    using request_poisoned [of now i tenant agent session p h preview roles ttl svc] that by simp
  then show ?thesis by (simp add: raise_approval_def Let_def split: prod.splits sum.splits)
qed

lemma conclude_poisoned: "as_poisoned (cs_approvals (snd (conclude e c r h ap ev st))) = as_poisoned (cs_approvals st)"
proof -
  have "as_poisoned svc' = as_poisoned svc" if "raise_approval e c r h pd ra codes svc = (x, svc')" for pd ra codes svc x svc'
    using raise_poisoned [of e c r h pd ra codes svc] that by simp
  then show ?thesis by (auto simp: conclude_def split: prod.splits sum.splits)
qed

lemma decide_live_poisoned: "as_poisoned (cs_approvals (snd (decide_live e c r h st))) = as_poisoned (cs_approvals st)"
proof (cases "cs_sessions_poisoned st")
  case True
  then show ?thesis by (simp add: decide_live_def with_session_poisoned Let_def)
next
  case False
  have "as_poisoned (cs_approvals st') = as_poisoned (cs_approvals st)"
    if "conclude e c r h (live_approval e c r h st) (live_evaluation e c r h st) (live_state e c r h st) = (x, st')" for x st'
    using conclude_poisoned [of e c r h "live_approval e c r h st" "live_evaluation e c r h st" "live_state e c r h st"] that
    by (simp add: live_state_approvals presented_poisoned)
  then show ?thesis by (simp add: decide_live_unfold [OF False] split: prod.splits sum.splits)
qed

lemma decide_live_lock: "cs_sessions_poisoned (snd (decide_live e c r h st)) = cs_sessions_poisoned st"
proof (cases "cs_sessions_poisoned st")
  case True
  then show ?thesis by (simp add: decide_live_def with_session_poisoned Let_def)
next
  case False
  have "cs_sessions_poisoned st' = cs_sessions_poisoned st"
    if "conclude e c r h (live_approval e c r h st) (live_evaluation e c r h st) (live_state e c r h st) = (x, st')" for x st'
    using conclude_sessions_poisoned [of e c r h "live_approval e c r h st" "live_evaluation e c r h st" "live_state e c r h st"] that
    by (simp add: live_state_def)
  then show ?thesis by (simp add: decide_live_unfold [OF False] split: prod.splits sum.splits)
qed

lemma decide_lock: "cs_sessions_poisoned (snd (decide e c auth st)) = cs_sessions_poisoned st"
  by (simp add: decide_def Let_def decide_live_lock split: prod.splits sum.splits)

lemma decide_poisoned: "as_poisoned (cs_approvals (snd (decide e c auth st))) = as_poisoned (cs_approvals st)"
  by (simp add: decide_def Let_def decide_live_poisoned split: prod.splits sum.splits)

section \<open>A sample decision\<close>

lemma sample_ready:
  "request_validate (au_request sample_auth) = Inr ()" "check_identity config_development sample_auth = Inr ()"
  "request_action_hash sample_format (\<lambda>b. ''00'') (au_request sample_auth) = Inr sample_hash"
  by code_simp+

lemma sample_env_simps [simp]:
  "ce_config (sample_env_with k pd) = config_development" "ce_format (sample_env_with k pd) = sample_format"
  "ce_sha (sample_env_with k pd) = (\<lambda>b. ''00'')" "ce_crypto (sample_env_with k pd) = k"
  "ce_issuer (sample_env_with k pd) = \<lparr>ci_key_id = ''k1'', ci_key = ()\<rparr>" "ce_detectors (sample_env_with k pd) = []"
  "ce_policy (sample_env_with k pd) q = pd" "ce_approval_crypto (sample_env_with k pd) = sample_approval_crypto"
  by (simp_all add: sample_env_with_def)

lemma sample_answers_with:
  assumes "\<not> as_poisoned (cs_approvals st) \<and> \<not> cs_sessions_poisoned st" "claims_value k = (\<lambda>c. JNull)"
  obtains oc st' where "decide (sample_env_with k (Some (sample_policy d))) sample_core_call sample_auth st = (Inr oc, st')"
proof -
  let ?e = "sample_env_with k (Some (sample_policy d))"
  have "required_roles (co_default_approver_roles (ce_config ?e)) (human_approvals (pd_obligations (policy_stage ?e q))) \<noteq> []" for q
    by (simp add: sample_env_with_def sample_policy_def policy_stage_def human_approvals_def required_roles_def
        config_development_def config_default_def map_filter_simps)
  moreover have "\<exists>b. canonical_bytes (ce_format ?e) (claims_value (ce_crypto ?e) claims) = Inr b" for claims
    by (simp add: assms(2) canonical_bytes_def canonicalize_def)
  ultimately show thesis
    by (intro decide_returns [of sample_auth ?e sample_hash st, OF _ _ _ _ _ assms(1) that]) (simp_all add: sample_ready)
qed

lemma hex_claims_value: "claims_value hex_crypto = (\<lambda>c. JNull)"
  by (simp add: hex_crypto_def sample_crypto_def)

lemma sample_answers_from:
  assumes "\<not> as_poisoned (cs_approvals st) \<and> \<not> cs_sessions_poisoned st"
  obtains oc st' where "decide (sample_env (Some (sample_policy d))) sample_core_call sample_auth st = (Inr oc, st')"
  using sample_answers_with [OF assms hex_claims_value] .

lemma sample_state_usable: "\<not> as_poisoned (cs_approvals sample_state) \<and> \<not> cs_sessions_poisoned sample_state"
  by (simp add: sample_state_def approval_service_new_def)

lemma sample_answers:
  obtains oc st' where "decide (sample_env (Some (sample_policy d))) sample_core_call sample_auth sample_state = (Inr oc, st')"
  using sample_answers_from [OF sample_state_usable] .

lemma sample_not_poisoned:
  assumes "decide e c auth sample_state = (x, st')"
  shows "\<not> as_poisoned (cs_approvals st') \<and> \<not> cs_sessions_poisoned st'"
  using decide_poisoned [of e c auth sample_state] decide_lock [of e c auth sample_state] assms by (simp add: sample_state_def approval_service_new_def)

lemma sample_token: "rc_approval_token (ar_context (au_request sample_auth)) = None"
  by code_simp

lemma sample_open: "\<not> ss_terminated (live_session sample_core_call (au_request sample_auth) sample_state)"
  "live_approval (sample_env_with k pd) sample_core_call (au_request sample_auth) sample_hash sample_state = None"
  by (simp_all add: live_session_def session_at_def sample_state_def session_new_def live_approval_def
      verify_presented_approval_def sample_token)

lemma sample_session: "live_session sample_core_call (au_request sample_auth) sample_state =
    session_new (session_key_of (au_request sample_auth)) 2"
  by (simp add: live_session_def session_at_def sample_state_def sample_core_call_def)

lemma sample_verdicts:
  "verdicts (needs_approval (sample_env_with k (Some (sample_policy Allow))) (ar_action (au_request sample_auth))) False
     (live_evaluation (sample_env_with k (Some (sample_policy Allow))) sample_core_call (au_request sample_auth) sample_hash sample_state) =
   [Allow, Allow, Allow]"
proof -
  let ?e = "sample_env_with k (Some (sample_policy Allow))" and ?r = "au_request sample_auth"
  have 1: "\<not> needs_approval ?e (ar_action ?r)" "remit_stage ?e ?r = Allow"
    "live_budget ?e sample_core_call ?r sample_hash sample_state = Within"
    "session_findings ?e ?r (live_session sample_core_call ?r sample_state) = findings_default"
    "distinct_denials (live_session sample_core_call ?r sample_state) = 0"
    "\<not> was_denied_before (live_session sample_core_call ?r sample_state) sample_hash"
    by code_simp+
  have 2: "ra_risk (assess (risk_inputs ?e ?r findings_default 0 False False [])) < 6/10"
    by code_simp
  have det: "detector_stage ?e d x = []" for d x
    by (simp add: detector_stage_def run_all_def)
  have "ev_assessment (live_evaluation ?e sample_core_call ?r sample_hash sample_state) =
      assess (risk_inputs ?e ?r findings_default 0 False False [])"
    "ev_detectors (live_evaluation ?e sample_core_call ?r sample_hash sample_state) = []"
    using 1 by (simp_all add: live_evaluation_def Let_def evaluate_action_def sample_open(2) det)
  moreover have "pd_decision (ev_policy (live_evaluation ?e sample_core_call ?r sample_hash sample_state)) = Allow"
    by (simp add: live_evaluation_simps policy_stage_def sample_policy_def)
  ultimately show ?thesis
    using 1 2 by (simp add: verdicts_def live_evaluation_simps proposals_def map_filter_simps warrants_review_def REVIEW_THRESHOLD_def)
qed

lemma live_allowed:
  assumes "decide e c auth st = (Inr oc, st')" "rs_capability (oc_response oc) = Some token"
  obtains h claims where "request_action_hash (ce_format e) (ce_sha e) (au_request auth) = Inr h"
    "\<not> ss_terminated (live_session c (au_request auth) st)"
    "permits_execution (ev_decision (live_evaluation e c (au_request auth) h st))"
    "issue (ce_crypto e) (ce_format e) (ce_issuer e) (ca_issued c) (ca_nonce c)
       (capability_claims_for c (au_request auth) h
          (snd (registry_evaluate (ce_remits e) (ar_agent_id (au_request auth)) (ar_action (au_request auth))))
          (ev_policy (live_evaluation e c (au_request auth) h st)) (live_approval e c (au_request auth) h st))
       (co_capability_ttl_seconds (ce_config e)) = Inr (token, claims)"
  using assms(1)
proof (cases rule: decide_answer)
  case (terminated h)
  then show ?thesis using assms(2) by simp
next
  case (live h st1 cap req st2)
  have cap: "cap = Some token" using live(5) assms(2) by simp
  from conclude_capability [OF live(3) [unfolded cap]] conclude_ok [OF live(3)] cap live(1,2) that
  show ?thesis by (auto simp: mints_capability_def)
qed

lemma decide_capability_permits:
  assumes "decide e c auth st = (Inr oc, st')" "rs_capability (oc_response oc) \<noteq> None"
  shows "permits_execution (rs_decision (oc_response oc))"
  using assms(1)
proof (cases rule: decide_answer)
  case (terminated h)
  then show ?thesis using assms(2) by simp
next
  case (live h st1 cap req st2)
  then show ?thesis using conclude_ok [OF live(3)] assms(2) by (simp add: mints_capability_def)
qed

lemma unchanged_denials [simp]: "ss_denied_action_hashes (pin_remit e r s) = ss_denied_action_hashes s"
  by (auto simp: pin_remit_def split: option.splits)

lemma sample_allowed:
  assumes "decide (sample_env_with k (Some (sample_policy Allow))) sample_core_call sample_auth sample_state = (Inr oc, st')"
  obtains token where "rs_capability (oc_response oc) = Some token"
  using assms
proof (cases rule: decide_answer)
  case (terminated h)
  then show ?thesis using sample_open(1) by simp
next
  case (live h st1 cap req st2)
  have "h = sample_hash" using live(1) sample_ready(3) by simp
  then have "ev_decision (live_evaluation (sample_env_with k (Some (sample_policy Allow))) sample_core_call (au_request sample_auth) h sample_state) = Allow"
    using live_evaluation_simps(4) [of "sample_env_with k (Some (sample_policy Allow))" sample_core_call "au_request sample_auth" sample_hash sample_state]
    by (simp add: sample_open sample_verdicts resolve_def)
  then show ?thesis using conclude_ok [OF live(3)] live(5) that by (auto simp: mints_capability_def)
qed

lemma sample_terminates:
  assumes "decide (sample_env_with k (Some (sample_policy TerminateSession))) sample_core_call sample_auth sample_state = (Inr oc, st')"
  shows "rs_decision (oc_response oc) = TerminateSession"
  using assms
proof (cases rule: decide_answer)
  case (live h st1 cap req st2)
  let ?e = "sample_env_with k (Some (sample_policy TerminateSession))" and ?r = "au_request sample_auth"
  let ?ev = "live_evaluation ?e sample_core_call ?r h sample_state"
  have "TerminateSession \<in> set (verdicts (needs_approval ?e (ar_action ?r))
      (live_approval ?e sample_core_call ?r h sample_state \<noteq> None) ?ev)"
    by (simp add: verdicts_def live_evaluation_simps policy_stage_def sample_policy_def)
  from resolve_ge [OF this] have "TerminateSession \<le> ev_decision ?ev"
    unfolding live_evaluation_simps(4) by (simp add: less_eq_Decision_def)
  then have "ev_decision ?ev = TerminateSession" by (cases "ev_decision ?ev") (simp_all add: less_eq_Decision_def)
  with live(5) show ?thesis by simp
qed simp

section \<open>Properties\<close>

text \<open>
  C2: for a session that is not terminated the decision is the strictest verdict of the policy, the
  remit, the budget, the detectors and the review rules; a redeemed approval changes it only when the
  strictest verdict is exactly \<^verbatim>\<open>RequireApproval\<close>, and then to a constrained permission.
\<close>

theorem decide_strictest:
  assumes "decide e c auth st = (Inr oc, st')"
    and "\<not> ss_terminated (live_session c (au_request auth) st)"
  shows "\<exists>h. request_action_hash (ce_format e) (ce_sha e) (au_request auth) = Inr h \<and>
     (let approved = live_approval e c (au_request auth) h st \<noteq> None;
          ev = live_evaluation e c (au_request auth) h st
      in rs_decision (oc_response oc) =
           resolve approved (verdicts (needs_approval e (ar_action (au_request auth))) approved ev))"
  using assms(1)
proof (cases rule: decide_answer)
  case (terminated h)
  then show ?thesis using assms(2) by simp
next
  case (live h st1 cap req st2)
  then show ?thesis unfolding Let_def live_evaluation_simps(4) [symmetric] by auto
qed

theorem decide_strictest_witness:
  "\<exists>oc st'. decide (sample_env (Some (sample_policy Allow))) sample_core_call sample_auth sample_state = (Inr oc, st') \<and>
     rs_decision (oc_response oc) = Allow"
proof -
  obtain oc st' where d: "decide (sample_env (Some (sample_policy Allow))) sample_core_call sample_auth sample_state = (Inr oc, st')"
    by (rule sample_answers)
  from decide_strictest [OF d sample_open(1)] have "rs_decision (oc_response oc) = resolve False [Allow, Allow, Allow]"
    by (simp add: sample_ready sample_open sample_verdicts)
  with d show ?thesis by (auto simp: resolve_def)
qed

text \<open>
  C6: every answer is coherent. It carries a capability exactly when its decision permits execution and
  an approval request exactly when it asks for one; its scores lie in the unit interval and it names a
  reason. The session's budget is charged exactly for permitted actions, and the denial memory, the
  terminated flag and nothing else of the history record the decision.
\<close>

theorem decide_effects:
  assumes "decide e c auth st = (Inr oc, st')"
  defines "r \<equiv> au_request auth" and "d \<equiv> rs_decision (oc_response oc)"
  shows "is_coherent (oc_response oc) \<and>
     (rs_capability (oc_response oc) \<noteq> None \<longleftrightarrow> permits_execution d) \<and>
     (oc_approval_request oc \<noteq> None \<longleftrightarrow> d = RequireApproval) \<and>
     (let s = live_session c r st; s' = live_session c r st' in
        ss_budget s' = (if permits_execution d
          then ledger_charge (action_kind (ar_action r)) (ch_hex (rs_action_hash (oc_response oc)))
                 (destination_host (ce_url e) (ce_marks e) (ar_action r)) (estimated_cost (ar_action r)) (ss_budget s)
          else ss_budget s) \<and>
        (ss_terminated s' \<longleftrightarrow> d = TerminateSession) \<and> ss_trace s' = ss_trace s \<and>
        set (ss_denied_action_hashes s') =
          set (ss_denied_action_hashes s) \<union>
            (if permits_execution d \<or> ss_terminated s then {} else {ch_hex (rs_action_hash (oc_response oc))}))"
  using assms(1)
proof (cases rule: decide_answer)
  case (terminated h)
  then show ?thesis
    by (simp add: r_def d_def is_coherent_def terminated_outcome_def mints_capability_def)
next
  case (live h st1 cap req st2)
  let ?ev = "live_evaluation e c r h st"
  have at1: "live_session c r st1 = live_session c r st"
    using live(4) by (simp add: live_session_def r_def)
  have s': "live_session c r st' = session_record h (ev_decision ?ev)
      (if permits_execution (ev_decision ?ev) then charge_session e r h (pin_remit e r (live_session c r st))
       else pin_remit e r (live_session c r st))"
  proof -
    have "live_session c r st' = session_record h (ev_decision ?ev) (session_at (cs_sessions st2) (session_key_of r) (ca_started c))"
      unfolding live(6) by (simp add: live_session_def session_at_session_update r_def)
    then show ?thesis
      using conclude_sessions [OF live(3), of "ca_started c"] at1
      by (simp add: r_def live_state_session mints_capability_def)
  qed
  obtain i where i: "ev_assessment ?ev = assess i" using live_assessment by blast
  have d: "d = ev_decision ?ev" "rs_action_hash (oc_response oc) = h" using live(5) by (simp_all add: d_def r_def)
  have coherent: "is_coherent (oc_response oc)"
    using conclude_ok [OF live(3)] live(5) assess_unit [of i] i by (simp add: is_coherent_def r_def)
  have "(rs_capability (oc_response oc) \<noteq> None \<longleftrightarrow> permits_execution d) \<and>
     (oc_approval_request oc \<noteq> None \<longleftrightarrow> d = RequireApproval)"
    using conclude_ok [OF live(3)] live(5) by (simp add: mints_capability_def d_def)
  with coherent s' live(2) show ?thesis
    by (cases "ev_decision ?ev") (simp_all add: Let_def d denied_hashes_record charge_session_def terminates_session_def r_def)
qed

theorem decide_effects_witness:
  "\<exists>oc st'. decide (sample_env (Some (sample_policy Deny))) sample_core_call sample_auth sample_state = (Inr oc, st') \<and>
     is_coherent (oc_response oc)"
proof -
  obtain oc st' where d: "decide (sample_env (Some (sample_policy Deny))) sample_core_call sample_auth sample_state = (Inr oc, st')"
    by (rule sample_answers)
  with decide_effects [OF d] show ?thesis by blast
qed

text \<open>
  C4: a refusing stage is final. When the policy engine fails or denies, the remit or its egress boundary
  denies, or the budget is spent, the answer is at least a quarantine, carries no capability and charges
  nothing, whatever approval was presented and whatever the detectors say.
\<close>

theorem refused_stage_stands:
  assumes "decide e c auth st = (Inr oc, st')"
    and "request_action_hash (ce_format e) (ce_sha e) (au_request auth) = Inr h"
    and "refused_by_stage e c (au_request auth) h st"
  shows "Quarantine \<le> rs_decision (oc_response oc) \<and> rs_capability (oc_response oc) = None \<and>
     oc_approval_request oc = None"
  using assms(1)
proof (cases rule: decide_answer)
  case (terminated h')
  then show ?thesis by (simp add: less_eq_Decision_def)
next
  case (live h' st1 cap req st2)
  have "Quarantine \<le> ev_decision (live_evaluation e c (au_request auth) h' st)"
    using refused_by_stage_denied [OF assms(3)] assms(2) live(1) by simp
  moreover from this have "\<not> permits_execution (ev_decision (live_evaluation e c (au_request auth) h' st))"
    "ev_decision (live_evaluation e c (au_request auth) h' st) \<noteq> RequireApproval"
    by (cases "ev_decision (live_evaluation e c (au_request auth) h' st)"; simp add: less_eq_Decision_def)+
  ultimately show ?thesis
    using conclude_ok [OF live(3)] live(5) by (simp add: mints_capability_def)
qed

theorem refused_stage_stands_witness:
  "\<exists>oc st'. decide (sample_env (Some (sample_policy Deny))) sample_core_call sample_auth sample_state = (Inr oc, st') \<and>
     rs_capability (oc_response oc) = None"
proof -
  let ?e = "sample_env (Some (sample_policy Deny))"
  obtain oc st' where d: "decide ?e sample_core_call sample_auth sample_state = (Inr oc, st')"
    by (rule sample_answers)
  moreover have "refused_by_stage ?e sample_core_call (au_request sample_auth) sample_hash sample_state"
    by (simp add: refused_by_stage_def Let_def sample_policy_def less_eq_Decision_def)
  ultimately show ?thesis
    using refused_stage_stands [OF d, of sample_hash] sample_ready(3) by auto
qed

text \<open>
  Authority for a capability. A minted capability was signed over claims that name this request's
  tenant, environment, agent, instance, session, principal, operation and action hash for one use, and
  every stage permitted the action, unless an approval was redeemed, in which case a stage may also have
  asked for approval.
\<close>

theorem capability_needs_authority:
  assumes "decide e c auth st = (Inr oc, st')" and "rs_capability (oc_response oc) = Some token"
  shows "\<exists>h claims. request_action_hash (ce_format e) (ce_sha e) (au_request auth) = Inr h \<and>
     (let approval = live_approval e c (au_request auth) h st; ev = live_evaluation e c (au_request auth) h st;
          base = capability_claims_for c (au_request auth) h
            (snd (registry_evaluate (ce_remits e) (ar_agent_id (au_request auth)) (ar_action (au_request auth))))
            (ev_policy ev) approval
      in issue (ce_crypto e) (ce_format e) (ce_issuer e) (ca_issued c) (ca_nonce c) base
           (co_capability_ttl_seconds (ce_config e)) = Inr (token, claims) \<and>
         cc_action_hash claims = h \<and> cc_tenant_id claims = ar_tenant_id (au_request auth) \<and>
         cc_agent_id claims = ar_agent_id (au_request auth) \<and>
         cc_session_id claims = ar_session_id (au_request auth) \<and>
         cc_principal_id claims = p_id (ar_principal (au_request auth)) \<and>
         cc_operation claims = operation (ar_action (au_request auth)) \<and>
         cc_approval_id claims = approval \<and> cc_max_uses claims = 1 \<and>
         (\<forall>v \<in> set (verdicts (needs_approval e (ar_action (au_request auth))) (approval \<noteq> None) ev).
            permits_execution v \<or> (approval \<noteq> None \<and> v = RequireApproval)))"
proof -
  obtain h claims where h: "request_action_hash (ce_format e) (ce_sha e) (au_request auth) = Inr h"
    and p: "permits_execution (ev_decision (live_evaluation e c (au_request auth) h st))"
    and i: "issue (ce_crypto e) (ce_format e) (ce_issuer e) (ca_issued c) (ca_nonce c)
       (capability_claims_for c (au_request auth) h
          (snd (registry_evaluate (ce_remits e) (ar_agent_id (au_request auth)) (ar_action (au_request auth))))
          (ev_policy (live_evaluation e c (au_request auth) h st)) (live_approval e c (au_request auth) h st))
       (co_capability_ttl_seconds (ce_config e)) = Inr (token, claims)"
    using assms by (rule live_allowed)
  have claims: "claims = issued_claims (ca_issued c) (ca_nonce c)
       (capability_claims_for c (au_request auth) h
          (snd (registry_evaluate (ce_remits e) (ar_agent_id (au_request auth)) (ar_action (au_request auth))))
          (ev_policy (live_evaluation e c (au_request auth) h st)) (live_approval e c (au_request auth) h st))
       (co_capability_ttl_seconds (ce_config e))"
    using i by (auto simp: issue_def Let_def split: sum.splits)
  have "verdicts b a ev \<noteq> []" for b a ev by (simp add: verdicts_def)
  from resolve_permits [OF p [unfolded live_evaluation_simps(4)] this]
  have v: "\<forall>v \<in> set (verdicts (needs_approval e (ar_action (au_request auth))) (live_approval e c (au_request auth) h st \<noteq> None)
       (live_evaluation e c (au_request auth) h st)).
     permits_execution v \<or> (live_approval e c (au_request auth) h st \<noteq> None \<and> v = RequireApproval)" by simp
  show ?thesis
    unfolding Let_def by (rule exI [of _ h], rule exI [of _ claims], intro conjI h i v)
      (simp_all add: claims issued_claims_def capability_claims_for_def Let_def)
qed

theorem capability_needs_authority_witness:
  "\<exists>oc st' token h. decide (sample_env (Some (sample_policy Allow))) sample_core_call sample_auth sample_state = (Inr oc, st') \<and>
     rs_capability (oc_response oc) = Some token \<and>
     request_action_hash sample_format (\<lambda>b. ''00'') (au_request sample_auth) = Inr h"
proof -
  obtain oc st' where d: "decide (sample_env (Some (sample_policy Allow))) sample_core_call sample_auth sample_state = (Inr oc, st')"
    by (rule sample_answers)
  obtain token where t: "rs_capability (oc_response oc) = Some token"
    using d by (rule sample_allowed)
  from capability_needs_authority [OF d t] d t show ?thesis by auto
qed

text \<open>
  C9: a terminated session stays closed. Once a request was answered with \<^verbatim>\<open>TerminateSession\<close>, every later
  request of the same session, after any number of decisions of any sessions under any configuration, is
  answered with \<^verbatim>\<open>TerminateSession\<close> and no capability.
\<close>

theorem terminated_session_stays_closed:
  assumes "decide e c auth st = (Inr oc, st1)" and "rs_decision (oc_response oc) = TerminateSession"
    and "session_key_of (au_request auth') = session_key_of (au_request auth)"
    and "decide e' c' auth' (decide_run calls st1) = (Inr oc', st2)"
  shows "rs_decision (oc_response oc') = TerminateSession \<and> rs_capability (oc_response oc') = None"
proof -
  have "closed (session_key_of (au_request auth)) (cs_sessions (decide_run calls st1))"
    using terminated_closes [OF assms(1,2)] by (rule closed_run)
  then have t: "ss_terminated (live_session c' (au_request auth') (decide_run calls st1))"
    using assms(3) by (simp add: live_session_def closed_session)
  from assms(4) show ?thesis
    by (cases rule: decide_answer) (use t in auto)
qed

theorem terminated_session_stays_closed_witness:
  "\<exists>oc st1 oc' st2. decide (sample_env (Some (sample_policy TerminateSession))) sample_core_call sample_auth sample_state = (Inr oc, st1) \<and>
     decide (sample_env (Some (sample_policy Allow))) sample_core_call sample_auth st1 = (Inr oc', st2) \<and>
     rs_decision (oc_response oc') = TerminateSession"
proof -
  let ?e = "sample_env (Some (sample_policy TerminateSession))"
  obtain oc st1 where d: "decide ?e sample_core_call sample_auth sample_state = (Inr oc, st1)"
    by (rule sample_answers)
  have t: "rs_decision (oc_response oc) = TerminateSession"
    using d by (rule sample_terminates)
  have "\<not> as_poisoned (cs_approvals st1) \<and> \<not> cs_sessions_poisoned st1" using d by (rule sample_not_poisoned)
  then obtain oc' st2 where d': "decide (sample_env (Some (sample_policy Allow))) sample_core_call sample_auth st1 = (Inr oc', st2)"
    by (rule sample_answers_from)
  have "decide (sample_env (Some (sample_policy Allow))) sample_core_call sample_auth (decide_run [] st1) = (Inr oc', st2)"
    using d' by simp
  from terminated_session_stays_closed [OF d t refl this] have "rs_decision (oc_response oc') = TerminateSession" ..
  with d d' show ?thesis by blast
qed

text \<open>
  C8: which requests are answered. A request whose action has a canonical form gets a decision, and not an error, exactly if
  it is well formed, its caller matches, the session store is usable, and either its session was terminated, or the
  outcome can take effect: for a permitted action the claims of its capability have a canonical form; for an action that
  needs approval some approver role is eligible under all obligations of the policy and the approval store is usable.
  The decision is for the hash of the request. An unavailable policy engine, failing detectors, a spent budget and a rejected
  approval are not among the reasons for an error.
\<close>

theorem decide_answers:
  fixes c :: core_call and st :: core_state
  assumes "request_action_hash (ce_format e) (ce_sha e) (au_request auth) = Inr h"
  defines "r \<equiv> au_request auth"
  defines "ev \<equiv> live_evaluation e c r h st"
  shows "((\<exists>oc st'. decide e c auth st = (Inr oc, st')) \<longleftrightarrow>
      request_validate r = Inr () \<and> check_identity (ce_config e) auth = Inr () \<and> \<not> cs_sessions_poisoned st \<and>
      (ss_terminated (live_session c r st) \<or>
       (mints_capability (ev_decision ev) \<longrightarrow>
          (\<exists>b. canonical_bytes (ce_format e) (claims_value (ce_crypto e) (issued_claims (ca_issued c) (ca_nonce c)
             (capability_claims_for c r h (snd (registry_evaluate (ce_remits e) (ar_agent_id r) (ar_action r))) (ev_policy ev)
                (live_approval e c r h st)) (co_capability_ttl_seconds (ce_config e)))) = Inr b)) \<and>
       (ev_decision ev = RequireApproval \<longrightarrow>
          required_roles (co_default_approver_roles (ce_config e)) (human_approvals (pd_obligations (ev_policy ev))) \<noteq> [] \<and>
          \<not> as_poisoned (cs_approvals st)))) \<and>
    (\<forall>oc st'. decide e c auth st = (Inr oc, st') \<longrightarrow> rs_action_hash (oc_response oc) = h)"
proof -
  have "rs_action_hash (oc_response oc) = h" if "decide e c auth st = (Inr oc, st')" for oc st'
    using that by (cases rule: decide_answer) (simp_all add: assms(1) terminated_outcome_def)
  moreover have np: "\<not> cs_sessions_poisoned (live_state e c r h st)" if "\<not> cs_sessions_poisoned st"
    using that by (simp add: live_state_def)
  note conclude_answers [OF np, of e c r h "live_approval e c r h st" "live_evaluation e c r h st",
      unfolded live_state_approvals presented_poisoned, folded ev_def]
  ultimately show ?thesis
    unfolding decide_answered [OF assms(1), of c st, folded r_def, folded ev_def] by blast
qed

theorem decide_answers_witness:
  "\<exists>oc st'. decide (sample_env None) sample_core_call sample_auth sample_state = (Inr oc, st') \<and>
     rs_action_hash (oc_response oc) = sample_hash"
proof -
  have h: "request_action_hash (ce_format (sample_env None)) (ce_sha (sample_env None)) (au_request sample_auth) = Inr sample_hash"
    using sample_ready by simp
  have "\<exists>b. canonical_bytes (ce_format (sample_env None)) (claims_value (ce_crypto (sample_env None)) claims) = Inr b" for claims
    by (simp add: hex_claims_value canonical_bytes_def canonicalize_def)
  moreover have "required_roles (co_default_approver_roles (ce_config (sample_env None))) (human_approvals (pd_obligations
      (ev_policy (live_evaluation (sample_env None) sample_core_call (au_request sample_auth) sample_hash sample_state)))) \<noteq> []"
    by (simp add: live_evaluation_simps(3) policy_stage_def policy_unavailable_def fail_closed_def human_approvals_def required_roles_def
        config_development_def config_default_def map_filter_simps)
  ultimately show ?thesis
    using decide_answers [OF h, of sample_core_call sample_state] sample_ready sample_state_usable by auto
qed

end
