(* ===== verification/Endpoint.thy ===== *)
theory Endpoint
  imports Canonical
begin

text \<open>
  The fast path of the endpoint adapter (\<^verbatim>\<open>vigil-endpoint/src/lib.rs\<close>): which session a process belongs
  to, which file and process operations a managed process may perform, and the simulator that replays a
  stream of events. A \<^verbatim>\<open>BTreeMap\<close> is an association list with distinct keys and a \<^verbatim>\<open>BTreeSet\<close> the list of its
  elements; a process key is the list of its 32 bytes. The source of events is the simulated one of the
  crate.
\<close>

section \<open>Saturating arithmetic and path components\<close>

definition u64_sat_sub :: "u64 \<Rightarrow> u64 \<Rightarrow> u64" where
  "u64_sat_sub a b = (if b \<le> a then a - b else 0)"

definition u64_sat_add :: "u64 \<Rightarrow> u64 \<Rightarrow> u64" where
  "u64_sat_add a b = (if a \<le> a + b then a + b else - 1)"

text \<open>
  \<^verbatim>\<open>Path::components\<close> on Unix: empty components and inner dots are dropped, a leading dot of a relative
  path is kept.
\<close>

datatype PathComponent = RootDir | CurDir | ParentDir | NormalDir string

definition slash_pieces :: "string \<Rightarrow> string list" where
  "slash_pieces p = filter (\<lambda>w. w \<noteq> [] \<and> w \<noteq> ''.'') (split_on (\<lambda>c. c = CHR ''/'') p)"

definition path_is_absolute :: "string \<Rightarrow> bool" where
  "path_is_absolute p = starts_with p ''/''"

definition path_components :: "string \<Rightarrow> PathComponent list" where
  "path_components p =
     (if path_is_absolute p then [RootDir]
      else if hd (split_on (\<lambda>c. c = CHR ''/'') p) = ''.'' then [CurDir] else [])
     @ map (\<lambda>w. if w = ''..'' then ParentDir else NormalDir w) (slash_pieces p)"

definition path_starts_with :: "string \<Rightarrow> string \<Rightarrow> bool" where
  "path_starts_with p base = prefix (path_components base) (path_components p)"

section \<open>Events and decisions\<close>

definition OPEN_READ :: u32 where "OPEN_READ = 1"
definition OPEN_WRITE :: u32 where "OPEN_WRITE = 2"
definition OPEN_EXECUTE :: u32 where "OPEN_EXECUTE = 4"

unbundle bit_operations_syntax

definition OPEN_KNOWN_FLAGS :: u32 where
  "OPEN_KNOWN_FLAGS = OPEN_READ OR OPEN_WRITE OR OPEN_EXECUTE"

definition MAX_SESSIONS :: nat where "MAX_SESSIONS = 1024"
definition MAX_ATTRIBUTIONS :: nat where "MAX_ATTRIBUTIONS = 16384"
definition MAX_WORKSPACES_PER_SESSION :: nat where "MAX_WORKSPACES_PER_SESSION = 16"
definition MAX_EXECUTABLES_PER_SESSION :: nat where "MAX_EXECUTABLES_PER_SESSION = 256"
definition MAX_PROTECTED_PREFIXES :: nat where "MAX_PROTECTED_PREFIXES = 128"
definition MAX_PATH_BYTES :: nat where "MAX_PATH_BYTES = 16 * 1024"

type_synonym ProcessKey = "u8 list"

definition key_is_zero :: "ProcessKey \<Rightarrow> bool" where
  "key_is_zero k = list_all (\<lambda>b. b = 0) k"

record EndpointPath =
  ep_value :: string
  ep_truncated :: bool

record ProcessIdentity =
  pi_key :: ProcessKey
  pi_pid :: int
  pi_parent_pid :: int
  pi_executable :: EndpointPath
  pi_signing_id :: "string option"
  pi_team_id :: "string option"
  pi_is_platform_binary :: bool
  pi_is_es_client :: bool

datatype EndpointEventType =
  AuthExec | AuthOpen | AuthCreate | AuthRename | AuthUnlink | NotifyFork | NotifyExit

datatype EndpointOperation =
    OpExec ProcessIdentity
  | OpOpen EndpointPath u32
  | OpCreate EndpointPath
  | OpRename EndpointPath EndpointPath
  | OpUnlink EndpointPath
  | OpFork ProcessIdentity
  | OpExit int

fun operation_event_type :: "EndpointOperation \<Rightarrow> EndpointEventType" where
  "operation_event_type (OpExec t) = AuthExec"
| "operation_event_type (OpOpen f flags) = AuthOpen"
| "operation_event_type (OpCreate d) = AuthCreate"
| "operation_event_type (OpRename s d) = AuthRename"
| "operation_event_type (OpUnlink t) = AuthUnlink"
| "operation_event_type (OpFork c) = NotifyFork"
| "operation_event_type (OpExit s) = NotifyExit"

fun is_authorization :: "EndpointOperation \<Rightarrow> bool" where
  "is_authorization (OpFork c) = False"
| "is_authorization (OpExit s) = False"
| "is_authorization oper = True"

record EndpointEnvelope =
  en_observed_at_ns :: u64
  en_deadline_ns :: "u64 option"
  en_sequence :: "u64 option"
  en_global_sequence :: "u64 option"
  en_actor :: ProcessIdentity
  en_operation :: EndpointOperation

datatype EndpointVerdict = VerdictAllow | VerdictDeny | VerdictObserve

datatype EndpointResponse = RespondAuth bool bool | RespondOpenFlags u32 bool | RespondNone

datatype EndpointReason =
    UnmanagedProcess | NotificationOnly | PermitExactExecutable | DenyExecutable | PermitWorkspacePath
  | DenyOutsideWorkspace | DenyProtectedPath | DenyTruncatedPath | DenyMalformedPath | DenyUnknownOpenFlags
  | DenyMalformedProcessIdentity | DenyMissingSessionPolicy | DenyDeadlineGuard

record EndpointDecision =
  ed_event_type :: EndpointEventType
  ed_verdict :: EndpointVerdict
  ed_response :: EndpointResponse
  ed_reason :: EndpointReason
  ed_session_id :: "string option"
  ed_authorization_latency_ns :: u64
  ed_deadline_remaining_ns :: "u64 option"

section \<open>Session policies\<close>

datatype endpoint_error =
  InvalidField string | PolicyNotFound | AlreadyBound | TableFull | SourceUnavailable

record SessionEnforcementPolicy =
  sp_session_id :: string
  sp_workspace_roots :: "string list"
  sp_allowed_executables :: "string list"

definition validate_event_path :: "string \<Rightarrow> bool" where
  "validate_event_path path =
     (path \<noteq> [] \<and> str_len path \<le> MAX_PATH_BYTES \<and> CHR 0x00 \<notin> set path \<and> path_is_absolute path \<and>
      list_all (\<lambda>c. c \<noteq> CurDir \<and> c \<noteq> ParentDir) (path_components path))"

definition session_policy_validate :: "SessionEnforcementPolicy \<Rightarrow> endpoint_error + unit" where
  "session_policy_validate p =
     (if sp_session_id p = [] \<or> 128 < str_len (sp_session_id p) then Inl (InvalidField ''session_id'')
      else if sp_workspace_roots p = [] \<or> MAX_WORKSPACES_PER_SESSION < length (sp_workspace_roots p)
           then Inl (InvalidField ''workspace_roots'')
      else if MAX_EXECUTABLES_PER_SESSION < length (sp_allowed_executables p)
           then Inl (InvalidField ''allowed_executables'')
      else ensure (list_all validate_event_path (sp_workspace_roots p @ sp_allowed_executables p))
             (InvalidField ''path''))"

definition session_policy_new :: "string \<Rightarrow> string list \<Rightarrow> string list \<Rightarrow> endpoint_error + SessionEnforcementPolicy" where
  "session_policy_new i roots executables =
     (let p = \<lparr>sp_session_id = i, sp_workspace_roots = roots, sp_allowed_executables = executables\<rparr>
      in rbind (session_policy_validate p) (\<lambda>_. Inr p))"

record FastPathState =
  fp_sessions :: "(string, SessionEnforcementPolicy) hmap"
  fp_attributions :: "(ProcessKey, string) hmap"
  fp_protected_prefixes :: "string list"
  fp_deadline_safety_margin_ns :: u64

fun insert_policies ::
    "SessionEnforcementPolicy list \<Rightarrow> (string, SessionEnforcementPolicy) hmap
      \<Rightarrow> endpoint_error + (string, SessionEnforcementPolicy) hmap" where
  "insert_policies [] m = Inr m"
| "insert_policies (p # ps) m =
     rbind (session_policy_validate p) (\<lambda>_.
       if hm_get m (sp_session_id p) \<noteq> None then Inl (InvalidField ''sessions'')
       else insert_policies ps (hm_insert (sp_session_id p) p m))"

definition fast_path_new ::
    "SessionEnforcementPolicy list \<Rightarrow> string list \<Rightarrow> u64 \<Rightarrow> endpoint_error + FastPathState" where
  "fast_path_new policies protected_prefixes margin =
     (if MAX_SESSIONS < length policies then Inl (InvalidField ''sessions'')
      else if MAX_PROTECTED_PREFIXES < length protected_prefixes then Inl (InvalidField ''protected_prefixes'')
      else if \<not> list_all validate_event_path protected_prefixes then Inl (InvalidField ''path'')
      else rbind (insert_policies policies []) (\<lambda>sessions.
        Inr \<lparr>fp_sessions = sessions, fp_attributions = [], fp_protected_prefixes = protected_prefixes,
             fp_deadline_safety_margin_ns = margin\<rparr>))"

definition bind_root :: "ProcessKey \<Rightarrow> string \<Rightarrow> FastPathState \<Rightarrow> endpoint_error + FastPathState" where
  "bind_root process i st =
     (if key_is_zero process then Inl (InvalidField ''audit_token'')
      else if hm_get (fp_sessions st) i = None then Inl PolicyNotFound
      else case hm_get (fp_attributions st) process of
             Some existing \<Rightarrow> if existing \<noteq> i then Inl AlreadyBound else Inr st
           | None \<Rightarrow>
               if MAX_ATTRIBUTIONS \<le> length (fp_attributions st) then Inl TableFull
               else Inr (st\<lparr>fp_attributions := hm_insert process i (fp_attributions st)\<rparr>))"

definition attributed_session :: "FastPathState \<Rightarrow> ProcessKey \<Rightarrow> string option" where
  "attributed_session st process = hm_get (fp_attributions st) process"

section \<open>Evaluation\<close>

datatype PathStatus = Usable | Protected | Truncated | Malformed

definition path_status :: "EndpointPath \<Rightarrow> string list \<Rightarrow> PathStatus" where
  "path_status path protected_prefixes =
     (if ep_truncated path then Truncated
      else if \<not> validate_event_path (ep_value path) then Malformed
      else if list_ex (path_starts_with (ep_value path)) protected_prefixes then Protected
      else Usable)"

definition evaluate_workspace_path ::
    "EndpointPath \<Rightarrow> SessionEnforcementPolicy \<Rightarrow> string list \<Rightarrow> bool \<times> EndpointReason" where
  "evaluate_workspace_path path policy protected_prefixes =
     (case path_status path protected_prefixes of
        Truncated \<Rightarrow> (False, DenyTruncatedPath)
      | Malformed \<Rightarrow> (False, DenyMalformedPath)
      | Protected \<Rightarrow> (False, DenyProtectedPath)
      | Usable \<Rightarrow>
          if list_ex (path_starts_with (ep_value path)) (sp_workspace_roots policy)
          then (True, PermitWorkspacePath) else (False, DenyOutsideWorkspace))"

fun response_for :: "EndpointOperation \<Rightarrow> bool \<Rightarrow> EndpointResponse" where
  "response_for (OpOpen f requested_flags) allow = RespondOpenFlags (if allow then requested_flags else 0) False"
| "response_for oper allow =
     (if is_authorization oper then RespondAuth allow False else RespondNone)"

text \<open>The match of \<^verbatim>\<open>evaluate\<close> on the operation of a managed process.\<close>

fun evaluate_operation ::
    "SessionEnforcementPolicy \<Rightarrow> string list \<Rightarrow> EndpointOperation \<Rightarrow> bool \<times> EndpointReason" where
  "evaluate_operation policy pre (OpExec target) =
     (if key_is_zero (pi_key target) then (False, DenyMalformedProcessIdentity)
      else case path_status (pi_executable target) pre of
             Truncated \<Rightarrow> (False, DenyTruncatedPath)
           | Malformed \<Rightarrow> (False, DenyMalformedPath)
           | Protected \<Rightarrow> (False, DenyProtectedPath)
           | Usable \<Rightarrow>
               if ep_value (pi_executable target) \<in> set (sp_allowed_executables policy)
               then (True, PermitExactExecutable) else (False, DenyExecutable))"
| "evaluate_operation policy pre (OpOpen file requested_flags) =
     (if requested_flags = 0 \<or> requested_flags AND NOT OPEN_KNOWN_FLAGS \<noteq> 0
      then (False, DenyUnknownOpenFlags) else evaluate_workspace_path file policy pre)"
| "evaluate_operation policy pre (OpCreate destination) = evaluate_workspace_path destination policy pre"
| "evaluate_operation policy pre (OpRename source destination) =
     (let source = evaluate_workspace_path source policy pre;
          destination = evaluate_workspace_path destination policy pre
      in if fst source \<and> fst destination then (True, PermitWorkspacePath)
         else if \<not> fst source then source else destination)"
| "evaluate_operation policy pre (OpUnlink target) = evaluate_workspace_path target policy pre"
| "evaluate_operation policy pre (OpFork c) = (False, NotificationOnly)"
| "evaluate_operation policy pre (OpExit s) = (False, NotificationOnly)"

definition endpoint_evaluate :: "FastPathState \<Rightarrow> EndpointEnvelope \<Rightarrow> u64 \<Rightarrow> EndpointDecision" where
  "endpoint_evaluate st envelope processed_at_ns =
     (let oper = en_operation envelope;
          session = attributed_session st (pi_key (en_actor envelope));
          answer = (\<lambda>verdict response reason session_id.
            \<lparr>ed_event_type = operation_event_type oper, ed_verdict = verdict, ed_response = response,
             ed_reason = reason, ed_session_id = session_id,
             ed_authorization_latency_ns = u64_sat_sub processed_at_ns (en_observed_at_ns envelope),
             ed_deadline_remaining_ns = map_option (\<lambda>d. u64_sat_sub d processed_at_ns) (en_deadline_ns envelope)\<rparr>)
      in if \<not> is_authorization oper then answer VerdictObserve RespondNone NotificationOnly session
         else case session of
                None \<Rightarrow> answer VerdictAllow (response_for oper True) UnmanagedProcess None
              | Some i \<Rightarrow>
                  (case hm_get (fp_sessions st) i of
                     None \<Rightarrow> answer VerdictDeny (response_for oper False) DenyMissingSessionPolicy (Some i)
                   | Some policy \<Rightarrow>
                       if (case en_deadline_ns envelope of
                             None \<Rightarrow> True
                           | Some deadline \<Rightarrow>
                               deadline \<le> u64_sat_add processed_at_ns (fp_deadline_safety_margin_ns st))
                       then answer VerdictDeny (response_for oper False) DenyDeadlineGuard (Some i)
                       else let (allow, reason) = evaluate_operation policy (fp_protected_prefixes st) oper
                            in answer (if allow then VerdictAllow else VerdictDeny)
                                 (response_for oper allow) reason (Some i)))"

definition apply_successful_transition ::
    "FastPathState \<Rightarrow> EndpointEnvelope \<Rightarrow> EndpointDecision \<Rightarrow> FastPathState" where
  "apply_successful_transition st envelope d =
     (let actor = pi_key (en_actor envelope); m = fp_attributions st
      in case en_operation envelope of
           OpExec target \<Rightarrow>
             if ed_verdict d = VerdictAllow then
               (case hm_get m actor of
                  Some i \<Rightarrow> st\<lparr>fp_attributions := hm_insert (pi_key target) i (hm_remove actor m)\<rparr>
                | None \<Rightarrow> st)
             else st
         | OpFork child \<Rightarrow>
             if \<not> key_is_zero (pi_key child) then
               (case hm_get m actor of
                  Some i \<Rightarrow>
                    if length m < MAX_ATTRIBUTIONS \<or> hm_get m (pi_key child) \<noteq> None
                    then st\<lparr>fp_attributions := hm_insert (pi_key child) i m\<rparr> else st
                | None \<Rightarrow> st)
             else st
         | OpExit status \<Rightarrow> st\<lparr>fp_attributions := hm_remove actor m\<rparr>
         | oper \<Rightarrow> st)"

section \<open>The simulator\<close>

datatype EndpointSourceItem = SourceEvent EndpointEnvelope u64 | SourceDropped u64

record SimulatedEndpointSecuritySource =
  so_items :: "EndpointSourceItem list"
  so_fail_next :: bool

definition next_item ::
    "SimulatedEndpointSecuritySource
      \<Rightarrow> (endpoint_error + EndpointSourceItem option) \<times> SimulatedEndpointSecuritySource" where
  "next_item src =
     (if so_fail_next src then (Inl SourceUnavailable, src\<lparr>so_fail_next := False\<rparr>)
      else case so_items src of
             [] \<Rightarrow> (Inr None, src)
           | item # items \<Rightarrow> (Inr (Some item), src\<lparr>so_items := items\<rparr>))"

record AuthorizationMetrics =
  am_authorization_events :: u64
  am_allows :: u64
  am_denials :: u64
  am_deadline_guard_denials :: u64
  am_late_events :: u64
  am_dropped_events :: u64
  am_maximum_authorization_latency_ns :: u64

definition metrics_default :: AuthorizationMetrics where
  "metrics_default = \<lparr>am_authorization_events = 0, am_allows = 0, am_denials = 0,
     am_deadline_guard_denials = 0, am_late_events = 0, am_dropped_events = 0,
     am_maximum_authorization_latency_ns = 0\<rparr>"

definition record_decision :: "EndpointDecision \<Rightarrow> AuthorizationMetrics \<Rightarrow> AuthorizationMetrics" where
  "record_decision d m =
     (if ed_response d = RespondNone then m
      else let m = m\<lparr>am_authorization_events := u64_sat_add (am_authorization_events m) 1,
                     am_maximum_authorization_latency_ns :=
                       max (am_maximum_authorization_latency_ns m) (ed_authorization_latency_ns d)\<rparr>;
               m = (case ed_verdict d of
                      VerdictAllow \<Rightarrow> m\<lparr>am_allows := u64_sat_add (am_allows m) 1\<rparr>
                    | VerdictDeny \<Rightarrow> m\<lparr>am_denials := u64_sat_add (am_denials m) 1\<rparr>
                    | VerdictObserve \<Rightarrow> m)
           in if ed_reason d = DenyDeadlineGuard
              then let m = m\<lparr>am_deadline_guard_denials := u64_sat_add (am_deadline_guard_denials m) 1\<rparr>
                   in if ed_deadline_remaining_ns d = Some 0
                      then m\<lparr>am_late_events := u64_sat_add (am_late_events m) 1\<rparr> else m
              else m)"

record simulation =
  sm_last_global_sequence :: "u64 option"
  sm_state :: FastPathState
  sm_decisions :: "EndpointDecision list"
  sm_metrics :: AuthorizationMetrics

text \<open>One turn of the loop of \<^verbatim>\<open>EndpointSimulator::run\<close>.\<close>

fun simulate_item :: "EndpointSourceItem \<Rightarrow> simulation \<Rightarrow> simulation" where
  "simulate_item (SourceDropped lost) s =
     s\<lparr>sm_metrics := (sm_metrics s)\<lparr>am_dropped_events := u64_sat_add (am_dropped_events (sm_metrics s)) lost\<rparr>\<rparr>"
| "simulate_item (SourceEvent envelope processing_delay_ns) s =
     (let s = (case en_global_sequence envelope of
                 None \<Rightarrow> s
               | Some global \<Rightarrow>
                   (let m = (case sm_last_global_sequence s of
                               None \<Rightarrow> sm_metrics s
                             | Some previous \<Rightarrow>
                                 (sm_metrics s)\<lparr>am_dropped_events :=
                                   u64_sat_add (am_dropped_events (sm_metrics s))
                                     (u64_sat_sub (u64_sat_sub global previous) 1)\<rparr>)
                    in s\<lparr>sm_metrics := m, sm_last_global_sequence := Some global\<rparr>));
          d = endpoint_evaluate (sm_state s) envelope (u64_sat_add (en_observed_at_ns envelope) processing_delay_ns)
      in s\<lparr>sm_metrics := record_decision d (sm_metrics s),
           sm_state := apply_successful_transition (sm_state s) envelope d,
           sm_decisions := sm_decisions s @ [d]\<rparr>)"

record EndpointSimulationReport =
  sr_decisions :: "EndpointDecision list"
  sr_metrics :: AuthorizationMetrics
  sr_remaining_attributions :: nat

function simulator_loop ::
    "SimulatedEndpointSecuritySource \<Rightarrow> simulation
      \<Rightarrow> (endpoint_error + unit) \<times> SimulatedEndpointSecuritySource \<times> simulation" where
  "simulator_loop src s =
     (case next_item src of
        (Inl err, src') \<Rightarrow> (Inl err, src', s)
      | (Inr None, src') \<Rightarrow> (Inr (), src', s)
      | (Inr (Some item), src') \<Rightarrow> simulator_loop src' (simulate_item item s))"
  by pat_completeness auto
termination
  by (relation "measure (\<lambda>(src, s). length (so_items src))")
     (auto simp: next_item_def split: if_splits list.splits)

definition simulator_run ::
    "u64 option \<Rightarrow> SimulatedEndpointSecuritySource \<Rightarrow> FastPathState
      \<Rightarrow> (endpoint_error + EndpointSimulationReport) \<times> u64 option \<times> SimulatedEndpointSecuritySource \<times> FastPathState" where
  "simulator_run last_global src st =
     (case simulator_loop src \<lparr>sm_last_global_sequence = last_global, sm_state = st, sm_decisions = [],
                               sm_metrics = metrics_default\<rparr> of
        (Inl err, src', s) \<Rightarrow> (Inl err, sm_last_global_sequence s, src', sm_state s)
      | (Inr _, src', s) \<Rightarrow>
          (Inr \<lparr>sr_decisions = sm_decisions s, sr_metrics = sm_metrics s,
                sr_remaining_attributions = length (fp_attributions (sm_state s))\<rparr>,
           sm_last_global_sequence s, src', sm_state s))"


section \<open>Paths that passed validation\<close>

lemma prefix_map_inj: "inj f \<Longrightarrow> prefix (map f xs) (map f ys) \<longleftrightarrow> prefix xs ys"
  by (auto simp: prefix_def map_eq_append_conv inj_map_eq_map)

lemma valid_path_components:
  assumes "validate_event_path p"
  shows "path_components p = RootDir # map NormalDir (slash_pieces p)"
proof -
  have "w \<noteq> ''..''" if "w \<in> set (slash_pieces p)" for w
    using assms that by (force simp: validate_event_path_def path_components_def list_all_iff)
  then have "map (\<lambda>w. if w = ''..'' then ParentDir else NormalDir w) (slash_pieces p) = map NormalDir (slash_pieces p)"
    by simp
  then show ?thesis
    using assms by (simp add: validate_event_path_def path_components_def)
qed

lemma path_starts_with_valid:
  assumes "validate_event_path p" "validate_event_path base"
  shows "path_starts_with p base \<longleftrightarrow> prefix (slash_pieces base) (slash_pieces p)"
  using prefix_map_inj [of NormalDir]
  by (simp add: path_starts_with_def valid_path_components assms inj_def)

section \<open>What a policy permits\<close>

text \<open>
  The specification: a path is clear when it is complete, absolute and free of traversal and lies below
  no protected prefix, component by component.
\<close>

definition clear_path :: "string list \<Rightarrow> EndpointPath \<Rightarrow> bool" where
  "clear_path pre path \<longleftrightarrow> \<not> ep_truncated path \<and> validate_event_path (ep_value path) \<and>
     (\<forall>q \<in> set pre. \<not> prefix (slash_pieces q) (slash_pieces (ep_value path)))"

definition workspace_path :: "SessionEnforcementPolicy \<Rightarrow> string list \<Rightarrow> EndpointPath \<Rightarrow> bool" where
  "workspace_path policy pre path \<longleftrightarrow> clear_path pre path \<and>
     (\<exists>root \<in> set (sp_workspace_roots policy). prefix (slash_pieces root) (slash_pieces (ep_value path)))"

fun permitted :: "SessionEnforcementPolicy \<Rightarrow> string list \<Rightarrow> EndpointOperation \<Rightarrow> bool" where
  "permitted policy pre (OpExec t) \<longleftrightarrow> \<not> key_is_zero (pi_key t) \<and> clear_path pre (pi_executable t) \<and>
     ep_value (pi_executable t) \<in> set (sp_allowed_executables policy)"
| "permitted policy pre (OpOpen file flags) \<longleftrightarrow>
     flags \<noteq> 0 \<and> flags AND NOT OPEN_KNOWN_FLAGS = 0 \<and> workspace_path policy pre file"
| "permitted policy pre (OpCreate d) \<longleftrightarrow> workspace_path policy pre d"
| "permitted policy pre (OpRename s d) \<longleftrightarrow> workspace_path policy pre s \<and> workspace_path policy pre d"
| "permitted policy pre (OpUnlink t) \<longleftrightarrow> workspace_path policy pre t"
| "permitted policy pre (OpFork c) \<longleftrightarrow> False"
| "permitted policy pre (OpExit s) \<longleftrightarrow> False"

definition in_time :: "u64 \<Rightarrow> EndpointEnvelope \<Rightarrow> u64 \<Rightarrow> bool" where
  "in_time margin envelope t \<longleftrightarrow> (\<exists>d. en_deadline_ns envelope = Some d \<and> unat t + unat margin < unat d)"

lemma path_status_usable:
  assumes "list_all validate_event_path pre"
  shows "path_status path pre = Usable \<longleftrightarrow> clear_path pre path"
  using assms path_starts_with_valid
  by (auto simp: path_status_def clear_path_def list_ex_iff list_all_iff)

lemma evaluate_workspace_path_permitted:
  assumes "list_all validate_event_path pre" "session_policy_validate policy = Inr ()"
  shows "fst (evaluate_workspace_path path policy pre) \<longleftrightarrow> workspace_path policy pre path"
proof -
  have roots: "validate_event_path root" if "root \<in> set (sp_workspace_roots policy)" for root
    using assms(2) that by (auto simp: session_policy_validate_def list_all_iff split: if_splits)
  have "list_ex (path_starts_with (ep_value path)) (sp_workspace_roots policy) \<longleftrightarrow>
      (\<exists>root \<in> set (sp_workspace_roots policy). prefix (slash_pieces root) (slash_pieces (ep_value path)))"
    if "clear_path pre path"
    using that roots path_starts_with_valid by (auto simp: list_ex_iff clear_path_def)
  then show ?thesis
    using path_status_usable [OF assms(1), of path]
    by (auto simp: evaluate_workspace_path_def workspace_path_def split: PathStatus.splits)
qed

lemma evaluate_operation_permitted:
  assumes "list_all validate_event_path pre" "session_policy_validate policy = Inr ()"
  shows "fst (evaluate_operation policy pre oper) \<longleftrightarrow> permitted policy pre oper"
proof (cases oper)
  case (OpExec t)
  then show ?thesis
    using path_status_usable [OF assms(1), of "pi_executable t"] by (auto split: PathStatus.splits)
qed (auto simp: evaluate_workspace_path_permitted [OF assms] Let_def)

lemma u64_sat_add_nat: "u64_sat_add a b = (if unat a + unat b < 2 ^ 64 then a + b else - 1)"
  by (simp add: u64_sat_add_def no_olen_add_nat)

lemma le_u64_sat_add: "d \<le> u64_sat_add a b \<longleftrightarrow> unat d \<le> unat a + unat b"
proof (cases "unat a + unat b < 2 ^ 64")
  case True
  then show ?thesis by (simp add: u64_sat_add_nat word_le_nat_alt unat_word_ariths)
next
  case False
  then show ?thesis using unsigned_less [of d, where 'a = nat] by (simp add: u64_sat_add_nat)
qed

section \<open>Reachable states\<close>

definition good_policies :: "(string, SessionEnforcementPolicy) hmap \<Rightarrow> bool" where
  "good_policies m \<longleftrightarrow> (\<forall>i p. hm_get m i = Some p \<longrightarrow> sp_session_id p = i \<and> session_policy_validate p = Inr ())"

definition endpoint_inv :: "FastPathState \<Rightarrow> bool" where
  "endpoint_inv st \<longleftrightarrow> hm_invar (fp_attributions st) \<and> length (fp_attributions st) \<le> MAX_ATTRIBUTIONS \<and>
     list_all validate_event_path (fp_protected_prefixes st) \<and>
     good_policies (fp_sessions st) \<and>
     (\<forall>k i. hm_get (fp_attributions st) k = Some i \<longrightarrow> \<not> key_is_zero k \<and> hm_get (fp_sessions st) i \<noteq> None)"

inductive endpoint_reach :: "FastPathState \<Rightarrow> bool" where
  new: "fast_path_new policies protected margin = Inr st \<Longrightarrow> endpoint_reach st"
| bind: "endpoint_reach st \<Longrightarrow> bind_root process i st = Inr st' \<Longrightarrow> endpoint_reach st'"
| event: "endpoint_reach st \<Longrightarrow>
    endpoint_reach (apply_successful_transition st envelope (endpoint_evaluate st envelope t))"

lemma insert_policies_ok: "insert_policies ps m = Inr m' \<Longrightarrow> good_policies m \<Longrightarrow> good_policies m'"
proof (induction ps m rule: insert_policies.induct)
  case (2 p ps m)
  have v: "session_policy_validate p = Inr ()" and n: "\<not> hm_get m (sp_session_id p) \<noteq> None"
    and r: "insert_policies ps (hm_insert (sp_session_id p) p m) = Inr m'"
    using "2.prems"(1) by (auto simp: rbind_eq_Inr split: if_splits)
  have "good_policies (hm_insert (sp_session_id p) p m)"
    using "2.prems"(2) v by (simp add: good_policies_def)
  then show ?case using "2.IH" [OF n r] by blast
qed simp

lemma hm_insert_length: "length (hm_insert k v m) \<le> Suc (length m)"
  by (induction k v m rule: hm_insert.induct) auto

lemma hm_remove_length: "length (hm_remove k m) \<le> length m"
  by (simp add: hm_remove_def)

lemma hm_remove_length_less: "hm_get m k \<noteq> None \<Longrightarrow> length (hm_remove k m) < length m"
  by (induction m) (auto simp: hm_get_def hm_remove_def less_Suc_eq_le)

lemma endpoint_evaluate_simps:
  "\<not> is_authorization (en_operation env) \<Longrightarrow> ed_verdict (endpoint_evaluate st env t) = VerdictObserve"
  "is_authorization (en_operation env) \<Longrightarrow> attributed_session st (pi_key (en_actor env)) = None \<Longrightarrow>
     ed_verdict (endpoint_evaluate st env t) = VerdictAllow \<and> ed_reason (endpoint_evaluate st env t) = UnmanagedProcess"
  by (simp_all add: endpoint_evaluate_def Let_def)

lemma managed_verdict:
  assumes "endpoint_inv st" "attributed_session st (pi_key (en_actor env)) = Some i"
    and "is_authorization (en_operation env)"
  obtains policy where "hm_get (fp_sessions st) i = Some policy"
    "ed_verdict (endpoint_evaluate st env t) =
       (if in_time (fp_deadline_safety_margin_ns st) env t \<and> permitted policy (fp_protected_prefixes st) (en_operation env)
        then VerdictAllow else VerdictDeny)"
    "ed_response (endpoint_evaluate st env t) =
       response_for (en_operation env) (ed_verdict (endpoint_evaluate st env t) = VerdictAllow)"
    "ed_session_id (endpoint_evaluate st env t) = Some i"
proof -
  obtain policy where p: "hm_get (fp_sessions st) i = Some policy" "session_policy_validate policy = Inr ()"
    using assms(1,2) by (fastforce simp: endpoint_inv_def good_policies_def attributed_session_def)
  have pre: "list_all validate_event_path (fp_protected_prefixes st)"
    using assms(1) by (simp add: endpoint_inv_def)
  have late: "(case en_deadline_ns env of None \<Rightarrow> True
      | Some deadline \<Rightarrow> deadline \<le> u64_sat_add t (fp_deadline_safety_margin_ns st)) \<longleftrightarrow>
      \<not> in_time (fp_deadline_safety_margin_ns st) env t"
    by (auto simp: in_time_def le_u64_sat_add split: option.splits)
  obtain allow reason where e: "evaluate_operation policy (fp_protected_prefixes st) (en_operation env) = (allow, reason)"
    by fastforce
  have allow: "allow \<longleftrightarrow> permitted policy (fp_protected_prefixes st) (en_operation env)"
    using evaluate_operation_permitted [OF pre p(2), of "en_operation env"] e by simp
  show thesis
    by (rule that [OF p(1)]) (use assms(2,3) p(1) in \<open>simp_all add: endpoint_evaluate_def late e allow Let_def\<close>)
qed

lemma allowed_exec_target:
  assumes "endpoint_inv st" "en_operation env = OpExec target"
    and "attributed_session st (pi_key (en_actor env)) = Some i"
    and "ed_verdict (endpoint_evaluate st env t) = VerdictAllow"
  shows "\<not> key_is_zero (pi_key target)"
proof -
  have "is_authorization (en_operation env)" using assms(2) by simp
  then show ?thesis
    using managed_verdict [OF assms(1,3), of t] assms(2,4) by (metis EndpointVerdict.distinct(1) permitted.simps(1))
qed

lemma transition_frame:
  "fp_sessions (apply_successful_transition st env d) = fp_sessions st"
  "fp_protected_prefixes (apply_successful_transition st env d) = fp_protected_prefixes st"
  "fp_deadline_safety_margin_ns (apply_successful_transition st env d) = fp_deadline_safety_margin_ns st"
  by (auto simp: apply_successful_transition_def Let_def split: EndpointOperation.splits option.splits)

lemma transition_inv:
  assumes "endpoint_inv st"
  shows "endpoint_inv (apply_successful_transition st env (endpoint_evaluate st env t))"
proof -
  let ?m = "fp_attributions st" and ?actor = "pi_key (en_actor env)"
  have m: "hm_invar ?m" "length ?m \<le> MAX_ATTRIBUTIONS"
    and k: "\<And>k i. hm_get ?m k = Some i \<Longrightarrow> \<not> key_is_zero k \<and> hm_get (fp_sessions st) i \<noteq> None"
    using assms by (auto simp: endpoint_inv_def)
  have upd: "endpoint_inv (st\<lparr>fp_attributions := m'\<rparr>)"
    if "hm_invar m'" "length m' \<le> MAX_ATTRIBUTIONS"
      "\<And>k i. hm_get m' k = Some i \<Longrightarrow> \<not> key_is_zero k \<and> hm_get (fp_sessions st) i \<noteq> None" for m'
    using assms that by (auto simp: endpoint_inv_def)
  show ?thesis
  proof (cases "en_operation env")
    case (OpExec target)
    show ?thesis
    proof (cases "hm_get ?m ?actor")
      case (Some i)
      have len: "length (hm_insert (pi_key target) i (hm_remove ?actor ?m)) \<le> MAX_ATTRIBUTIONS"
        using hm_remove_length_less [of ?m ?actor] hm_insert_length [of "pi_key target" i "hm_remove ?actor ?m"] m(2) Some
        by simp
      show ?thesis
      proof (cases "ed_verdict (endpoint_evaluate st env t) = VerdictAllow")
        case True
        then have "\<not> key_is_zero (pi_key target)"
          using allowed_exec_target [OF assms OpExec _ True] Some by (simp add: attributed_session_def)
        then have "endpoint_inv (st\<lparr>fp_attributions := hm_insert (pi_key target) i (hm_remove ?actor ?m)\<rparr>)"
          by (intro upd) (use m(1) k Some len in \<open>auto simp: hm_laws split: if_splits\<close>)
        then show ?thesis using True OpExec Some by (simp add: apply_successful_transition_def Let_def)
      qed (use assms OpExec in \<open>simp add: apply_successful_transition_def Let_def\<close>)
    qed (use assms OpExec in \<open>simp add: apply_successful_transition_def Let_def\<close>)
  next
    case (OpFork child)
    show ?thesis
    proof (cases "hm_get ?m ?actor")
      case (Some i)
      have "endpoint_inv (st\<lparr>fp_attributions := hm_insert (pi_key child) i ?m\<rparr>)"
        if "\<not> key_is_zero (pi_key child)" "length ?m < MAX_ATTRIBUTIONS \<or> hm_get ?m (pi_key child) \<noteq> None"
        using that m k Some hm_insert_length [of "pi_key child" i ?m] hm.len_insert_present [OF m(1), of "pi_key child" i]
        by (intro upd) (auto simp: hm_laws split: if_splits)
      then show ?thesis using assms OpFork Some by (simp add: apply_successful_transition_def Let_def)
    qed (use assms OpFork in \<open>simp add: apply_successful_transition_def Let_def\<close>)
  next
    case (OpExit status)
    have "endpoint_inv (st\<lparr>fp_attributions := hm_remove ?actor ?m\<rparr>)"
      using m k hm_remove_length [of ?actor ?m] by (intro upd) (auto simp: hm_laws split: if_splits)
    then show ?thesis using OpExit by (simp add: apply_successful_transition_def Let_def)
  qed (use assms in \<open>simp_all add: apply_successful_transition_def Let_def\<close>)
qed

lemma endpoint_reach_inv: "endpoint_reach st \<Longrightarrow> endpoint_inv st"
proof (induction rule: endpoint_reach.induct)
  case (new policies protected margin st)
  then show ?case
    using insert_policies_ok [of policies "[]"]
    by (auto simp: fast_path_new_def endpoint_inv_def good_policies_def hm_invar_def rbind_eq_Inr split: if_splits)
next
  case (bind st process i st')
  then show ?case
    using hm_insert_length [of process i "fp_attributions st"]
    by (auto simp: bind_root_def endpoint_inv_def hm_laws split: if_splits option.splits)
qed (rule transition_inv)

section \<open>The lineage of processes\<close>

text \<open>
  The specification of attribution, without a table: who belongs to which session after an event. A fork
  extends the session to the child, a permitted execution moves it to the new identity, an exit ends it.
\<close>

definition lineage_step :: "EndpointEnvelope \<Rightarrow> bool \<Rightarrow> (ProcessKey \<rightharpoonup> string) \<Rightarrow> (ProcessKey \<rightharpoonup> string)" where
  "lineage_step env allowed owner =
     (let actor = pi_key (en_actor env)
      in case en_operation env of
           OpExec target \<Rightarrow>
             (case owner actor of
                Some i \<Rightarrow> if allowed then (owner(actor := None))(pi_key target \<mapsto> i) else owner
              | None \<Rightarrow> owner)
         | OpFork child \<Rightarrow>
             (case owner actor of
                Some i \<Rightarrow> if key_is_zero (pi_key child) then owner else owner(pi_key child \<mapsto> i)
              | None \<Rightarrow> owner)
         | OpExit status \<Rightarrow> owner(actor := None)
         | oper \<Rightarrow> owner)"

definition lineage_verdict ::
    "(string \<rightharpoonup> SessionEnforcementPolicy) \<Rightarrow> string list \<Rightarrow> u64 \<Rightarrow> (ProcessKey \<rightharpoonup> string) \<Rightarrow> EndpointEnvelope \<Rightarrow> u64
      \<Rightarrow> EndpointVerdict" where
  "lineage_verdict policies pre margin owner env t =
     (if \<not> is_authorization (en_operation env) then VerdictObserve
      else case owner (pi_key (en_actor env)) of
             None \<Rightarrow> VerdictAllow
           | Some i \<Rightarrow>
               if in_time margin env t \<and> permitted (the (policies i)) pre (en_operation env)
               then VerdictAllow else VerdictDeny)"

fun lineage_run ::
    "(string \<rightharpoonup> SessionEnforcementPolicy) \<Rightarrow> string list \<Rightarrow> u64 \<Rightarrow> (EndpointEnvelope \<times> u64) list \<Rightarrow> (ProcessKey \<rightharpoonup> string)
      \<Rightarrow> EndpointVerdict list \<times> (ProcessKey \<rightharpoonup> string)" where
  "lineage_run policies pre margin [] owner = ([], owner)"
| "lineage_run policies pre margin ((env, t) # es) owner =
     (let v = lineage_verdict policies pre margin owner env t;
          (vs, owner') = lineage_run policies pre margin es (lineage_step env (v = VerdictAllow) owner)
      in (v # vs, owner'))"

fun item_events :: "EndpointSourceItem \<Rightarrow> (EndpointEnvelope \<times> u64) list" where
  "item_events (SourceEvent env delay) = [(env, u64_sat_add (en_observed_at_ns env) delay)]"
| "item_events (SourceDropped lost) = []"

fun is_fork :: "EndpointOperation \<Rightarrow> bool" where
  "is_fork (OpFork c) = True"
| "is_fork oper = False"

definition forks :: "EndpointSourceItem list \<Rightarrow> nat" where
  "forks items = length (filter (\<lambda>(env, t). is_fork (en_operation env)) (concat (map item_events items)))"

lemma transition_lineage:
  assumes "endpoint_inv st" and "is_fork (en_operation env) \<Longrightarrow> length (fp_attributions st) < MAX_ATTRIBUTIONS"
  shows "attributed_session (apply_successful_transition st env d) =
     lineage_step env (ed_verdict d = VerdictAllow) (attributed_session st)"
proof -
  have m: "hm_invar (fp_attributions st)" using assms(1) by (simp add: endpoint_inv_def)
  have get: "attributed_session st = hm_get (fp_attributions st)" by (simp add: attributed_session_def fun_eq_iff)
  show ?thesis
    unfolding get using assms(2) m
    by (cases "en_operation env")
       (auto simp: apply_successful_transition_def lineage_step_def attributed_session_def fun_eq_iff Let_def hm_laws
          split: option.splits)
qed

lemma transition_length:
  "length (fp_attributions (apply_successful_transition st env d)) \<le>
     length (fp_attributions st) + (if is_fork (en_operation env) then 1 else 0)"
  using hm_insert_length hm_remove_length hm_remove_length_less
  by (cases "en_operation env")
     (fastforce simp: apply_successful_transition_def Let_def intro: order_trans [OF hm_insert_length] split: option.splits)+

lemma evaluate_lineage:
  assumes "endpoint_inv st"
  shows "ed_verdict (endpoint_evaluate st env t) =
     lineage_verdict (hm_get (fp_sessions st)) (fp_protected_prefixes st) (fp_deadline_safety_margin_ns st)
       (attributed_session st) env t"
proof (cases "is_authorization (en_operation env)")
  case True
  show ?thesis
  proof (cases "attributed_session st (pi_key (en_actor env))")
    case None
    then show ?thesis using True endpoint_evaluate_simps(2) by (simp add: lineage_verdict_def)
  next
    case (Some i)
    show ?thesis
      by (rule managed_verdict [OF assms Some True, of t]) (use True Some in \<open>simp add: lineage_verdict_def\<close>)
  qed
qed (simp add: lineage_verdict_def endpoint_evaluate_simps(1))

lemma simulate_event:
  "sm_state (simulate_item (SourceEvent env delay) s) =
     apply_successful_transition (sm_state s) env
       (endpoint_evaluate (sm_state s) env (u64_sat_add (en_observed_at_ns env) delay))"
  "sm_decisions (simulate_item (SourceEvent env delay) s) =
     sm_decisions s @ [endpoint_evaluate (sm_state s) env (u64_sat_add (en_observed_at_ns env) delay)]"
  "sm_state (simulate_item (SourceDropped lost) s) = sm_state s"
  "sm_decisions (simulate_item (SourceDropped lost) s) = sm_decisions s"
  by (auto simp: Let_def split: option.splits)

lemma simulate_items_lineage:
  assumes "endpoint_inv (sm_state s)" "length (fp_attributions (sm_state s)) + forks items \<le> MAX_ATTRIBUTIONS"
  shows "let s' = fold simulate_item items s;
             (vs, owner) = lineage_run (hm_get (fp_sessions (sm_state s))) (fp_protected_prefixes (sm_state s))
               (fp_deadline_safety_margin_ns (sm_state s)) (concat (map item_events items)) (attributed_session (sm_state s))
         in map ed_verdict (sm_decisions s') = map ed_verdict (sm_decisions s) @ vs \<and>
            attributed_session (sm_state s') = owner"
  using assms
proof (induction items arbitrary: s)
  case (Cons item items)
  show ?case
  proof (cases item)
    case (SourceEvent env delay)
    let ?t = "u64_sat_add (en_observed_at_ns env) delay" and ?s = "simulate_item item s"
    have fork: "is_fork (en_operation env) \<Longrightarrow> length (fp_attributions (sm_state s)) < MAX_ATTRIBUTIONS"
      using Cons.prems(2) SourceEvent by (simp add: forks_def)
    have next_inv: "endpoint_inv (sm_state ?s)"
      using transition_inv [OF Cons.prems(1)] SourceEvent by (simp only: simulate_event)
    have room: "length (fp_attributions (sm_state ?s)) + forks items \<le> MAX_ATTRIBUTIONS"
      using Cons.prems(2) transition_length [of "sm_state s" env "endpoint_evaluate (sm_state s) env ?t"] SourceEvent
      by (auto simp: forks_def simulate_event simp del: simulate_item.simps split: if_splits)
    show ?thesis
      using Cons.IH [OF next_inv room] transition_lineage [OF Cons.prems(1) fork]
        evaluate_lineage [OF Cons.prems(1), of env ?t] SourceEvent
      by (simp add: simulate_event transition_frame Let_def split_beta del: simulate_item.simps)
  next
    case (SourceDropped lost)
    then show ?thesis
      using Cons.IH [of "simulate_item item s"] Cons.prems
      by (simp add: simulate_event forks_def Let_def split_beta del: simulate_item.simps)
  qed
qed simp

declare simulator_loop.simps [simp del]

lemma simulator_loop_drains:
  "\<not> so_fail_next src \<Longrightarrow>
     simulator_loop src s = (Inr (), src\<lparr>so_items := []\<rparr>, fold simulate_item (so_items src) s)"
proof (induction "so_items src" arbitrary: src s)
  case Nil
  then show ?case by (subst simulator_loop.simps) (simp add: next_item_def)
next
  case (Cons item items)
  then show ?case
    using Cons(1) [of "src\<lparr>so_items := items\<rparr>" "simulate_item item s"]
    by (subst simulator_loop.simps) (simp add: next_item_def Cons(2) [symmetric] del: simulate_item.simps)
qed

section \<open>A session on a workspace\<close>

definition sample_session_policy :: SessionEnforcementPolicy where
  "sample_session_policy = \<lparr>sp_session_id = ''s1'', sp_workspace_roots = [''/w''], sp_allowed_executables = [''/bin/x'']\<rparr>"

definition sample_key :: "nat \<Rightarrow> ProcessKey" where
  "sample_key n = replicate 30 1 @ [of_nat (n div 256), of_nat n]"

definition sample_table :: "nat \<Rightarrow> FastPathState" where
  "sample_table n = \<lparr>fp_sessions = [(''s1'', sample_session_policy)],
     fp_attributions = map (\<lambda>i. (sample_key i, ''s1'')) [0..<n],
     fp_protected_prefixes = [''/w/.ssh''], fp_deadline_safety_margin_ns = 5\<rparr>"

definition sample_process :: "ProcessKey \<Rightarrow> ProcessIdentity" where
  "sample_process k = \<lparr>pi_key = k, pi_pid = 1, pi_parent_pid = 1,
     pi_executable = \<lparr>ep_value = ''/bin/x'', ep_truncated = False\<rparr>, pi_signing_id = None, pi_team_id = None,
     pi_is_platform_binary = False, pi_is_es_client = False\<rparr>"

definition sample_envelope :: "ProcessKey \<Rightarrow> EndpointOperation \<Rightarrow> EndpointEnvelope" where
  "sample_envelope k oper = \<lparr>en_observed_at_ns = 10, en_deadline_ns = Some 100, en_sequence = None,
     en_global_sequence = None, en_actor = sample_process k, en_operation = oper\<rparr>"

definition sample_open :: EndpointOperation where
  "sample_open = OpOpen \<lparr>ep_value = ''/w/a'', ep_truncated = False\<rparr> 1"

lemma sample_table_new: "fast_path_new [sample_session_policy] [''/w/.ssh''] 5 = Inr (sample_table 0)"
  by code_simp

lemma sample_table_bound: "endpoint_reach (sample_table 1)"
proof (rule endpoint_reach.bind)
  show "endpoint_reach (sample_table 0)" by (rule endpoint_reach.new [OF sample_table_new])
  show "bind_root (sample_key 0) ''s1'' (sample_table 0) = Inr (sample_table 1)" by code_simp
qed

lemma one_not_two: "(1 :: u8) \<noteq> 2"
  by simp

section \<open>Properties\<close>

text \<open>
  C17: a managed process is confined. In every reachable state the session of a managed process has a
  policy, and an authorization request of the process is allowed exactly when there is time left before
  the deadline and the operation is permitted: an exact executable that is not protected, or complete,
  traversal-free paths below a workspace root and below no protected prefix. The response carries the
  verdict.
\<close>

theorem managed_operation_confined:
  assumes "endpoint_reach st" and "attributed_session st (pi_key (en_actor env)) = Some i"
    and "is_authorization (en_operation env)"
  shows "\<exists>policy. hm_get (fp_sessions st) i = Some policy \<and>
     (let d = endpoint_evaluate st env t;
          ok = in_time (fp_deadline_safety_margin_ns st) env t \<and>
               permitted policy (fp_protected_prefixes st) (en_operation env)
      in ed_verdict d = (if ok then VerdictAllow else VerdictDeny) \<and>
         ed_response d = response_for (en_operation env) ok \<and> ed_session_id d = Some i)"
  by (rule managed_verdict [OF endpoint_reach_inv [OF assms(1)] assms(2,3), of t])
     (auto simp: Let_def)

theorem managed_operation_confined_witness:
  "let d = endpoint_evaluate (sample_table 1) (sample_envelope (sample_key 0) sample_open) 20
   in ed_verdict d = VerdictAllow \<and> ed_response d = RespondOpenFlags 1 False"
proof -
  let ?env = "sample_envelope (sample_key 0) sample_open"
  have h: "attributed_session (sample_table 1) (pi_key (en_actor ?env)) = Some ''s1''"
    "is_authorization (en_operation ?env)" by code_simp+
  have ok: "hm_get (fp_sessions (sample_table 1)) ''s1'' = Some sample_session_policy"
    "en_deadline_ns ?env = Some 100 \<and> unat (20 :: u64) + unat (fp_deadline_safety_margin_ns (sample_table 1)) < unat (100 :: u64)"
    "permitted sample_session_policy (fp_protected_prefixes (sample_table 1)) (en_operation ?env)"
    "response_for (en_operation ?env) True = RespondOpenFlags 1 False"
    by code_simp+
  have "in_time (fp_deadline_safety_margin_ns (sample_table 1)) ?env 20"
    using ok(2) by (auto simp: in_time_def)
  with ok show ?thesis
    using managed_operation_confined [OF sample_table_bound h, of 20] by (simp add: Let_def)
qed

text \<open>
  C18: the simulator implements the lineage while the table has room. If the attribution table has room for all the children that
  the source announces and the source does not fail, draining it succeeds, its verdicts are those of the specification in
  which sessions are inherited by children and carried over permitted executions, and the table afterwards is the lineage. With a
  full table this is not so: see the theorem on full tables below.
\<close>

theorem simulator_refines_lineage:
  assumes "endpoint_reach st" and "\<not> so_fail_next src"
    and "length (fp_attributions st) + forks (so_items src) \<le> MAX_ATTRIBUTIONS"
  shows "\<exists>report last_global st'. simulator_run start src st = (Inr report, last_global, src\<lparr>so_items := []\<rparr>, st') \<and>
     lineage_run (hm_get (fp_sessions st)) (fp_protected_prefixes st) (fp_deadline_safety_margin_ns st)
       (concat (map item_events (so_items src))) (attributed_session st) =
     (map ed_verdict (sr_decisions report), attributed_session st')"
proof -
  let ?s = "\<lparr>sm_last_global_sequence = start, sm_state = st, sm_decisions = [], sm_metrics = metrics_default\<rparr>"
  show ?thesis
    using simulate_items_lineage [of ?s "so_items src"] endpoint_reach_inv [OF assms(1)] assms(3)
    by (auto simp: simulator_run_def simulator_loop_drains [OF assms(2)] Let_def split_beta prod_eq_iff)
qed

theorem simulator_refines_lineage_witness:
  "let src = \<lparr>so_items = [SourceEvent (sample_envelope (sample_key 0) (OpFork (sample_process (sample_key 7)))) 0,
                         SourceEvent (sample_envelope (sample_key 7) sample_open) 0], so_fail_next = False\<rparr>
   in \<exists>report last_global st'. simulator_run None src (sample_table 1) = (Inr report, last_global, src\<lparr>so_items := []\<rparr>, st') \<and>
        map ed_verdict (sr_decisions report) = [VerdictObserve, VerdictAllow] \<and>
        attributed_session st' (sample_key 7) = Some ''s1''"
proof -
  define src where "src = \<lparr>so_items = [SourceEvent (sample_envelope (sample_key 0) (OpFork (sample_process (sample_key 7)))) 0,
      SourceEvent (sample_envelope (sample_key 7) sample_open) 0], so_fail_next = False\<rparr>"
  have "forks (so_items src) = 1" "length (fp_attributions (sample_table 1)) = 1"
    by (simp_all add: src_def forks_def sample_envelope_def sample_open_def sample_table_def)
  then have h: "length (fp_attributions (sample_table 1)) + forks (so_items src) \<le> MAX_ATTRIBUTIONS"
    by (simp add: MAX_ATTRIBUTIONS_def)
  have f: "\<not> so_fail_next src" by (simp add: src_def)
  obtain report last_global st' where r: "simulator_run None src (sample_table 1) = (Inr report, last_global, src\<lparr>so_items := []\<rparr>, st')"
    "lineage_run (hm_get (fp_sessions (sample_table 1))) (fp_protected_prefixes (sample_table 1))
       (fp_deadline_safety_margin_ns (sample_table 1)) (concat (map item_events (so_items src))) (attributed_session (sample_table 1)) =
     (map ed_verdict (sr_decisions report), attributed_session st')"
    using simulator_refines_lineage [OF sample_table_bound f h] by blast
  have "case simulator_run None src (sample_table 1) of (Inr report, _, _, st') \<Rightarrow>
      map ed_verdict (sr_decisions report) = [VerdictObserve, VerdictAllow] \<and>
      attributed_session st' (sample_key 7) = Some ''s1'' | _ \<Rightarrow> False"
    unfolding src_def by code_simp
  with r(1) show ?thesis by (auto simp: src_def Let_def)
qed

text \<open>
  A full table fails open. When the attribution table is full, the child of a managed process is not
  recorded, and every later authorization request of the child is allowed as that of an unmanaged process.
\<close>

theorem full_table_child_unmanaged:
  assumes "MAX_ATTRIBUTIONS \<le> length (fp_attributions st)"
    and "en_operation env = OpFork child" and "attributed_session st (pi_key child) = None"
    and "pi_key (en_actor env') = pi_key child" and "is_authorization (en_operation env')"
  shows "let d = endpoint_evaluate (apply_successful_transition st env (endpoint_evaluate st env t)) env' t'
     in ed_verdict d = VerdictAllow \<and> ed_reason d = UnmanagedProcess"
proof -
  have "apply_successful_transition st env (endpoint_evaluate st env t) = st"
    using assms(1-3) by (auto simp: apply_successful_transition_def attributed_session_def Let_def split: option.splits)
  then show ?thesis
    using endpoint_evaluate_simps(2) [of env' st t'] assms(3-5) by (simp add: Let_def)
qed

theorem full_table_child_unmanaged_witness:
  "attributed_session (sample_table MAX_ATTRIBUTIONS) (sample_key 0) = Some ''s1'' \<and>
   (let child = replicate 32 2; st = sample_table MAX_ATTRIBUTIONS;
        fork = sample_envelope (sample_key 0) (OpFork (sample_process child));
        d = endpoint_evaluate (apply_successful_transition st fork (endpoint_evaluate st fork 20))
              (sample_envelope child (OpUnlink \<lparr>ep_value = ''/w/.ssh/id'', ep_truncated = False\<rparr>)) 20
    in ed_verdict d = VerdictAllow)"
proof -
  let ?st = "sample_table MAX_ATTRIBUTIONS" and ?child = "replicate 32 2 :: u8 list"
  let ?fork = "sample_envelope (sample_key 0) (OpFork (sample_process ?child))"
  let ?env = "sample_envelope ?child (OpUnlink \<lparr>ep_value = ''/w/.ssh/id'', ep_truncated = False\<rparr>)"
  have "sample_key i ! 0 = 1" "?child ! 0 = 2" for i
    by (simp_all add: sample_key_def nth_append)
  then have "sample_key i \<noteq> ?child" for i
    by (metis one_not_two)
  then have none: "attributed_session ?st (pi_key (sample_process ?child)) = None"
    by (fastforce simp: attributed_session_def sample_table_def hm_get_def map_of_eq_None_iff sample_process_def)
  have "0 < MAX_ATTRIBUTIONS" by (simp add: MAX_ATTRIBUTIONS_def)
  then have "[0..<MAX_ATTRIBUTIONS] = 0 # [Suc 0..<MAX_ATTRIBUTIONS]" by (rule upt_conv_Cons)
  then have "attributed_session ?st (sample_key 0) = Some ''s1''"
    by (simp add: attributed_session_def sample_table_def hm_get_def)
  then show ?thesis
    using full_table_child_unmanaged [of ?st ?fork "sample_process ?child" ?env 20 20] none
    by (simp add: Let_def sample_envelope_def sample_table_def sample_process_def)
qed

end
