(* ===== verification/Envelopes.thy ===== *)
theory Envelopes
  imports Endpoint
begin

text \<open>
  Signed policy snapshots of the endpoint extension (\<^verbatim>\<open>vigil-endpoint/src/snapshot.rs\<close>): structure, canonical
  signing and verification. The contract of a verifier, which the network extension shares, is the locale
  \<open>policy_verifier\<close>. Serde, Base64 and Ed25519 are the fields of a record; an \<^verbatim>\<open>i64\<close> is an integer, with
  saturation written out.
\<close>

section \<open>Identifiers and encodings\<close>

definition i64_saturate :: "int \<Rightarrow> int" where
  "i64_saturate x = clamp x (- (2 ^ 63)) (2 ^ 63 - 1)"

datatype envelope_error =
    BadIdentifier string
  | BadStructure endpoint_error
  | BadField string
  | PolicyRejected string
  | PolicyConfig string
  | PolicyNotCanonical canon_error

definition identifier_char :: "char \<Rightarrow> bool" where
  "identifier_char c = (is_ascii_alphanumeric c \<or> c \<in> {CHR ''.'', CHR ''_'', CHR ''-''})"

definition validate_identifier :: "string \<Rightarrow> string \<Rightarrow> nat \<Rightarrow> envelope_error + unit" where
  "validate_identifier field v maximum =
     ensure (v \<noteq> [] \<and> str_len v \<le> maximum \<and> list_all identifier_char v) (BadIdentifier field)"

definition encoded_len_bound :: "nat \<Rightarrow> nat" where
  "encoded_len_bound decoded = (decoded + 2) div 3 * 4"

definition base64url_char :: "char \<Rightarrow> bool" where
  "base64url_char c = (is_ascii_alphanumeric c \<or> c = CHR ''-'' \<or> c = CHR ''_'')"

definition decode_base64url :: "(string \<Rightarrow> u8 list option) \<Rightarrow> string \<Rightarrow> string \<Rightarrow> envelope_error + u8 list" where
  "decode_base64url decode v field =
     (if v = [] \<or> \<not> list_all base64url_char v then Inl (PolicyRejected field)
      else ok_or (decode v) (PolicyRejected field))"

record SignedPolicyEnvelope =
  se_format :: string
  se_algorithm :: string
  se_key_id :: string
  se_payload :: string
  se_signature :: string

text \<open>
  The libraries behind a signed snapshot of type \<open>'s\<close>: the JSON coding of a snapshot and of an envelope,
  Base64 without padding, and Ed25519 with its keys.
\<close>

record ('s, 'sk, 'vk) policy_codec =
  pk_value :: "'s \<Rightarrow> json"
  pk_parse :: "u8 list \<Rightarrow> 's option"
  pk_envelope_parse :: "u8 list \<Rightarrow> SignedPolicyEnvelope option"
  pk_format :: number_format
  pk_b64_encode :: "u8 list \<Rightarrow> string"
  pk_b64_decode :: "string \<Rightarrow> u8 list option"
  pk_signing_key :: "u8 list \<Rightarrow> 'sk"
  pk_verifying_key :: "u8 list \<Rightarrow> 'vk option"
  pk_public :: "'sk \<Rightarrow> 'vk"
  pk_sign :: "'sk \<Rightarrow> u8 list \<Rightarrow> u8 list"
  pk_verify :: "'vk \<Rightarrow> u8 list \<Rightarrow> u8 list \<Rightarrow> bool"

definition POLICY_FORMAT :: string where "POLICY_FORMAT = ''vigil.signed-envelope/v1''"
definition POLICY_ALGORITHM :: string where "POLICY_ALGORITHM = ''Ed25519''"
definition MAX_ENVELOPE_BYTES :: nat where "MAX_ENVELOPE_BYTES = 2 * 1024 * 1024"
definition MAX_PAYLOAD_BYTES :: nat where "MAX_PAYLOAD_BYTES = 1024 * 1024"
definition MAX_KEY_ID_BYTES :: nat where "MAX_KEY_ID_BYTES = 64"
definition MAX_INSTANCE_ID_BYTES :: nat where "MAX_INSTANCE_ID_BYTES = 128"
definition MAX_TRUSTED_KEYS :: nat where "MAX_TRUSTED_KEYS = 16"
definition MAX_SNAPSHOT_LIFETIME_MS :: int where "MAX_SNAPSHOT_LIFETIME_MS = 24 * 60 * 60 * 1000"
definition MAX_CLOCK_SKEW_MS :: int where "MAX_CLOCK_SKEW_MS = 30000"

record 'sk PolicySigningKey =
  ks_key_id :: string
  ks_key :: 'sk

record 'vk PolicyVerifier =
  pv_expected_instance_id :: string
  pv_keys :: "(string, 'vk) hmap"

definition policy_key_from_seed ::
    "('s, 'sk, 'vk) policy_codec \<Rightarrow> string \<Rightarrow> u8 list \<Rightarrow> envelope_error + 'sk PolicySigningKey" where
  "policy_key_from_seed k key_id seed =
     rbind (validate_identifier ''key_id'' key_id MAX_KEY_ID_BYTES) (\<lambda>_.
     rbind (ensure (length seed = 32) (PolicyConfig ''seed'')) (\<lambda>_.
       Inr \<lparr>ks_key_id = key_id, ks_key = pk_signing_key k seed\<rparr>))"

definition policy_verifier_new :: "string \<Rightarrow> envelope_error + 'vk PolicyVerifier" where
  "policy_verifier_new i =
     rbind (validate_identifier ''target_instance_id'' i MAX_INSTANCE_ID_BYTES) (\<lambda>_.
       Inr \<lparr>pv_expected_instance_id = i, pv_keys = []\<rparr>)"

definition policy_trust_key ::
    "('s, 'sk, 'vk) policy_codec \<Rightarrow> string \<Rightarrow> u8 list \<Rightarrow> 'vk PolicyVerifier \<Rightarrow> envelope_error + 'vk PolicyVerifier" where
  "policy_trust_key k key_id bytes v =
     rbind (validate_identifier ''key_id'' key_id MAX_KEY_ID_BYTES) (\<lambda>_.
     rbind (ensure (\<not> (MAX_TRUSTED_KEYS \<le> length (pv_keys v) \<and> hm_get (pv_keys v) key_id = None))
              (PolicyConfig ''bound'')) (\<lambda>_.
     rbind (ensure (length bytes = 32) (PolicyConfig ''length'')) (\<lambda>_.
     rbind (ok_or (pk_verifying_key k bytes) (PolicyConfig ''key'')) (\<lambda>key.
       Inr (v\<lparr>pv_keys := hm_insert key_id key (pv_keys v)\<rparr>)))))"

section \<open>Endpoint snapshots\<close>

definition ENDPOINT_POLICY_SCHEMA :: string where
  "ENDPOINT_POLICY_SCHEMA = ''vigil.endpoint-policy/v1''"

definition ENDPOINT_SIGNING_DOMAIN :: "u8 list" where
  "ENDPOINT_SIGNING_DOMAIN = utf8 ''VIGIL_ENDPOINT_POLICY_V1'' @ [0]"

record EndpointPolicySnapshot =
  es_schema_version :: string
  es_target_instance_id :: string
  es_generation :: u64
  es_issued_at_unix_ms :: int
  es_expires_at_unix_ms :: int
  es_sessions :: "SessionEnforcementPolicy list"
  es_protected_prefixes :: "string list"

text \<open>The loop over the sessions: each is validated, and its identifier must be new.\<close>

fun snapshot_sessions :: "string set \<Rightarrow> SessionEnforcementPolicy list \<Rightarrow> envelope_error + unit" where
  "snapshot_sessions seen [] = Inr ()"
| "snapshot_sessions seen (p # ps) =
     (case session_policy_validate p of
        Inl err \<Rightarrow> Inl (BadStructure err)
      | Inr _ \<Rightarrow>
          if sp_session_id p \<in> seen then Inl (PolicyRejected ''duplicate session'')
          else snapshot_sessions (insert (sp_session_id p) seen) ps)"

definition validity_window_ok :: "int \<Rightarrow> int \<Rightarrow> bool" where
  "validity_window_ok issued expires =
     (0 \<le> issued \<and> issued < expires \<and> i64_saturate (expires - issued) \<le> MAX_SNAPSHOT_LIFETIME_MS)"

definition snapshot_validate_structure :: "EndpointPolicySnapshot \<Rightarrow> envelope_error + unit" where
  "snapshot_validate_structure s =
     rbind (ensure (es_schema_version s = ENDPOINT_POLICY_SCHEMA) (PolicyRejected ''schema'')) (\<lambda>_.
     rbind (validate_identifier ''target_instance_id'' (es_target_instance_id s) MAX_INSTANCE_ID_BYTES) (\<lambda>_.
     rbind (ensure (es_generation s \<noteq> 0) (PolicyRejected ''generation'')) (\<lambda>_.
     rbind (ensure (validity_window_ok (es_issued_at_unix_ms s) (es_expires_at_unix_ms s)) (PolicyRejected ''window'')) (\<lambda>_.
     rbind (ensure (length (es_sessions s) \<le> MAX_SESSIONS) (PolicyRejected ''sessions'')) (\<lambda>_.
     rbind (ensure (length (es_protected_prefixes s) \<le> MAX_PROTECTED_PREFIXES) (PolicyRejected ''prefixes'')) (\<lambda>_.
     rbind (snapshot_sessions {} (es_sessions s)) (\<lambda>_.
       case fast_path_new (es_sessions s) (es_protected_prefixes s) 0 of
         Inl err \<Rightarrow> Inl (BadStructure err) | Inr _ \<Rightarrow> Inr ())))))))"

text \<open>\<^verbatim>\<open>Vec::dedup\<close> after sorting; \<^verbatim>\<open>sort_by\<close> is stable.\<close>

definition snapshot_new ::
    "string \<Rightarrow> u64 \<Rightarrow> int \<Rightarrow> int \<Rightarrow> SessionEnforcementPolicy list \<Rightarrow> string list \<Rightarrow> envelope_error + EndpointPolicySnapshot" where
  "snapshot_new i generation issued expires sessions protected =
     (let s = \<lparr>es_schema_version = ENDPOINT_POLICY_SCHEMA, es_target_instance_id = i, es_generation = generation,
               es_issued_at_unix_ms = issued, es_expires_at_unix_ms = expires,
               es_sessions = sort_key sp_session_id sessions, es_protected_prefixes = remdups_adj (sort protected)\<rparr>
      in rbind (snapshot_validate_structure s) (\<lambda>_. Inr s))"

definition snapshot_compile :: "EndpointPolicySnapshot \<Rightarrow> u64 \<Rightarrow> envelope_error + FastPathState" where
  "snapshot_compile s margin =
     rbind (snapshot_validate_structure s) (\<lambda>_.
       case fast_path_new (es_sessions s) (es_protected_prefixes s) margin of
         Inl err \<Rightarrow> Inl (BadStructure err) | Inr st \<Rightarrow> Inr st)"

definition sign_endpoint_policy ::
    "(EndpointPolicySnapshot, 'sk, 'vk) policy_codec \<Rightarrow> 'sk PolicySigningKey \<Rightarrow> EndpointPolicySnapshot
      \<Rightarrow> envelope_error + SignedPolicyEnvelope" where
  "sign_endpoint_policy k key s =
     rbind (snapshot_validate_structure s) (\<lambda>_.
       case canonical_bytes (pk_format k) (pk_value k s) of
         Inl err \<Rightarrow> Inl (PolicyNotCanonical err)
       | Inr payload \<Rightarrow>
           if MAX_PAYLOAD_BYTES < length payload then Inl (PolicyRejected ''payload'')
           else Inr \<lparr>se_format = POLICY_FORMAT, se_algorithm = POLICY_ALGORITHM, se_key_id = ks_key_id key,
                     se_payload = pk_b64_encode k payload,
                     se_signature = pk_b64_encode k (pk_sign k (ks_key key) (ENDPOINT_SIGNING_DOMAIN @ payload))\<rparr>)"

definition currently_valid :: "int \<Rightarrow> int \<Rightarrow> int \<Rightarrow> bool" where
  "currently_valid issued expires now =
     (0 \<le> now \<and> issued \<le> i64_saturate (now + MAX_CLOCK_SKEW_MS) \<and> now < expires)"

definition verify_endpoint_policy ::
    "(EndpointPolicySnapshot, 'sk, 'vk) policy_codec \<Rightarrow> 'vk PolicyVerifier \<Rightarrow> SignedPolicyEnvelope \<Rightarrow> int
      \<Rightarrow> envelope_error + EndpointPolicySnapshot" where
  "verify_endpoint_policy k v env now =
     rbind (ensure (se_format env = POLICY_FORMAT \<and> se_algorithm env = POLICY_ALGORITHM) (PolicyRejected ''envelope'')) (\<lambda>_.
     rbind (ensure (is_ok (validate_identifier ''key_id'' (se_key_id env) MAX_KEY_ID_BYTES)) (PolicyRejected ''key id'')) (\<lambda>_.
     rbind (ok_or (hm_get (pv_keys v) (se_key_id env)) (PolicyRejected ''untrusted key'')) (\<lambda>key.
     rbind (ensure (str_len (se_payload env) \<le> encoded_len_bound MAX_PAYLOAD_BYTES \<and>
                    str_len (se_signature env) \<le> encoded_len_bound 64) (PolicyRejected ''encoding bound'')) (\<lambda>_.
     rbind (decode_base64url (pk_b64_decode k) (se_payload env) ''payload'') (\<lambda>payload.
     rbind (ensure (length payload \<le> MAX_PAYLOAD_BYTES) (PolicyRejected ''payload bound'')) (\<lambda>_.
     rbind (decode_base64url (pk_b64_decode k) (se_signature env) ''signature'') (\<lambda>signature.
     rbind (ensure (length signature = 64) (PolicyRejected ''signature'')) (\<lambda>_.
     rbind (ensure (pk_verify k key (ENDPOINT_SIGNING_DOMAIN @ payload) signature) (PolicyRejected ''signature'')) (\<lambda>_.
     rbind (ok_or (pk_parse k payload) (PolicyRejected ''payload'')) (\<lambda>s.
     rbind (snapshot_validate_structure s) (\<lambda>_.
     rbind (ensure (es_target_instance_id s = pv_expected_instance_id v) (PolicyRejected ''instance'')) (\<lambda>_.
     rbind (ensure (currently_valid (es_issued_at_unix_ms s) (es_expires_at_unix_ms s) now) (PolicyRejected ''validity'')) (\<lambda>_.
       Inr s)))))))))))))"

definition verify_endpoint_json ::
    "(EndpointPolicySnapshot, 'sk, 'vk) policy_codec \<Rightarrow> 'vk PolicyVerifier \<Rightarrow> u8 list \<Rightarrow> int
      \<Rightarrow> envelope_error + EndpointPolicySnapshot" where
  "verify_endpoint_json k v json now =
     (if MAX_ENVELOPE_BYTES < length json then Inl (PolicyRejected ''envelope bound'')
      else rbind (ok_or (pk_envelope_parse k json) (PolicyRejected ''malformed envelope'')) (\<lambda>env.
        verify_endpoint_policy k v env now))"


section \<open>What a verifier promises\<close>

lemma i64_saturate_le: "0 \<le> x \<Longrightarrow> i64_saturate x \<le> x"
  by (simp add: i64_saturate_def clamp_def)

lemma window_length: "validity_window_ok issued expires \<Longrightarrow> expires \<le> issued + MAX_SNAPSHOT_LIFETIME_MS"
  by (auto simp: validity_window_ok_def i64_saturate_def clamp_def MAX_SNAPSHOT_LIFETIME_MS_def split: if_splits)

locale policy_verifier =
  fixes verify :: "'e \<Rightarrow> int \<Rightarrow> 'err + 's"
    and valid :: "'s \<Rightarrow> bool"
    and target :: "'s \<Rightarrow> string"
    and issued :: "'s \<Rightarrow> int"
    and expires :: "'s \<Rightarrow> int"
    and expected :: string
  assumes accepts: "verify env now = Inr s \<Longrightarrow>
      valid s \<and> target s = expected \<and> currently_valid (issued s) (expires s) now"
    and window: "valid s \<Longrightarrow> validity_window_ok (issued s) (expires s)"
    and content: "verify env now = Inr s \<Longrightarrow> verify env now' = Inr s' \<Longrightarrow> s' = s"
begin

lemma acceptance_window:
  assumes "verify env now = Inr s" "verify env now' = Inr s'"
  shows "s' = s \<and> now' < now + MAX_SNAPSHOT_LIFETIME_MS + MAX_CLOCK_SKEW_MS"
proof -
  have s: "s' = s" using assms by (rule content)
  have "now' < expires s" "issued s \<le> i64_saturate (now + MAX_CLOCK_SKEW_MS)" "0 \<le> now"
    using accepts [OF assms(1)] accepts [OF assms(2)] s by (simp_all add: currently_valid_def)
  moreover have "expires s \<le> issued s + MAX_SNAPSHOT_LIFETIME_MS"
    using accepts [OF assms(1)] window window_length by blast
  moreover have "i64_saturate (now + MAX_CLOCK_SKEW_MS) \<le> now + MAX_CLOCK_SKEW_MS"
    using \<open>0 \<le> now\<close> by (intro i64_saturate_le) (simp add: MAX_CLOCK_SKEW_MS_def)
  ultimately show ?thesis using s by simp
qed

lemma never_expired: "verify env now = Inr s \<Longrightarrow> now < expires s"
  using accepts by (simp add: currently_valid_def)

end

lemma snapshot_structure_window:
  "snapshot_validate_structure s = Inr () \<Longrightarrow> validity_window_ok (es_issued_at_unix_ms s) (es_expires_at_unix_ms s)"
  by (simp add: snapshot_validate_structure_def rbind_eq_Inr)

lemma verify_endpoint_ok:
  "verify_endpoint_policy k v env now = Inr s \<longleftrightarrow>
     se_format env = POLICY_FORMAT \<and> se_algorithm env = POLICY_ALGORITHM \<and>
     validate_identifier ''key_id'' (se_key_id env) MAX_KEY_ID_BYTES = Inr () \<and>
     str_len (se_payload env) \<le> encoded_len_bound MAX_PAYLOAD_BYTES \<and>
     str_len (se_signature env) \<le> encoded_len_bound 64 \<and>
     (\<exists>key payload signature. hm_get (pv_keys v) (se_key_id env) = Some key \<and>
        decode_base64url (pk_b64_decode k) (se_payload env) ''payload'' = Inr payload \<and>
        length payload \<le> MAX_PAYLOAD_BYTES \<and>
        decode_base64url (pk_b64_decode k) (se_signature env) ''signature'' = Inr signature \<and>
        length signature = 64 \<and> pk_verify k key (ENDPOINT_SIGNING_DOMAIN @ payload) signature \<and>
        pk_parse k payload = Some s) \<and>
     snapshot_validate_structure s = Inr () \<and> es_target_instance_id s = pv_expected_instance_id v \<and>
     currently_valid (es_issued_at_unix_ms s) (es_expires_at_unix_ms s) now"
  by (auto simp: verify_endpoint_policy_def rbind_eq_Inr is_ok_iff)

interpretation endpoint_verifier: policy_verifier "verify_endpoint_policy k v"
  "\<lambda>s. snapshot_validate_structure s = Inr ()" es_target_instance_id es_issued_at_unix_ms es_expires_at_unix_ms
  "pv_expected_instance_id v" for k v
proof
  fix env now s now' s'
  assume "verify_endpoint_policy k v env now = Inr s" "verify_endpoint_policy k v env now' = Inr s'"
  then show "s' = s" unfolding verify_endpoint_ok by auto
qed (auto simp: verify_endpoint_ok intro: snapshot_structure_window)

section \<open>Signing and verifying\<close>

text \<open>What the encoder does with one message: the text decodes to it, in the alphabet and within the bound.\<close>

definition transports :: "('s, 'sk, 'vk) policy_codec \<Rightarrow> u8 list \<Rightarrow> bool" where
  "transports k b \<longleftrightarrow> pk_b64_decode k (pk_b64_encode k b) = Some b \<and> pk_b64_encode k b \<noteq> [] \<and>
     list_all base64url_char (pk_b64_encode k b) \<and> str_len (pk_b64_encode k b) \<le> encoded_len_bound (length b)"

definition signs_correctly :: "('s, 'sk, 'vk) policy_codec \<Rightarrow> bool" where
  "signs_correctly k \<longleftrightarrow>
     (\<forall>sk m. length (pk_sign k sk m) = 64 \<and> pk_verify k (pk_public k sk) m (pk_sign k sk m))"

lemma transported: "transports k b \<Longrightarrow> decode_base64url (pk_b64_decode k) (pk_b64_encode k b) field = Inr b"
  by (simp add: transports_def decode_base64url_def)

lemma encoded_len_bound_mono: "m \<le> n \<Longrightarrow> encoded_len_bound m \<le> encoded_len_bound n"
  by (simp add: encoded_len_bound_def div_le_mono)

lemma transports_bound: "transports k b \<Longrightarrow> length b \<le> n \<Longrightarrow> str_len (pk_b64_encode k b) \<le> encoded_len_bound n"
  using encoded_len_bound_mono le_trans by (fastforce simp: transports_def)

lemma snapshot_sessions_ok:
  "snapshot_sessions seen ps = Inr () \<Longrightarrow> (\<And>i. hm_get m i \<noteq> None \<Longrightarrow> i \<in> seen) \<Longrightarrow> \<exists>m'. insert_policies ps m = Inr m'"
proof (induction seen ps arbitrary: m rule: snapshot_sessions.induct)
  case (2 seen p ps)
  have v: "session_policy_validate p = Inr ()" and n: "sp_session_id p \<notin> seen"
    and r: "snapshot_sessions (insert (sp_session_id p) seen) ps = Inr ()"
    using "2.prems"(1) by (auto split: sum.splits if_splits)
  have "hm_get m (sp_session_id p) = None" using n "2.prems"(2) by blast
  moreover have "\<exists>m'. insert_policies ps (hm_insert (sp_session_id p) p m) = Inr m'"
    using "2.prems"(2) by (intro "2.IH" [OF v n r]) (auto split: if_splits)
  ultimately show ?case using v by simp
qed simp

lemma snapshot_compiles:
  assumes "snapshot_validate_structure s = Inr ()"
  shows "\<exists>st. snapshot_compile s margin = Inr st \<and> endpoint_reach st"
proof -
  obtain st where st: "fast_path_new (es_sessions s) (es_protected_prefixes s) 0 = Inr st"
    using assms by (auto simp: snapshot_validate_structure_def rbind_eq_Inr split: sum.splits)
  then have "fast_path_new (es_sessions s) (es_protected_prefixes s) margin =
      Inr (st\<lparr>fp_deadline_safety_margin_ns := margin\<rparr>)"
    by (auto simp: fast_path_new_def rbind_eq_Inr split: if_splits)
  then show ?thesis
    using assms endpoint_reach.new by (auto simp: snapshot_compile_def)
qed

text \<open>A codec for one snapshot: two letters stand for the payload and for every signature.\<close>

definition sample_snapshot :: EndpointPolicySnapshot where
  "sample_snapshot = \<lparr>es_schema_version = ENDPOINT_POLICY_SCHEMA, es_target_instance_id = ''ext-1'', es_generation = 1,
     es_issued_at_unix_ms = 1000, es_expires_at_unix_ms = 2000, es_sessions = [sample_session_policy],
     es_protected_prefixes = [''/w/.ssh'']\<rparr>"

definition letter_codec :: "'s \<Rightarrow> ('s, unit, unit) policy_codec" where
  "letter_codec s = \<lparr>pk_value = (\<lambda>_. JNull), pk_parse = (\<lambda>_. Some s), pk_envelope_parse = (\<lambda>_. None),
     pk_format = sample_format, pk_b64_encode = (\<lambda>b. if length b = 64 then ''S'' else ''P''),
     pk_b64_decode = (\<lambda>t. Some (if t = ''S'' then replicate 64 7 else utf8 ''null'')),
     pk_signing_key = (\<lambda>_. ()), pk_verifying_key = (\<lambda>_. Some ()), pk_public = (\<lambda>_. ()),
     pk_sign = (\<lambda>_ _. replicate 64 7), pk_verify = (\<lambda>_ _ sig. sig = replicate 64 7)\<rparr>"

definition sample_policy_key :: "unit PolicySigningKey" where
  "sample_policy_key = \<lparr>ks_key_id = ''k1'', ks_key = ()\<rparr>"

definition sample_policy_verifier :: "unit PolicyVerifier" where
  "sample_policy_verifier = \<lparr>pv_expected_instance_id = ''ext-1'', pv_keys = [(''k1'', ())]\<rparr>"

lemma letter_codec_laws:
  "signs_correctly (letter_codec s)" "transports (letter_codec s) (utf8 ''null'')"
  "transports (letter_codec s) (pk_sign (letter_codec s) sk m)"
  "canonical_bytes (pk_format (letter_codec s)) (pk_value (letter_codec s) x) = Inr (utf8 ''null'')"
  "pk_parse (letter_codec s) b = Some s"
proof -
  have u: "utf8 ''null'' = [110, 117, 108, 108]" by code_simp
  have b: "base64url_char CHR ''S''" "base64url_char CHR ''P''" "str_len ''S'' = 1" "str_len ''P'' = 1" by code_simp+
  show "signs_correctly (letter_codec s)" "transports (letter_codec s) (utf8 ''null'')"
    "transports (letter_codec s) (pk_sign (letter_codec s) sk m)" "pk_parse (letter_codec s) b = Some s"
    by (simp_all add: signs_correctly_def transports_def letter_codec_def u b encoded_len_bound_def)
  show "canonical_bytes (pk_format (letter_codec s)) (pk_value (letter_codec s) x) = Inr (utf8 ''null'')"
    by (simp add: letter_codec_def canonical_bytes_def canonicalize_def)
qed

lemma sample_snapshot_valid: "snapshot_validate_structure sample_snapshot = Inr ()"
proof -
  have "length (es_sessions sample_snapshot) \<le> MAX_SESSIONS" "length (es_protected_prefixes sample_snapshot) \<le> MAX_PROTECTED_PREFIXES"
    by (simp_all add: sample_snapshot_def MAX_SESSIONS_def MAX_PROTECTED_PREFIXES_def)
  moreover have "validate_identifier ''target_instance_id'' (es_target_instance_id sample_snapshot) MAX_INSTANCE_ID_BYTES = Inr ()"
    "validity_window_ok (es_issued_at_unix_ms sample_snapshot) (es_expires_at_unix_ms sample_snapshot)"
    "snapshot_sessions {} (es_sessions sample_snapshot) = Inr ()"
    by code_simp+
  moreover have "\<exists>st. fast_path_new (es_sessions sample_snapshot) (es_protected_prefixes sample_snapshot) 0 = Inr st"
    using sample_table_new by (simp add: sample_snapshot_def fast_path_new_def rbind_eq_Inr split: if_splits)
  ultimately show ?thesis
    by (auto simp: snapshot_validate_structure_def rbind_eq_Inr) (simp_all add: sample_snapshot_def)
qed

lemma signed_endpoint_policy_verifies:
  assumes "sign_endpoint_policy k key s = Inr env"
    and "canonical_bytes (pk_format k) (pk_value k s) = Inr payload" "pk_parse k payload = Some s"
    and "signs_correctly k" "transports k payload"
    and "transports k (pk_sign k (ks_key key) (ENDPOINT_SIGNING_DOMAIN @ payload))"
    and "hm_get (pv_keys v) (ks_key_id key) = Some (pk_public k (ks_key key))"
    and "validate_identifier ''key_id'' (ks_key_id key) MAX_KEY_ID_BYTES = Inr ()"
    and "es_target_instance_id s = pv_expected_instance_id v"
    and "currently_valid (es_issued_at_unix_ms s) (es_expires_at_unix_ms s) now"
  shows "verify_endpoint_policy k v env now = Inr s \<and> snapshot_validate_structure s = Inr ()"
proof -
  let ?sig = "pk_sign k (ks_key key) (ENDPOINT_SIGNING_DOMAIN @ payload)"
  have env: "env = \<lparr>se_format = POLICY_FORMAT, se_algorithm = POLICY_ALGORITHM, se_key_id = ks_key_id key,
      se_payload = pk_b64_encode k payload, se_signature = pk_b64_encode k ?sig\<rparr>"
    and v: "snapshot_validate_structure s = Inr ()" and len: "length payload \<le> MAX_PAYLOAD_BYTES"
    using assms(1,2) by (auto simp: sign_endpoint_policy_def rbind_eq_Inr split: if_splits)
  have sig: "length ?sig = 64" "pk_verify k (pk_public k (ks_key key)) (ENDPOINT_SIGNING_DOMAIN @ payload) ?sig"
    using assms(4) by (simp_all add: signs_correctly_def)
  show ?thesis
    unfolding verify_endpoint_ok env
    using assms(3,5-10) v len sig transports_bound [OF assms(5) len] transports_bound [OF assms(6), of 64]
    by (simp add: transported)
qed

lemma sample_signed:
  "\<exists>env. sign_endpoint_policy (letter_codec sample_snapshot) sample_policy_key sample_snapshot = Inr env"
proof -
  have "length (utf8 ''null'') = 4" by code_simp
  then show ?thesis
    using sample_snapshot_valid letter_codec_laws(4) [of sample_snapshot sample_snapshot]
    by (auto simp: sign_endpoint_policy_def MAX_PAYLOAD_BYTES_def)
qed

lemma sample_policy_verifier_facts:
  "hm_get (pv_keys sample_policy_verifier) (ks_key_id sample_policy_key) =
     Some (pk_public (letter_codec sample_snapshot) (ks_key sample_policy_key))"
  "validate_identifier ''key_id'' (ks_key_id sample_policy_key) MAX_KEY_ID_BYTES = Inr ()"
  "es_target_instance_id sample_snapshot = pv_expected_instance_id sample_policy_verifier"
  "currently_valid (es_issued_at_unix_ms sample_snapshot) (es_expires_at_unix_ms sample_snapshot) 1500"
  "currently_valid (es_issued_at_unix_ms sample_snapshot) (es_expires_at_unix_ms sample_snapshot) 1999"
proof -
  show "hm_get (pv_keys sample_policy_verifier) (ks_key_id sample_policy_key) =
      Some (pk_public (letter_codec sample_snapshot) (ks_key sample_policy_key))"
    "es_target_instance_id sample_snapshot = pv_expected_instance_id sample_policy_verifier"
    by (simp_all add: sample_policy_verifier_def sample_policy_key_def sample_snapshot_def hm_get_def letter_codec_def)
qed code_simp+

lemmas sample_transport = letter_codec_laws(4) letter_codec_laws(5) letter_codec_laws(1-3)

section \<open>Properties\<close>

text \<open>
  A signed endpoint policy arrives as it was signed. The envelope of a well-formed snapshot verifies,
  at every instant inside its validity window, on the extension instance it targets when that trusts the
  signing key; verification returns the snapshot, and the snapshot compiles to a fast path.
\<close>

theorem endpoint_policy_roundtrip:
  assumes "sign_endpoint_policy k key s = Inr env"
    and "canonical_bytes (pk_format k) (pk_value k s) = Inr payload" "pk_parse k payload = Some s"
    and "signs_correctly k" "transports k payload"
    and "transports k (pk_sign k (ks_key key) (ENDPOINT_SIGNING_DOMAIN @ payload))"
    and "hm_get (pv_keys v) (ks_key_id key) = Some (pk_public k (ks_key key))"
    and "validate_identifier ''key_id'' (ks_key_id key) MAX_KEY_ID_BYTES = Inr ()"
    and "es_target_instance_id s = pv_expected_instance_id v"
    and "currently_valid (es_issued_at_unix_ms s) (es_expires_at_unix_ms s) now"
  shows "verify_endpoint_policy k v env now = Inr s \<and>
     (\<exists>st. snapshot_compile s margin = Inr st \<and> endpoint_reach st)"
  using signed_endpoint_policy_verifies [OF assms] snapshot_compiles by blast

theorem endpoint_policy_roundtrip_witness:
  "\<exists>env. sign_endpoint_policy (letter_codec sample_snapshot) sample_policy_key sample_snapshot = Inr env \<and>
     verify_endpoint_policy (letter_codec sample_snapshot) sample_policy_verifier env 1500 = Inr sample_snapshot"
proof -
  obtain env where env: "sign_endpoint_policy (letter_codec sample_snapshot) sample_policy_key sample_snapshot = Inr env"
    using sample_signed by blast
  show ?thesis
    using endpoint_policy_roundtrip [OF env sample_transport sample_policy_verifier_facts(1-4)] env by blast
qed

text \<open>
  An endpoint policy does not outlive its day. If an envelope is accepted at two instants, by the same
  verifier, it gives the same snapshot, and the instants are less than the maximal lifetime and the clock
  skew apart: no replay of an envelope works after twenty-four hours and thirty seconds.
\<close>

theorem endpoint_policy_replay_window:
  assumes "verify_endpoint_policy k v env now = Inr s" and "verify_endpoint_policy k v env now' = Inr s'"
  shows "s' = s \<and> now' < now + 86430000"
  using endpoint_verifier.acceptance_window [OF assms]
  by (simp add: MAX_SNAPSHOT_LIFETIME_MS_def MAX_CLOCK_SKEW_MS_def)

theorem endpoint_policy_replay_window_witness:
  "\<exists>env. verify_endpoint_policy (letter_codec sample_snapshot) sample_policy_verifier env 1500 = Inr sample_snapshot \<and>
     verify_endpoint_policy (letter_codec sample_snapshot) sample_policy_verifier env 1999 = Inr sample_snapshot"
proof -
  let ?verify = "verify_endpoint_policy (letter_codec sample_snapshot) sample_policy_verifier"
  obtain env where env: "sign_endpoint_policy (letter_codec sample_snapshot) sample_policy_key sample_snapshot = Inr env"
    using sample_signed by blast
  have early: "?verify env 1500 = Inr sample_snapshot"
    using signed_endpoint_policy_verifies [OF env sample_transport sample_policy_verifier_facts(1-4)] by blast
  then obtain s' where "?verify env 1999 = Inr s'"
    using sample_policy_verifier_facts(5) by (auto simp: verify_endpoint_ok)
  then show ?thesis using endpoint_policy_replay_window [OF early] early by auto
qed

end
