(* ===== verification/Flows.thy ===== *)
theory Flows
  imports Envelopes Network
begin

text \<open>
  The flow policy of the network extension (\<^verbatim>\<open>vigil-network/src/lib.rs\<close>) and its signed snapshots
  (\<^verbatim>\<open>signed.rs\<close>): destinations pinned to approved addresses, budgets per session, and the installation of
  ever newer snapshots. Address sets, port sets and the set of charged destinations are lists without
  repetition; a \<^verbatim>\<open>BTreeMap\<close> is an association list in key order.
\<close>

section \<open>Hosts and addresses\<close>

definition MAX_HOSTNAME_BYTES :: nat where "MAX_HOSTNAME_BYTES = 253"

definition dns_label_ok :: "string \<Rightarrow> bool" where
  "dns_label_ok label =
     (label \<noteq> [] \<and> str_len label \<le> 63 \<and> \<not> starts_with label ''-'' \<and> \<not> ends_with label ''-'' \<and>
      list_all (\<lambda>c. is_ascii_alphanumeric c \<or> c = CHR ''-'') label)"

definition normalize_hostname :: "string \<Rightarrow> string option" where
  "normalize_hostname raw =
     (if raw = [] \<or> MAX_HOSTNAME_BYTES < str_len raw \<or>
         list_ex (\<lambda>c. c \<in> {CHR 0x00, CHR ''/'', CHR ''@'', CHR '':''}) raw then None
      else let normalized = to_ascii_lowercase (trim_end_matches (\<lambda>c. c = CHR ''.'') raw)
           in if normalized = [] \<or> parse_ip normalized \<noteq> None \<or>
                 \<not> list_all dns_label_ok (split_on (\<lambda>c. c = CHR ''.'') normalized)
              then None else Some normalized)"

definition is_public_ipv4 :: "u8 \<Rightarrow> u8 \<Rightarrow> u8 \<Rightarrow> bool" where
  "is_public_ipv4 a b c =
     (\<not> (a = 0 \<or> a = 10 \<or> (a = 100 \<and> 64 \<le> b \<and> b \<le> 127) \<or> a = 127 \<or> (a = 169 \<and> b = 254) \<or>
         (a = 172 \<and> 16 \<le> b \<and> b \<le> 31) \<or> (a = 192 \<and> b = 0 \<and> c = 0) \<or> (a = 192 \<and> b = 0 \<and> c = 2) \<or>
         (a = 192 \<and> b = 88 \<and> c = 99) \<or> (a = 192 \<and> b = 168) \<or> (a = 198 \<and> 18 \<le> b \<and> b \<le> 19) \<or>
         (a = 198 \<and> b = 51 \<and> c = 100) \<or> (a = 203 \<and> b = 0 \<and> c = 113) \<or> 224 \<le> a))"

unbundle bit_operations_syntax

definition is_public_ipv6 :: "u16 list \<Rightarrow> bool" where
  "is_public_ipv6 g =
     (case to_ipv4_mapped g of
        Some (a, b, c, d) \<Rightarrow> is_public_ipv4 a b c
      | None \<Rightarrow> high_octet (g ! 0) AND 0xE0 = 0x20 \<and> \<not> (g ! 0 = 0x2001 \<and> g ! 1 = 0x0DB8))"

fun is_public_ip :: "IpAddr \<Rightarrow> bool" where
  "is_public_ip (V4 a b c d) = is_public_ipv4 a b c"
| "is_public_ip (V6 g) = is_public_ipv6 g"

section \<open>Rules and snapshots\<close>

datatype NetworkMode = ModeIsOff | ModeObserve | ModePrompt | ModeEnforce
datatype NetworkProtocol = Tcp | Udp
datatype FlowDirection = Outbound | Inbound

definition MAX_RULES_PER_SESSION :: nat where "MAX_RULES_PER_SESSION = 256"
definition MAX_ADDRESSES_PER_RULE :: nat where "MAX_ADDRESSES_PER_RULE = 32"
definition MAX_PORTS_PER_RULE :: nat where "MAX_PORTS_PER_RULE = 64"
definition MAX_TOTAL_FLOWS :: u64 where "MAX_TOTAL_FLOWS = 1000000"
definition MAX_DISTINCT_DESTINATIONS :: nat where "MAX_DISTINCT_DESTINATIONS = 4096"

record DestinationRule =
  dn_hostname :: string
  dn_protocol :: NetworkProtocol
  dn_ports :: "u16 list"
  dn_resolved_addresses :: "IpAddr list"
  dn_valid_until_unix_ms :: u64

definition rule_validate :: "DestinationRule \<Rightarrow> envelope_error + unit" where
  "rule_validate r =
     (case normalize_hostname (dn_hostname r) of
        None \<Rightarrow> Inl (BadField ''hostname'')
      | Some normalized \<Rightarrow>
          if normalized \<noteq> dn_hostname r then Inl (BadField ''hostname'')
          else if dn_ports r = [] \<or> MAX_PORTS_PER_RULE < length (dn_ports r) then Inl (BadField ''ports'')
          else if 0 \<in> set (dn_ports r) then Inl (BadField ''ports'')
          else if dn_resolved_addresses r = [] \<or> MAX_ADDRESSES_PER_RULE < length (dn_resolved_addresses r)
               then Inl (BadField ''resolved_addresses'')
          else if \<not> list_all is_public_ip (dn_resolved_addresses r) then Inl (BadField ''resolved_addresses'')
          else ensure (dn_valid_until_unix_ms r \<noteq> 0) (BadField ''valid_until_unix_ms''))"

record SessionNetworkPolicy =
  np_session_id :: string
  np_mode :: NetworkMode
  np_destinations :: "DestinationRule list"
  np_max_total_flows :: u64
  np_max_distinct_destinations :: nat

fun rules_validate :: "(string \<times> NetworkProtocol) set \<Rightarrow> DestinationRule list \<Rightarrow> envelope_error + unit" where
  "rules_validate identities [] = Inr ()"
| "rules_validate identities (r # rs) =
     rbind (rule_validate r) (\<lambda>_.
       if (dn_hostname r, dn_protocol r) \<in> identities then Inl (BadField ''destinations'')
       else rules_validate (insert (dn_hostname r, dn_protocol r) identities) rs)"

definition network_policy_validate :: "SessionNetworkPolicy \<Rightarrow> envelope_error + unit" where
  "network_policy_validate p =
     (if np_session_id p = [] \<or> 128 < str_len (np_session_id p) then Inl (BadField ''session_id'')
      else if MAX_RULES_PER_SESSION < length (np_destinations p) then Inl (BadField ''destinations'')
      else if np_max_total_flows p = 0 \<or> MAX_TOTAL_FLOWS < np_max_total_flows p then Inl (BadField ''max_total_flows'')
      else if np_max_distinct_destinations p = 0 \<or> MAX_DISTINCT_DESTINATIONS < np_max_distinct_destinations p
           then Inl (BadField ''max_distinct_destinations'')
      else rules_validate {} (np_destinations p))"

definition NETWORK_POLICY_SCHEMA :: string where
  "NETWORK_POLICY_SCHEMA = ''vigil.network-policy/v1''"

record NetworkAttribution =
  na_process :: ProcessKey
  na_session_id :: string

record NetworkPolicySnapshot =
  ns_schema_version :: string
  ns_target_instance_id :: string
  ns_generation :: u64
  ns_issued_at_unix_ms :: int
  ns_expires_at_unix_ms :: int
  ns_sessions :: "(string, SessionNetworkPolicy) hmap"
  ns_attributions :: "NetworkAttribution list"

text \<open>\<^verbatim>\<open>i64::try_from\<close> on an unsigned value: none from two to the sixty-third on.\<close>

definition i64_of_u64 :: "u64 \<Rightarrow> int option" where
  "i64_of_u64 x = (if unat x < 2 ^ 63 then Some (int (unat x)) else None)"

definition outlives :: "int \<Rightarrow> DestinationRule \<Rightarrow> bool" where
  "outlives expires r =
     (case i64_of_u64 (dn_valid_until_unix_ms r) of None \<Rightarrow> True | Some expiry \<Rightarrow> expires < expiry)"

fun sessions_validate :: "int \<Rightarrow> (string \<times> SessionNetworkPolicy) list \<Rightarrow> envelope_error + unit" where
  "sessions_validate expires [] = Inr ()"
| "sessions_validate expires ((i, p) # ps) =
     rbind (network_policy_validate p) (\<lambda>_.
       if i \<noteq> np_session_id p then Inl (BadField ''sessions'')
       else if list_ex (outlives expires) (np_destinations p) then Inl (BadField ''valid_until_unix_ms'')
       else sessions_validate expires ps)"

fun attributions_validate ::
    "(string, SessionNetworkPolicy) hmap \<Rightarrow> ProcessKey set \<Rightarrow> NetworkAttribution list \<Rightarrow> envelope_error + unit" where
  "attributions_validate sessions processes [] = Inr ()"
| "attributions_validate sessions processes (a # as) =
     (if key_is_zero (na_process a) \<or> hm_get sessions (na_session_id a) = None \<or> na_process a \<in> processes
      then Inl (BadField ''attributions'')
      else attributions_validate sessions (insert (na_process a) processes) as)"

definition network_snapshot_validate :: "NetworkPolicySnapshot \<Rightarrow> envelope_error + unit" where
  "network_snapshot_validate s =
     rbind (ensure (ns_schema_version s = NETWORK_POLICY_SCHEMA) (BadField ''schema_version'')) (\<lambda>_.
     rbind (validate_identifier ''target_instance_id'' (ns_target_instance_id s) 128) (\<lambda>_.
     rbind (ensure (ns_generation s \<noteq> 0) (BadField ''generation'')) (\<lambda>_.
     rbind (ensure (validity_window_ok (ns_issued_at_unix_ms s) (ns_expires_at_unix_ms s)) (BadField ''validity'')) (\<lambda>_.
     rbind (ensure (length (ns_sessions s) \<le> MAX_SESSIONS \<and> length (ns_attributions s) \<le> MAX_ATTRIBUTIONS)
              (BadField ''snapshot'')) (\<lambda>_.
     rbind (sessions_validate (ns_expires_at_unix_ms s) (ns_sessions s)) (\<lambda>_.
       attributions_validate (ns_sessions s) {} (ns_attributions s)))))))"

section \<open>The fast path\<close>

record NetworkFlow =
  nl_process :: ProcessKey
  nl_direction :: FlowDirection
  nl_protocol :: NetworkProtocol
  nl_hostname :: "string option"
  nl_remote_ip :: IpAddr
  nl_remote_port :: u16
  nl_observed_at_unix_ms :: "u64 option"

datatype NetworkVerdict = FlowAllow | FlowDeny | FlowObserve | FlowPrompt

datatype NetworkReason =
    FlowUnmanagedProcess | ModeOff | PermitPinnedDestination | DenyInboundFlow | DenyMissingHostname
  | DenyMalformedHostname | DenyDirectIp | DenyUnknownDestination | DenyProtocol | DenyPort
  | DenyPrivateOrLocalAddress | DenyResolutionMismatch | DenyResolutionExpired | DenyPolicyExpired
  | DenyClockUnavailable | DenyFlowBudget | DenyDestinationBudget

record NetworkDecision =
  nd_verdict :: NetworkVerdict
  nd_allow :: bool
  nd_reason :: NetworkReason
  nd_session_id :: "string option"
  nd_policy_generation :: "u64 option"

record SessionBudgetState =
  sb_flows :: u64
  sb_destinations :: "(string \<times> u16 \<times> NetworkProtocol) list"

definition session_budget_default :: SessionBudgetState where
  "session_budget_default = \<lparr>sb_flows = 0, sb_destinations = []\<rparr>"

record NetworkFastPath =
  nf_snapshot :: "NetworkPolicySnapshot option"
  nf_attributions :: "(ProcessKey, string) hmap"
  nf_budgets :: "(string, SessionBudgetState) hmap"

definition network_fast_path_default :: NetworkFastPath where
  "network_fast_path_default = \<lparr>nf_snapshot = None, nf_attributions = [], nf_budgets = []\<rparr>"

text \<open>Collecting pairs into a map: a later pair replaces an earlier one with the same key.\<close>

definition attribution_table :: "NetworkAttribution list \<Rightarrow> (ProcessKey, string) hmap" where
  "attribution_table as = fold (\<lambda>a m. hm_insert (na_process a) (na_session_id a) m) as []"

definition network_install :: "NetworkPolicySnapshot \<Rightarrow> NetworkFastPath \<Rightarrow> envelope_error + NetworkFastPath" where
  "network_install s st =
     rbind (network_snapshot_validate s) (\<lambda>_.
       if (case nf_snapshot st of None \<Rightarrow> False | Some current \<Rightarrow> ns_generation s \<le> ns_generation current)
       then Inl (BadField ''generation order'')
       else Inr (st\<lparr>nf_budgets := hm_retain (\<lambda>i _. hm_get (ns_sessions s) i \<noteq> None) (nf_budgets st),
                    nf_attributions := attribution_table (ns_attributions s),
                    nf_snapshot := Some s\<rparr>))"

definition network_generation :: "NetworkFastPath \<Rightarrow> u64 option" where
  "network_generation st = map_option ns_generation (nf_snapshot st)"

datatype DestinationEvaluation = PermitHost string | DenyFlow NetworkReason

definition find_rule :: "string \<Rightarrow> NetworkProtocol \<Rightarrow> DestinationRule list \<Rightarrow> NetworkReason + DestinationRule" where
  "find_rule hostname protocol rules =
     (case filter (\<lambda>r. dn_hostname r = hostname) rules of
        [] \<Rightarrow> Inl DenyUnknownDestination
      | first # others \<Rightarrow>
          if dn_protocol first = protocol then Inr first
          else ok_or (find (\<lambda>r. dn_protocol r = protocol) others) DenyProtocol)"

definition evaluate_flow_destination :: "SessionNetworkPolicy \<Rightarrow> NetworkFlow \<Rightarrow> DestinationEvaluation" where
  "evaluate_flow_destination policy f =
     (if nl_direction f \<noteq> Outbound then DenyFlow DenyInboundFlow
      else if \<not> is_public_ip (nl_remote_ip f) then DenyFlow DenyPrivateOrLocalAddress
      else case nl_hostname f of
             None \<Rightarrow> DenyFlow DenyMissingHostname
           | Some raw \<Rightarrow>
               if parse_ip raw \<noteq> None then DenyFlow DenyDirectIp
               else case normalize_hostname raw of
                      None \<Rightarrow> DenyFlow DenyMalformedHostname
                    | Some hostname \<Rightarrow>
                        (case find_rule hostname (nl_protocol f) (np_destinations policy) of
                           Inl reason \<Rightarrow> DenyFlow reason
                         | Inr r \<Rightarrow>
                             if nl_remote_port f \<notin> set (dn_ports r) then DenyFlow DenyPort
                             else case nl_observed_at_unix_ms f of
                                    None \<Rightarrow> DenyFlow DenyClockUnavailable
                                  | Some now \<Rightarrow>
                                      if dn_valid_until_unix_ms r \<le> now then DenyFlow DenyResolutionExpired
                                      else if nl_remote_ip f \<notin> set (dn_resolved_addresses r)
                                           then DenyFlow DenyResolutionMismatch
                                      else PermitHost hostname))"

definition managed_decision :: "NetworkMode \<Rightarrow> NetworkReason \<Rightarrow> string \<Rightarrow> u64 \<Rightarrow> NetworkDecision" where
  "managed_decision mode reason i generation =
     (let (verdict, allow) =
            (if reason = PermitPinnedDestination then (FlowAllow, True)
             else case mode of
                    ModeIsOff \<Rightarrow> (FlowAllow, True)
                  | ModeObserve \<Rightarrow> (FlowObserve, True)
                  | ModePrompt \<Rightarrow> (FlowPrompt, False)
                  | ModeEnforce \<Rightarrow> (FlowDeny, False))
      in \<lparr>nd_verdict = verdict, nd_allow = allow, nd_reason = reason, nd_session_id = Some i,
          nd_policy_generation = Some generation\<rparr>)"

definition unmanaged :: NetworkDecision where
  "unmanaged = \<lparr>nd_verdict = FlowAllow, nd_allow = True, nd_reason = FlowUnmanagedProcess,
     nd_session_id = None, nd_policy_generation = None\<rparr>"

text \<open>Charging a permitted destination to the budget of its session, or refusing it.\<close>

definition charge_flow ::
    "SessionNetworkPolicy \<Rightarrow> string \<times> u16 \<times> NetworkProtocol \<Rightarrow> SessionBudgetState \<Rightarrow> NetworkReason \<times> SessionBudgetState" where
  "charge_flow policy destination b =
     (if np_max_total_flows policy \<le> sb_flows b then (DenyFlowBudget, b)
      else if destination \<notin> set (sb_destinations b) \<and>
              np_max_distinct_destinations policy \<le> length (sb_destinations b)
           then (DenyDestinationBudget, b)
      else (PermitPinnedDestination,
            b\<lparr>sb_flows := u64_sat_add (sb_flows b) 1,
              sb_destinations := List.insert destination (sb_destinations b)\<rparr>))"

definition network_decide :: "NetworkFlow \<Rightarrow> NetworkFastPath \<Rightarrow> NetworkDecision \<times> NetworkFastPath" where
  "network_decide f st =
     (case nf_snapshot st of
        None \<Rightarrow> (unmanaged, st)
      | Some s \<Rightarrow>
          (case hm_get (nf_attributions st) (nl_process f) of
             None \<Rightarrow> (unmanaged, st)
           | Some i \<Rightarrow>
               (case hm_get (ns_sessions s) i of
                  None \<Rightarrow> (managed_decision ModeEnforce DenyUnknownDestination i (ns_generation s), st)
                | Some policy \<Rightarrow>
                    (case nl_observed_at_unix_ms f of
                       None \<Rightarrow> (managed_decision ModeEnforce DenyClockUnavailable i (ns_generation s), st)
                     | Some observed \<Rightarrow>
                         if (case i64_of_u64 observed of None \<Rightarrow> True | Some t \<Rightarrow> ns_expires_at_unix_ms s \<le> t)
                         then (managed_decision ModeEnforce DenyPolicyExpired i (ns_generation s), st)
                         else if np_mode policy = ModeIsOff then
                           (\<lparr>nd_verdict = FlowAllow, nd_allow = True, nd_reason = ModeOff, nd_session_id = Some i,
                             nd_policy_generation = Some (ns_generation s)\<rparr>, st)
                         else case evaluate_flow_destination policy f of
                                DenyFlow reason \<Rightarrow>
                                  (managed_decision (np_mode policy) reason i (ns_generation s), st)
                              | PermitHost hostname \<Rightarrow>
                                  (let b = (case hm_get (nf_budgets st) i of
                                              None \<Rightarrow> session_budget_default | Some b \<Rightarrow> b);
                                       (reason, b') = charge_flow policy
                                         (hostname, nl_remote_port f, nl_protocol f) b
                                   in (managed_decision (np_mode policy) reason i (ns_generation s),
                                       st\<lparr>nf_budgets := hm_insert i b' (nf_budgets st)\<rparr>))))))"

section \<open>Replay\<close>

record SimulatedNetworkSource =
  ss_flows :: "NetworkFlow list"
  ss_fail_next :: bool

definition next_flow ::
    "SimulatedNetworkSource \<Rightarrow> (endpoint_error + NetworkFlow option) \<times> SimulatedNetworkSource" where
  "next_flow src =
     (if ss_fail_next src then (Inl SourceUnavailable, src\<lparr>ss_fail_next := False\<rparr>)
      else case ss_flows src of
             [] \<Rightarrow> (Inr None, src)
           | f # fs \<Rightarrow> (Inr (Some f), src\<lparr>ss_flows := fs\<rparr>))"

function replay_loop ::
    "NetworkDecision list \<Rightarrow> NetworkFastPath \<Rightarrow> SimulatedNetworkSource
      \<Rightarrow> (endpoint_error + NetworkDecision list) \<times> NetworkFastPath \<times> SimulatedNetworkSource" where
  "replay_loop decisions st src =
     (case next_flow src of
        (Inl err, src') \<Rightarrow> (Inl err, st, src')
      | (Inr None, src') \<Rightarrow> (Inr decisions, st, src')
      | (Inr (Some f), src') \<Rightarrow>
          replay_loop (decisions @ [fst (network_decide f st)]) (snd (network_decide f st)) src')"
  by pat_completeness auto
termination
  by (relation "measure (\<lambda>(decisions, st, src). length (ss_flows src))")
     (auto simp: next_flow_def split: if_splits list.splits)

definition replay_source where
  "replay_source st src = replay_loop [] st src"

section \<open>Signed snapshots\<close>

definition NETWORK_SIGNING_DOMAIN :: "u8 list" where
  "NETWORK_SIGNING_DOMAIN = utf8 ''VIGIL_NETWORK_POLICY_V1'' @ [0]"

definition sign_network_policy ::
    "(NetworkPolicySnapshot, 'sk, 'vk) policy_codec \<Rightarrow> 'sk PolicySigningKey \<Rightarrow> NetworkPolicySnapshot
      \<Rightarrow> envelope_error + SignedPolicyEnvelope" where
  "sign_network_policy k key s =
     rbind (network_snapshot_validate s) (\<lambda>_.
       case canonical_bytes (pk_format k) (pk_value k s) of
         Inl err \<Rightarrow> Inl (PolicyNotCanonical err)
       | Inr payload \<Rightarrow>
           if MAX_PAYLOAD_BYTES < length payload then Inl (PolicyRejected ''payload'')
           else Inr \<lparr>se_format = POLICY_FORMAT, se_algorithm = POLICY_ALGORITHM, se_key_id = ks_key_id key,
                     se_payload = pk_b64_encode k payload,
                     se_signature = pk_b64_encode k (pk_sign k (ks_key key) (NETWORK_SIGNING_DOMAIN @ payload))\<rparr>)"

definition verify_network_policy ::
    "(NetworkPolicySnapshot, 'sk, 'vk) policy_codec \<Rightarrow> 'vk PolicyVerifier \<Rightarrow> SignedPolicyEnvelope \<Rightarrow> int
      \<Rightarrow> envelope_error + NetworkPolicySnapshot" where
  "verify_network_policy k v env now =
     rbind (ensure (se_format env = POLICY_FORMAT \<and> se_algorithm env = POLICY_ALGORITHM) (PolicyRejected ''envelope'')) (\<lambda>_.
     rbind (ensure (is_ok (validate_identifier ''key_id'' (se_key_id env) 64)) (PolicyRejected ''key id'')) (\<lambda>_.
     rbind (ok_or (hm_get (pv_keys v) (se_key_id env)) (PolicyRejected ''untrusted key'')) (\<lambda>key.
     rbind (ensure (str_len (se_payload env) \<le> encoded_len_bound MAX_PAYLOAD_BYTES \<and>
                    str_len (se_signature env) \<le> encoded_len_bound 64) (PolicyRejected ''encoding bound'')) (\<lambda>_.
     rbind (decode_base64url (pk_b64_decode k) (se_payload env) ''payload'') (\<lambda>payload.
     rbind (decode_base64url (pk_b64_decode k) (se_signature env) ''signature'') (\<lambda>signature.
     rbind (ensure (length signature = 64) (PolicyRejected ''signature'')) (\<lambda>_.
     rbind (ensure (pk_verify k key (NETWORK_SIGNING_DOMAIN @ payload) signature) (PolicyRejected ''signature'')) (\<lambda>_.
     rbind (ok_or (pk_parse k payload) (PolicyRejected ''payload'')) (\<lambda>s.
     rbind (network_snapshot_validate s) (\<lambda>_.
     rbind (ensure (ns_target_instance_id s = pv_expected_instance_id v) (PolicyRejected ''instance'')) (\<lambda>_.
     rbind (ensure (currently_valid (ns_issued_at_unix_ms s) (ns_expires_at_unix_ms s) now) (PolicyRejected ''validity'')) (\<lambda>_.
       Inr s))))))))))))"

definition verify_network_json ::
    "(NetworkPolicySnapshot, 'sk, 'vk) policy_codec \<Rightarrow> 'vk PolicyVerifier \<Rightarrow> u8 list \<Rightarrow> int
      \<Rightarrow> envelope_error + NetworkPolicySnapshot" where
  "verify_network_json k v json now =
     (if json = [] \<or> MAX_ENVELOPE_BYTES < length json then Inl (PolicyRejected ''envelope bound'')
      else rbind (ok_or (pk_envelope_parse k json) (PolicyRejected ''malformed envelope'')) (\<lambda>env.
        verify_network_policy k v env now))"


section \<open>Well-formed snapshots\<close>

lemma rules_validate_distinct:
  "rules_validate ids rs = Inr () \<Longrightarrow>
     list_all (\<lambda>r. rule_validate r = Inr ()) rs \<and> distinct (map (\<lambda>r. (dn_hostname r, dn_protocol r)) rs) \<and>
     (\<forall>r\<in>set rs. (dn_hostname r, dn_protocol r) \<notin> ids)"
  by (induction ids rs rule: rules_validate.induct) (auto simp: rbind_eq_Inr split: if_splits)

lemma sessions_validate_all:
  "sessions_validate e ps = Inr () \<Longrightarrow> (i, p) \<in> set ps \<Longrightarrow> network_policy_validate p = Inr () \<and> np_session_id p = i"
  by (induction e ps rule: sessions_validate.induct) (auto simp: rbind_eq_Inr split: if_splits)

lemma snapshot_policy_valid:
  assumes "network_snapshot_validate s = Inr ()" "hm_get (ns_sessions s) i = Some p"
  shows "network_policy_validate p = Inr ()"
proof -
  have "(i, p) \<in> set (ns_sessions s)" using assms(2) by (auto simp: hm_get_def dest: map_of_SomeD)
  then show ?thesis
    using assms(1) sessions_validate_all by (fastforce simp: network_snapshot_validate_def rbind_eq_Inr)
qed

lemma policy_rules_distinct:
  "network_policy_validate p = Inr () \<Longrightarrow> distinct (map (\<lambda>r. (dn_hostname r, dn_protocol r)) (np_destinations p))"
  using rules_validate_distinct [of "{}"] by (auto simp: network_policy_validate_def split: if_splits)

section \<open>The rule that applies\<close>

lemma find_rule_find:
  "find_rule h p rs = Inr r \<longleftrightarrow> find (\<lambda>r. dn_hostname r = h \<and> dn_protocol r = p) rs = Some r"
proof -
  have *: "find P (filter Q rs) = find (\<lambda>r. Q r \<and> P r) rs" for P Q
    by (induction rs) auto
  have "find_rule h p rs = Inr r \<longleftrightarrow> find (\<lambda>r. dn_protocol r = p) (filter (\<lambda>r. dn_hostname r = h) rs) = Some r"
    by (auto simp: find_rule_def split: list.splits)
  then show ?thesis by (simp add: *)
qed

lemma find_keyed:
  "distinct (map g xs) \<Longrightarrow> find (\<lambda>x. g x = k) xs = Some x \<longleftrightarrow> x \<in> set xs \<and> g x = k"
  by (induction xs) (auto simp: rev_image_eqI split: if_splits)

lemma find_rule_unique:
  assumes "distinct (map (\<lambda>r. (dn_hostname r, dn_protocol r)) rs)"
  shows "find_rule h p rs = Inr r \<longleftrightarrow> r \<in> set rs \<and> dn_hostname r = h \<and> dn_protocol r = p"
  using find_keyed [OF assms, of "(h, p)" r] by (simp add: find_rule_find)

text \<open>What a rule of the policy must say about a flow seen at an instant.\<close>

definition pinned_at :: "SessionNetworkPolicy \<Rightarrow> NetworkFlow \<Rightarrow> u64 \<Rightarrow> string \<Rightarrow> bool" where
  "pinned_at policy f now hostname \<longleftrightarrow>
     nl_direction f = Outbound \<and> is_public_ip (nl_remote_ip f) \<and>
     (\<exists>raw. nl_hostname f = Some raw \<and> parse_ip raw = None \<and> normalize_hostname raw = Some hostname) \<and>
     (\<exists>r\<in>set (np_destinations policy). dn_hostname r = hostname \<and> dn_protocol r = nl_protocol f \<and>
        nl_remote_port f \<in> set (dn_ports r) \<and> now < dn_valid_until_unix_ms r \<and>
        nl_remote_ip f \<in> set (dn_resolved_addresses r))"

lemma evaluate_flow_destination_exact:
  assumes "network_policy_validate policy = Inr ()" "nl_observed_at_unix_ms f = Some now"
  shows "evaluate_flow_destination policy f = PermitHost h \<longleftrightarrow> pinned_at policy f now h"
proof -
  note d = find_rule_unique [OF policy_rules_distinct [OF assms(1)]]
  have "evaluate_flow_destination policy f = PermitHost h \<longleftrightarrow>
      nl_direction f = Outbound \<and> is_public_ip (nl_remote_ip f) \<and>
      (\<exists>raw. nl_hostname f = Some raw \<and> parse_ip raw = None \<and> normalize_hostname raw = Some h) \<and>
      (\<exists>r. find_rule h (nl_protocol f) (np_destinations policy) = Inr r \<and>
        nl_remote_port f \<in> set (dn_ports r) \<and> now < dn_valid_until_unix_ms r \<and>
        nl_remote_ip f \<in> set (dn_resolved_addresses r))"
    by (auto simp: evaluate_flow_destination_def assms(2) split: option.splits sum.splits if_splits)
  then show ?thesis by (auto simp: pinned_at_def d)
qed

section \<open>Reachable fast paths\<close>

text \<open>What happens to the fast path: a flow is decided, or a snapshot is offered for installation.\<close>

datatype flow_event = FlowSeen NetworkFlow | SnapshotOffered NetworkPolicySnapshot

fun flow_step :: "flow_event \<Rightarrow> NetworkFastPath \<Rightarrow> (NetworkFlow \<times> NetworkDecision) list \<times> NetworkFastPath" where
  "flow_step (FlowSeen f) st = ([(f, fst (network_decide f st))], snd (network_decide f st))"
| "flow_step (SnapshotOffered s) st = ([], (case network_install s st of Inl _ \<Rightarrow> st | Inr st' \<Rightarrow> st'))"

fun flow_run :: "flow_event list \<Rightarrow> NetworkFastPath \<Rightarrow> (NetworkFlow \<times> NetworkDecision) list \<times> NetworkFastPath" where
  "flow_run [] st = ([], st)"
| "flow_run (e # es) st =
     (fst (flow_step e st) @ fst (flow_run es (snd (flow_step e st))), snd (flow_run es (snd (flow_step e st))))"

lemma flow_run_invariant:
  assumes "P st" "list_all Q es" "\<And>e st. P st \<Longrightarrow> Q e \<Longrightarrow> P (snd (flow_step e st))"
  shows "P (snd (flow_run es st))"
  using assms(1,2) by (induction es arbitrary: st) (auto simp: assms(3))

lemma network_decide_snapshot [simp]: "nf_snapshot (snd (network_decide f st)) = nf_snapshot st"
  by (auto simp: network_decide_def Let_def split: option.splits DestinationEvaluation.splits prod.splits)

lemma network_install_ok:
  "network_install s st = Inr st' \<longleftrightarrow> network_snapshot_validate s = Inr () \<and>
     (\<forall>current. nf_snapshot st = Some current \<longrightarrow> ns_generation current < ns_generation s) \<and>
     st' = st\<lparr>nf_budgets := hm_retain (\<lambda>i _. hm_get (ns_sessions s) i \<noteq> None) (nf_budgets st),
              nf_attributions := attribution_table (ns_attributions s), nf_snapshot := Some s\<rparr>"
  by (auto simp: network_install_def rbind_eq_Inr not_le split: option.splits if_splits)

definition installed_valid :: "NetworkFastPath \<Rightarrow> bool" where
  "installed_valid st \<longleftrightarrow> (case nf_snapshot st of None \<Rightarrow> True | Some s \<Rightarrow> network_snapshot_validate s = Inr ())"

lemma installed_valid_step: "installed_valid st \<Longrightarrow> installed_valid (snd (flow_step e st))"
  by (cases e) (auto simp: installed_valid_def network_install_ok split: sum.splits)

lemma installed_valid_run: "installed_valid (snd (flow_run es network_fast_path_default))"
proof (rule flow_run_invariant [where Q = "\<lambda>_. True"])
  show "installed_valid network_fast_path_default" by (simp add: installed_valid_def network_fast_path_default_def)
qed (simp_all add: list_all_iff installed_valid_step)

section \<open>Spending\<close>

definition budget_of :: "string \<Rightarrow> NetworkFastPath \<Rightarrow> SessionBudgetState" where
  "budget_of i st = (case hm_get (nf_budgets st) i of None \<Rightarrow> session_budget_default | Some b \<Rightarrow> b)"

lemma retain_keys: "hm_get (hm_retain (\<lambda>k _. P k) m) i = (if P i then hm_get m i else None)"
  by (induction m) (auto simp: hm_retain_def hm_get_def)

definition permits_for :: "string \<Rightarrow> NetworkFlow \<times> NetworkDecision \<Rightarrow> bool" where
  "permits_for i d \<longleftrightarrow> nd_reason (snd d) = PermitPinnedDestination \<and> nd_session_id (snd d) = Some i"

definition destination_of :: "NetworkFlow \<Rightarrow> string \<times> u16 \<times> NetworkProtocol" where
  "destination_of f =
     (the (normalize_hostname (the (nl_hostname f))), nl_remote_port f, nl_protocol f)"

lemma managed_decision_sel [simp]:
  "nd_reason (managed_decision m r i g) = r" "nd_session_id (managed_decision m r i g) = Some i"
  "nd_policy_generation (managed_decision m r i g) = Some g"
  "nd_allow (managed_decision m r i g) \<longleftrightarrow> r = PermitPinnedDestination \<or> m = ModeIsOff \<or> m = ModeObserve"
  by (auto simp: managed_decision_def split: NetworkMode.splits prod.splits if_splits)

lemma evaluate_never_permits: "evaluate_flow_destination p f = DenyFlow r \<Longrightarrow> r \<noteq> PermitPinnedDestination"
  by (auto simp: evaluate_flow_destination_def find_rule_def split: option.splits sum.splits if_splits list.splits)

lemma evaluate_host:
  "evaluate_flow_destination p f = PermitHost h \<Longrightarrow> (h, nl_remote_port f, nl_protocol f) = destination_of f"
  by (auto simp: evaluate_flow_destination_def destination_of_def split: option.splits sum.splits if_splits)

lemma charge_flow_cases:
  "charge_flow p d b = (r, b') \<Longrightarrow>
     (r \<noteq> PermitPinnedDestination \<and> b' = b) \<or>
     (r = PermitPinnedDestination \<and> sb_flows b < np_max_total_flows p \<and>
      (d \<in> set (sb_destinations b) \<or> length (sb_destinations b) < np_max_distinct_destinations p) \<and>
      b' = b\<lparr>sb_flows := u64_sat_add (sb_flows b) 1, sb_destinations := List.insert d (sb_destinations b)\<rparr>)"
  by (auto simp: charge_flow_def not_le split: if_splits)

text \<open>A decision either leaves the fast path alone and permits nothing, or charges one session.\<close>

lemma network_decide_cases:
  assumes "network_decide f st = (d, st')"
  obtains (idle) "st' = st" "nd_reason d \<noteq> PermitPinnedDestination"
  | (charged) s j p r b' where "nf_snapshot st = Some s" "hm_get (ns_sessions s) j = Some p"
      "charge_flow p (destination_of f) (budget_of j st) = (r, b')"
      "d = managed_decision (np_mode p) r j (ns_generation s)" "st' = st\<lparr>nf_budgets := hm_insert j b' (nf_budgets st)\<rparr>"
proof -
  consider "st' = st" "nd_reason d \<noteq> PermitPinnedDestination"
    | s j p h where "nf_snapshot st = Some s" "hm_get (ns_sessions s) j = Some p" "evaluate_flow_destination p f = PermitHost h"
        "(d, st') = (let (r, b') = charge_flow p (h, nl_remote_port f, nl_protocol f) (budget_of j st)
           in (managed_decision (np_mode p) r j (ns_generation s), st\<lparr>nf_budgets := hm_insert j b' (nf_budgets st)\<rparr>))"
    using assms
    by (auto simp: network_decide_def budget_of_def unmanaged_def Let_def dest: evaluate_never_permits
        split: option.splits if_splits DestinationEvaluation.splits)
  then show ?thesis
    using idle charged evaluate_host by cases (auto simp: Let_def split: prod.splits)
qed

lemma decide_spends:
  assumes "network_decide f st = (d, st')"
  shows "(\<not> permits_for i (f, d) \<and> budget_of i st' = budget_of i st) \<or>
     (permits_for i (f, d) \<and>
      (\<exists>s p. nf_snapshot st = Some s \<and> hm_get (ns_sessions s) i = Some p \<and>
        charge_flow p (destination_of f) (budget_of i st) = (PermitPinnedDestination, budget_of i st')))"
  using assms
proof (cases rule: network_decide_cases)
  case idle
  then show ?thesis by (simp add: permits_for_def)
next
  case (charged s j p r b')
  then show ?thesis
    using charge_flow_cases [OF charged(3)] by (auto simp: budget_of_def permits_for_def)
qed

lemma charged_flows:
  "charge_flow p d b = (PermitPinnedDestination, b') \<Longrightarrow> sb_flows b < np_max_total_flows p \<Longrightarrow>
     unat (sb_flows b') = Suc (unat (sb_flows b))"
proof -
  assume c: "charge_flow p d b = (PermitPinnedDestination, b')" and lt: "sb_flows b < np_max_total_flows p"
  have "sb_flows b + 1 \<noteq> 0" using lt word_order.extremum_strict by (metis eq_neg_iff_add_eq_0)
  then have "unat (sb_flows b + 1) = Suc (unat (sb_flows b))" by (simp add: unatSuc add.commute)
  moreover have "sb_flows b \<le> sb_flows b + 1" using calculation by (simp add: word_le_nat_alt)
  ultimately show ?thesis using charge_flow_cases [OF c] by (auto simp: u64_sat_add_def)
qed

text \<open>Snapshots that keep a session and cap its two budgets.\<close>

definition caps :: "string \<Rightarrow> u64 \<Rightarrow> nat \<Rightarrow> NetworkPolicySnapshot \<Rightarrow> bool" where
  "caps i n m s \<longleftrightarrow>
     (case hm_get (ns_sessions s) i of
        None \<Rightarrow> False
      | Some p \<Rightarrow> np_max_total_flows p \<le> n \<and> np_max_distinct_destinations p \<le> m)"

fun event_caps :: "string \<Rightarrow> u64 \<Rightarrow> nat \<Rightarrow> flow_event \<Rightarrow> bool" where
  "event_caps i n m (FlowSeen f) = True"
| "event_caps i n m (SnapshotOffered s) = caps i n m s"

definition within_caps :: "string \<Rightarrow> u64 \<Rightarrow> nat \<Rightarrow> NetworkFastPath \<Rightarrow> bool" where
  "within_caps i n m st \<longleftrightarrow>
     (case nf_snapshot st of None \<Rightarrow> True | Some s \<Rightarrow> caps i n m s) \<and> sb_flows (budget_of i st) \<le> n \<and>
     distinct (sb_destinations (budget_of i st)) \<and> length (sb_destinations (budget_of i st)) \<le> m"

lemma install_keeps_budget:
  assumes "network_install s st = Inr st'" "caps i n m s"
  shows "budget_of i st' = budget_of i st"
  using assms by (auto simp: network_install_ok budget_of_def retain_keys caps_def split: option.splits)

lemma flow_step_spends:
  assumes "within_caps i n m st" "event_caps i n m e" "flow_step e st = (ds, st')"
  shows "within_caps i n m st' \<and>
     unat (sb_flows (budget_of i st')) = unat (sb_flows (budget_of i st)) + length (filter (permits_for i) ds) \<and>
     set (sb_destinations (budget_of i st')) =
       set (sb_destinations (budget_of i st)) \<union> (\<lambda>d. destination_of (fst d)) ` set (filter (permits_for i) ds)"
proof (cases e)
  case (SnapshotOffered s)
  then show ?thesis
    using assms install_keeps_budget [of s st _ i n m]
    by (auto simp: within_caps_def network_install_ok split: sum.splits)
next
  case (FlowSeen f)
  obtain d where d: "network_decide f st = (d, st')" "ds = [(f, d)]"
    using assms(3) FlowSeen by (auto simp: prod_eq_iff)
  then have snap: "nf_snapshot st' = nf_snapshot st" using network_decide_snapshot [of f st] by simp
  from decide_spends [OF d(1), of i] show ?thesis
  proof (elim disjE conjE exE)
    assume "\<not> permits_for i (f, d)" "budget_of i st' = budget_of i st"
    then show ?thesis using assms(1) d(2) snap by (simp add: within_caps_def)
  next
    fix s p
    assume p: "permits_for i (f, d)" and s: "nf_snapshot st = Some s" "hm_get (ns_sessions s) i = Some p"
      and c: "charge_flow p (destination_of f) (budget_of i st) = (PermitPinnedDestination, budget_of i st')"
    have cap: "np_max_total_flows p \<le> n" "np_max_distinct_destinations p \<le> m"
      using assms(1) s by (simp_all add: within_caps_def caps_def)
    have b: "sb_flows (budget_of i st) < np_max_total_flows p"
      "sb_destinations (budget_of i st') = List.insert (destination_of f) (sb_destinations (budget_of i st))"
      "destination_of f \<in> set (sb_destinations (budget_of i st)) \<or>
         length (sb_destinations (budget_of i st)) < np_max_distinct_destinations p"
      using charge_flow_cases [OF c] by auto
    have u: "unat (sb_flows (budget_of i st')) = Suc (unat (sb_flows (budget_of i st)))"
      by (rule charged_flows [OF c b(1)])
    then have "sb_flows (budget_of i st') \<le> n"
      using b(1) cap(1) by (simp add: word_le_nat_alt word_less_nat_alt)
    then show ?thesis
      using assms(1) snap p u b cap d(2) by (auto simp: within_caps_def List.insert_def)
  qed
qed

lemma flow_run_spends:
  "within_caps i n m st \<Longrightarrow> list_all (event_caps i n m) es \<Longrightarrow>
     within_caps i n m (snd (flow_run es st)) \<and>
     unat (sb_flows (budget_of i (snd (flow_run es st)))) =
       unat (sb_flows (budget_of i st)) + length (filter (permits_for i) (fst (flow_run es st))) \<and>
     set (sb_destinations (budget_of i (snd (flow_run es st)))) =
       set (sb_destinations (budget_of i st)) \<union>
         (\<lambda>d. destination_of (fst d)) ` set (filter (permits_for i) (fst (flow_run es st)))"
proof (induction es arbitrary: st)
  case (Cons e es)
  obtain ds st' where e: "flow_step e st = (ds, st')" by fastforce
  note step = flow_step_spends [OF Cons.prems(1) _ e]
  show ?case using step Cons.IH [of st'] Cons.prems(2) e by auto
qed simp

section \<open>Generations\<close>

lemma generation_step:
  "network_generation st = Some g \<Longrightarrow> \<exists>g'. network_generation (snd (flow_step e st)) = Some g' \<and> g \<le> g'"
  by (cases e) (auto simp: network_generation_def network_install_ok split: sum.splits intro: order.strict_implies_order)

lemma generation_run:
  "network_generation st = Some g \<Longrightarrow> \<exists>g'. network_generation (snd (flow_run es st)) = Some g' \<and> g \<le> g'"
proof (induction es arbitrary: st g)
  case (Cons e es)
  from generation_step [OF Cons.prems] obtain g1 where "network_generation (snd (flow_step e st)) = Some g1" "g \<le> g1"
    by blast
  then show ?case using Cons.IH by (fastforce intro: order_trans)
qed simp

section \<open>Signed network policies\<close>

lemma network_snapshot_window:
  "network_snapshot_validate s = Inr () \<Longrightarrow> validity_window_ok (ns_issued_at_unix_ms s) (ns_expires_at_unix_ms s)"
  by (simp add: network_snapshot_validate_def rbind_eq_Inr)

lemma verify_network_ok:
  "verify_network_policy k v env now = Inr s \<longleftrightarrow>
     se_format env = POLICY_FORMAT \<and> se_algorithm env = POLICY_ALGORITHM \<and>
     validate_identifier ''key_id'' (se_key_id env) 64 = Inr () \<and>
     str_len (se_payload env) \<le> encoded_len_bound MAX_PAYLOAD_BYTES \<and>
     str_len (se_signature env) \<le> encoded_len_bound 64 \<and>
     (\<exists>key payload signature. hm_get (pv_keys v) (se_key_id env) = Some key \<and>
        decode_base64url (pk_b64_decode k) (se_payload env) ''payload'' = Inr payload \<and>
        decode_base64url (pk_b64_decode k) (se_signature env) ''signature'' = Inr signature \<and>
        length signature = 64 \<and> pk_verify k key (NETWORK_SIGNING_DOMAIN @ payload) signature \<and>
        pk_parse k payload = Some s) \<and>
     network_snapshot_validate s = Inr () \<and> ns_target_instance_id s = pv_expected_instance_id v \<and>
     currently_valid (ns_issued_at_unix_ms s) (ns_expires_at_unix_ms s) now"
  by (auto simp: verify_network_policy_def rbind_eq_Inr is_ok_iff)

interpretation network_verifier: policy_verifier "verify_network_policy k v"
  "\<lambda>s. network_snapshot_validate s = Inr ()" ns_target_instance_id ns_issued_at_unix_ms ns_expires_at_unix_ms
  "pv_expected_instance_id v" for k v
proof
  fix env now s now' s'
  assume "verify_network_policy k v env now = Inr s" "verify_network_policy k v env now' = Inr s'"
  then show "s' = s" unfolding verify_network_ok by auto
qed (auto simp: verify_network_ok intro: network_snapshot_window)

text \<open>The two kinds of policy are signed over messages that never coincide, so one is never taken for the other.\<close>

lemma signing_domains_disjoint: "ENDPOINT_SIGNING_DOMAIN @ p \<noteq> NETWORK_SIGNING_DOMAIN @ p'"
proof -
  have d: "take 9 ENDPOINT_SIGNING_DOMAIN \<noteq> take 9 NETWORK_SIGNING_DOMAIN"
    "9 \<le> length ENDPOINT_SIGNING_DOMAIN" "9 \<le> length NETWORK_SIGNING_DOMAIN" by code_simp+
  have "take 9 (ENDPOINT_SIGNING_DOMAIN @ p) \<noteq> take 9 (NETWORK_SIGNING_DOMAIN @ p')"
    using d by simp
  then show ?thesis by metis
qed

section \<open>Samples\<close>

definition sample_destination_rule :: DestinationRule where
  "sample_destination_rule = \<lparr>dn_hostname = ''api.example.com'', dn_protocol = Tcp, dn_ports = [443],
     dn_resolved_addresses = [V4 93 184 216 34], dn_valid_until_unix_ms = 1800\<rparr>"

definition sample_network_policy :: SessionNetworkPolicy where
  "sample_network_policy = \<lparr>np_session_id = ''s1'', np_mode = ModeEnforce, np_destinations = [sample_destination_rule],
     np_max_total_flows = 2, np_max_distinct_destinations = 1\<rparr>"

definition sample_network_snapshot :: NetworkPolicySnapshot where
  "sample_network_snapshot = \<lparr>ns_schema_version = NETWORK_POLICY_SCHEMA, ns_target_instance_id = ''ext-1'',
     ns_generation = 1, ns_issued_at_unix_ms = 1000, ns_expires_at_unix_ms = 2000,
     ns_sessions = [(''s1'', sample_network_policy)],
     ns_attributions = [\<lparr>na_process = sample_key 0, na_session_id = ''s1''\<rparr>]\<rparr>"

definition sample_flow :: NetworkFlow where
  "sample_flow = \<lparr>nl_process = sample_key 0, nl_direction = Outbound, nl_protocol = Tcp,
     nl_hostname = Some ''API.example.com.'', nl_remote_ip = V4 93 184 216 34, nl_remote_port = 443,
     nl_observed_at_unix_ms = Some 1500\<rparr>"

lemma sample_network_snapshot_valid: "network_snapshot_validate sample_network_snapshot = Inr ()"
proof -
  have "rules_validate {} (np_destinations sample_network_policy) = Inr ()" by code_simp
  then have "network_policy_validate sample_network_policy = Inr ()"
    by (simp add: network_policy_validate_def sample_network_policy_def MAX_RULES_PER_SESSION_def
        MAX_TOTAL_FLOWS_def MAX_DISTINCT_DESTINATIONS_def str_len_def)
  moreover have "validate_identifier ''target_instance_id'' (ns_target_instance_id sample_network_snapshot) 128 = Inr ()"
    "validity_window_ok (ns_issued_at_unix_ms sample_network_snapshot) (ns_expires_at_unix_ms sample_network_snapshot)"
    "attributions_validate (ns_sessions sample_network_snapshot) {} (ns_attributions sample_network_snapshot) = Inr ()"
    by code_simp+
  moreover have "\<not> outlives 2000 sample_destination_rule" by (simp add: outlives_def i64_of_u64_def sample_destination_rule_def)
  ultimately show ?thesis
    by (simp add: network_snapshot_validate_def sample_network_snapshot_def MAX_SESSIONS_def MAX_ATTRIBUTIONS_def)
       (simp add: sample_network_policy_def)
qed

definition sample_fast_path :: NetworkFastPath where
  "sample_fast_path = \<lparr>nf_snapshot = Some sample_network_snapshot, nf_attributions = [(sample_key 0, ''s1'')], nf_budgets = []\<rparr>"

lemma sample_fast_path_run: "flow_run [SnapshotOffered sample_network_snapshot] network_fast_path_default = ([], sample_fast_path)"
proof -
  have "network_install sample_network_snapshot network_fast_path_default = Inr sample_fast_path"
    using sample_network_snapshot_valid
    by (simp add: network_install_def network_fast_path_default_def sample_fast_path_def hm_retain_def attribution_table_def)
       (simp add: sample_network_snapshot_def)
  then show ?thesis by simp
qed

lemma sample_pinned: "pinned_at sample_network_policy sample_flow 1500 ''api.example.com''"
proof -
  have "parse_ip ''API.example.com.'' = None" "normalize_hostname ''API.example.com.'' = Some ''api.example.com''"
    "is_public_ip (V4 93 184 216 34)"
    by code_simp+
  then show ?thesis by (simp add: pinned_at_def sample_flow_def sample_network_policy_def sample_destination_rule_def)
qed

lemma sample_policy_in_force:
  "nf_snapshot sample_fast_path = Some sample_network_snapshot"
  "hm_get (nf_attributions sample_fast_path) (nl_process sample_flow) = Some ''s1''"
  "hm_get (ns_sessions sample_network_snapshot) ''s1'' = Some sample_network_policy"
  "np_mode sample_network_policy \<in> {ModeEnforce, ModePrompt}"
  by (simp_all add: sample_fast_path_def sample_flow_def sample_network_snapshot_def sample_network_policy_def hm_get_def)

section \<open>Properties\<close>

text \<open>
  C19: when a flow of a managed process is let through. In every fast path that installations and flows
  lead to, under a policy in enforce or prompt mode, a flow is allowed exactly if the instant of its
  observation precedes the expiry of the snapshot, the flow is outbound to a public address named by a
  hostname that is no address literal, a rule of the session for that normalised hostname and protocol lists the port
  and the address and has not expired, and both budgets of the session have room for it.
\<close>

theorem flow_allowed_exactly:
  assumes "snd (flow_run es network_fast_path_default) = st" "nf_snapshot st = Some s"
    and "hm_get (nf_attributions st) (nl_process f) = Some i" "hm_get (ns_sessions s) i = Some p"
    and "np_mode p \<in> {ModeEnforce, ModePrompt}"
  shows "nd_allow (fst (network_decide f st)) \<longleftrightarrow>
     (\<exists>now t hostname. nl_observed_at_unix_ms f = Some now \<and> i64_of_u64 now = Some t \<and> t < ns_expires_at_unix_ms s \<and>
        pinned_at p f now hostname \<and> sb_flows (budget_of i st) < np_max_total_flows p \<and>
        ((hostname, nl_remote_port f, nl_protocol f) \<in> set (sb_destinations (budget_of i st)) \<or>
         length (sb_destinations (budget_of i st)) < np_max_distinct_destinations p))"
proof -
  have "network_policy_validate p = Inr ()"
    using installed_valid_run [of es] assms snapshot_policy_valid by (auto simp: installed_valid_def)
  note exact = evaluate_flow_destination_exact [OF this]
  show ?thesis
    using assms(2-5)
    by (auto simp: network_decide_def exact [symmetric] charge_flow_def budget_of_def Let_def not_le
        dest: evaluate_never_permits split: option.splits DestinationEvaluation.splits if_splits prod.splits)
qed

theorem flow_allowed_exactly_witness: "nd_allow (fst (network_decide sample_flow sample_fast_path))"
proof -
  have run: "snd (flow_run [SnapshotOffered sample_network_snapshot] network_fast_path_default) = sample_fast_path"
    using sample_fast_path_run by simp
  have "nl_observed_at_unix_ms sample_flow = Some 1500" "i64_of_u64 1500 = Some 1500"
    "1500 < ns_expires_at_unix_ms sample_network_snapshot"
    "sb_flows (budget_of ''s1'' sample_fast_path) < np_max_total_flows sample_network_policy"
    "length (sb_destinations (budget_of ''s1'' sample_fast_path)) < np_max_distinct_destinations sample_network_policy"
    by (simp_all add: sample_flow_def i64_of_u64_def sample_network_snapshot_def sample_network_policy_def
        budget_of_def sample_fast_path_def session_budget_default_def)
  then show ?thesis
    using flow_allowed_exactly [OF run sample_policy_in_force] sample_pinned by blast
qed

text \<open>
  C20: refreshing the policy does not refill a budget. Over any sequence of flows and offered snapshots,
  valid or not and in any order, that keep a session and cap its budgets, the flows permitted to the
  session are at most the flow cap and they reach at most as many distinct destinations as the
  destination cap, however often a new generation was installed in between.
\<close>

theorem flow_budget_not_refilled:
  assumes "list_all (event_caps i n m) es"
  shows "let permitted = filter (permits_for i) (fst (flow_run es network_fast_path_default))
     in length permitted \<le> unat n \<and> card ((\<lambda>d. destination_of (fst d)) ` set permitted) \<le> m"
proof -
  have init: "within_caps i n m network_fast_path_default" "budget_of i network_fast_path_default = session_budget_default"
    by (simp_all add: within_caps_def network_fast_path_default_def budget_of_def session_budget_default_def)
  note run = flow_run_spends [OF init(1) assms, unfolded init(2)]
  let ?b = "budget_of i (snd (flow_run es network_fast_path_default))"
  have "unat (sb_flows ?b) \<le> unat n" "distinct (sb_destinations ?b)" "length (sb_destinations ?b) \<le> m"
    using run by (simp_all add: within_caps_def word_le_nat_alt)
  then show ?thesis
    using run by (simp add: Let_def session_budget_default_def distinct_card [symmetric])
qed

text \<open>The witness: the third flow of a session capped at two is refused, and so is it after a refresh.\<close>

definition refreshed_snapshot :: NetworkPolicySnapshot where
  "refreshed_snapshot = sample_network_snapshot\<lparr>ns_generation := 2\<rparr>"

theorem flow_budget_not_refilled_witness:
  "length (filter (permits_for ''s1'')
     (fst (flow_run [SnapshotOffered sample_network_snapshot, FlowSeen sample_flow, FlowSeen sample_flow,
        SnapshotOffered refreshed_snapshot, FlowSeen sample_flow] network_fast_path_default))) \<le> 2"
proof -
  have "caps ''s1'' 2 1 sample_network_snapshot" "caps ''s1'' 2 1 refreshed_snapshot"
    by (simp_all add: caps_def refreshed_snapshot_def sample_network_snapshot_def sample_network_policy_def hm_get_def)
  then show ?thesis
    using flow_budget_not_refilled [of "''s1''" 2 1 "[SnapshotOffered sample_network_snapshot, FlowSeen sample_flow,
      FlowSeen sample_flow, SnapshotOffered refreshed_snapshot, FlowSeen sample_flow]"]
    by (simp add: Let_def del: flow_run.simps)
qed

text \<open>
  A network policy is never rolled back. Once a generation is in force, no sequence of flows and
  offered snapshots makes it smaller, and a snapshot of that generation or an older one is refused
  ever after, its signature notwithstanding; a refused snapshot leaves the policy in force.
\<close>

theorem network_policy_no_rollback:
  assumes "network_generation st = Some g" and "ns_generation old \<le> g"
  shows "(\<exists>g'. network_generation (snd (flow_run es st)) = Some g' \<and> g \<le> g') \<and>
     (\<exists>err. network_install old (snd (flow_run es st)) = Inl err) \<and>
     flow_run (es @ [SnapshotOffered old]) st = flow_run es st"
proof -
  obtain g' where g: "network_generation (snd (flow_run es st)) = Some g'" "g \<le> g'"
    using generation_run [OF assms(1)] by blast
  have "network_install old (snd (flow_run es st)) \<noteq> Inr st'" for st'
    using g assms(2) by (auto simp: network_install_ok network_generation_def)
  then obtain err where err: "network_install old (snd (flow_run es st)) = Inl err"
    by (cases "network_install old (snd (flow_run es st))") auto
  have "flow_run (es @ [e]) st =
      (fst (flow_run es st) @ fst (flow_step e (snd (flow_run es st))), snd (flow_step e (snd (flow_run es st))))" for e
    by (induction es arbitrary: st) simp_all
  then show ?thesis using g err by (auto simp: prod_eq_iff)
qed

theorem network_policy_no_rollback_witness:
  "\<exists>err. network_install sample_network_snapshot sample_fast_path = Inl err"
  using network_policy_no_rollback [of sample_fast_path 1 sample_network_snapshot "[]"]
  by (simp add: network_generation_def sample_fast_path_def sample_network_snapshot_def)

text \<open>
  C21: a network policy is accepted only as it was issued and only in its day. Verification gives a
  well-formed snapshot for this extension instance whose validity window holds the instant; the envelope
  never verifies to another snapshot, nor more than a day and thirty seconds later; and what was signed is never a
  message an endpoint policy is signed over.
\<close>

theorem network_policy_verified:
  assumes "verify_network_policy k v env now = Inr s"
  shows "network_snapshot_validate s = Inr () \<and> ns_target_instance_id s = pv_expected_instance_id v \<and>
     now < ns_expires_at_unix_ms s \<and>
     (\<forall>now' s'. verify_network_policy k v env now' = Inr s' \<longrightarrow> s' = s \<and> now' < now + 86430000) \<and>
     (\<exists>key payload signature. hm_get (pv_keys v) (se_key_id env) = Some key \<and>
        pk_verify k key (NETWORK_SIGNING_DOMAIN @ payload) signature \<and> pk_parse k payload = Some s \<and>
        (\<forall>p. NETWORK_SIGNING_DOMAIN @ payload \<noteq> ENDPOINT_SIGNING_DOMAIN @ p))"
proof -
  have "s' = s \<and> now' < now + 86430000" if "verify_network_policy k v env now' = Inr s'" for now' s'
    using network_verifier.acceptance_window [OF assms that]
    by (simp add: MAX_SNAPSHOT_LIFETIME_MS_def MAX_CLOCK_SKEW_MS_def)
  then show ?thesis
    using assms network_verifier.never_expired [OF assms] signing_domains_disjoint
    unfolding verify_network_ok by metis
qed

theorem network_policy_verified_witness:
  "\<exists>env. verify_network_policy (letter_codec sample_network_snapshot) sample_policy_verifier env 1500 = Inr sample_network_snapshot \<and>
     (\<forall>now' s'. verify_network_policy (letter_codec sample_network_snapshot) sample_policy_verifier env now' = Inr s' \<longrightarrow>
        now' < 1500 + 86430000)"
proof -
  let ?env = "\<lparr>se_format = POLICY_FORMAT, se_algorithm = POLICY_ALGORITHM, se_key_id = ''k1'', se_payload = ''P'', se_signature = ''S''\<rparr>"
  have b: "base64url_char CHR ''S''" "base64url_char CHR ''P''" "str_len ''S'' = 1" "str_len ''P'' = 1"
    "validate_identifier ''key_id'' ''k1'' 64 = Inr ()"
    "currently_valid (ns_issued_at_unix_ms sample_network_snapshot) (ns_expires_at_unix_ms sample_network_snapshot) 1500"
    by code_simp+
  have "verify_network_policy (letter_codec sample_network_snapshot) sample_policy_verifier ?env 1500 = Inr sample_network_snapshot"
    using b sample_network_snapshot_valid unfolding verify_network_ok
    by (simp add: decode_base64url_def letter_codec_def sample_policy_verifier_def hm_get_def encoded_len_bound_def MAX_PAYLOAD_BYTES_def)
       (simp add: sample_network_snapshot_def)
  then show ?thesis using network_policy_verified by blast
qed

end
