(* ===== verification/Gateway.thy ===== *)
theory Gateway
  imports Capability Identity Paths Reasons Redact
begin

text \<open>
  The policy enforcement point (\<^verbatim>\<open>vigil-gateway/src/lib.rs\<close>), its credential broker (\<^verbatim>\<open>broker.rs\<close>) and its tool
  backends (\<^verbatim>\<open>tools.rs\<close>). A tool is a function on the state of the outside world; the theory shows that the
  outside world changes only behind a verified capability for exactly the presented action.
\<close>

section \<open>Credentials\<close>

record ResolvedCredential =
  rd_reference :: string
  rd_value :: string

record CredentialUsage =
  cu_tool :: string
  cu_reference :: string
  cu_capability_id :: string
  cu_agent_id :: string
  cu_fingerprint :: string

record CredentialBroker =
  cb_by_tool :: "(string, ResolvedCredential) hmap"
  cb_usage_log :: "CredentialUsage list"
  cb_by_tool_poisoned :: bool
  cb_usage_poisoned :: bool

definition broker_new :: CredentialBroker where
  "broker_new = \<lparr>cb_by_tool = [], cb_usage_log = [], cb_by_tool_poisoned = False, cb_usage_poisoned = False\<rparr>"

definition usage_fingerprint :: "value_codec \<Rightarrow> ResolvedCredential \<Rightarrow> string" where
  "usage_fingerprint vc c = fingerprint vc (rd_value c)"

datatype gateway_error = BrokerUnavailable | HashNotCanonical canon_error

definition broker_register :: "string \<Rightarrow> string \<Rightarrow> string \<Rightarrow> CredentialBroker \<Rightarrow> (gateway_error + unit) \<times> CredentialBroker" where
  "broker_register tool reference value b =
     (if cb_by_tool_poisoned b then (Inl BrokerUnavailable, b)
      else (Inr (), b\<lparr>cb_by_tool := hm_insert tool \<lparr>rd_reference = reference, rd_value = value\<rparr> (cb_by_tool b)\<rparr>))"

definition broker_resolve ::
    "value_codec \<Rightarrow> string \<Rightarrow> CapabilityClaims \<Rightarrow> CredentialBroker
      \<Rightarrow> (gateway_error + ResolvedCredential option) \<times> CredentialBroker" where
  "broker_resolve vc tool claims b =
     (if cb_by_tool_poisoned b then (Inl BrokerUnavailable, b)
      else case hm_get (cb_by_tool b) tool of
        None \<Rightarrow> (Inr None, b)
      | Some c \<Rightarrow>
          let usage = \<lparr>cu_tool = tool, cu_reference = rd_reference c, cu_capability_id = cc_capability_id claims,
                cu_agent_id = cc_agent_id claims, cu_fingerprint = usage_fingerprint vc c\<rparr>
          in (Inr (Some c),
              if cb_usage_poisoned b then b else b\<lparr>cb_usage_log := cb_usage_log b @ [usage]\<rparr>))"

definition broker_usage_log :: "CredentialBroker \<Rightarrow> CredentialUsage list" where
  "broker_usage_log b = (if cb_usage_poisoned b then [] else cb_usage_log b)"

definition broker_is_registered :: "string \<Rightarrow> CredentialBroker \<Rightarrow> bool" where
  "broker_is_registered tool b = (if cb_by_tool_poisoned b then False else hm_get (cb_by_tool b) tool \<noteq> None)"

section \<open>Tools\<close>

record ToolInvocation =
  ti_tool :: string
  ti_operation :: string
  ti_arguments :: json
  ti_credentials :: "ResolvedCredential option"
  ti_capability_id :: string

text \<open>A backend performs a side effect on a world and answers with an output or the text of an error.\<close>

type_synonym 'w backend = "ToolInvocation \<Rightarrow> 'w \<Rightarrow> (string + json) \<times> 'w"

type_synonym 'w ToolRegistry = "(string, 'w backend) hmap"

definition tool_register :: "string \<Rightarrow> 'w backend \<Rightarrow> 'w ToolRegistry \<Rightarrow> 'w ToolRegistry" where
  "tool_register name b r = hm_insert name b r"

definition tool_get :: "'w ToolRegistry \<Rightarrow> string \<Rightarrow> 'w backend option" where
  "tool_get r name = hm_get r name"

record RecordedInvocation =
  ri_operation :: string
  ri_arguments :: json
  ri_had_credentials :: bool

definition recording_invoke :: "json \<Rightarrow> RecordedInvocation list backend" where
  "recording_invoke response call seen =
     (Inr response, seen @ [\<lparr>ri_operation = ti_operation call, ri_arguments = ti_arguments call,
        ri_had_credentials = (ti_credentials call \<noteq> None)\<rparr>])"

definition was_never_invoked :: "RecordedInvocation list \<Rightarrow> bool" where
  "was_never_invoked seen \<longleftrightarrow> length seen = 0"

definition failing_invoke :: "'w backend" where
  "failing_invoke call w = (Inl ''`tool_backend` unavailable: simulated backend failure'', w)"

section \<open>Refusals\<close>

record ExecutionResult =
  er_executed :: bool
  er_output :: "json option"
  er_refusal :: "ReasonCode option"
  er_capability_id :: "string option"
  er_detail :: string

definition refused :: "ReasonCode \<Rightarrow> string \<Rightarrow> ExecutionResult" where
  "refused reason detail = \<lparr>er_executed = False, er_output = None, er_refusal = Some reason,
     er_capability_id = None, er_detail = detail\<rparr>"

definition check_caller_matches_request :: "VerifiedIdentity \<Rightarrow> ActionRequest \<Rightarrow> string + unit" where
  "check_caller_matches_request caller r =
     (if vi_tenant_id caller \<noteq> ar_tenant_id r
      then Inl ''the authenticated caller belongs to a different tenant than the request''
      else case vi_agent_id caller of
        None \<Rightarrow> Inr ()
      | Some agent \<Rightarrow>
          if agent \<noteq> ar_agent_id r
          then Inl (''the authenticated caller is agent `'' @ agent @ ''`, which is not the agent this request claims to act as'')
          else Inr ())"

definition classify_capability_failure :: "string \<Rightarrow> ReasonCode" where
  "classify_capability_failure text =
     (if str_contains text ''already redeemed'' then CapabilityReplay
      else if str_contains text ''expired'' then ReasonCode.CapabilityExpired
      else if str_contains text ''does not match the authorized action'' then CapabilityActionMismatch
      else if str_contains text ''binding does not match'' \<or> str_contains text ''does not match the presented''
           then CapabilityBindingMismatch
      else if str_contains text ''signature'' \<or> str_contains text ''untrusted key'' then CapabilitySignatureInvalid
      else CapabilityBindingMismatch)"

text \<open>
  The environment of the gateway: the token format and its verifier, the digest, the tools, the filesystem
  behind path constraints, and the printers used in messages.
\<close>

record ('sk, 'vk, 'w) gateway_env =
  ge_crypto :: "('sk, 'vk) crypto"
  ge_verifier :: "'vk CapabilityVerifier"
  ge_format :: number_format
  ge_sha :: "u8 list \<Rightarrow> string"
  ge_tools :: "'w ToolRegistry"
  ge_canon :: "string \<Rightarrow> string list option"
  ge_codec :: value_codec
  ge_marks :: marks
  ge_rfc3339 :: "timestamp \<Rightarrow> string"
  ge_parse_error :: "u8 list \<Rightarrow> string"

text \<open>The message of a capability error, with the values it quotes.\<close>

definition token_claims :: "('sk, 'vk) crypto \<Rightarrow> string \<Rightarrow> CapabilityClaims option" where
  "token_claims k token =
     (case token_parse k token of Inl _ \<Rightarrow> None | Inr p \<Rightarrow> claims_parse k (pt_claims_json p))"

definition undecodable_part :: "('sk, 'vk) crypto \<Rightarrow> string \<Rightarrow> string" where
  "undecodable_part k token =
     (case split_on (\<lambda>c. c = CHR ''.'') token of
        [_, h, c, _] \<Rightarrow>
          if b64_decode k h = None then ''header'' else if b64_decode k c = None then ''claims'' else ''signature''
      | _ \<Rightarrow> [])"

definition claimed_value :: "string \<Rightarrow> CapabilityClaims \<Rightarrow> string" where
  "claimed_value field c =
     (if field = ''tenant'' then cc_tenant_id c else if field = ''environment'' then cc_environment_id c
      else if field = ''agent'' then cc_agent_id c else if field = ''agent_instance'' then cc_agent_instance_id c
      else if field = ''session'' then cc_session_id c else if field = ''principal'' then cc_principal_id c
      else if field = ''action_kind'' then cc_action_kind c else cc_operation c)"

definition with_claims :: "('sk, 'vk) crypto \<Rightarrow> string \<Rightarrow> (CapabilityClaims \<Rightarrow> string) \<Rightarrow> string" where
  "with_claims k token f = (case token_claims k token of None \<Rightarrow> [] | Some c \<Rightarrow> f c)"

fun capability_message :: "('sk, 'vk, 'w) gateway_env \<Rightarrow> string \<Rightarrow> capability_error \<Rightarrow> string" where
  "capability_message e token TokenTooLong = ''capability token exceeds maximum length''"
| "capability_message e token TokenMalformed = ''capability token is malformed''"
| "capability_message e token TokenPrefix =
     ''unsupported capability token format `'' @
     single_line_excerpt (ge_marks e) (hd (split_on (\<lambda>c. c = CHR ''.'') token)) 16 @ ''`''"
| "capability_message e token TokenNotBase64 =
     ''capability token '' @ undecodable_part (ge_crypto e) token @ '' is not base64url''"
| "capability_message e token HeaderInvalid = ''capability token header is not valid JSON''"
| "capability_message e token UnsupportedAlgorithm = ''unsupported capability signature algorithm''"
| "capability_message e token UntrustedKey = ''capability signed by an untrusted key''"
| "capability_message e token SignatureLength = ''capability signature has the wrong length''"
| "capability_message e token SignatureInvalid = ''capability signature is invalid''"
| "capability_message e token ClaimsUnreadable =
     ''capability claims are unreadable: '' @
     (case token_parse (ge_crypto e) token of Inl _ \<Rightarrow> [] | Inr p \<Rightarrow> ge_parse_error e (pt_claims_json p))"
| "capability_message e token capability_error.CapabilityExpired =
     ''capability expired at '' @ with_claims (ge_crypto e) token (\<lambda>c. ge_rfc3339 e (cc_expires_at c))"
| "capability_message e token NotYetValid = ''capability is not yet valid''"
| "capability_message e token LifetimeInverted = ''capability lifetime is empty or inverted''"
| "capability_message e token LifetimeTooLong = ''capability lifetime exceeds the permitted maximum''"
| "capability_message e token ClaimsVersion =
     ''unsupported claims version `'' @ with_claims (ge_crypto e) token cc_version @ ''`''"
| "capability_message e token (BindingMismatch field) =
     ''capability '' @ field @ '' binding does not match the presented request (capability: '' @
     with_claims (ge_crypto e) token (claimed_value field) @ '')''"
| "capability_message e token ToolMismatch = ''capability tool does not match presented tool''"
| "capability_message e token TargetMismatch = ''capability target resource does not match presented target''"
| "capability_message e token ActionMismatch = ''presented action does not match the authorized action''"
| "capability_message e token (AlreadyRedeemed n) =
     ''capability already redeemed ('' @ show_nat (unat n) @ '' prior use(s))''"
| "capability_message e token NonceStoreUnavailable = ''lock poisoned; replay state is unreliable''"
| "capability_message e token ClaimsNotCanonical = []"

definition capability_error_text :: "('sk, 'vk, 'w) gateway_env \<Rightarrow> string \<Rightarrow> capability_error \<Rightarrow> string" where
  "capability_error_text e token err =
     (if err = NonceStoreUnavailable then ''`nonce_store` unavailable: '' else ''capability rejected: '')
     @ capability_message e token err"

section \<open>Constraints\<close>

fun split_str :: "string \<Rightarrow> string \<Rightarrow> string \<Rightarrow> string list" where
  "split_str sep acc [] = [rev acc]"
| "split_str sep acc (c # cs) =
     (if sep \<noteq> [] \<and> prefix sep (c # cs) then rev acc # split_str sep [] (drop (length sep - 1) cs)
      else split_str sep (c # acc) cs)"

definition constraint_host :: "string \<Rightarrow> string" where
  "constraint_host url =
     (case split_str ''://'' [] url of
        _ # rest # _ \<Rightarrow>
          let authority = hd (split_on (\<lambda>c. c = CHR ''/'' \<or> c = CHR ''?'' \<or> c = CHR ''#'') rest);
              host = last (split_on (\<lambda>c. c = CHR ''@'') authority)
          in to_ascii_lowercase (hd (split_on (\<lambda>c. c = CHR '':'') host))
      | _ \<Rightarrow> [])"

definition enforce_arguments :: "marks \<Rightarrow> string list \<Rightarrow> (string \<times> string) list \<Rightarrow> string + unit" where
  "enforce_arguments mk paths args =
     (case List.find (\<lambda>(path, _). \<not> list_ex (\<lambda>p. starts_with path p) paths) args of
        None \<Rightarrow> Inr ()
      | Some (path, _) \<Rightarrow> Inl (''argument `'' @ single_line_excerpt mk path 60 @ ''` is not permitted by the capability''))"

fun enforce_constraint :: "marks \<Rightarrow> (string \<Rightarrow> string list option) \<Rightarrow> ActionRequest \<Rightarrow> Constraint \<Rightarrow> string + unit" where
  "enforce_constraint mk canon r (AllowedHosts hosts) =
     (case ar_action r of
        ActNetwork n \<Rightarrow>
          ensure (list_ex (\<lambda>h. eq_ignore_ascii_case h (constraint_host (nr_url n))) hosts)
            ''destination is not in the capability's host list''
      | _ \<Rightarrow> Inr ())"
| "enforce_constraint mk canon r (ArgumentAllowlist paths) = enforce_arguments mk paths (content_strings (ar_action r))"
| "enforce_constraint mk canon r (SqlOperations ops) =
     (case ar_action r of
        ActDatabase _ \<Rightarrow>
          ensure (list_ex (\<lambda>x. eq_ignore_ascii_case x (operation (ar_action r))) ops)
            ''SQL operation is not permitted by the capability''
      | _ \<Rightarrow> Inr ())"
| "enforce_constraint mk canon r (PathRoots roots) =
     (case ar_action r of
        ActFile f \<Rightarrow>
          if \<not> is_inside_any (fo_path f) roots then Inl ''path is outside the capability's permitted roots''
          else if is_inside_any_resolved canon (fo_path f) roots = Outside
               then Inl ''path resolves outside the capability's permitted roots''
          else Inr ()
      | _ \<Rightarrow> Inr ())"
| "enforce_constraint mk canon r (MaxUses _) = Inr ()"
| "enforce_constraint mk canon r (TimeoutMs _) = Inr ()"
| "enforce_constraint mk canon r (MaxResponseBytes _) = Inr ()"

fun enforce_constraints ::
    "marks \<Rightarrow> (string \<Rightarrow> string list option) \<Rightarrow> Constraint list \<Rightarrow> ActionRequest \<Rightarrow> string + unit" where
  "enforce_constraints mk canon [] r = Inr ()"
| "enforce_constraints mk canon (c # cs) r =
     rbind (enforce_constraint mk canon r c) (\<lambda>_. enforce_constraints mk canon cs r)"

section \<open>Execution\<close>

definition gateway_tool_id :: "Action \<Rightarrow> string option" where
  "gateway_tool_id a = (case a of ActToolCall t \<Rightarrow> Some (tc_tool_id t) | _ \<Rightarrow> None)"

definition gateway_target :: "Action \<Rightarrow> string option" where
  "gateway_target a = (case a of ActToolCall t \<Rightarrow> tc_target_resource t | ActNetwork n \<Rightarrow> Some (nr_url n)
     | ActFile f \<Rightarrow> Some (fo_path f) | _ \<Rightarrow> None)"

definition presented_action :: "ActionRequest \<Rightarrow> ContentHash \<Rightarrow> PresentedAction" where
  "presented_action r h = \<lparr>ps_tenant_id = ar_tenant_id r, ps_environment_id = ar_environment_id r,
     ps_agent_id = ar_agent_id r, ps_agent_instance_id = ar_agent_instance_id r, ps_session_id = ar_session_id r,
     ps_principal_id = p_id (ar_principal r), ps_action_kind = action_kind (ar_action r),
     ps_tool_id = gateway_tool_id (ar_action r), ps_operation = operation (ar_action r),
     ps_target_resource = gateway_target (ar_action r), ps_action_hash = h\<rparr>"

record 'w gateway_state =
  gs_nonces :: InMemoryNonceStore
  gs_broker :: CredentialBroker
  gs_world :: 'w

definition invocation_of :: "ActionRequest \<Rightarrow> CapabilityClaims \<Rightarrow> ResolvedCredential option \<Rightarrow> ToolInvocation" where
  "invocation_of r claims credentials =
     \<lparr>ti_tool = resource_name (ar_action r), ti_operation = operation (ar_action r),
      ti_arguments = (case ar_action r of ActToolCall t \<Rightarrow> tc_arguments t | a \<Rightarrow> material_projection a),
      ti_credentials = credentials, ti_capability_id = cc_capability_id claims\<rparr>"

definition invoke_backend ::
    "('sk, 'vk, 'w) gateway_env \<Rightarrow> 'w backend \<Rightarrow> ToolInvocation \<Rightarrow> 'w gateway_state \<Rightarrow> ExecutionResult \<times> 'w gateway_state" where
  "invoke_backend e backend call st =
     (let (x, w) = backend call (gs_world st)
      in (case x of
            Inr output \<Rightarrow> \<lparr>er_executed = True, er_output = Some output, er_refusal = None,
              er_capability_id = Some (ti_capability_id call), er_detail = ''executed''\<rparr>
          | Inl err \<Rightarrow> \<lparr>er_executed = True, er_output = None, er_refusal = None,
              er_capability_id = Some (ti_capability_id call),
              er_detail = ''tool invocation failed after authorization: '' @ single_line_excerpt (ge_marks e) err 200\<rparr>,
          st\<lparr>gs_world := w\<rparr>))"

definition dispatch ::
    "('sk, 'vk, 'w) gateway_env \<Rightarrow> ActionRequest \<Rightarrow> CapabilityClaims \<Rightarrow> 'w gateway_state
      \<Rightarrow> (gateway_error + ExecutionResult) \<times> 'w gateway_state" where
  "dispatch e r claims st =
     (case enforce_constraints (ge_marks e) (ge_canon e) (cc_constraints claims) r of
        Inl violation \<Rightarrow> (Inr (refused ToolArgumentSchemaViolation violation), st)
      | Inr _ \<Rightarrow>
          (case tool_get (ge_tools e) (resource_name (ar_action r)) of
             None \<Rightarrow> (Inr (refused ToolUnregistered ''no backend is registered for this tool''), st)
           | Some backend \<Rightarrow>
               (case broker_resolve (ge_codec e) (resource_name (ar_action r)) claims (gs_broker st) of
                  (Inl err, b) \<Rightarrow> (Inl err, st\<lparr>gs_broker := b\<rparr>)
                | (Inr credentials, b) \<Rightarrow>
                    let (res, st') = invoke_backend e backend (invocation_of r claims credentials) (st\<lparr>gs_broker := b\<rparr>)
                    in (Inr res, st'))))"

definition execute_verified ::
    "('sk, 'vk, 'w) gateway_env \<Rightarrow> timestamp \<Rightarrow> ActionRequest \<Rightarrow> string option \<Rightarrow> 'w gateway_state
      \<Rightarrow> (gateway_error + ExecutionResult) \<times> 'w gateway_state" where
  "execute_verified e now r capability_token st =
     (case capability_token of
        None \<Rightarrow> (Inr (refused CapabilityMissing ''no capability was presented''), st)
      | Some token \<Rightarrow>
          (case request_action_hash (ge_format e) (ge_sha e) r of
             Inl err \<Rightarrow> (Inl (HashNotCanonical err), st)
           | Inr h \<Rightarrow>
               (case verify_and_consume (ge_crypto e) (ge_verifier e) now token (presented_action r h) (gs_nonces st) of
                  (Inl err, s) \<Rightarrow>
                    (let text = capability_error_text e token err
                     in (Inr (refused (classify_capability_failure text) text), st\<lparr>gs_nonces := s\<rparr>))
                | (Inr verified, s) \<Rightarrow> dispatch e r (vc_claims verified) (st\<lparr>gs_nonces := s\<rparr>))))"

definition execute_as ::
    "('sk, 'vk, 'w) gateway_env \<Rightarrow> timestamp \<Rightarrow> ActionRequest \<Rightarrow> string option \<Rightarrow> VerifiedIdentity option
      \<Rightarrow> 'w gateway_state \<Rightarrow> (gateway_error + ExecutionResult) \<times> 'w gateway_state" where
  "execute_as e now r capability_token caller st =
     (case caller of
        None \<Rightarrow> execute_verified e now r capability_token st
      | Some c \<Rightarrow>
          (case check_caller_matches_request c r of
             Inl reason \<Rightarrow> (Inr (refused AgentIdentityMismatch reason), st)
           | Inr _ \<Rightarrow> execute_verified e now r capability_token st))"

definition execute :: "('sk, 'vk, 'w) gateway_env \<Rightarrow> timestamp \<Rightarrow> ActionRequest \<Rightarrow> string option
      \<Rightarrow> 'w gateway_state \<Rightarrow> (gateway_error + ExecutionResult) \<times> 'w gateway_state" where
  "execute e now r capability_token st = execute_as e now r capability_token None st"

section \<open>The HTTP surface\<close>

definition CAPABILITY_HEADER :: string where
  "CAPABILITY_HEADER = ''x-vigil-capability''"

record ExecuteResponse =
  xr_status :: int
  xr_executed :: bool
  xr_output :: "json option"
  xr_refusal_reason :: "string option"
  xr_detail :: string

fun gateway_error_class :: "gateway_error \<Rightarrow> string" where
  "gateway_error_class BrokerUnavailable = ''unavailable''"
| "gateway_error_class (HashNotCanonical err) = ''serialization''"

fun gateway_error_status :: "gateway_error \<Rightarrow> int" where
  "gateway_error_status BrokerUnavailable = 503"
| "gateway_error_status (HashNotCanonical err) = 400"

definition handle_execute ::
    "('sk, 'vk, 'w) gateway_env \<Rightarrow> timestamp \<Rightarrow> VerifiedIdentity \<Rightarrow> headers \<Rightarrow> ActionRequest
      \<Rightarrow> 'w gateway_state \<Rightarrow> ExecuteResponse \<times> 'w gateway_state" where
  "handle_execute e now caller hs r st =
     (case execute_as e now r (hm_get hs CAPABILITY_HEADER) (Some caller) st of
        (Inr res, st') \<Rightarrow>
          (\<lparr>xr_status = (if er_executed res then 200 else 403), xr_executed = er_executed res,
            xr_output = er_output res, xr_refusal_reason = map_option reason_as_str (er_refusal res),
            xr_detail = single_line_excerpt (ge_marks e) (er_detail res) 300\<rparr>, st')
      | (Inl err, st') \<Rightarrow>
          (\<lparr>xr_status = gateway_error_status err, xr_executed = False, xr_output = None,
            xr_refusal_reason = Some (gateway_error_class err),
            xr_detail = ''the request could not be processed''\<rparr>, st'))"

section \<open>Verification and the nonce store\<close>

lemma verify_accepted:
  assumes "verify_and_consume k v now tok p s = (Inr vc, s')"
  shows "authenticate_token k v now tok p = Inr (vc_claims vc)"
    "store_uses s (cc_nonce (vc_claims vc)) < unat (cc_max_uses (vc_claims vc))"
    "store_uses s' = (store_uses s)(cc_nonce (vc_claims vc) := store_uses s (cc_nonce (vc_claims vc)) + 1)"
proof -
  obtain c u where c: "authenticate_token k v now tok p = Inr c" "vc_claims vc = c"
    "consume (cc_nonce c) (cc_max_uses c) (cc_expires_at c) s = (Inr (Accepted u), s')"
    using assms by (auto simp: verify_and_consume_def split: sum.splits prod.splits NonceVerdict.splits)
  with consume_accepted [OF c(3)] show "authenticate_token k v now tok p = Inr (vc_claims vc)"
    "store_uses s (cc_nonce (vc_claims vc)) < unat (cc_max_uses (vc_claims vc))"
    "store_uses s' = (store_uses s)(cc_nonce (vc_claims vc) := store_uses s (cc_nonce (vc_claims vc)) + 1)"
    by simp_all
qed

lemma verify_uses_mono:
  assumes "verify_and_consume k v now tok p s = (x, s')"
  shows "store_uses s n \<le> store_uses s' n"
proof (cases x)
  case (Inr vc)
  then show ?thesis using verify_accepted(3) assms by fastforce
next
  case (Inl err)
  show ?thesis
  proof (cases "authenticate_token k v now tok p")
    case (Inl err')
    then show ?thesis using assms by (simp add: verify_and_consume_def)
  next
    case (Inr c)
    obtain r s2 where c: "consume (cc_nonce c) (cc_max_uses c) (cc_expires_at c) s = (r, s2)" by fastforce
    have "\<forall>u. r \<noteq> Inr (Accepted u)" "s' = s2"
      using assms Inl Inr c by (auto simp: verify_and_consume_def split: sum.splits NonceVerdict.splits)
    with consume_rejected [OF c] show ?thesis by simp
  qed
qed

section \<open>What an execution needs\<close>

lemma broker_resolves:
  assumes "\<not> cb_by_tool_poisoned b"
  obtains credentials b' where "broker_resolve vc tool claims b = (Inr credentials, b')"
  using assms by (cases "hm_get (cb_by_tool b) tool") (simp_all add: broker_resolve_def Let_def)

lemma check_caller_ok:
  "check_caller_matches_request c r = Inr () \<longleftrightarrow>
     vi_tenant_id c = ar_tenant_id r \<and> (vi_agent_id c = None \<or> vi_agent_id c = Some (ar_agent_id r))"
  by (auto simp: check_caller_matches_request_def split: option.splits)

lemma dispatch_keeps_nonces: "gs_nonces (snd (dispatch e r c st)) = gs_nonces st"
  by (auto simp: dispatch_def invoke_backend_def Let_def split: sum.splits option.splits prod.splits)

lemma dispatch_effect:
  assumes "dispatch e r c st = (x, st')" "gs_world st' \<noteq> gs_world st \<or> (\<exists>res. x = Inr res \<and> er_executed res)"
  obtains backend credentials y where "enforce_constraints (ge_marks e) (ge_canon e) (cc_constraints c) r = Inr ()"
    "tool_get (ge_tools e) (resource_name (ar_action r)) = Some backend"
    "fst (broker_resolve (ge_codec e) (resource_name (ar_action r)) c (gs_broker st)) = Inr credentials"
    "backend (invocation_of r c credentials) (gs_world st) = (y, gs_world st')"
proof -
  obtain backend where 1: "enforce_constraints (ge_marks e) (ge_canon e) (cc_constraints c) r = Inr ()"
    "tool_get (ge_tools e) (resource_name (ar_action r)) = Some backend"
    using assms by (auto simp: dispatch_def refused_def split: sum.splits option.splits)
  obtain y b where 2: "broker_resolve (ge_codec e) (resource_name (ar_action r)) c (gs_broker st) = (y, b)" by fastforce
  obtain credentials where y: "y = Inr credentials"
    using assms 1 2 by (cases y) (auto simp: dispatch_def)
  have "gs_world st' = snd (backend (invocation_of r c credentials) (gs_world st))"
    using assms(1) 1 2 y by (auto simp: dispatch_def invoke_backend_def Let_def split: prod.splits)
  with 1 2 y that show thesis by (metis fst_conv prod.collapse)
qed

lemma execute_verified_effect:
  assumes "execute_verified e now r tok st = (x, st')"
    "gs_world st' \<noteq> gs_world st \<or> (\<exists>res. x = Inr res \<and> er_executed res)"
  obtains token h vc s where "tok = Some token" "request_action_hash (ge_format e) (ge_sha e) r = Inr h"
    "verify_and_consume (ge_crypto e) (ge_verifier e) now token (presented_action r h) (gs_nonces st) = (Inr vc, s)"
    "dispatch e r (vc_claims vc) (st\<lparr>gs_nonces := s\<rparr>) = (x, st')" "gs_nonces st' = s"
proof -
  obtain token where 1: "tok = Some token"
    using assms by (cases tok) (auto simp: execute_verified_def refused_def)
  obtain h where 2: "request_action_hash (ge_format e) (ge_sha e) r = Inr h"
    using assms 1 by (cases "request_action_hash (ge_format e) (ge_sha e) r") (auto simp: execute_verified_def)
  obtain v s where 3: "verify_and_consume (ge_crypto e) (ge_verifier e) now token (presented_action r h) (gs_nonces st) = (v, s)"
    by fastforce
  obtain vc where v: "v = Inr vc"
    using assms 1 2 3 by (cases v) (auto simp: execute_verified_def refused_def Let_def)
  have d: "dispatch e r (vc_claims vc) (st\<lparr>gs_nonces := s\<rparr>) = (x, st')"
    using assms(1) 1 2 3 v by (simp add: execute_verified_def)
  have "gs_nonces st' = s" using dispatch_keeps_nonces [of e r "vc_claims vc" "st\<lparr>gs_nonces := s\<rparr>"] d by simp
  with 1 2 3 v d that show thesis by blast
qed

lemma execute_as_effect:
  assumes "execute_as e now r tok caller st = (x, st')"
    "gs_world st' \<noteq> gs_world st \<or> (\<exists>res. x = Inr res \<and> er_executed res)"
  shows "execute_verified e now r tok st = (x, st')" "\<And>c. caller = Some c \<Longrightarrow> check_caller_matches_request c r = Inr ()"
  using assms by (auto simp: execute_as_def refused_def split: option.splits sum.splits)

lemma execute_as_nonces:
  "gs_nonces (snd (execute_as e now r tok caller st)) = gs_nonces st \<or>
   (\<exists>token h. tok = Some token \<and> request_action_hash (ge_format e) (ge_sha e) r = Inr h \<and>
      gs_nonces (snd (execute_as e now r tok caller st)) =
        snd (verify_and_consume (ge_crypto e) (ge_verifier e) now token (presented_action r h) (gs_nonces st)))"
  by (auto simp: execute_as_def execute_verified_def Let_def dispatch_keeps_nonces split: option.splits sum.splits prod.splits)

text \<open>Any number of requests at one gateway, each with its own clock reading.\<close>

type_synonym gateway_call = "timestamp \<times> ActionRequest \<times> string option \<times> VerifiedIdentity option"

primrec gateway_run :: "('sk, 'vk, 'w) gateway_env \<Rightarrow> gateway_call list \<Rightarrow> 'w gateway_state \<Rightarrow> 'w gateway_state" where
  "gateway_run e [] st = st"
| "gateway_run e (x # xs) st = (case x of (now, r, tok, caller) \<Rightarrow> gateway_run e xs (snd (execute_as e now r tok caller st)))"

lemma execute_as_uses_mono: "store_uses (gs_nonces st) n \<le> store_uses (gs_nonces (snd (execute_as e now r tok caller st))) n"
  using execute_as_nonces [of e now r tok caller st] verify_uses_mono [OF prod.collapse [symmetric]] by auto

lemma gateway_run_uses_mono: "store_uses (gs_nonces st) n \<le> store_uses (gs_nonces (gateway_run e xs st)) n"
proof (induction xs arbitrary: st)
  case (Cons x xs)
  obtain now r tok caller where x: "x = (now, r, tok, caller)" by (cases x)
  show ?case
    using Cons [of "snd (execute_as e now r tok caller st)"] execute_as_uses_mono [of st n e now r tok caller]
    by (simp add: x)
qed simp

section \<open>A sample gateway\<close>

definition sample_gate_request :: ActionRequest where
  "sample_gate_request = sample_request sample_shell"

definition sample_gate_claims :: CapabilityClaims where
  "sample_gate_claims = sample_claims\<lparr>cc_agent_id := ''support'',
     cc_operation := operation (ar_action sample_gate_request)\<rparr>"

definition sample_gate :: "(unit, unit, RecordedInvocation list) gateway_env" where
  "sample_gate = \<lparr>ge_crypto = sample_crypto\<lparr>claims_parse := (\<lambda>b. Some sample_gate_claims)\<rparr>, ge_verifier = sample_verifier,
     ge_format = sample_format, ge_sha = (\<lambda>b. ''00''),
     ge_tools = tool_register (resource_name (ar_action sample_gate_request)) (recording_invoke JNull) [],
     ge_canon = (\<lambda>p. None), ge_codec = sample_codec, ge_marks = sample_marks, ge_rfc3339 = (\<lambda>t. ''now''),
     ge_parse_error = (\<lambda>b. ''error'')\<rparr>"

definition sample_gate_state :: "RecordedInvocation list gateway_state" where
  "sample_gate_state = \<lparr>gs_nonces = nonce_store_new, gs_broker = broker_new, gs_world = []\<rparr>"

lemma sample_gate_hash:
  "request_action_hash (ge_format sample_gate) (ge_sha sample_gate) sample_gate_request = Inr \<lparr>ch_algorithm = Sha256, ch_hex = ''00''\<rparr>"
  by code_simp

lemma sample_gate_authenticates:
  "authenticate_token (ge_crypto sample_gate) (ge_verifier sample_gate) 1 sample_token
     (presented_action sample_gate_request \<lparr>ch_algorithm = Sha256, ch_hex = ''00''\<rparr>) = Inr sample_gate_claims"
  by code_simp

lemma sample_gate_executes:
  obtains res st' where "execute_as sample_gate 1 sample_gate_request (Some sample_token) None sample_gate_state = (Inr res, st')"
    "er_executed res" "length (gs_world st') = 1" "ri_had_credentials (hd (gs_world st')) = False"
proof -
  have n: "cc_nonce sample_gate_claims = ''n1''" "cc_max_uses sample_gate_claims = 1" "cc_constraints sample_gate_claims = []"
    by (simp_all add: sample_gate_claims_def sample_claims_def)
  obtain vc s where v: "verify_and_consume (ge_crypto sample_gate) (ge_verifier sample_gate) 1 sample_token
      (presented_action sample_gate_request \<lparr>ch_algorithm = Sha256, ch_hex = ''00''\<rparr>) (gs_nonces sample_gate_state) = (Inr vc, s)"
    "vc_claims vc = sample_gate_claims"
    using sample_gate_authenticates
    by (auto simp: verify_and_consume_def consume_def nonce_store_new_def n sample_gate_state_def or_else_def Let_def)
  have t: "tool_get (ge_tools sample_gate) (resource_name (ar_action sample_gate_request)) = Some (recording_invoke JNull)"
    by (simp add: sample_gate_def tool_get_def tool_register_def hm_get_def)
  show thesis
    using that v sample_gate_hash t
    by (simp add: execute_as_def execute_verified_def dispatch_def n broker_resolve_def sample_gate_state_def broker_new_def
        invoke_backend_def recording_invoke_def invocation_of_def)
qed

section \<open>Properties\<close>

text \<open>
  C3: no side effect without authority. Whenever a tool changed the world or an execution is reported,
  the request carried a token that authenticates against the hash recomputed from the request itself, the
  claims name its tenant, agent, session and principal and allow it, every constraint of the capability
  holds, the caller is the named agent, one use of the capability was spent, and the change is exactly
  one invocation of the registered tool.
\<close>

theorem execute_only_authorized:
  assumes "execute_as e now r tok caller st = (x, st')"
    and "gs_world st' \<noteq> gs_world st \<or> (\<exists>res. x = Inr res \<and> er_executed res)"
  shows "\<exists>token h c backend credentials. tok = Some token \<and>
     request_action_hash (ge_format e) (ge_sha e) r = Inr h \<and>
     authenticate_token (ge_crypto e) (ge_verifier e) now token (presented_action r h) = Inr c \<and>
     cc_action_hash c = h \<and> cc_tenant_id c = ar_tenant_id r \<and> cc_agent_id c = ar_agent_id r \<and>
     cc_session_id c = ar_session_id r \<and> cc_principal_id c = p_id (ar_principal r) \<and>
     enforce_constraints (ge_marks e) (ge_canon e) (cc_constraints c) r = Inr () \<and>
     (\<forall>i. caller = Some i \<longrightarrow> check_caller_matches_request i r = Inr ()) \<and>
     store_uses (gs_nonces st') = (store_uses (gs_nonces st))(cc_nonce c := store_uses (gs_nonces st) (cc_nonce c) + 1) \<and>
     store_uses (gs_nonces st') (cc_nonce c) \<le> unat (cc_max_uses c) \<and>
     tool_get (ge_tools e) (resource_name (ar_action r)) = Some backend \<and>
     gs_world st' = snd (backend (invocation_of r c credentials) (gs_world st))"
proof -
  note v = execute_as_effect [OF assms]
  obtain token h vc s where 1: "tok = Some token" "request_action_hash (ge_format e) (ge_sha e) r = Inr h"
    "verify_and_consume (ge_crypto e) (ge_verifier e) now token (presented_action r h) (gs_nonces st) = (Inr vc, s)"
    "dispatch e r (vc_claims vc) (st\<lparr>gs_nonces := s\<rparr>) = (x, st')" "gs_nonces st' = s"
    using execute_verified_effect [OF v(1) assms(2)] .
  note a = verify_accepted [OF 1(3)]
  have w: "gs_world st' \<noteq> gs_world (st\<lparr>gs_nonces := s\<rparr>) \<or> (\<exists>res. x = Inr res \<and> er_executed res)"
    using assms(2) by simp
  obtain backend credentials y where d: "enforce_constraints (ge_marks e) (ge_canon e) (cc_constraints (vc_claims vc)) r = Inr ()"
    "tool_get (ge_tools e) (resource_name (ar_action r)) = Some backend"
    "backend (invocation_of r (vc_claims vc) credentials) (gs_world (st\<lparr>gs_nonces := s\<rparr>)) = (y, gs_world st')"
    using dispatch_effect [OF 1(4) w] .
  have "check_binding (vc_claims vc) (presented_action r h) = Inr ()"
    using a(1) by (simp add: authenticate_token_ok)
  then have "cc_action_hash (vc_claims vc) = h" "cc_tenant_id (vc_claims vc) = ar_tenant_id r"
    "cc_agent_id (vc_claims vc) = ar_agent_id r" "cc_session_id (vc_claims vc) = ar_session_id r"
    "cc_principal_id (vc_claims vc) = p_id (ar_principal r)"
    by (simp_all add: check_binding_ok presented_action_def)
  with 1 a d v(2) show ?thesis
    by (intro exI [of _ token] exI [of _ h] exI [of _ "vc_claims vc"] exI [of _ backend] exI [of _ credentials]) simp
qed

theorem execute_only_authorized_witness:
  "\<exists>res st'. \<exists>c :: CapabilityClaims. execute_as sample_gate 1 sample_gate_request (Some sample_token) None sample_gate_state = (Inr res, st') \<and>
     er_executed res \<and> cc_agent_id c = ar_agent_id sample_gate_request \<and>
     store_uses (gs_nonces st') (cc_nonce c) = store_uses (gs_nonces sample_gate_state) (cc_nonce c) + 1"
proof -
  obtain res st' where x: "execute_as sample_gate 1 sample_gate_request (Some sample_token) None sample_gate_state = (Inr res, st')"
    "er_executed res" by (rule sample_gate_executes)
  have eff: "gs_world st' \<noteq> gs_world sample_gate_state \<or>
      (\<exists>r. (Inr res :: gateway_error + ExecutionResult) = Inr r \<and> er_executed r)" using x(2) by blast
  from execute_only_authorized [OF x(1) eff] have "\<exists>c :: CapabilityClaims. cc_agent_id c = ar_agent_id sample_gate_request \<and>
     store_uses (gs_nonces st') = (store_uses (gs_nonces sample_gate_state))
       (cc_nonce c := store_uses (gs_nonces sample_gate_state) (cc_nonce c) + 1)" by fast
  then obtain c :: CapabilityClaims where c: "cc_agent_id c = ar_agent_id sample_gate_request"
    "store_uses (gs_nonces st') = (store_uses (gs_nonces sample_gate_state))
       (cc_nonce c := store_uses (gs_nonces sample_gate_state) (cc_nonce c) + 1)" by blast
  have "store_uses (gs_nonces st') (cc_nonce c) = store_uses (gs_nonces sample_gate_state) (cc_nonce c) + 1"
    unfolding c(2) by simp
  with x c(1) show ?thesis by blast
qed

text \<open>
  A single-use capability works once. After a request was executed under a capability whose nonce
  allows one use, no later request at the same gateway executes under a token with that nonce, whatever
  other requests came in between.
\<close>

theorem single_use_capability:
  assumes "execute_as e now r (Some token) caller st = (Inr res, st1)" and "er_executed res"
    and "request_action_hash (ge_format e) (ge_sha e) r = Inr h"
    and "authenticate_token (ge_crypto e) (ge_verifier e) now token (presented_action r h) = Inr c"
    and "execute_as e now' r' (Some token') caller' (gateway_run e calls st1) = (x, st2)"
    and "request_action_hash (ge_format e) (ge_sha e) r' = Inr h'"
    and "authenticate_token (ge_crypto e) (ge_verifier e) now' token' (presented_action r' h') = Inr c'"
    and "cc_nonce c' = cc_nonce c" and "cc_max_uses c' = 1"
  shows "gs_world st2 = gs_world (gateway_run e calls st1) \<and> (\<forall>res'. x = Inr res' \<longrightarrow> \<not> er_executed res')"
proof (rule ccontr)
  assume "\<not> ?thesis"
  then have eff: "gs_world st2 \<noteq> gs_world (gateway_run e calls st1) \<or> (\<exists>res. x = Inr res \<and> er_executed res)" by blast
  have eff1: "gs_world st1 \<noteq> gs_world st \<or> (\<exists>res'. Inr res = Inr res' \<and> er_executed res')" using assms(2) by blast
  obtain vc s where 1: "verify_and_consume (ge_crypto e) (ge_verifier e) now token (presented_action r h) (gs_nonces st) = (Inr vc, s)"
    "gs_nonces st1 = s"
    using execute_verified_effect [OF execute_as_effect(1) [OF assms(1) eff1] eff1] assms(3) by (metis Inr_inject option.inject)
  obtain vc' s' where 2: "verify_and_consume (ge_crypto e) (ge_verifier e) now' token' (presented_action r' h')
      (gs_nonces (gateway_run e calls st1)) = (Inr vc', s')"
    using execute_verified_effect [OF execute_as_effect(1) [OF assms(5) eff] eff] assms(6) by (metis Inr_inject option.inject)
  have c: "vc_claims vc = c" "vc_claims vc' = c'"
    using verify_accepted(1) [OF 1(1)] verify_accepted(1) [OF 2] assms(4,7) by simp_all
  have "0 < store_uses (gs_nonces st1) (cc_nonce c)" using verify_accepted(3) [OF 1(1)] 1(2) c by simp
  then have "0 < store_uses (gs_nonces (gateway_run e calls st1)) (cc_nonce c)"
    using gateway_run_uses_mono [of st1 "cc_nonce c" e calls] by simp
  with verify_accepted(2) [OF 2] c assms(8,9) show False by simp
qed

theorem single_use_capability_witness:
  "\<exists>res st1 x st2. execute_as sample_gate 1 sample_gate_request (Some sample_token) None sample_gate_state = (Inr res, st1) \<and>
     er_executed res \<and> execute_as sample_gate 1 sample_gate_request (Some sample_token) None st1 = (x, st2) \<and>
     gs_world st2 = gs_world st1"
proof -
  obtain res st1 where x: "execute_as sample_gate 1 sample_gate_request (Some sample_token) None sample_gate_state = (Inr res, st1)"
    "er_executed res" by (rule sample_gate_executes)
  obtain y st2 where y: "execute_as sample_gate 1 sample_gate_request (Some sample_token) None (gateway_run sample_gate [] st1) = (y, st2)"
    by fastforce
  have m: "cc_max_uses sample_gate_claims = 1" by (simp add: sample_gate_claims_def sample_claims_def)
  from single_use_capability [OF x sample_gate_hash sample_gate_authenticates y sample_gate_hash sample_gate_authenticates refl m] x y
  show ?thesis by auto
qed

text \<open>
  A missing credential does not stop an execution. A tool for which no credential is registered is
  invoked without one, and the execution is reported as performed.
\<close>

theorem missing_credential_executes:
  "hm_get (cb_by_tool (gs_broker sample_gate_state)) (resource_name (ar_action sample_gate_request)) = None \<and>
   (\<exists>res st'. execute_as sample_gate 1 sample_gate_request (Some sample_token) None sample_gate_state = (Inr res, st') \<and>
     er_executed res \<and> length (gs_world st') = 1 \<and> \<not> ri_had_credentials (hd (gs_world st')))"
proof
  show "hm_get (cb_by_tool (gs_broker sample_gate_state)) (resource_name (ar_action sample_gate_request)) = None"
    by (simp add: sample_gate_state_def broker_new_def)
  show "\<exists>res st'. execute_as sample_gate 1 sample_gate_request (Some sample_token) None sample_gate_state = (Inr res, st') \<and>
     er_executed res \<and> length (gs_world st') = 1 \<and> \<not> ri_had_credentials (hd (gs_world st'))"
    by (rule sample_gate_executes) blast
qed

end
