(* ===== verification/LocalPolicy.thy ===== *)
theory LocalPolicy
  imports Endpoint
begin

text \<open>
  The policy engine of the local control plane (\<^verbatim>\<open>vigil-local/src/policy.rs\<close>): profiles, capabilities, the
  protected-resource registry, resolution of a named path through the filesystem, the ladder of rules
  for a request and for a structured process, and what the risk and the leases of a session make of
  their answer. The filesystem and the environment variables are a parameter.
\<close>

section \<open>Vocabulary\<close>

datatype LocalProfile = ProfileObserve | DeveloperStandard | DeveloperRestricted | Research | UntrustedAgent

definition profile_all :: "LocalProfile list" where
  "profile_all = [ProfileObserve, DeveloperStandard, DeveloperRestricted, Research, UntrustedAgent]"

fun profile_as_str :: "LocalProfile \<Rightarrow> string" where
  "profile_as_str ProfileObserve = ''observe''"
| "profile_as_str DeveloperStandard = ''developer-standard''"
| "profile_as_str DeveloperRestricted = ''developer-restricted''"
| "profile_as_str Research = ''research''"
| "profile_as_str UntrustedAgent = ''untrusted-agent''"

definition profile_from_str :: "string \<Rightarrow> LocalProfile option" where
  "profile_from_str v = find (\<lambda>p. profile_as_str p = v) profile_all"

datatype LocalAction =
    FsList | FsMetadata | FsRead | FsCreate | FsWrite | FsRename | FsDelete | FsExecute | ProcessExec
  | NetworkConnect | SecretMetadata | SecretUse | SecretExport | SystemPersistence | SystemPrivileged
  | GitStatus | GitRead | GitStage | GitCommit | GitPush | GitForcePush | GitConfig | GitRemoteModify

fun local_action_as_str :: "LocalAction \<Rightarrow> string" where
  "local_action_as_str FsList = ''fs.list''"
| "local_action_as_str FsMetadata = ''fs.metadata''"
| "local_action_as_str FsRead = ''fs.read''"
| "local_action_as_str FsCreate = ''fs.create''"
| "local_action_as_str FsWrite = ''fs.write''"
| "local_action_as_str FsRename = ''fs.rename''"
| "local_action_as_str FsDelete = ''fs.delete''"
| "local_action_as_str FsExecute = ''fs.execute''"
| "local_action_as_str ProcessExec = ''process.exec''"
| "local_action_as_str NetworkConnect = ''network.connect''"
| "local_action_as_str SecretMetadata = ''secret.metadata''"
| "local_action_as_str SecretUse = ''secret.use''"
| "local_action_as_str SecretExport = ''secret.export''"
| "local_action_as_str SystemPersistence = ''system.persistence''"
| "local_action_as_str SystemPrivileged = ''system.privileged''"
| "local_action_as_str GitStatus = ''git.status''"
| "local_action_as_str GitRead = ''git.read''"
| "local_action_as_str GitStage = ''git.stage''"
| "local_action_as_str GitCommit = ''git.commit''"
| "local_action_as_str GitPush = ''git.push''"
| "local_action_as_str GitForcePush = ''git.force_push''"
| "local_action_as_str GitConfig = ''git.config''"
| "local_action_as_str GitRemoteModify = ''git.remote_modify''"

text \<open>The arms of \<^verbatim>\<open>from_str\<close>, in order; a value without an arm is refused.\<close>

definition local_action_arms :: "(string \<times> LocalAction) list" where
  "local_action_arms =
     [(''fs.list'', FsList), (''fs.metadata'', FsMetadata), (''fs.read'', FsRead), (''fs.create'', FsCreate),
      (''fs.write'', FsWrite), (''fs.rename'', FsRename), (''fs.delete'', FsDelete), (''fs.execute'', FsExecute),
      (''process.exec'', ProcessExec), (''network.connect'', NetworkConnect),
      (''secret.metadata'', SecretMetadata), (''secret.use'', SecretUse), (''secret.export'', SecretExport),
      (''system.persistence'', SystemPersistence), (''system.privileged'', SystemPrivileged),
      (''git.status'', GitStatus), (''git.read'', GitRead), (''git.stage'', GitStage), (''git.commit'', GitCommit),
      (''git.push'', GitPush), (''git.force_push'', GitForcePush), (''git.config'', GitConfig),
      (''git.remote_modify'', GitRemoteModify)]"

definition local_action_from_str :: "string \<Rightarrow> LocalAction option" where
  "local_action_from_str v = map_of local_action_arms v"

fun is_git :: "LocalAction \<Rightarrow> bool" where
  "is_git GitStatus = True"
| "is_git GitRead = True"
| "is_git GitStage = True"
| "is_git GitCommit = True"
| "is_git GitPush = True"
| "is_git GitForcePush = True"
| "is_git GitConfig = True"
| "is_git GitRemoteModify = True"
| "is_git _ = False"

definition is_read :: "LocalAction \<Rightarrow> bool" where
  "is_read a = (a \<in> {FsList, FsMetadata, FsRead, GitStatus, GitRead})"

definition is_workspace_mutation :: "LocalAction \<Rightarrow> bool" where
  "is_workspace_mutation a = (a \<in> {FsCreate, FsWrite, FsRename, FsDelete})"

definition is_path_bearing :: "LocalAction \<Rightarrow> bool" where
  "is_path_bearing a =
     (a \<in> {FsList, FsMetadata, FsRead, FsCreate, FsWrite, FsRename, FsDelete, FsExecute, ProcessExec})"

datatype RiskState = RiskNormal | RiskElevated | RiskRestricted | RiskContained | RiskQuarantined

definition risk_all :: "RiskState list" where
  "risk_all = [RiskNormal, RiskElevated, RiskRestricted, RiskContained, RiskQuarantined]"

fun risk_as_str :: "RiskState \<Rightarrow> string" where
  "risk_as_str RiskNormal = ''NORMAL''"
| "risk_as_str RiskElevated = ''ELEVATED''"
| "risk_as_str RiskRestricted = ''RESTRICTED''"
| "risk_as_str RiskContained = ''CONTAINED''"
| "risk_as_str RiskQuarantined = ''QUARANTINED''"

definition risk_from_str :: "string \<Rightarrow> RiskState option" where
  "risk_from_str v = find (\<lambda>r. risk_as_str r = v) risk_all"

definition revokes_leases :: "RiskState \<Rightarrow> bool" where
  "revokes_leases r = (r \<in> {RiskContained, RiskQuarantined})"

text \<open>The derived order of the states is the order of declaration.\<close>

fun risk_level :: "RiskState \<Rightarrow> nat" where
  "risk_level RiskNormal = 0"
| "risk_level RiskElevated = 1"
| "risk_level RiskRestricted = 2"
| "risk_level RiskContained = 3"
| "risk_level RiskQuarantined = 4"

instantiation RiskState :: linorder
begin

definition less_eq_RiskState :: "RiskState \<Rightarrow> RiskState \<Rightarrow> bool" where
  "less_eq_RiskState a b = (risk_level a \<le> risk_level b)"

definition less_RiskState :: "RiskState \<Rightarrow> RiskState \<Rightarrow> bool" where
  "less_RiskState a b = (risk_level a < risk_level b)"

instance
proof
  fix a b :: RiskState
  show "a \<le> b \<Longrightarrow> b \<le> a \<Longrightarrow> a = b"
    by (cases a; cases b) (simp_all add: less_eq_RiskState_def)
qed (auto simp: less_eq_RiskState_def less_RiskState_def)

end

datatype LeaseStatus = LeaseAbsent | LeasePresent

datatype ExecutableClass =
    DataUtility | Shell | Interpreter | NetworkUtility | CredentialUtility | PersistenceUtility
  | PrivilegeUtility | SystemAdministration | UnknownExecutable

datatype LocalOutcome = LocalAllow | LocalDeny | LocalRequireApproval | LocalObserve

fun outcome_restrictiveness :: "LocalOutcome \<Rightarrow> nat" where
  "outcome_restrictiveness LocalObserve = 0"
| "outcome_restrictiveness LocalAllow = 1"
| "outcome_restrictiveness LocalRequireApproval = 2"
| "outcome_restrictiveness LocalDeny = 3"

record LocalDecision =
  ld_outcome :: LocalOutcome
  ld_action :: string
  ld_requested_resource :: string
  ld_resolved_resource :: "string option"
  ld_determining_policy :: string
  ld_reason :: string
  ld_risk_before :: RiskState
  ld_risk_after :: RiskState
  ld_detection :: "string option"

definition local_permits_execution :: "LocalDecision \<Rightarrow> bool" where
  "local_permits_execution d = (ld_outcome d \<in> {LocalAllow, LocalObserve})"

definition local_decision ::
    "LocalOutcome \<Rightarrow> LocalAction \<Rightarrow> string \<Rightarrow> string option \<Rightarrow> string \<Rightarrow> string \<Rightarrow> RiskState \<Rightarrow> LocalDecision" where
  "local_decision outcome a requested resolved policy reason risk =
     \<lparr>ld_outcome = outcome, ld_action = local_action_as_str a, ld_requested_resource = requested,
      ld_resolved_resource = resolved, ld_determining_policy = policy, ld_reason = reason,
      ld_risk_before = RiskNormal, ld_risk_after = risk, ld_detection = None\<rparr>"

definition local_allow :: "LocalAction \<Rightarrow> string \<Rightarrow> string \<Rightarrow> string \<Rightarrow> LocalDecision" where
  "local_allow a requested resolved policy =
     local_decision LocalAllow a requested (Some resolved) policy
       ''resource is inside the declared workspace'' RiskNormal"

definition local_deny ::
    "LocalAction \<Rightarrow> string \<Rightarrow> string option \<Rightarrow> string \<Rightarrow> string \<Rightarrow> string option \<Rightarrow> RiskState \<Rightarrow> LocalDecision" where
  "local_deny a requested resolved policy reason detection risk =
     (local_decision LocalDeny a requested resolved policy reason risk)\<lparr>ld_detection := detection\<rparr>"

section \<open>Paths\<close>

text \<open>
  What the engine asks the operating system: two environment variables, whether something is at a
  path without following a final link, the canonical form of a path, and whether it is a directory.
\<close>

datatype lstat_result = PathExists | PathMissing | PathError string

record local_host =
  ho_home :: "string option"
  ho_ssh_auth_sock :: "string option"
  ho_lstat :: "string \<Rightarrow> lstat_result"
  ho_canonicalize :: "string \<Rightarrow> string + string"
  ho_is_dir :: "string \<Rightarrow> bool"

definition io_error :: "string \<Rightarrow> string" where
  "io_error e = ''io error: '' @ e"

definition invalid_resource :: "string \<Rightarrow> string" where
  "invalid_resource reason = ''invalid value for resource: '' @ reason"

definition policy_config_error :: "string \<Rightarrow> string" where
  "policy_config_error reason = ''configuration error: '' @ reason"

text \<open>\<^verbatim>\<open>PathBuf::push\<close>, and \<^verbatim>\<open>Path::file_name\<close> and \<^verbatim>\<open>Path::parent\<close> through the last component of the text.\<close>

definition path_push :: "string \<Rightarrow> string \<Rightarrow> string" where
  "path_push base p =
     (if path_is_absolute p then p
      else if base = [] \<or> ends_with base ''/'' then base @ p else base @ ''/'' @ p)"

definition trim_pieces :: "string list \<Rightarrow> string list" where
  "trim_pieces ps = rev (dropWhile (\<lambda>w. w = [] \<or> w = ''.'') (rev ps))"

definition split_last :: "string \<Rightarrow> (string \<times> string) option" where
  "split_last p =
     (let pieces = split_on (\<lambda>c. c = CHR ''/'') p; first = hd pieces; body = trim_pieces (tl pieces)
      in if body = [] then if first = [] then None else Some ([], first)
         else let front = trim_pieces (butlast body)
              in Some (if first = [] \<and> front = [] then ''/'' else join_with ''/'' (first # front), List.last body))"

definition path_parent :: "string \<Rightarrow> string option" where
  "path_parent p = map_option fst (split_last p)"

definition path_file_name :: "string \<Rightarrow> string option" where
  "path_file_name p =
     (case split_last p of
        None \<Rightarrow> None
      | Some (_, w) \<Rightarrow> if w = ''..'' \<or> w = ''.'' then None else Some w)"

definition clean_step :: "string \<Rightarrow> PathComponent \<Rightarrow> string" where
  "clean_step result c =
     (case c of
        RootDir \<Rightarrow> path_push result ''/''
      | CurDir \<Rightarrow> result
      | ParentDir \<Rightarrow> (case path_parent result of None \<Rightarrow> result | Some p \<Rightarrow> p)
      | NormalDir w \<Rightarrow> path_push result w)"

definition clean_components :: "string \<Rightarrow> string" where
  "clean_components p = foldl clean_step [] (path_components p)"

definition home_directory :: "local_host \<Rightarrow> string + string" where
  "home_directory h =
     (case ho_home h of
        Some p \<Rightarrow> if path_is_absolute p then Inr p else Inl (policy_config_error ''HOME is not an absolute path'')
      | None \<Rightarrow> Inl (policy_config_error ''HOME is not an absolute path''))"

definition expand_tilde :: "local_host \<Rightarrow> string \<Rightarrow> string + string" where
  "expand_tilde h path =
     (if path = ''~'' \<or> starts_with path ''~/''
      then rbind (home_directory h) (\<lambda>home. Inr (if path = ''~'' then home else path_push home (drop 2 path)))
      else if starts_with path ''~''
           then Inl (invalid_resource ''only `~` and `~/...` home expansion are supported'')
      else Inr path)"

text \<open>The climb to the nearest existing ancestor: the names on the way are the components that do not exist.\<close>

definition pieces_size :: "string list \<Rightarrow> nat" where
  "pieces_size ps = sum_list (map (\<lambda>w. Suc (length w)) ps)"

lemma pieces_size_simps [simp]:
  "pieces_size [] = 0" "pieces_size (w # ws) = Suc (length w) + pieces_size ws"
  "pieces_size (us @ vs) = pieces_size us + pieces_size vs"
  by (simp_all add: pieces_size_def)

lemma pieces_size_split: "pieces_size (split_on p s) = Suc (length s)"
  by (induction s) (auto split: list.splits)

lemma length_join: "ws \<noteq> [] \<Longrightarrow> Suc (length (join_with [c] ws)) = pieces_size ws"
  by (induction ws rule: induct_list012) simp_all

lemma trim_pieces_split: "\<exists>zs. ps = trim_pieces ps @ zs"
  unfolding trim_pieces_def by (metis rev_append rev_rev_ident takeWhile_dropWhile_id)

lemma trim_pieces_last: "trim_pieces ps \<noteq> [] \<Longrightarrow> List.last (trim_pieces ps) \<noteq> []"
  unfolding trim_pieces_def by (metis (mono_tags, lifting) hd_dropWhile last_rev rev_is_Nil_conv)

lemma split_last_shorter:
  assumes "split_last p = Some (parent, w)"
  shows "length parent < length p"
proof -
  let ?pieces = "split_on (\<lambda>c. c = CHR ''/'') p"
  define first where "first = hd ?pieces"
  define body where "body = trim_pieces (tl ?pieces)"
  define front where "front = trim_pieces (butlast body)"
  obtain zs where zs: "tl ?pieces = body @ zs" using trim_pieces_split unfolding body_def by blast
  have "?pieces = first # tl ?pieces" by (simp add: first_def)
  then have size: "Suc (length p) = Suc (length first) + pieces_size body + pieces_size zs"
    using pieces_size_split [of "\<lambda>c. c = CHR ''/''" p] zs by (metis pieces_size_simps(2,3) add.assoc)
  show ?thesis
  proof (cases "body = []")
    case True
    then show ?thesis using assms size
      by (auto simp: split_last_def Let_def first_def [symmetric] body_def [symmetric] split: if_splits)
  next
    case False
    obtain us where "butlast body = front @ us" using trim_pieces_split unfolding front_def by blast
    then have b: "body = front @ us @ [List.last body]" using False by (metis append_assoc append_butlast_last_id)
    have l: "List.last body \<noteq> []" using False trim_pieces_last unfolding body_def by blast
    have "pieces_size body = pieces_size front + pieces_size us + Suc (length (List.last body))"
      by (subst b) simp
    then have "Suc (length first) + pieces_size front < length p"
      using size l by (cases "List.last body") simp_all
    moreover have "parent = (if first = [] \<and> front = [] then ''/'' else join_with ''/'' (first # front))"
      using assms False by (auto simp: split_last_def Let_def first_def body_def front_def)
    moreover have "Suc (length (join_with ''/'' (first # front))) = Suc (length first) + pieces_size front"
      using length_join [of "first # front"] by simp
    ultimately show ?thesis by auto
  qed
qed

function ancestor_loop :: "local_host \<Rightarrow> string \<Rightarrow> string list \<Rightarrow> string + (string \<times> string list)" where
  "ancestor_loop h existing missing =
     (case ho_lstat h existing of
        PathExists \<Rightarrow> Inr (existing, missing)
      | PathError e \<Rightarrow> Inl (io_error e)
      | PathMissing \<Rightarrow>
          (case path_file_name existing of
             None \<Rightarrow> Inl (invalid_resource ''path has no resolvable ancestor'')
           | Some name \<Rightarrow>
               (case path_parent existing of
                  None \<Rightarrow> Inl (invalid_resource ''path has no resolvable ancestor'')
                | Some parent \<Rightarrow> ancestor_loop h parent (missing @ [name]))))"
  by pat_completeness auto
termination
  by (relation "measure (\<lambda>(h, existing, missing). length existing)")
     (auto simp: path_parent_def dest: split_last_shorter)

fun push_missing :: "string \<Rightarrow> string list \<Rightarrow> string + string" where
  "push_missing resolved [] = Inr resolved"
| "push_missing resolved (w # ws) =
     (if w = ''..'' \<or> w = ''.'' then Inl (invalid_resource ''unresolved traversal component'')
      else push_missing (path_push resolved w) ws)"

definition resolve_existing_ancestor :: "local_host \<Rightarrow> string \<Rightarrow> string + string" where
  "resolve_existing_ancestor h path =
     rbind (ancestor_loop h path []) (\<lambda>(existing, missing).
     rbind (case ho_canonicalize h existing of Inl e \<Rightarrow> Inl (io_error e) | Inr p \<Rightarrow> Inr p) (\<lambda>resolved.
     rbind (push_missing resolved (rev missing)) (\<lambda>p. Inr (clean_components p))))"

definition resolve_resource :: "local_host \<Rightarrow> string \<Rightarrow> string \<Rightarrow> string + string" where
  "resolve_resource h resource workspace =
     (if CHR 0x00 \<in> set resource then Inl (invalid_resource ''path contains a null byte'')
      else rbind (expand_tilde h resource) (\<lambda>expanded.
        resolve_existing_ancestor h (if path_is_absolute expanded then expanded else path_push workspace expanded)))"

section \<open>The protected registry\<close>

definition home_relative :: "(string \<times> string) list" where
  "home_relative =
     [(''.ssh'', ''ssh_credentials''), (''.aws'', ''cloud_credentials''), (''.azure'', ''cloud_credentials''),
      (''.config/gcloud'', ''cloud_credentials''), (''.kube'', ''cluster_credentials''),
      (''.docker/run/docker.sock'', ''local_ipc_escalation''),
      (''.orbstack/run/docker.sock'', ''local_ipc_escalation''),
      (''.colima/default/docker.sock'', ''local_ipc_escalation''),
      (''.lima/default/sock/docker.sock'', ''local_ipc_escalation''),
      (''.local/share/containers/podman/machine/podman.sock'', ''local_ipc_escalation''),
      (''.gnupg/S.gpg-agent'', ''local_ipc_escalation''),
      (''Library/Keychains'', ''keychain_storage''), (''Library/LaunchAgents'', ''persistence''),
      (''Library/Application Support/VIGIL'', ''vigil_integrity'')]"

definition system_roots :: "(string \<times> string) list" where
  "system_roots =
     [(''/Library/LaunchAgents'', ''persistence''), (''/Library/LaunchDaemons'', ''persistence''),
      (''/Library/Application Support/VIGIL'', ''vigil_integrity''),
      (''/var/run/docker.sock'', ''local_ipc_escalation''), (''/run/docker.sock'', ''local_ipc_escalation''),
      (''/var/run/containerd'', ''local_ipc_escalation'')]"

definition local_ipc_endpoint :: "local_host \<Rightarrow> string \<Rightarrow> bool" where
  "local_ipc_endpoint h path =
     ((case ho_ssh_auth_sock h of None \<Rightarrow> False | Some agent \<Rightarrow> agent \<noteq> [] \<and> path_starts_with path agent) \<or>
      (case path_file_name path of
         None \<Rightarrow> False | Some name \<Rightarrow> name = ''Listeners'' \<or> ends_with name ''docker.sock''))"

definition protected_category :: "local_host \<Rightarrow> string \<Rightarrow> string option" where
  "protected_category h path =
     (case (case home_directory h of
              Inl _ \<Rightarrow> None
            | Inr home \<Rightarrow> find (\<lambda>(relative, _). path_starts_with path (path_push home relative)) home_relative) of
        Some (_, category) \<Rightarrow> Some category
      | None \<Rightarrow>
          (case find (\<lambda>(root, _). path_starts_with path root) system_roots of
             Some (_, category) \<Rightarrow> Some category
           | None \<Rightarrow> if local_ipc_endpoint h path then Some ''local_ipc_escalation'' else None))"

definition detection_for_category :: "string \<Rightarrow> string" where
  "detection_for_category category =
     (if category = ''persistence'' then ''persistence_attempt''
      else if category = ''vigil_integrity'' then ''security_control_modification''
      else if category = ''local_ipc_escalation'' then ''local_ipc_escalation''
      else ''credential_access'')"

definition normalize_workspace :: "local_host \<Rightarrow> string \<Rightarrow> string + string" where
  "normalize_workspace h path =
     rbind (expand_tilde h path) (\<lambda>expanded.
     rbind (case ho_canonicalize h expanded of
              Inl e \<Rightarrow> Inl (policy_config_error (''workspace `'' @ expanded @ ''` cannot be resolved: '' @ e))
            | Inr p \<Rightarrow> Inr p) (\<lambda>resolved.
     rbind (ensure (ho_is_dir h resolved) (policy_config_error (''workspace `'' @ resolved @ ''` is not a directory''))) (\<lambda>_.
     rbind (ensure (protected_category h resolved = None)
              (policy_config_error (''protected resource `'' @ resolved @ ''` cannot be used as a workspace''))) (\<lambda>_.
       Inr resolved))))"

section \<open>The ladder\<close>

definition deny_protected :: "LocalAction \<Rightarrow> string \<Rightarrow> string \<Rightarrow> string \<Rightarrow> LocalDecision" where
  "deny_protected a requested resolved category =
     local_deny a requested (Some resolved) ''deny-protected-resources''
       (''resource is protected ('' @ category @ '')'') (Some (detection_for_category category)) RiskElevated"

definition DETECTION_GIT_HISTORY_REWRITE :: string where
  "DETECTION_GIT_HISTORY_REWRITE = ''git_history_rewrite''"

definition DETECTION_GIT_CONTROL_SURFACE :: string where
  "DETECTION_GIT_CONTROL_SURFACE = ''git_control_surface_change''"

fun evaluate_git :: "LocalProfile \<Rightarrow> LocalAction \<Rightarrow> string \<Rightarrow> string \<Rightarrow> LocalDecision" where
  "evaluate_git profile GitStatus requested resolved = local_allow GitStatus requested resolved ''permit-local-git-inspection''"
| "evaluate_git profile GitRead requested resolved = local_allow GitRead requested resolved ''permit-local-git-inspection''"
| "evaluate_git profile GitStage requested resolved = local_allow GitStage requested resolved ''permit-local-git-inspection''"
| "evaluate_git profile GitCommit requested resolved =
     (if profile = UntrustedAgent
      then local_decision LocalRequireApproval GitCommit requested (Some resolved) ''approve-untrusted-commit''
             ''this profile requires a scoped approval to record history'' RiskElevated
      else local_allow GitCommit requested resolved ''permit-workspace-commit'')"
| "evaluate_git profile GitPush requested resolved =
     local_decision LocalRequireApproval GitPush requested (Some resolved) ''approve-git-push''
       ''pushing sends workspace content to a remote and requires a scoped approval'' RiskElevated"
| "evaluate_git profile GitForcePush requested resolved =
     local_deny GitForcePush requested (Some resolved) ''deny-git-force-push''
       ''force-pushing discards remote history and is never granted to an agent''
       (Some DETECTION_GIT_HISTORY_REWRITE) RiskElevated"
| "evaluate_git profile GitConfig requested resolved =
     local_deny GitConfig requested (Some resolved) ''deny-git-control-surface''
       ''changing Git configuration or remotes alters what every future command does''
       (Some DETECTION_GIT_CONTROL_SURFACE) RiskElevated"
| "evaluate_git profile GitRemoteModify requested resolved =
     local_deny GitRemoteModify requested (Some resolved) ''deny-git-control-surface''
       ''changing Git configuration or remotes alters what every future command does''
       (Some DETECTION_GIT_CONTROL_SURFACE) RiskElevated"
| "evaluate_git profile a requested resolved =
     local_deny a requested (Some resolved) ''default-deny-git'' ''this Git capability is not granted'' None RiskElevated"

text \<open>What follows once the path, if the capability has one, is resolved and not protected.\<close>

definition evaluate_resolved ::
    "LocalProfile \<Rightarrow> string \<Rightarrow> LocalAction \<Rightarrow> string \<Rightarrow> string option \<Rightarrow> LocalDecision" where
  "evaluate_resolved profile workspace a requested resolved =
     (let text = (case resolved of None \<Rightarrow> requested | Some p \<Rightarrow> p);
          inside = (case resolved of None \<Rightarrow> False | Some p \<Rightarrow> path_starts_with p workspace)
      in if profile = ProfileObserve then
           local_decision LocalObserve a requested (Some text) ''observe-profile''
             ''recorded only; this profile does not enforce'' RiskNormal
         else if is_read a \<and> inside then local_allow a requested text ''permit-workspace-read''
         else if is_workspace_mutation a \<and> inside then
           (if profile = UntrustedAgent \<and> a = FsDelete then
              local_decision LocalRequireApproval a requested (Some text) ''approve-untrusted-delete''
                ''untrusted-agent deletions require a resource-bound approval'' RiskElevated
            else local_allow a requested text ''permit-workspace-mutation'')
         else if a = FsExecute \<and> inside then
           (if profile = DeveloperStandard then
              local_decision LocalRequireApproval a requested (Some text) ''approve-workspace-execution''
                ''executing workspace content requires a scoped approval'' RiskElevated
            else local_deny a requested (Some text) ''deny-workspace-execution''
                   ''this profile does not permit executing workspace content'' None RiskElevated)
         else if is_git a then evaluate_git profile a requested text
         else if a = ProcessExec then
           local_decision LocalRequireApproval a requested (Some text) ''approve-process-exec''
             ''process execution requires executable identity and a scoped approval'' RiskElevated
         else if a = NetworkConnect then
           local_decision LocalRequireApproval a requested (Some text) ''approve-new-destination''
             ''network destinations require an explicit profile allowlist or approval'' RiskElevated
         else if a = SecretMetadata \<or> a = SecretUse then
           local_decision LocalRequireApproval a requested (Some text) ''approve-brokered-secret-use''
             ''secret metadata and use must be brokered and specifically authorized'' RiskElevated
         else local_deny a requested (Some text) ''default-deny-outside-workspace''
                ''resource is outside every declared workspace'' None RiskElevated)"

definition named_path :: "local_host \<Rightarrow> string \<Rightarrow> string \<Rightarrow> string option" where
  "named_path h workspace resource =
     (case expand_tilde h resource of
        Inl _ \<Rightarrow> None
      | Inr named \<Rightarrow> Some (if path_is_absolute named then named else path_push workspace named))"

definition named_category :: "local_host \<Rightarrow> string \<Rightarrow> string \<Rightarrow> (string \<times> string) option" where
  "named_category h workspace resource =
     (case named_path h workspace resource of
        None \<Rightarrow> None
      | Some named \<Rightarrow> map_option (\<lambda>category. (named, category)) (protected_category h (clean_components named)))"

definition evaluate_base :: "local_host \<Rightarrow> LocalProfile \<Rightarrow> string \<Rightarrow> LocalAction \<Rightarrow> string \<Rightarrow> LocalDecision" where
  "evaluate_base h profile workspace a resource =
     (if a \<in> {SecretExport, SystemPersistence, SystemPrivileged} then
        local_deny a resource (Some resource) ''deny-agent-ambient-authority''
          ''protected agents cannot export secrets, establish persistence, or use privilege'' None RiskRestricted
      else if is_path_bearing a then
        (case named_category h workspace resource of
           Some (named, category) \<Rightarrow> deny_protected a resource named category
         | None \<Rightarrow>
             (case resolve_resource h resource workspace of
                Inl err \<Rightarrow> local_deny a resource None ''local-path-invalid'' err None RiskElevated
              | Inr path \<Rightarrow>
                  (case protected_category h path of
                     Some category \<Rightarrow> deny_protected a resource path category
                   | None \<Rightarrow> evaluate_resolved profile workspace a resource (Some path))))
      else evaluate_resolved profile workspace a resource None)"

section \<open>Structured processes\<close>

definition data_utilities :: "string list" where
  "data_utilities = [''/bin/echo'', ''/usr/bin/echo'', ''/bin/true'', ''/usr/bin/true'', ''/bin/false'', ''/usr/bin/false'',
     ''/bin/sleep'', ''/usr/bin/sleep'']"

definition classify_executable :: "string \<Rightarrow> ExecutableClass" where
  "classify_executable executable =
     (if executable \<in> set data_utilities then DataUtility
      else let name = (case path_file_name executable of None \<Rightarrow> [] | Some n \<Rightarrow> n)
           in if name \<in> set [''sh'', ''bash'', ''zsh'', ''fish'', ''dash'', ''csh'', ''tcsh''] then Shell
              else if name \<in> set [''python'', ''python3'', ''node'', ''ruby'', ''perl'', ''swift'', ''java'', ''osascript'']
                   then Interpreter
              else if name \<in> set [''curl'', ''ssh'', ''scp'', ''sftp'', ''nc'', ''ncat'', ''socat''] then NetworkUtility
              else if name = ''security'' then CredentialUtility
              else if name \<in> set [''launchctl'', ''defaults''] then PersistenceUtility
              else if name = ''sudo'' then PrivilegeUtility
              else if name \<in> set [''diskutil'', ''chmod'', ''chown'', ''xattr'', ''codesign'', ''installer'', ''pkgutil'', ''open'']
                   then SystemAdministration
              else UnknownExecutable)"

definition DETECTION_UNEXPECTED_EXECUTABLE :: string where "DETECTION_UNEXPECTED_EXECUTABLE = ''unexpected_executable''"
definition DETECTION_UNEXPECTED_INTERPRETER :: string where "DETECTION_UNEXPECTED_INTERPRETER = ''unexpected_interpreter''"
definition DETECTION_CREDENTIAL_UTILITY :: string where "DETECTION_CREDENTIAL_UTILITY = ''credential_utility_invocation''"
definition DETECTION_PRIVILEGE_ATTEMPT :: string where "DETECTION_PRIVILEGE_ATTEMPT = ''privilege_attempt''"
definition DETECTION_UNMEDIATED_NETWORK_UTILITY :: string where
  "DETECTION_UNMEDIATED_NETWORK_UTILITY = ''unmediated_network_utility''"

fun process_refusal :: "ExecutableClass \<Rightarrow> string \<times> string \<times> string" where
  "process_refusal Shell = (''deny-interpreter-without-approval'',
     ''shells and interpreters require argument-bound approval'', DETECTION_UNEXPECTED_INTERPRETER)"
| "process_refusal Interpreter = (''deny-interpreter-without-approval'',
     ''shells and interpreters require argument-bound approval'', DETECTION_UNEXPECTED_INTERPRETER)"
| "process_refusal NetworkUtility = (''deny-network-utility-without-network-policy'',
     ''network utilities require destination-aware mediation'', DETECTION_UNMEDIATED_NETWORK_UTILITY)"
| "process_refusal CredentialUtility = (''deny-credential-utility'',
     ''credential utilities are not available to semantic sessions'', DETECTION_CREDENTIAL_UTILITY)"
| "process_refusal PersistenceUtility = (''deny-persistence-utility'',
     ''persistence utilities are not available to semantic sessions'', ''persistence_attempt'')"
| "process_refusal PrivilegeUtility = (''deny-privilege-utility'',
     ''privilege utilities are not available to semantic sessions'', DETECTION_PRIVILEGE_ATTEMPT)"
| "process_refusal SystemAdministration = (''approve-unknown-executable'',
     ''the executable is not in the structured low-risk allowlist'', DETECTION_UNEXPECTED_EXECUTABLE)"
| "process_refusal UnknownExecutable = (''approve-unknown-executable'',
     ''the executable is not in the structured low-risk allowlist'', DETECTION_UNEXPECTED_EXECUTABLE)"
| "process_refusal DataUtility = (''deny-process-policy-inconsistency'',
     ''process classification could not be authorized consistently'', DETECTION_UNEXPECTED_EXECUTABLE)"

definition evaluate_process :: "local_host \<Rightarrow> LocalProfile \<Rightarrow> string \<Rightarrow> string \<Rightarrow> string list \<Rightarrow> LocalDecision" where
  "evaluate_process h profile workspace executable argv =
     (case ho_canonicalize h executable of
        Inl _ \<Rightarrow>
          local_deny ProcessExec executable None ''deny-unresolved-executable''
            ''executable identity could not be resolved'' (Some DETECTION_UNEXPECTED_EXECUTABLE) RiskElevated
      | Inr resolved \<Rightarrow>
          if profile = ProfileObserve then
            local_decision LocalObserve ProcessExec executable (Some resolved) ''observe-profile''
              ''recorded only; this profile does not enforce process policy'' RiskNormal
          else if path_starts_with resolved workspace then
            local_decision LocalRequireApproval ProcessExec executable (Some resolved) ''approve-workspace-executable''
              ''workspace executables require a hash-bound human approval'' RiskElevated
          else if classify_executable resolved \<noteq> DataUtility then
            (let (policy, reason, detection) = process_refusal (classify_executable resolved)
             in (local_decision (if classify_executable resolved = UnknownExecutable then LocalRequireApproval else LocalDeny)
                   ProcessExec executable (Some resolved) policy reason RiskElevated)\<lparr>ld_detection := Some detection\<rparr>)
          else if list_ex (\<lambda>argument. CHR 0x00 \<in> set argument) argv then
            local_deny ProcessExec executable (Some resolved) ''deny-invalid-process-argument''
              ''process arguments contain a null byte'' None RiskElevated
          else local_decision LocalAllow ProcessExec executable (Some resolved) ''permit-structured-data-utility''
                 ''canonical side-effect-free utility permitted with structured arguments'' RiskNormal)"

section \<open>The state of the session\<close>

definition degrade_for_risk :: "LocalAction \<Rightarrow> LocalOutcome \<Rightarrow> RiskState \<Rightarrow> LocalOutcome" where
  "degrade_for_risk a outcome risk =
     (if outcome = LocalObserve then outcome
      else let floor = (case risk of
                 RiskNormal \<Rightarrow> outcome
               | RiskElevated \<Rightarrow>
                   if is_workspace_mutation a then LocalRequireApproval
                   else if a = SecretUse \<or> a = SecretMetadata then LocalDeny else outcome
               | RiskRestricted \<Rightarrow> if is_read a then outcome else LocalDeny
               | RiskContained \<Rightarrow> if is_read a then outcome else LocalDeny
               | RiskQuarantined \<Rightarrow> LocalDeny)
           in if outcome_restrictiveness outcome < outcome_restrictiveness floor then floor else outcome)"

definition lease_upgrade :: "LeaseStatus \<Rightarrow> LocalDecision \<Rightarrow> LocalDecision" where
  "lease_upgrade lease d =
     (if lease = LeasePresent \<and> ld_outcome d = LocalRequireApproval
      then d\<lparr>ld_outcome := LocalAllow, ld_determining_policy := ''permit-approved-capability-lease'',
             ld_reason := ''a valid capability lease covers this exact action and resolved resource''\<rparr>
      else d)"

definition apply_session_state :: "LocalDecision \<Rightarrow> LocalAction \<Rightarrow> RiskState \<Rightarrow> LeaseStatus \<Rightarrow> LocalDecision" where
  "apply_session_state d0 a risk lease =
     (let d1 = lease_upgrade lease d0;
          degraded = degrade_for_risk a (ld_outcome d1) risk;
          d2 = (if degraded \<noteq> ld_outcome d1
                then d1\<lparr>ld_outcome := degraded, ld_determining_policy := ''risk-degradation-'' @ risk_as_str risk,
                        ld_reason := ''session risk is '' @ risk_as_str risk @
                          ''; this capability is withheld until the session ends''\<rparr>
                else d1)
      in d2\<lparr>ld_risk_before := risk, ld_risk_after := max (ld_risk_after d2) risk\<rparr>)"

record LocalRequest =
  lr_profile :: LocalProfile
  lr_workspace :: string
  lr_action :: LocalAction
  lr_resource :: string
  lr_risk :: RiskState
  lr_lease :: LeaseStatus

definition evaluate_in_context :: "local_host \<Rightarrow> LocalRequest \<Rightarrow> LocalDecision" where
  "evaluate_in_context h r =
     apply_session_state (evaluate_base h (lr_profile r) (lr_workspace r) (lr_action r) (lr_resource r))
       (lr_action r) (lr_risk r) (lr_lease r)"

definition local_evaluate :: "local_host \<Rightarrow> LocalProfile \<Rightarrow> string \<Rightarrow> LocalAction \<Rightarrow> string \<Rightarrow> LocalDecision" where
  "local_evaluate h profile workspace a resource =
     evaluate_in_context h \<lparr>lr_profile = profile, lr_workspace = workspace, lr_action = a, lr_resource = resource,
       lr_risk = RiskNormal, lr_lease = LeaseAbsent\<rparr>"

definition evaluate_process_in_context ::
    "local_host \<Rightarrow> LocalProfile \<Rightarrow> string \<Rightarrow> string \<Rightarrow> string list \<Rightarrow> RiskState \<Rightarrow> LeaseStatus \<Rightarrow> LocalDecision" where
  "evaluate_process_in_context h profile workspace executable argv risk lease =
     apply_session_state (evaluate_process h profile workspace executable argv) ProcessExec risk lease"


declare ancestor_loop.simps [simp del]

section \<open>The meaning of a decision\<close>

text \<open>A path-bearing request that names no protected resource and resolves to an unprotected path.\<close>

definition unprotected_path :: "local_host \<Rightarrow> string \<Rightarrow> string \<Rightarrow> string \<Rightarrow> bool" where
  "unprotected_path h workspace resource path \<longleftrightarrow>
     named_category h workspace resource = None \<and> resolve_resource h resource workspace = Inr path \<and>
     protected_category h path = None"

text \<open>What a profile grants by itself, and what it grants behind a lease.\<close>

definition profile_grants :: "local_host \<Rightarrow> LocalProfile \<Rightarrow> string \<Rightarrow> LocalAction \<Rightarrow> string \<Rightarrow> bool" where
  "profile_grants h profile workspace a resource \<longleftrightarrow>
     (\<exists>path. unprotected_path h workspace resource path \<and> path_starts_with path workspace \<and>
        (a \<in> {FsList, FsMetadata, FsRead, FsCreate, FsWrite, FsRename} \<or> a = FsDelete \<and> profile \<noteq> UntrustedAgent)) \<or>
     a \<in> {GitStatus, GitRead, GitStage} \<or> a = GitCommit \<and> profile \<noteq> UntrustedAgent"

definition profile_asks :: "local_host \<Rightarrow> LocalProfile \<Rightarrow> string \<Rightarrow> LocalAction \<Rightarrow> string \<Rightarrow> bool" where
  "profile_asks h profile workspace a resource \<longleftrightarrow>
     (\<exists>path. unprotected_path h workspace resource path \<and>
        (path_starts_with path workspace \<and>
           (a = FsDelete \<and> profile = UntrustedAgent \<or> a = FsExecute \<and> profile = DeveloperStandard) \<or>
         a = ProcessExec)) \<or>
     a = GitCommit \<and> profile = UntrustedAgent \<or> a \<in> {GitPush, NetworkConnect, SecretMetadata, SecretUse}"

text \<open>What a session of some risk may still do.\<close>

definition risk_admits :: "RiskState \<Rightarrow> LocalAction \<Rightarrow> bool" where
  "risk_admits risk a \<longleftrightarrow>
     (case risk of
        RiskNormal \<Rightarrow> True
      | RiskElevated \<Rightarrow> \<not> is_workspace_mutation a \<and> a \<noteq> SecretUse \<and> a \<noteq> SecretMetadata
      | RiskRestricted \<Rightarrow> is_read a
      | RiskContained \<Rightarrow> is_read a
      | RiskQuarantined \<Rightarrow> False)"

lemma decision_sel [simp]:
  "ld_outcome (local_decision oc a q v p t k) = oc" "ld_detection (local_decision oc a q v p t k) = None"
  "ld_outcome (local_allow a q x p) = LocalAllow"
  "ld_outcome (local_deny a q v p t d k) = LocalDeny" "ld_detection (local_deny a q v p t d k) = d"
  "ld_outcome (deny_protected a q x c) = LocalDeny" "ld_detection (deny_protected a q x c) = Some (detection_for_category c)"
  "ld_risk_after (deny_protected a q x c) = RiskElevated"
  by (simp_all add: local_decision_def local_allow_def local_deny_def deny_protected_def)

lemma resolved_outcome:
  assumes "profile \<noteq> ProfileObserve"
  shows "ld_outcome (evaluate_resolved profile workspace a q v) =
    (let inside = (case v of None \<Rightarrow> False | Some p \<Rightarrow> path_starts_with p workspace)
     in case a of
          FsList \<Rightarrow> if inside then LocalAllow else LocalDeny
        | FsMetadata \<Rightarrow> if inside then LocalAllow else LocalDeny
        | FsRead \<Rightarrow> if inside then LocalAllow else LocalDeny
        | FsCreate \<Rightarrow> if inside then LocalAllow else LocalDeny
        | FsWrite \<Rightarrow> if inside then LocalAllow else LocalDeny
        | FsRename \<Rightarrow> if inside then LocalAllow else LocalDeny
        | FsDelete \<Rightarrow> if \<not> inside then LocalDeny else if profile = UntrustedAgent then LocalRequireApproval else LocalAllow
        | FsExecute \<Rightarrow> if inside \<and> profile = DeveloperStandard then LocalRequireApproval else LocalDeny
        | ProcessExec \<Rightarrow> LocalRequireApproval
        | NetworkConnect \<Rightarrow> LocalRequireApproval
        | SecretMetadata \<Rightarrow> LocalRequireApproval
        | SecretUse \<Rightarrow> LocalRequireApproval
        | GitStatus \<Rightarrow> LocalAllow
        | GitRead \<Rightarrow> LocalAllow
        | GitStage \<Rightarrow> LocalAllow
        | GitCommit \<Rightarrow> if profile = UntrustedAgent then LocalRequireApproval else LocalAllow
        | GitPush \<Rightarrow> LocalRequireApproval
        | _ \<Rightarrow> LocalDeny)"
  using assms
  by (cases a) (simp_all add: evaluate_resolved_def Let_def is_read_def is_workspace_mutation_def split: option.splits)

lemma base_cases:
  assumes "profile \<noteq> ProfileObserve"
  shows "ld_outcome (evaluate_base h profile workspace a resource) =
    (if profile_grants h profile workspace a resource then LocalAllow
     else if profile_asks h profile workspace a resource then LocalRequireApproval else LocalDeny)"
proof (cases "is_path_bearing a")
  case True
  show ?thesis
  proof (cases "\<exists>path. unprotected_path h workspace resource path")
    case unprotected: True
    then obtain path where p: "unprotected_path h workspace resource path" by blast
    then have uniq: "unprotected_path h workspace resource q \<longleftrightarrow> q = path" for q
      by (auto simp: unprotected_path_def)
    have "evaluate_base h profile workspace a resource = evaluate_resolved profile workspace a resource (Some path)"
      using p True by (auto simp: unprotected_path_def evaluate_base_def is_path_bearing_def)
    then show ?thesis
      using True assms
      by (cases a) (simp_all add: resolved_outcome profile_grants_def profile_asks_def uniq is_path_bearing_def)
  next
    case False
    then have "ld_outcome (evaluate_base h profile workspace a resource) = LocalDeny"
      using True by (auto simp: unprotected_path_def evaluate_base_def is_path_bearing_def split: option.splits sum.splits prod.splits)
    then show ?thesis
      using False True by (auto simp: profile_grants_def profile_asks_def is_path_bearing_def)
  qed
next
  case False
  then show ?thesis
    using assms
    by (cases a) (simp_all add: evaluate_base_def resolved_outcome profile_grants_def profile_asks_def is_path_bearing_def)
qed

lemma base_observe:
  "ld_outcome (evaluate_base h ProfileObserve workspace a resource) \<in> {LocalObserve, LocalDeny}"
  by (auto simp: evaluate_base_def evaluate_resolved_def Let_def split: option.splits sum.splits prod.splits)

section \<open>Session state\<close>

lemma applied_outcome:
  "ld_outcome (apply_session_state d a risk lease) = degrade_for_risk a (ld_outcome (lease_upgrade lease d)) risk"
  by (simp add: apply_session_state_def Let_def)

lemma upgrade_outcome:
  "ld_outcome (lease_upgrade lease d) =
     (if lease = LeasePresent \<and> ld_outcome d = LocalRequireApproval then LocalAllow else ld_outcome d)"
  by (simp add: lease_upgrade_def)

lemma degrade_allow: "degrade_for_risk a oc risk = LocalAllow \<longleftrightarrow> oc = LocalAllow \<and> risk_admits risk a"
  by (cases oc; cases risk) (auto simp: degrade_for_risk_def Let_def risk_admits_def)

lemma degrade_restricts: "outcome_restrictiveness oc \<le> outcome_restrictiveness (degrade_for_risk a oc risk)"
  by (simp add: degrade_for_risk_def Let_def)

lemma degrade_deny [simp]: "degrade_for_risk a LocalDeny risk = LocalDeny"
  by (cases risk) (simp_all add: degrade_for_risk_def Let_def)

lemma degrade_monotone:
  "risk \<le> risk' \<Longrightarrow>
     outcome_restrictiveness (degrade_for_risk a oc risk) \<le> outcome_restrictiveness (degrade_for_risk a oc risk')"
  by (cases risk; cases risk'; cases oc)
     (auto simp: degrade_for_risk_def Let_def less_eq_RiskState_def is_read_def is_workspace_mutation_def split: if_splits)

section \<open>Cleaned paths\<close>

text \<open>A cleaned path is the text of a stack of names; the reference is the stack machine over the components.\<close>

definition clean_name :: "string \<Rightarrow> bool" where
  "clean_name w \<longleftrightarrow> w \<noteq> [] \<and> w \<noteq> ''.'' \<and> w \<noteq> ''..'' \<and> CHR ''/'' \<notin> set w"

definition render_path :: "bool \<Rightarrow> string list \<Rightarrow> string" where
  "render_path b ws = (if b then ''/'' else []) @ join_with ''/'' ws"

fun climb :: "string list \<Rightarrow> PathComponent \<Rightarrow> string list" where
  "climb ws RootDir = []"
| "climb ws CurDir = ws"
| "climb ws ParentDir = butlast ws"
| "climb ws (NormalDir w) = ws @ [w]"

lemma split_clean:
  assumes "list_all clean_name ws" "ws \<noteq> []"
  shows "split_on (\<lambda>c. c = CHR ''/'') (join_with ''/'' ws) = ws"
  by (rule split_on_join) (use assms in \<open>auto simp: list_all_iff clean_name_def\<close>)

lemma split_render:
  assumes "list_all clean_name ws"
  shows "split_on (\<lambda>c. c = CHR ''/'') (render_path b ws) = (if b then [[]] else []) @ (if ws = [] then [[]] else ws)"
  using split_clean [OF assms] by (simp add: render_path_def)

lemma trim_clean: "list_all clean_name ws \<Longrightarrow> trim_pieces ws = ws"
  by (cases ws rule: rev_cases) (auto simp: trim_pieces_def clean_name_def)

lemma trim_empty [simp]: "trim_pieces [] = []" "trim_pieces [[]] = []"
  by (simp_all add: trim_pieces_def)

lemma clean_name_relative: "clean_name w \<Longrightarrow> \<not> path_is_absolute (w @ x)"
  by (cases w) (auto simp: path_is_absolute_def starts_with_def clean_name_def)

lemma render_absolute: "list_all clean_name ws \<Longrightarrow> path_is_absolute (render_path b ws) \<longleftrightarrow> b"
proof (cases b)
  case False
  assume "list_all clean_name ws"
  then show ?thesis
    using False clean_name_relative clean_name_relative [of _ "[]"]
    by (cases ws rule: remdups_adj.cases) (auto simp: render_path_def path_is_absolute_def starts_with_def)
qed (simp add: render_path_def path_is_absolute_def starts_with_def)

lemma list_all_butlast: "list_all P ws \<Longrightarrow> list_all P (butlast ws)"
  by (auto simp: list_all_iff dest: in_set_butlastD)

lemma parent_render:
  assumes "list_all clean_name ws"
  shows "path_parent (render_path b ws) = (if ws = [] then None else Some (render_path b (butlast ws)))"
proof (cases b)
  case True
  then show ?thesis
    using trim_clean [OF assms] trim_clean [OF list_all_butlast [OF assms]] split_render [OF assms, of True]
    by (auto simp: path_parent_def split_last_def Let_def render_path_def join_with_Cons)
next
  case False
  show ?thesis
  proof (cases ws)
    case Nil
    then show ?thesis using False by (simp add: path_parent_def split_last_def render_path_def)
  next
    case (Cons w vs)
    then have v: "list_all clean_name vs" "w \<noteq> []" using assms by (auto simp: clean_name_def)
    show ?thesis
      using False Cons trim_clean [OF v(1)] trim_clean [OF list_all_butlast [OF v(1)]] split_render [OF assms, of False] v(2)
      by (auto simp: path_parent_def split_last_def Let_def render_path_def)
  qed
qed

lemma push_render:
  assumes "list_all clean_name ws" "clean_name w"
  shows "path_push (render_path b ws) w = render_path b (ws @ [w])"
proof -
  have na: "\<not> path_is_absolute w"
    using clean_name_relative [OF assms(2), of "[]"] by simp
  show ?thesis
  proof (cases ws rule: rev_cases)
    case Nil
    then show ?thesis using na by (cases b) (simp_all add: path_push_def render_path_def ends_with_def)
  next
    case (snoc us u)
    have "\<not> ends_with (render_path b ws) ''/''"
    proof
      assume "ends_with (render_path b ws) ''/''"
      moreover have "render_path b ws = render_path b (us @ [[]]) @ u"
        unfolding snoc render_path_def by (induction us) (auto simp: join_with_Cons)
      moreover have "u \<noteq> []" "CHR ''/'' \<notin> set u" using assms(1) snoc by (auto simp: clean_name_def)
      ultimately show False
        by (cases u rule: rev_cases) (auto simp: ends_with_def suffix_def)
    qed
    moreover have "render_path b ws \<noteq> []" using snoc assms(1) by (cases us) (auto simp: render_path_def clean_name_def join_with_Cons)
    moreover have "render_path b (ws @ [w]) = render_path b ws @ ''/'' @ w"
      unfolding snoc render_path_def by (induction us) (auto simp: join_with_Cons)
    ultimately show ?thesis using na by (simp add: path_push_def)
  qed
qed

lemma components_clean:
  "NormalDir w \<in> set (path_components p) \<Longrightarrow> clean_name w"
  using split_on_pieces by (fastforce simp: path_components_def slash_pieces_def clean_name_def split: if_splits)

lemma clean_fold:
  assumes "list_all clean_name ws" "\<And>w. NormalDir w \<in> set cs \<Longrightarrow> clean_name w" "RootDir \<notin> set cs"
  shows "foldl clean_step (render_path b ws) cs = render_path b (foldl climb ws cs) \<and> list_all clean_name (foldl climb ws cs)"
  using assms
proof (induction cs arbitrary: ws)
  case (Cons c cs)
  show ?case
  proof (cases c)
    case ParentDir
    have "clean_step (render_path b ws) c = render_path b (butlast ws)"
      using parent_render [OF Cons.prems(1)] ParentDir by (auto simp: clean_step_def)
    then show ?thesis
      using Cons.IH [of "butlast ws"] Cons.prems list_all_butlast [of clean_name ws] ParentDir by simp
  next
    case (NormalDir w)
    then have "clean_step (render_path b ws) c = render_path b (ws @ [w])"
      using push_render Cons.prems by (simp add: clean_step_def)
    then show ?thesis using Cons.IH [of "ws @ [w]"] Cons.prems NormalDir by simp
  qed (use Cons in \<open>simp_all add: clean_step_def\<close>)
qed simp

lemma clean_components_reference:
  "clean_components p = render_path (path_is_absolute p) (foldl climb [] (path_components p)) \<and>
     list_all clean_name (foldl climb [] (path_components p))"
proof -
  define cs where "cs = (if path_is_absolute p then tl (path_components p) else path_components p)"
  have c: "path_components p = (if path_is_absolute p then [RootDir] else []) @ cs"
    by (simp add: cs_def path_components_def)
  have r: "RootDir \<notin> set cs" by (auto simp: cs_def path_components_def)
  have n: "clean_name w" if "NormalDir w \<in> set cs" for w
    using components_clean [of w p] that by (auto simp: c)
  have s: "foldl clean_step [] (path_components p) = foldl clean_step (render_path (path_is_absolute p) []) cs"
    by (simp add: c clean_step_def path_push_def render_path_def path_is_absolute_def starts_with_def)
  show ?thesis
    using clean_fold [of "[]" cs "path_is_absolute p"] r n by (simp add: clean_components_def s) (simp add: c)
qed

lemma render_components:
  assumes "list_all clean_name ws"
  shows "path_components (render_path b ws) = (if b then [RootDir] else []) @ map NormalDir ws"
proof -
  have "slash_pieces (render_path b ws) = ws"
    using split_render [OF assms, of b] assms
    by (auto simp: slash_pieces_def list_all_iff clean_name_def intro!: filter_True)
  moreover have "hd (split_on (\<lambda>c. c = CHR ''/'') (render_path False ws)) \<noteq> ''.''"
    using split_render [OF assms, of False] assms by (cases ws) (auto simp: clean_name_def)
  moreover have "map (\<lambda>w. if w = ''..'' then ParentDir else NormalDir w) ws = map NormalDir ws"
    using assms by (auto simp: list_all_iff clean_name_def)
  ultimately show ?thesis
    by (cases b) (simp_all add: path_components_def render_absolute [OF assms])
qed

lemma resolved_components:
  assumes "resolve_resource h resource workspace = Inr path"
  shows "\<exists>b names. path_components path = (if b then [RootDir] else []) @ map NormalDir names"
proof -
  obtain p where "path = clean_components p"
    using assms by (auto simp: resolve_resource_def resolve_existing_ancestor_def rbind_eq_Inr split: if_splits)
  then show ?thesis using clean_components_reference [of p] render_components by metis
qed

lemma resolved_inside:
  assumes "resolve_resource h resource workspace = Inr path" "path_starts_with path workspace" "path_is_absolute workspace"
  shows "\<exists>names. path_components path = path_components workspace @ map NormalDir names"
proof -
  obtain b names where c: "path_components path = (if b then [RootDir] else []) @ map NormalDir names"
    using resolved_components [OF assms(1)] by blast
  obtain cs where w: "path_components workspace = RootDir # cs" using assms(3) by (simp add: path_components_def)
  obtain zs where z: "path_components path = path_components workspace @ zs"
    using assms(2) by (auto simp: path_starts_with_def prefix_def)
  have b: "b" using c z w by (cases b; cases names) auto
  then have "map NormalDir names = cs @ zs" using c z w by simp
  then obtain us where "zs = map NormalDir us" by (auto simp: map_eq_append_conv)
  then show ?thesis using z by blast
qed

text \<open>Where a resolved path comes from.\<close>

lemma ancestor_loop_found:
  assumes "ancestor_loop h path missing = Inr (existing, missing')"
  shows "ho_lstat h existing = PathExists \<and>
    (ho_lstat h path = PathExists \<and> existing = path \<and> missing' = missing \<or>
     ho_lstat h path = PathMissing \<and> length missing < length missing')"
  using assms
proof (induction h path missing rule: ancestor_loop.induct)
  case (1 h path missing)
  show ?case
  proof (cases "ho_lstat h path")
    case PathMissing
    then obtain name parent where "path_file_name path = Some name" "path_parent path = Some parent"
      "ancestor_loop h parent (missing @ [name]) = Inr (existing, missing')"
      using "1.prems" by (auto simp: ancestor_loop.simps [of h path] split: option.splits)
    with "1.IH" [OF PathMissing this(1,2)] PathMissing show ?thesis by auto
  qed (use "1.prems" in \<open>simp_all add: ancestor_loop.simps [of h path]\<close>)
qed

lemma resolved_origin:
  assumes "resolve_resource h resource workspace = Inr path"
  shows "\<exists>expanded. expand_tilde h resource = Inr expanded \<and>
     (let full = (if path_is_absolute expanded then expanded else path_push workspace expanded)
      in (\<exists>canon. ho_lstat h full = PathExists \<and> ho_canonicalize h full = Inr canon \<and> path = clean_components canon) \<or>
         (\<exists>existing missing canon p. ho_lstat h full = PathMissing \<and> missing \<noteq> [] \<and>
            ancestor_loop h full [] = Inr (existing, missing) \<and> ho_lstat h existing = PathExists \<and>
            ho_canonicalize h existing = Inr canon \<and> push_missing canon (rev missing) = Inr p \<and> path = clean_components p))"
proof -
  obtain expanded where x: "expand_tilde h resource = Inr expanded"
    "resolve_existing_ancestor h (if path_is_absolute expanded then expanded else path_push workspace expanded) = Inr path"
    using assms by (auto simp: resolve_resource_def rbind_eq_Inr split: if_splits)
  define full where "full = (if path_is_absolute expanded then expanded else path_push workspace expanded)"
  note x2 = x(2) [folded full_def, unfolded resolve_existing_ancestor_def]
  obtain existing missing where e: "ancestor_loop h full [] = Inr (existing, missing)"
    using x2 by (cases "ancestor_loop h full []") (auto simp: rbind_eq_Inr)
  obtain canon p where "ho_canonicalize h existing = Inr canon" "push_missing canon (rev missing) = Inr p" "path = clean_components p"
    using x2 e by (cases "ho_canonicalize h existing") (auto simp: rbind_eq_Inr)
  with e ancestor_loop_found [OF e] have
    "(\<exists>canon. ho_lstat h full = PathExists \<and> ho_canonicalize h full = Inr canon \<and> path = clean_components canon) \<or>
     (\<exists>existing missing canon p. ho_lstat h full = PathMissing \<and> missing \<noteq> [] \<and>
        ancestor_loop h full [] = Inr (existing, missing) \<and> ho_lstat h existing = PathExists \<and>
        ho_canonicalize h existing = Inr canon \<and> push_missing canon (rev missing) = Inr p \<and> path = clean_components p)"
    by auto
  with x(1) show ?thesis unfolding Let_def full_def by blast
qed

section \<open>Dangling links\<close>

lemma trailing_separator:
  assumes "list_all clean_name ws" "ws \<noteq> []"
  shows "split_on (\<lambda>c. c = CHR ''/'') (render_path b ws @ ''/'') = split_on (\<lambda>c. c = CHR ''/'') (render_path b ws) @ [[]]"
  using split_on_append_sep [of "\<lambda>c. c = CHR ''/''" "CHR ''/''" "render_path b ws" "[]"] by simp

lemma render_nonempty: "list_all clean_name ws \<Longrightarrow> ws \<noteq> [] \<Longrightarrow> render_path b ws \<noteq> []"
  by (cases ws rule: remdups_adj.cases) (auto simp: render_path_def clean_name_def)

lemma trailing_separator_components:
  assumes "list_all clean_name ws" "ws \<noteq> []"
  shows "path_components (render_path b ws @ ''/'') = path_components (render_path b ws)"
proof -
  have "path_is_absolute (render_path b ws @ ''/'') = path_is_absolute (render_path b ws)"
    using render_nonempty [OF assms, of b] by (cases "render_path b ws") (simp_all add: path_is_absolute_def starts_with_def)
  then show ?thesis
    using trailing_separator [OF assms, of b] by (simp add: path_components_def slash_pieces_def)
qed

lemma trailing_separator_last:
  assumes "list_all clean_name ws" "ws \<noteq> []"
  shows "split_last (render_path True ws @ ''/'') = Some (render_path True (butlast ws), List.last ws)"
proof -
  have "trim_pieces (ws @ [[]]) = ws" using trim_clean [OF assms(1)] by (simp add: trim_pieces_def)
  then show ?thesis
    using trailing_separator [OF assms, of True] split_render [OF assms(1), of True] assms(2)
      trim_clean [OF list_all_butlast [OF assms(1)]]
    by (auto simp: split_last_def Let_def render_path_def join_with_Cons)
qed

lemma clean_render: "list_all clean_name ws \<Longrightarrow> clean_components (render_path b ws) = render_path b ws"
proof -
  assume ws: "list_all clean_name ws"
  have "foldl climb [] (map NormalDir vs) = vs" for vs by (induction vs rule: rev_induct) simp_all
  then show ?thesis
    using clean_components_reference [of "render_path b ws"] render_components [OF ws, of b] render_absolute [OF ws, of b]
    by (cases b) simp_all
qed

text \<open>A workspace whose text is clean, and a name in it whose path is not protected.\<close>

definition plain_entry :: "local_host \<Rightarrow> string list \<Rightarrow> string \<Rightarrow> bool" where
  "plain_entry h ds name \<longleftrightarrow> list_all clean_name ds \<and> clean_name name \<and> \<not> starts_with name ''~'' \<and>
     protected_category h (render_path True (ds @ [name])) = None"

lemma entry_named:
  assumes "plain_entry h ds name" "suffix_text = [] \<or> suffix_text = ''/''"
  shows "expand_tilde h (name @ suffix_text) = Inr (name @ suffix_text)"
    and "path_push (render_path True ds) (name @ suffix_text) = render_path True (ds @ [name]) @ suffix_text"
    and "named_category h (render_path True ds) (name @ suffix_text) = None"
proof -
  have c: "list_all clean_name ds" "clean_name name" "\<not> starts_with name ''~''"
    and e: "list_all clean_name (ds @ [name])" "ds @ [name] \<noteq> []"
    using assms(1) by (simp_all add: plain_entry_def)
  have n: "name \<noteq> []" "hd name \<noteq> CHR ''~''" using c by (auto simp: clean_name_def starts_with_def) (cases name; simp)
  then have s: "\<not> starts_with (name @ suffix_text) ''~''" "\<not> starts_with (name @ suffix_text) ''~/''" "name @ suffix_text \<noteq> ''~''"
    by (auto simp: starts_with_def) (cases name; simp)+
  then show 1: "expand_tilde h (name @ suffix_text) = Inr (name @ suffix_text)" by (simp add: expand_tilde_def)
  have r: "\<not> path_is_absolute (name @ suffix_text)" by (rule clean_name_relative [OF c(2)])
  have "path_push (render_path True ds) name = render_path True (ds @ [name])" by (rule push_render [OF c(1,2)])
  then show 2: "path_push (render_path True ds) (name @ suffix_text) = render_path True (ds @ [name]) @ suffix_text"
    using r clean_name_relative [OF c(2), of "[]"] by (auto simp: path_push_def split: if_splits)
  have "clean_components (render_path True (ds @ [name]) @ suffix_text) = render_path True (ds @ [name])"
    using clean_render [OF e(1), of True] trailing_separator_components [OF e, of True] assms(2)
    by (auto simp: clean_components_def)
  then show "named_category h (render_path True ds) (name @ suffix_text) = None"
    using assms(1) r 1 2 by (simp add: named_category_def named_path_def plain_entry_def)
qed

section \<open>Samples\<close>

definition sample_host :: local_host where
  "sample_host = \<lparr>ho_home = Some ''/h'', ho_ssh_auth_sock = None,
     ho_lstat = (\<lambda>p. if p = ''/w'' \<or> p = ''/w/a'' then PathExists else PathMissing),
     ho_canonicalize = (\<lambda>p. if p = ''/w/a'' then Inl ''No such file or directory'' else Inr p), ho_is_dir = (\<lambda>_. True)\<rparr>"

definition sample_local_request :: LocalRequest where
  "sample_local_request = \<lparr>lr_profile = DeveloperStandard, lr_workspace = ''/w'', lr_action = FsWrite, lr_resource = ''b'',
     lr_risk = RiskNormal, lr_lease = LeaseAbsent\<rparr>"

lemma sample_local_decision:
  "ld_outcome (evaluate_in_context sample_host sample_local_request) = LocalAllow"
  "named_category sample_host ''/w'' ''.ssh'' = None" "named_category sample_host ''/w'' ''/h/.ssh/k'' = Some (''/h/.ssh/k'', ''ssh_credentials'')"
  by code_simp+

section \<open>Properties\<close>

text \<open>
  C33: what a session may do. A request is allowed exactly if the profile enforces, the risk of the session
  admits the action, and either the profile grants it by itself (file access inside the workspace on unprotected
  paths, inspection and staging in Git, commits) or it grants it to a leaseholder and a lease is present.
\<close>

theorem local_decision_exact:
  "ld_outcome (evaluate_in_context h r) = LocalAllow \<longleftrightarrow>
     lr_profile r \<noteq> ProfileObserve \<and> risk_admits (lr_risk r) (lr_action r) \<and>
     (profile_grants h (lr_profile r) (lr_workspace r) (lr_action r) (lr_resource r) \<or>
      lr_lease r = LeasePresent \<and> profile_asks h (lr_profile r) (lr_workspace r) (lr_action r) (lr_resource r))"
proof (cases "lr_profile r = ProfileObserve")
  case True
  then show ?thesis
    using base_observe [of h "lr_workspace r" "lr_action r" "lr_resource r"]
    by (auto simp: evaluate_in_context_def applied_outcome upgrade_outcome degrade_allow)
next
  case False
  then show ?thesis
    by (simp add: evaluate_in_context_def applied_outcome upgrade_outcome degrade_allow base_cases)
qed

text \<open>
  The authority of a session only shrinks. A higher risk never gives a less restrictive answer to the same
  request; a lease changes nothing but a pending approval, and no lease and no risk turns the refusal
  of the ladder into anything else.
\<close>

theorem session_state_subtracts:
  assumes "risk \<le> risk'"
  shows "outcome_restrictiveness (ld_outcome (evaluate_in_context h (r\<lparr>lr_risk := risk\<rparr>)))
           \<le> outcome_restrictiveness (ld_outcome (evaluate_in_context h (r\<lparr>lr_risk := risk'\<rparr>))) \<and>
     (case ld_outcome (evaluate_base h (lr_profile r) (lr_workspace r) (lr_action r) (lr_resource r)) of
        LocalRequireApproval \<Rightarrow> True
      | LocalDeny \<Rightarrow> ld_outcome (evaluate_in_context h r) = LocalDeny
      | oc \<Rightarrow> outcome_restrictiveness oc \<le> outcome_restrictiveness (ld_outcome (evaluate_in_context h r)))"
proof -
  have "outcome_restrictiveness oc \<le> outcome_restrictiveness (degrade_for_risk (lr_action r) oc (lr_risk r))" for oc
    by (rule degrade_restricts)
  from this [of LocalAllow] this [of LocalObserve] show ?thesis
    using degrade_monotone [OF assms]
    by (auto simp: evaluate_in_context_def applied_outcome upgrade_outcome split: LocalOutcome.splits)
qed

theorem session_state_subtracts_witness:
  "outcome_restrictiveness (ld_outcome (evaluate_in_context sample_host (sample_local_request\<lparr>lr_risk := RiskElevated\<rparr>)))
     \<le> outcome_restrictiveness (ld_outcome (evaluate_in_context sample_host (sample_local_request\<lparr>lr_risk := RiskContained\<rparr>)))"
  using session_state_subtracts [of RiskElevated RiskContained sample_host sample_local_request]
  by (simp add: less_eq_RiskState_def)

text \<open>
  Protected resources are out of reach. Whatever the profile, the risk and the leases, a request for a path
  that is protected as it is named or as it resolves is denied, reported under the category of the
  resource, and leaves the session at an elevated risk at least.
\<close>

theorem protected_resource_denied:
  assumes "is_path_bearing (lr_action r)"
    and "named_category h (lr_workspace r) (lr_resource r) = Some (named, category) \<or>
         named_category h (lr_workspace r) (lr_resource r) = None \<and>
         resolve_resource h (lr_resource r) (lr_workspace r) = Inr path \<and> protected_category h path = Some category"
  shows "ld_outcome (evaluate_in_context h r) = LocalDeny \<and>
     ld_detection (evaluate_in_context h r) = Some (detection_for_category category) \<and>
     RiskElevated \<le> ld_risk_after (evaluate_in_context h r)"
proof -
  have "\<exists>p. evaluate_base h (lr_profile r) (lr_workspace r) (lr_action r) (lr_resource r) =
      deny_protected (lr_action r) (lr_resource r) p category"
    using assms by (auto simp: evaluate_base_def is_path_bearing_def)
  then show ?thesis
    by (auto simp: evaluate_in_context_def apply_session_state_def Let_def lease_upgrade_def le_max_iff_disj)
qed

theorem protected_resource_denied_witness:
  "ld_outcome (evaluate_in_context sample_host (sample_local_request\<lparr>lr_profile := ProfileObserve, lr_action := FsRead,
     lr_resource := ''/h/.ssh/k'', lr_lease := LeasePresent\<rparr>)) = LocalDeny"
  using protected_resource_denied [of "sample_local_request\<lparr>lr_profile := ProfileObserve, lr_action := FsRead,
     lr_resource := ''/h/.ssh/k'', lr_lease := LeasePresent\<rparr>" sample_host "''/h/.ssh/k''" "''ssh_credentials''"]
    sample_local_decision(3)
  by (simp add: sample_local_request_def is_path_bearing_def)

text \<open>
  C34: what is allowed stays in the workspace. Without a lease, an allowed path-bearing request reads or changes an unprotected
  path whose components are those of the workspace followed by plain names. If the filesystem reports the requested
  path as existing, this is its canonical path, with every link resolved. If it reports it as missing, it is the canonical
  path of the nearest ancestor it reports as existing, extended by the missing names; what a link hidden behind such a name
  points to is not examined.
\<close>

theorem allowed_path_confined:
  assumes "ld_outcome (evaluate_in_context h r) = LocalAllow" "lr_lease r = LeaseAbsent"
    and "is_path_bearing (lr_action r)" "path_is_absolute (lr_workspace r)"
  shows "\<exists>path names expanded. resolve_resource h (lr_resource r) (lr_workspace r) = Inr path \<and>
     path_components path = path_components (lr_workspace r) @ map NormalDir names \<and>
     protected_category h path = None \<and> (is_read (lr_action r) \<or> is_workspace_mutation (lr_action r)) \<and>
     expand_tilde h (lr_resource r) = Inr expanded \<and>
     (let full = (if path_is_absolute expanded then expanded else path_push (lr_workspace r) expanded)
      in (\<exists>canon. ho_lstat h full = PathExists \<and> ho_canonicalize h full = Inr canon \<and> path = clean_components canon) \<or>
         (\<exists>existing missing canon p. ho_lstat h full = PathMissing \<and> missing \<noteq> [] \<and>
            ancestor_loop h full [] = Inr (existing, missing) \<and> ho_lstat h existing = PathExists \<and>
            ho_canonicalize h existing = Inr canon \<and> push_missing canon (rev missing) = Inr p \<and> path = clean_components p))"
proof -
  have "profile_grants h (lr_profile r) (lr_workspace r) (lr_action r) (lr_resource r)"
    using assms(1,2) base_observe [of h "lr_workspace r" "lr_action r" "lr_resource r"]
    by (cases "lr_profile r = ProfileObserve")
       (auto simp: evaluate_in_context_def applied_outcome upgrade_outcome degrade_allow base_cases split: if_splits)
  then obtain path where p: "unprotected_path h (lr_workspace r) (lr_resource r) path" "path_starts_with path (lr_workspace r)"
    "lr_action r \<in> {FsList, FsMetadata, FsRead, FsCreate, FsWrite, FsRename, FsDelete}"
    using assms(3) by (auto simp: profile_grants_def is_path_bearing_def)
  then have res: "resolve_resource h (lr_resource r) (lr_workspace r) = Inr path" by (simp add: unprotected_path_def)
  obtain names where "path_components path = path_components (lr_workspace r) @ map NormalDir names"
    using resolved_inside [OF res p(2) assms(4)] by blast
  moreover have "protected_category h path = None" "is_read (lr_action r) \<or> is_workspace_mutation (lr_action r)"
    using p(1,3) by (auto simp: unprotected_path_def is_read_def is_workspace_mutation_def)
  ultimately show ?thesis using res resolved_origin [OF res] by blast
qed

theorem allowed_path_confined_witness:
  "\<exists>path names. resolve_resource sample_host ''b'' ''/w'' = Inr path \<and>
     path_components path = path_components ''/w'' @ map NormalDir names"
  using allowed_path_confined [OF sample_local_decision(1)]
  by (fastforce simp: sample_local_request_def is_path_bearing_def path_is_absolute_def starts_with_def)

text \<open>
  A dangling link is hidden by a trailing separator. For a name in the workspace that is a link to nothing,
  the request is refused because the path does not resolve; but with a separator behind the name, which makes the
  system look through the link and find nothing, the same request is taken for a new file and allowed,
  for the very path of the link.
\<close>

theorem trailing_separator_hides_link:
  assumes "plain_entry h ds name" "lr_workspace r = render_path True ds" "lr_action r \<in> {FsCreate, FsWrite}"
    and "lr_profile r \<noteq> ProfileObserve" "lr_risk r = RiskNormal"
    and "ho_lstat h (render_path True (ds @ [name])) = PathExists"
    and "ho_canonicalize h (render_path True (ds @ [name])) = Inl broken"
    and "ho_lstat h (render_path True (ds @ [name]) @ ''/'') = PathMissing"
    and "ho_lstat h (render_path True ds) = PathExists" "ho_canonicalize h (render_path True ds) = Inr (render_path True ds)"
    and "CHR 0x00 \<notin> set name"
  shows "ld_outcome (evaluate_in_context h (r\<lparr>lr_resource := name\<rparr>)) = LocalDeny \<and>
     ld_outcome (evaluate_in_context h (r\<lparr>lr_resource := name @ ''/''\<rparr>)) = LocalAllow \<and>
     resolve_resource h (name @ ''/'') (lr_workspace r) = Inr (render_path True (ds @ [name]))"
proof -
  let ?x = "render_path True (ds @ [name])"
  have c: "list_all clean_name ds" "clean_name name" "list_all clean_name (ds @ [name])"
    using assms(1) by (simp_all add: plain_entry_def)
  note plain = entry_named [OF assms(1), of "[]", simplified]
  note slash = entry_named [OF assms(1), of "''/''", simplified]
  have rel: "\<not> path_is_absolute name" "\<not> path_is_absolute (name @ ''/'')"
    using clean_name_relative [OF c(2), of "[]"] clean_name_relative [OF c(2), of "''/''"] by simp_all
  have "resolve_resource h name (lr_workspace r) = Inl (io_error broken)"
    using assms(6,7,11) plain(1,2) rel assms(2)
    by (simp add: resolve_resource_def resolve_existing_ancestor_def ancestor_loop.simps)
  then have "ld_outcome (evaluate_in_context h (r\<lparr>lr_resource := name\<rparr>)) = LocalDeny"
    using assms(2,3) plain(3)
    by (auto simp: evaluate_in_context_def applied_outcome upgrade_outcome evaluate_base_def is_path_bearing_def)
  moreover have res: "resolve_resource h (name @ ''/'') (lr_workspace r) = Inr ?x"
  proof -
    have l: "split_last (?x @ ''/'') = Some (render_path True ds, name)"
      using trailing_separator_last [OF c(3)] by simp
    have "ancestor_loop h (?x @ ''/'') [] = Inr (render_path True ds, [name])"
      using assms(8,9) l c(2)
      by (simp add: ancestor_loop.simps [of h "?x @ ''/''"] ancestor_loop.simps [of h "render_path True ds"]
          path_file_name_def path_parent_def clean_name_def)
    moreover have "push_missing (render_path True ds) [name] = Inr ?x"
      using c push_render [OF c(1,2)] by (simp add: clean_name_def)
    ultimately show ?thesis
      using assms(2,10,11) slash(1,2) rel clean_render [OF c(3), of True]
      by (simp add: resolve_resource_def resolve_existing_ancestor_def del: push_missing.simps)
  qed
  moreover have "path_starts_with ?x (render_path True ds)"
    by (simp add: path_starts_with_def render_components [OF c(1)] render_components [OF c(3)])
  ultimately show ?thesis
    using assms(1-5) slash(3)
    by (auto simp: evaluate_in_context_def applied_outcome upgrade_outcome degrade_allow base_cases risk_admits_def
        profile_grants_def unprotected_path_def plain_entry_def)
qed

theorem trailing_separator_hides_link_witness:
  "ld_outcome (evaluate_in_context sample_host (sample_local_request\<lparr>lr_resource := ''a''\<rparr>)) = LocalDeny \<and>
   ld_outcome (evaluate_in_context sample_host (sample_local_request\<lparr>lr_resource := ''a/''\<rparr>)) = LocalAllow"
proof -
  have p: "plain_entry sample_host [''w''] ''a''" by code_simp
  have x: "render_path True [''w''] = ''/w''" "render_path True [''w'', ''a''] = ''/w/a''" by code_simp+
  show ?thesis
    using trailing_separator_hides_link [OF p, of sample_local_request "''No such file or directory''"] x
    by (simp add: sample_local_request_def sample_host_def)
qed

end
