(* ===== verification/LocalRules.thy ===== *)
theory LocalRules
  imports LocalPolicy
begin

text \<open>
  The detection catalogue of the local control plane: severities, confidences, tactics and risk dimensions,
  the rule tables of \<^verbatim>\<open>vigil-local/src/detection.rs\<close> and of the components that extend it (\<^verbatim>\<open>mcp.rs\<close>,
  \<^verbatim>\<open>reconcile.rs\<close>, \<^verbatim>\<open>canary.rs\<close>, \<^verbatim>\<open>git_broker.rs\<close>, \<^verbatim>\<open>sequence.rs\<close>), the rule of a label, and the aggregate state over
  risk scores (\<^verbatim>\<open>risk.rs\<close>).
\<close>

section \<open>Vocabulary\<close>

datatype DetectionSeverity =
    DetInfo | DetLow | DetMedium | DetHigh
  | DetCritical

fun detection_severity_text :: "DetectionSeverity \<Rightarrow> string" where
  "detection_severity_text DetInfo = ''INFO''"
| "detection_severity_text DetLow = ''LOW''"
| "detection_severity_text DetMedium = ''MEDIUM''"
| "detection_severity_text DetHigh = ''HIGH''"
| "detection_severity_text DetCritical = ''CRITICAL''"

fun detection_severity_level :: "DetectionSeverity \<Rightarrow> nat" where
  "detection_severity_level DetInfo = 0"
| "detection_severity_level DetLow = 1"
| "detection_severity_level DetMedium = 2"
| "detection_severity_level DetHigh = 3"
| "detection_severity_level DetCritical = 4"

instantiation DetectionSeverity :: linorder
begin

definition less_eq_DetectionSeverity :: "DetectionSeverity \<Rightarrow> DetectionSeverity \<Rightarrow> bool" where
  "less_eq_DetectionSeverity a b = (detection_severity_level a \<le> detection_severity_level b)"

definition less_DetectionSeverity :: "DetectionSeverity \<Rightarrow> DetectionSeverity \<Rightarrow> bool" where
  "less_DetectionSeverity a b = (detection_severity_level a < detection_severity_level b)"

instance
proof
  fix a b :: DetectionSeverity
  show "a \<le> b \<Longrightarrow> b \<le> a \<Longrightarrow> a = b"
    by (cases a; cases b) (simp_all add: less_eq_DetectionSeverity_def)
qed (auto simp: less_eq_DetectionSeverity_def less_DetectionSeverity_def)

end

datatype Confidence =
    ConfLow | ConfMedium | ConfHigh

datatype Tactic =
    TacticAgentDiscovery | TacticCapabilityEscalation | TacticCredentialAccess | TacticToolAbuse
  | TacticDelegationAbuse | TacticPersistence | TacticPolicyEvasion | TacticDataCollection
  | TacticExfiltration | TacticDestructiveAction | TacticSecurityControlEvasion | TacticAgentToAgentAbuse

fun tactic_text :: "Tactic \<Rightarrow> string" where
  "tactic_text TacticAgentDiscovery = ''AGENT_DISCOVERY''"
| "tactic_text TacticCapabilityEscalation = ''CAPABILITY_ESCALATION''"
| "tactic_text TacticCredentialAccess = ''CREDENTIAL_ACCESS''"
| "tactic_text TacticToolAbuse = ''TOOL_ABUSE''"
| "tactic_text TacticDelegationAbuse = ''DELEGATION_ABUSE''"
| "tactic_text TacticPersistence = ''PERSISTENCE''"
| "tactic_text TacticPolicyEvasion = ''POLICY_EVASION''"
| "tactic_text TacticDataCollection = ''DATA_COLLECTION''"
| "tactic_text TacticExfiltration = ''EXFILTRATION''"
| "tactic_text TacticDestructiveAction = ''DESTRUCTIVE_ACTION''"
| "tactic_text TacticSecurityControlEvasion = ''SECURITY_CONTROL_EVASION''"
| "tactic_text TacticAgentToAgentAbuse = ''AGENT_TO_AGENT_ABUSE''"

datatype RiskDimension =
    DimCredentialAccess | DimExfiltration | DimDestructiveBehavior | DimPersistence
  | DimPrivilegeEscalation | DimPolicyEvasion | DimProcessAnomaly | DimNetworkAnomaly
  | DimCapabilityAnomaly | DimToolAnomaly | DimDeceptionInteraction | DimIntentExecutionMismatch

definition dimension_all :: "RiskDimension list" where
  "dimension_all = [DimCredentialAccess, DimExfiltration, DimDestructiveBehavior, DimPersistence,
     DimPrivilegeEscalation, DimPolicyEvasion, DimProcessAnomaly, DimNetworkAnomaly,
     DimCapabilityAnomaly, DimToolAnomaly, DimDeceptionInteraction, DimIntentExecutionMismatch]"

fun dimension_text :: "RiskDimension \<Rightarrow> string" where
  "dimension_text DimCredentialAccess = ''credential_access''"
| "dimension_text DimExfiltration = ''exfiltration''"
| "dimension_text DimDestructiveBehavior = ''destructive_behavior''"
| "dimension_text DimPersistence = ''persistence''"
| "dimension_text DimPrivilegeEscalation = ''privilege_escalation''"
| "dimension_text DimPolicyEvasion = ''policy_evasion''"
| "dimension_text DimProcessAnomaly = ''process_anomaly''"
| "dimension_text DimNetworkAnomaly = ''network_anomaly''"
| "dimension_text DimCapabilityAnomaly = ''capability_anomaly''"
| "dimension_text DimToolAnomaly = ''tool_anomaly''"
| "dimension_text DimDeceptionInteraction = ''deception_interaction''"
| "dimension_text DimIntentExecutionMismatch = ''intent_execution_mismatch''"

definition dimension_parse :: "string \<Rightarrow> RiskDimension option" where
  "dimension_parse v = find (\<lambda>d. dimension_text d = v) dimension_all"

record DetectionRule =
  rl_id :: string
  rl_name :: string
  rl_severity :: DetectionSeverity
  rl_confidence :: Confidence
  rl_tactic :: Tactic
  rl_description :: string
  rl_dimension :: RiskDimension
  rl_weight :: nat

section \<open>The catalogue\<close>

definition RULES :: "DetectionRule list" where
  "RULES = [
     \<lparr>rl_id = ''VIGIL-L001'', rl_name = ''Credential access'', rl_severity = DetHigh, rl_confidence = ConfHigh,
      rl_tactic = TacticCredentialAccess,
      rl_description = ''The session tried to reach a protected credential resource.'',
      rl_dimension = DimCredentialAccess, rl_weight = 20\<rparr>,
     \<lparr>rl_id = ''VIGIL-L002'', rl_name = ''Persistence attempt'', rl_severity = DetHigh, rl_confidence = ConfHigh,
      rl_tactic = TacticPersistence,
      rl_description = ''The session tried to write to a launch-agent or launch-daemon location.'',
      rl_dimension = DimPersistence, rl_weight = 40\<rparr>,
     \<lparr>rl_id = ''VIGIL-L003'', rl_name = ''Security control modification'', rl_severity = DetCritical, rl_confidence = ConfHigh,
      rl_tactic = TacticSecurityControlEvasion,
      rl_description = ''The session tried to reach VIGIL'' @ [CHR 0x27] @ ''s own configuration or evidence.'',
      rl_dimension = DimPolicyEvasion, rl_weight = 80\<rparr>,
     \<lparr>rl_id = ''VIGIL-L004'', rl_name = ''Capability escalation probing'', rl_severity = DetMedium, rl_confidence = ConfHigh,
      rl_tactic = TacticCapabilityEscalation,
      rl_description = ''The session re-requested a capability a human had already refused.'',
      rl_dimension = DimPolicyEvasion, rl_weight = 20\<rparr>,
     \<lparr>rl_id = ''VIGIL-L005'', rl_name = ''Approval fatigue'', rl_severity = DetMedium, rl_confidence = ConfMedium,
      rl_tactic = TacticPolicyEvasion,
      rl_description = ''The session generated approval requests faster than an operator can answer.'',
      rl_dimension = DimCapabilityAnomaly, rl_weight = 20\<rparr>,
     \<lparr>rl_id = ''VIGIL-L006'', rl_name = ''Unexpected interpreter'', rl_severity = DetHigh, rl_confidence = ConfHigh,
      rl_tactic = TacticToolAbuse,
      rl_description = ''The session tried to execute a shell or interpreter.'',
      rl_dimension = DimProcessAnomaly, rl_weight = 20\<rparr>,
     \<lparr>rl_id = ''VIGIL-L007'', rl_name = ''Direct-IP egress'', rl_severity = DetMedium, rl_confidence = ConfHigh,
      rl_tactic = TacticExfiltration,
      rl_description = ''The session tried to connect to an IP literal, bypassing hostname policy.'',
      rl_dimension = DimNetworkAnomaly, rl_weight = 20\<rparr>,
     \<lparr>rl_id = ''VIGIL-L008'', rl_name = ''Private or rebound destination'', rl_severity = DetHigh, rl_confidence = ConfHigh,
      rl_tactic = TacticExfiltration,
      rl_description = ''A destination resolved to a private, link-local, or metadata address.'',
      rl_dimension = DimNetworkAnomaly, rl_weight = 40\<rparr>,
     \<lparr>rl_id = ''VIGIL-L035'', rl_name = ''Session churn on a workspace'', rl_severity = DetMedium, rl_confidence = ConfMedium,
      rl_tactic = TacticCapabilityEscalation,
      rl_description = ''Sessions were started on one workspace faster than work explains, which multiplies the per-session blast-radius budget.'',
      rl_dimension = DimCapabilityAnomaly, rl_weight = 20\<rparr>,
     \<lparr>rl_id = ''VIGIL-L034'', rl_name = ''Session started on a recently contained workspace'', rl_severity = DetMedium, rl_confidence = ConfHigh,
      rl_tactic = TacticPolicyEvasion,
      rl_description = ''A new session opened on a workspace whose previous session was contained.'',
      rl_dimension = DimPolicyEvasion, rl_weight = 10\<rparr>,
     \<lparr>rl_id = ''VIGIL-L033'', rl_name = ''Executable changed between validation and execution'', rl_severity = DetCritical, rl_confidence = ConfHigh,
      rl_tactic = TacticToolAbuse,
      rl_description = ''The binary at a validated path was replaced before it could be run.'',
      rl_dimension = DimProcessAnomaly, rl_weight = 60\<rparr>,
     \<lparr>rl_id = ''VIGIL-L032'', rl_name = ''System clock moved backwards'', rl_severity = DetMedium, rl_confidence = ConfMedium,
      rl_tactic = TacticPolicyEvasion,
      rl_description = ''The system clock regressed materially, which would extend expired authority if expiry trusted it.'',
      rl_dimension = DimPolicyEvasion, rl_weight = 20\<rparr>,
     \<lparr>rl_id = ''VIGIL-L031'', rl_name = ''Local IPC escalation endpoint'', rl_severity = DetCritical, rl_confidence = ConfHigh,
      rl_tactic = TacticCapabilityEscalation,
      rl_description = ''The session tried to reach a local socket that confers authority it was never granted, such as a container daemon or the SSH agent.'',
      rl_dimension = DimPrivilegeEscalation, rl_weight = 60\<rparr>,
     \<lparr>rl_id = ''VIGIL-L026'', rl_name = ''Unknown network destination'', rl_severity = DetMedium, rl_confidence = ConfHigh,
      rl_tactic = TacticExfiltration,
      rl_description = ''The session tried to reach a destination outside its profile'' @ [CHR 0x27] @ ''s allowlist.'',
      rl_dimension = DimNetworkAnomaly, rl_weight = 20\<rparr>,
     \<lparr>rl_id = ''VIGIL-L027'', rl_name = ''Credential utility invocation'', rl_severity = DetHigh, rl_confidence = ConfHigh,
      rl_tactic = TacticCredentialAccess,
      rl_description = ''The session tried to run a tool whose purpose is reading stored secrets.'',
      rl_dimension = DimCredentialAccess, rl_weight = 40\<rparr>,
     \<lparr>rl_id = ''VIGIL-L028'', rl_name = ''Privilege escalation attempt'', rl_severity = DetHigh, rl_confidence = ConfHigh,
      rl_tactic = TacticCapabilityEscalation,
      rl_description = ''The session tried to run a privilege-escalation tool.'',
      rl_dimension = DimPrivilegeEscalation, rl_weight = 40\<rparr>,
     \<lparr>rl_id = ''VIGIL-L029'', rl_name = ''Unmediated network utility'', rl_severity = DetMedium, rl_confidence = ConfHigh,
      rl_tactic = TacticExfiltration,
      rl_description = ''The session tried to run a network client that would bypass the broker.'',
      rl_dimension = DimNetworkAnomaly, rl_weight = 20\<rparr>,
     \<lparr>rl_id = ''VIGIL-L030'', rl_name = ''Unexpected executable'', rl_severity = DetMedium, rl_confidence = ConfMedium,
      rl_tactic = TacticToolAbuse,
      rl_description = ''The session tried to run a program outside the structured allowlist.'',
      rl_dimension = DimProcessAnomaly, rl_weight = 10\<rparr>,
     \<lparr>rl_id = ''VIGIL-L009'', rl_name = ''Blast-radius budget exhausted'', rl_severity = DetMedium, rl_confidence = ConfHigh,
      rl_tactic = TacticDestructiveAction,
      rl_description = ''The session reached a quantitative limit its profile sets.'',
      rl_dimension = DimDestructiveBehavior, rl_weight = 20\<rparr>]"

definition MCP_RULES :: "DetectionRule list" where
  "MCP_RULES = [
     \<lparr>rl_id = ''VIGIL-L010'', rl_name = ''MCP capability drift'', rl_severity = DetHigh, rl_confidence = ConfHigh,
      rl_tactic = TacticToolAbuse,
      rl_description = ''An MCP server changed its tool set or a tool'' @ [CHR 0x27] @ ''s schema after registration.'',
      rl_dimension = DimToolAnomaly, rl_weight = 40\<rparr>,
     \<lparr>rl_id = ''VIGIL-L011'', rl_name = ''MCP server substitution'', rl_severity = DetCritical, rl_confidence = ConfHigh,
      rl_tactic = TacticToolAbuse,
      rl_description = ''The binary behind a registered MCP server changed.'',
      rl_dimension = DimToolAnomaly, rl_weight = 80\<rparr>,
     \<lparr>rl_id = ''VIGIL-L012'', rl_name = ''MCP tool scope escape'', rl_severity = DetHigh, rl_confidence = ConfHigh,
      rl_tactic = TacticToolAbuse,
      rl_description = ''An MCP tool call carried a resource outside what the tool declared.'',
      rl_dimension = DimToolAnomaly, rl_weight = 40\<rparr>]"

definition RECONCILE_RULES :: "DetectionRule list" where
  "RECONCILE_RULES = [
     \<lparr>rl_id = ''VIGIL-L013'', rl_name = ''Denied operation observed'', rl_severity = DetCritical, rl_confidence = ConfHigh,
      rl_tactic = TacticPolicyEvasion,
      rl_description = ''VIGIL refused an operation and the operating system observed it happen.'',
      rl_dimension = DimIntentExecutionMismatch, rl_weight = 80\<rparr>,
     \<lparr>rl_id = ''VIGIL-L014'', rl_name = ''Intent-execution resource mismatch'', rl_severity = DetHigh, rl_confidence = ConfHigh,
      rl_tactic = TacticPolicyEvasion,
      rl_description = ''The operating system observed a resource the session never declared.'',
      rl_dimension = DimIntentExecutionMismatch, rl_weight = 40\<rparr>,
     \<lparr>rl_id = ''VIGIL-L015'', rl_name = ''Undeclared side effect'', rl_severity = DetHigh, rl_confidence = ConfHigh,
      rl_tactic = TacticPolicyEvasion,
      rl_description = ''A resource declared for reading was observed being modified.'',
      rl_dimension = DimIntentExecutionMismatch, rl_weight = 40\<rparr>,
     \<lparr>rl_id = ''VIGIL-L016'', rl_name = ''Undeclared child process'', rl_severity = DetHigh, rl_confidence = ConfMedium,
      rl_tactic = TacticToolAbuse,
      rl_description = ''A process execution was observed that no brokered request declared.'',
      rl_dimension = DimProcessAnomaly, rl_weight = 20\<rparr>,
     \<lparr>rl_id = ''VIGIL-L017'', rl_name = ''Scope expansion'', rl_severity = DetMedium, rl_confidence = ConfMedium,
      rl_tactic = TacticDataCollection,
      rl_description = ''Undeclared workspace resources were touched beyond the declared set.'',
      rl_dimension = DimIntentExecutionMismatch, rl_weight = 20\<rparr>]"

definition CANARY_RULES :: "DetectionRule list" where
  "CANARY_RULES = [
     \<lparr>rl_id = ''VIGIL-L018'', rl_name = ''Deception resource access'', rl_severity = DetCritical, rl_confidence = ConfMedium,
      rl_tactic = TacticDataCollection,
      rl_description = ''A synthetic asset that exists only as bait was accessed.'',
      rl_dimension = DimDeceptionInteraction, rl_weight = 60\<rparr>]"

definition GIT_RULES :: "DetectionRule list" where
  "GIT_RULES = [
     \<lparr>rl_id = ''VIGIL-L019'', rl_name = ''Git control-surface change'', rl_severity = DetHigh, rl_confidence = ConfHigh,
      rl_tactic = TacticPolicyEvasion,
      rl_description = ''An attempt to change Git configuration or a remote, which alters what every later Git command does.'',
      rl_dimension = DimToolAnomaly, rl_weight = 40\<rparr>,
     \<lparr>rl_id = ''VIGIL-L020'', rl_name = ''Git history rewrite'', rl_severity = DetHigh, rl_confidence = ConfHigh,
      rl_tactic = TacticDestructiveAction,
      rl_description = ''An attempt to force-push, which discards history already on the remote.'',
      rl_dimension = DimDestructiveBehavior, rl_weight = 40\<rparr>,
     \<lparr>rl_id = ''VIGIL-L021'', rl_name = ''Executable Git configuration neutralized'', rl_severity = DetMedium, rl_confidence = ConfHigh,
      rl_tactic = TacticToolAbuse,
      rl_description = ''The repository configures Git to run a program. VIGIL overrode it, so nothing was executed.'',
      rl_dimension = DimToolAnomaly, rl_weight = 10\<rparr>]"

definition SEQUENCE_RULES :: "DetectionRule list" where
  "SEQUENCE_RULES = [
     \<lparr>rl_id = ''VIGIL-L022'', rl_name = ''Sensitive read followed by egress'', rl_severity = DetHigh, rl_confidence = ConfMedium,
      rl_tactic = TacticExfiltration,
      rl_description = ''The session reached for a protected resource and then attempted an outbound connection.'',
      rl_dimension = DimExfiltration, rl_weight = 40\<rparr>,
     \<lparr>rl_id = ''VIGIL-L023'', rl_name = ''Archive before egress'', rl_severity = DetHigh, rl_confidence = ConfMedium,
      rl_tactic = TacticExfiltration,
      rl_description = ''Several protected resources were reached for, then an archiving tool, then an outbound connection.'',
      rl_dimension = DimExfiltration, rl_weight = 60\<rparr>,
     \<lparr>rl_id = ''VIGIL-L024'', rl_name = ''Interpreter cascade'', rl_severity = DetHigh, rl_confidence = ConfMedium,
      rl_tactic = TacticToolAbuse,
      rl_description = ''A chain of shells and interpreters was launched, each from the last.'',
      rl_dimension = DimProcessAnomaly, rl_weight = 40\<rparr>,
     \<lparr>rl_id = ''VIGIL-L026-LAUNDERING'', rl_name = ''Capability laundering across sessions'', rl_severity = DetHigh, rl_confidence = ConfMedium,
      rl_tactic = TacticDelegationAbuse,
      rl_description = ''A resource refused to one session was then requested by a different one.'',
      rl_dimension = DimCapabilityAnomaly, rl_weight = 40\<rparr>,
     \<lparr>rl_id = ''VIGIL-L025'', rl_name = ''Excessive process fan-out'', rl_severity = DetMedium, rl_confidence = ConfMedium,
      rl_tactic = TacticDestructiveAction,
      rl_description = ''The session launched processes far faster than ordinary work requires.'',
      rl_dimension = DimProcessAnomaly, rl_weight = 20\<rparr>]"

definition all_rules :: "DetectionRule list" where
  "all_rules = RULES @ MCP_RULES @ RECONCILE_RULES @ CANARY_RULES @ GIT_RULES @ SEQUENCE_RULES"

definition ALL_DETECTION_LABELS :: "string list" where
  "ALL_DETECTION_LABELS = [
     ''credential_access'', ''persistence_attempt'', ''security_control_modification'',
     ''budget_exhaustion'', ''unexpected_executable'', ''local_ipc_escalation'',
     ''clock_regression'', ''executable_identity_changed'', ''workspace_standing_inherited'',
     ''session_churn'', ''unexpected_interpreter'', ''credential_utility_invocation'',
     ''privilege_attempt'', ''unmediated_network_utility'', ''unknown_network_destination'',
     ''direct_ip_egress'', ''dns_rebinding_or_private_destination'', ''capability_escalation_probing'',
     ''approval_fatigue'', ''mcp_capability_drift'', ''mcp_server_substitution'',
     ''mcp_tool_scope_escape'', ''denied_operation_observed'', ''intent_resource_mismatch'',
     ''undeclared_side_effect'', ''undeclared_child_process'', ''scope_expansion'',
     ''deception_resource_access'', ''git_control_surface_change'', ''git_history_rewrite'',
     ''git_executable_config_present'', ''sensitive_read_then_egress'', ''archive_before_egress'',
     ''interpreter_cascade'', ''process_fan_out'', ''capability_laundering'']"

text \<open>The arms of \<^verbatim>\<open>rule_for_label\<close>, in order.\<close>

definition label_rule_ids :: "(string \<times> string) list" where
  "label_rule_ids = [
     (''credential_access'', ''VIGIL-L001''),
     (''persistence_attempt'', ''VIGIL-L002''),
     (''security_control_modification'', ''VIGIL-L003''),
     (''capability_escalation_probing'', ''VIGIL-L004''),
     (''approval_fatigue'', ''VIGIL-L005''),
     (''unexpected_interpreter'', ''VIGIL-L006''),
     (''direct_ip_egress'', ''VIGIL-L007''),
     (''dns_rebinding_or_private_destination'', ''VIGIL-L008''),
     (''budget_exhaustion'', ''VIGIL-L009''),
     (''unknown_network_destination'', ''VIGIL-L026''),
     (''local_ipc_escalation'', ''VIGIL-L031''),
     (''clock_regression'', ''VIGIL-L032''),
     (''executable_identity_changed'', ''VIGIL-L033''),
     (''workspace_standing_inherited'', ''VIGIL-L034''),
     (''session_churn'', ''VIGIL-L035''),
     (''credential_utility_invocation'', ''VIGIL-L027''),
     (''privilege_attempt'', ''VIGIL-L028''),
     (''unmediated_network_utility'', ''VIGIL-L029''),
     (''unexpected_executable'', ''VIGIL-L030''),
     (''mcp_capability_drift'', ''VIGIL-L010''),
     (''mcp_server_substitution'', ''VIGIL-L011''),
     (''mcp_tool_scope_escape'', ''VIGIL-L012''),
     (''denied_operation_observed'', ''VIGIL-L013''),
     (''intent_resource_mismatch'', ''VIGIL-L014''),
     (''undeclared_side_effect'', ''VIGIL-L015''),
     (''undeclared_child_process'', ''VIGIL-L016''),
     (''scope_expansion'', ''VIGIL-L017''),
     (''deception_resource_access'', ''VIGIL-L018''),
     (''git_control_surface_change'', ''VIGIL-L019''),
     (''git_history_rewrite'', ''VIGIL-L020''),
     (''git_executable_config_present'', ''VIGIL-L021''),
     (''sensitive_read_then_egress'', ''VIGIL-L022''),
     (''archive_before_egress'', ''VIGIL-L023''),
     (''interpreter_cascade'', ''VIGIL-L024''),
     (''process_fan_out'', ''VIGIL-L025''),
     (''capability_laundering'', ''VIGIL-L026-LAUNDERING'')]"

definition rule_for_label :: "string \<Rightarrow> DetectionRule option" where
  "rule_for_label label =
     (case map_of label_rule_ids label of
        None \<Rightarrow> None
      | Some i \<Rightarrow> find (\<lambda>r. rl_id r = i) all_rules)"

section \<open>The aggregate state\<close>

definition MAX_SIGNAL_WEIGHT :: nat where "MAX_SIGNAL_WEIGHT = 100"
definition ELEVATED_AT :: nat where "ELEVATED_AT = 20"
definition RESTRICTED_AT :: nat where "RESTRICTED_AT = 40"
definition CONTAINED_AT :: nat where "CONTAINED_AT = 60"
definition QUARANTINED_AT :: nat where "QUARANTINED_AT = 80"

text \<open>The scores of the dimensions that have a signal, in the order of the dimensions.\<close>

type_synonym scores = "(RiskDimension \<times> nat) list"

definition at_or_above :: "scores \<Rightarrow> nat \<Rightarrow> nat" where
  "at_or_above scores threshold = length (filter (\<lambda>(d, score). threshold \<le> score) scores)"

definition aggregate_state :: "scores \<Rightarrow> RiskState" where
  "aggregate_state scores =
     (if 1 \<le> at_or_above scores QUARANTINED_AT then RiskQuarantined
      else if 1 \<le> at_or_above scores CONTAINED_AT \<or> 2 \<le> at_or_above scores RESTRICTED_AT then RiskContained
      else if 1 \<le> at_or_above scores RESTRICTED_AT \<or> 3 \<le> at_or_above scores ELEVATED_AT then RiskRestricted
      else if 1 \<le> at_or_above scores ELEVATED_AT then RiskElevated
      else RiskNormal)"

end
