(* ===== verification/LocalStore.thy ===== *)
theory LocalStore
  imports LocalRules Redact
begin

text \<open>
  The tables of the local control plane and the transactions on them: the life cycle of sessions and the
  event chain (\<^verbatim>\<open>vigil-local/src/store.rs\<close>), the clock that does not go back (\<^verbatim>\<open>clock.rs\<close>), risk (\<^verbatim>\<open>risk.rs\<close>),
  leases (\<^verbatim>\<open>lease.rs\<close>), detections (\<^verbatim>\<open>detection.rs\<close>) and incidents (\<^verbatim>\<open>incident.rs\<close>). A database is a record of
  tables; an \<^verbatim>\<open>IMMEDIATE\<close> transaction is one step that either happens or leaves the record as it was. What
  SQLite does on a failing disk is not modelled. Instants are compared as instants: the texts the
  database compares are RFC 3339 in one offset, whose order is theirs. Identifiers come from a generator, one
  reading of the wall clock serves one call.
\<close>

section \<open>Tables\<close>

datatype SessionStatus = SessionStarting | SessionRunning | SessionCompleted | SessionFailed | SessionSealed

record LocalSession =
  sn_id :: string
  sn_created_at :: timestamp
  sn_ended_at :: "timestamp option"
  sn_profile :: string
  sn_workspace :: string
  sn_executable :: string
  sn_argv :: "string list"
  sn_task :: "string option"
  sn_enforcement_posture :: string
  sn_status :: SessionStatus
  sn_pid :: "nat option"
  sn_exit_code :: "int option"
  sn_risk_state :: RiskState

record RiskSignal =
  sg_id :: string
  sg_session_id :: string
  sg_at :: timestamp
  sg_dimension :: RiskDimension
  sg_weight :: nat
  sg_source_event_id :: "string option"
  sg_note :: string

record RiskTransition =
  tn_id :: string
  tn_session_id :: string
  tn_at :: timestamp
  tn_previous_state :: RiskState
  tn_new_state :: RiskState
  tn_triggering_signals :: "string list"

datatype LeaseState = LeaseActive | LeaseExhausted | LeaseRevoked

record CapabilityLease =
  cl_lease_id :: string
  cl_session_id :: string
  cl_approval_id :: string
  cl_action :: LocalAction
  cl_resource :: string
  cl_issued_at :: timestamp
  cl_expires_at :: timestamp
  cl_max_uses :: nat
  cl_uses_remaining :: nat
  cl_delegable :: bool
  cl_status :: LeaseState
  cl_revoked_at :: "timestamp option"
  cl_revocation_reason :: "string option"

datatype ApprovalStatus = RequestPending | RequestGranted | RequestDenied

record LocalApproval =
  lq_approval_id :: string
  lq_session_id :: string
  lq_requested_at :: timestamp
  lq_expires_at :: timestamp
  lq_action :: LocalAction
  lq_requested_resource :: string
  lq_resolved_resource :: string
  lq_determining_policy :: string
  lq_reason :: string
  lq_risk_state_at_request :: RiskState
  lq_fingerprint :: string
  lq_status :: ApprovalStatus
  lq_decided_at :: "timestamp option"
  lq_decided_by :: "string option"
  lq_note :: "string option"
  lq_lease_id :: "string option"

record Detection =
  dt_detection_id :: string
  dt_session_id :: string
  dt_at :: timestamp
  dt_rule_id :: string
  dt_name :: string
  dt_severity :: DetectionSeverity
  dt_confidence :: Confidence
  dt_tactic :: string
  dt_description :: string
  dt_evidence :: json
  dt_source_event_id :: "string option"
  dt_incident_id :: "string option"

datatype IncidentStatus = IncidentOpen | IncidentSealed

record Incident =
  ic_incident_id :: string
  ic_session_id :: string
  ic_opened_at :: timestamp
  ic_sealed_at :: "timestamp option"
  ic_severity :: DetectionSeverity
  ic_status :: IncidentStatus
  ic_reason :: string
  ic_risk_state_at_open :: RiskState

datatype ResponseAction =
  RevokeCapabilities | RestrictSession | QuarantineSession | SealSession | TerminateProcessTree

datatype ResponseOutcome = ResponseApplied | ResponseAlreadyApplied | ResponseRefused

record IncidentResponse =
  ir_id :: string
  ir_incident_id :: string
  ir_at :: timestamp
  ir_action :: ResponseAction
  ir_outcome :: ResponseOutcome
  ir_detail :: json

record Canary =
  cn_canary_id :: string
  cn_session_id :: string
  cn_path :: string
  cn_kind :: string
  cn_removed_at :: "timestamp option"

record LocalEvent =
  lx_sequence :: int
  lx_event_id :: string
  lx_timestamp :: timestamp
  lx_session_id :: string
  lx_category :: string
  lx_action :: string
  lx_decision :: "string option"
  lx_correlation_id :: string
  lx_payload :: json
  lx_previous_hash :: "string option"
  lx_chain_hash :: "string option"

record local_store =
  lt_sessions :: "LocalSession list"
  lt_signals :: "RiskSignal list"
  lt_transitions :: "RiskTransition list"
  lt_leases :: "CapabilityLease list"
  lt_approvals :: "LocalApproval list"
  lt_detections :: "Detection list"
  lt_incidents :: "Incident list"
  lt_responses :: "IncidentResponse list"
  lt_canaries :: "Canary list"
  lt_high_water :: "timestamp option"
  lt_events :: "LocalEvent list"
  lt_issued_events :: int
  lt_drawn :: nat

text \<open>
  The identifier generator, the marks of redaction, the printer of floating-point numbers and of instants, and
  the digest.
\<close>

record local_env =
  lv_uuid :: "nat \<Rightarrow> string"
  lv_marks :: marks
  lv_format :: number_format
  lv_sha :: "u8 list \<Rightarrow> string"
  lv_rfc3339 :: "timestamp \<Rightarrow> string"

datatype local_error =
    LocalInvalidValue string
  | LocalNotFound string
  | LocalInvalidRequest string
  | LocalUnauthorized string
  | LocalIntegrity string
  | LocalConfig string
  | LocalStorage
  | LocalNotCanonical canon_error

definition fresh_id :: "local_env \<Rightarrow> string \<Rightarrow> local_store \<Rightarrow> string" where
  "fresh_id e prefix_text st = prefix_text @ lv_uuid e (lt_drawn st)"

definition id_drawn :: "local_store \<Rightarrow> local_store" where
  "id_drawn st = st\<lparr>lt_drawn := Suc (lt_drawn st)\<rparr>"

definition excerpt_500 :: "local_env \<Rightarrow> string \<Rightarrow> string" where
  "excerpt_500 e t = single_line_excerpt (lv_marks e) t 500"

section \<open>Sessions\<close>

definition session_of :: "local_store \<Rightarrow> string \<Rightarrow> LocalSession option" where
  "session_of st i = find (\<lambda>s. sn_id s = i) (lt_sessions st)"

definition update_session :: "string \<Rightarrow> (LocalSession \<Rightarrow> LocalSession) \<Rightarrow> local_store \<Rightarrow> local_store" where
  "update_session i f st = st\<lparr>lt_sessions := map (\<lambda>s. if sn_id s = i then f s else s) (lt_sessions st)\<rparr>"

text \<open>\<^verbatim>\<open>update_exactly_one\<close>: the rows that match a condition are updated if there is exactly one.\<close>

definition update_exactly_one ::
    "(LocalSession \<Rightarrow> bool) \<Rightarrow> (LocalSession \<Rightarrow> LocalSession) \<Rightarrow> local_store \<Rightarrow> (local_error + unit) \<times> local_store" where
  "update_exactly_one P f st =
     (let st' = st\<lparr>lt_sessions := map (\<lambda>s. if P s then f s else s) (lt_sessions st)\<rparr>
      in if length (filter P (lt_sessions st)) = 1 then (Inr (), st')
         else (Inl (LocalConfig ''expected to update exactly one row''), st'))"

definition mark_running :: "string \<Rightarrow> nat \<Rightarrow> local_store \<Rightarrow> (local_error + unit) \<times> local_store" where
  "mark_running i pid st =
     update_exactly_one (\<lambda>s. sn_id s = i) (\<lambda>s. s\<lparr>sn_status := SessionRunning, sn_pid := Some pid\<rparr>) st"

definition activate_semantic_session :: "string \<Rightarrow> local_store \<Rightarrow> (local_error + unit) \<times> local_store" where
  "activate_semantic_session i st =
     update_exactly_one
       (\<lambda>s. sn_id s = i \<and> sn_enforcement_posture s = ''semantic_enforced'' \<and> sn_status s = SessionStarting)
       (\<lambda>s. s\<lparr>sn_status := SessionRunning\<rparr>) st"

definition finish_session :: "timestamp \<Rightarrow> string \<Rightarrow> int option \<Rightarrow> local_store \<Rightarrow> (local_error + unit) \<times> local_store" where
  "finish_session wall i exit_code st =
     update_exactly_one (\<lambda>s. sn_id s = i)
       (\<lambda>s. s\<lparr>sn_status := (if exit_code = Some 0 then SessionCompleted else SessionFailed),
              sn_ended_at := Some wall, sn_exit_code := exit_code\<rparr>) st"

definition seal_session :: "timestamp \<Rightarrow> string \<Rightarrow> RiskState \<Rightarrow> local_store \<Rightarrow> (local_error + unit) \<times> local_store" where
  "seal_session wall i risk st =
     update_exactly_one (\<lambda>s. sn_id s = i)
       (\<lambda>s. s\<lparr>sn_status := SessionSealed, sn_ended_at := Some wall, sn_risk_state := risk\<rparr>) st"

section \<open>The event chain\<close>

definition EVENT_CHAIN_DOMAIN :: "u8 list" where
  "EVENT_CHAIN_DOMAIN = utf8 ''VIGIL_LOCAL_EVENT_CHAIN_V1'' @ [0]"

definition optional_text :: "string option \<Rightarrow> json" where
  "optional_text t = (case t of None \<Rightarrow> JNull | Some s \<Rightarrow> JStr s)"

definition event_document :: "local_env \<Rightarrow> LocalEvent \<Rightarrow> json" where
  "event_document e x =
     JObj [(''sequence'', JInt (lx_sequence x)), (''event_id'', JStr (lx_event_id x)),
           (''timestamp'', JStr (lv_rfc3339 e (lx_timestamp x))), (''session_id'', JStr (lx_session_id x)),
           (''category'', JStr (lx_category x)), (''action'', JStr (lx_action x)),
           (''decision'', optional_text (lx_decision x)), (''correlation_id'', JStr (lx_correlation_id x)),
           (''payload'', lx_payload x), (''previous_hash'', optional_text (lx_previous_hash x))]"

definition event_link_hash :: "local_env \<Rightarrow> LocalEvent \<Rightarrow> local_error + string" where
  "event_link_hash e x =
     (case canonical_bytes (lv_format e) (event_document e x) of
        Inl err \<Rightarrow> Inl (LocalNotCanonical err)
      | Inr b \<Rightarrow> Inr (hash_display (hash_bytes (lv_sha e) (EVENT_CHAIN_DOMAIN @ b))))"

definition append_event ::
    "local_env \<Rightarrow> timestamp \<Rightarrow> string \<Rightarrow> string \<Rightarrow> string \<Rightarrow> string option \<Rightarrow> string \<Rightarrow> json \<Rightarrow> local_store
      \<Rightarrow> (local_error + LocalEvent) \<times> local_store" where
  "append_event e wall i category act decision correlation payload st =
     (if session_of st i = None then (Inl LocalStorage, st)
      else let x = \<lparr>lx_sequence = lt_issued_events st + 1, lx_event_id = fresh_id e ''evt_'' st, lx_timestamp = wall,
                    lx_session_id = i, lx_category = category, lx_action = act, lx_decision = decision,
                    lx_correlation_id = correlation, lx_payload = payload,
                    lx_previous_hash = (if lt_events st = [] then None else lx_chain_hash (List.last (lt_events st))),
                    lx_chain_hash = None\<rparr>
           in case event_link_hash e x of
                Inl err \<Rightarrow> (Inl err, st)
              | Inr link \<Rightarrow>
                  (let y = x\<lparr>lx_chain_hash := Some link\<rparr>
                   in (Inr y, (id_drawn st)\<lparr>lt_events := lt_events st @ [y], lt_issued_events := lt_issued_events st + 1\<rparr>)))"

section \<open>The clock\<close>

definition CLOCK_REGRESSION_TOLERANCE_SECONDS :: int where "CLOCK_REGRESSION_TOLERANCE_SECONDS = 5"
definition ADVANCE_GRANULARITY_SECONDS :: int where "ADVANCE_GRANULARITY_SECONDS = 1"

record ClockReading =
  cr_now :: timestamp
  cr_wall :: timestamp
  cr_regressed_by_seconds :: int

definition is_significant_regression :: "ClockReading \<Rightarrow> bool" where
  "is_significant_regression r = (CLOCK_REGRESSION_TOLERANCE_SECONDS < cr_regressed_by_seconds r)"

definition observe_now :: "timestamp \<Rightarrow> local_store \<Rightarrow> ClockReading \<times> local_store" where
  "observe_now wall st =
     (case lt_high_water st of
        None \<Rightarrow> (\<lparr>cr_now = wall, cr_wall = wall, cr_regressed_by_seconds = 0\<rparr>, st\<lparr>lt_high_water := Some wall\<rparr>)
      | Some high_water \<Rightarrow>
          (\<lparr>cr_now = max wall high_water, cr_wall = wall,
            cr_regressed_by_seconds = max (num_seconds (high_water - wall)) 0\<rparr>,
           if high_water + seconds ADVANCE_GRANULARITY_SECONDS \<le> wall then st\<lparr>lt_high_water := Some wall\<rparr> else st))"

section \<open>Detections\<close>

definition record_detection ::
    "local_env \<Rightarrow> timestamp \<Rightarrow> string \<Rightarrow> DetectionRule \<Rightarrow> json \<Rightarrow> string option \<Rightarrow> local_store
      \<Rightarrow> (local_error + Detection) \<times> local_store" where
  "record_detection e wall i rule evidence source st =
     (if session_of st i = None then (Inl LocalStorage, st)
      else let d = \<lparr>dt_detection_id = fresh_id e ''det_'' st, dt_session_id = i, dt_at = wall, dt_rule_id = rl_id rule,
                    dt_name = rl_name rule, dt_severity = rl_severity rule, dt_confidence = rl_confidence rule,
                    dt_tactic = tactic_text (rl_tactic rule), dt_description = rl_description rule,
                    dt_evidence = evidence, dt_source_event_id = source, dt_incident_id = None\<rparr>
           in (Inr d, (id_drawn st)\<lparr>lt_detections := lt_detections st @ [d]\<rparr>))"

section \<open>Leases\<close>

definition MAX_LEASE_TTL_SECONDS :: int where "MAX_LEASE_TTL_SECONDS = 900"
definition MAX_LEASE_USES :: nat where "MAX_LEASE_USES = 64"

definition lease_is_usable :: "CapabilityLease \<Rightarrow> timestamp \<Rightarrow> bool" where
  "lease_is_usable l now = (cl_status l = LeaseActive \<and> 0 < cl_uses_remaining l \<and> now < cl_expires_at l)"

record LeaseGrant =
  lg_session_id :: string
  lg_approval_id :: string
  lg_action :: LocalAction
  lg_resource :: string
  lg_max_uses :: nat
  lg_ttl_seconds :: int

definition issue_lease :: "local_env \<Rightarrow> LeaseGrant \<Rightarrow> timestamp \<Rightarrow> local_store \<Rightarrow> (local_error + CapabilityLease) \<times> local_store" where
  "issue_lease e g now st =
     (if lg_max_uses g = 0 \<or> MAX_LEASE_USES < lg_max_uses g then (Inl (LocalInvalidValue ''max_uses''), st)
      else if lg_ttl_seconds g \<le> 0 \<or> MAX_LEASE_TTL_SECONDS < lg_ttl_seconds g then (Inl (LocalInvalidValue ''ttl_seconds''), st)
      else let l = \<lparr>cl_lease_id = fresh_id e ''cap_'' st, cl_session_id = lg_session_id g, cl_approval_id = lg_approval_id g,
                    cl_action = lg_action g, cl_resource = lg_resource g, cl_issued_at = now,
                    cl_expires_at = now + seconds (lg_ttl_seconds g), cl_max_uses = lg_max_uses g,
                    cl_uses_remaining = lg_max_uses g, cl_delegable = False, cl_status = LeaseActive,
                    cl_revoked_at = None, cl_revocation_reason = None\<rparr>
           in (Inr l, (id_drawn st)\<lparr>lt_leases := lt_leases st @ [l]\<rparr>))"

definition revoke_lease :: "timestamp \<Rightarrow> string \<Rightarrow> CapabilityLease \<Rightarrow> CapabilityLease" where
  "revoke_lease wall reason l =
     l\<lparr>cl_status := LeaseRevoked, cl_revoked_at := Some wall, cl_revocation_reason := Some reason\<rparr>"

definition revoke_session_leases :: "local_env \<Rightarrow> timestamp \<Rightarrow> string \<Rightarrow> string \<Rightarrow> local_store \<Rightarrow> nat \<times> local_store" where
  "revoke_session_leases e wall i reason st =
     (let held = (\<lambda>l. cl_session_id l = i \<and> cl_status l = LeaseActive)
      in (length (filter held (lt_leases st)),
          st\<lparr>lt_leases := map (\<lambda>l. if held l then revoke_lease wall (excerpt_500 e reason) l else l) (lt_leases st)\<rparr>))"

record LeaseUse =
  lu_action :: LocalAction
  lu_resource :: string

datatype AtomicLeaseConsumption = Consumed_leases "CapabilityLease list" | Missing_leases "nat list"

text \<open>The lease that covers a use: the first to expire, and among those the one with the least identifier.\<close>

definition lease_covers :: "string \<Rightarrow> LeaseUse \<Rightarrow> timestamp \<Rightarrow> CapabilityLease \<Rightarrow> bool" where
  "lease_covers i u now l =
     (cl_session_id l = i \<and> cl_action l = lu_action u \<and> cl_resource l = lu_resource u \<and> lease_is_usable l now)"

definition lease_candidate :: "string \<Rightarrow> LeaseUse \<Rightarrow> timestamp \<Rightarrow> CapabilityLease list \<Rightarrow> string option" where
  "lease_candidate i u now ls =
     (case sort_key cl_expires_at (sort_key cl_lease_id (filter (lease_covers i u now) ls)) of
        [] \<Rightarrow> None | l # _ \<Rightarrow> Some (cl_lease_id l))"

definition charge_lease :: "string \<Rightarrow> timestamp \<Rightarrow> CapabilityLease \<Rightarrow> CapabilityLease" where
  "charge_lease lease_id now l =
     (if cl_lease_id l = lease_id \<and> lease_is_usable l now then l\<lparr>cl_uses_remaining := cl_uses_remaining l - 1\<rparr> else l)"

definition exhaust_lease :: "string \<Rightarrow> CapabilityLease \<Rightarrow> CapabilityLease" where
  "exhaust_lease lease_id l =
     (if cl_lease_id l = lease_id \<and> cl_uses_remaining l = 0 then l\<lparr>cl_status := LeaseExhausted\<rparr> else l)"

fun consume_loop ::
    "string \<Rightarrow> timestamp \<Rightarrow> nat \<Rightarrow> LeaseUse list \<Rightarrow> CapabilityLease list \<Rightarrow> string list \<Rightarrow> nat list
      \<Rightarrow> local_error + (CapabilityLease list \<times> string list \<times> nat list)" where
  "consume_loop i now index [] ls consumed missing = Inr (ls, consumed, missing)"
| "consume_loop i now index (u # us) ls consumed missing =
     (case lease_candidate i u now ls of
        None \<Rightarrow> consume_loop i now (Suc index) us ls consumed (missing @ [index])
      | Some lease_id \<Rightarrow>
          if length (filter (\<lambda>l. cl_lease_id l = lease_id \<and> lease_is_usable l now) ls) \<noteq> 1
          then Inl (LocalIntegrity ''capability lease accounting is inconsistent'')
          else consume_loop i now (Suc index) us
                 (map (exhaust_lease lease_id) (map (charge_lease lease_id now) ls)) (consumed @ [lease_id]) missing)"

definition read_lease :: "CapabilityLease list \<Rightarrow> string \<Rightarrow> local_error + CapabilityLease" where
  "read_lease ls lease_id =
     (case find (\<lambda>l. cl_lease_id l = lease_id) ls of
        None \<Rightarrow> Inl LocalStorage
      | Some l \<Rightarrow> if cl_delegable l then Inl (LocalIntegrity ''a delegable capability lease was found in storage'') else Inr l)"

fun read_leases :: "CapabilityLease list \<Rightarrow> string list \<Rightarrow> local_error + CapabilityLease list" where
  "read_leases ls [] = Inr []"
| "read_leases ls (x # xs) = rbind (read_lease ls x) (\<lambda>l. rbind (read_leases ls xs) (\<lambda>rest. Inr (l # rest)))"

definition consume_leases_atomically ::
    "string \<Rightarrow> LeaseUse list \<Rightarrow> timestamp \<Rightarrow> local_store \<Rightarrow> (local_error + AtomicLeaseConsumption) \<times> local_store" where
  "consume_leases_atomically i uses now st =
     (if uses = [] then (Inr (Consumed_leases []), st)
      else case consume_loop i now 0 uses (lt_leases st) [] [] of
             Inl err \<Rightarrow> (Inl err, st)
           | Inr (ls, consumed, missing) \<Rightarrow>
               if missing \<noteq> [] then (Inr (Missing_leases missing), st)
               else case read_leases ls consumed of
                      Inl err \<Rightarrow> (Inl err, st)
                    | Inr leases \<Rightarrow> (Inr (Consumed_leases leases), st\<lparr>lt_leases := ls\<rparr>))"

definition consume_lease ::
    "string \<Rightarrow> LocalAction \<Rightarrow> string \<Rightarrow> timestamp \<Rightarrow> local_store \<Rightarrow> (local_error + CapabilityLease option) \<times> local_store" where
  "consume_lease i a resource now st =
     (case consume_leases_atomically i [\<lparr>lu_action = a, lu_resource = resource\<rparr>] now st of
        (Inl err, st') \<Rightarrow> (Inl err, st')
      | (Inr (Consumed_leases ls), st') \<Rightarrow> (Inr (if ls = [] then None else Some (List.last ls)), st')
      | (Inr (Missing_leases _), st') \<Rightarrow> (Inr None, st'))"

section \<open>Risk\<close>

definition session_risk_state :: "local_store \<Rightarrow> string \<Rightarrow> local_error + RiskState" where
  "session_risk_state st i =
     (case session_of st i of None \<Rightarrow> Inl (LocalNotFound ''local session'') | Some s \<Rightarrow> Inr (sn_risk_state s))"

definition clamp_score :: "nat \<Rightarrow> nat" where
  "clamp_score score = min score (2 ^ 32 - 1)"

definition read_scores :: "local_store \<Rightarrow> string \<Rightarrow> scores" where
  "read_scores st i =
     map (\<lambda>d. (d, clamp_score (sum_list (map sg_weight
              (filter (\<lambda>g. sg_session_id g = i \<and> sg_dimension g = d) (lt_signals st))))))
       (filter (\<lambda>d. list_ex (\<lambda>g. sg_session_id g = i \<and> sg_dimension g = d) (lt_signals st)) dimension_all)"

text \<open>The writes both ways of raising a risk share: the transition, the new state, and the revocation it implies.\<close>

definition raise_risk ::
    "local_env \<Rightarrow> timestamp \<Rightarrow> string \<Rightarrow> RiskState \<Rightarrow> RiskState \<Rightarrow> string \<Rightarrow> string \<Rightarrow> local_store \<Rightarrow> local_store" where
  "raise_risk e wall i previous risk trigger reason st =
     (let t = \<lparr>tn_id = fresh_id e ''rtrn_'' st, tn_session_id = i, tn_at = wall, tn_previous_state = previous,
               tn_new_state = risk, tn_triggering_signals = [trigger]\<rparr>;
          st1 = (id_drawn st)\<lparr>lt_transitions := lt_transitions st @ [t]\<rparr>;
          st2 = update_session i (\<lambda>s. s\<lparr>sn_risk_state := risk\<rparr>) st1
      in if revokes_leases risk then snd (revoke_session_leases e wall i reason st2) else st2)"

definition record_risk_signal ::
    "local_env \<Rightarrow> timestamp \<Rightarrow> string \<Rightarrow> RiskDimension \<Rightarrow> nat \<Rightarrow> string option \<Rightarrow> string \<Rightarrow> local_store
      \<Rightarrow> (local_error + RiskState) \<times> local_store" where
  "record_risk_signal e wall i d weight source note st =
     (if weight = 0 \<or> MAX_SIGNAL_WEIGHT < weight then (Inl (LocalInvalidValue ''weight''), st)
      else case session_risk_state st i of
             Inl err \<Rightarrow> (Inl err, st)
           | Inr previous \<Rightarrow>
               (let g = \<lparr>sg_id = fresh_id e ''rsig_'' st, sg_session_id = i, sg_at = wall, sg_dimension = d,
                         sg_weight = weight, sg_source_event_id = source, sg_note = excerpt_500 e note\<rparr>;
                    st1 = (id_drawn st)\<lparr>lt_signals := lt_signals st @ [g]\<rparr>;
                    risk = max (aggregate_state (read_scores st1 i)) previous
                in (Inr risk,
                    if risk \<noteq> previous
                    then raise_risk e wall i previous risk (sg_id g) (''session risk reached '' @ risk_as_str risk) st1
                    else st1)))"

definition escalate_risk_to ::
    "local_env \<Rightarrow> timestamp \<Rightarrow> string \<Rightarrow> RiskState \<Rightarrow> string \<Rightarrow> local_store \<Rightarrow> (local_error + RiskState) \<times> local_store" where
  "escalate_risk_to e wall i target reason st =
     (case session_risk_state st i of
        Inl err \<Rightarrow> (Inl err, st)
      | Inr previous \<Rightarrow>
          if target \<le> previous then (Inr previous, st)
          else (Inr target,
                raise_risk e wall i previous target (''response: '' @ excerpt_500 e reason) (excerpt_500 e reason) st))"

text \<open>Reading the clock and reporting a material regression against the session.\<close>

definition observe_now_reporting ::
    "local_env \<Rightarrow> timestamp \<Rightarrow> string \<Rightarrow> local_store \<Rightarrow> (local_error + ClockReading) \<times> local_store" where
  "observe_now_reporting e wall i st =
     (let (r, st1) = observe_now wall st
      in if is_significant_regression r then
           (case rule_for_label ''clock_regression'' of
              None \<Rightarrow> (Inr r, st1)
            | Some rule \<Rightarrow>
                (case record_detection e wall i rule
                        (JObj [(''regressed_by_seconds'', JInt (cr_regressed_by_seconds r)),
                               (''wall_clock'', JStr (lv_rfc3339 e (cr_wall r))),
                               (''effective_time'', JStr (lv_rfc3339 e (cr_now r))),
                               (''authority_resurrected'', JBool False)]) None st1 of
                   (Inl err, st2) \<Rightarrow> (Inl err, st2)
                 | (Inr _, st2) \<Rightarrow>
                     (case record_risk_signal e wall i (rl_dimension rule) (rl_weight rule) None (rl_description rule) st2 of
                        (Inl err, st3) \<Rightarrow> (Inl err, st3)
                      | (Inr _, st3) \<Rightarrow> (Inr r, st3))))
         else (Inr r, st1))"

section \<open>Incidents\<close>

definition open_incident ::
    "local_env \<Rightarrow> timestamp \<Rightarrow> string \<Rightarrow> DetectionSeverity \<Rightarrow> string \<Rightarrow> local_store \<Rightarrow> (local_error + Incident) \<times> local_store" where
  "open_incident e wall i severity reason0 st =
     (let reason = excerpt_500 e reason0
      in case find (\<lambda>c. ic_session_id c = i \<and> ic_status c = IncidentOpen) (lt_incidents st) of
           Some existing \<Rightarrow>
             (let worse = (\<lambda>c. if ic_incident_id c = ic_incident_id existing \<and> ic_severity existing < severity
                              then c\<lparr>ic_severity := severity,
                                     ic_reason := excerpt_500 e (ic_reason existing @ ''; escalated by: '' @ reason)\<rparr>
                              else c)
              in (Inr (worse existing), st\<lparr>lt_incidents := map worse (lt_incidents st)\<rparr>))
         | None \<Rightarrow>
             (case session_risk_state st i of
                Inl err \<Rightarrow> (Inl err, st)
              | Inr risk \<Rightarrow>
                  (let c = \<lparr>ic_incident_id = fresh_id e ''inc_'' st, ic_session_id = i, ic_opened_at = wall,
                            ic_sealed_at = None, ic_severity = severity, ic_status = IncidentOpen, ic_reason = reason,
                            ic_risk_state_at_open = risk\<rparr>
                   in (Inr c, (id_drawn st)\<lparr>lt_incidents := lt_incidents st @ [c]\<rparr>))))"

definition attach_detections :: "string \<Rightarrow> string \<Rightarrow> local_store \<Rightarrow> local_store" where
  "attach_detections incident_id i st =
     st\<lparr>lt_detections := map (\<lambda>d. if dt_session_id d = i \<and> dt_incident_id d = None
                                  then d\<lparr>dt_incident_id := Some incident_id\<rparr> else d) (lt_detections st)\<rparr>"

definition get_incident :: "local_store \<Rightarrow> string \<Rightarrow> Incident option" where
  "get_incident st incident_id = find (\<lambda>c. ic_incident_id c = incident_id) (lt_incidents st)"

definition seal_incident :: "timestamp \<Rightarrow> string \<Rightarrow> local_store \<Rightarrow> (local_error + Incident) \<times> local_store" where
  "seal_incident wall incident_id st =
     (let st1 = st\<lparr>lt_incidents := map (\<lambda>c. if ic_incident_id c = incident_id \<and> ic_status c = IncidentOpen
                                         then c\<lparr>ic_status := IncidentSealed, ic_sealed_at := Some wall\<rparr> else c)
                                   (lt_incidents st)\<rparr>
      in case get_incident st1 incident_id of
           None \<Rightarrow> (Inl (LocalNotFound (''incident '' @ incident_id)), st1)
         | Some c \<Rightarrow> (Inr c, st1))"

fun response_text :: "ResponseAction \<Rightarrow> string" where
  "response_text RevokeCapabilities = ''REVOKE_CAPABILITIES''"
| "response_text RestrictSession = ''RESTRICT_SESSION''"
| "response_text QuarantineSession = ''QUARANTINE_SESSION''"
| "response_text SealSession = ''SEAL_SESSION''"
| "response_text TerminateProcessTree = ''TERMINATE_PROCESS_TREE''"

fun outcome_event_text :: "ResponseOutcome \<Rightarrow> string" where
  "outcome_event_text ResponseApplied = ''APPLIED''"
| "outcome_event_text ResponseAlreadyApplied = ''ALREADY_APPLIED''"
| "outcome_event_text ResponseRefused = ''REFUSED''"

text \<open>What terminating a process tree reports: how many processes were stopped, had exited, or were refused.\<close>

record TerminationReport =
  tr_terminated :: nat
  tr_already_exited :: nat
  tr_refused :: nat
  tr_records :: "json list"

definition termination_outcome :: "TerminationReport \<Rightarrow> ResponseOutcome" where
  "termination_outcome r =
     (if tr_records r = [] then ResponseAlreadyApplied
      else if tr_terminated r = 0 \<and> 0 < tr_refused r then ResponseRefused else ResponseApplied)"

definition perform_response ::
    "local_env \<Rightarrow> timestamp \<Rightarrow> TerminationReport \<Rightarrow> Incident \<Rightarrow> LocalSession \<Rightarrow> ResponseAction \<Rightarrow> local_store
      \<Rightarrow> (local_error + (ResponseOutcome \<times> json)) \<times> local_store" where
  "perform_response e wall report c s act st =
     (let i = ic_session_id c; risk = sn_risk_state s
      in case act of
           RevokeCapabilities \<Rightarrow>
             (let (revoked, st') = revoke_session_leases e wall i (''incident '' @ ic_incident_id c) st
              in (Inr (if revoked = 0 then ResponseAlreadyApplied else ResponseApplied,
                       JObj [(''leases_revoked'', JInt (int revoked))]), st'))
         | SealSession \<Rightarrow>
             (if sn_status s = SessionSealed
              then (Inr (ResponseAlreadyApplied, JObj [(''status'', JStr ''sealed'')]), st)
              else case seal_session wall i risk st of
                     (Inl err, st') \<Rightarrow> (Inl err, st')
                   | (Inr _, st') \<Rightarrow>
                       (Inr (ResponseApplied, JObj [(''status'', JStr ''sealed''), (''risk_state'', JStr (risk_as_str risk))]), st'))
         | TerminateProcessTree \<Rightarrow>
             (Inr (termination_outcome report,
                   JObj [(''terminated'', JInt (int (tr_terminated report))),
                         (''already_exited'', JInt (int (tr_already_exited report))),
                         (''refused'', JInt (int (tr_refused report))), (''records'', JArr (tr_records report))]), st)
         | _ \<Rightarrow>
             (let target = (if act = QuarantineSession then RiskQuarantined else RiskContained)
              in if target \<le> risk
                 then (Inr (ResponseAlreadyApplied, JObj [(''risk_state'', JStr (risk_as_str risk))]), st)
                 else case escalate_risk_to e wall i target
                             (''incident '' @ ic_incident_id c @ '' response '' @ response_text act) st of
                        (Inl err, st') \<Rightarrow> (Inl err, st')
                      | (Inr reached, st') \<Rightarrow>
                          (Inr (ResponseApplied,
                                JObj [(''risk_state_before'', JStr (risk_as_str risk)),
                                      (''risk_state'', JStr (risk_as_str reached))]), st')))"

definition apply_response ::
    "local_env \<Rightarrow> timestamp \<Rightarrow> TerminationReport \<Rightarrow> string \<Rightarrow> ResponseAction \<Rightarrow> local_store
      \<Rightarrow> (local_error + IncidentResponse) \<times> local_store" where
  "apply_response e wall report incident_id act st =
     (case get_incident st incident_id of
        None \<Rightarrow> (Inl (LocalNotFound (''incident '' @ incident_id)), st)
      | Some c \<Rightarrow>
          (case session_of st (ic_session_id c) of
             None \<Rightarrow> (Inl (LocalNotFound ''local session''), st)
           | Some s \<Rightarrow>
               (case perform_response e wall report c s act st of
                  (Inl err, st1) \<Rightarrow> (Inl err, st1)
                | (Inr (outcome, detail), st1) \<Rightarrow>
                    (let r = \<lparr>ir_id = fresh_id e ''rsp_'' st1, ir_incident_id = incident_id, ir_at = wall, ir_action = act,
                              ir_outcome = outcome, ir_detail = detail\<rparr>;
                         st2 = (id_drawn st1)\<lparr>lt_responses := lt_responses st1 @ [r]\<rparr>
                     in case append_event e wall (ic_session_id c) ''incident'' ''incident.response''
                               (Some (outcome_event_text outcome)) incident_id
                               (JObj [(''incident_id'', JStr incident_id), (''action'', JStr (response_text act)),
                                      (''detail'', detail)]) st2 of
                          (Inl err, st3) \<Rightarrow> (Inl err, st3)
                        | (Inr _, st3) \<Rightarrow> (Inr r, st3)))))"

end
