(* ===== verification/LocalAuthorize.thy ===== *)
theory LocalAuthorize
  imports LocalStore
begin

text \<open>
  Approvals by a human (\<^verbatim>\<open>vigil-local/src/approval.rs\<close>) and the seam where a decision of the local policy meets
  the session that asked (\<^verbatim>\<open>authorize.rs\<close>): risk, leases, deception resources, detections and requests for
  approval, in the order of the code.
\<close>

section \<open>Approvals\<close>

definition APPROVAL_TTL_SECONDS :: int where "APPROVAL_TTL_SECONDS = 900"
definition PROBING_SIGNAL_WEIGHT :: nat where "PROBING_SIGNAL_WEIGHT = 20"
definition FATIGUE_SIGNAL_WEIGHT :: nat where "FATIGUE_SIGNAL_WEIGHT = 20"
definition FATIGUE_THRESHOLD :: nat where "FATIGUE_THRESHOLD = 8"
definition FATIGUE_WINDOW_SECONDS :: int where "FATIGUE_WINDOW_SECONDS = 300"

definition approver_char :: "char \<Rightarrow> bool" where
  "approver_char c = (is_ascii_alphanumeric c \<or> c \<in> set ''._:-@'')"

definition from_cli_operator :: "string \<Rightarrow> local_error + string" where
  "from_cli_operator identity =
     (let trimmed = trim identity
      in if trimmed = [] \<or> 128 < str_len trimmed \<or> \<not> list_all approver_char trimmed
         then Inl (LocalInvalidValue ''approver'') else Inr trimmed)"

definition approval_is_actionable :: "LocalApproval \<Rightarrow> timestamp \<Rightarrow> bool" where
  "approval_is_actionable q now = (lq_status q = RequestPending \<and> now < lq_expires_at q)"

datatype ApprovalOutcome =
    ApprovalCreated LocalApproval
  | AlreadyPending LocalApproval
  | PreviouslyDenied LocalApproval RiskState

definition approval_fingerprint :: "local_env \<Rightarrow> string \<Rightarrow> LocalAction \<Rightarrow> string \<Rightarrow> local_error + string" where
  "approval_fingerprint e i a resolved =
     (case hash_canonical_json (lv_format e) (lv_sha e)
             (JObj [(''session_id'', JStr i), (''action'', JStr (local_action_as_str a)),
                    (''resolved_resource'', JStr resolved)]) of
        Inl err \<Rightarrow> Inl (LocalNotCanonical err)
      | Inr h \<Rightarrow> Inr (hash_display h))"

record CapabilityAsk =
  ak_session_id :: string
  ak_action :: LocalAction
  ak_requested_resource :: string
  ak_resolved_resource :: string
  ak_determining_policy :: string
  ak_reason :: string

text \<open>The newest request with a fingerprint and a status.\<close>

definition find_by_fingerprint :: "string \<Rightarrow> ApprovalStatus \<Rightarrow> local_store \<Rightarrow> LocalApproval option" where
  "find_by_fingerprint fp status st =
     (case sort_key (\<lambda>q. - lq_requested_at q)
             (filter (\<lambda>q. lq_fingerprint q = fp \<and> lq_status q = status) (lt_approvals st)) of
        [] \<Rightarrow> None | q # _ \<Rightarrow> Some q)"

definition note_if_ruled ::
    "local_env \<Rightarrow> timestamp \<Rightarrow> string \<Rightarrow> string \<Rightarrow> json \<Rightarrow> local_store \<Rightarrow> (local_error + unit) \<times> local_store" where
  "note_if_ruled e wall i label evidence st =
     (case rule_for_label label of
        None \<Rightarrow> (Inr (), st)
      | Some rule \<Rightarrow>
          (case record_detection e wall i rule evidence None st of
             (Inl err, st') \<Rightarrow> (Inl err, st')
           | (Inr _, st') \<Rightarrow> (Inr (), st')))"

definition new_request :: "local_env \<Rightarrow> CapabilityAsk \<Rightarrow> timestamp \<Rightarrow> string \<Rightarrow> RiskState \<Rightarrow> local_store \<Rightarrow> LocalApproval" where
  "new_request e ask now fp risk st =
     \<lparr>lq_approval_id = fresh_id e ''apr_'' st, lq_session_id = ak_session_id ask, lq_requested_at = now,
      lq_expires_at = now + seconds APPROVAL_TTL_SECONDS, lq_action = ak_action ask,
      lq_requested_resource = excerpt_500 e (ak_requested_resource ask), lq_resolved_resource = ak_resolved_resource ask,
      lq_determining_policy = ak_determining_policy ask, lq_reason = excerpt_500 e (ak_reason ask),
      lq_risk_state_at_request = risk, lq_fingerprint = fp, lq_status = RequestPending, lq_decided_at = None,
      lq_decided_by = None, lq_note = None, lq_lease_id = None\<rparr>"

definition retire_expired :: "timestamp \<Rightarrow> string \<Rightarrow> string \<Rightarrow> LocalApproval \<Rightarrow> LocalApproval" where
  "retire_expired now i fp q =
     (if lq_session_id q = i \<and> lq_fingerprint q = fp \<and> lq_status q = RequestPending \<and> lq_expires_at q \<le> now
      then q\<lparr>lq_status := RequestDenied, lq_decided_at := Some now, lq_note := Some ''expired without a human decision''\<rparr>
      else q)"

text \<open>
  One transaction: an expired pending request with the fingerprint is retired, the new one is inserted. The
  unique index over pending requests refuses the insertion when a live one is there.
\<close>

definition insert_request :: "timestamp \<Rightarrow> LocalApproval \<Rightarrow> local_store \<Rightarrow> (local_error + nat) \<times> local_store" where
  "insert_request now q st =
     (let retired = map (retire_expired now (lq_session_id q) (lq_fingerprint q)) (lt_approvals st)
      in if session_of st (lq_session_id q) = None \<or>
            list_ex (\<lambda>p. lq_session_id p = lq_session_id q \<and> lq_fingerprint p = lq_fingerprint q \<and>
                        lq_status p = RequestPending) retired
         then (Inl LocalStorage, st)
         else (Inr (length (filter (\<lambda>p. lq_session_id p = lq_session_id q \<and>
                       now - seconds FATIGUE_WINDOW_SECONDS < lq_requested_at p) (retired @ [q]))),
               (id_drawn st)\<lparr>lt_approvals := retired @ [q]\<rparr>))"

definition report_fatigue ::
    "local_env \<Rightarrow> timestamp \<Rightarrow> LocalApproval \<Rightarrow> nat \<Rightarrow> local_store \<Rightarrow> (local_error + unit) \<times> local_store" where
  "report_fatigue e wall q recent st =
     (let i = lq_session_id q;
          counts = [(''requests_in_window'', JInt (int recent)), (''window_seconds'', JInt FATIGUE_WINDOW_SECONDS),
                    (''threshold'', JInt (int FATIGUE_THRESHOLD))]
      in case note_if_ruled e wall i ''approval_fatigue'' (JObj counts) st of
           (Inl err, st1) \<Rightarrow> (Inl err, st1)
         | (Inr _, st1) \<Rightarrow>
             (case record_risk_signal e wall i DimCapabilityAnomaly FATIGUE_SIGNAL_WEIGHT None
                     ''generated approval requests faster than an operator can answer them'' st1 of
                (Inl err, st2) \<Rightarrow> (Inl err, st2)
              | (Inr risk, st2) \<Rightarrow>
                  (case append_event e wall i ''approval'' ''approval.fatigue'' (Some ''DETECTED'') (lq_approval_id q)
                          (JObj ((''detection'', JStr ''approval_fatigue'') # counts @
                                 [(''risk_state'', JStr (risk_as_str risk))])) st2 of
                     (Inl err, st3) \<Rightarrow> (Inl err, st3)
                   | (Inr _, st3) \<Rightarrow> (Inr (), st3))))"

definition request_local_approval ::
    "local_env \<Rightarrow> timestamp \<Rightarrow> CapabilityAsk \<Rightarrow> timestamp \<Rightarrow> local_store
      \<Rightarrow> (local_error + ApprovalOutcome) \<times> local_store" where
  "request_local_approval e wall ask now st =
     (let i = ak_session_id ask
      in case approval_fingerprint e i (ak_action ask) (ak_resolved_resource ask) of
           Inl err \<Rightarrow> (Inl err, st)
         | Inr fp \<Rightarrow>
             (case session_risk_state st i of
                Inl err \<Rightarrow> (Inl err, st)
              | Inr risk \<Rightarrow>
                  (case find_by_fingerprint fp RequestDenied st of
                     Some refused \<Rightarrow>
                       (case note_if_ruled e wall i ''capability_escalation_probing''
                               (JObj [(''action'', JStr (local_action_as_str (ak_action ask))),
                                      (''resolved_resource'', JStr (ak_resolved_resource ask)),
                                      (''refused_approval_id'', JStr (lq_approval_id refused))]) st of
                          (Inl err, st1) \<Rightarrow> (Inl err, st1)
                        | (Inr _, st1) \<Rightarrow>
                            (case record_risk_signal e wall i DimPolicyEvasion PROBING_SIGNAL_WEIGHT None
                                    ''re-requested a capability a human already refused'' st1 of
                               (Inl err, st2) \<Rightarrow> (Inl err, st2)
                             | (Inr risk', st2) \<Rightarrow> (Inr (PreviouslyDenied refused risk'), st2)))
                   | None \<Rightarrow>
                       (case (case find_by_fingerprint fp RequestPending st of
                                None \<Rightarrow> None
                              | Some pending \<Rightarrow> if approval_is_actionable pending now then Some pending else None) of
                          Some pending \<Rightarrow> (Inr (AlreadyPending pending), st)
                        | None \<Rightarrow>
                            (let q = new_request e ask now fp risk st
                             in case insert_request now q st of
                                  (Inl err, st1) \<Rightarrow> (Inl err, st1)
                                | (Inr recent, st1) \<Rightarrow>
                                    if FATIGUE_THRESHOLD \<le> recent
                                    then (case report_fatigue e wall q recent st1 of
                                            (Inl err, st2) \<Rightarrow> (Inl err, st2)
                                          | (Inr _, st2) \<Rightarrow> (Inr (ApprovalCreated q), st2))
                                    else (Inr (ApprovalCreated q), st1))))))"

definition read_request :: "local_store \<Rightarrow> string \<Rightarrow> local_error + LocalApproval" where
  "read_request st approval_id =
     (case find (\<lambda>q. lq_approval_id q = approval_id) (lt_approvals st) of
        None \<Rightarrow> Inl (LocalNotFound (''approval '' @ approval_id)) | Some q \<Rightarrow> Inr q)"

definition decide_request ::
    "string \<Rightarrow> (LocalApproval \<Rightarrow> LocalApproval) \<Rightarrow> local_store \<Rightarrow> local_store" where
  "decide_request approval_id f st =
     st\<lparr>lt_approvals := map (\<lambda>q. if lq_approval_id q = approval_id \<and> lq_status q = RequestPending then f q else q)
                          (lt_approvals st)\<rparr>"

text \<open>\<^verbatim>\<open>grant_approval\<close>; the approver is an identity that \<open>from_cli_operator\<close> accepted.\<close>

definition grant_approval ::
    "local_env \<Rightarrow> string \<Rightarrow> string \<Rightarrow> nat \<Rightarrow> int \<Rightarrow> string option \<Rightarrow> timestamp \<Rightarrow> local_store
      \<Rightarrow> (local_error + CapabilityLease) \<times> local_store" where
  "grant_approval e approval_id approver max_uses ttl note now st =
     (if max_uses = 0 \<or> MAX_LEASE_USES < max_uses then (Inl (LocalInvalidValue ''max_uses''), st)
      else if ttl \<le> 0 \<or> MAX_LEASE_TTL_SECONDS < ttl then (Inl (LocalInvalidValue ''ttl_seconds''), st)
      else case read_request st approval_id of
             Inl err \<Rightarrow> (Inl err, st)
           | Inr q \<Rightarrow>
               if lq_status q \<noteq> RequestPending then (Inl (LocalInvalidRequest ''approval is already decided''), st)
               else if lq_expires_at q \<le> now then (Inl (LocalInvalidRequest ''approval expired''), st)
               else case session_risk_state st (lq_session_id q) of
                      Inl err \<Rightarrow> (Inl err, st)
                    | Inr risk \<Rightarrow>
                        if revokes_leases risk then (Inl (LocalUnauthorized ''session is contained''), st)
                        else case issue_lease e \<lparr>lg_session_id = lq_session_id q, lg_approval_id = lq_approval_id q,
                                      lg_action = lq_action q, lg_resource = lq_resolved_resource q,
                                      lg_max_uses = max_uses, lg_ttl_seconds = ttl\<rparr> now st of
                               (Inl err, _) \<Rightarrow> (Inl err, st)
                             | (Inr l, st1) \<Rightarrow>
                                 (Inr l, decide_request approval_id
                                    (\<lambda>q. q\<lparr>lq_status := RequestGranted, lq_decided_at := Some now,
                                           lq_decided_by := Some approver, lq_note := map_option (excerpt_500 e) note,
                                           lq_lease_id := Some (cl_lease_id l)\<rparr>) st1))"

definition deny_approval ::
    "local_env \<Rightarrow> string \<Rightarrow> string \<Rightarrow> string option \<Rightarrow> timestamp \<Rightarrow> local_store
      \<Rightarrow> (local_error + LocalApproval) \<times> local_store" where
  "deny_approval e approval_id approver note now st =
     (case read_request st approval_id of
        Inl err \<Rightarrow> (Inl err, st)
      | Inr q \<Rightarrow>
          if lq_status q \<noteq> RequestPending then (Inl (LocalInvalidRequest ''approval is already decided''), st)
          else let st1 = decide_request approval_id
                     (\<lambda>q. q\<lparr>lq_status := RequestDenied, lq_decided_at := Some now, lq_decided_by := Some approver,
                            lq_note := map_option (excerpt_500 e) note\<rparr>) st
               in case read_request st1 approval_id of
                    Inl err \<Rightarrow> (Inl err, st)
                  | Inr updated \<Rightarrow> (Inr updated, st1))"

section \<open>Authorization\<close>

record LocalAuthorization =
  la_decision :: LocalDecision
  la_lease :: "CapabilityLease option"
  la_approval :: "ApprovalOutcome option"
  la_risk_state :: RiskState

definition authorization_permits :: "LocalAuthorization \<Rightarrow> bool" where
  "authorization_permits r = local_permits_execution (la_decision r)"

fun outcome_text :: "LocalOutcome \<Rightarrow> string" where
  "outcome_text LocalAllow = ''ALLOW''"
| "outcome_text LocalDeny = ''DENY''"
| "outcome_text LocalRequireApproval = ''REQUIRE_APPROVAL''"
| "outcome_text LocalObserve = ''OBSERVE''"

text \<open>A detection and the risk it loads; a session it contains, or a critical one, opens an incident.\<close>

definition open_and_attach ::
    "local_env \<Rightarrow> timestamp \<Rightarrow> string \<Rightarrow> DetectionSeverity \<Rightarrow> string \<Rightarrow> local_store \<Rightarrow> (local_error + unit) \<times> local_store" where
  "open_and_attach e wall i severity reason st =
     (case open_incident e wall i severity reason st of
        (Inl err, st1) \<Rightarrow> (Inl err, st1)
      | (Inr c, st1) \<Rightarrow> (Inr (), attach_detections (ic_incident_id c) i st1))"

definition fire_detection ::
    "local_env \<Rightarrow> timestamp \<Rightarrow> string \<Rightarrow> LocalDecision \<Rightarrow> local_store \<Rightarrow> (local_error + RiskState option) \<times> local_store" where
  "fire_detection e wall i d st =
     (case ld_detection d of
        None \<Rightarrow> (Inr None, st)
      | Some label \<Rightarrow>
          (case rule_for_label label of
             None \<Rightarrow> (Inr None, st)
           | Some rule \<Rightarrow>
               (case record_detection e wall i rule
                       (JObj [(''action'', JStr (ld_action d)), (''resolved_resource'', optional_text (ld_resolved_resource d)),
                              (''determining_policy'', JStr (ld_determining_policy d)), (''label'', JStr label)]) None st of
                  (Inl err, st1) \<Rightarrow> (Inl err, st1)
                | (Inr det, st1) \<Rightarrow>
                    (case record_risk_signal e wall i (rl_dimension rule) (rl_weight rule) None (rl_description rule) st1 of
                       (Inl err, st2) \<Rightarrow> (Inl err, st2)
                     | (Inr risk, st2) \<Rightarrow>
                         if DetCritical \<le> rl_severity rule \<or> revokes_leases risk
                         then (case open_and_attach e wall i (rl_severity rule)
                                      (rl_name rule @ '' ('' @ dt_detection_id det @ '')'') st2 of
                                 (Inl err, st3) \<Rightarrow> (Inl err, st3)
                               | (Inr _, st3) \<Rightarrow> (Inr (Some risk), st3))
                         else (Inr (Some risk), st2)))))"

definition canary_at :: "local_store \<Rightarrow> string \<Rightarrow> string \<Rightarrow> Canary option" where
  "canary_at st i resolved =
     find (\<lambda>c. cn_session_id c = i \<and> cn_path c = resolved \<and> cn_removed_at c = None) (lt_canaries st)"

definition touch_canary ::
    "local_env \<Rightarrow> timestamp \<Rightarrow> string \<Rightarrow> string option \<Rightarrow> LocalDecision \<Rightarrow> RiskState \<Rightarrow> local_store
      \<Rightarrow> (local_error + RiskState) \<times> local_store" where
  "touch_canary e wall i key d risk st =
     (case key of
        None \<Rightarrow> (Inr risk, st)
      | Some k \<Rightarrow>
          (case canary_at st i k of
             None \<Rightarrow> (Inr risk, st)
           | Some c \<Rightarrow>
               (case rule_for_label ''deception_resource_access'' of
                  None \<Rightarrow> (Inr risk, st)
                | Some rule \<Rightarrow>
                    (case record_detection e wall i rule
                            (JObj [(''canary_id'', JStr (cn_canary_id c)), (''kind'', JStr (cn_kind c)),
                                   (''path'', JStr (cn_path c)), (''action'', JStr (ld_action d)),
                                   (''outcome'', JStr (outcome_text (ld_outcome d)))]) None st of
                       (Inl err, st1) \<Rightarrow> (Inl err, st1)
                     | (Inr _, st1) \<Rightarrow>
                         (case record_risk_signal e wall i (rl_dimension rule) (rl_weight rule) None (rl_description rule) st1 of
                            (Inl err, st2) \<Rightarrow> (Inl err, st2)
                          | (Inr risk', st2) \<Rightarrow>
                              if revokes_leases risk'
                              then (case open_and_attach e wall i (rl_severity rule)
                                           (rl_name rule @ '' ('' @ cn_canary_id c @ '')'') st2 of
                                      (Inl err, st3) \<Rightarrow> (Inl err, st3)
                                    | (Inr _, st3) \<Rightarrow> (Inr risk', st3))
                              else (Inr risk', st2))))))"

text \<open>A lease is spent only when spending it changes the answer.\<close>

definition spend_lease ::
    "string \<Rightarrow> LocalAction \<Rightarrow> LocalDecision \<Rightarrow> string option \<Rightarrow> RiskState \<Rightarrow> timestamp \<Rightarrow> local_store
      \<Rightarrow> (local_error + CapabilityLease option) \<times> local_store" where
  "spend_lease i a base key risk now st =
     (case key of
        None \<Rightarrow> (Inr None, st)
      | Some k \<Rightarrow>
          if ld_outcome base = LocalRequireApproval \<and>
             ld_outcome (apply_session_state base a risk LeasePresent) = LocalAllow
          then consume_lease i a k now st else (Inr None, st))"

definition ask_approval ::
    "local_env \<Rightarrow> timestamp \<Rightarrow> string \<Rightarrow> LocalAction \<Rightarrow> string \<Rightarrow> string option \<Rightarrow> LocalDecision \<Rightarrow> timestamp \<Rightarrow> local_store
      \<Rightarrow> (local_error + ApprovalOutcome option) \<times> local_store" where
  "ask_approval e wall i a requested key d now st =
     (case key of
        None \<Rightarrow> (Inr None, st)
      | Some k \<Rightarrow>
          if ld_outcome d \<noteq> LocalRequireApproval then (Inr None, st)
          else case request_local_approval e wall
                      \<lparr>ak_session_id = i, ak_action = a, ak_requested_resource = requested, ak_resolved_resource = k,
                       ak_determining_policy = ld_determining_policy d, ak_reason = ld_reason d\<rparr> now st of
                 (Inl err, st1) \<Rightarrow> (Inl err, st1)
               | (Inr oc, st1) \<Rightarrow> (Inr (Some oc), st1))"

definition authorize_decision ::
    "local_env \<Rightarrow> timestamp \<Rightarrow> string \<Rightarrow> LocalAction \<Rightarrow> string \<Rightarrow> LocalDecision \<Rightarrow> string option \<Rightarrow> local_store
      \<Rightarrow> (local_error + LocalAuthorization) \<times> local_store" where
  "authorize_decision e wall i a requested base key st =
     (case observe_now_reporting e wall i st of
        (Inl err, st1) \<Rightarrow> (Inl err, st1)
      | (Inr reading, st1) \<Rightarrow>
     (case session_risk_state st1 i of
        Inl err \<Rightarrow> (Inl err, st1)
      | Inr risk \<Rightarrow>
     (case spend_lease i a base key risk (cr_now reading) st1 of
        (Inl err, st2) \<Rightarrow> (Inl err, st2)
      | (Inr lease, st2) \<Rightarrow>
     (let d = apply_session_state base a risk (if lease = None then LeaseAbsent else LeasePresent)
      in case touch_canary e wall i key d risk st2 of
        (Inl err, st3) \<Rightarrow> (Inl err, st3)
      | (Inr risk1, st3) \<Rightarrow>
     (case (if ld_outcome d = LocalDeny then fire_detection e wall i d st3 else (Inr None, st3)) of
        (Inl err, st4) \<Rightarrow> (Inl err, st4)
      | (Inr fired, st4) \<Rightarrow>
     (case ask_approval e wall i a requested key d (cr_now reading) st4 of
        (Inl err, st5) \<Rightarrow> (Inl err, st5)
      | (Inr approval, st5) \<Rightarrow>
          (Inr \<lparr>la_decision = d, la_lease = lease, la_approval = approval,
                la_risk_state = (case approval of
                                   Some (PreviouslyDenied _ after) \<Rightarrow> after
                                 | _ \<Rightarrow> (case fired of None \<Rightarrow> risk1 | Some after \<Rightarrow> after))\<rparr>, st5)))))))"

definition authorize_local ::
    "local_env \<Rightarrow> local_host \<Rightarrow> timestamp \<Rightarrow> string \<Rightarrow> LocalProfile \<Rightarrow> string \<Rightarrow> LocalAction \<Rightarrow> string \<Rightarrow> local_store
      \<Rightarrow> (local_error + LocalAuthorization) \<times> local_store" where
  "authorize_local e h wall i profile workspace a requested st =
     (let base = local_evaluate h profile workspace a requested
      in authorize_decision e wall i a requested base (ld_resolved_resource base) st)"

end
