(* ===== verification/LocalSafety.thy ===== *)
theory LocalSafety
  imports LocalAuthorize
begin

text \<open>
  What holds of the authority the local control plane hands out, over every sequence of its operations: leases
  are backed by a human decision, short and few; risk does not fall; the clock does not go back by a second;
  several leases are spent together or not at all.
\<close>

section \<open>What every operation keeps\<close>

text \<open>
  A lease is backed by a request that an operator granted for the same session, action and resource; it is
  short, of few uses and not delegable; and while it is active its session is not contained.
\<close>

definition lease_backed :: "LocalApproval list \<Rightarrow> CapabilityLease \<Rightarrow> bool" where
  "lease_backed qs l \<longleftrightarrow> (\<exists>q\<in>set qs. lq_status q = RequestGranted \<and> lq_decided_by q \<noteq> None \<and>
     lq_lease_id q = Some (cl_lease_id l) \<and> lq_session_id q = cl_session_id l \<and> lq_action q = cl_action l \<and>
     lq_resolved_resource q = cl_resource l \<and> lq_decided_at q = Some (cl_issued_at l) \<and> cl_issued_at l < lq_expires_at q)"

definition lease_narrow :: "CapabilityLease \<Rightarrow> bool" where
  "lease_narrow l \<longleftrightarrow> cl_uses_remaining l \<le> cl_max_uses l \<and> cl_max_uses l \<le> MAX_LEASE_USES \<and> \<not> cl_delegable l \<and>
     cl_expires_at l \<le> cl_issued_at l + seconds MAX_LEASE_TTL_SECONDS"

definition session_open :: "local_store \<Rightarrow> string \<Rightarrow> bool" where
  "session_open st i \<longleftrightarrow> (\<exists>risk. session_risk_state st i = Inr risk \<and> \<not> revokes_leases risk)"

definition lease_inv :: "local_store \<Rightarrow> bool" where
  "lease_inv st \<longleftrightarrow> (\<forall>l\<in>set (lt_leases st). lease_backed (lt_approvals st) l \<and> lease_narrow l \<and>
     (cl_status l = LeaseActive \<longrightarrow> session_open st (cl_session_id l)))"

text \<open>What may change between two states: risk rises, the clock does not go back, granted requests stay.\<close>

definition store_le :: "local_store \<Rightarrow> local_store \<Rightarrow> bool" where
  "store_le st st' \<longleftrightarrow>
     (\<forall>i risk. session_risk_state st i = Inr risk \<longrightarrow> (\<exists>risk'. session_risk_state st' i = Inr risk' \<and> risk \<le> risk')) \<and>
     (\<forall>h. lt_high_water st = Some h \<longrightarrow> (\<exists>h'. lt_high_water st' = Some h' \<and> h \<le> h')) \<and>
     (\<forall>q\<in>set (lt_approvals st). lq_status q = RequestGranted \<longrightarrow> q \<in> set (lt_approvals st'))"

definition safe_step :: "local_store \<Rightarrow> local_store \<Rightarrow> bool" where
  "safe_step st st' \<longleftrightarrow> store_le st st' \<and> (lease_inv st \<longrightarrow> lease_inv st')"

lemma store_le_refl [simp]: "store_le st st"
  by (simp add: store_le_def)

lemma store_le_trans: "\<lbrakk>store_le a b; store_le b c\<rbrakk> \<Longrightarrow> store_le a c"
  unfolding store_le_def by (meson order_trans)

lemma safe_refl [simp]: "safe_step st st"
  by (simp add: safe_step_def)

lemma safe_trans: "\<lbrakk>safe_step a b; safe_step b c\<rbrakk> \<Longrightarrow> safe_step a c"
  unfolding safe_step_def by (meson store_le_trans)

text \<open>The part of a store that authority rests on.\<close>

definition same_authority :: "local_store \<Rightarrow> local_store \<Rightarrow> bool" where
  "same_authority st st' \<longleftrightarrow> map (\<lambda>s. (sn_id s, sn_risk_state s)) (lt_sessions st') = map (\<lambda>s. (sn_id s, sn_risk_state s)) (lt_sessions st) \<and>
     lt_leases st' = lt_leases st \<and> lt_approvals st' = lt_approvals st \<and> lt_high_water st' = lt_high_water st"

lemma risk_by_map_of:
  "session_risk_state st i =
     (case map_of (map (\<lambda>s. (sn_id s, sn_risk_state s)) (lt_sessions st)) i of
        None \<Rightarrow> Inl (LocalNotFound ''local session'') | Some risk \<Rightarrow> Inr risk)"
proof -
  have found: "map_of (map (\<lambda>s. (sn_id s, sn_risk_state s)) ss) i = map_option sn_risk_state (find (\<lambda>s. sn_id s = i) ss)" for ss
    by (induction ss) auto
  show ?thesis
    by (cases "find (\<lambda>s. sn_id s = i) (lt_sessions st)") (simp_all add: found session_risk_state_def session_of_def)
qed

lemma same_authority_safe:
  assumes "same_authority st st'" shows "safe_step st st'"
proof -
  have "session_risk_state st' i = session_risk_state st i" for i
    using assms by (simp add: risk_by_map_of same_authority_def)
  then show ?thesis
    using assms by (simp add: safe_step_def store_le_def lease_inv_def session_open_def same_authority_def)
qed

lemma same_authority_refl [simp]: "same_authority st st"
  by (simp add: same_authority_def)

lemma same_authority_drawn [simp]: "same_authority st (id_drawn st)"
  by (simp add: same_authority_def id_drawn_def)

section \<open>Operations that do not touch authority\<close>

lemma same_update_exactly_one:
  assumes "\<And>s. sn_id (f s) = sn_id s \<and> sn_risk_state (f s) = sn_risk_state s"
  shows "same_authority st (snd (update_exactly_one P f st))"
  using assms by (simp add: same_authority_def update_exactly_one_def Let_def)

lemma safe_life_cycle:
  "safe_step st (snd (mark_running i pid st))"
  "safe_step st (snd (activate_semantic_session i st))"
  "safe_step st (snd (finish_session wall i code st))"
  unfolding mark_running_def activate_semantic_session_def finish_session_def
  by (rule same_authority_safe, rule same_update_exactly_one, simp)+

lemma safe_append_event: "safe_step st (snd (append_event e wall i category act decision correlation payload st))"
  by (rule same_authority_safe)
     (simp add: append_event_def Let_def same_authority_def id_drawn_def split: sum.splits)

lemma safe_record_detection: "safe_step st (snd (record_detection e wall i rule evidence source st))"
  by (rule same_authority_safe) (simp add: record_detection_def Let_def same_authority_def id_drawn_def)

lemma safe_open_incident: "safe_step st (snd (open_incident e wall i severity reason st))"
  by (rule same_authority_safe)
     (simp add: open_incident_def Let_def same_authority_def id_drawn_def split: option.splits sum.splits)

lemma safe_attach: "safe_step st (attach_detections incident_id i st)"
  by (rule same_authority_safe) (simp add: attach_detections_def same_authority_def)

lemma safe_seal_incident: "safe_step st (snd (seal_incident wall incident_id st))"
  by (rule same_authority_safe) (simp add: seal_incident_def Let_def same_authority_def split: option.splits)

lemma safe_observe: "safe_step st (snd (observe_now wall st))"
  by (auto simp: observe_now_def safe_step_def store_le_def lease_inv_def session_open_def session_risk_state_def session_of_def
      seconds_def nanos_per_second_def ADVANCE_GRANULARITY_SECONDS_def split: option.splits)

section \<open>Leases\<close>

text \<open>Changes of leases that give nothing.\<close>

definition lease_le :: "CapabilityLease \<Rightarrow> CapabilityLease \<Rightarrow> bool" where
  "lease_le l l' \<longleftrightarrow> cl_lease_id l' = cl_lease_id l \<and> cl_session_id l' = cl_session_id l \<and> cl_action l' = cl_action l \<and>
     cl_resource l' = cl_resource l \<and> cl_issued_at l' = cl_issued_at l \<and> cl_expires_at l' = cl_expires_at l \<and>
     cl_max_uses l' = cl_max_uses l \<and> cl_delegable l' = cl_delegable l \<and> cl_uses_remaining l' \<le> cl_uses_remaining l \<and>
     (cl_status l' = LeaseActive \<longrightarrow> cl_status l = LeaseActive)"

lemma lease_le_refl [simp]: "lease_le l l"
  by (simp add: lease_le_def)

lemma safe_lease_update:
  assumes "list_all2 lease_le (lt_leases st) ls"
  shows "safe_step st (st\<lparr>lt_leases := ls\<rparr>)"
proof -
  have "\<exists>l\<in>set (lt_leases st). lease_le l l'" if "l' \<in> set ls" for l'
    using assms that by (metis in_set_conv_nth list_all2_conv_all_nth)
  then show ?thesis
    by (fastforce simp: safe_step_def store_le_def lease_inv_def session_open_def session_risk_state_def session_of_def
        lease_backed_def lease_narrow_def lease_le_def)
qed

lemma lease_le_map: "(\<And>l. lease_le l (f l)) \<Longrightarrow> list_all2 lease_le ls (map f ls)"
  by (simp add: list_all2_conv_all_nth)

lemma lease_le_trans: "\<lbrakk>lease_le a b; lease_le b c\<rbrakk> \<Longrightarrow> lease_le a c"
  by (auto simp: lease_le_def)

lemma lease_le_revoke: "lease_le l (revoke_lease wall reason l)"
  by (simp add: lease_le_def revoke_lease_def)

lemma lease_le_charge: "lease_le l (exhaust_lease x (charge_lease x now l))"
  by (simp add: lease_le_def exhaust_lease_def charge_lease_def)

lemma safe_revoke: "safe_step st (snd (revoke_session_leases e wall i reason st))"
  by (simp add: revoke_session_leases_def Let_def lease_le_map lease_le_revoke safe_lease_update)

lemma consume_loop_le:
  "consume_loop i now index uses ls consumed missing = Inr (ls', consumed', missing') \<Longrightarrow> list_all2 lease_le ls ls'"
proof (induction i now index uses ls consumed missing rule: consume_loop.induct)
  case (1 i now index ls consumed missing)
  then show ?case by (simp add: list.rel_refl)
next
  case (2 i now index u us ls consumed missing)
  show ?case
  proof (cases "lease_candidate i u now ls")
    case None
    then show ?thesis using 2 by simp
  next
    case (Some x)
    let ?ls = "map (exhaust_lease x) (map (charge_lease x now) ls)"
    have "list_all2 lease_le ls ?ls"
      unfolding map_map by (rule lease_le_map) (simp add: lease_le_charge)
    moreover have "list_all2 lease_le ?ls ls'" using 2 Some by (simp split: if_splits)
    ultimately show ?thesis using list_all2_trans [of lease_le lease_le lease_le] lease_le_trans by blast
  qed
qed

lemma safe_consume_atomically: "safe_step st (snd (consume_leases_atomically i uses now st))"
proof (cases "consume_loop i now 0 uses (lt_leases st) [] []")
  case (Inr y)
  obtain ls consumed missing where y: "y = (ls, consumed, missing)" by (cases y)
  then have "list_all2 lease_le (lt_leases st) ls" using consume_loop_le Inr by blast
  then show ?thesis by (simp add: consume_leases_atomically_def Inr y safe_lease_update split: sum.splits)
qed (simp add: consume_leases_atomically_def)

lemma safe_consume: "safe_step st (snd (consume_lease i a k now st))"
  using safe_consume_atomically [of st i "[\<lparr>lu_action = a, lu_resource = k\<rparr>]" now]
  by (auto simp: consume_lease_def split: prod.splits sum.splits AtomicLeaseConsumption.splits)

section \<open>Risk\<close>

lemma risk_update_session:
  "session_risk_state (update_session i (\<lambda>s. s\<lparr>sn_risk_state := risk\<rparr>) st) j =
     (if j = i then (case session_risk_state st i of Inl err \<Rightarrow> Inl err | Inr _ \<Rightarrow> Inr risk) else session_risk_state st j)"
proof -
  have found: "find (\<lambda>s. sn_id s = j) (map (\<lambda>s. if sn_id s = i then s\<lparr>sn_risk_state := risk\<rparr> else s) ss) =
      map_option (\<lambda>s. if j = i then s\<lparr>sn_risk_state := risk\<rparr> else s) (find (\<lambda>s. sn_id s = j) ss)" for ss
    by (induction ss) auto
  show ?thesis
    by (cases "find (\<lambda>s. sn_id s = j) (lt_sessions st)") (auto simp: found session_risk_state_def session_of_def update_session_def)
qed

lemma raise_risk_parts:
  fixes e wall i previous risk trigger reason st
  defines "st' \<equiv> raise_risk e wall i previous risk trigger reason st"
  shows "session_risk_state st' j =
      (if j = i then (case session_risk_state st i of Inl err \<Rightarrow> Inl err | Inr _ \<Rightarrow> Inr risk) else session_risk_state st j)"
    "lt_approvals st' = lt_approvals st" "lt_high_water st' = lt_high_water st"
    "lt_leases st' = map (\<lambda>l. if revokes_leases risk \<and> cl_session_id l = i \<and> cl_status l = LeaseActive
        then revoke_lease wall (excerpt_500 e reason) l else l) (lt_leases st)"
proof -
  let ?st1 = "(id_drawn st)\<lparr>lt_transitions := lt_transitions st @ [\<lparr>tn_id = fresh_id e ''rtrn_'' st, tn_session_id = i, tn_at = wall,
      tn_previous_state = previous, tn_new_state = risk, tn_triggering_signals = [trigger]\<rparr>]\<rparr>"
  have st1: "session_risk_state ?st1 j = session_risk_state st j" for j
    by (simp add: session_risk_state_def session_of_def id_drawn_def)
  have "session_risk_state st' j = session_risk_state (update_session i (\<lambda>s. s\<lparr>sn_risk_state := risk\<rparr>) ?st1) j"
    by (simp add: st'_def raise_risk_def Let_def revoke_session_leases_def session_risk_state_def session_of_def)
  then show "session_risk_state st' j =
      (if j = i then (case session_risk_state st i of Inl err \<Rightarrow> Inl err | Inr _ \<Rightarrow> Inr risk) else session_risk_state st j)"
    by (simp add: risk_update_session st1)
qed (simp_all add: st'_def raise_risk_def Let_def revoke_session_leases_def update_session_def id_drawn_def)

lemma safe_raise_risk:
  assumes "session_risk_state st i = Inr previous" "previous \<le> risk"
  shows "safe_step st (raise_risk e wall i previous risk trigger reason st)"
proof -
  let ?st = "raise_risk e wall i previous risk trigger reason st"
  note p = raise_risk_parts [of e wall i previous risk trigger reason st]
  have le: "store_le st ?st" using assms by (auto simp: store_le_def p)
  have "lease_inv ?st" if inv: "lease_inv st"
    unfolding lease_inv_def
  proof (intro ballI conjI impI)
    fix l' assume "l' \<in> set (lt_leases ?st)"
    then obtain l where l: "l \<in> set (lt_leases st)"
      "l' = (if revokes_leases risk \<and> cl_session_id l = i \<and> cl_status l = LeaseActive then revoke_lease wall (excerpt_500 e reason) l else l)"
      by (auto simp: p)
    have ok: "lease_backed (lt_approvals st) l" "lease_narrow l" "cl_status l = LeaseActive \<Longrightarrow> session_open st (cl_session_id l)"
      using inv l(1) by (auto simp: lease_inv_def)
    show "lease_backed (lt_approvals ?st) l'" "lease_narrow l'"
      using ok(1,2) by (auto simp: l(2) p lease_backed_def lease_narrow_def revoke_lease_def)
    assume "cl_status l' = LeaseActive"
    then have "l' = l" "cl_session_id l = i \<Longrightarrow> \<not> revokes_leases risk" "cl_status l = LeaseActive"
      using l(2) by (auto simp: revoke_lease_def split: if_splits)
    then show "session_open ?st (cl_session_id l')"
      using ok(3) assms(1) by (auto simp: session_open_def p)
  qed
  then show ?thesis using le by (simp add: safe_step_def)
qed

lemma safe_record_risk: "safe_step st (snd (record_risk_signal e wall i d weight source note st))"
proof (cases "session_risk_state st i")
  case (Inr previous)
  let ?g = "\<lparr>sg_id = fresh_id e ''rsig_'' st, sg_session_id = i, sg_at = wall, sg_dimension = d,
      sg_weight = weight, sg_source_event_id = source, sg_note = excerpt_500 e note\<rparr>"
  let ?st = "(id_drawn st)\<lparr>lt_signals := lt_signals st @ [?g]\<rparr>"
  let ?risk = "max (aggregate_state (read_scores ?st i)) previous"
  have "same_authority st ?st" by (simp add: same_authority_def id_drawn_def)
  then have 1: "safe_step st ?st" by (rule same_authority_safe)
  moreover have "session_risk_state ?st i = Inr previous" using Inr by (simp add: session_risk_state_def session_of_def id_drawn_def)
  then have "safe_step ?st (raise_risk e wall i previous ?risk trigger reason ?st)" for trigger reason
    by (rule safe_raise_risk) simp
  ultimately show ?thesis using safe_trans by (auto simp: record_risk_signal_def Inr Let_def)
qed (simp add: record_risk_signal_def)

lemma safe_escalate: "safe_step st (snd (escalate_risk_to e wall i target reason st))"
  by (auto simp: escalate_risk_to_def split: sum.splits intro: safe_raise_risk)

section \<open>Composite operations\<close>

lemma safe_snd: "\<lbrakk>safe_step st (snd p); p = (r, st')\<rbrakk> \<Longrightarrow> safe_step st st'"
  by simp

text \<open>The ways the code composes fallible steps.\<close>

lemma safe_bind:
  assumes "safe_step st (snd p)" "\<And>x st1. safe_step st1 (snd (f x st1))"
  shows "safe_step st (snd (case p of (Inl err, st1) \<Rightarrow> (Inl (g err), st1) | (Inr x, st1) \<Rightarrow> f x st1))"
  using assms safe_trans by (cases p) (auto split: sum.splits)

lemma safe_read: "(\<And>x. safe_step st (snd (f x))) \<Longrightarrow> safe_step st (snd (case r of Inl err \<Rightarrow> (Inl (g err), st) | Inr x \<Rightarrow> f x))"
  by (simp split: sum.splits)

lemma safe_if: "\<lbrakk>safe_step st (snd p); safe_step st (snd q)\<rbrakk> \<Longrightarrow> safe_step st (snd (if b then p else q))"
  by simp

lemma safe_result: "safe_step st (snd (x, st))"
  by simp

lemmas safe_results =
  safe_append_event [THEN safe_snd] safe_record_detection [THEN safe_snd] safe_open_incident [THEN safe_snd]
  safe_record_risk [THEN safe_snd] safe_escalate [THEN safe_snd] safe_observe [THEN safe_snd] safe_consume [THEN safe_snd]
  safe_revoke [THEN safe_snd]

lemma safe_observe_reporting: "safe_step st (snd (observe_now_reporting e wall i st))"
  by (auto simp: observe_now_reporting_def split: prod.splits sum.splits option.splits dest!: safe_results) (blast intro: safe_trans)+

lemma safe_note: "safe_step st (snd (note_if_ruled e wall i label evidence st))"
  by (auto simp: note_if_ruled_def split: prod.splits sum.splits option.splits dest!: safe_results)

lemma safe_open_attach: "safe_step st (snd (open_and_attach e wall i severity reason st))"
  by (auto simp: open_and_attach_def split: prod.splits sum.splits dest!: safe_results intro: safe_trans safe_attach)

lemmas safe_results2 =
  safe_results safe_observe_reporting [THEN safe_snd] safe_note [THEN safe_snd] safe_open_attach [THEN safe_snd]

lemma safe_fire: "safe_step st (snd (fire_detection e wall i d st))"
  by (auto simp: fire_detection_def split: prod.splits sum.splits option.splits dest!: safe_results2) (blast intro: safe_trans)+

lemma safe_touch: "safe_step st (snd (touch_canary e wall i key d risk st))"
  by (auto simp: touch_canary_def split: prod.splits sum.splits option.splits dest!: safe_results2) (blast intro: safe_trans)+

lemma safe_spend: "safe_step st (snd (spend_lease i a base key risk now st))"
  by (auto simp: spend_lease_def safe_consume split: option.splits)

lemma safe_fatigue: "safe_step st (snd (report_fatigue e wall q recent st))"
  by (auto simp: report_fatigue_def Let_def split: prod.splits sum.splits option.splits dest!: safe_results2) (blast intro: safe_trans)+

section \<open>Approvals\<close>

lemma safe_approvals_update:
  assumes "\<And>q. q \<in> set (lt_approvals st) \<Longrightarrow> lq_status q = RequestGranted \<Longrightarrow> q \<in> set qs"
  shows "safe_step st (st\<lparr>lt_drawn := n, lt_approvals := qs\<rparr>)"
proof -
  have "lease_backed (lt_approvals st) l \<Longrightarrow> lease_backed qs l" for l
    using assms unfolding lease_backed_def by blast
  then show ?thesis
    using assms by (auto simp: safe_step_def store_le_def lease_inv_def session_open_def session_risk_state_def session_of_def)
qed

lemma safe_insert_request: "safe_step st (snd (insert_request now q st))"
proof -
  have "q' \<in> retire_expired now i fp ` set (lt_approvals st)" if "q' \<in> set (lt_approvals st)" "lq_status q' = RequestGranted" for q' i fp
    using that by (auto simp: retire_expired_def intro!: rev_image_eqI)
  then show ?thesis
    by (simp add: insert_request_def Let_def id_drawn_def safe_approvals_update)
qed

lemma safe_decide_request: "safe_step st (decide_request x f st)"
proof -
  have "safe_step st (st\<lparr>lt_approvals := qs\<rparr>)" if "\<And>q. q \<in> set (lt_approvals st) \<Longrightarrow> lq_status q = RequestGranted \<Longrightarrow> q \<in> set qs" for qs
    using safe_approvals_update [of st qs "lt_drawn st"] that by simp
  then show ?thesis by (auto simp: decide_request_def image_iff)
qed

lemma safe_deny: "safe_step st (snd (deny_approval e x approver note now st))"
  by (auto simp: deny_approval_def Let_def safe_decide_request split: sum.splits)

lemma safe_request: "safe_step st (snd (request_local_approval e wall ask now st))"
  by (auto simp: request_local_approval_def Let_def split: prod.splits sum.splits option.splits
      dest!: safe_results2 safe_insert_request [THEN safe_snd] safe_fatigue [THEN safe_snd]) (blast intro: safe_trans)+


lemma grant_result:
  assumes "grant_approval e x approver max_uses ttl note now st = (Inr l, st')"
  obtains q risk where "q \<in> set (lt_approvals st)" "lq_approval_id q = x" "lq_status q = RequestPending" "now < lq_expires_at q"
    "session_risk_state st (lq_session_id q) = Inr risk" "\<not> revokes_leases risk"
    "1 \<le> max_uses" "max_uses \<le> MAX_LEASE_USES" "0 < ttl" "ttl \<le> MAX_LEASE_TTL_SECONDS"
    "l = \<lparr>cl_lease_id = fresh_id e ''cap_'' st, cl_session_id = lq_session_id q, cl_approval_id = x,
       cl_action = lq_action q, cl_resource = lq_resolved_resource q, cl_issued_at = now,
       cl_expires_at = now + seconds ttl, cl_max_uses = max_uses, cl_uses_remaining = max_uses, cl_delegable = False,
       cl_status = LeaseActive, cl_revoked_at = None, cl_revocation_reason = None\<rparr>"
    "st' = decide_request x (\<lambda>q. q\<lparr>lq_status := RequestGranted, lq_decided_at := Some now, lq_decided_by := Some approver,
       lq_note := map_option (excerpt_500 e) note, lq_lease_id := Some (cl_lease_id l)\<rparr>)
       ((id_drawn st)\<lparr>lt_leases := lt_leases st @ [l]\<rparr>)"
proof -
  obtain q where q: "find (\<lambda>q. lq_approval_id q = x) (lt_approvals st) = Some q"
    using assms by (auto simp: grant_approval_def read_request_def split: if_splits option.splits)
  then have "q \<in> set (lt_approvals st)" "lq_approval_id q = x" by (auto simp: find_Some_iff)
  then show ?thesis
    using assms q by (auto simp: grant_approval_def read_request_def issue_lease_def Let_def split: if_splits sum.splits intro!: that)
qed

lemma grant_failure: "grant_approval e x approver max_uses ttl note now st = (Inl err, st') \<Longrightarrow> st' = st"
  by (auto simp: grant_approval_def split: if_splits sum.splits prod.splits)

lemma safe_grant: "safe_step st (snd (grant_approval e x approver max_uses ttl note now st))"
proof (cases "grant_approval e x approver max_uses ttl note now st")
  case (Pair r st')
  show ?thesis
  proof (cases r)
    case (Inl err)
    then show ?thesis using grant_failure Pair by fastforce
  next
    case (Inr l)
    obtain q risk where g: "q \<in> set (lt_approvals st)" "lq_approval_id q = x" "lq_status q = RequestPending" "now < lq_expires_at q"
      "session_risk_state st (lq_session_id q) = Inr risk" "\<not> revokes_leases risk"
      "1 \<le> max_uses" "max_uses \<le> MAX_LEASE_USES" "0 < ttl" "ttl \<le> MAX_LEASE_TTL_SECONDS"
      and l: "l = \<lparr>cl_lease_id = fresh_id e ''cap_'' st, cl_session_id = lq_session_id q, cl_approval_id = x,
       cl_action = lq_action q, cl_resource = lq_resolved_resource q, cl_issued_at = now,
       cl_expires_at = now + seconds ttl, cl_max_uses = max_uses, cl_uses_remaining = max_uses, cl_delegable = False,
       cl_status = LeaseActive, cl_revoked_at = None, cl_revocation_reason = None\<rparr>"
      and st': "st' = decide_request x (\<lambda>q. q\<lparr>lq_status := RequestGranted, lq_decided_at := Some now, lq_decided_by := Some approver,
       lq_note := map_option (excerpt_500 e) note, lq_lease_id := Some (cl_lease_id l)\<rparr>)
       ((id_drawn st)\<lparr>lt_leases := lt_leases st @ [l]\<rparr>)"
      by (rule grant_result [OF Pair [unfolded Inr]])
    let ?q = "q\<lparr>lq_status := RequestGranted, lq_decided_at := Some now, lq_decided_by := Some approver,
       lq_note := map_option (excerpt_500 e) note, lq_lease_id := Some (cl_lease_id l)\<rparr>"
    have parts: "session_risk_state st' i = session_risk_state st i" "lt_high_water st' = lt_high_water st"
      "lt_leases st' = lt_leases st @ [l]" for i
      by (simp_all add: st' decide_request_def id_drawn_def session_risk_state_def session_of_def)
    have keep: "q' \<in> set (lt_approvals st')" if "q' \<in> set (lt_approvals st)" "lq_status q' = RequestGranted" for q'
      using that by (auto simp: st' decide_request_def id_drawn_def image_iff)
    have new: "?q \<in> set (lt_approvals st')"
      using g(1-3) by (auto simp: st' decide_request_def id_drawn_def image_iff)
    have "lease_backed (lt_approvals st') l"
      unfolding lease_backed_def using g(4) by (intro bexI [OF _ new]) (simp add: l)
    moreover have "lease_narrow l" using g(8,10) by (simp add: lease_narrow_def l seconds_def nanos_per_second_def)
    moreover have "session_open st' (cl_session_id l)" using g(5,6) by (simp add: session_open_def parts l)
    moreover have "lease_backed (lt_approvals st) l' \<Longrightarrow> lease_backed (lt_approvals st') l'" for l'
      using keep unfolding lease_backed_def by blast
    ultimately have "lease_inv st \<Longrightarrow> lease_inv st'" by (auto simp: lease_inv_def parts session_open_def)
    moreover have "store_le st st'" using keep by (auto simp: store_le_def parts)
    ultimately show ?thesis using Pair by (simp add: safe_step_def)
  qed
qed

lemma safe_ask: "safe_step st (snd (ask_approval e wall i a requested key d now st))"
  by (auto simp: ask_approval_def split: prod.splits sum.splits option.splits dest!: safe_request [THEN safe_snd])

lemma safe_authorize_decision: "safe_step st (snd (authorize_decision e wall i a requested base key st))"
  unfolding authorize_decision_def Let_def
  by (intro safe_bind safe_read safe_if safe_observe_reporting safe_spend safe_touch safe_fire safe_ask safe_result)

lemma safe_authorize: "safe_step st (snd (authorize_local e h wall i profile workspace a requested st))"
  by (simp add: authorize_local_def Let_def safe_authorize_decision)

section \<open>Responses\<close>

text \<open>Sealing writes the risk it is given.\<close>

lemma seal_risk:
  "session_risk_state (snd (seal_session wall i risk st)) j =
     (if j = i then map_sum id (\<lambda>_. risk) (session_risk_state st i) else session_risk_state st j)"
proof -
  let ?f = "\<lambda>s'. if sn_id s' = i then s'\<lparr>sn_status := SessionSealed, sn_ended_at := Some wall, sn_risk_state := risk\<rparr> else s'"
  have found: "find (\<lambda>s. sn_id s = x) (map ?f ss) = map_option ?f (find (\<lambda>s. sn_id s = x) ss)" for x ss
    by (induction ss) auto
  show ?thesis
  proof (cases "find (\<lambda>s. sn_id s = j) (lt_sessions st)")
    case (Some a)
    then have "sn_id a = j" by (auto simp: find_Some_iff)
    then show ?thesis
      using Some by (cases "j = i") (simp_all add: seal_session_def update_exactly_one_def Let_def session_risk_state_def session_of_def found)
  next
    case None
    then show ?thesis
      by (cases "j = i") (simp_all add: seal_session_def update_exactly_one_def Let_def session_risk_state_def session_of_def found)
  qed
qed

lemma safe_seal:
  assumes "session_of st i = Some s"
  shows "safe_step st (snd (seal_session wall i (sn_risk_state s) st))"
proof -
  have "session_risk_state (snd (seal_session wall i (sn_risk_state s) st)) j = session_risk_state st j" for j
  proof -
    have "session_risk_state st i = Inr (sn_risk_state s)" using assms by (simp add: session_risk_state_def)
    then show ?thesis by (simp add: seal_risk)
  qed
  then show ?thesis
    by (simp add: safe_step_def store_le_def lease_inv_def session_open_def seal_session_def update_exactly_one_def Let_def)
qed

lemma safe_perform:
  assumes "session_of st (ic_session_id c) = Some s"
  shows "safe_step st (snd (perform_response e wall report c s act st))"
proof (cases act)
  case RevokeCapabilities
  then show ?thesis by (simp add: perform_response_def Let_def case_prod_unfold safe_revoke)
next
  case SealSession
  then show ?thesis unfolding perform_response_def Let_def SealSession ResponseAction.case
    by (intro safe_if safe_result safe_bind safe_seal [OF assms])
next
  case TerminateProcessTree
  then show ?thesis by (simp add: perform_response_def Let_def)
next
  case RestrictSession
  show ?thesis unfolding perform_response_def Let_def RestrictSession ResponseAction.case
    by (intro safe_if safe_result safe_bind safe_escalate)
next
  case QuarantineSession
  show ?thesis unfolding perform_response_def Let_def QuarantineSession ResponseAction.case
    by (intro safe_if safe_result safe_bind safe_escalate)
qed

lemma safe_response: "safe_step st (snd (apply_response e wall report incident_id act st))"
proof -
  have drawn: "safe_step st1 ((id_drawn st1)\<lparr>lt_responses := rs\<rparr>)" for st1 rs
    by (rule same_authority_safe) (simp add: same_authority_def id_drawn_def)
  have tail: "safe_step st1 (snd (case append_event e wall i category act' decision correlation payload ((id_drawn st1)\<lparr>lt_responses := rs\<rparr>) of
      (Inl err, st3) \<Rightarrow> (Inl err, st3) | (Inr _, st3) \<Rightarrow> (Inr r, st3)))"
    for st1 rs i category act' decision correlation payload and r :: IncidentResponse
    by (rule safe_trans [OF drawn [of st1 rs]]) (intro safe_bind safe_append_event safe_result)
  show ?thesis
  proof (cases "get_incident st incident_id")
    case (Some c)
    show ?thesis
    proof (cases "session_of st (ic_session_id c)")
      case s: (Some s)
      show ?thesis
        unfolding apply_response_def Let_def Some s option.case
        by (rule safe_bind [OF safe_perform [OF s]]) (simp only: tail split: prod.splits, simp)
    qed (simp add: apply_response_def Some)
  qed (simp add: apply_response_def)
qed


section \<open>Spending leases\<close>

definition uses_total :: "CapabilityLease list \<Rightarrow> nat" where
  "uses_total ls = sum_list (map cl_uses_remaining ls)"

lemma candidate_covers:
  "lease_candidate i u now ls = Some x \<Longrightarrow> \<exists>l\<in>set ls. lease_covers i u now l \<and> cl_lease_id l = x"
proof -
  assume a: "lease_candidate i u now ls = Some x"
  let ?c = "sort_key cl_expires_at (sort_key cl_lease_id (filter (lease_covers i u now) ls))"
  obtain l rest where l: "?c = l # rest" "x = cl_lease_id l"
    using a by (auto simp: lease_candidate_def split: list.splits)
  have "l \<in> set ?c" using l(1) by simp
  then show ?thesis using l(2) by auto
qed

lemma sum_one_less:
  fixes f :: "'a \<Rightarrow> nat"
  assumes "length (filter P xs) = 1" "\<And>x. P x \<Longrightarrow> 0 < f x"
  shows "sum_list (map f xs) = Suc (sum_list (map (\<lambda>x. if P x then f x - 1 else f x) xs))"
  using assms(1)
proof (induction xs)
  case (Cons x xs)
  show ?case
  proof (cases "P x")
    case True
    then have "filter P xs = []" using Cons.prems by simp
    then have "sum_list (map (\<lambda>x. if P x then f x - 1 else f x) xs) = sum_list (map f xs)"
      by (intro arg_cong [of _ _ sum_list] map_cong) (auto simp: filter_empty_conv)
    then show ?thesis using True assms(2) [of x] by simp
  next
    case False
    then show ?thesis using Cons by simp
  qed
qed simp

definition lease_spent :: "string \<Rightarrow> timestamp \<Rightarrow> CapabilityLease \<Rightarrow> CapabilityLease" where
  "lease_spent x now l = exhaust_lease x (charge_lease x now l)"

lemma lease_spent_total:
  assumes "length (filter (\<lambda>l. cl_lease_id l = x \<and> lease_is_usable l now) ls) = 1"
  shows "uses_total ls = Suc (uses_total (map (lease_spent x now) ls))"
proof -
  have "cl_uses_remaining (lease_spent x now l) =
      (if cl_lease_id l = x \<and> lease_is_usable l now then cl_uses_remaining l - 1 else cl_uses_remaining l)" for l
    by (auto simp: lease_spent_def exhaust_lease_def charge_lease_def)
  then show ?thesis
    using sum_one_less [OF assms, of cl_uses_remaining] by (simp add: uses_total_def comp_def lease_is_usable_def)
qed

lemma lease_spent_fields [simp]:
  "cl_lease_id (lease_spent x now l) = cl_lease_id l" "cl_session_id (lease_spent x now l) = cl_session_id l"
  "cl_action (lease_spent x now l) = cl_action l" "cl_resource (lease_spent x now l) = cl_resource l"
  "cl_expires_at (lease_spent x now l) = cl_expires_at l"
  by (simp_all add: lease_spent_def exhaust_lease_def charge_lease_def)

lemma covers_before: "lease_covers i u now (lease_spent x now l) \<Longrightarrow> lease_covers i u now l"
  by (auto simp: lease_covers_def lease_is_usable_def lease_spent_def exhaust_lease_def charge_lease_def split: if_splits)

definition covered :: "string \<Rightarrow> timestamp \<Rightarrow> CapabilityLease list \<Rightarrow> string \<Rightarrow> LeaseUse \<Rightarrow> bool" where
  "covered i now ls x u \<longleftrightarrow> (\<exists>l\<in>set ls. cl_lease_id l = x \<and> lease_covers i u now l)"

lemma covered_before: "covered i now (map (lease_spent y now) ls) x u \<Longrightarrow> covered i now ls x u"
  by (auto simp: covered_def dest: covers_before)

lemma consume_loop_exact:
  "consume_loop i now index uses ls consumed missing = Inr (ls', consumed', missing') \<Longrightarrow>
     \<exists>xs ys. consumed' = consumed @ xs \<and> missing' = missing @ ys \<and> length xs + length ys = length uses \<and>
       uses_total ls = uses_total ls' + length xs \<and> (ys = [] \<longrightarrow> list_all2 (covered i now ls) xs uses)"
proof (induction i now index uses ls consumed missing rule: consume_loop.induct)
  case (2 i now index u us ls consumed missing)
  show ?case
  proof (cases "lease_candidate i u now ls")
    case None
    then obtain xs ys where "consumed' = consumed @ xs" "missing' = (missing @ [index]) @ ys" "length xs + length ys = length us"
      "uses_total ls = uses_total ls' + length xs"
      using 2 by fastforce
    then show ?thesis by (intro exI [of _ xs] exI [of _ "index # ys"]) simp
  next
    case (Some x)
    let ?ls = "map (lease_spent x now) ls"
    have step: "length (filter (\<lambda>l. cl_lease_id l = x \<and> lease_is_usable l now) ls) = 1"
      "map (exhaust_lease x) (map (charge_lease x now) ls) = ?ls"
      using "2.prems" Some by (auto simp: lease_spent_def split: if_splits)
    have loop: "consume_loop i now (Suc index) us (map (exhaust_lease x) (map (charge_lease x now) ls)) (consumed @ [x]) missing =
        Inr (ls', consumed', missing')"
      using "2.prems" Some step(1) by simp
    obtain xs ys where r: "consumed' = (consumed @ [x]) @ xs" "missing' = missing @ ys" "length xs + length ys = length us"
      "uses_total ?ls = uses_total ls' + length xs" "ys = [] \<Longrightarrow> list_all2 (covered i now ?ls) xs us"
      using "2.IH"(2) [OF Some _ loop] step(1) unfolding step(2) by blast
    have "covered i now ls x u" using candidate_covers [OF Some] by (auto simp: covered_def)
    moreover have "list_all2 (covered i now ls) xs us" if "ys = []"
      using list_all2_mono [OF r(5) [OF that]] covered_before by blast
    ultimately show ?thesis
      using r lease_spent_total [OF step(1)] by (intro exI [of _ "x # xs"] exI [of _ ys]) auto
  qed
qed simp

lemma read_leases_each: "read_leases ls xs = Inr leases \<Longrightarrow> list_all2 (\<lambda>l x. l \<in> set ls \<and> cl_lease_id l = x) leases xs"
proof (induction xs arbitrary: leases)
  case (Cons x xs)
  obtain l rest where l: "read_lease ls x = Inr l" "read_leases ls xs = Inr rest" "leases = l # rest"
    using Cons.prems by (auto simp: rbind_eq_Inr)
  have "l \<in> set ls \<and> cl_lease_id l = x"
    using l(1) by (auto simp: read_lease_def find_Some_iff split: option.splits if_splits)
  then show ?case using Cons.IH [OF l(2)] l(3) by simp
qed simp

definition lease_for :: "string \<Rightarrow> timestamp \<Rightarrow> CapabilityLease \<Rightarrow> LeaseUse \<Rightarrow> bool" where
  "lease_for i now l u \<longleftrightarrow> cl_session_id l = i \<and> cl_action l = lu_action u \<and> cl_resource l = lu_resource u \<and> now < cl_expires_at l"

lemma consumed_leases:
  assumes "consume_leases_atomically i uses now st = (Inr (Consumed_leases leases), st')"
    and "distinct (map cl_lease_id (lt_leases st))"
  shows "list_all2 (lease_for i now) leases uses \<and> uses_total (lt_leases st) = uses_total (lt_leases st') + length uses"
proof (cases "uses = []")
  case True
  then show ?thesis using assms(1) by (auto simp: consume_leases_atomically_def)
next
  case False
  obtain consumed where loop: "consume_loop i now 0 uses (lt_leases st) [] [] = Inr (lt_leases st', consumed, [])"
    and read: "read_leases (lt_leases st') consumed = Inr leases"
    using assms(1) False by (auto simp: consume_leases_atomically_def split: sum.splits prod.splits if_splits)
  have each: "list_all2 (covered i now (lt_leases st)) consumed uses"
    and total: "uses_total (lt_leases st) = uses_total (lt_leases st') + length uses"
    using consume_loop_exact [OF loop] by (auto dest: list_all2_lengthD)
  have le: "list_all2 lease_le (lt_leases st) (lt_leases st')" using consume_loop_le [OF loop] .
  have unique: "l = l'" if "l \<in> set (lt_leases st)" "l' \<in> set (lt_leases st)" "cl_lease_id l = cl_lease_id l'" for l l'
    using assms(2) that by (metis distinct_map inj_onD)
  have "lease_for i now l u" if l: "l \<in> set (lt_leases st')" "cl_lease_id l = x" and c: "covered i now (lt_leases st) x u" for l x u
  proof -
    obtain l0 where l0: "l0 \<in> set (lt_leases st)" "lease_le l0 l" using le l(1) by (metis in_set_conv_nth list_all2_conv_all_nth)
    obtain l1 where "l1 \<in> set (lt_leases st)" "cl_lease_id l1 = x" "lease_covers i u now l1" using c by (auto simp: covered_def)
    then have "lease_covers i u now l0" using unique l0 l(2) by (metis lease_le_def)
    then show ?thesis using l0(2) by (auto simp: lease_for_def lease_covers_def lease_le_def lease_is_usable_def)
  qed
  then have "list_all2 (lease_for i now) leases uses"
    using list_all2_trans [OF _ read_leases_each [OF read] each, of "lease_for i now"] by blast
  then show ?thesis using total by blast
qed

lemma unspent_unchanged:
  "consume_leases_atomically i uses now st = (r, st') \<Longrightarrow> (\<And>leases. r \<noteq> Inr (Consumed_leases leases)) \<Longrightarrow> st' = st"
  by (auto simp: consume_leases_atomically_def split: if_splits sum.splits prod.splits)

lemma consumed_one:
  assumes "consume_lease i a k now st = (Inr (Some l), st')"
  shows "\<exists>l0\<in>set (lt_leases st). lease_covers i \<lparr>lu_action = a, lu_resource = k\<rparr> now l0 \<and> cl_lease_id l0 = cl_lease_id l"
proof -
  let ?u = "\<lparr>lu_action = a, lu_resource = k\<rparr>"
  obtain leases where c: "consume_leases_atomically i [?u] now st = (Inr (Consumed_leases leases), st')" "leases \<noteq> []" "l = List.last leases"
    using assms by (auto simp: consume_lease_def split: prod.splits sum.splits AtomicLeaseConsumption.splits if_splits)
  obtain consumed where loop: "consume_loop i now 0 [?u] (lt_leases st) [] [] = Inr (lt_leases st', consumed, [])"
    and read: "read_leases (lt_leases st') consumed = Inr leases"
    using c(1) by (auto simp: consume_leases_atomically_def split: sum.splits prod.splits if_splits)
  have "list_all2 (covered i now (lt_leases st)) consumed [?u]" using consume_loop_exact [OF loop] by auto
  then obtain x where x: "consumed = [x]" "covered i now (lt_leases st) x ?u" by (auto simp: list_all2_Cons2)
  then have "cl_lease_id l = x" using read_leases_each [OF read] c(2,3) by (auto simp: list_all2_Cons2)
  then show ?thesis using x(2) by (auto simp: covered_def)
qed

section \<open>Sequences of operations\<close>

text \<open>
  One operation of the control plane. A new session has an identifier of its own and the risk its
  workspace starts with; canaries are placed and removed freely.
\<close>

text \<open>
  The operations of the control plane, each running to its end before the next starts. \<^verbatim>\<open>LocalStore::seal_session\<close> by itself
  writes whatever risk its caller passes; it is a step of the wider relation below.
\<close>

inductive local_step :: "local_env \<Rightarrow> local_store \<Rightarrow> local_store \<Rightarrow> bool" for e where
  session: "sn_id s \<notin> sn_id ` set (lt_sessions st) \<Longrightarrow> local_step e st (st\<lparr>lt_sessions := lt_sessions st @ [s]\<rparr>)"
| canaries: "local_step e st (st\<lparr>lt_canaries := cs\<rparr>)"
| running: "local_step e st (snd (mark_running i pid st))"
| activated: "local_step e st (snd (activate_semantic_session i st))"
| finished: "local_step e st (snd (finish_session wall i code st))"
| event: "local_step e st (snd (append_event e wall i category act decision correlation payload st))"
| clock: "local_step e st (snd (observe_now wall st))"
| clock_reported: "local_step e st (snd (observe_now_reporting e wall i st))"
| detection: "local_step e st (snd (record_detection e wall i rule evidence source st))"
| signal: "local_step e st (snd (record_risk_signal e wall i d weight source note st))"
| escalation: "local_step e st (snd (escalate_risk_to e wall i target reason st))"
| approval: "local_step e st (snd (request_local_approval e wall ask now st))"
| granted: "from_cli_operator identity = Inr approver \<Longrightarrow>
    local_step e st (snd (grant_approval e x approver max_uses ttl note now st))"
| denied: "from_cli_operator identity = Inr approver \<Longrightarrow> local_step e st (snd (deny_approval e x approver note now st))"
| revoked: "local_step e st (snd (revoke_session_leases e wall i reason st))"
| consumed: "local_step e st (snd (consume_leases_atomically i uses now st))"
| authorized: "local_step e st (snd (authorize_decision e wall i a requested base key st))"
| incident: "local_step e st (snd (open_incident e wall i severity reason st))"
| attached: "local_step e st (attach_detections incident_id i st)"
| incident_sealed: "local_step e st (snd (seal_incident wall incident_id st))"
| response: "local_step e st (snd (apply_response e wall report incident_id act st))"

definition local_steps :: "local_env \<Rightarrow> local_store \<Rightarrow> local_store \<Rightarrow> bool" where
  "local_steps e = (local_step e)\<^sup>*\<^sup>*"

text \<open>
  Operations that overlap. A response that seals a session reads its risk and writes it back in two statements, and any
  other operation may run in between; the command line seals a session with the risk of an evaluation that knows no session. So
  sealing is a step of its own with any risk, and so is the row a response leaves.
\<close>

inductive interleaved_step :: "local_env \<Rightarrow> local_store \<Rightarrow> local_store \<Rightarrow> bool" for e where
  operation: "local_step e st st' \<Longrightarrow> interleaved_step e st st'"
| sealed: "interleaved_step e st (snd (seal_session wall i risk st))"
| responded: "interleaved_step e st ((id_drawn st)\<lparr>lt_responses := lt_responses st @ [r]\<rparr>)"

definition interleaved_steps :: "local_env \<Rightarrow> local_store \<Rightarrow> local_store \<Rightarrow> bool" where
  "interleaved_steps e = (interleaved_step e)\<^sup>*\<^sup>*"

definition empty_store :: local_store where
  "empty_store = \<lparr>lt_sessions = [], lt_signals = [], lt_transitions = [], lt_leases = [], lt_approvals = [], lt_detections = [],
     lt_incidents = [], lt_responses = [], lt_canaries = [], lt_high_water = None, lt_events = [], lt_issued_events = 0, lt_drawn = 0\<rparr>"

lemma safe_session:
  assumes "sn_id s \<notin> sn_id ` set (lt_sessions st)"
  shows "safe_step st (st\<lparr>lt_sessions := lt_sessions st @ [s]\<rparr>)"
proof -
  have "session_risk_state (st\<lparr>lt_sessions := lt_sessions st @ [s]\<rparr>) i = session_risk_state st i"
    if "session_risk_state st i = Inr risk" for i risk
  proof -
    have "map_of (map (\<lambda>s. (sn_id s, sn_risk_state s)) (lt_sessions st)) i = Some risk"
      using that by (simp add: risk_by_map_of split: option.splits)
    then show ?thesis using that by (simp add: risk_by_map_of map_add_def)
  qed
  then show ?thesis by (auto simp: safe_step_def store_le_def lease_inv_def session_open_def)
qed

lemma safe_canaries: "safe_step st (st\<lparr>lt_canaries := cs\<rparr>)"
  by (rule same_authority_safe) (simp add: same_authority_def)

lemma local_step_safe: "local_step e st st' \<Longrightarrow> safe_step st st'"
  by (induction rule: local_step.induct)
     (rule safe_session safe_canaries safe_life_cycle safe_append_event safe_observe safe_observe_reporting safe_record_detection
      safe_record_risk safe_escalate safe_request safe_grant safe_deny safe_revoke safe_consume_atomically
      safe_authorize_decision safe_open_incident safe_attach safe_seal_incident safe_response; assumption?)+

lemma local_steps_safe: "local_steps e st st' \<Longrightarrow> safe_step st st'"
  unfolding local_steps_def by (induction rule: rtranclp_induct) (auto dest: local_step_safe intro: safe_trans)

text \<open>One step changes the risk of a session upwards, or seals it.\<close>

lemma interleaved_risk:
  assumes "interleaved_step e st st'" "session_risk_state st i = Inr risk"
  shows "\<exists>risk'. session_risk_state st' i = Inr risk' \<and>
    (risk \<le> risk' \<or> (\<exists>wall. st' = snd (seal_session wall i risk' st)))"
  using assms
proof (cases rule: interleaved_step.cases)
  case operation
  then show ?thesis using local_step_safe assms(2) by (fastforce simp: safe_step_def store_le_def)
next
  case (sealed wall j low)
  then show ?thesis using assms(2) by (cases "j = i") (auto simp: seal_risk)
next
  case (responded r)
  then show ?thesis using assms(2) by (auto simp: session_risk_state_def session_of_def id_drawn_def)
qed

text \<open>A lower risk was written by a seal.\<close>

definition lowered_by_seal :: "local_env \<Rightarrow> string \<Rightarrow> local_store \<Rightarrow> local_store \<Rightarrow> bool" where
  "lowered_by_seal e i st st' \<longleftrightarrow>
     (\<exists>before wall low high. interleaved_steps e st before \<and> session_risk_state before i = Inr high \<and> low < high \<and>
        interleaved_steps e (snd (seal_session wall i low before)) st')"

lemma interleaved_steps_risk:
  assumes "interleaved_steps e st st'" "session_risk_state st i = Inr risk"
  shows "\<exists>risk'. session_risk_state st' i = Inr risk' \<and> (risk' < risk \<longrightarrow> lowered_by_seal e i st st')"
  using assms(1) unfolding interleaved_steps_def
proof (induction rule: rtranclp_induct)
  case base
  then show ?case using assms(2) by auto
next
  case (step b c)
  then obtain mid where mid: "session_risk_state b i = Inr mid" "mid < risk \<longrightarrow> lowered_by_seal e i st b" by blast
  obtain risk' where risk': "session_risk_state c i = Inr risk'" "mid \<le> risk' \<or> (\<exists>wall. c = snd (seal_session wall i risk' b))"
    using interleaved_risk [OF step.hyps(2) mid(1)] by blast
  have more: "lowered_by_seal e i st c" if "lowered_by_seal e i st b"
    using that step.hyps(2) unfolding lowered_by_seal_def interleaved_steps_def by (meson rtranclp.rtrancl_into_rtrancl)
  have "lowered_by_seal e i st c" if "risk' < risk"
  proof (cases "mid \<le> risk'")
    case True
    then show ?thesis using that mid(2) more by simp
  next
    case False
    then obtain wall where "c = snd (seal_session wall i risk' b)" using risk'(2) by blast
    then show ?thesis
      using step.hyps(1) mid(1) False unfolding lowered_by_seal_def interleaved_steps_def
      by (intro exI [of _ b] exI [of _ wall] exI [of _ risk'] exI [of _ mid]) auto
  qed
  then show ?case using risk'(1) by blast
qed

lemma reachable_lease_inv: "local_steps e empty_store st \<Longrightarrow> lease_inv st"
  using local_steps_safe [of e empty_store st] by (simp add: safe_step_def lease_inv_def empty_store_def)

lemma risk_admits_antitone: "\<lbrakk>risk \<le> risk'; risk_admits risk' a\<rbrakk> \<Longrightarrow> risk_admits risk a"
proof -
  have "is_read a \<Longrightarrow> \<not> is_workspace_mutation a \<and> a \<noteq> SecretUse \<and> a \<noteq> SecretMetadata"
    by (cases a) (simp_all add: is_read_def is_workspace_mutation_def)
  moreover assume "risk \<le> risk'" "risk_admits risk' a"
  ultimately show ?thesis
    by (cases risk; cases risk') (auto simp: risk_admits_def less_eq_RiskState_def)
qed

lemma bind_ok:
  "(case p of (Inl err, s) \<Rightarrow> (Inl err, s) | (Inr x, s) \<Rightarrow> f x s) = (Inr y, s') \<longleftrightarrow> (\<exists>x s. p = (Inr x, s) \<and> f x s = (Inr y, s'))"
  by (auto split: prod.splits sum.splits)

lemma read_ok: "(case r of Inl err \<Rightarrow> (Inl err, s) | Inr x \<Rightarrow> f x) = (Inr y, s') \<longleftrightarrow> (\<exists>x. r = Inr x \<and> f x = (Inr y, s'))"
  by (simp split: sum.splits)

text \<open>What an authorization that allows rests on.\<close>

lemma observe_reading:
  assumes "observe_now_reporting e wall i st = (Inr reading, st1)"
  shows "wall \<le> cr_now reading"
proof -
  have "reading = fst (observe_now wall st)"
    using assms by (auto simp: observe_now_reporting_def split: prod.splits if_splits option.splits sum.splits)
  then show ?thesis by (simp add: observe_now_def split: option.splits)
qed

lemma safe_authorize_rest:
  assumes "authorize_decision e wall i a requested base key st = (Inr r, st')" "observe_now_reporting e wall i st = (Inr reading, st1)"
  shows "safe_step st1 st'"
proof -
  have "safe_step st1 (snd (authorize_decision e wall i a requested base key st))"
    unfolding authorize_decision_def Let_def assms(2) prod.case sum.case
    by (intro safe_bind safe_read safe_if safe_spend safe_touch safe_fire safe_ask safe_result)
  then show ?thesis using assms(1) by simp
qed

lemma authorize_keeps_grants:
  assumes "authorize_decision e wall i a requested base key st = (Inr r, st')" "observe_now_reporting e wall i st = (Inr reading, st1)"
    and "q \<in> set (lt_approvals st1)" "lq_status q = RequestGranted"
  shows "q \<in> set (lt_approvals st')"
  using safe_authorize_rest [OF assms(1,2)] assms(3,4) by (auto simp: safe_step_def store_le_def)

lemma authorize_allow:
  assumes "authorize_decision e wall i a requested base key st = (Inr r, st')" "ld_outcome (la_decision r) = LocalAllow"
    and "lease_inv st"
  shows "(\<forall>risk. session_risk_state st i = Inr risk \<longrightarrow> risk_admits risk a) \<and>
    (ld_outcome base = LocalAllow \<or>
     (ld_outcome base = LocalRequireApproval \<and>
      (\<exists>k q l. key = Some k \<and> q \<in> set (lt_approvals st') \<and> lq_status q = RequestGranted \<and> lq_decided_by q \<noteq> None \<and>
         lq_session_id q = i \<and> lq_action q = a \<and> lq_resolved_resource q = k \<and>
         la_lease r = Some l \<and> lq_lease_id q = Some (cl_lease_id l) \<and>
         (\<exists>t. lq_decided_at q = Some t \<and> wall < t + seconds MAX_LEASE_TTL_SECONDS))))"
proof -
  obtain reading st1 risk lease st2 where o: "observe_now_reporting e wall i st = (Inr reading, st1)"
    "session_risk_state st1 i = Inr risk" "spend_lease i a base key risk (cr_now reading) st1 = (Inr lease, st2)"
    and d: "la_decision r = apply_session_state base a risk (if lease = None then LeaseAbsent else LeasePresent)" "la_lease r = lease"
    using assms(1) unfolding authorize_decision_def Let_def bind_ok read_ok by force
  have le: "safe_step st st1" using safe_observe_reporting o(1) by (metis snd_conv)
  have admits: "risk_admits risk a" "ld_outcome (lease_upgrade (if lease = None then LeaseAbsent else LeasePresent) base) = LocalAllow"
    using assms(2) by (simp_all add: d applied_outcome degrade_allow)
  have "risk_admits r0 a" if "session_risk_state st i = Inr r0" for r0
    using le that o(2) admits(1) risk_admits_antitone by (force simp: safe_step_def store_le_def)
  moreover have "\<exists>k q l. key = Some k \<and> q \<in> set (lt_approvals st') \<and> lq_status q = RequestGranted \<and> lq_decided_by q \<noteq> None \<and>
         lq_session_id q = i \<and> lq_action q = a \<and> lq_resolved_resource q = k \<and>
         la_lease r = Some l \<and> lq_lease_id q = Some (cl_lease_id l) \<and>
         (\<exists>t. lq_decided_at q = Some t \<and> wall < t + seconds MAX_LEASE_TTL_SECONDS)"
    if some: "lease \<noteq> None"
  proof -
    obtain k l where k: "key = Some k" "lease = Some l" "consume_lease i a k (cr_now reading) st1 = (Inr (Some l), st2)"
      using o(3) some by (auto simp: spend_lease_def split: option.splits if_splits)
    obtain l0 where l0: "l0 \<in> set (lt_leases st1)" "lease_covers i \<lparr>lu_action = a, lu_resource = k\<rparr> (cr_now reading) l0"
      "cl_lease_id l0 = cl_lease_id l"
      using consumed_one [OF k(3)] by blast
    have inv1: "lease_inv st1" using le assms(3) by (simp add: safe_step_def)
    obtain q where q: "q \<in> set (lt_approvals st1)" "lq_status q = RequestGranted" "lq_decided_by q \<noteq> None"
      "lq_lease_id q = Some (cl_lease_id l0)" "lq_session_id q = cl_session_id l0" "lq_action q = cl_action l0"
      "lq_resolved_resource q = cl_resource l0" "lq_decided_at q = Some (cl_issued_at l0)"
      and narrow: "cl_expires_at l0 \<le> cl_issued_at l0 + seconds MAX_LEASE_TTL_SECONDS"
      using inv1 l0(1) by (fastforce simp: lease_inv_def lease_backed_def lease_narrow_def)
    have "wall \<le> cr_now reading" using observe_reading [OF o(1)] .
    moreover have "cr_now reading < cl_expires_at l0" using l0(2) by (simp add: lease_covers_def lease_is_usable_def)
    moreover have "q \<in> set (lt_approvals st')" using authorize_keeps_grants [OF assms(1) o(1) q(1,2)] .
    ultimately show ?thesis
      using q k(1,2) d(2) l0(2,3) narrow by (force simp: lease_covers_def)
  qed
  ultimately show ?thesis using admits(2) by (auto simp: upgrade_outcome split: if_splits)
qed

section \<open>A sample run\<close>

definition demo_local_env :: local_env where
  "demo_local_env = \<lparr>lv_uuid = (\<lambda>n. replicate n (CHR ''x'')), lv_marks = sample_marks, lv_format = sample_format,
     lv_sha = (\<lambda>_. ''d''), lv_rfc3339 = (\<lambda>_. ''t'')\<rparr>"

definition demo_session :: LocalSession where
  "demo_session = \<lparr>sn_id = ''s'', sn_created_at = 0, sn_ended_at = None, sn_profile = ''p'', sn_workspace = ''/w'',
     sn_executable = ''/x'', sn_argv = [], sn_task = None, sn_enforcement_posture = ''semantic_enforced'',
     sn_status = SessionStarting, sn_pid = None, sn_exit_code = None, sn_risk_state = RiskNormal\<rparr>"

definition demo_ask :: CapabilityAsk where
  "demo_ask = \<lparr>ak_session_id = ''s'', ak_action = FsDelete, ak_requested_resource = ''f'', ak_resolved_resource = ''/w/f'',
     ak_determining_policy = ''p'', ak_reason = ''r''\<rparr>"

definition demo_fp :: string where
  "demo_fp = hash_display (hash_bytes (\<lambda>_. ''d'') [])"

definition demo_started :: local_store where
  "demo_started = empty_store\<lparr>lt_sessions := [demo_session]\<rparr>"

definition demo_requested :: local_store where
  "demo_requested = (id_drawn demo_started)\<lparr>lt_approvals := [new_request demo_local_env demo_ask 0 demo_fp RiskNormal demo_started]\<rparr>"

lemma demo_fingerprint: "approval_fingerprint demo_local_env ''s'' FsDelete ''/w/f'' = Inr demo_fp"
  by (simp add: approval_fingerprint_def hash_canonical_json_def canonical_bytes_def canonicalize_def demo_local_env_def demo_fp_def
      hash_bytes_def result_simps rbind_def write_member_def)

lemma demo_request:
  "request_local_approval demo_local_env 0 demo_ask 0 demo_started =
     (Inr (ApprovalCreated (new_request demo_local_env demo_ask 0 demo_fp RiskNormal demo_started)), demo_requested)"
  by (simp add: request_local_approval_def Let_def demo_fingerprint demo_ask_def demo_started_def demo_session_def session_risk_state_def
      session_of_def find_by_fingerprint_def empty_store_def insert_request_def new_request_def FATIGUE_THRESHOLD_def
      demo_requested_def)

definition demo_lease :: CapabilityLease where
  "demo_lease = \<lparr>cl_lease_id = ''cap_x'', cl_session_id = ''s'', cl_approval_id = ''apr_'',
     cl_action = FsDelete, cl_resource = ''/w/f'', cl_issued_at = 1, cl_expires_at = 1 + seconds 60, cl_max_uses = 2,
     cl_uses_remaining = 2, cl_delegable = False, cl_status = LeaseActive, cl_revoked_at = None, cl_revocation_reason = None\<rparr>"

definition demo_granted :: local_store where
  "demo_granted = snd (grant_approval demo_local_env ''apr_'' ''ops'' 2 60 None 1 demo_requested)"

lemma demo_grant:
  "grant_approval demo_local_env ''apr_'' ''ops'' 2 60 None 1 demo_requested = (Inr demo_lease, demo_granted)"
  "lt_leases demo_granted = [demo_lease]" "lt_sessions demo_granted = [demo_session]" "lt_high_water demo_granted = None"
  "lt_canaries demo_granted = []"
  by (simp_all add: demo_granted_def grant_approval_def demo_requested_def demo_started_def empty_store_def read_request_def
      new_request_def demo_ask_def fresh_id_def demo_local_env_def id_drawn_def session_risk_state_def session_of_def demo_session_def
      issue_lease_def Let_def demo_lease_def decide_request_def MAX_LEASE_USES_def MAX_LEASE_TTL_SECONDS_def APPROVAL_TTL_SECONDS_def
      seconds_def nanos_per_second_def revokes_leases_def)

lemma demo_granted_reach: "local_steps demo_local_env empty_store demo_granted"
proof -
  have "local_step demo_local_env empty_store demo_started"
    using local_step.session [of demo_session empty_store demo_local_env] by (simp add: demo_started_def empty_store_def)
  moreover have "local_step demo_local_env demo_started demo_requested"
    using local_step.approval [of demo_local_env demo_started 0 demo_ask 0] by (simp add: demo_request)
  moreover have "from_cli_operator ''ops'' = Inr ''ops''" by code_simp
  then have "local_step demo_local_env demo_requested demo_granted"
    using local_step.granted [of "''ops''" "''ops''" demo_local_env demo_requested "''apr_''" 2 60 None 1] by (simp add: demo_granted_def)
  ultimately show ?thesis unfolding local_steps_def by (meson rtranclp.rtrancl_into_rtrancl rtranclp.rtrancl_refl)
qed

section \<open>Requests that expired\<close>

lemma record_risk_approvals: "record_risk_signal e wall i d weight source note st = (r, st') \<Longrightarrow> lt_approvals st' = lt_approvals st"
  by (auto simp: record_risk_signal_def Let_def id_drawn_def raise_risk_parts(2) split: if_splits sum.splits)

lemma note_approvals: "note_if_ruled e wall i label evidence st = (r, st') \<Longrightarrow> lt_approvals st' = lt_approvals st"
  by (auto simp: note_if_ruled_def record_detection_def Let_def id_drawn_def split: if_splits sum.splits option.splits)

lemma append_event_approvals:
  "append_event e wall i category act decision correlation payload st = (r, st') \<Longrightarrow> lt_approvals st' = lt_approvals st"
  by (auto simp: append_event_def Let_def id_drawn_def split: if_splits sum.splits)

lemma fatigue_approvals: "report_fatigue e wall q recent st = (r, st') \<Longrightarrow> lt_approvals st' = lt_approvals st"
  by (auto simp: report_fatigue_def Let_def split: prod.splits sum.splits
      dest!: note_approvals record_risk_approvals append_event_approvals)

lemma find_by_fingerprint_None:
  "find_by_fingerprint fp status st = None \<longleftrightarrow> \<not> (\<exists>q\<in>set (lt_approvals st). lq_fingerprint q = fp \<and> lq_status q = status)"
proof -
  let ?c = "sort_key (\<lambda>q. - lq_requested_at q) (filter (\<lambda>q. lq_fingerprint q = fp \<and> lq_status q = status) (lt_approvals st))"
  have "find_by_fingerprint fp status st = None \<longleftrightarrow> set ?c = {}"
    by (cases ?c) (simp_all add: find_by_fingerprint_def del: set_sort)
  then show ?thesis by auto
qed

lemma found_fingerprint:
  assumes "find_by_fingerprint fp status st = Some q"
  shows "q \<in> set (lt_approvals st) \<and> lq_status q = status"
proof -
  let ?c = "sort_key (\<lambda>q. - lq_requested_at q) (filter (\<lambda>q. lq_fingerprint q = fp \<and> lq_status q = status) (lt_approvals st))"
  obtain rest where "?c = q # rest" using assms by (auto simp: find_by_fingerprint_def split: list.splits)
  then have "q \<in> set ?c" by (metis list.set_intros(1))
  then show ?thesis by auto
qed

lemma session_kept: "\<lbrakk>safe_step st st'; session_risk_state st i = Inr risk\<rbrakk> \<Longrightarrow> \<exists>risk'. session_risk_state st' i = Inr risk'"
  unfolding safe_step_def store_le_def by blast

lemma note_total:
  assumes "session_risk_state st i = Inr risk"
  shows "\<exists>st1 risk'. note_if_ruled e wall i label evidence st = (Inr (), st1) \<and> session_risk_state st1 i = Inr risk'"
proof -
  have "session_of st i \<noteq> None" using assms by (auto simp: session_risk_state_def split: option.splits)
  then obtain st1 where n: "note_if_ruled e wall i label evidence st = (Inr (), st1)"
    by (cases "rule_for_label label") (simp_all add: note_if_ruled_def record_detection_def Let_def)
  then show ?thesis using session_kept [OF safe_note [of st e wall i label evidence] assms] by auto
qed

lemma refused_again:
  assumes "approval_fingerprint e (ak_session_id ask) (ak_action ask) (ak_resolved_resource ask) = Inr fp"
    and "find_by_fingerprint fp RequestDenied st = Some refused" "session_risk_state st (ak_session_id ask) = Inr risk"
  shows "\<exists>risk' st'. request_local_approval e wall ask now st = (Inr (PreviouslyDenied refused risk'), st')"
proof -
  obtain st1 risk1 where n: "note_if_ruled e wall (ak_session_id ask) ''capability_escalation_probing''
        (JObj [(''action'', JStr (local_action_as_str (ak_action ask))), (''resolved_resource'', JStr (ak_resolved_resource ask)),
               (''refused_approval_id'', JStr (lq_approval_id refused))]) st = (Inr (), st1)"
      "session_risk_state st1 (ak_session_id ask) = Inr risk1"
    using note_total [OF assms(3)] by blast
  show ?thesis
    using assms n by (simp add: request_local_approval_def Let_def record_risk_signal_def PROBING_SIGNAL_WEIGHT_def MAX_SIGNAL_WEIGHT_def)
qed

lemma created_by:
  assumes "approval_fingerprint e (ak_session_id ask) (ak_action ask) (ak_resolved_resource ask) = Inr fp"
    and "request_local_approval e wall ask now st = (Inr (ApprovalCreated q), st')"
  shows "\<exists>risk n st1. q = new_request e ask now fp risk st \<and> insert_request now q st = (Inr n, st1) \<and> lt_approvals st' = lt_approvals st1"
  using assms fatigue_approvals
  by (fastforce simp: request_local_approval_def Let_def split: sum.splits prod.splits option.splits if_splits)

section \<open>Properties\<close>



text \<open>
  C22: an action is allowed only when the risk of its session admits it and either the policy by itself allows it, or the
  policy asks for approval and the authorization spends a lease that an operator granted, at most fifteen minutes
  ago, for exactly this session, action and resolved resource. A denial of the policy is never lifted.
\<close>

theorem allowed_by_policy_or_operator:
  assumes "local_steps e empty_store st"
    and "authorize_decision e wall i a requested base key st = (Inr r, st')" "ld_outcome (la_decision r) = LocalAllow"
  shows "(\<forall>risk. session_risk_state st i = Inr risk \<longrightarrow> risk_admits risk a) \<and>
    (ld_outcome base = LocalAllow \<or>
     (ld_outcome base = LocalRequireApproval \<and>
      (\<exists>k q l. key = Some k \<and> q \<in> set (lt_approvals st') \<and> lq_status q = RequestGranted \<and> lq_decided_by q \<noteq> None \<and>
         lq_session_id q = i \<and> lq_action q = a \<and> lq_resolved_resource q = k \<and>
         la_lease r = Some l \<and> lq_lease_id q = Some (cl_lease_id l) \<and>
         (\<exists>t. lq_decided_at q = Some t \<and> wall < t + seconds MAX_LEASE_TTL_SECONDS))))"
  using authorize_allow [OF assms(2,3) reachable_lease_inv [OF assms(1)]] .

definition demo_base :: LocalDecision where
  "demo_base = local_decision LocalRequireApproval FsDelete ''f'' (Some ''/w/f'') ''p'' ''r'' RiskNormal"

lemma demo_authorized:
  "\<exists>r st'. authorize_decision demo_local_env 2 ''s'' FsDelete ''f'' demo_base (Some ''/w/f'') demo_granted = (Inr r, st') \<and>
     ld_outcome (la_decision r) = LocalAllow"
proof -
  have allow: "degrade_for_risk FsDelete LocalAllow RiskNormal = LocalAllow" by (simp add: degrade_allow risk_admits_def)
  show ?thesis
    by (simp add: allow authorize_decision_def Let_def observe_now_reporting_def observe_now_def demo_grant is_significant_regression_def
      CLOCK_REGRESSION_TOLERANCE_SECONDS_def session_risk_state_def session_of_def demo_session_def spend_lease_def demo_base_def
      local_decision_def applied_outcome upgrade_outcome consume_lease_def consume_leases_atomically_def
      lease_candidate_def lease_covers_def lease_is_usable_def demo_lease_def seconds_def nanos_per_second_def
      charge_lease_def exhaust_lease_def read_lease_def rbind_def touch_canary_def canary_at_def ask_approval_def)
qed

theorem allowed_by_policy_or_operator_witness:
  "\<exists>q\<in>set (lt_approvals (snd (authorize_decision demo_local_env 2 ''s'' FsDelete ''f'' demo_base (Some ''/w/f'') demo_granted))).
     lq_status q = RequestGranted \<and> lq_session_id q = ''s'' \<and> lq_resolved_resource q = ''/w/f''"
proof -
  obtain r st' where r: "authorize_decision demo_local_env 2 ''s'' FsDelete ''f'' demo_base (Some ''/w/f'') demo_granted = (Inr r, st')"
    "ld_outcome (la_decision r) = LocalAllow"
    using demo_authorized by blast
  have "ld_outcome demo_base \<noteq> LocalAllow" by (simp add: demo_base_def local_decision_def)
  then show ?thesis using allowed_by_policy_or_operator [OF demo_granted_reach r] r(1) by auto
qed


text \<open>A stale seal: the risk rose to elevated after a response had read it as normal.\<close>

definition demo_raised :: local_store where
  "demo_raised = snd (escalate_risk_to demo_local_env 0 ''s'' RiskElevated ''test'' demo_granted)"

lemma demo_raised_risk: "session_risk_state demo_raised ''s'' = Inr RiskElevated"
proof -
  have "session_risk_state demo_granted ''s'' = Inr RiskNormal"
    by (simp add: session_risk_state_def session_of_def demo_grant demo_session_def)
  then show ?thesis
    by (simp add: demo_raised_def escalate_risk_to_def raise_risk_parts less_eq_RiskState_def)
qed


text \<open>
  Spending several leases is atomic. If it succeeds, one unexpired lease of the session for the
  right action and resource is spent for every use asked, and exactly that many uses are gone; otherwise the
  store is what it was.
\<close>

theorem leases_spent_atomically:
  assumes "consume_leases_atomically i uses now st = (r, st')" "distinct (map cl_lease_id (lt_leases st))"
  shows "case r of
      Inr (Consumed_leases leases) \<Rightarrow>
        list_all2 (lease_for i now) leases uses \<and> uses_total (lt_leases st) = uses_total (lt_leases st') + length uses
    | _ \<Rightarrow> st' = st"
  using consumed_leases assms unspent_unchanged [OF assms(1)]
  by (auto split: sum.splits AtomicLeaseConsumption.splits)

theorem leases_spent_atomically_witness:
  "snd (consume_leases_atomically ''s'' [\<lparr>lu_action = FsDelete, lu_resource = ''/w/f''\<rparr>, \<lparr>lu_action = FsWrite, lu_resource = ''/w/g''\<rparr>] 2 demo_granted) =
     demo_granted"
proof -
  let ?uses = "[\<lparr>lu_action = FsDelete, lu_resource = ''/w/f''\<rparr>, \<lparr>lu_action = FsWrite, lu_resource = ''/w/g''\<rparr>]"
  have missing: "fst (consume_leases_atomically ''s'' ?uses 2 demo_granted) = Inr (Missing_leases [1])"
    by (simp add: consume_leases_atomically_def demo_grant lease_candidate_def lease_covers_def lease_is_usable_def demo_lease_def
        seconds_def nanos_per_second_def charge_lease_def exhaust_lease_def)
  show ?thesis
    using leases_spent_atomically [of "''s''" ?uses 2 demo_granted, OF prod.collapse [symmetric]] missing by (simp add: demo_grant)
qed

text \<open>
  Between any two readings of the clock, whatever happens in between and whatever the wall clock
  says, the time does not go back by a second, and it is never behind the wall clock.
\<close>

theorem clock_keeps_its_second:
  assumes "observe_now wall st = (r, st1)" "local_steps e st1 st2" "observe_now wall' st2 = (r', st3)"
  shows "cr_now r < cr_now r' + seconds 1 \<and> wall' \<le> cr_now r'"
proof -
  obtain h where h: "lt_high_water st1 = Some h" "cr_now r < h + seconds 1"
    using assms(1) by (fastforce simp: observe_now_def seconds_def nanos_per_second_def ADVANCE_GRANULARITY_SECONDS_def
        split: option.splits if_splits)
  then obtain h' where "lt_high_water st2 = Some h'" "h \<le> h'"
    using local_steps_safe [OF assms(2)] by (auto simp: safe_step_def store_le_def)
  then show ?thesis using assms(3) h(2) by (auto simp: observe_now_def)
qed

theorem clock_keeps_its_second_witness:
  "cr_now (fst (observe_now (seconds 9) empty_store)) <
     cr_now (fst (observe_now 0 (snd (observe_now (seconds 9) empty_store)))) + seconds 1"
proof -
  let ?st = "snd (observe_now (seconds 9) empty_store)"
  have "local_steps demo_local_env ?st ?st" by (simp add: local_steps_def)
  then show ?thesis
    using clock_keeps_its_second [OF prod.collapse [symmetric] _ prod.collapse [symmetric]] by blast
qed

text \<open>The time can go back by less than a second: the mark is not moved for less.\<close>

lemma clock_reading_can_fall:
  "\<exists>r1 r2 st1 st2. observe_now 900 (snd (observe_now 0 empty_store)) = (r1, st1) \<and> observe_now 100 st1 = (r2, st2) \<and>
     cr_now r2 < cr_now r1"
  by (simp add: observe_now_def empty_store_def seconds_def nanos_per_second_def ADVANCE_GRANULARITY_SECONDS_def)

text \<open>
  Sealing writes a risk that was read before: a risk raised in between is lowered again.
\<close>

lemma stale_seal_lowers_risk:
  assumes "session_of st i = Some s" "sn_risk_state s < target"
    and "escalate_risk_to e wall i target reason st = (r, st1)"
  shows "session_risk_state st1 i = Inr target \<and>
     session_risk_state (snd (seal_session wall i (sn_risk_state s) st1)) i = Inr (sn_risk_state s)"
proof -
  have now: "session_risk_state st i = Inr (sn_risk_state s)" using assms(1) by (simp add: session_risk_state_def)
  then have raised: "session_risk_state st1 i = Inr target"
    using assms(2,3) by (auto simp: escalate_risk_to_def raise_risk_parts not_le split: if_splits)
  then show ?thesis by (simp add: seal_risk)
qed

text \<open>
  A request that expired unanswered is retired as denied when its capability is asked for again;
  from then on every further ask is answered as one that was refused before, and loads the risk of the session, though
  nobody refused it.
\<close>

theorem expired_request_counts_as_refusal:
  assumes "approval_fingerprint e (ak_session_id ask) (ak_action ask) (ak_resolved_resource ask) = Inr fp"
    and "p \<in> set (lt_approvals st)" "lq_session_id p = ak_session_id ask" "lq_fingerprint p = fp"
    and "lq_status p = RequestPending" "lq_expires_at p \<le> now"
    and "request_local_approval e wall ask now st = (Inr (ApprovalCreated q), st')"
  shows "\<exists>refused risk st''. request_local_approval e wall' ask now' st' = (Inr (PreviouslyDenied refused risk), st'') \<and>
    lq_status refused = RequestDenied \<and> refused \<in> set (lt_approvals st')"
proof -
  obtain risk n st1 where c: "q = new_request e ask now fp risk st" "insert_request now q st = (Inr n, st1)" "lt_approvals st' = lt_approvals st1"
    using created_by [OF assms(1,7)] by blast
  have "retire_expired now (ak_session_id ask) fp p \<in> set (lt_approvals st')"
    using c assms(2) by (auto simp: insert_request_def Let_def new_request_def split: if_splits)
  moreover have "lq_status (retire_expired now (ak_session_id ask) fp p) = RequestDenied"
    "lq_fingerprint (retire_expired now (ak_session_id ask) fp p) = fp"
    using assms(3-6) by (simp_all add: retire_expired_def)
  ultimately have "find_by_fingerprint fp RequestDenied st' \<noteq> None" unfolding find_by_fingerprint_None by blast
  then obtain refused where refused: "find_by_fingerprint fp RequestDenied st' = Some refused" by blast
  obtain risk0 where "session_risk_state st (ak_session_id ask) = Inr risk0"
    using assms(1,7) by (auto simp: request_local_approval_def Let_def split: sum.splits)
  then obtain risk1 where "session_risk_state st' (ak_session_id ask) = Inr risk1"
    using session_kept [OF safe_request [THEN safe_snd, OF assms(7)]] by blast
  from refused_again [OF assms(1) refused this] show ?thesis using found_fingerprint [OF refused] by blast
qed

lemma demo_asked_again:
  "\<exists>q st'. request_local_approval demo_local_env 0 demo_ask (seconds 1000) demo_requested = (Inr (ApprovalCreated q), st')"
  by (simp add: request_local_approval_def Let_def demo_fingerprint demo_ask_def demo_requested_def demo_started_def demo_session_def
      session_risk_state_def session_of_def find_by_fingerprint_def empty_store_def insert_request_def new_request_def
      approval_is_actionable_def retire_expired_def FATIGUE_THRESHOLD_def FATIGUE_WINDOW_SECONDS_def APPROVAL_TTL_SECONDS_def
      seconds_def nanos_per_second_def id_drawn_def)

theorem expired_request_counts_as_refusal_witness:
  "\<exists>q st' refused risk. request_local_approval demo_local_env 0 demo_ask (seconds 1000) demo_requested = (Inr (ApprovalCreated q), st') \<and>
     fst (request_local_approval demo_local_env 0 demo_ask (seconds 1001) st') = Inr (PreviouslyDenied refused risk)"
proof -
  let ?p = "new_request demo_local_env demo_ask 0 demo_fp RiskNormal demo_started"
  obtain q st' where q: "request_local_approval demo_local_env 0 demo_ask (seconds 1000) demo_requested = (Inr (ApprovalCreated q), st')"
    using demo_asked_again by blast
  have "approval_fingerprint demo_local_env (ak_session_id demo_ask) (ak_action demo_ask) (ak_resolved_resource demo_ask) = Inr demo_fp"
    by (simp add: demo_ask_def demo_fingerprint)
  moreover have "?p \<in> set (lt_approvals demo_requested)" "lq_session_id ?p = ak_session_id demo_ask" "lq_fingerprint ?p = demo_fp"
    "lq_status ?p = RequestPending" "lq_expires_at ?p \<le> seconds 1000"
    by (simp_all add: demo_requested_def new_request_def APPROVAL_TTL_SECONDS_def seconds_def nanos_per_second_def)
  ultimately have "\<exists>refused risk st''. request_local_approval demo_local_env 0 demo_ask (seconds 1001) st' = (Inr (PreviouslyDenied refused risk), st'')"
    using expired_request_counts_as_refusal [OF _ _ _ _ _ _ q] by blast
  then show ?thesis using q by auto
qed

end
