(* ===== verification/LocalMcp.thy ===== *)
theory LocalMcp
  imports LocalSafety
begin

text \<open>
  MCP servers as the local control plane sees them (\<^verbatim>\<open>vigil-local/src/mcp.rs\<close>): the registry of servers and tools,
  drift against the recorded baseline, the resources pulled out of a tool call, and the authorization of the
  call. The registry is a pair of tables beside the store; a reading of the wall clock serves one call.
  The files the launch of a proxy looks at are a parameter.
\<close>

section \<open>Vocabulary\<close>

definition MAX_ARGUMENT_DEPTH :: nat where "MAX_ARGUMENT_DEPTH = 16"
definition MAX_EXTRACTED_RESOURCES :: nat where "MAX_EXTRACTED_RESOURCES = 64"
definition MAX_RESOURCE_BYTES :: nat where "MAX_RESOURCE_BYTES = 4096"

datatype McpTransport = TransportStdio | TransportHttp | TransportUnknown

fun transport_as_str :: "McpTransport \<Rightarrow> string" where
  "transport_as_str TransportStdio = ''stdio''"
| "transport_as_str TransportHttp = ''http''"
| "transport_as_str TransportUnknown = ''unknown''"

definition transport_from_str :: "string \<Rightarrow> local_error + McpTransport" where
  "transport_from_str v =
     (if v = ''stdio'' then Inr TransportStdio
      else if v = ''http'' then Inr TransportHttp
      else if v = ''unknown'' then Inr TransportUnknown
      else Inl (LocalInvalidValue ''transport''))"

datatype McpTrustState = ServerTrusted | ServerQuarantined

fun trust_as_str :: "McpTrustState \<Rightarrow> string" where
  "trust_as_str ServerTrusted = ''trusted''"
| "trust_as_str ServerQuarantined = ''quarantined''"

record McpServer =
  mcs_server_id :: string
  mcs_name :: string
  mcs_transport :: McpTransport
  mcs_executable :: "string option"
  mcs_executable_sha256 :: "string option"
  mcs_version :: "string option"
  mcs_first_seen :: timestamp
  mcs_last_seen :: timestamp
  mcs_trust_state :: McpTrustState

record McpTool =
  mct_server_id :: string
  mct_tool_name :: string
  mct_schema_hash :: string
  mct_description_hash :: string
  mct_declared_capabilities :: "LocalAction list"
  mct_first_seen :: timestamp
  mct_last_seen :: timestamp

record McpToolManifest =
  mcm_name :: string
  mcm_description :: string
  mcm_input_schema :: json
  mcm_declared_capabilities :: "LocalAction list"

record mcp_tables =
  mtb_servers :: "McpServer list"
  mtb_tools :: "McpTool list"

definition manifest_schema_hash :: "local_env \<Rightarrow> McpToolManifest \<Rightarrow> local_error + string" where
  "manifest_schema_hash e m =
     (case hash_canonical_json (lv_format e) (lv_sha e) (mcm_input_schema m) of
        Inl err \<Rightarrow> Inl (LocalNotCanonical err)
      | Inr h \<Rightarrow> Inr (hash_display h))"

definition manifest_description_hash :: "local_env \<Rightarrow> McpToolManifest \<Rightarrow> string" where
  "manifest_description_hash e m = hash_display (hash_bytes (lv_sha e) (utf8 (mcm_description m)))"

datatype McpDrift =
    ServerSubstituted string string
  | DriftToolAdded string
  | DriftToolRemoved string
  | DriftSchemaChanged string
  | DriftDescriptionChanged string
  | DriftCapabilityAdded string LocalAction

definition drift_rule :: "McpDrift \<Rightarrow> DetectionRule" where
  "drift_rule d =
     (let wanted = (case d of ServerSubstituted _ _ \<Rightarrow> ''VIGIL-L011'' | _ \<Rightarrow> ''VIGIL-L010'')
      in case find (\<lambda>rule. rl_id rule = wanted) MCP_RULES of None \<Rightarrow> MCP_RULES ! 0 | Some rule \<Rightarrow> rule)"

definition drift_label :: "McpDrift \<Rightarrow> string" where
  "drift_label d = (case d of ServerSubstituted _ _ \<Rightarrow> ''mcp_server_substitution'' | _ \<Rightarrow> ''mcp_capability_drift'')"

fun drift_json :: "McpDrift \<Rightarrow> json" where
  "drift_json (ServerSubstituted r ob) =
     JObj [(''kind'', JStr ''server_substituted''), (''registered_sha256'', JStr r), (''observed_sha256'', JStr ob)]"
| "drift_json (DriftToolAdded t) = JObj [(''kind'', JStr ''tool_added''), (''tool'', JStr t)]"
| "drift_json (DriftToolRemoved t) = JObj [(''kind'', JStr ''tool_removed''), (''tool'', JStr t)]"
| "drift_json (DriftSchemaChanged t) = JObj [(''kind'', JStr ''tool_schema_changed''), (''tool'', JStr t)]"
| "drift_json (DriftDescriptionChanged t) = JObj [(''kind'', JStr ''tool_description_changed''), (''tool'', JStr t)]"
| "drift_json (DriftCapabilityAdded t a) =
     JObj [(''kind'', JStr ''tool_capability_added''), (''tool'', JStr t), (''capability'', JStr (local_action_as_str a))]"

section \<open>The resources of a call\<close>

datatype ResourceKind = ResourcePath | ResourceUrl

fun implied_action :: "ResourceKind \<Rightarrow> LocalAction" where
  "implied_action ResourcePath = FsRead"
| "implied_action ResourceUrl = NetworkConnect"

record ExtractedResource =
  xq_argument :: string
  xq_value :: string
  xq_kind :: ResourceKind

definition classify_resource :: "string \<Rightarrow> ResourceKind option" where
  "classify_resource t =
     (if t = [] \<or> MAX_RESOURCE_BYTES < str_len t \<or> CHR 0x00 \<in> set t then None
      else let lowered = to_ascii_lowercase t
           in if starts_with lowered ''http://'' \<or> starts_with lowered ''https://'' \<or> starts_with lowered ''ws://'' \<or>
                 starts_with lowered ''wss://'' \<or> starts_with lowered ''ftp://'' then Some ResourceUrl
              else if starts_with lowered ''file://'' then Some ResourcePath
              else if starts_with t ''/'' \<or> starts_with t ''~/'' \<or> t = ''~'' \<or> starts_with t ''./'' \<or> starts_with t ''../'' \<or>
                      CHR ''/'' \<in> set t then Some ResourcePath
              else None)"

definition extend_path :: "string \<Rightarrow> string \<Rightarrow> string" where
  "extend_path path segment = (if path = [] then segment else path @ ''.'' @ segment)"

definition walk_stops :: "nat \<Rightarrow> ExtractedResource list \<Rightarrow> bool" where
  "walk_stops depth found = (MAX_ARGUMENT_DEPTH < depth \<or> MAX_EXTRACTED_RESOURCES \<le> length found)"

text \<open>
  The object's entries are in the order the document's map iterates them.
\<close>

fun mcp_walk :: "json \<Rightarrow> string \<Rightarrow> nat \<Rightarrow> ExtractedResource list \<Rightarrow> ExtractedResource list"
  and mcp_walk_items :: "json list \<Rightarrow> nat \<Rightarrow> string \<Rightarrow> nat \<Rightarrow> ExtractedResource list \<Rightarrow> ExtractedResource list"
  and mcp_walk_entries :: "(string \<times> json) list \<Rightarrow> string \<Rightarrow> nat \<Rightarrow> ExtractedResource list \<Rightarrow> ExtractedResource list"
where
  "mcp_walk (JStr t) path depth found =
     (if walk_stops depth found then found
      else case classify_resource t of
             None \<Rightarrow> found
           | Some kind \<Rightarrow> found @ [\<lparr>xq_argument = (if path = [] then ''<root>'' else path), xq_value = t, xq_kind = kind\<rparr>])"
| "mcp_walk (JArr items) path depth found =
     (if walk_stops depth found then found else mcp_walk_items items 0 path depth found)"
| "mcp_walk (JObj entries) path depth found =
     (if walk_stops depth found then found else mcp_walk_entries entries path depth found)"
| "mcp_walk v path depth found = found"
| "mcp_walk_items [] index path depth found = found"
| "mcp_walk_items (v # vs) index path depth found =
     mcp_walk_items vs (Suc index) path depth (mcp_walk v (extend_path path (show_nat index)) (Suc depth) found)"
| "mcp_walk_entries [] path depth found = found"
| "mcp_walk_entries ((k, v) # es) path depth found =
     mcp_walk_entries es path depth (mcp_walk v (extend_path path k) (Suc depth) found)"

definition extract_resources :: "json \<Rightarrow> ExtractedResource list" where
  "extract_resources arguments = take MAX_EXTRACTED_RESOURCES (mcp_walk arguments [] 0 [])"

record McpToolCall =
  mcc_server_name :: string
  mcc_tool_name :: string
  mcc_arguments :: json

section \<open>The registry\<close>

definition mcp_name_char :: "char \<Rightarrow> bool" where
  "mcp_name_char c = (is_ascii_alphanumeric c \<or> c \<in> set ''._:-'')"

definition validate_mcp_name :: "string \<Rightarrow> local_error + unit" where
  "validate_mcp_name name =
     (if name = [] \<or> 128 < str_len name \<or> \<not> list_all mcp_name_char name then Inl (LocalInvalidValue ''name'') else Inr ())"

definition ascii_hexdigit :: "char \<Rightarrow> bool" where
  "ascii_hexdigit c =
     (let n = (of_char c :: nat) in (48 \<le> n \<and> n \<le> 57) \<or> (65 \<le> n \<and> n \<le> 70) \<or> (97 \<le> n \<and> n \<le> 102))"

definition validate_mcp_hash :: "string \<Rightarrow> local_error + unit" where
  "validate_mcp_hash hash =
     (let digest = (case strip_prefix hash ''sha256:'' of None \<Rightarrow> hash | Some rest \<Rightarrow> rest)
      in if str_len digest \<noteq> 64 \<or> \<not> list_all ascii_hexdigit digest then Inl (LocalInvalidValue ''executable_sha256'')
         else Inr ())"

definition has_complete_identity :: "McpServer \<Rightarrow> bool" where
  "has_complete_identity s =
     (mcs_transport s = TransportStdio \<and>
      (case mcs_executable s of None \<Rightarrow> False | Some p \<Rightarrow> p \<noteq> [] \<and> CHR 0x00 \<notin> set p) \<and>
      (case mcs_executable_sha256 s of None \<Rightarrow> False | Some hash \<Rightarrow> validate_mcp_hash hash = Inr ()))"

definition server_by_name :: "mcp_tables \<Rightarrow> string \<Rightarrow> McpServer option" where
  "server_by_name mt name = find (\<lambda>s. mcs_name s = name) (mtb_servers mt)"

definition read_tools :: "mcp_tables \<Rightarrow> string \<Rightarrow> McpTool list" where
  "read_tools mt server_id = sort_key mct_tool_name (filter (\<lambda>t. mct_server_id t = server_id) (mtb_tools mt))"

definition refresh_server :: "timestamp \<Rightarrow> string option \<Rightarrow> string \<Rightarrow> McpServer \<Rightarrow> McpServer" where
  "refresh_server now version sha s =
     s\<lparr>mcs_last_seen := now, mcs_version := (case version of None \<Rightarrow> mcs_version s | Some v \<Rightarrow> Some v),
       mcs_executable_sha256 := (case mcs_executable_sha256 s of None \<Rightarrow> Some sha | Some old \<Rightarrow> Some old)\<rparr>"

definition new_server ::
    "local_env \<Rightarrow> timestamp \<Rightarrow> string \<Rightarrow> string \<Rightarrow> string \<Rightarrow> string option \<Rightarrow> local_store \<Rightarrow> McpServer" where
  "new_server e now name executable sha version st =
     \<lparr>mcs_server_id = fresh_id e ''mcp_'' st, mcs_name = name, mcs_transport = TransportStdio, mcs_executable = Some executable,
      mcs_executable_sha256 = Some sha, mcs_version = map_option (\<lambda>v. single_line_excerpt (lv_marks e) v 100) version,
      mcs_first_seen = now, mcs_last_seen = now, mcs_trust_state = ServerTrusted\<rparr>"

definition register_mcp_server ::
    "local_env \<Rightarrow> timestamp \<Rightarrow> string \<Rightarrow> McpTransport \<Rightarrow> string option \<Rightarrow> string option \<Rightarrow> string option
      \<Rightarrow> local_store \<times> mcp_tables \<Rightarrow> (local_error + McpServer) \<times> (local_store \<times> mcp_tables)" where
  "register_mcp_server e now name transport executable sha version p =
     (let (st, mt) = p
      in case validate_mcp_name name of
           Inl err \<Rightarrow> (Inl err, p)
         | Inr _ \<Rightarrow>
             if transport \<noteq> TransportStdio then (Inl (LocalInvalidValue ''transport''), p)
             else case executable of
                    None \<Rightarrow> (Inl (LocalInvalidValue ''executable''), p)
                  | Some exe \<Rightarrow>
             if exe = [] \<or> MAX_RESOURCE_BYTES < str_len exe \<or> CHR 0x00 \<in> set exe then (Inl (LocalInvalidValue ''executable''), p)
             else case sha of
                    None \<Rightarrow> (Inl (LocalInvalidValue ''executable_sha256''), p)
                  | Some digest \<Rightarrow>
             (case validate_mcp_hash digest of
                Inl err \<Rightarrow> (Inl err, p)
              | Inr _ \<Rightarrow>
             (case server_by_name mt name of
                Some existing \<Rightarrow>
                  if mcs_transport existing \<noteq> transport \<or> mcs_executable existing \<noteq> Some exe \<or>
                     mcs_executable_sha256 existing \<noteq> Some digest
                  then (Inl (LocalIntegrity ''MCP server was registered with a different transport, executable, or binary''), p)
                  else let servers = map (\<lambda>s. if mcs_server_id s = mcs_server_id existing then refresh_server now version digest s else s)
                                       (mtb_servers mt)
                       in (case find (\<lambda>s. mcs_server_id s = mcs_server_id existing) servers of
                             None \<Rightarrow> (Inl LocalStorage, p)
                           | Some refreshed \<Rightarrow> (Inr refreshed, (st, mt\<lparr>mtb_servers := servers\<rparr>)))
              | None \<Rightarrow>
                  (let s = new_server e now name exe digest version st
                   in if mcs_server_id s \<in> mcs_server_id ` set (mtb_servers mt) then (Inl LocalStorage, p)
                      else (Inr s, (id_drawn st, mt\<lparr>mtb_servers := mtb_servers mt @ [s]\<rparr>))))))"

definition quarantine_mcp_server :: "string \<Rightarrow> bool \<Rightarrow> mcp_tables \<Rightarrow> (local_error + unit) \<times> mcp_tables" where
  "quarantine_mcp_server name quarantined mt =
     (let state = (if quarantined then ServerQuarantined else ServerTrusted);
          mt' = mt\<lparr>mtb_servers := map (\<lambda>s. if mcs_name s = name then s\<lparr>mcs_trust_state := state\<rparr> else s) (mtb_servers mt)\<rparr>
      in if length (filter (\<lambda>s. mcs_name s = name) (mtb_servers mt)) = 1 then (Inr (), mt')
         else (Inl (LocalNotFound ''MCP server''), mt'))"

section \<open>Drift\<close>

definition substitution_drift :: "McpServer \<Rightarrow> string option \<Rightarrow> McpDrift list" where
  "substitution_drift s observed =
     (case (mcs_executable_sha256 s, observed) of
        (Some registered, Some ob) \<Rightarrow> if registered \<noteq> ob then [ServerSubstituted registered ob] else []
      | _ \<Rightarrow> [])"

definition removed_drift :: "McpTool list \<Rightarrow> McpToolManifest list \<Rightarrow> McpDrift list" where
  "removed_drift known manifests =
     map (\<lambda>t. DriftToolRemoved (mct_tool_name t)) (filter (\<lambda>t. mct_tool_name t \<notin> mcm_name ` set manifests) known)"

text \<open>What one tool on record says of its manifest.\<close>

definition tool_drift :: "McpTool \<Rightarrow> McpToolManifest \<Rightarrow> string \<Rightarrow> string \<Rightarrow> McpDrift list" where
  "tool_drift existing m schema description =
     (if mct_schema_hash existing \<noteq> schema then [DriftSchemaChanged (mcm_name m)] else []) @
     (if mct_description_hash existing \<noteq> description then [DriftDescriptionChanged (mcm_name m)] else []) @
     map (DriftCapabilityAdded (mcm_name m))
       (filter (\<lambda>a. a \<notin> set (mct_declared_capabilities existing)) (mcm_declared_capabilities m))"

definition update_tool ::
    "timestamp \<Rightarrow> string \<Rightarrow> string \<Rightarrow> string \<Rightarrow> string \<Rightarrow> LocalAction list \<Rightarrow> McpTool \<Rightarrow> McpTool" where
  "update_tool now server_id name schema description declared t =
     (if mct_server_id t = server_id \<and> mct_tool_name t = name
      then t\<lparr>mct_schema_hash := schema, mct_description_hash := description, mct_declared_capabilities := declared,
             mct_last_seen := now\<rparr>
      else t)"

fun sync_loop ::
    "local_env \<Rightarrow> timestamp \<Rightarrow> string \<Rightarrow> McpTool list \<Rightarrow> bool \<Rightarrow> McpToolManifest list \<Rightarrow> McpTool list \<Rightarrow> McpDrift list
      \<Rightarrow> local_error + (McpTool list \<times> McpDrift list)" where
  "sync_loop e now server_id known preserve [] staged drift = Inr (staged, drift)"
| "sync_loop e now server_id known preserve (m # ms) staged drift =
     rbind (validate_mcp_name (mcm_name m)) (\<lambda>_.
     rbind (manifest_schema_hash e m) (\<lambda>schema.
       let description = manifest_description_hash e m
       in case find (\<lambda>t. mct_tool_name t = mcm_name m) known of
            None \<Rightarrow>
              if \<exists>t\<in>set staged. mct_server_id t = server_id \<and> mct_tool_name t = mcm_name m then Inl LocalStorage
              else sync_loop e now server_id known preserve ms
                     (staged @ [\<lparr>mct_server_id = server_id, mct_tool_name = mcm_name m, mct_schema_hash = schema,
                                 mct_description_hash = description, mct_declared_capabilities = mcm_declared_capabilities m,
                                 mct_first_seen = now, mct_last_seen = now\<rparr>])
                     (drift @ (if known = [] then [] else [DriftToolAdded (mcm_name m)]))
          | Some existing \<Rightarrow>
              sync_loop e now server_id known preserve ms
                (map (update_tool now server_id (mcm_name m) schema description
                        (if preserve then mct_declared_capabilities existing else mcm_declared_capabilities m)) staged)
                (drift @ tool_drift existing m schema description)))"

definition sync_mcp_tools_inner ::
    "local_env \<Rightarrow> timestamp \<Rightarrow> string \<Rightarrow> string option \<Rightarrow> McpToolManifest list \<Rightarrow> bool \<Rightarrow> mcp_tables
      \<Rightarrow> (local_error + McpDrift list) \<times> mcp_tables" where
  "sync_mcp_tools_inner e now name observed manifests preserve mt =
     (case server_by_name mt name of
        None \<Rightarrow> (Inl (LocalNotFound ''MCP server''), mt)
      | Some s \<Rightarrow>
          (let known = read_tools mt (mcs_server_id s)
           in case sync_loop e now (mcs_server_id s) known preserve manifests (mtb_tools mt)
                     (substitution_drift s observed @ removed_drift known manifests) of
                Inl err \<Rightarrow> (Inl err, mt)
              | Inr (staged, drift) \<Rightarrow> (Inr drift, if drift = [] then mt\<lparr>mtb_tools := staged\<rparr> else mt)))"

definition sync_mcp_tools ::
    "local_env \<Rightarrow> timestamp \<Rightarrow> string \<Rightarrow> string option \<Rightarrow> McpToolManifest list \<Rightarrow> mcp_tables
      \<Rightarrow> (local_error + McpDrift list) \<times> mcp_tables" where
  "sync_mcp_tools e now name observed manifests mt = sync_mcp_tools_inner e now name observed manifests False mt"

definition sync_live_mcp_tools ::
    "local_env \<Rightarrow> timestamp \<Rightarrow> string \<Rightarrow> McpToolManifest list \<Rightarrow> mcp_tables \<Rightarrow> (local_error + McpDrift list) \<times> mcp_tables" where
  "sync_live_mcp_tools e now name manifests mt = sync_mcp_tools_inner e now name None manifests True mt"

fun record_mcp_drift_loop ::
    "local_env \<Rightarrow> timestamp \<Rightarrow> string \<Rightarrow> string \<Rightarrow> McpDrift list \<Rightarrow> RiskState \<Rightarrow> local_store
      \<Rightarrow> (local_error + RiskState) \<times> local_store" where
  "record_mcp_drift_loop e wall i server [] risk st = (Inr risk, st)"
| "record_mcp_drift_loop e wall i server (change # rest) risk st =
     (let rule = drift_rule change
      in case record_detection e wall i rule (JObj [(''server'', JStr server), (''drift'', drift_json change)]) None st of
           (Inl err, st1) \<Rightarrow> (Inl err, st1)
         | (Inr _, st1) \<Rightarrow>
        (case record_risk_signal e wall i (rl_dimension rule) (rl_weight rule) None (rl_description rule) st1 of
           (Inl err, st2) \<Rightarrow> (Inl err, st2)
         | (Inr risk', st2) \<Rightarrow>
        (case (if DetCritical \<le> rl_severity rule \<or> revokes_leases risk'
               then open_and_attach e wall i (rl_severity rule) (rl_name rule @ '' on MCP server `'' @ server @ ''`'') st2
               else (Inr (), st2)) of
           (Inl err, st3) \<Rightarrow> (Inl err, st3)
         | (Inr _, st3) \<Rightarrow> record_mcp_drift_loop e wall i server rest risk' st3)))"

definition record_mcp_drift ::
    "local_env \<Rightarrow> timestamp \<Rightarrow> string \<Rightarrow> string \<Rightarrow> McpDrift list \<Rightarrow> local_store \<Rightarrow> (local_error + RiskState) \<times> local_store" where
  "record_mcp_drift e wall i server drift st =
     (case session_risk_state st i of
        Inl err \<Rightarrow> (Inl err, st)
      | Inr risk \<Rightarrow> record_mcp_drift_loop e wall i server drift risk st)"

section \<open>Launching a server\<close>

text \<open>What opening and reading an executable gives: its kind, permission bits, recorded length and bytes.\<close>

record executable_file =
  ef_is_file :: bool
  ef_mode :: "32 word"
  ef_len :: nat
  ef_bytes :: "u8 list"

datatype launch_error = LaunchRefused local_error | LaunchUnavailable string | LaunchIo string

definition MAX_MCP_EXECUTABLE_BYTES :: nat where "MAX_MCP_EXECUTABLE_BYTES = 128 * 1024 * 1024"

definition verify_mcp_proxy_executable ::
    "local_env \<Rightarrow> local_host \<Rightarrow> (string \<Rightarrow> string + executable_file) \<Rightarrow> mcp_tables \<Rightarrow> string \<Rightarrow> string \<Rightarrow> launch_error + string" where
  "verify_mcp_proxy_executable e h open_file mt name requested =
     (case server_by_name mt name of
        None \<Rightarrow> Inl (LaunchRefused (LocalNotFound ''MCP server''))
      | Some s \<Rightarrow>
     if mcs_trust_state s \<noteq> ServerTrusted \<or> \<not> has_complete_identity s
     then Inl (LaunchRefused (LocalUnauthorized ''the MCP proxy requires a trusted server with complete executable identity''))
     else case mcs_executable s of
        None \<Rightarrow> Inl (LaunchRefused (LocalIntegrity ''trusted MCP server has no executable path''))
      | Some executable \<Rightarrow>
     (case ho_canonicalize h executable of
        Inl reason \<Rightarrow> Inl (LaunchUnavailable reason)
      | Inr registered \<Rightarrow>
     (case ho_canonicalize h requested of
        Inl reason \<Rightarrow> Inl (LaunchUnavailable reason)
      | Inr wanted \<Rightarrow>
     if wanted \<noteq> registered
     then Inl (LaunchRefused (LocalUnauthorized ''the proxy command is not the executable registered for this MCP server''))
     else case open_file registered of
        Inl reason \<Rightarrow> Inl (LaunchIo reason)
      | Inr f \<Rightarrow>
     if \<not> ef_is_file f \<or> ef_mode f AND 73 = 0 \<or> MAX_MCP_EXECUTABLE_BYTES < ef_len f
     then Inl (LaunchRefused (LocalUnauthorized ''the registered MCP executable is not a bounded executable file''))
     else let bytes = take (MAX_MCP_EXECUTABLE_BYTES + 1) (ef_bytes f)
     in if MAX_MCP_EXECUTABLE_BYTES < length bytes
        then Inl (LaunchRefused (LocalUnauthorized ''the registered MCP executable exceeds the hashing size bound''))
        else case mcs_executable_sha256 s of
           None \<Rightarrow> Inl (LaunchRefused (LocalIntegrity ''trusted MCP server has no executable hash''))
         | Some expected \<Rightarrow>
             if hash_display (hash_bytes (lv_sha e) bytes) \<noteq> expected
             then Inl (LaunchRefused (LocalIntegrity ''MCP server changed binary identity; refusing proxy launch''))
             else Inr registered)))"

section \<open>Authorizing a call\<close>

record McpResourceDecision =
  mrd_argument :: string
  mrd_requested :: string
  mrd_kind :: ResourceKind
  mrd_action :: LocalAction
  mrd_outcome :: LocalOutcome
  mrd_determining_policy :: string
  mrd_reason :: string
  mrd_approval_id :: "string option"

record McpAuthorization =
  mza_server_name :: string
  mza_tool_name :: string
  mza_permitted :: bool
  mza_resources :: "McpResourceDecision list"
  mza_scope_escapes :: "string list"
  mza_risk_state :: RiskState
  mza_reason :: string

fun kind_text :: "ResourceKind \<Rightarrow> string" where
  "kind_text ResourcePath = ''path''"
| "kind_text ResourceUrl = ''url''"

definition resource_json :: "McpResourceDecision \<Rightarrow> json" where
  "resource_json d =
     JObj [(''argument'', JStr (mrd_argument d)), (''requested'', JStr (mrd_requested d)), (''kind'', JStr (kind_text (mrd_kind d))),
           (''action'', JStr (local_action_as_str (mrd_action d))), (''outcome'', JStr (outcome_text (mrd_outcome d))),
           (''determining_policy'', JStr (mrd_determining_policy d)), (''reason'', JStr (mrd_reason d)),
           (''approval_id'', optional_text (mrd_approval_id d))]"

text \<open>The event is recorded and the authorization returned.\<close>

definition record_mcp_event ::
    "local_env \<Rightarrow> timestamp \<Rightarrow> string \<Rightarrow> string \<Rightarrow> McpAuthorization \<Rightarrow> local_store
      \<Rightarrow> (local_error + McpAuthorization) \<times> local_store" where
  "record_mcp_event e wall i correlation z st =
     (case append_event e wall i ''mcp'' ''mcp.tool_call'' (Some (if mza_permitted z then ''ALLOW'' else ''DENY'')) correlation
             (JObj [(''server'', JStr (mza_server_name z)), (''tool'', JStr (mza_tool_name z)),
                    (''resources'', JArr (map resource_json (mza_resources z))),
                    (''scope_escapes'', JArr (map JStr (mza_scope_escapes z))),
                    (''risk_state'', JStr (risk_as_str (mza_risk_state z))), (''reason'', JStr (mza_reason z)),
                    (''argument_content_captured'', JBool False)]) st of
        (Inl err, st') \<Rightarrow> (Inl err, st')
      | (Inr _, st') \<Rightarrow> (Inr z, st'))"

definition refused_call :: "McpToolCall \<Rightarrow> McpResourceDecision list \<Rightarrow> string list \<Rightarrow> RiskState \<Rightarrow> string \<Rightarrow> McpAuthorization" where
  "refused_call c resources escapes risk reason =
     \<lparr>mza_server_name = mcc_server_name c, mza_tool_name = mcc_tool_name c, mza_permitted = False, mza_resources = resources,
      mza_scope_escapes = escapes, mza_risk_state = risk, mza_reason = reason\<rparr>"

definition refused_resource :: "string \<Rightarrow> string \<Rightarrow> ExtractedResource \<Rightarrow> McpResourceDecision" where
  "refused_resource policy reason x =
     \<lparr>mrd_argument = xq_argument x, mrd_requested = xq_value x, mrd_kind = xq_kind x, mrd_action = implied_action (xq_kind x),
      mrd_outcome = LocalDeny, mrd_determining_policy = policy, mrd_reason = reason, mrd_approval_id = None\<rparr>"

definition resource_decision :: "ExtractedResource \<Rightarrow> LocalDecision \<Rightarrow> string option \<Rightarrow> McpResourceDecision" where
  "resource_decision x d approval =
     \<lparr>mrd_argument = xq_argument x, mrd_requested = xq_value x, mrd_kind = xq_kind x, mrd_action = implied_action (xq_kind x),
      mrd_outcome = ld_outcome d, mrd_determining_policy = ld_determining_policy d, mrd_reason = ld_reason d,
      mrd_approval_id = approval\<rparr>"

definition identity_failure :: "McpServer option \<Rightarrow> McpTool option \<Rightarrow> string option" where
  "identity_failure server tool =
     (case server of
        None \<Rightarrow> Some ''the MCP server is not registered''
      | Some s \<Rightarrow>
          if \<not> has_complete_identity s then Some ''the MCP server has no complete trusted identity''
          else if tool = None then Some ''the MCP tool is not registered for this server'' else None)"

definition report_scope_escape ::
    "local_env \<Rightarrow> timestamp \<Rightarrow> string \<Rightarrow> McpToolCall \<Rightarrow> LocalAction list \<Rightarrow> string list \<Rightarrow> RiskState \<Rightarrow> local_store
      \<Rightarrow> (local_error + RiskState) \<times> local_store" where
  "report_scope_escape e wall i c declared escapes risk st =
     (case rule_for_label ''mcp_tool_scope_escape'' of
        None \<Rightarrow> (Inr risk, st)
      | Some rule \<Rightarrow>
          (case record_detection e wall i rule
                  (JObj [(''server'', JStr (mcc_server_name c)), (''tool'', JStr (mcc_tool_name c)),
                         (''declared_capabilities'', JArr (map (\<lambda>a. JStr (local_action_as_str a)) declared)),
                         (''resources_outside_declaration'', JArr (map JStr escapes))]) None st of
             (Inl err, st1) \<Rightarrow> (Inl err, st1)
           | (Inr _, st1) \<Rightarrow>
               record_risk_signal e wall i (rl_dimension rule) (rl_weight rule) None (rl_description rule) st1))"

text \<open>Resources of both kinds are decided by the same evaluation, with the risk of the session and no lease.\<close>

definition preflight_decision :: "local_host \<Rightarrow> LocalProfile \<Rightarrow> string \<Rightarrow> RiskState \<Rightarrow> ExtractedResource \<Rightarrow> LocalDecision" where
  "preflight_decision h profile workspace risk x =
     evaluate_in_context h \<lparr>lr_profile = profile, lr_workspace = workspace, lr_action = implied_action (xq_kind x),
       lr_resource = xq_value x, lr_risk = risk, lr_lease = LeaseAbsent\<rparr>"

fun denied_loop ::
    "local_env \<Rightarrow> timestamp \<Rightarrow> string \<Rightarrow> (ExtractedResource \<times> LocalDecision) list \<Rightarrow> RiskState \<Rightarrow> McpResourceDecision list
      \<Rightarrow> local_store \<Rightarrow> (local_error + (McpResourceDecision list \<times> RiskState)) \<times> local_store" where
  "denied_loop e wall i [] risk acc st = (Inr (acc, risk), st)"
| "denied_loop e wall i ((x, base) # rest) risk acc st =
     (if ld_outcome base = LocalDeny
      then (case authorize_decision e wall i (implied_action (xq_kind x)) (xq_value x) base (ld_resolved_resource base) st of
              (Inl err, st1) \<Rightarrow> (Inl err, st1)
            | (Inr r, st1) \<Rightarrow>
                denied_loop e wall i rest (la_risk_state r) (acc @ [resource_decision x (la_decision r) None]) st1)
      else denied_loop e wall i rest risk (acc @ [resource_decision x base None]) st)"

text \<open>The resources that need a lease, with their place in the call.\<close>

definition lease_resource :: "ExtractedResource \<times> LocalDecision \<Rightarrow> string" where
  "lease_resource p = (case ld_resolved_resource (snd p) of None \<Rightarrow> xq_value (fst p) | Some k \<Rightarrow> k)"

definition approval_bound :: "(ExtractedResource \<times> LocalDecision) list \<Rightarrow> (nat \<times> LeaseUse) list" where
  "approval_bound preflight =
     map (\<lambda>(index, p). (index, \<lparr>lu_action = implied_action (xq_kind (fst p)), lu_resource = lease_resource p\<rparr>))
       (filter (\<lambda>(index, p). ld_outcome (snd p) = LocalRequireApproval) (enumerate 0 preflight))"

definition outcome_request :: "ApprovalOutcome \<Rightarrow> LocalApproval" where
  "outcome_request oc =
     (case oc of ApprovalCreated q \<Rightarrow> q | AlreadyPending q \<Rightarrow> q | PreviouslyDenied q _ \<Rightarrow> q)"

fun answer_loop ::
    "local_env \<Rightarrow> timestamp \<Rightarrow> string \<Rightarrow> nat set \<Rightarrow> nat \<Rightarrow> (ExtractedResource \<times> LocalDecision) list \<Rightarrow> RiskState
      \<Rightarrow> McpResourceDecision list \<Rightarrow> local_store \<Rightarrow> (local_error + (McpResourceDecision list \<times> RiskState)) \<times> local_store" where
  "answer_loop e wall i missing index [] risk acc st = (Inr (acc, risk), st)"
| "answer_loop e wall i missing index ((x, base) # rest) risk acc st =
     (let a = implied_action (xq_kind x)
      in if ld_outcome base = LocalRequireApproval \<and> missing = {}
         then answer_loop e wall i missing (Suc index) rest risk
                (acc @ [resource_decision x (apply_session_state base a risk LeasePresent) None]) st
         else if index \<in> missing
         then (case request_local_approval e wall
                      \<lparr>ak_session_id = i, ak_action = a, ak_requested_resource = xq_value x,
                       ak_resolved_resource = lease_resource (x, base),
                       ak_determining_policy = ld_determining_policy base, ak_reason = ld_reason base\<rparr> wall st of
                 (Inl err, st1) \<Rightarrow> (Inl err, st1)
               | (Inr oc, st1) \<Rightarrow>
                   answer_loop e wall i missing (Suc index) rest
                     (case oc of PreviouslyDenied _ after \<Rightarrow> after | _ \<Rightarrow> risk)
                     (acc @ [resource_decision x base (Some (lq_approval_id (outcome_request oc)))]) st1)
         else answer_loop e wall i missing (Suc index) rest risk (acc @ [resource_decision x base None]) st)"

definition missing_resources :: "(nat \<times> LeaseUse) list \<Rightarrow> AtomicLeaseConsumption \<Rightarrow> nat set" where
  "missing_resources bound consumption =
     (case consumption of
        Consumed_leases _ \<Rightarrow> {}
      | Missing_leases indexes \<Rightarrow>
          set (List.map_filter (\<lambda>n. if n < length bound then Some (fst (bound ! n)) else None) indexes))"

definition decide_preflight ::
    "local_env \<Rightarrow> timestamp \<Rightarrow> string \<Rightarrow> McpToolCall \<Rightarrow> string \<Rightarrow> (ExtractedResource \<times> LocalDecision) list \<Rightarrow> RiskState \<Rightarrow> local_store
      \<Rightarrow> (local_error + McpAuthorization) \<times> local_store" where
  "decide_preflight e wall i c correlation preflight risk st =
     (if list_ex (\<lambda>(x, d). ld_outcome d = LocalDeny) preflight
      then (case denied_loop e wall i preflight risk [] st of
              (Inl err, st1) \<Rightarrow> (Inl err, st1)
            | (Inr (resources, risk'), st1) \<Rightarrow>
                record_mcp_event e wall i correlation
                  (refused_call c resources [] risk' ''at least one resource in the call was denied during preflight'') st1)
      else (case consume_leases_atomically i (map snd (approval_bound preflight)) wall st of
              (Inl err, st1) \<Rightarrow> (Inl err, st1)
            | (Inr consumption, st1) \<Rightarrow>
                (let missing = missing_resources (approval_bound preflight) consumption
                 in case answer_loop e wall i missing 0 preflight risk [] st1 of
                      (Inl err, st2) \<Rightarrow> (Inl err, st2)
                    | (Inr (resources, risk'), st2) \<Rightarrow>
                        record_mcp_event e wall i correlation
                          ((refused_call c resources [] risk'
                              (if missing = {}
                               then ''every resource in the call is permitted and required leases were consumed atomically''
                               else ''at least one resource lacks a lease; no lease was consumed''))\<lparr>mza_permitted := missing = {}\<rparr>)
                          st2)))"

text \<open>The part of \<^verbatim>\<open>authorize_mcp_call\<close> after the session and its profile are read.\<close>

definition judge_mcp_call ::
    "local_env \<Rightarrow> local_host \<Rightarrow> timestamp \<Rightarrow> LocalSession \<Rightarrow> LocalProfile \<Rightarrow> string \<Rightarrow> McpToolCall \<Rightarrow> mcp_tables \<Rightarrow> local_store
      \<Rightarrow> (local_error + McpAuthorization) \<times> local_store" where
  "judge_mcp_call e h wall s profile correlation c mt st =
     (let i = sn_id s;
          server = server_by_name mt (mcc_server_name c);
          tool = (case server of
                    None \<Rightarrow> None
                  | Some v \<Rightarrow> find (\<lambda>t. mct_tool_name t = mcc_tool_name c) (read_tools mt (mcs_server_id v)));
          extracted = extract_resources (mcc_arguments c);
          risk = sn_risk_state s
      in if (case server of None \<Rightarrow> False | Some v \<Rightarrow> mcs_trust_state v = ServerQuarantined)
         then record_mcp_event e wall i correlation (refused_call c [] [] risk ''the MCP server is quarantined'') st
         else case identity_failure server tool of
                Some reason \<Rightarrow>
                  record_mcp_event e wall i correlation
                    (refused_call c (map (refused_resource ''mcp-registered-identity'' reason) extracted)
                       (map xq_value extracted) risk reason) st
              | None \<Rightarrow>
         if extracted = []
         then record_mcp_event e wall i correlation
                (refused_call c [] [] risk ''the MCP call contains no resource VIGIL can authorize'') st
         else let declared = (case tool of None \<Rightarrow> [] | Some t \<Rightarrow> mct_declared_capabilities t);
                  escapes = map xq_value (filter (\<lambda>x. implied_action (xq_kind x) \<notin> set declared) extracted)
         in if escapes \<noteq> []
            then (case report_scope_escape e wall i c declared escapes risk st of
                    (Inl err, st1) \<Rightarrow> (Inl err, st1)
                  | (Inr risk', st1) \<Rightarrow>
                      record_mcp_event e wall i correlation
                        (refused_call c
                           (map (refused_resource ''mcp-declared-capability''
                                   (''the MCP call reaches beyond the tool'' @ [CHR 0x27] @ ''s declared capabilities'')) extracted)
                           escapes risk'
                           (''the MCP call reaches beyond the tool'' @ [CHR 0x27] @ ''s declared capabilities'')) st1)
            else decide_preflight e wall i c correlation
                   (map (\<lambda>x. (x, preflight_decision h profile (sn_workspace s) risk x)) extracted) risk st)"

definition authorize_mcp_call ::
    "local_env \<Rightarrow> local_host \<Rightarrow> timestamp \<Rightarrow> string \<Rightarrow> McpToolCall \<Rightarrow> mcp_tables \<Rightarrow> local_store
      \<Rightarrow> (local_error + McpAuthorization) \<times> local_store" where
  "authorize_mcp_call e h wall i c mt st =
     (case session_of st i of
        None \<Rightarrow> (Inl (LocalNotFound ''local session''), st)
      | Some s \<Rightarrow>
          (case profile_from_str (sn_profile s) of
             None \<Rightarrow> (Inl (LocalConfig ''unknown local profile''), st)
           | Some profile \<Rightarrow> judge_mcp_call e h wall s profile (fresh_id e ''cor_'' st) c mt (id_drawn st)))"

section \<open>What composite steps keep\<close>

text \<open>
  A preorder on stores that every step of a composite operation respects is respected by the operation. The
  ways the code composes steps: a fallible step before the rest, a reading, a branch.
\<close>

locale step_order =
  fixes R :: "local_store \<Rightarrow> local_store \<Rightarrow> bool"
  assumes refl: "R st st" and trans: "R a b \<Longrightarrow> R b c \<Longrightarrow> R a c"
begin

lemma kept_bind:
  assumes "R st (snd p)" "\<And>x st1. R st1 (snd (f x st1))"
  shows "R st (snd (case p of (Inl err, st1) \<Rightarrow> (Inl (g err), st1) | (Inr x, st1) \<Rightarrow> f x st1))"
  using assms trans by (cases p) (auto split: sum.splits)

lemma kept_read: "(\<And>x. R st (snd (f x))) \<Longrightarrow> R st (snd (case r of Inl err \<Rightarrow> (Inl (g err), st) | Inr x \<Rightarrow> f x))"
  using refl by (simp split: sum.splits)

lemma kept_option: "R st (snd p) \<Longrightarrow> (\<And>x. R st (snd (f x))) \<Longrightarrow> R st (snd (case r of None \<Rightarrow> p | Some x \<Rightarrow> f x))"
  by (simp split: option.splits)

lemma kept_if: "R st (snd p) \<Longrightarrow> R st (snd q) \<Longrightarrow> R st (snd (if b then p else q))"
  by simp

lemma kept_pair: "(\<And>a b. R st (snd (f a b))) \<Longrightarrow> R st (snd (case p of (a, b) \<Rightarrow> f a b))"
  by (simp split: prod.splits)

lemma kept_result: "R st (snd (x, st))"
  using refl by simp

lemmas kept = kept_bind kept_read kept_option kept_if kept_pair kept_result

end

interpretation safe: step_order safe_step
  by unfold_locales (auto intro: safe_trans)

text \<open>No use of any lease is gone.\<close>

definition same_uses :: "local_store \<Rightarrow> local_store \<Rightarrow> bool" where
  "same_uses st st' \<longleftrightarrow> map cl_uses_remaining (lt_leases st') = map cl_uses_remaining (lt_leases st)"

interpretation uses: step_order same_uses
  by unfold_locales (simp_all add: same_uses_def)

lemma uses_total_same: "same_uses st st' \<Longrightarrow> uses_total (lt_leases st') = uses_total (lt_leases st)"
  by (simp add: same_uses_def uses_total_def)

lemma uses_simple:
  "same_uses st (snd (append_event e wall i category act decision correlation payload st))"
  "same_uses st (snd (record_detection e wall i rule evidence source st))"
  "same_uses st (snd (open_incident e wall i severity reason st))"
  "same_uses st (snd (observe_now wall st))"
  "same_uses st (snd (insert_request now q st))"
  "same_uses st (attach_detections x i st)"
  "same_uses st (id_drawn st)"
  by (simp_all add: same_uses_def append_event_def record_detection_def open_incident_def observe_now_def insert_request_def
      attach_detections_def id_drawn_def Let_def split: sum.splits option.splits)

lemma uses_raise: "same_uses st (raise_risk e wall i previous risk trigger reason st)"
  by (simp add: same_uses_def raise_risk_parts(4) revoke_lease_def)

lemma uses_record_risk: "same_uses st (snd (record_risk_signal e wall i d weight source note st))"
  using uses_raise by (simp add: record_risk_signal_def Let_def same_uses_def id_drawn_def split: sum.splits)

lemma uses_observe_reporting: "same_uses st (snd (observe_now_reporting e wall i st))"
proof (cases "observe_now wall st")
  case (Pair r st1)
  have "same_uses st st1" using uses_simple(4) [of st wall] Pair by simp
  then show ?thesis
    unfolding observe_now_reporting_def Pair Let_def prod.case
    by (rule uses.trans) (intro uses.kept uses_simple uses_record_risk)
qed

lemma uses_note: "same_uses st (snd (note_if_ruled e wall i label evidence st))"
  unfolding note_if_ruled_def by (intro uses.kept uses_simple)

lemma uses_open_attach: "same_uses st (snd (open_and_attach e wall i severity reason st))"
proof (cases "open_incident e wall i severity reason st")
  case (Pair r st1)
  then have "same_uses st st1" using uses_simple(3) [of st e wall i severity reason] by simp
  then show ?thesis using uses_simple(6) by (auto simp: open_and_attach_def Pair split: sum.splits intro: uses.trans)
qed

lemma uses_fire: "same_uses st (snd (fire_detection e wall i d st))"
  unfolding fire_detection_def by (intro uses.kept uses_simple uses_record_risk uses_open_attach)

lemma uses_touch: "same_uses st (snd (touch_canary e wall i key d risk st))"
  unfolding touch_canary_def by (intro uses.kept uses_simple uses_record_risk uses_open_attach)

lemma uses_fatigue: "same_uses st (snd (report_fatigue e wall q recent st))"
  unfolding report_fatigue_def Let_def by (intro uses.kept uses_simple uses_record_risk uses_note)

lemma uses_request: "same_uses st (snd (request_local_approval e wall ask now st))"
  unfolding request_local_approval_def Let_def
  by (intro uses.kept uses_simple uses_record_risk uses_note uses_fatigue)

lemma uses_ask: "same_uses st (snd (ask_approval e wall i a requested key d now st))"
  unfolding ask_approval_def by (intro uses.kept uses_request)

lemma uses_denied:
  assumes "ld_outcome base = LocalDeny"
  shows "same_uses st (snd (authorize_decision e wall i a requested base key st))"
proof -
  have "spend_lease i a base key risk now st1 = (Inr None, st1)" for risk now st1
    using assms by (simp add: spend_lease_def split: option.splits)
  then show ?thesis
    unfolding authorize_decision_def Let_def
    by (simp only: prod.case sum.case) (intro uses.kept uses_observe_reporting uses_touch uses_fire uses_ask)
qed


section \<open>Authority\<close>

lemma id_drawn_safe: "safe_step st (id_drawn st)"
  by (rule same_authority_safe) simp

lemma record_event_keeps:
  "safe_step st (snd (record_mcp_event e wall i correlation z st))"
  "same_uses st (snd (record_mcp_event e wall i correlation z st))"
  unfolding record_mcp_event_def
  by (intro safe.kept safe_append_event) (intro uses.kept uses_simple)

lemma scope_escape_keeps:
  "safe_step st (snd (report_scope_escape e wall i c declared escapes risk st))"
  "same_uses st (snd (report_scope_escape e wall i c declared escapes risk st))"
  unfolding report_scope_escape_def
  by (intro safe.kept safe_record_detection safe_record_risk) (intro uses.kept uses_simple uses_record_risk)

lemma denied_loop_keeps:
  "safe_step st (snd (denied_loop e wall i ps risk acc st)) \<and> same_uses st (snd (denied_loop e wall i ps risk acc st))"
proof (induction e wall i ps risk acc st rule: denied_loop.induct)
  case (2 e wall i x base rest risk acc st)
  show ?case
  proof (cases "ld_outcome base = LocalDeny")
    case True
    let ?p = "authorize_decision e wall i (implied_action (xq_kind x)) (xq_value x) base (ld_resolved_resource base) st"
    obtain r st1 where p: "?p = (r, st1)" by (cases ?p)
    have "safe_step st st1" using safe_authorize_decision [THEN safe_snd, OF p] .
    moreover have "same_uses st st1" using uses_denied [OF True] p by (metis snd_conv)
    ultimately show ?thesis
      using 2 True p by (cases r) (auto intro: safe_trans uses.trans)
  next
    case False
    then show ?thesis using 2 by simp
  qed
qed (simp_all add: uses.refl)

lemma answer_loop_keeps:
  "safe_step st (snd (answer_loop e wall i missing index ps risk acc st)) \<and>
   same_uses st (snd (answer_loop e wall i missing index ps risk acc st))"
proof (induction ps arbitrary: index risk acc st)
  case (Cons p ps)
  obtain x base where p: "p = (x, base)" by (cases p)
  show ?case
    unfolding p answer_loop.simps Let_def using Cons
    by (intro conjI safe.kept uses.kept safe_request uses_request) auto
qed (simp add: uses.refl)

lemma safe_decide_preflight: "safe_step st (snd (decide_preflight e wall i c correlation preflight risk st))"
  unfolding decide_preflight_def Let_def
  using denied_loop_keeps answer_loop_keeps
  by (intro safe.kept safe_consume_atomically record_event_keeps) auto

lemma safe_judge: "safe_step st (snd (judge_mcp_call e h wall s profile correlation c mt st))"
  unfolding judge_mcp_call_def Let_def
  by (intro safe.kept record_event_keeps scope_escape_keeps safe_decide_preflight)

lemma safe_mcp_call: "safe_step st (snd (authorize_mcp_call e h wall i c mt st))"
  unfolding authorize_mcp_call_def
  by (intro safe.kept safe_trans [OF id_drawn_safe safe_judge])

lemma safe_mcp_drift: "safe_step st (snd (record_mcp_drift e wall i server drift st))"
proof -
  have loop: "safe_step st (snd (record_mcp_drift_loop e wall i server drift risk st))" for risk st
  proof (induction drift arbitrary: risk st)
    case (Cons d drift)
    show ?case unfolding record_mcp_drift_loop.simps Let_def
      by (intro safe.kept safe_record_detection safe_record_risk safe_open_attach Cons)
  qed simp
  show ?thesis unfolding record_mcp_drift_def by (intro safe.kept loop)
qed


section \<open>What a permitted call rests on\<close>

lemma record_event_result: "record_mcp_event e wall i correlation z st = (Inr z', st') \<Longrightarrow> z' = z"
  by (auto simp: record_mcp_event_def split: sum.splits prod.splits)

lemma refused_call_permits [simp]: "\<not> mza_permitted (refused_call c resources escapes risk reason)"
  by (simp add: refused_call_def)

lemma read_tools_set [simp]: "t \<in> set (read_tools mt x) \<longleftrightarrow> t \<in> set (mtb_tools mt) \<and> mct_server_id t = x"
  by (auto simp: read_tools_def)

lemma identity_ok:
  assumes "identity_failure server tool = None"
  obtains v t where "server = Some v" "tool = Some t" "has_complete_identity v"
  using assms by (auto simp: identity_failure_def split: option.splits if_splits)

lemma judge_permitted:
  assumes "judge_mcp_call e h wall s profile correlation c mt st = (Inr z, st')" "mza_permitted z"
  obtains v t where "server_by_name mt (mcc_server_name c) = Some v" "mcs_trust_state v = ServerTrusted" "has_complete_identity v"
    "t \<in> set (mtb_tools mt)" "mct_server_id t = mcs_server_id v" "mct_tool_name t = mcc_tool_name c"
    "extract_resources (mcc_arguments c) \<noteq> []"
    "\<forall>x\<in>set (extract_resources (mcc_arguments c)). implied_action (xq_kind x) \<in> set (mct_declared_capabilities t)"
    "decide_preflight e wall (sn_id s) c correlation
       (map (\<lambda>x. (x, preflight_decision h profile (sn_workspace s) (sn_risk_state s) x)) (extract_resources (mcc_arguments c)))
       (sn_risk_state s) st = (Inr z, st')"
proof -
  let ?server = "server_by_name mt (mcc_server_name c)"
  let ?tool = "case ?server of None \<Rightarrow> None
      | Some v \<Rightarrow> find (\<lambda>t. mct_tool_name t = mcc_tool_name c) (read_tools mt (mcs_server_id v))"
  let ?xs = "extract_resources (mcc_arguments c)"
  have none: "identity_failure ?server ?tool = None"
    using assms by (cases "identity_failure ?server ?tool")
      (auto simp: judge_mcp_call_def Let_def dest!: record_event_result split: if_splits)
  then obtain v t where v: "?server = Some v" "?tool = Some t" "has_complete_identity v" by (rule identity_ok)
  then have found: "find (\<lambda>t. mct_tool_name t = mcc_tool_name c) (read_tools mt (mcs_server_id v)) = Some t" by simp
  then have t: "t \<in> set (mtb_tools mt)" "mct_server_id t = mcs_server_id v" "mct_tool_name t = mcc_tool_name c"
    by (auto simp: find_Some_iff dest: nth_mem)
  have trusted: "mcs_trust_state v = ServerTrusted"
    using assms v by (cases "mcs_trust_state v") (auto simp: judge_mcp_call_def Let_def dest!: record_event_result)
  have some: "?xs \<noteq> []"
    using assms v none trusted by (auto simp: judge_mcp_call_def Let_def found dest!: record_event_result)
  have declared: "filter (\<lambda>x. implied_action (xq_kind x) \<notin> set (mct_declared_capabilities t)) ?xs = []"
  proof (rule ccontr)
    assume "filter (\<lambda>x. implied_action (xq_kind x) \<notin> set (mct_declared_capabilities t)) ?xs \<noteq> []"
    then show False
      using assms v none trusted some
      by (auto simp: judge_mcp_call_def Let_def found simp del: filter_empty_conv dest!: record_event_result split: sum.splits prod.splits)
  qed
  have "decide_preflight e wall (sn_id s) c correlation
       (map (\<lambda>x. (x, preflight_decision h profile (sn_workspace s) (sn_risk_state s) x)) ?xs) (sn_risk_state s) st = (Inr z, st')"
    using assms(1) v none trusted some declared by (simp add: judge_mcp_call_def Let_def found del: filter_empty_conv)
  then show ?thesis
    using that [OF v(1) trusted v(3) t some] declared by (auto simp: filter_empty_conv)
qed

lemma consume_loop_missing:
  "consume_loop i now index uses ls consumed missing = Inr (ls', consumed', missing') \<Longrightarrow>
     \<exists>ys. missing' = missing @ ys \<and> set ys \<subseteq> {index..<index + length uses}"
proof (induction i now index uses ls consumed missing rule: consume_loop.induct)
  case (2 i now index u us ls consumed missing)
  show ?case
  proof (cases "lease_candidate i u now ls")
    case None
    then obtain ys where "missing' = (missing @ [index]) @ ys" "set ys \<subseteq> {Suc index..<Suc index + length us}"
      using 2 by fastforce
    then show ?thesis by (intro exI [of _ "index # ys"]) auto
  next
    case (Some x)
    then obtain ys where "missing' = missing @ ys" "set ys \<subseteq> {Suc index..<Suc index + length us}"
      using "2.IH"(2) [OF Some] "2.prems" by (fastforce split: if_splits)
    then show ?thesis by (intro exI [of _ ys]) auto
  qed
qed simp

lemma missing_leases_index:
  assumes "consume_leases_atomically i uses now st = (Inr (Missing_leases ms), st')"
  shows "ms \<noteq> [] \<and> (\<forall>n\<in>set ms. n < length uses)"
  using assms
  by (auto simp: consume_leases_atomically_def split: if_splits sum.splits prod.splits dest!: consume_loop_missing)

lemma no_missing_resources:
  assumes "consume_leases_atomically i (map snd bound) now st = (Inr consumption, st')" "missing_resources bound consumption = {}"
  shows "\<exists>leases. consumption = Consumed_leases leases"
proof (cases consumption)
  case (Missing_leases ms)
  then obtain n ms' where n: "ms = n # ms'" "n < length bound"
    using missing_leases_index assms(1) by (cases ms) fastforce+
  then show ?thesis using assms(2) Missing_leases by (simp add: missing_resources_def List.map_filter_simps)
qed simp

lemma decide_permitted:
  assumes "decide_preflight e wall i c correlation ps risk st = (Inr z, st')" "mza_permitted z"
  shows "(\<forall>(x, d)\<in>set ps. ld_outcome d \<noteq> LocalDeny) \<and>
    (\<exists>leases st1. consume_leases_atomically i (map snd (approval_bound ps)) wall st = (Inr (Consumed_leases leases), st1) \<and>
       safe_step st1 st' \<and> same_uses st1 st')"
proof -
  have no: "\<not> list_ex (\<lambda>(x, d). ld_outcome d = LocalDeny) ps"
    using assms by (auto simp: decide_preflight_def dest!: record_event_result split: if_splits sum.splits prod.splits)
  obtain consumption st1 resources risk' st2 where d:
    "consume_leases_atomically i (map snd (approval_bound ps)) wall st = (Inr consumption, st1)"
    "answer_loop e wall i (missing_resources (approval_bound ps) consumption) 0 ps risk [] st1 = (Inr (resources, risk'), st2)"
    and ev: "record_mcp_event e wall i correlation
       ((refused_call c resources [] risk' (if missing_resources (approval_bound ps) consumption = {}
          then ''every resource in the call is permitted and required leases were consumed atomically''
          else ''at least one resource lacks a lease; no lease was consumed''))
        \<lparr>mza_permitted := missing_resources (approval_bound ps) consumption = {}\<rparr>) st2 = (Inr z, st')"
    using assms(1) no by (auto simp: decide_preflight_def Let_def split: sum.splits prod.splits)
  have "missing_resources (approval_bound ps) consumption = {}" using record_event_result [OF ev] assms(2) by simp
  then obtain leases where "consumption = Consumed_leases leases" using no_missing_resources d(1) by blast
  moreover have "safe_step st1 st2" "same_uses st1 st2" using answer_loop_keeps d(2) by (metis snd_conv)+
  moreover have "safe_step st2 st'" "same_uses st2 st'" using record_event_keeps ev by (metis snd_conv)+
  ultimately show ?thesis using no d(1) safe_trans uses.trans by (fastforce simp: list_ex_iff)
qed

lemma approval_bound_use:
  assumes "(x, d) \<in> set ps" "ld_outcome d = LocalRequireApproval"
  shows "\<lparr>lu_action = implied_action (xq_kind x), lu_resource = lease_resource (x, d)\<rparr> \<in> set (map snd (approval_bound ps))"
proof -
  obtain n where "n < length ps" "ps ! n = (x, d)" using assms(1) by (metis in_set_conv_nth)
  then have "(n, (x, d)) \<in> set (enumerate 0 ps)" by (simp add: in_set_enumerate_eq)
  then show ?thesis using assms(2) by (force simp: approval_bound_def)
qed

lemma consumed_covers:
  assumes "consume_leases_atomically i uses now st = (Inr (Consumed_leases leases), st')"
  shows "(\<forall>u\<in>set uses. \<exists>l\<in>set (lt_leases st). lease_covers i u now l) \<and>
    uses_total (lt_leases st) = uses_total (lt_leases st') + length uses \<and> lt_approvals st' = lt_approvals st"
proof (cases "uses = []")
  case True
  then show ?thesis using assms by (simp add: consume_leases_atomically_def)
next
  case False
  obtain ls consumed where loop: "consume_loop i now 0 uses (lt_leases st) [] [] = Inr (ls, consumed, [])"
    and st': "st' = st\<lparr>lt_leases := ls\<rparr>"
    using assms False by (auto simp: consume_leases_atomically_def split: sum.splits prod.splits if_splits)
  have "list_all2 (covered i now (lt_leases st)) consumed uses" "uses_total (lt_leases st) = uses_total ls + length uses"
    using consume_loop_exact [OF loop] by (auto dest: list_all2_lengthD)
  then show ?thesis by (fastforce simp: st' covered_def list_all2_conv_all_nth in_set_conv_nth)
qed


section \<open>What the walk finds\<close>

lemma walk_full:
  "MAX_EXTRACTED_RESOURCES \<le> length found \<Longrightarrow> mcp_walk v path depth found = found"
  "MAX_EXTRACTED_RESOURCES \<le> length found \<Longrightarrow> mcp_walk_items vs index path depth found = found"
  "MAX_EXTRACTED_RESOURCES \<le> length found \<Longrightarrow> mcp_walk_entries es path depth found = found"
  by (induction v path depth found and vs index path depth found and es path depth found
      rule: mcp_walk_mcp_walk_items_mcp_walk_entries.induct) (simp_all add: walk_stops_def)

lemma walk_longer:
  "length found \<le> length (mcp_walk v path depth found)"
  "length found \<le> length (mcp_walk_items vs index path depth found)"
  "length found \<le> length (mcp_walk_entries es path depth found)"
  by (induction v path depth found and vs index path depth found and es path depth found
      rule: mcp_walk_mcp_walk_items_mcp_walk_entries.induct) (auto split: option.splits)

lemma walk_items_append:
  "mcp_walk_items (xs @ ys) index path depth found =
     mcp_walk_items ys (index + length xs) path depth (mcp_walk_items xs index path depth found)"
  by (induction xs arbitrary: index found) simp_all

fun nesting :: "json \<Rightarrow> nat" where
  "nesting (JArr items) = Suc (foldr (\<lambda>v. max (nesting v)) items 0)"
| "nesting (JObj entries) = Suc (foldr (\<lambda>(k, v). max (nesting v)) entries 0)"
| "nesting v = 0"

definition names_resource :: "string \<Rightarrow> bool" where
  "names_resource t \<longleftrightarrow> classify_resource t \<noteq> None"

lemma walk_complete:
  "\<lbrakk>depth + nesting v \<le> MAX_ARGUMENT_DEPTH; length (mcp_walk v path depth found) < MAX_EXTRACTED_RESOURCES\<rbrakk> \<Longrightarrow>
     map xq_value (mcp_walk v path depth found) = map xq_value found @ filter names_resource (string_leaves v)"
  "\<lbrakk>Suc depth + foldr (\<lambda>v. max (nesting v)) vs 0 \<le> MAX_ARGUMENT_DEPTH;
    length (mcp_walk_items vs index path depth found) < MAX_EXTRACTED_RESOURCES\<rbrakk> \<Longrightarrow>
     map xq_value (mcp_walk_items vs index path depth found) =
       map xq_value found @ filter names_resource (concat (map string_leaves vs))"
  "\<lbrakk>Suc depth + foldr (\<lambda>(k, v). max (nesting v)) es 0 \<le> MAX_ARGUMENT_DEPTH;
    length (mcp_walk_entries es path depth found) < MAX_EXTRACTED_RESOURCES\<rbrakk> \<Longrightarrow>
     map xq_value (mcp_walk_entries es path depth found) =
       map xq_value found @ filter names_resource (concat (map (\<lambda>(k, v). string_leaves v) es))"
proof (induction v path depth found and vs index path depth found and es path depth found
    rule: mcp_walk_mcp_walk_items_mcp_walk_entries.induct)
  case (1 t path depth found)
  then show ?case by (auto simp: walk_stops_def names_resource_def split: option.splits if_splits)
next
  case (2 items path depth found)
  then show ?case by (auto simp: walk_stops_def split: if_splits)
next
  case (3 entries path depth found)
  then show ?case by (auto simp: walk_stops_def split: if_splits)
next
  case (6 v vs index path depth found)
  let ?f = "mcp_walk v (extend_path path (show_nat index)) (Suc depth) found"
  have "length ?f < MAX_EXTRACTED_RESOURCES"
    using walk_longer(2) [of ?f vs "Suc index" path depth] "6.prems"(2) by simp
  then show ?case using 6 by simp
next
  case (8 k v es path depth found)
  let ?f = "mcp_walk v (extend_path path k) (Suc depth) found"
  have "length ?f < MAX_EXTRACTED_RESOURCES"
    using walk_longer(3) [of ?f es path depth] "8.prems"(2) by simp
  then show ?case using 8 by simp
qed simp_all

lemma extracted_classified:
  assumes "x \<in> set (extract_resources v)"
  shows "classify_resource (xq_value x) = Some (xq_kind x)"
proof -
  let ?ok = "\<lambda>found. \<forall>x\<in>set found. classify_resource (xq_value x) = Some (xq_kind x)"
  have "?ok found \<Longrightarrow> ?ok (mcp_walk v path depth found)"
    "?ok found \<Longrightarrow> ?ok (mcp_walk_items vs index path depth found)"
    "?ok found \<Longrightarrow> ?ok (mcp_walk_entries es path depth found)" for v path depth found vs index es
    by (induction v path depth found and vs index path depth found and es path depth found
        rule: mcp_walk_mcp_walk_items_mcp_walk_entries.induct) (auto split: option.splits)
  from this(1) [of "[]" v "[]" 0] show ?thesis
    using assms by (auto simp: extract_resources_def dest: in_set_takeD)
qed

lemma call_reads_extraction:
  assumes "extract_resources a = extract_resources b"
  shows "authorize_mcp_call e h wall i (c\<lparr>mcc_arguments := a\<rparr>) mt st = authorize_mcp_call e h wall i (c\<lparr>mcc_arguments := b\<rparr>) mt st"
proof -
  have names: "mcc_server_name (c\<lparr>mcc_arguments := a\<rparr>) = mcc_server_name c" "mcc_tool_name (c\<lparr>mcc_arguments := a\<rparr>) = mcc_tool_name c" for a
    by simp_all
  have refused: "refused_call (c\<lparr>mcc_arguments := a\<rparr>) = refused_call c" for a
    by (simp add: fun_eq_iff refused_call_def)
  have escape: "report_scope_escape e wall i (c\<lparr>mcc_arguments := a\<rparr>) = report_scope_escape e wall i c" for a i
    unfolding fun_eq_iff report_scope_escape_def names by (intro allI refl)
  have decide: "decide_preflight e wall i (c\<lparr>mcc_arguments := a\<rparr>) = decide_preflight e wall i c" for a i
    unfolding fun_eq_iff decide_preflight_def refused by (intro allI refl)
  have arguments: "mcc_arguments (c\<lparr>mcc_arguments := a\<rparr>) = a" for a by simp
  show ?thesis
    unfolding authorize_mcp_call_def judge_mcp_call_def refused escape decide names arguments assms ..
qed

section \<open>The baseline of a server\<close>

lemma sync_loop_drift:
  "sync_loop e now x known preserve ms staged drift = Inr (staged', drift') \<Longrightarrow> \<exists>ds. drift' = drift @ ds"
  by (induction e now x known preserve ms staged drift rule: sync_loop.induct)
     (fastforce simp: rbind_eq_Inr Let_def split: option.splits if_splits)+

text \<open>Tools after a sync against tools before: those of other servers are the same, none of the server has grown.\<close>

definition tool_kept :: "string \<Rightarrow> McpTool \<Rightarrow> McpTool \<Rightarrow> bool" where
  "tool_kept server_id t t' \<longleftrightarrow> mct_server_id t' = mct_server_id t \<and> mct_tool_name t' = mct_tool_name t \<and>
     mct_first_seen t' = mct_first_seen t \<and>
     mct_schema_hash t' = mct_schema_hash t \<and> mct_description_hash t' = mct_description_hash t \<and>
     set (mct_declared_capabilities t') \<subseteq> set (mct_declared_capabilities t) \<and> (mct_server_id t \<noteq> server_id \<longrightarrow> t' = t)"

lemma tool_drift_none:
  "tool_drift existing m schema description = [] \<longleftrightarrow>
     mct_schema_hash existing = schema \<and> mct_description_hash existing = description \<and>
     set (mcm_declared_capabilities m) \<subseteq> set (mct_declared_capabilities existing)"
  by (auto simp: tool_drift_def filter_empty_conv)


lemma name_in_list:
  "find (\<lambda>t. mct_tool_name t = n) ts = Some t \<Longrightarrow> t \<in> set ts \<and> mct_tool_name t = n"
  by (auto simp: find_Some_iff dest: nth_mem)

text \<open>
  A sync that finds no drift, of a server with tools on record, changes each tool within what is recorded of it. In the
  table a tool is identified by its server and its name.
\<close>

lemma sync_loop_kept:
  assumes unique: "\<And>t t'. \<lbrakk>t \<in> set ts; t' \<in> set ts; mct_server_id t = mct_server_id t'; mct_tool_name t = mct_tool_name t'\<rbrakk> \<Longrightarrow> t = t'"
    and known: "set known = {t \<in> set ts. mct_server_id t = x}" "known \<noteq> []"
  shows "\<lbrakk>sync_loop e now x known preserve ms staged drift = Inr (staged', []); list_all2 (tool_kept x) ts staged\<rbrakk> \<Longrightarrow>
    list_all2 (tool_kept x) ts staged'"
proof (induction ms arbitrary: staged drift)
  case (Cons m ms)
  obtain schema where schema: "manifest_schema_hash e m = Inr schema" "validate_mcp_name (mcm_name m) = Inr ()"
    using Cons.prems(1) by (auto simp: rbind_eq_Inr)
  show ?case
  proof (cases "find (\<lambda>t. mct_tool_name t = mcm_name m) known")
    case None
    then have "\<exists>st d. sync_loop e now x known preserve ms st (d @ [DriftToolAdded (mcm_name m)]) = Inr (staged', [])"
      using Cons.prems(1) known(2) schema by (auto simp: Let_def split: if_splits)
    then show ?thesis using sync_loop_drift by fastforce
  next
    case (Some existing)
    let ?declared = "if preserve then mct_declared_capabilities existing else mcm_declared_capabilities m"
    let ?update = "update_tool now x (mcm_name m) schema (manifest_description_hash e m) ?declared"
    have loop: "sync_loop e now x known preserve ms (map ?update staged)
        (drift @ tool_drift existing m schema (manifest_description_hash e m)) = Inr (staged', [])"
      using Cons.prems(1) schema Some by (simp add: Let_def)
    have same: "mct_schema_hash existing = schema" "mct_description_hash existing = manifest_description_hash e m"
      "set ?declared \<subseteq> set (mct_declared_capabilities existing)"
      using sync_loop_drift [OF loop] tool_drift_none [of existing m schema] by (auto split: if_splits)
    have ex: "existing \<in> set ts" "mct_server_id existing = x" "mct_tool_name existing = mcm_name m"
      using name_in_list [OF Some] known(1) by auto
    have "tool_kept x t (?update t')" if "t \<in> set ts" "tool_kept x t t'" for t t'
      using that unique [OF that(1) ex(1)] ex same by (auto simp: tool_kept_def update_tool_def)
    then have "list_all2 (tool_kept x) ts (map ?update staged)"
      using Cons.prems(2) by (simp add: list.rel_map list_all2_conv_all_nth)
    then show ?thesis using Cons.IH [OF loop] by blast
  qed
qed simp


section \<open>Spending\<close>

definition refuses :: "local_store \<Rightarrow> (local_error + McpAuthorization) \<times> local_store \<Rightarrow> bool" where
  "refuses st p \<longleftrightarrow> same_uses st (snd p) \<and> (\<forall>z. fst p = Inr z \<longrightarrow> \<not> mza_permitted z)"

lemma refuses_event:
  assumes "\<not> mza_permitted z" shows "refuses st (record_mcp_event e wall i correlation z st)"
  using record_event_result assms by (auto simp: refuses_def record_event_keeps) (metis prod.collapse)

lemma refuses_after:
  assumes "same_uses st (snd p)" "\<And>x st1. refuses st1 (f x st1)"
  shows "refuses st (case p of (Inl err, st1) \<Rightarrow> (Inl err, st1) | (Inr x, st1) \<Rightarrow> f x st1)"
  using assms uses.trans by (cases p) (auto simp: refuses_def split: sum.splits)

lemma judge_or_refuses:
  "judge_mcp_call e h wall s profile correlation c mt st =
     decide_preflight e wall (sn_id s) c correlation
       (map (\<lambda>x. (x, preflight_decision h profile (sn_workspace s) (sn_risk_state s) x)) (extract_resources (mcc_arguments c)))
       (sn_risk_state s) st \<or>
   refuses st (judge_mcp_call e h wall s profile correlation c mt st)"
proof -
  have branch: "(if b then p else q) = d \<or> refuses st (if b then p else q)" if "refuses st p" "q = d \<or> refuses st q" for b p q d
    using that by simp
  have option: "(case r of None \<Rightarrow> q | Some x \<Rightarrow> f x) = d \<or> refuses st (case r of None \<Rightarrow> q | Some x \<Rightarrow> f x)"
    if "\<And>x. refuses st (f x)" "q = d \<or> refuses st q" for r :: "string option" and q f d
    using that by (simp split: option.splits)
  show ?thesis
    unfolding judge_mcp_call_def Let_def
    by (intro branch option refuses_event refuses_after scope_escape_keeps disjI1 refl refused_call_permits)
qed

lemma decide_uses:
  assumes "decide_preflight e wall i c correlation ps risk st = (Inr z, st')"
  shows "uses_total (lt_leases st) = uses_total (lt_leases st') +
    (if mza_permitted z then length (filter (\<lambda>(x, d). ld_outcome d = LocalRequireApproval) ps) else 0)"
proof (cases "mza_permitted z")
  case True
  have "length (approval_bound ps) = length (filter (\<lambda>(x, d). ld_outcome d = LocalRequireApproval) ps)"
  proof -
    have "map snd (filter (\<lambda>(n, p). P p) (enumerate m ps)) = filter P ps" for P m
      by (induction ps arbitrary: m) auto
    from arg_cong [OF this, of length] show ?thesis by (simp add: approval_bound_def case_prod_unfold)
  qed
  then show ?thesis
    using True decide_permitted [OF assms True] consumed_covers uses_total_same by fastforce
next
  case False
  show ?thesis
  proof (cases "list_ex (\<lambda>(x, d). ld_outcome d = LocalDeny) ps")
    case True
    have "same_uses st (snd (decide_preflight e wall i c correlation ps risk st))"
      unfolding decide_preflight_def if_P [OF True] using denied_loop_keeps by (intro uses.kept record_event_keeps) auto
    then show ?thesis using assms False uses_total_same by force
  next
    case no: False
    obtain consumption st1 where c: "consume_leases_atomically i (map snd (approval_bound ps)) wall st = (Inr consumption, st1)"
      using assms no by (auto simp: decide_preflight_def split: sum.splits prod.splits)
    have "consumption \<noteq> Consumed_leases leases" for leases
      using assms no c False by (auto simp: decide_preflight_def missing_resources_def Let_def split: sum.splits prod.splits dest!: record_event_result)
    then have "st1 = st" using unspent_unchanged [OF c] by blast
    then have "same_uses st (snd (decide_preflight e wall i c correlation ps risk st))"
      unfolding decide_preflight_def if_not_P [OF no] c prod.case sum.case Let_def
      using answer_loop_keeps by (intro uses.kept record_event_keeps) auto
    then show ?thesis using assms False uses_total_same by force
  qed
qed

text \<open>A lease that is spent was granted by an operator a short time ago.\<close>

definition backed_lease :: "local_store \<Rightarrow> CapabilityLease \<Rightarrow> timestamp \<Rightarrow> bool" where
  "backed_lease st l wall \<longleftrightarrow>
     wall < cl_issued_at l + seconds MAX_LEASE_TTL_SECONDS \<and>
     (\<exists>q\<in>set (lt_approvals st). lq_status q = RequestGranted \<and> lq_decided_by q \<noteq> None \<and> lq_lease_id q = Some (cl_lease_id l) \<and>
        lq_session_id q = cl_session_id l \<and> lq_action q = cl_action l \<and> lq_resolved_resource q = cl_resource l \<and>
        lq_decided_at q = Some (cl_issued_at l))"

lemma spent_backed:
  assumes "local_steps e empty_store st"
    and "consume_leases_atomically i uses wall st0 = (Inr (Consumed_leases leases), st1)" "safe_step st1 st'"
    and "lt_leases st0 = lt_leases st" "lt_approvals st0 = lt_approvals st" "u \<in> set uses"
  shows "\<exists>l\<in>set (lt_leases st). lease_covers i u wall l \<and> backed_lease st' l wall"
proof -
  obtain l where l: "l \<in> set (lt_leases st)" "lease_covers i u wall l"
    using bspec [OF conjunct1 [OF consumed_covers [OF assms(2), unfolded assms(4)]] assms(6)] by blast
  have ok: "lease_backed (lt_approvals st) l" "lease_narrow l"
    using reachable_lease_inv [OF assms(1)] l(1) by (simp_all add: lease_inv_def)
  obtain q where q: "q \<in> set (lt_approvals st)" "lq_status q = RequestGranted" "lq_decided_by q \<noteq> None"
    "lq_lease_id q = Some (cl_lease_id l)" "lq_session_id q = cl_session_id l" "lq_action q = cl_action l"
    "lq_resolved_resource q = cl_resource l" "lq_decided_at q = Some (cl_issued_at l)"
    using ok(1) by (auto simp: lease_backed_def)
  have "lt_approvals st1 = lt_approvals st" using consumed_covers [OF assms(2)] assms(5) by simp
  then have "q \<in> set (lt_approvals st')" using q(1,2) assms(3) by (simp add: safe_step_def store_le_def)
  moreover have "wall < cl_issued_at l + seconds MAX_LEASE_TTL_SECONDS"
    using l(2) ok(2) by (auto simp: lease_covers_def lease_is_usable_def lease_narrow_def)
  ultimately show ?thesis using l q(2-8) unfolding backed_lease_def by blast
qed

section \<open>A sample call\<close>

definition demo_mcp_session :: LocalSession where
  "demo_mcp_session = demo_session\<lparr>sn_profile := ''developer-standard''\<rparr>"

definition demo_mcp_store :: local_store where
  "demo_mcp_store = empty_store\<lparr>lt_sessions := [demo_mcp_session]\<rparr>"

definition demo_tables :: mcp_tables where
  "demo_tables = \<lparr>mtb_servers = [\<lparr>mcs_server_id = ''m'', mcs_name = ''files'', mcs_transport = TransportStdio, mcs_executable = Some ''/x'',
        mcs_executable_sha256 = Some (replicate 64 (CHR ''a'')), mcs_version = None, mcs_first_seen = 0, mcs_last_seen = 0,
        mcs_trust_state = ServerTrusted\<rparr>],
     mtb_tools = [\<lparr>mct_server_id = ''m'', mct_tool_name = ''read'', mct_schema_hash = ''h'', mct_description_hash = ''g'',
        mct_declared_capabilities = [FsRead], mct_first_seen = 0, mct_last_seen = 0\<rparr>]\<rparr>"

definition demo_call :: McpToolCall where
  "demo_call = \<lparr>mcc_server_name = ''files'', mcc_tool_name = ''read'', mcc_arguments = JObj [(''path'', JStr ''./b''), (''n'', JInt 1)]\<rparr>"

lemma demo_mcp_reach: "local_steps demo_local_env empty_store demo_mcp_store"
  using local_step.session [of demo_mcp_session empty_store demo_local_env]
  by (simp add: local_steps_def demo_mcp_store_def empty_store_def r_into_rtranclp)

text \<open>A call that also names a destination, for which an operator granted a lease.\<close>

definition demo_net_ask :: CapabilityAsk where
  "demo_net_ask = demo_ask\<lparr>ak_action := NetworkConnect, ak_requested_resource := ''https://x.org'', ak_resolved_resource := ''https://x.org''\<rparr>"

definition demo_net_store :: local_store where
  "demo_net_store = snd (grant_approval demo_local_env ''apr_'' ''ops'' 2 60 None 1
     (snd (request_local_approval demo_local_env 0 demo_net_ask 0 demo_mcp_store)))"

definition demo_net_call :: McpToolCall where
  "demo_net_call = demo_call\<lparr>mcc_arguments := JArr [JStr ''./b'', JStr ''https://x.org'']\<rparr>"

definition demo_net_tables :: mcp_tables where
  "demo_net_tables = demo_tables\<lparr>mtb_tools := map (\<lambda>t. t\<lparr>mct_declared_capabilities := [FsRead, NetworkConnect]\<rparr>) (mtb_tools demo_tables)\<rparr>"

lemma demo_net_reach: "local_steps demo_local_env empty_store demo_net_store"
proof -
  have "from_cli_operator ''ops'' = Inr ''ops''" by code_simp
  from local_step.granted [OF this, of demo_local_env "snd (request_local_approval demo_local_env 0 demo_net_ask 0 demo_mcp_store)" "''apr_''" 2 60 None 1]
    local_step.approval [of demo_local_env demo_mcp_store 0 demo_net_ask 0] demo_mcp_reach
  show ?thesis unfolding local_steps_def demo_net_store_def by (meson rtranclp.rtrancl_into_rtrancl)
qed

lemma demo_net_permitted:
  "case fst (authorize_mcp_call demo_local_env sample_host 2 ''s'' demo_net_call demo_net_tables demo_net_store) of
     Inl _ \<Rightarrow> False | Inr z \<Rightarrow> mza_permitted z"
  by code_simp

section \<open>Properties\<close>

text \<open>
  C25: an MCP call is permitted only when its server is registered, trusted and of complete identity, its tool is on record for
  the server, it names at least one resource, and every resource that was pulled out of its arguments is of a kind the
  tool declared and is either permitted by the policy at the risk of the session, or asks for approval and a lease of the session
  for exactly this action and resource is active, unexpired at the wall clock and has a use left, and was issued when an operator
  granted the request it names, less than fifteen minutes before. Permitting the call spends exactly one use for every
  resource that asked for approval.
\<close>

theorem mcp_call_permitted:
  assumes "local_steps e empty_store st"
    and "authorize_mcp_call e h wall i c mt st = (Inr z, st')" "mza_permitted z"
  shows "\<exists>s profile v t. session_of st i = Some s \<and> profile_from_str (sn_profile s) = Some profile \<and>
    server_by_name mt (mcc_server_name c) = Some v \<and> mcs_trust_state v = ServerTrusted \<and> has_complete_identity v \<and>
    t \<in> set (mtb_tools mt) \<and> mct_server_id t = mcs_server_id v \<and> mct_tool_name t = mcc_tool_name c \<and>
    extract_resources (mcc_arguments c) \<noteq> [] \<and>
    (\<forall>x\<in>set (extract_resources (mcc_arguments c)).
       implied_action (xq_kind x) \<in> set (mct_declared_capabilities t) \<and>
       (let d = preflight_decision h profile (sn_workspace s) (sn_risk_state s) x
        in local_permits_execution d \<or>
           ld_outcome d = LocalRequireApproval \<and>
           (\<exists>l\<in>set (lt_leases st). cl_session_id l = i \<and> cl_action l = implied_action (xq_kind x) \<and>
              cl_resource l = lease_resource (x, d) \<and> cl_status l = LeaseActive \<and> 0 < cl_uses_remaining l \<and> wall < cl_expires_at l \<and>
              (\<exists>q\<in>set (lt_approvals st'). lq_status q = RequestGranted \<and> lq_decided_by q \<noteq> None \<and>
                 lq_lease_id q = Some (cl_lease_id l) \<and> lq_session_id q = i \<and>
                 lq_action q = implied_action (xq_kind x) \<and> lq_resolved_resource q = lease_resource (x, d) \<and>
                 lq_decided_at q = Some (cl_issued_at l) \<and> wall < cl_issued_at l + seconds MAX_LEASE_TTL_SECONDS)))) \<and>
    uses_total (lt_leases st) = uses_total (lt_leases st') +
      length (filter (\<lambda>x. ld_outcome (preflight_decision h profile (sn_workspace s) (sn_risk_state s) x) = LocalRequireApproval)
                (extract_resources (mcc_arguments c)))"
proof -
  obtain s profile where s: "session_of st i = Some s" "profile_from_str (sn_profile s) = Some profile"
    and j: "judge_mcp_call e h wall s profile (fresh_id e ''cor_'' st) c mt (id_drawn st) = (Inr z, st')"
    using assms(2) by (auto simp: authorize_mcp_call_def split: option.splits)
  have i: "sn_id s = i" using s(1) by (auto simp: session_of_def find_Some_iff)
  let ?d = "preflight_decision h profile (sn_workspace s) (sn_risk_state s)"
  let ?ps = "map (\<lambda>x. (x, ?d x)) (extract_resources (mcc_arguments c))"
  obtain v t where v: "server_by_name mt (mcc_server_name c) = Some v" "mcs_trust_state v = ServerTrusted" "has_complete_identity v"
    "t \<in> set (mtb_tools mt)" "mct_server_id t = mcs_server_id v" "mct_tool_name t = mcc_tool_name c"
    "extract_resources (mcc_arguments c) \<noteq> []"
    "\<forall>x\<in>set (extract_resources (mcc_arguments c)). implied_action (xq_kind x) \<in> set (mct_declared_capabilities t)"
    "decide_preflight e wall (sn_id s) c (fresh_id e ''cor_'' st) ?ps (sn_risk_state s) (id_drawn st) = (Inr z, st')"
    by (rule judge_permitted [OF j assms(3)])
  obtain leases st1 where open_ps: "\<forall>(x, d)\<in>set ?ps. ld_outcome d \<noteq> LocalDeny"
    and spent: "consume_leases_atomically i (map snd (approval_bound ?ps)) wall (id_drawn st) = (Inr (Consumed_leases leases), st1)"
      "safe_step st1 st'"
    using decide_permitted [OF v(9) assms(3)] i by blast
  have kept: "lt_leases (id_drawn st) = lt_leases st" "lt_approvals (id_drawn st) = lt_approvals st" by (simp_all add: id_drawn_def)
  have total: "uses_total (lt_leases st) = uses_total (lt_leases st') +
      length (filter (\<lambda>x. ld_outcome (?d x) = LocalRequireApproval) (extract_resources (mcc_arguments c)))"
    using decide_uses [OF v(9)] assms(3) kept by (simp add: filter_map comp_def case_prod_unfold)
  have covered: "local_permits_execution (?d x) \<or> ld_outcome (?d x) = LocalRequireApproval \<and>
      (\<exists>l\<in>set (lt_leases st). lease_covers i \<lparr>lu_action = implied_action (xq_kind x), lu_resource = lease_resource (x, ?d x)\<rparr> wall l \<and>
         backed_lease st' l wall)"
    if "x \<in> set (extract_resources (mcc_arguments c))" for x
  proof (cases "ld_outcome (?d x) = LocalRequireApproval")
    case True
    then show ?thesis
      using spent_backed [OF assms(1) spent kept approval_bound_use [of x "?d x" ?ps]] that by simp
  next
    case False
    then show ?thesis using open_ps that by (cases "ld_outcome (?d x)") (auto simp: local_permits_execution_def)
  qed
  have "\<forall>x\<in>set (extract_resources (mcc_arguments c)). local_permits_execution (?d x) \<or> ld_outcome (?d x) = LocalRequireApproval \<and>
      (\<exists>l\<in>set (lt_leases st). cl_session_id l = i \<and> cl_action l = implied_action (xq_kind x) \<and>
         cl_resource l = lease_resource (x, ?d x) \<and> cl_status l = LeaseActive \<and> 0 < cl_uses_remaining l \<and> wall < cl_expires_at l \<and>
         (\<exists>q\<in>set (lt_approvals st'). lq_status q = RequestGranted \<and> lq_decided_by q \<noteq> None \<and>
            lq_lease_id q = Some (cl_lease_id l) \<and> lq_session_id q = i \<and>
            lq_action q = implied_action (xq_kind x) \<and> lq_resolved_resource q = lease_resource (x, ?d x) \<and>
            lq_decided_at q = Some (cl_issued_at l) \<and> wall < cl_issued_at l + seconds MAX_LEASE_TTL_SECONDS))"
    using covered by (fastforce simp: lease_covers_def lease_is_usable_def backed_lease_def)
  then show ?thesis using s v(1-8) total unfolding Let_def by blast
qed

theorem mcp_call_permitted_witness:
  "\<exists>z st' l. authorize_mcp_call demo_local_env sample_host 2 ''s'' demo_net_call demo_net_tables demo_net_store = (Inr z, st') \<and>
     mza_permitted z \<and> l \<in> set (lt_leases demo_net_store) \<and> cl_status l = LeaseActive \<and> cl_action l = NetworkConnect \<and>
     cl_resource l = ''https://x.org'' \<and> uses_total (lt_leases demo_net_store) = uses_total (lt_leases st') + 1"
proof -
  let ?p = "authorize_mcp_call demo_local_env sample_host 2 ''s'' demo_net_call demo_net_tables demo_net_store"
  obtain z st' where z: "?p = (Inr z, st')" "mza_permitted z"
    using demo_net_permitted by (cases ?p) (auto split: sum.splits)
  let ?x = "\<lparr>xq_argument = ''1'', xq_value = ''https://x.org'', xq_kind = ResourceUrl\<rparr>"
  let ?b = "\<lparr>xq_argument = ''0'', xq_value = ''./b'', xq_kind = ResourcePath\<rparr>"
  let ?d = "preflight_decision sample_host DeveloperStandard ''/w'' RiskNormal"
  have s: "session_of demo_net_store ''s'' = Some demo_mcp_session" "profile_from_str (sn_profile demo_mcp_session) = Some DeveloperStandard"
    "sn_workspace demo_mcp_session = ''/w''" "sn_risk_state demo_mcp_session = RiskNormal"
    by code_simp+
  have x: "extract_resources (mcc_arguments demo_net_call) = [?b, ?x]" by code_simp
  have d: "ld_outcome (?d ?x) = LocalRequireApproval" "ld_outcome (?d ?b) = LocalAllow" "\<not> local_permits_execution (?d ?x)"
    "lease_resource (?x, ?d ?x) = ''https://x.org''" by code_simp+
  from mcp_call_permitted [OF demo_net_reach z] obtain l where "l \<in> set (lt_leases demo_net_store)" "cl_status l = LeaseActive"
    "cl_action l = NetworkConnect" "cl_resource l = ''https://x.org''" "uses_total (lt_leases demo_net_store) = uses_total (lt_leases st') + 1"
    by (auto simp: s x d Let_def)
  with z show ?thesis by blast
qed

text \<open>
  A call that is refused spends no use of any lease, and a permitted call spends exactly one use for every resource
  that asked for approval.
\<close>

theorem mcp_lease_accounting:
  assumes "authorize_mcp_call e h wall i c mt st = (Inr z, st')"
  shows "\<exists>s profile. session_of st i = Some s \<and> profile_from_str (sn_profile s) = Some profile \<and>
    uses_total (lt_leases st) = uses_total (lt_leases st') +
      (if mza_permitted z
       then length (filter (\<lambda>x. ld_outcome (preflight_decision h profile (sn_workspace s) (sn_risk_state s) x) = LocalRequireApproval)
                      (extract_resources (mcc_arguments c)))
       else 0)"
proof -
  obtain s profile where s: "session_of st i = Some s" "profile_from_str (sn_profile s) = Some profile"
    and j: "judge_mcp_call e h wall s profile (fresh_id e ''cor_'' st) c mt (id_drawn st) = (Inr z, st')"
    using assms by (auto simp: authorize_mcp_call_def split: option.splits)
  have drawn: "lt_leases (id_drawn st) = lt_leases st" by (simp add: id_drawn_def)
  show ?thesis
  proof (cases "refuses (id_drawn st) (judge_mcp_call e h wall s profile (fresh_id e ''cor_'' st) c mt (id_drawn st))")
    case True
    then have "same_uses (id_drawn st) st'" "\<not> mza_permitted z" using j by (auto simp: refuses_def)
    then show ?thesis using s uses_total_same drawn by fastforce
  next
    case False
    then have "decide_preflight e wall (sn_id s) c (fresh_id e ''cor_'' st)
       (map (\<lambda>x. (x, preflight_decision h profile (sn_workspace s) (sn_risk_state s) x)) (extract_resources (mcc_arguments c)))
       (sn_risk_state s) (id_drawn st) = (Inr z, st')"
      using judge_or_refuses [of e h wall s profile "fresh_id e ''cor_'' st" c mt "id_drawn st"] j by simp
    from decide_uses [OF this] show ?thesis using s drawn by (simp add: filter_map comp_def case_prod_unfold)
  qed
qed

theorem mcp_lease_accounting_witness:
  "uses_total (lt_leases demo_mcp_store) =
     uses_total (lt_leases (snd (authorize_mcp_call demo_local_env sample_host 0 ''s''
        (demo_call\<lparr>mcc_arguments := JNull\<rparr>) demo_tables demo_mcp_store)))"
proof -
  let ?p = "authorize_mcp_call demo_local_env sample_host 0 ''s'' (demo_call\<lparr>mcc_arguments := JNull\<rparr>) demo_tables demo_mcp_store"
  have "case fst ?p of Inl _ \<Rightarrow> False | Inr z \<Rightarrow> \<not> mza_permitted z" by code_simp
  then obtain z st' where "?p = (Inr z, st')" "\<not> mza_permitted z" by (cases ?p) (auto split: sum.splits)
  then show ?thesis using mcp_lease_accounting [of demo_local_env sample_host 0 "''s''"] by fastforce
qed

text \<open>
  C26: as long as the arguments of a call nest at most sixteen deep and name fewer than sixty-four resources, every string in
  them that looks like a path or a URL is pulled out, in order, to be authorized.
\<close>

theorem mcp_resources_complete:
  assumes "nesting v \<le> MAX_ARGUMENT_DEPTH" "length (extract_resources v) < MAX_EXTRACTED_RESOURCES"
  shows "map xq_value (extract_resources v) = filter names_resource (string_leaves v) \<and>
    (\<forall>x\<in>set (extract_resources v). classify_resource (xq_value x) = Some (xq_kind x))"
proof -
  have "extract_resources v = mcp_walk v [] 0 []" using assms(2) by (simp add: extract_resources_def)
  then have "map xq_value (extract_resources v) = filter names_resource (string_leaves v)"
    using walk_complete(1) [of 0 v "[]" "[]"] assms by simp
  then show ?thesis using extracted_classified by blast
qed

theorem mcp_resources_complete_witness:
  "map xq_value (extract_resources (JObj [(''edits'', JArr [JStr ''./b'', JStr ''utf-8'']), (''to'', JStr ''HTTPS://x'')])) = [''./b'', ''HTTPS://x'']"
proof -
  let ?v = "JObj [(''edits'', JArr [JStr ''./b'', JStr ''utf-8'']), (''to'', JStr ''HTTPS://x'')]"
  have "nesting ?v \<le> MAX_ARGUMENT_DEPTH" "length (extract_resources ?v) < MAX_EXTRACTED_RESOURCES" by code_simp+
  from mcp_resources_complete [OF this] have "map xq_value (extract_resources ?v) = filter names_resource (string_leaves ?v)" ..
  also have "\<dots> = [''./b'', ''HTTPS://x'']" by code_simp
  finally show ?thesis .
qed

text \<open>
  Beyond sixty-four resources nothing is checked. Whatever follows them in the arguments, a path or URL of any kind, the
  call is authorized exactly as if it were not there.
\<close>

theorem mcp_tail_unchecked:
  assumes "length (extract_resources (JArr xs)) = MAX_EXTRACTED_RESOURCES"
  shows "authorize_mcp_call e h wall i (c\<lparr>mcc_arguments := JArr (xs @ ys)\<rparr>) mt st =
    authorize_mcp_call e h wall i (c\<lparr>mcc_arguments := JArr xs\<rparr>) mt st"
proof (rule call_reads_extraction)
  have "MAX_EXTRACTED_RESOURCES \<le> length (mcp_walk_items xs 0 [] 0 [])"
    using assms by (simp add: extract_resources_def walk_stops_def MAX_EXTRACTED_RESOURCES_def split: if_splits)
  from walk_full(2) [OF this, of ys "length xs"] show "extract_resources (JArr (xs @ ys)) = extract_resources (JArr xs)"
    by (simp add: extract_resources_def walk_stops_def walk_items_append)
qed

lemma walk_replicate:
  "\<lbrakk>classify_resource t = Some k; n + length found \<le> MAX_EXTRACTED_RESOURCES\<rbrakk> \<Longrightarrow>
     length (mcp_walk_items (replicate n (JStr t)) index path 0 found) = n + length found"
  by (induction n arbitrary: index found) (simp_all add: walk_stops_def MAX_ARGUMENT_DEPTH_def)

theorem mcp_tail_unchecked_witness:
  "authorize_mcp_call demo_local_env sample_host 0 ''s'' (demo_call\<lparr>mcc_arguments := JArr (replicate 64 (JStr ''./b'') @ [JStr ''~/.ssh/id_rsa''])\<rparr>)
     demo_tables demo_mcp_store =
   authorize_mcp_call demo_local_env sample_host 0 ''s'' (demo_call\<lparr>mcc_arguments := JArr (replicate 64 (JStr ''./b''))\<rparr>)
     demo_tables demo_mcp_store"
proof -
  have "classify_resource ''./b'' = Some ResourcePath" by code_simp
  then have "length (mcp_walk_items (replicate 64 (JStr ''./b'')) 0 [] 0 []) = MAX_EXTRACTED_RESOURCES"
    by (simp add: walk_replicate MAX_EXTRACTED_RESOURCES_def)
  then have "length (extract_resources (JArr (replicate 64 (JStr ''./b'')))) = MAX_EXTRACTED_RESOURCES"
    by (simp only: extract_resources_def mcp_walk.simps walk_stops_def length_take) (simp add: MAX_EXTRACTED_RESOURCES_def MAX_ARGUMENT_DEPTH_def)
  then show ?thesis by (rule mcp_tail_unchecked)
qed

text \<open>
  C27: the record of a server's tools does not drift. Once tools are on record, a synchronization either reports drift and
  changes nothing, or leaves the same tools with the same schema and description and with no capability they had not
  declared before.
\<close>

theorem mcp_baseline_kept:
  assumes "sync_mcp_tools_inner e now name observed manifests preserve mt = (r, mt')"
    and "distinct (map (\<lambda>t. (mct_server_id t, mct_tool_name t)) (mtb_tools mt))"
    and "server_by_name mt name = Some s" "t0 \<in> set (mtb_tools mt)" "mct_server_id t0 = mcs_server_id s"
  shows "mtb_servers mt' = mtb_servers mt \<and>
    (mt' = mt \<or> r = Inr [] \<and> list_all2 (tool_kept (mcs_server_id s)) (mtb_tools mt) (mtb_tools mt'))"
proof -
  let ?x = "mcs_server_id s"
  let ?known = "read_tools mt ?x"
  have unique: "t = t'" if "t \<in> set (mtb_tools mt)" "t' \<in> set (mtb_tools mt)" "mct_server_id t = mct_server_id t'"
    "mct_tool_name t = mct_tool_name t'" for t t'
    using assms(2) that by (auto simp: distinct_map dest: inj_onD)
  have known: "set ?known = {t \<in> set (mtb_tools mt). mct_server_id t = ?x}" by (rule set_eqI) simp
  have some: "?known \<noteq> []"
  proof
    assume "?known = []"
    then have "t0 \<notin> set ?known" by simp
    then show False using assms(4,5) by simp
  qed
  have refl: "list_all2 (tool_kept ?x) (mtb_tools mt) (mtb_tools mt)" by (simp add: list_all2_refl tool_kept_def)
  show ?thesis
  proof (cases "mt' = mt")
    case False
    then obtain staged where loop: "sync_loop e now ?x ?known preserve manifests (mtb_tools mt)
        (substitution_drift s observed @ removed_drift ?known manifests) = Inr (staged, [])" "r = Inr []" "mt' = mt\<lparr>mtb_tools := staged\<rparr>"
      using assms(1,3) by (auto simp: sync_mcp_tools_inner_def Let_def split: sum.splits prod.splits if_splits)
    have "list_all2 (tool_kept ?x) (mtb_tools mt) staged"
      by (rule sync_loop_kept [OF _ known some loop(1) refl]) (rule unique)
    then show ?thesis by (simp add: loop(2,3))
  qed simp
qed

definition demo_manifest :: McpToolManifest where
  "demo_manifest = \<lparr>mcm_name = ''read'', mcm_description = [], mcm_input_schema = JNull, mcm_declared_capabilities = [FsRead, FsWrite]\<rparr>"

theorem mcp_baseline_kept_witness:
  "mtb_servers (snd (sync_mcp_tools demo_local_env 1 ''files'' None [demo_manifest] demo_tables)) = mtb_servers demo_tables"
proof -
  let ?s = "hd (mtb_servers demo_tables)" and ?t = "hd (mtb_tools demo_tables)"
  have "distinct (map (\<lambda>t. (mct_server_id t, mct_tool_name t)) (mtb_tools demo_tables))" "server_by_name demo_tables ''files'' = Some ?s"
    "?t \<in> set (mtb_tools demo_tables)" "mct_server_id ?t = mcs_server_id ?s"
    by (simp_all add: demo_tables_def server_by_name_def)
  then show ?thesis
    using mcp_baseline_kept [of demo_local_env 1 "''files''" None "[demo_manifest]" False demo_tables, OF prod.collapse [symmetric]]
    unfolding sync_mcp_tools_def by blast
qed

lemma mcp_launch_digest:
  assumes "verify_mcp_proxy_executable e h open_file mt name requested = Inr path" "server_by_name mt name = Some s"
  shows "\<exists>x. mcs_executable_sha256 s = Some (hash_display x)"
  using assms by (auto simp: verify_mcp_proxy_executable_def Let_def split: option.splits sum.splits if_splits)

text \<open>
  A proxy is launched only on the executable that was registered: the server is trusted and of complete identity, the
  command and the registered path resolve to the same file, and the digest of all the bytes of that file is the
  registered one.
\<close>

theorem mcp_launch_bound:
  assumes "verify_mcp_proxy_executable e h open_file mt name requested = Inr path"
  shows "\<exists>s executable f. server_by_name mt name = Some s \<and> mcs_trust_state s = ServerTrusted \<and> has_complete_identity s \<and>
    mcs_executable s = Some executable \<and> ho_canonicalize h executable = Inr path \<and> ho_canonicalize h requested = Inr path \<and>
    open_file path = Inr f \<and> ef_is_file f \<and> ef_mode f AND 73 \<noteq> 0 \<and> length (ef_bytes f) \<le> MAX_MCP_EXECUTABLE_BYTES \<and>
    mcs_executable_sha256 s = Some (hash_display (hash_bytes (lv_sha e) (ef_bytes f)))"
  using assms
  by (auto simp: verify_mcp_proxy_executable_def Let_def split: option.splits sum.splits if_splits)

definition demo_file :: executable_file where
  "demo_file = \<lparr>ef_is_file = True, ef_mode = 448, ef_len = 1, ef_bytes = [1]\<rparr>"

definition demo_signed_tables :: mcp_tables where
  "demo_signed_tables = demo_tables\<lparr>mtb_servers :=
     map (\<lambda>s. s\<lparr>mcs_executable_sha256 := Some (''sha256:'' @ replicate 64 (CHR ''a''))\<rparr>) (mtb_servers demo_tables)\<rparr>"

theorem mcp_launch_bound_witness:
  "\<exists>s. server_by_name demo_signed_tables ''files'' = Some s \<and>
     mcs_executable_sha256 s = Some (hash_display (hash_bytes (\<lambda>_. replicate 64 (CHR ''a'')) [1]))"
proof -
  let ?e = "demo_local_env\<lparr>lv_sha := \<lambda>_. replicate 64 (CHR ''a'')\<rparr>"
  have complete: "list_all has_complete_identity (mtb_servers demo_signed_tables)" by code_simp
  have display: "hash_display (hash_bytes (\<lambda>_. replicate 64 (CHR ''a'')) [1]) = ''sha256:'' @ replicate 64 (CHR ''a'')" by code_simp
  have bounds: "take (MAX_MCP_EXECUTABLE_BYTES + 1) [1] = [1]" "\<not> MAX_MCP_EXECUTABLE_BYTES < 1"
    by (simp_all add: MAX_MCP_EXECUTABLE_BYTES_def)
  have "verify_mcp_proxy_executable ?e sample_host (\<lambda>_. Inr demo_file) demo_signed_tables ''files'' ''/x'' = Inr ''/x''"
    using complete bounds(2)
    by (simp add: verify_mcp_proxy_executable_def demo_signed_tables_def demo_tables_def server_by_name_def sample_host_def
        demo_file_def bounds(1) display)
  from mcp_launch_bound [OF this] show ?thesis by (auto simp: demo_file_def)
qed

section \<open>Where the code parts from its text\<close>

text \<open>
  A \<^verbatim>\<open>file://\<close> URL is taken for a path, and then for a name relative to the workspace: a key that is out of reach as a
  path is allowed as a URL.
\<close>

lemma file_url_escapes_policy:
  "map xq_kind (extract_resources (JStr ''file:///h/.ssh/k'')) = [ResourcePath]"
  "map (\<lambda>x. ld_outcome (preflight_decision sample_host DeveloperStandard ''/w'' RiskNormal x)) (extract_resources (JStr ''file:///h/.ssh/k'')) = [LocalAllow]"
  "map (\<lambda>x. ld_outcome (preflight_decision sample_host DeveloperStandard ''/w'' RiskNormal x)) (extract_resources (JStr ''/h/.ssh/k'')) = [LocalDeny]"
  by code_simp+

text \<open>
  Leases are spent by the wall clock and not by the clock of the store: a lease that expired by the latter is spent
  when the wall clock was set back, where a direct request would be refused.
\<close>

lemma wall_clock_revives_lease:
  assumes "lt_leases st = [demo_lease\<lparr>cl_action := FsRead\<rparr>]" "lt_high_water st = Some (seconds 100)"
  shows "\<exists>leases st'. consume_leases_atomically ''s'' [\<lparr>lu_action = FsRead, lu_resource = ''/w/f''\<rparr>] 2 st = (Inr (Consumed_leases leases), st')"
    and "consume_lease ''s'' FsRead ''/w/f'' (cr_now (fst (observe_now 2 st))) st = (Inr None, st)"
  using assms
  by (simp_all add: consume_lease_def consume_leases_atomically_def observe_now_def lease_candidate_def lease_covers_def lease_is_usable_def
      demo_lease_def seconds_def nanos_per_second_def charge_lease_def exhaust_lease_def read_lease_def rbind_def)


text \<open>
  Registration and identity take a digest without its \<^verbatim>\<open>sha256:\<close> label; the launch compares it with one that has the label,
  so such a server is trusted and can never be launched.
\<close>

lemma bare_digest_never_launches:
  assumes "server_by_name mt name = Some s" "mcs_executable_sha256 s = Some (replicate 64 (CHR ''a''))"
  shows "validate_mcp_hash (replicate 64 (CHR ''a'')) = Inr () \<and>
    verify_mcp_proxy_executable e h open_file mt name requested \<noteq> Inr path"
proof -
  have "hash_display x \<noteq> replicate 64 (CHR ''a'')" for x
    by (cases x; cases "ch_algorithm x") (simp add: hash_display_def numeral_eq_Suc)
  then have "verify_mcp_proxy_executable e h open_file mt name requested \<noteq> Inr path"
    using assms mcp_launch_digest by fastforce
  moreover have "validate_mcp_hash (replicate 64 (CHR ''a'')) = Inr ()" by code_simp
  ultimately show ?thesis by blast
qed

end
