(* ===== verification/LocalChain.thy ===== *)
theory LocalChain
  imports LocalMcp AuditLog
begin

text \<open>
  The local event log and its signed checkpoints: linking events that had no links, recomputing the chain and
  holding it against the checkpoints (\<^verbatim>\<open>vigil-local/src/store.rs\<close>), signing and checking one checkpoint
  (\<^verbatim>\<open>checkpoint.rs\<close>). The signature scheme and Base64 are parameters; the payload of an event is read back from the
  database as the value that was written.
\<close>

section \<open>Checkpoints\<close>

definition LOCAL_CHECKPOINT_DOMAIN :: "u8 list" where
  "LOCAL_CHECKPOINT_DOMAIN = utf8 ''VIGIL_LOCAL_CHAIN_CHECKPOINT_V1'' @ [0]"

record LocalCheckpoint =
  lk_sequence :: int
  lk_head_hash :: string
  lk_signed_at :: timestamp
  lk_key_id :: string
  lk_signature :: string

record ('sk, 'vk) signature_scheme =
  sc_from_seed :: "u8 list \<Rightarrow> 'sk"
  sc_public :: "'sk \<Rightarrow> 'vk"
  sc_sign :: "'sk \<Rightarrow> u8 list \<Rightarrow> u8 list"
  sc_verify :: "'vk \<Rightarrow> u8 list \<Rightarrow> u8 list \<Rightarrow> bool"
  sc_b64_encode :: "u8 list \<Rightarrow> string"
  sc_b64_decode :: "string \<Rightarrow> u8 list option"

definition local_signing_payload :: "local_env \<Rightarrow> int \<Rightarrow> string \<Rightarrow> timestamp \<Rightarrow> string \<Rightarrow> canon_error + u8 list" where
  "local_signing_payload e sequence head_hash signed_at key_id =
     rbind (canonical_bytes (lv_format e) (JObj [(''sequence'', JInt sequence), (''head_hash'', JStr head_hash),
              (''signed_at'', JStr (lv_rfc3339 e signed_at)), (''key_id'', JStr key_id)]))
       (\<lambda>b. Inr (LOCAL_CHECKPOINT_DOMAIN @ b))"

record 'sk LocalCheckpointSigner =
  kg_key_id :: string
  kg_key :: 'sk

definition signer_from_seed :: "('sk, 'vk) signature_scheme \<Rightarrow> string \<Rightarrow> u8 list \<Rightarrow> local_error + 'sk LocalCheckpointSigner" where
  "signer_from_seed sc key_id seed =
     (if length seed \<noteq> 32 then Inl (LocalConfig ''checkpoint signing seed must be exactly 32 bytes'')
      else Inr \<lparr>kg_key_id = key_id, kg_key = sc_from_seed sc seed\<rparr>)"

definition sign_checkpoint ::
    "local_env \<Rightarrow> ('sk, 'vk) signature_scheme \<Rightarrow> 'sk LocalCheckpointSigner \<Rightarrow> int \<Rightarrow> string \<Rightarrow> timestamp \<Rightarrow> local_error + LocalCheckpoint" where
  "sign_checkpoint e sc k sequence head_hash signed_at =
     (case local_signing_payload e sequence head_hash signed_at (kg_key_id k) of
        Inl err \<Rightarrow> Inl (LocalNotCanonical err)
      | Inr payload \<Rightarrow>
          Inr \<lparr>lk_sequence = sequence, lk_head_hash = head_hash, lk_signed_at = signed_at, lk_key_id = kg_key_id k,
               lk_signature = sc_b64_encode sc (sc_sign sc (kg_key k) payload)\<rparr>)"

type_synonym 'vk local_verifier = "(string, 'vk) hmap"

definition trust_checkpoint_key :: "string \<Rightarrow> 'vk \<Rightarrow> 'vk local_verifier \<Rightarrow> 'vk local_verifier" where
  "trust_checkpoint_key key_id key v = hm_insert key_id key v"

definition trust_checkpoint_seed :: "('sk, 'vk) signature_scheme \<Rightarrow> string \<Rightarrow> u8 list \<Rightarrow> 'vk local_verifier \<Rightarrow> local_error + 'vk local_verifier" where
  "trust_checkpoint_seed sc key_id seed v =
     rbind (signer_from_seed sc ''verify-only'' seed) (\<lambda>k. Inr (trust_checkpoint_key key_id (sc_public sc (kg_key k)) v))"

datatype CheckpointFailure =
    CheckpointUnknownKey string
  | CheckpointInvalidSignature
  | CheckpointHeadMismatch string string
  | CheckpointBeyondEnd int

definition check_checkpoint :: "local_env \<Rightarrow> ('sk, 'vk) signature_scheme \<Rightarrow> 'vk local_verifier \<Rightarrow> LocalCheckpoint \<Rightarrow> CheckpointFailure option" where
  "check_checkpoint e sc v c =
     (case hm_get v (lk_key_id c) of
        None \<Rightarrow> Some (CheckpointUnknownKey (lk_key_id c))
      | Some key \<Rightarrow>
          (case sc_b64_decode sc (lk_signature c) of
             None \<Rightarrow> Some CheckpointInvalidSignature
           | Some raw \<Rightarrow>
               if length raw \<noteq> 64 then Some CheckpointInvalidSignature
               else case local_signing_payload e (lk_sequence c) (lk_head_hash c) (lk_signed_at c) (lk_key_id c) of
                      Inl _ \<Rightarrow> Some CheckpointInvalidSignature
                    | Inr payload \<Rightarrow> if sc_verify sc key payload raw then None else Some CheckpointInvalidSignature))"

section \<open>Recomputing the chain\<close>

record ChainVerification =
  chv_verified :: bool
  chv_events_checked :: nat
  chv_head :: "string option"
  chv_failure :: "(int \<times> string) option"
  chv_checkpoints_checked :: nat
  chv_checkpoint_failures :: "(int \<times> CheckpointFailure) list"

definition chain_failed :: "nat \<Rightarrow> int \<Rightarrow> string \<Rightarrow> ChainVerification" where
  "chain_failed checked sequence reason =
     \<lparr>chv_verified = False, chv_events_checked = checked, chv_head = None, chv_failure = Some (sequence, reason),
      chv_checkpoints_checked = 0, chv_checkpoint_failures = []\<rparr>"

text \<open>The loop over the rows ends with a failure or with the last link and sequence; either way with the heads it noted.\<close>

datatype walk_end = WalkFailed ChainVerification | WalkDone "string option" "int option" nat

type_synonym heads = "(int, string) hmap"

fun walk_events ::
    "local_env \<Rightarrow> int set \<Rightarrow> LocalEvent list \<Rightarrow> string option \<Rightarrow> int option \<Rightarrow> nat \<Rightarrow> heads \<Rightarrow> local_error + (walk_end \<times> heads)" where
  "walk_events e wanted [] previous_hash previous_sequence checked hs = Inr (WalkDone previous_hash previous_sequence checked, hs)"
| "walk_events e wanted (x # xs) previous_hash previous_sequence checked hs =
     (let checked = Suc checked
      in if (case previous_sequence of None \<Rightarrow> False | Some s \<Rightarrow> lx_sequence x \<noteq> s + 1)
         then Inr (WalkFailed (chain_failed checked (lx_sequence x) ''sequence jumps; event(s) were removed''), hs)
         else if lx_previous_hash x \<noteq> previous_hash
         then Inr (WalkFailed (chain_failed checked (lx_sequence x) ''this event does not link to the one before it''), hs)
         else case event_link_hash e x of
                Inl err \<Rightarrow> Inl err
              | Inr expected \<Rightarrow>
                  (case lx_chain_hash x of
                     None \<Rightarrow> Inr (WalkFailed (chain_failed checked (lx_sequence x) ''event carries no chain link''), hs)
                   | Some stored \<Rightarrow>
                       if stored \<noteq> expected
                       then Inr (WalkFailed (chain_failed checked (lx_sequence x) ''event content does not match its recorded link''), hs)
                       else walk_events e wanted xs (Some expected) (Some (lx_sequence x)) checked
                              (if lx_sequence x \<in> wanted then hm_insert (lx_sequence x) expected hs else hs)))"

text \<open>The high-water mark of \<^verbatim>\<open>AUTOINCREMENT\<close>: there is no row before the first event.\<close>

definition issued_mark :: "local_store \<Rightarrow> int option" where
  "issued_mark st = (if lt_issued_events st = 0 then None else Some (lt_issued_events st))"

definition walk_verdict :: "local_store \<Rightarrow> walk_end \<Rightarrow> ChainVerification" where
  "walk_verdict st w =
     (case w of
        WalkFailed v \<Rightarrow> v
      | WalkDone previous_hash previous_sequence checked \<Rightarrow>
          (case (issued_mark st, previous_sequence) of
             (Some high_water, None) \<Rightarrow> chain_failed checked 0 ''the log is empty but event(s) were issued''
           | (Some high_water, Some ending) \<Rightarrow>
               if ending < high_water then chain_failed checked ending ''record(s) were removed from the end''
               else \<lparr>chv_verified = True, chv_events_checked = checked, chv_head = previous_hash, chv_failure = None,
                     chv_checkpoints_checked = 0, chv_checkpoint_failures = []\<rparr>
           | _ \<Rightarrow> \<lparr>chv_verified = True, chv_events_checked = checked, chv_head = previous_hash, chv_failure = None,
                  chv_checkpoints_checked = 0, chv_checkpoint_failures = []\<rparr>))"

definition walk_event_chain :: "local_env \<Rightarrow> int set \<Rightarrow> local_store \<Rightarrow> local_error + (ChainVerification \<times> heads)" where
  "walk_event_chain e wanted st =
     rbind (walk_events e wanted (sort_key lx_sequence (lt_events st)) None None 0 []) (\<lambda>(w, hs). Inr (walk_verdict st w, hs))"

definition verify_event_chain :: "local_env \<Rightarrow> local_store \<Rightarrow> local_error + ChainVerification" where
  "verify_event_chain e st = rbind (walk_event_chain e {} st) (\<lambda>(v, hs). Inr v)"

definition last_event_sequence :: "local_store \<Rightarrow> int option" where
  "last_event_sequence st = (if lt_events st = [] then None else Some (foldr max (map lx_sequence (tl (lt_events st))) (lx_sequence (hd (lt_events st)))))"

definition write_checkpoint ::
    "local_env \<Rightarrow> ('sk, 'vk) signature_scheme \<Rightarrow> 'sk LocalCheckpointSigner \<Rightarrow> timestamp \<Rightarrow> local_store \<times> LocalCheckpoint list
      \<Rightarrow> (local_error + LocalCheckpoint) \<times> (local_store \<times> LocalCheckpoint list)" where
  "write_checkpoint e sc k signed_at p =
     (let (st, cps) = p
      in case verify_event_chain e st of
           Inl err \<Rightarrow> (Inl err, p)
         | Inr v \<Rightarrow>
             if \<not> chv_verified v then (Inl (LocalConfig ''refusing to checkpoint a chain that does not verify''), p)
             else case (chv_head v, last_event_sequence st) of
                    (Some head_hash, Some sequence) \<Rightarrow>
                      (case sign_checkpoint e sc k sequence head_hash signed_at of
                         Inl err \<Rightarrow> (Inl err, p)
                       | Inr c \<Rightarrow> (Inr c, (st, filter (\<lambda>d. lk_sequence d \<noteq> sequence) cps @ [c])))
                  | _ \<Rightarrow> (Inl (LocalConfig ''refusing to checkpoint an empty event log''), p))"

definition checkpoint_failure ::
    "local_env \<Rightarrow> ('sk, 'vk) signature_scheme \<Rightarrow> 'vk local_verifier \<Rightarrow> heads \<Rightarrow> int option \<Rightarrow> LocalCheckpoint \<Rightarrow> CheckpointFailure option" where
  "checkpoint_failure e sc v hs last_sequence c =
     (case check_checkpoint e sc v c of
        Some failure \<Rightarrow> Some failure
      | None \<Rightarrow>
          (case hm_get hs (lk_sequence c) of
             None \<Rightarrow> Some (CheckpointBeyondEnd (case last_sequence of None \<Rightarrow> 0 | Some n \<Rightarrow> n))
           | Some recomputed \<Rightarrow>
               if recomputed = lk_head_hash c then None else Some (CheckpointHeadMismatch (lk_head_hash c) recomputed)))"

definition verify_event_chain_with_checkpoints ::
    "local_env \<Rightarrow> ('sk, 'vk) signature_scheme \<Rightarrow> 'vk local_verifier \<Rightarrow> local_store \<times> LocalCheckpoint list \<Rightarrow> local_error + ChainVerification" where
  "verify_event_chain_with_checkpoints e sc v p =
     (let (st, cps) = p; ordered = sort_key lk_sequence cps
      in rbind (walk_event_chain e (lk_sequence ` set cps) st) (\<lambda>(verification, hs).
           let failures = List.map_filter (\<lambda>c. map_option (Pair (lk_sequence c)) (checkpoint_failure e sc v hs (last_event_sequence st) c)) ordered;
               counted = verification\<lparr>chv_checkpoints_checked := length ordered\<rparr>
           in Inr (if failures = [] then counted
                   else counted\<lparr>chv_verified := False, chv_checkpoint_failures := failures\<rparr>)))"

section \<open>Linking old events\<close>

fun relink :: "local_env \<Rightarrow> string option \<Rightarrow> LocalEvent list \<Rightarrow> local_error + LocalEvent list" where
  "relink e previous [] = Inr []"
| "relink e previous (x # xs) =
     (let linked = x\<lparr>lx_previous_hash := previous\<rparr>
      in rbind (event_link_hash e linked) (\<lambda>link.
         rbind (relink e (Some link) xs) (\<lambda>rest. Inr (linked\<lparr>lx_chain_hash := Some link\<rparr> # rest))))"

definition backfill_event_chain :: "local_env \<Rightarrow> local_store \<Rightarrow> (local_error + unit) \<times> local_store" where
  "backfill_event_chain e st =
     (case relink e None (sort_key lx_sequence (lt_events st)) of
        Inl err \<Rightarrow> (Inl err, st)
      | Inr xs \<Rightarrow> (Inr (), st\<lparr>lt_events := xs\<rparr>))"


section \<open>Linked events\<close>

fun events_linked :: "local_env \<Rightarrow> string option \<Rightarrow> int \<Rightarrow> LocalEvent list \<Rightarrow> bool" where
  "events_linked e previous n [] \<longleftrightarrow> True"
| "events_linked e previous n (x # xs) \<longleftrightarrow> lx_sequence x = n \<and> lx_previous_hash x = previous \<and> lx_chain_hash x \<noteq> None \<and>
     event_link_hash e x = Inr (the (lx_chain_hash x)) \<and> events_linked e (lx_chain_hash x) (n + 1) xs"

definition last_link :: "string option \<Rightarrow> LocalEvent list \<Rightarrow> string option" where
  "last_link previous xs = (if xs = [] then previous else lx_chain_hash (List.last xs))"

lemma last_link_simps [simp]: "last_link p [] = p" "last_link p (x # xs) = last_link (lx_chain_hash x) xs"
  by (simp_all add: last_link_def)

lemma linked_append:
  "events_linked e p n (xs @ ys) \<longleftrightarrow> events_linked e p n xs \<and> events_linked e (last_link p xs) (n + int (length xs)) ys"
  by (induction xs arbitrary: p n) (auto simp: algebra_simps)

lemma linked_nth:
  "\<lbrakk>events_linked e p n xs; i < length xs\<rbrakk> \<Longrightarrow> lx_sequence (xs ! i) = n + int i \<and>
     lx_previous_hash (xs ! i) = (if i = 0 then p else lx_chain_hash (xs ! (i - 1))) \<and> lx_chain_hash (xs ! i) \<noteq> None \<and>
     event_link_hash e (xs ! i) = Inr (the (lx_chain_hash (xs ! i)))"
proof (induction xs arbitrary: p n i)
  case (Cons x xs)
  show ?case
  proof (cases i)
    case (Suc j)
    then show ?thesis using Cons.IH [of "lx_chain_hash x" "n + 1" j] Cons.prems by (cases j) auto
  qed (use Cons.prems in auto)
qed simp

lemma linked_sorted: "events_linked e p n xs \<Longrightarrow> sort_key lx_sequence xs = xs"
proof -
  assume l: "events_linked e p n xs"
  have "sorted (map lx_sequence xs)"
    unfolding sorted_iff_nth_mono using linked_nth [OF l] by auto
  then show ?thesis by (intro properties_for_sort_key) auto
qed

lemma link_ignores_chain [simp]: "event_link_hash e (x\<lparr>lx_chain_hash := h\<rparr>) = event_link_hash e x"
  by (simp add: event_link_hash_def event_document_def)

section \<open>The walk\<close>

definition next_of :: "int option \<Rightarrow> LocalEvent list \<Rightarrow> int" where
  "next_of previous xs = (case previous of None \<Rightarrow> (case xs of [] \<Rightarrow> 0 | x # _ \<Rightarrow> lx_sequence x) | Some n \<Rightarrow> n + 1)"

lemma walk_linked:
  "events_linked e p (next_of s xs) xs \<Longrightarrow>
     \<exists>hs'. walk_events e wanted xs p s checked hs =
       Inr (WalkDone (last_link p xs) (if xs = [] then s else Some (lx_sequence (List.last xs))) (checked + length xs), hs')"
proof (induction xs arbitrary: p s checked hs)
  case (Cons x xs)
  have x: "lx_previous_hash x = p" "event_link_hash e x = Inr (the (lx_chain_hash x))" "lx_chain_hash x \<noteq> None"
    "events_linked e (lx_chain_hash x) (lx_sequence x + 1) xs" "case s of None \<Rightarrow> True | Some n \<Rightarrow> lx_sequence x = n + 1"
    using Cons.prems by (auto simp: next_of_def split: option.splits)
  obtain h where h: "lx_chain_hash x = Some h" using x(3) by blast
  have "events_linked e (Some h) (next_of (Some (lx_sequence x)) xs) xs" using x(4) h by (simp add: next_of_def)
  then obtain hs' where "walk_events e wanted xs (Some h) (Some (lx_sequence x)) (Suc checked)
      (if lx_sequence x \<in> wanted then hm_insert (lx_sequence x) h hs else hs) =
      Inr (WalkDone (last_link (Some h) xs) (if xs = [] then Some (lx_sequence x) else Some (lx_sequence (List.last xs))) (Suc checked + length xs), hs')"
    using Cons.IH by blast
  moreover have "walk_events e wanted (x # xs) p s checked hs =
      walk_events e wanted xs (Some h) (Some (lx_sequence x)) (Suc checked) (if lx_sequence x \<in> wanted then hm_insert (lx_sequence x) h hs else hs)"
    using x h by (auto simp: Let_def split: option.splits)
  ultimately show ?case using h by (simp only: last_link_simps) auto
qed simp

lemma walk_done:
  "walk_events e wanted xs p s checked hs = Inr (WalkDone p' s' checked', hs') \<Longrightarrow>
     events_linked e p (next_of s xs) xs \<and>
     (\<forall>m h. hm_get hs' m = Some h \<longrightarrow> hm_get hs m = Some h \<or> (\<exists>x\<in>set xs. lx_sequence x = m \<and> lx_chain_hash x = Some h))"
proof (induction xs arbitrary: p s checked hs)
  case (Cons x xs)
  obtain h where h: "lx_chain_hash x = Some h" "event_link_hash e x = Inr h" "lx_previous_hash x = p"
    "case s of None \<Rightarrow> True | Some n \<Rightarrow> lx_sequence x = n + 1"
    "walk_events e wanted xs (Some h) (Some (lx_sequence x)) (Suc checked)
       (if lx_sequence x \<in> wanted then hm_insert (lx_sequence x) h hs else hs) = Inr (WalkDone p' s' checked', hs')"
    using Cons.prems by (auto simp: Let_def split: option.splits sum.splits if_splits)
  note ih = Cons.IH [OF h(5)]
  have "events_linked e p (next_of s (x # xs)) (x # xs)"
    using ih h by (auto simp: next_of_def split: option.splits)
  moreover have "hm_get hs m = Some k \<or> (\<exists>x\<in>set (x # xs). lx_sequence x = m \<and> lx_chain_hash x = Some k)"
    if "hm_get hs' m = Some k" for m k
    using ih that h(1) by (cases "lx_sequence x \<in> wanted \<and> lx_sequence x = m") (auto simp: hm_get_insert split: if_splits)
  ultimately show ?case by blast
qed simp

lemma verified_walk:
  assumes "walk_event_chain e wanted st = Inr (v, hs)" "chv_verified v"
  shows "\<exists>n. events_linked e None n (sort_key lx_sequence (lt_events st))"
    and "hm_get hs m = Some h \<Longrightarrow> \<exists>x\<in>set (lt_events st). lx_sequence x = m \<and> lx_chain_hash x = Some h"
proof -
  obtain w where w: "walk_events e wanted (sort_key lx_sequence (lt_events st)) None None 0 [] = Inr (w, hs)" "v = walk_verdict st w"
    using assms(1) by (auto simp: walk_event_chain_def rbind_eq_Inr)
  have "\<not> chv_verified v'" if "walk_events e wanted xs p s checked hs0 = Inr (WalkFailed v', hs1)" for xs p s checked hs0 hs1 v'
    using that
  proof (induction xs arbitrary: p s checked hs0)
    case (Cons x xs)
    show ?case
      using Cons.prems by (auto simp: Let_def chain_failed_def split: option.splits sum.splits if_splits dest!: Cons.IH)
  qed simp
  then obtain p s k where d: "w = WalkDone p s k" using w assms(2) by (cases w) (auto simp: walk_verdict_def)
  from walk_done [OF w(1) [unfolded d]] show "\<exists>n. events_linked e None n (sort_key lx_sequence (lt_events st))"
    and "hm_get hs m = Some h \<Longrightarrow> \<exists>x\<in>set (lt_events st). lx_sequence x = m \<and> lx_chain_hash x = Some h"
    by (auto simp: hm_get_def)
qed


section \<open>An honest log\<close>

definition chain_ok :: "local_env \<Rightarrow> local_store \<Rightarrow> bool" where
  "chain_ok e st \<longleftrightarrow> events_linked e None 1 (lt_events st) \<and> lt_issued_events st = int (length (lt_events st))"

text \<open>The log is only appended to, and stays linked.\<close>

definition log_kept :: "local_env \<Rightarrow> local_store \<Rightarrow> local_store \<Rightarrow> bool" where
  "log_kept e st st' \<longleftrightarrow> (chain_ok e st \<longrightarrow> chain_ok e st') \<and> prefix (lt_events st) (lt_events st')"

interpretation chain: step_order "log_kept e" for e
  by unfold_locales (auto simp: log_kept_def)

lemma same_log: "\<lbrakk>lt_events st' = lt_events st; lt_issued_events st' = lt_issued_events st\<rbrakk> \<Longrightarrow> log_kept e st st'"
  by (simp add: log_kept_def chain_ok_def)

lemma log_append_event: "log_kept e st (snd (append_event e wall i category act decision correlation payload st))"
proof -
  let ?x = "\<lparr>lx_sequence = lt_issued_events st + 1, lx_event_id = fresh_id e ''evt_'' st, lx_timestamp = wall,
      lx_session_id = i, lx_category = category, lx_action = act, lx_decision = decision, lx_correlation_id = correlation,
      lx_payload = payload, lx_previous_hash = (if lt_events st = [] then None else lx_chain_hash (List.last (lt_events st))),
      lx_chain_hash = None\<rparr>"
  show ?thesis
  proof (cases "session_of st i = None")
    case False
    show ?thesis
    proof (cases "event_link_hash e ?x")
      case (Inl err)
      then show ?thesis using False by (simp add: append_event_def Let_def chain.refl)
    next
      case (Inr link)
      have "snd (append_event e wall i category act decision correlation payload st) =
          (id_drawn st)\<lparr>lt_events := lt_events st @ [?x\<lparr>lx_chain_hash := Some link\<rparr>], lt_issued_events := lt_issued_events st + 1\<rparr>"
        unfolding append_event_def Let_def if_not_P [OF False] Inr sum.case snd_conv by (rule refl)
      moreover have "event_link_hash e (?x\<lparr>lx_chain_hash := Some link\<rparr>) = Inr link" unfolding link_ignores_chain by (rule Inr)
      ultimately show ?thesis
        by (auto simp: log_kept_def chain_ok_def linked_append last_link_def)
    qed
  qed (simp add: append_event_def chain.refl)
qed

lemma log_simple:
  "log_kept e st (st\<lparr>lt_sessions := ss\<rparr>)" "log_kept e st (st\<lparr>lt_canaries := cs\<rparr>)"
  "log_kept e st (snd (update_exactly_one P f st))"
  "log_kept e st (snd (observe_now wall st))"
  "log_kept e st (snd (record_detection e wall i rule evidence source st))"
  "log_kept e st (snd (open_incident e wall i severity reason st))"
  "log_kept e st (attach_detections x i st)"
  "log_kept e st (snd (seal_incident wall x st))"
  "log_kept e st (snd (insert_request now q st))"
  "log_kept e st (snd (revoke_session_leases e wall i reason st))"
  "log_kept e st (raise_risk e wall i previous risk trigger reason st)"
  "log_kept e st (id_drawn st)"
  by (rule same_log; simp add: update_exactly_one_def observe_now_def record_detection_def open_incident_def attach_detections_def
      seal_incident_def insert_request_def revoke_session_leases_def raise_risk_def update_session_def id_drawn_def Let_def
      split: option.splits sum.splits)+

lemma log_record_risk: "log_kept e st (snd (record_risk_signal e wall i d weight source note st))"
  by (rule same_log; simp add: record_risk_signal_def raise_risk_def update_session_def revoke_session_leases_def id_drawn_def Let_def
      split: sum.splits)

lemma log_escalate: "log_kept e st (snd (escalate_risk_to e wall i target reason st))"
  by (rule same_log; simp add: escalate_risk_to_def raise_risk_def update_session_def revoke_session_leases_def id_drawn_def Let_def
      split: sum.splits)

lemma log_consume_atomically: "log_kept e st (snd (consume_leases_atomically i uses now st))"
  by (rule same_log; simp add: consume_leases_atomically_def split: sum.splits prod.splits)

lemma log_consume: "log_kept e st (snd (consume_lease i a k now st))"
  using log_consume_atomically [of e st i "[\<lparr>lu_action = a, lu_resource = k\<rparr>]" now]
  by (auto simp: consume_lease_def split: prod.splits sum.splits AtomicLeaseConsumption.splits)

lemma log_observe_reporting: "log_kept e st (snd (observe_now_reporting e wall i st))"
proof (cases "observe_now wall st")
  case (Pair r st1)
  have "log_kept e st st1" using log_simple(4) [of e st wall] Pair by simp
  then show ?thesis
    unfolding observe_now_reporting_def Pair Let_def prod.case
    by (rule chain.trans) (intro chain.kept log_simple log_record_risk)
qed

lemma log_note: "log_kept e st (snd (note_if_ruled e wall i label evidence st))"
  unfolding note_if_ruled_def by (intro chain.kept log_simple)

lemma log_open_attach: "log_kept e st (snd (open_and_attach e wall i severity reason st))"
proof (cases "open_incident e wall i severity reason st")
  case (Pair r st1)
  then have "log_kept e st st1" using log_simple(6) [of e st wall i severity reason] by simp
  then show ?thesis using log_simple(7) by (auto simp: open_and_attach_def Pair split: sum.splits intro: chain.trans)
qed

lemma log_request: "log_kept e st (snd (request_local_approval e wall ask now st))"
  unfolding request_local_approval_def Let_def report_fatigue_def
  by (intro chain.kept log_simple log_record_risk log_note log_append_event)

lemma log_authorize: "log_kept e st (snd (authorize_decision e wall i a requested base key st))"
  unfolding authorize_decision_def Let_def spend_lease_def touch_canary_def fire_detection_def ask_approval_def
  by (intro chain.kept log_simple log_record_risk log_open_attach log_consume log_request log_observe_reporting)

lemma log_grant: "log_kept e st (snd (grant_approval e x approver max_uses ttl note now st))"
  by (rule same_log; simp add: grant_approval_def issue_lease_def decide_request_def id_drawn_def Let_def split: sum.splits prod.splits)

lemma log_deny: "log_kept e st (snd (deny_approval e x approver note now st))"
  by (rule same_log; simp add: deny_approval_def decide_request_def Let_def split: sum.splits)

lemma log_response: "log_kept e st (snd (apply_response e wall report incident_id act st))"
proof -
  have revoke: "log_kept e st (snd (let (revoked, st') = revoke_session_leases e wall i reason st in (f revoked, st')))" for i reason f st
    using log_simple(10) by (simp add: case_prod_unfold Let_def)
  have perform: "log_kept e st (snd (perform_response e wall report c s act st))" for c s
    unfolding perform_response_def Let_def seal_session_def
    by (cases act) (simp_all only: ResponseAction.case, (intro chain.kept log_simple log_escalate revoke [unfolded Let_def])+)
  have drawn: "log_kept e st1 ((id_drawn st1)\<lparr>lt_responses := rs\<rparr>)" for st1 rs
    by (rule same_log) (simp_all add: id_drawn_def)
  have tail: "log_kept e st1 (snd (case append_event e wall i category act' decision correlation payload ((id_drawn st1)\<lparr>lt_responses := rs\<rparr>) of
      (Inl err, st3) \<Rightarrow> (Inl err, st3) | (Inr _, st3) \<Rightarrow> (Inr r, st3)))"
    for st1 rs i category act' decision correlation payload and r :: IncidentResponse
    by (rule chain.trans [OF drawn [of st1 rs]]) (intro chain.kept log_append_event)
  show ?thesis
    unfolding apply_response_def Let_def by (intro chain.kept perform tail)
qed

lemma log_step_kept: "local_step e st st' \<Longrightarrow> log_kept e st st'"
  unfolding mark_running_def activate_semantic_session_def finish_session_def
  by (induction rule: local_step.induct)
     (simp_all only: mark_running_def activate_semantic_session_def finish_session_def log_simple log_append_event log_observe_reporting
       log_record_risk log_escalate log_request log_grant log_deny log_consume_atomically log_authorize log_response)

lemma log_interleaved_kept: "interleaved_step e st st' \<Longrightarrow> log_kept e st st'"
proof (induction rule: interleaved_step.induct)
  case (sealed st wall i risk)
  then show ?case by (rule same_log) (simp_all add: seal_session_def update_exactly_one_def Let_def)
next
  case (responded st r)
  then show ?case by (rule same_log) (simp_all add: id_drawn_def)
qed (rule log_step_kept)

lemma log_steps_kept: "local_steps e st st' \<Longrightarrow> log_kept e st st'"
  unfolding local_steps_def
  by (induction rule: rtranclp_induct) (auto intro: chain.refl chain.trans log_step_kept)

lemma empty_chain_ok: "chain_ok e empty_store"
  by (simp add: chain_ok_def empty_store_def)


section \<open>Signed heads\<close>

text \<open>
  A history of the log: operations of the control plane, possibly overlapping, and checkpoints. The last component is what was signed.
\<close>

definition checkpoint_message :: "local_env \<Rightarrow> LocalCheckpoint \<Rightarrow> canon_error + u8 list" where
  "checkpoint_message e c = local_signing_payload e (lk_sequence c) (lk_head_hash c) (lk_signed_at c) (lk_key_id c)"

inductive log_step ::
    "local_env \<Rightarrow> ('sk, 'vk) signature_scheme \<Rightarrow> 'sk LocalCheckpointSigner \<Rightarrow>
      local_store \<times> LocalCheckpoint list \<times> LocalCheckpoint list \<Rightarrow> local_store \<times> LocalCheckpoint list \<times> LocalCheckpoint list \<Rightarrow> bool"
  for e sc k where
  operation: "interleaved_step e st st' \<Longrightarrow> log_step e sc k (st, cps, made) (st', cps, made)"
| checkpoint: "write_checkpoint e sc k t (st, cps) = (Inr c, (st', cps')) \<Longrightarrow>
    log_step e sc k (st, cps, made) (st', cps', c # made)"

definition log_steps where "log_steps e sc k = (log_step e sc k)\<^sup>*\<^sup>*"

inductive_cases log_stepE: "log_step e sc k p p'"

definition head_in :: "local_store \<Rightarrow> LocalCheckpoint \<Rightarrow> bool" where
  "head_in st c \<longleftrightarrow> (\<exists>x\<in>set (lt_events st). lx_sequence x = lk_sequence c \<and> lx_chain_hash x = Some (lk_head_hash c))"

definition signed_with :: "local_env \<Rightarrow> ('sk, 'vk) signature_scheme \<Rightarrow> 'sk LocalCheckpointSigner \<Rightarrow> LocalCheckpoint \<Rightarrow> bool" where
  "signed_with e sc k c \<longleftrightarrow> lk_key_id c = kg_key_id k \<and>
     (\<exists>m. checkpoint_message e c = Inr m \<and> lk_signature c = sc_b64_encode sc (sc_sign sc (kg_key k) m))"

definition log_inv where
  "log_inv e sc k p \<longleftrightarrow> (case p of (st, cps, made) \<Rightarrow> chain_ok e st \<and> (\<forall>c\<in>set made. head_in st c \<and> signed_with e sc k c) \<and> set cps \<subseteq> set made)"

lemma head_in_kept: "\<lbrakk>head_in st c; prefix (lt_events st) (lt_events st')\<rbrakk> \<Longrightarrow> head_in st' c"
  unfolding head_in_def by (meson set_mono_prefix subsetD)

lemma verify_honest:
  assumes "chain_ok e st"
  shows "\<exists>hs. walk_event_chain e wanted st =
    Inr (\<lparr>chv_verified = True, chv_events_checked = length (lt_events st), chv_head = last_link None (lt_events st), chv_failure = None,
          chv_checkpoints_checked = 0, chv_checkpoint_failures = []\<rparr>, hs)"
proof -
  let ?xs = "lt_events st"
  have l: "events_linked e None 1 ?xs" "lt_issued_events st = int (length ?xs)" using assms by (simp_all add: chain_ok_def)
  then have "events_linked e None (next_of None ?xs) ?xs" by (cases ?xs) (auto simp: next_of_def)
  from walk_linked [OF this, of wanted 0 "[]"] obtain hs where w: "walk_events e wanted ?xs None None 0 [] =
      Inr (WalkDone (last_link None ?xs) (if ?xs = [] then None else Some (lx_sequence (List.last ?xs))) (length ?xs), hs)"
    by auto
  have "lx_sequence (List.last ?xs) = int (length ?xs)" if "?xs \<noteq> []"
    using linked_nth [OF l(1), of "length ?xs - 1"] that by (simp add: last_conv_nth of_nat_diff Suc_leI)
  then show ?thesis
    unfolding walk_event_chain_def linked_sorted [OF l(1)] w
    by (cases "?xs = []") (auto simp: walk_verdict_def issued_mark_def l(2))
qed

lemma last_sequence_honest:
  assumes "chain_ok e st" "lt_events st \<noteq> []"
  shows "last_event_sequence st = Some (lx_sequence (List.last (lt_events st)))"
proof -
  let ?xs = "lt_events st"
  have nth: "lx_sequence (?xs ! i) = 1 + int i" if "i < length ?xs" for i
    using linked_nth [of e None 1 ?xs i] assms(1) that by (simp add: chain_ok_def)
  have fold: "foldr max zs (z :: int) = Max (insert z (set zs))" for zs z
    by (induction zs) (auto simp: insert_commute)
  have "insert (lx_sequence (hd ?xs)) (set (map lx_sequence (tl ?xs))) = lx_sequence ` set ?xs"
    using assms(2) by (cases ?xs) auto
  moreover have "Max (lx_sequence ` set ?xs) = lx_sequence (List.last ?xs)"
  proof (rule Max_eqI)
    fix y assume "y \<in> lx_sequence ` set ?xs"
    then obtain i where "i < length ?xs" "y = lx_sequence (?xs ! i)" by (auto simp: in_set_conv_nth)
    then show "y \<le> lx_sequence (List.last ?xs)"
      using nth assms(2) by (simp add: last_conv_nth)
  qed (use assms(2) in auto)
  ultimately show ?thesis using assms(2) by (simp add: last_event_sequence_def fold)
qed

lemma written_checkpoint:
  assumes "write_checkpoint e sc k t (st, cps) = (Inr c, (st', cps'))" "chain_ok e st"
  shows "st' = st \<and> head_in st c \<and> cps' = filter (\<lambda>d. lk_sequence d \<noteq> lk_sequence c) cps @ [c] \<and> signed_with e sc k c"
proof -
  obtain hs where "walk_event_chain e {} st = Inr (\<lparr>chv_verified = True, chv_events_checked = length (lt_events st),
      chv_head = last_link None (lt_events st), chv_failure = None, chv_checkpoints_checked = 0, chv_checkpoint_failures = []\<rparr>, hs)"
    using verify_honest [OF assms(2)] by blast
  then obtain h n where h: "last_link None (lt_events st) = Some h" "last_event_sequence st = Some n"
    and sign: "sign_checkpoint e sc k n h t = Inr c" "st' = st" "cps' = filter (\<lambda>d. lk_sequence d \<noteq> n) cps @ [c]"
    using assms(1) by (auto simp: write_checkpoint_def verify_event_chain_def split: option.splits sum.splits)
  have some: "lt_events st \<noteq> []" using h(1) by (auto simp: last_link_def)
  have n: "n = lx_sequence (List.last (lt_events st))" using last_sequence_honest [OF assms(2) some] h(2) by simp
  have "lx_chain_hash (List.last (lt_events st)) = Some h" using h(1) some by (simp add: last_link_def)
  then have "head_in st c"
    using some n sign(1) by (auto simp: head_in_def sign_checkpoint_def split: sum.splits intro!: bexI [of _ "List.last (lt_events st)"])
  then show ?thesis
    using sign by (auto simp: sign_checkpoint_def signed_with_def checkpoint_message_def split: sum.splits)
qed

lemma log_step_inv: "\<lbrakk>log_step e sc k p p'; log_inv e sc k p\<rbrakk> \<Longrightarrow> log_inv e sc k p'"
proof (induction rule: log_step.induct)
  case (operation st st' cps made)
  then show ?case using log_interleaved_kept [OF operation(1)] by (auto simp: log_inv_def log_kept_def dest: head_in_kept)
next
  case (checkpoint t st cps c st' cps' made)
  then show ?case using written_checkpoint [OF checkpoint(1)] by (auto simp: log_inv_def)
qed

lemma log_steps_inv: "log_steps e sc k (empty_store, [], []) p \<Longrightarrow> log_inv e sc k p"
  unfolding log_steps_def
proof (induction rule: rtranclp_induct)
  case base
  then show ?case by (simp add: log_inv_def empty_chain_ok)
qed (rule log_step_inv)

section \<open>Links commit\<close>

lemma event_link_commits:
  assumes "decimal_rendering (lv_format e)" "\<not> collision (lv_sha e)" "event_link_hash e x = Inr h" "event_link_hash e y = Inr h"
  shows "jnorm (event_document e x) = jnorm (event_document e y)"
proof -
  obtain s where s: "canonicalize (lv_format e) (event_document e x) = Inr s" "h = hash_display (hash_bytes (lv_sha e) (EVENT_CHAIN_DOMAIN @ utf8 s))"
    using assms(3) by (auto simp: event_link_hash_def canonical_bytes_def result_simps split: sum.splits)
  obtain s' where s': "canonicalize (lv_format e) (event_document e y) = Inr s'" "h = hash_display (hash_bytes (lv_sha e) (EVENT_CHAIN_DOMAIN @ utf8 s'))"
    using assms(4) by (auto simp: event_link_hash_def canonical_bytes_def result_simps split: sum.splits)
  have "lv_sha e (EVENT_CHAIN_DOMAIN @ utf8 s) = lv_sha e (EVENT_CHAIN_DOMAIN @ utf8 s')"
    using hash_display_inj [of "hash_bytes (lv_sha e) (EVENT_CHAIN_DOMAIN @ utf8 s)" "hash_bytes (lv_sha e) (EVENT_CHAIN_DOMAIN @ utf8 s')"]
      s(2) s'(2) by (simp add: hash_bytes_def)
  then have "utf8 s = utf8 s'" using assms(2) unfolding collision_def by (metis same_append_eq)
  then show ?thesis using canonicalize_unique [OF assms(1) s(1)] s'(1) utf8_inj by blast
qed

lemma document_previous:
  assumes "jnorm (event_document e x) = jnorm (event_document e y)"
  shows "lx_previous_hash x = lx_previous_hash y" "lx_sequence x = lx_sequence y"
proof -
  let ?ms = "\<lambda>x. case event_document e x of JObj ms \<Rightarrow> ms | _ \<Rightarrow> []"
  have eq: "map_option jnorm (map_of (?ms x) name) = map_option jnorm (map_of (?ms y) name)" for name
    using arg_cong [OF assms, of "\<lambda>v. obj_get v name"] by (simp add: event_document_def obj_get_jnorm del: jnorm.simps)
  show "lx_sequence x = lx_sequence y" using eq [of "''sequence''"] by (simp add: event_document_def)
  show "lx_previous_hash x = lx_previous_hash y" using eq [of "''previous_hash''"]
    by (cases "lx_previous_hash x"; cases "lx_previous_hash y") (auto simp: event_document_def optional_text_def)
qed


text \<open>Two linked logs that agree on one link agree on everything up to it.\<close>

lemma logs_agree:
  assumes "decimal_rendering (lv_format e)" "\<not> collision (lv_sha e)" "events_linked e None n es" "events_linked e None n' fs"
  shows "\<lbrakk>i < length es; j < length fs; lx_chain_hash (es ! i) = lx_chain_hash (fs ! j)\<rbrakk> \<Longrightarrow>
    i = j \<and> (\<forall>m\<le>i. jnorm (event_document e (es ! m)) = jnorm (event_document e (fs ! m)))"
proof (induction i arbitrary: j)
  case (0 j)
  note l = linked_nth [OF assms(3) 0(1)] linked_nth [OF assms(4) 0(2)]
  have doc: "jnorm (event_document e (es ! 0)) = jnorm (event_document e (fs ! j))"
    using event_link_commits [OF assms(1,2)] l 0(3) by metis
  have "j = 0"
  proof (rule ccontr)
    assume "j \<noteq> 0"
    then have "lx_chain_hash (fs ! (j - 1)) = None" using document_previous(1) [OF doc] l by simp
    then show False using linked_nth [OF assms(4), of "j - 1"] 0(2) by (simp add: less_imp_diff_less)
  qed
  then show ?case using doc by simp
next
  case (Suc i j)
  note l = linked_nth [OF assms(3) Suc.prems(1)] linked_nth [OF assms(4) Suc.prems(2)]
  have doc: "jnorm (event_document e (es ! Suc i)) = jnorm (event_document e (fs ! j))"
    using event_link_commits [OF assms(1,2)] l Suc.prems(3) by metis
  have previous: "lx_chain_hash (es ! i) = lx_previous_hash (fs ! j)" using document_previous(1) [OF doc] l(1) by simp
  have "lx_chain_hash (es ! i) \<noteq> None" using linked_nth [OF assms(3), of i] Suc.prems(1) by simp
  then obtain j' where j: "j = Suc j'" using previous l(2) by (cases j) auto
  then have "lx_chain_hash (es ! i) = lx_chain_hash (fs ! j')" using previous l(2) by simp
  then have "i = j' \<and> (\<forall>m\<le>i. jnorm (event_document e (es ! m)) = jnorm (event_document e (fs ! m)))"
    using Suc.IH [of j'] Suc.prems(1,2) j by simp
  then show ?case using doc j by (auto simp: le_Suc_eq)
qed

lemma message_commits:
  assumes "decimal_rendering (lv_format e)" "checkpoint_message e c = Inr m" "checkpoint_message e d = Inr m"
  shows "lk_sequence c = lk_sequence d" "lk_head_hash c = lk_head_hash d"
proof -
  let ?J = "\<lambda>c. [(''sequence'', JInt (lk_sequence c)), (''head_hash'', JStr (lk_head_hash c)),
      (''signed_at'', JStr (lv_rfc3339 e (lk_signed_at c))), (''key_id'', JStr (lk_key_id c))]"
  obtain s where s: "canonicalize (lv_format e) (JObj (?J c)) = Inr s" "m = LOCAL_CHECKPOINT_DOMAIN @ utf8 s"
    using assms(2) by (auto simp: checkpoint_message_def local_signing_payload_def canonical_bytes_def result_simps rbind_eq_Inr)
  obtain s' where s': "canonicalize (lv_format e) (JObj (?J d)) = Inr s'" "m = LOCAL_CHECKPOINT_DOMAIN @ utf8 s'"
    using assms(3) by (auto simp: checkpoint_message_def local_signing_payload_def canonical_bytes_def result_simps rbind_eq_Inr)
  have "s = s'" using s(2) s'(2) utf8_inj by simp
  then have j: "jnorm (JObj (?J c)) = jnorm (JObj (?J d))" using canonicalize_unique [OF assms(1) s(1)] s'(1) by simp
  have eq: "map_option jnorm (map_of (?J c) name) = map_option jnorm (map_of (?J d) name)" for name
    using arg_cong [OF j, of "\<lambda>v. obj_get v name"] by (simp add: obj_get_jnorm del: jnorm.simps)
  show "lk_sequence c = lk_sequence d" using eq [of "''sequence''"] by simp
  show "lk_head_hash c = lk_head_hash d" using eq [of "''head_hash''"] by simp
qed

section \<open>Checkpoints that hold\<close>

lemma checked_message:
  assumes "check_checkpoint e sc v c = None"
  obtains key m raw where "hm_get v (lk_key_id c) = Some key" "checkpoint_message e c = Inr m" "sc_b64_decode sc (lk_signature c) = Some raw"
    "length raw = 64" "sc_verify sc key m raw"
  using assms by (auto simp: check_checkpoint_def checkpoint_message_def split: option.splits if_splits sum.splits)

lemma verified_with:
  assumes "verify_event_chain_with_checkpoints e sc v (st, cps) = Inr r" "chv_verified r"
  shows "\<exists>n. events_linked e None n (sort_key lx_sequence (lt_events st))"
    and "c \<in> set cps \<Longrightarrow> check_checkpoint e sc v c = None \<and> head_in st c"
proof -
  obtain u hs where w: "walk_event_chain e (lk_sequence ` set cps) st = Inr (u, hs)"
    using assms(1) by (auto simp: verify_event_chain_with_checkpoints_def rbind_eq_Inr)
  let ?f = "\<lambda>c. map_option (Pair (lk_sequence c)) (checkpoint_failure e sc v hs (last_event_sequence st) c)"
  have none: "List.map_filter ?f (sort_key lk_sequence cps) = []" and u: "chv_verified u"
    using assms w by (auto simp: verify_event_chain_with_checkpoints_def Let_def split: if_splits)
  from verified_walk(1) [OF w u] show "\<exists>n. events_linked e None n (sort_key lx_sequence (lt_events st))" .
  assume "c \<in> set cps"
  then have "checkpoint_failure e sc v hs (last_event_sequence st) c = None"
    using none by (auto simp: List.map_filter_def filter_empty_conv)
  then have ok: "check_checkpoint e sc v c = None" "hm_get hs (lk_sequence c) = Some (lk_head_hash c)"
    by (auto simp: checkpoint_failure_def split: option.splits if_splits)
  show "check_checkpoint e sc v c = None \<and> head_in st c"
    using ok(1) verified_walk(2) [OF w u ok(2)] by (auto simp: head_in_def)
qed

lemma walk_heads:
  "\<lbrakk>events_linked e p n xs; case s of None \<Rightarrow> True | Some k \<Rightarrow> n = k + 1; walk_events e wanted xs p s checked hs = Inr (w, hs')\<rbrakk> \<Longrightarrow>
     (\<forall>m<n. hm_get hs' m = hm_get hs m) \<and> (\<forall>x\<in>set xs. lx_sequence x \<in> wanted \<longrightarrow> hm_get hs' (lx_sequence x) = lx_chain_hash x)"
proof (induction xs arbitrary: p n s checked hs)
  case (Cons x xs)
  obtain h where x: "lx_chain_hash x = Some h" "event_link_hash e x = Inr h" "lx_previous_hash x = p" "lx_sequence x = n"
    "events_linked e (Some h) (n + 1) xs"
    using Cons.prems(1) by auto
  let ?hs = "if n \<in> wanted then hm_insert n h hs else hs"
  have "walk_events e wanted xs (Some h) (Some n) (Suc checked) ?hs = Inr (w, hs')"
    using Cons.prems(2,3) x by (auto simp: Let_def split: option.splits)
  from Cons.IH [OF x(5) _ this] have ih: "\<forall>m<n + 1. hm_get hs' m = hm_get ?hs m"
    "\<forall>x\<in>set xs. lx_sequence x \<in> wanted \<longrightarrow> hm_get hs' (lx_sequence x) = lx_chain_hash x"
    by auto
  then show ?case using x(1,4) by (auto split: if_splits)
qed simp

definition scheme_laws :: "('sk, 'vk) signature_scheme \<Rightarrow> bool" where
  "scheme_laws sc \<longleftrightarrow> (\<forall>b. sc_b64_decode sc (sc_b64_encode sc b) = Some b) \<and>
     (\<forall>key m. length (sc_sign sc key m) = 64 \<and> sc_verify sc (sc_public sc key) m (sc_sign sc key m))"

lemma honest_checkpoint_holds:
  assumes "scheme_laws sc" "hm_get v (kg_key_id k) = Some (sc_public sc (kg_key k))" "signed_with e sc k c" "head_in st c"
    and "chain_ok e st" "walk_event_chain e (lk_sequence ` set cps) st = Inr (u, hs)" "c \<in> set cps"
  shows "checkpoint_failure e sc v hs ls c = None"
proof -
  have "check_checkpoint e sc v c = None"
    using assms(1-3) by (auto simp: check_checkpoint_def signed_with_def checkpoint_message_def scheme_laws_def)
  moreover obtain w where w: "walk_events e (lk_sequence ` set cps) (lt_events st) None None 0 [] = Inr (w, hs)"
    using assms(5,6) linked_sorted [of e None 1 "lt_events st"] by (auto simp: walk_event_chain_def chain_ok_def rbind_eq_Inr)
  have "hm_get hs (lk_sequence c) = Some (lk_head_hash c)"
    using walk_heads [OF _ _ w, of 1] assms(4,5,7) by (force simp: chain_ok_def head_in_def)
  ultimately show ?thesis by (simp add: checkpoint_failure_def)
qed

section \<open>A sample log\<close>

definition chain_env :: local_env where
  "chain_env = demo_local_env\<lparr>lv_sha := ak_sha sample_audit_env\<rparr>"

definition chain_scheme :: "(unit, unit) signature_scheme" where
  "chain_scheme = \<lparr>sc_from_seed = (\<lambda>_. ()), sc_public = (\<lambda>_. ()), sc_sign = ak_sign sample_audit_env, sc_verify = ak_verify sample_audit_env,
     sc_b64_encode = ak_b64_encode sample_audit_env, sc_b64_decode = ak_b64_decode sample_audit_env\<rparr>"

definition chain_signer :: "unit LocalCheckpointSigner" where
  "chain_signer = \<lparr>kg_key_id = ''k1'', kg_key = ()\<rparr>"

lemma chain_scheme_laws: "scheme_laws chain_scheme"
  using sample_audit_laws by (simp add: scheme_laws_def chain_scheme_def audit_laws_def sample_audit_env_def)

lemma event_link_total: "no_floats (lx_payload x) \<Longrightarrow> \<exists>h. event_link_hash e x = Inr h"
proof -
  assume "no_floats (lx_payload x)"
  then have "no_floats (event_document e x)" by (simp add: event_document_def optional_text_def split: option.splits)
  from write_value_total [OF this, of "lv_format e"] show ?thesis
    by (auto simp: event_link_hash_def canonical_bytes_def canonicalize_def is_ok_iff result_simps)
qed

lemma event_appended:
  assumes "session_of st i \<noteq> None" "no_floats payload"
  shows "lt_events (snd (append_event e wall i category act decision correlation payload st)) \<noteq> []"
proof -
  let ?x = "\<lparr>lx_sequence = lt_issued_events st + 1, lx_event_id = fresh_id e ''evt_'' st, lx_timestamp = wall,
      lx_session_id = i, lx_category = category, lx_action = act, lx_decision = decision, lx_correlation_id = correlation,
      lx_payload = payload, lx_previous_hash = (if lt_events st = [] then None else lx_chain_hash (List.last (lt_events st))),
      lx_chain_hash = None\<rparr>"
  obtain h where h: "event_link_hash e ?x = Inr h" using event_link_total [of ?x e] assms(2) by auto
  show ?thesis unfolding append_event_def Let_def if_not_P [OF assms(1)] h sum.case snd_conv by simp
qed

lemma write_checkpoint_total:
  assumes "chain_ok e st" "lt_events st \<noteq> []"
  shows "\<exists>c. write_checkpoint e sc k t (st, cps) = (Inr c, (st, filter (\<lambda>d. lk_sequence d \<noteq> lk_sequence c) cps @ [c]))"
proof -
  let ?n = "lx_sequence (List.last (lt_events st))"
  have "lx_chain_hash (List.last (lt_events st)) \<noteq> None"
    using linked_nth [of e None 1 "lt_events st" "length (lt_events st) - 1"] assms by (simp add: chain_ok_def last_conv_nth)
  then obtain h where h: "lx_chain_hash (List.last (lt_events st)) = Some h" by blast
  have "no_floats (JObj [(''sequence'', JInt ?n), (''head_hash'', JStr h), (''signed_at'', JStr (lv_rfc3339 e t)), (''key_id'', JStr (kg_key_id k))])"
    by simp
  from write_value_total [OF this, of "lv_format e"] obtain c where c: "sign_checkpoint e sc k ?n h t = Inr c"
    by (auto simp: sign_checkpoint_def local_signing_payload_def canonical_bytes_def canonicalize_def is_ok_iff result_simps)
  then have n: "lk_sequence c = ?n" by (auto simp: sign_checkpoint_def split: sum.splits)
  obtain hs where "walk_event_chain e {} st = Inr (\<lparr>chv_verified = True, chv_events_checked = length (lt_events st),
      chv_head = last_link None (lt_events st), chv_failure = None, chv_checkpoints_checked = 0, chv_checkpoint_failures = []\<rparr>, hs)"
    using verify_honest [OF assms(1)] by blast
  then show ?thesis
    using c n h assms(2) last_sequence_honest [OF assms]
    by (intro exI [of _ c]) (simp add: write_checkpoint_def verify_event_chain_def last_link_def)
qed

lemma chain_sample:
  obtains st c where "log_steps chain_env chain_scheme chain_signer (empty_store, [], []) (st, [c], [c])" "lt_events st \<noteq> []"
proof -
  let ?st = "snd (append_event chain_env 0 ''s'' ''mcp'' ''call'' None ''x'' JNull demo_started)"
  have 1: "local_step chain_env empty_store demo_started"
    using local_step.session [of demo_session empty_store chain_env] by (simp add: demo_started_def empty_store_def)
  have 2: "local_step chain_env demo_started ?st" by (rule local_step.event)
  have "session_of demo_started ''s'' \<noteq> None" by (simp add: session_of_def demo_started_def demo_session_def)
  then have some: "lt_events ?st \<noteq> []"
    by (rule event_appended) simp
  have "local_steps chain_env empty_store ?st" using 1 2 unfolding local_steps_def by (meson rtranclp.rtrancl_into_rtrancl rtranclp.rtrancl_refl)
  then have "chain_ok chain_env ?st" using log_steps_kept empty_chain_ok by (auto simp: log_kept_def)
  then obtain c where "write_checkpoint chain_env chain_scheme chain_signer 5 (?st, []) = (Inr c, (?st, [c]))"
    using write_checkpoint_total [OF _ some, of chain_env chain_scheme chain_signer 5 "[]"] by auto
  then have "log_step chain_env chain_scheme chain_signer (?st, [], []) (?st, [c], [c])" by (rule log_step.checkpoint)
  then have "log_steps chain_env chain_scheme chain_signer (empty_store, [], []) (?st, [c], [c])"
    using log_step.operation [OF interleaved_step.operation [OF 1]] log_step.operation [OF interleaved_step.operation [OF 2]] unfolding log_steps_def
    by (meson rtranclp.rtrancl_into_rtrancl rtranclp.rtrancl_refl)
  then show ?thesis using that some by blast
qed

section \<open>Properties\<close>

text \<open>
  C28: after any sequence of operations of the control plane and of checkpoints, the event log verifies against all its
  checkpoints under the key that signed them, and verification looks at every event and every checkpoint.
\<close>

theorem local_log_verifies:
  assumes "scheme_laws sc" "hm_get v (kg_key_id k) = Some (sc_public sc (kg_key k))"
    and "log_steps e sc k (empty_store, [], []) (st, cps, made)"
  shows "\<exists>r. verify_event_chain_with_checkpoints e sc v (st, cps) = Inr r \<and> chv_verified r \<and>
    chv_events_checked r = length (lt_events st) \<and> chv_checkpoints_checked r = length cps"
proof -
  have inv: "chain_ok e st" "\<forall>c\<in>set cps. head_in st c \<and> signed_with e sc k c"
    using log_steps_inv [OF assms(3)] by (auto simp: log_inv_def)
  obtain hs where w: "walk_event_chain e (lk_sequence ` set cps) st = Inr (\<lparr>chv_verified = True, chv_events_checked = length (lt_events st),
      chv_head = last_link None (lt_events st), chv_failure = None, chv_checkpoints_checked = 0, chv_checkpoint_failures = []\<rparr>, hs)"
    using verify_honest [OF inv(1)] by blast
  have "checkpoint_failure e sc v hs (last_event_sequence st) c = None" if "c \<in> set cps" for c
    using honest_checkpoint_holds [OF assms(1,2) _ _ inv(1) w that] inv(2) that by blast
  then have "List.map_filter (\<lambda>c. map_option (Pair (lk_sequence c)) (checkpoint_failure e sc v hs (last_event_sequence st) c))
      (sort_key lk_sequence cps) = []"
    by (simp add: List.map_filter_def filter_empty_conv)
  then show ?thesis using w by (simp add: verify_event_chain_with_checkpoints_def Let_def)
qed

theorem local_log_verifies_witness:
  "\<exists>st c r. lt_events st \<noteq> [] \<and> verify_event_chain_with_checkpoints chain_env chain_scheme [(''k1'', ())] (st, [c]) = Inr r \<and> chv_verified r"
proof -
  obtain st c where s: "log_steps chain_env chain_scheme chain_signer (empty_store, [], []) (st, [c], [c])" "lt_events st \<noteq> []"
    by (rule chain_sample)
  have "hm_get [(''k1'', ())] (kg_key_id chain_signer) = Some (sc_public chain_scheme (kg_key chain_signer))"
    by (simp add: hm_get_def chain_signer_def)
  from local_log_verifies [OF chain_scheme_laws this s(1)] show ?thesis using s(2) by blast
qed

text \<open>
  C29: a checkpoint pins the log. Whatever is done to the tables, if the log they hold then verifies with its checkpoints
  under the key of the signer alone, every event up to each of these checkpoints has the content the honest log recorded,
  unless the digest collides or a signature was forged.
\<close>

theorem checkpoint_pins_log:
  assumes "decimal_rendering (lv_format e)" "\<not> collision (lv_sha e)"
    and "log_steps e sc k (empty_store, [], []) (st, cps, made)"
    and "\<forall>c\<in>set cps'. \<forall>m raw. checkpoint_message e c = Inr m \<and> sc_b64_decode sc (lk_signature c) = Some raw \<and>
           sc_verify sc (sc_public sc (kg_key k)) m raw \<longrightarrow> (\<exists>d\<in>set made. checkpoint_message e d = Inr m)"
    and "verify_event_chain_with_checkpoints e sc [(kg_key_id k, sc_public sc (kg_key k))] (st', cps') = Inr r" "chv_verified r"
    and "c \<in> set cps'"
  shows "\<exists>n. lk_sequence c = int n \<and> n \<le> length (lt_events st) \<and> n \<le> length (lt_events st') \<and>
    (\<forall>i<n. jnorm (event_document e (sort_key lx_sequence (lt_events st') ! i)) = jnorm (event_document e (lt_events st ! i)))"
proof -
  let ?es = "lt_events st" and ?fs = "sort_key lx_sequence (lt_events st')"
  have inv: "events_linked e None 1 ?es" "\<forall>d\<in>set made. head_in st d"
    using log_steps_inv [OF assms(3)] by (auto simp: log_inv_def chain_ok_def)
  obtain n' where fs: "events_linked e None n' ?fs" using verified_with(1) [OF assms(5,6)] by blast
  have ok: "check_checkpoint e sc [(kg_key_id k, sc_public sc (kg_key k))] c = None" "head_in st' c"
    using verified_with(2) [OF assms(5-7)] by blast+
  obtain key m raw where m: "hm_get [(kg_key_id k, sc_public sc (kg_key k))] (lk_key_id c) = Some key" "checkpoint_message e c = Inr m"
    "sc_b64_decode sc (lk_signature c) = Some raw" "length raw = 64" "sc_verify sc key m raw"
    using ok(1) by (rule checked_message)
  have "key = sc_public sc (kg_key k)" using m(1) by (simp add: hm_get_def split: if_splits)
  then obtain d where d: "d \<in> set made" "checkpoint_message e d = Inr m" using assms(4,7) m(2,3,5) by blast
  have "head_in st c" using inv(2) d(1) message_commits [OF assms(1) m(2) d(2)] by (auto simp: head_in_def)
  then obtain i where i: "i < length ?es" "lx_sequence (?es ! i) = lk_sequence c" "lx_chain_hash (?es ! i) = Some (lk_head_hash c)"
    by (auto simp: head_in_def in_set_conv_nth)
  have "\<exists>y\<in>set ?fs. lx_sequence y = lk_sequence c \<and> lx_chain_hash y = Some (lk_head_hash c)"
    using ok(2) by (simp add: head_in_def)
  then obtain j where j: "j < length ?fs" "lx_chain_hash (?fs ! j) = Some (lk_head_hash c)" by (metis in_set_conv_nth)
  have "i = j \<and> (\<forall>m\<le>i. jnorm (event_document e (?es ! m)) = jnorm (event_document e (?fs ! m)))"
    using logs_agree [OF assms(1,2) inv(1) fs i(1) j(1)] i(3) j(2) by simp
  moreover have "lk_sequence c = int (Suc i)" using linked_nth [OF inv(1) i(1)] i(2) by simp
  ultimately show ?thesis using i(1) j(1) by (intro exI [of _ "Suc i"]) (auto simp: less_Suc_eq_le)
qed

theorem checkpoint_pins_log_witness:
  "\<exists>st c n. lt_events st \<noteq> [] \<and> lk_sequence c = int n \<and> n \<le> length (lt_events st) \<and>
     log_steps chain_env chain_scheme chain_signer (empty_store, [], []) (st, [c], [c])"
proof -
  obtain st c where s: "log_steps chain_env chain_scheme chain_signer (empty_store, [], []) (st, [c], [c])" "lt_events st \<noteq> []"
    by (rule chain_sample)
  have "chain_ok chain_env st" "head_in st c" "signed_with chain_env chain_scheme chain_signer c"
    using log_steps_inv [OF s(1)] by (auto simp: log_inv_def)
  then obtain u hs where w: "walk_event_chain chain_env (lk_sequence ` set [c]) st = Inr (u, hs)" "chv_verified u"
    using verify_honest [of chain_env st "lk_sequence ` set [c]"] by auto
  have trusted: "hm_get [(kg_key_id chain_signer, sc_public chain_scheme (kg_key chain_signer))] (kg_key_id chain_signer) =
      Some (sc_public chain_scheme (kg_key chain_signer))"
    by (simp add: hm_get_def)
  have none: "checkpoint_failure chain_env chain_scheme [(kg_key_id chain_signer, sc_public chain_scheme (kg_key chain_signer))] hs ls c = None" for ls
    by (rule honest_checkpoint_holds [OF chain_scheme_laws trusted _ _ _ w(1)]) (use \<open>chain_ok chain_env st\<close> \<open>head_in st c\<close> \<open>signed_with _ _ _ c\<close> in simp_all)
  have "verify_event_chain_with_checkpoints chain_env chain_scheme [(kg_key_id chain_signer, sc_public chain_scheme (kg_key chain_signer))] (st, [c]) =
      Inr (u\<lparr>chv_checkpoints_checked := 1\<rparr>)"
    using w(1) none by (simp add: verify_event_chain_with_checkpoints_def List.map_filter_simps)
  moreover have "decimal_rendering (lv_format chain_env)" using sample_format_decimal by (simp add: chain_env_def demo_local_env_def)
  moreover have "\<not> collision (lv_sha chain_env)" using sample_no_collision by (simp add: chain_env_def)
  ultimately have "\<exists>n. lk_sequence c = int n \<and> n \<le> length (lt_events st) \<and> n \<le> length (lt_events st) \<and>
     (\<forall>i<n. jnorm (event_document chain_env (sort_key lx_sequence (lt_events st) ! i)) = jnorm (event_document chain_env (lt_events st ! i)))"
    using checkpoint_pins_log [OF _ _ s(1), of "[c]" st _ c] w(2) by force
  then show ?thesis using s by blast
qed

text \<open>
  C32: nothing pins the checkpoints. Any history at all, renumbered and linked anew, verifies under any key once the
  checkpoints, which are rows of the same database, are deleted with it.
\<close>

theorem deleted_checkpoints_hide_rewrite:
  assumes "relink e None xs = Inr ys" "map lx_sequence xs = map (\<lambda>i. 1 + int i) [0..<length xs]"
  shows "\<exists>r. verify_event_chain_with_checkpoints e sc v (st\<lparr>lt_events := ys, lt_issued_events := int (length xs)\<rparr>, []) = Inr r \<and>
    chv_verified r \<and> map lx_payload ys = map lx_payload xs"
proof -
  have linked: "events_linked e p n ys \<and> length ys = length xs \<and> map lx_payload ys = map lx_payload xs"
    if "relink e p xs = Inr ys" "map lx_sequence xs = map (\<lambda>i. n + int i) [0..<length xs]" for p n xs ys
    using that
  proof (induction xs arbitrary: p n ys)
    case (Cons x xs)
    obtain link rest where r: "event_link_hash e (x\<lparr>lx_previous_hash := p\<rparr>) = Inr link" "relink e (Some link) xs = Inr rest"
      "ys = x\<lparr>lx_previous_hash := p, lx_chain_hash := Some link\<rparr> # rest"
      using Cons.prems(1) by (auto simp: Let_def rbind_eq_Inr)
    have "map lx_sequence xs = map (\<lambda>i. n + 1 + int i) [0..<length xs]" "lx_sequence x = n"
      using Cons.prems(2) by (simp_all add: upt_conv_Cons map_Suc_upt [symmetric] comp_def algebra_simps del: upt_Suc)
    then show ?case using Cons.IH [OF r(2)] r by auto
  qed simp
  let ?st = "st\<lparr>lt_events := ys, lt_issued_events := int (length xs)\<rparr>"
  have "chain_ok e ?st" using linked [OF assms] by (simp add: chain_ok_def)
  then show ?thesis
    using verify_honest [of e ?st "{}"] linked [OF assms] by (auto simp: verify_event_chain_with_checkpoints_def Let_def List.map_filter_simps)
qed


theorem deleted_checkpoints_hide_rewrite_witness:
  "\<exists>x r. verify_event_chain_with_checkpoints chain_env chain_scheme [(''k1'', ())] (empty_store\<lparr>lt_events := [x], lt_issued_events := 1\<rparr>, []) = Inr r \<and>
     chv_verified r \<and> lx_payload x = JNull"
proof -
  let ?x = "\<lparr>lx_sequence = 1, lx_event_id = ''e'', lx_timestamp = 0, lx_session_id = ''s'', lx_category = ''c'', lx_action = ''a'', lx_decision = None,
      lx_correlation_id = ''x'', lx_payload = JNull, lx_previous_hash = None, lx_chain_hash = None\<rparr>"
  obtain h where "event_link_hash chain_env ?x = Inr h" using event_link_total [of ?x chain_env] by auto
  then have relinked: "relink chain_env None [?x] = Inr [?x\<lparr>lx_chain_hash := Some h\<rparr>]" by simp
  have "map lx_sequence [?x] = map (\<lambda>i. 1 + int i) [0..<length [?x]]" by simp
  from deleted_checkpoints_hide_rewrite [OF relinked this, of chain_scheme "[(''k1'', ())]" empty_store] show ?thesis
    by (intro exI [of _ "?x\<lparr>lx_chain_hash := Some h\<rparr>"]) auto
qed

end
