(* ===== verification/LocalReconcile.thy ===== *)
theory LocalReconcile
  imports LocalChain "HOL-Library.Product_Lexorder"
begin

text \<open>
  Reconciling what a session declared with what an operating-system observer saw
  (\<^verbatim>\<open>vigil-local/src/reconcile.rs\<close>): the declarations read back from the event log, the comparison, and the
  detections and incidents it leads to.
\<close>

section \<open>Vocabulary\<close>

definition MAX_OBSERVATIONS :: nat where "MAX_OBSERVATIONS = 100000"

datatype ObservedKind = ObservedExec | ObservedRead | ObservedWrite | ObservedCreate | ObservedDelete | ObservedRename

fun observed_as_str :: "ObservedKind \<Rightarrow> string" where
  "observed_as_str ObservedExec = ''exec''"
| "observed_as_str ObservedRead = ''read''"
| "observed_as_str ObservedWrite = ''write''"
| "observed_as_str ObservedCreate = ''create''"
| "observed_as_str ObservedDelete = ''delete''"
| "observed_as_str ObservedRename = ''rename''"

definition observed_mutates :: "ObservedKind \<Rightarrow> bool" where
  "observed_mutates k = (k \<in> {ObservedWrite, ObservedCreate, ObservedDelete, ObservedRename})"

record ObservedOperation =
  ob_process :: string
  ob_kind :: ObservedKind
  ob_path :: string
  ob_allowed :: bool

record DeclaredIntent =
  di_action :: string
  di_resource :: string
  di_permitted :: bool

datatype MismatchClass =
  DeniedOperationObserved | ResourceMismatch | UndeclaredSideEffect | ChildProcessMismatch | ScopeExpansion

definition mismatch_all :: "MismatchClass list" where
  "mismatch_all = [DeniedOperationObserved, ResourceMismatch, UndeclaredSideEffect, ChildProcessMismatch, ScopeExpansion]"

fun mismatch_as_str :: "MismatchClass \<Rightarrow> string" where
  "mismatch_as_str DeniedOperationObserved = ''DENIED_OPERATION_OBSERVED''"
| "mismatch_as_str ResourceMismatch = ''RESOURCE_MISMATCH''"
| "mismatch_as_str UndeclaredSideEffect = ''UNDECLARED_SIDE_EFFECT''"
| "mismatch_as_str ChildProcessMismatch = ''CHILD_PROCESS_MISMATCH''"
| "mismatch_as_str ScopeExpansion = ''SCOPE_EXPANSION''"

fun mismatch_label :: "MismatchClass \<Rightarrow> string" where
  "mismatch_label DeniedOperationObserved = ''denied_operation_observed''"
| "mismatch_label ResourceMismatch = ''intent_resource_mismatch''"
| "mismatch_label UndeclaredSideEffect = ''undeclared_side_effect''"
| "mismatch_label ChildProcessMismatch = ''undeclared_child_process''"
| "mismatch_label ScopeExpansion = ''scope_expansion''"

record Mismatch =
  mm_class :: MismatchClass
  mm_observed :: ObservedOperation
  mm_declared :: "DeclaredIntent option"
  mm_explanation :: string

datatype Coverage = CoverageObserved | NoObserver

record Reconciliation =
  rn_session_id :: string
  rn_coverage :: Coverage
  rn_declared :: "DeclaredIntent list"
  rn_observations_considered :: nat
  rn_matched :: nat
  rn_mismatches :: "Mismatch list"

definition consistent :: "Reconciliation \<Rightarrow> bool" where
  "consistent r = (rn_coverage r = CoverageObserved \<and> rn_mismatches r = [])"

section \<open>The comparison\<close>

definition declares_mutation :: "string \<Rightarrow> bool" where
  "declares_mutation a = (a \<in> {''fs.write'', ''fs.create'', ''fs.delete'', ''fs.rename'', ''process.exec''})"

definition inside_workspace :: "string \<Rightarrow> string \<Rightarrow> bool" where
  "inside_workspace path workspace =
     (if workspace = [] then False
      else let w = trim_end_matches (\<lambda>c. c = CHR ''/'') workspace
           in path = w \<or> (case strip_prefix path w of None \<Rightarrow> False | Some rest \<Rightarrow> starts_with rest ''/''))"

text \<open>One turn of the loop: the operation is left out, matched, or a mismatch.\<close>

datatype op_verdict = OpSkipped | OpMatched | OpMismatch Mismatch

definition judge_operation :: "string \<Rightarrow> DeclaredIntent list \<Rightarrow> ObservedOperation \<Rightarrow> op_verdict" where
  "judge_operation workspace declared p =
     (if \<not> ob_allowed p then OpSkipped
      else let found = filter (\<lambda>d. di_resource d = ob_path p) declared
           in case find (\<lambda>d. \<not> di_permitted d) found of
                Some denied \<Rightarrow>
                  OpMismatch \<lparr>mm_class = DeniedOperationObserved, mm_observed = p, mm_declared = Some denied,
                    mm_explanation = ''VIGIL refused `'' @ di_action denied @ ''` on this resource and the operating system observed a '' @
                      observed_as_str (ob_kind p) @ '' of it; the broker was bypassed''\<rparr>
              | None \<Rightarrow>
                  (let granted = filter di_permitted found
                   in if ob_kind p = ObservedExec then
                        (if granted = [] then
                           OpMismatch \<lparr>mm_class = ChildProcessMismatch, mm_observed = p, mm_declared = None,
                             mm_explanation = ''a process execution was observed that no brokered request declared''\<rparr>
                         else OpMatched)
                      else if granted = [] then
                        OpMismatch \<lparr>mm_class = (if inside_workspace (ob_path p) workspace then ScopeExpansion else ResourceMismatch),
                          mm_observed = p, mm_declared = None,
                          mm_explanation = ''a '' @ observed_as_str (ob_kind p) @
                            '' of this resource was observed but the session never declared it''\<rparr>
                      else if observed_mutates (ob_kind p) \<and> \<not> list_ex (\<lambda>d. declares_mutation (di_action d)) granted then
                        OpMismatch \<lparr>mm_class = UndeclaredSideEffect, mm_observed = p, mm_declared = Some (hd granted),
                          mm_explanation = ''the session declared `'' @ di_action (hd granted) @ ''` on this resource but a '' @
                            observed_as_str (ob_kind p) @ '' of it was observed''\<rparr>
                      else OpMatched))"

definition mismatch_of :: "op_verdict \<Rightarrow> Mismatch option" where
  "mismatch_of v = (case v of OpMismatch m \<Rightarrow> Some m | _ \<Rightarrow> None)"

definition reconcile :: "string \<Rightarrow> string \<Rightarrow> DeclaredIntent list \<Rightarrow> ObservedOperation list \<Rightarrow> Reconciliation" where
  "reconcile i workspace declared observed =
     (let verdicts = map (judge_operation workspace declared) (take MAX_OBSERVATIONS observed)
      in \<lparr>rn_session_id = i, rn_coverage = (if observed = [] then NoObserver else CoverageObserved), rn_declared = declared,
          rn_observations_considered = min (length observed) MAX_OBSERVATIONS,
          rn_matched = length (filter (\<lambda>v. v = OpMatched) verdicts), rn_mismatches = List.map_filter mismatch_of verdicts\<rparr>)"

section \<open>What a session declared\<close>

definition json_text :: "json option \<Rightarrow> string option" where
  "json_text v = (case v of Some (JStr s) \<Rightarrow> Some s | _ \<Rightarrow> None)"

definition decision_permitted :: "string option \<Rightarrow> bool option" where
  "decision_permitted d =
     (if d \<in> {Some ''EXECUTED'', Some ''ALLOW'', Some ''OBSERVED''} then Some True
      else if d \<in> {Some ''DENY'', Some ''REQUIRE_APPROVAL''} then Some False else None)"

definition intent_of :: "LocalEvent \<Rightarrow> DeclaredIntent option" where
  "intent_of x =
     (case decision_permitted (lx_decision x) of
        None \<Rightarrow> None
      | Some granted \<Rightarrow>
          (case json_text (case obj_get (lx_payload x) ''resolved_resource'' of
                             None \<Rightarrow> obj_get (lx_payload x) ''executable'' | Some v \<Rightarrow> Some v) of
             None \<Rightarrow> None
           | Some resource \<Rightarrow>
               (let a = (case json_text (obj_get (lx_payload x) ''action'') of None \<Rightarrow> lx_action x | Some a \<Rightarrow> a)
                in Some \<lparr>di_action = (if a \<in> {''process.spawn'', ''process.exec''} then ''process.exec'' else a),
                         di_resource = resource, di_permitted = granted\<rparr>)))"

definition events_for_session :: "local_store \<Rightarrow> string \<Rightarrow> LocalEvent list" where
  "events_for_session st i = sort_key lx_sequence (filter (\<lambda>x. lx_session_id x = i) (lt_events st))"

definition intent_key :: "DeclaredIntent \<Rightarrow> string \<times> string \<times> bool" where
  "intent_key d = (di_action d, di_resource d, di_permitted d)"

definition declared_intents :: "local_store \<Rightarrow> string \<Rightarrow> DeclaredIntent list" where
  "declared_intents st i = remdups_adj (sort_key intent_key (List.map_filter intent_of (events_for_session st i)))"

section \<open>Recording the findings\<close>

definition intent_json :: "DeclaredIntent option \<Rightarrow> json" where
  "intent_json d =
     (case d of
        None \<Rightarrow> JNull
      | Some d \<Rightarrow> JObj [(''action'', JStr (di_action d)), (''resource'', JStr (di_resource d)), (''permitted'', JBool (di_permitted d))])"

definition example_json :: "Mismatch \<Rightarrow> json" where
  "example_json m =
     JObj [(''path'', JStr (ob_path (mm_observed m))), (''kind'', JStr (observed_as_str (ob_kind (mm_observed m)))),
           (''process'', JStr (ob_process (mm_observed m))), (''declared'', intent_json (mm_declared m)),
           (''explanation'', JStr (mm_explanation m))]"

fun record_classes ::
    "local_env \<Rightarrow> timestamp \<Rightarrow> string \<Rightarrow> Mismatch list \<Rightarrow> MismatchClass list \<Rightarrow> RiskState \<Rightarrow> local_store
      \<Rightarrow> (local_error + RiskState) \<times> local_store" where
  "record_classes e wall i ms [] risk st = (Inr risk, st)"
| "record_classes e wall i ms (c # cs) risk st =
     (let instances = filter (\<lambda>m. mm_class m = c) ms
      in case rule_for_label (mismatch_label c) of
           None \<Rightarrow> record_classes e wall i ms cs risk st
         | Some rule \<Rightarrow>
        (case record_detection e wall i rule
                (JObj [(''class'', JStr (mismatch_as_str c)), (''instances'', JInt (int (length instances))),
                       (''examples'', JArr (map example_json (take 32 instances)))]) None st of
           (Inl err, st1) \<Rightarrow> (Inl err, st1)
         | (Inr _, st1) \<Rightarrow>
        (case record_risk_signal e wall i (rl_dimension rule) (rl_weight rule) None (rl_description rule) st1 of
           (Inl err, st2) \<Rightarrow> (Inl err, st2)
         | (Inr risk', st2) \<Rightarrow>
        (case (if DetCritical \<le> rl_severity rule \<or> revokes_leases risk'
               then open_and_attach e wall i (rl_severity rule)
                      (rl_name rule @ '' ('' @ show_nat (length instances) @ '' instance(s))'') st2
               else (Inr (), st2)) of
           (Inl err, st3) \<Rightarrow> (Inl err, st3)
         | (Inr _, st3) \<Rightarrow> record_classes e wall i ms cs risk' st3))))"

definition mismatch_classes :: "Mismatch list \<Rightarrow> MismatchClass list" where
  "mismatch_classes ms = filter (\<lambda>c. c \<in> mm_class ` set ms) mismatch_all"

fun coverage_text :: "Coverage \<Rightarrow> string" where
  "coverage_text CoverageObserved = ''observed''"
| "coverage_text NoObserver = ''no_observer''"

definition reconcile_session ::
    "local_env \<Rightarrow> timestamp \<Rightarrow> string \<Rightarrow> ObservedOperation list \<Rightarrow> local_store
      \<Rightarrow> (local_error + (Reconciliation \<times> RiskState)) \<times> local_store" where
  "reconcile_session e wall i observed st =
     (if MAX_OBSERVATIONS < length observed then (Inl (LocalInvalidRequest ''a reconciliation accepts at most 100000 observations''), st)
      else case session_of st i of
             None \<Rightarrow> (Inl (LocalNotFound ''local session''), st)
           | Some s \<Rightarrow>
               (let report = reconcile i (sn_workspace s) (declared_intents st i) observed;
                    classes = mismatch_classes (rn_mismatches report)
                in case record_classes e wall i (rn_mismatches report) classes (sn_risk_state s) (id_drawn st) of
                     (Inl err, st1) \<Rightarrow> (Inl err, st1)
                   | (Inr risk, st1) \<Rightarrow>
                       (case append_event e wall i ''reconcile'' ''reconcile.report''
                               (Some (if consistent report then ''CONSISTENT''
                                      else if rn_coverage report = NoObserver then ''NO_OBSERVER'' else ''MISMATCH''))
                               (fresh_id e ''cor_'' st)
                               (JObj [(''coverage'', JStr (coverage_text (rn_coverage report))),
                                      (''declared'', JInt (int (length (rn_declared report)))),
                                      (''observations_considered'', JInt (int (rn_observations_considered report))),
                                      (''matched'', JInt (int (rn_matched report))),
                                      (''mismatches'', JInt (int (length (rn_mismatches report)))),
                                      (''classes'', JArr (map (\<lambda>c. JStr (mismatch_as_str c)) classes)),
                                      (''risk_state'', JStr (risk_as_str risk)), (''os_enforcement'', JBool False)]) st1 of
                          (Inl err, st2) \<Rightarrow> (Inl err, st2)
                        | (Inr _, st2) \<Rightarrow> (Inr (report, risk), st2))))"

section \<open>The comparison is exact\<close>

text \<open>What accounts for an operation: nothing about the resource was refused, and something permitted covers it.\<close>

definition accounted_for :: "DeclaredIntent list \<Rightarrow> ObservedOperation \<Rightarrow> bool" where
  "accounted_for declared p \<longleftrightarrow>
     (\<forall>d\<in>set declared. di_resource d = ob_path p \<longrightarrow> di_permitted d) \<and>
     (\<exists>d\<in>set declared. di_resource d = ob_path p \<and> (observed_mutates (ob_kind p) \<longrightarrow> declares_mutation (di_action d)))"

lemma judge_accounted:
  assumes "ob_allowed p"
  shows "judge_operation workspace declared p = OpMatched \<longleftrightarrow> accounted_for declared p"
proof -
  let ?found = "filter (\<lambda>d. di_resource d = ob_path p) declared"
  show ?thesis
  proof (cases "find (\<lambda>d. \<not> di_permitted d) ?found")
    case (Some d)
    then have "d \<in> set ?found" "\<not> di_permitted d" by (auto simp: find_Some_iff dest: nth_mem)
    then show ?thesis using assms Some by (auto simp: judge_operation_def accounted_for_def Let_def)
  next
    case None
    then have all: "\<forall>d\<in>set declared. di_resource d = ob_path p \<longrightarrow> di_permitted d" by (auto simp: find_None_iff)
    then have granted: "filter di_permitted ?found = ?found" by (intro filter_True) auto
    have exec: "ob_kind p = ObservedExec \<Longrightarrow> \<not> observed_mutates (ob_kind p)" by (simp add: observed_mutates_def)
    show ?thesis
      unfolding judge_operation_def Let_def None option.case granted
      using assms all exec by (auto simp: accounted_for_def filter_empty_conv list_ex_iff)
  qed
qed

lemma judge_total:
  "judge_operation workspace declared p = OpSkipped \<longleftrightarrow> \<not> ob_allowed p"
  by (auto simp: judge_operation_def Let_def split: option.splits if_splits)

lemma denied_judged:
  assumes "ob_allowed p" "d \<in> set declared" "di_resource d = ob_path p" "\<not> di_permitted d"
  shows "\<exists>m. judge_operation workspace declared p = OpMismatch m \<and> mm_class m = DeniedOperationObserved \<and> mm_observed m = p"
proof -
  have "find (\<lambda>d. \<not> di_permitted d) (filter (\<lambda>d. di_resource d = ob_path p) declared) \<noteq> None"
    using assms(2-4) by (auto simp: find_None_iff)
  then show ?thesis using assms(1) by (auto simp: judge_operation_def Let_def)
qed

lemma map_filter_empty: "List.map_filter f xs = [] \<longleftrightarrow> (\<forall>x\<in>set xs. f x = None)"
  by (auto simp: List.map_filter_def filter_empty_conv)

lemma declared_intents_set: "set (declared_intents st i) = {d. \<exists>x\<in>set (lt_events st). lx_session_id x = i \<and> intent_of x = Some d}"
  by (force simp: declared_intents_def events_for_session_def List.map_filter_def)


section \<open>Evidence stays\<close>

definition detected :: "local_store \<Rightarrow> string \<Rightarrow> string \<Rightarrow> bool" where
  "detected st i rule \<longleftrightarrow> (\<exists>d\<in>set (lt_detections st). dt_session_id d = i \<and> dt_rule_id d = rule)"

definition incident_open :: "local_store \<Rightarrow> string \<Rightarrow> bool" where
  "incident_open st i \<longleftrightarrow> (\<exists>c\<in>set (lt_incidents st). ic_session_id c = i \<and> ic_status c = IncidentOpen)"

definition evidence_kept :: "local_store \<Rightarrow> local_store \<Rightarrow> bool" where
  "evidence_kept st st' \<longleftrightarrow>
     (\<forall>i rule. detected st i rule \<longrightarrow> detected st' i rule) \<and> (\<forall>i. incident_open st i \<longrightarrow> incident_open st' i)"

interpretation evidence: step_order evidence_kept
  by unfold_locales (auto simp: evidence_kept_def)

lemma same_evidence: "\<lbrakk>lt_detections st' = lt_detections st; lt_incidents st' = lt_incidents st\<rbrakk> \<Longrightarrow> evidence_kept st st'"
  by (simp add: evidence_kept_def detected_def incident_open_def)

lemma evidence_append_event: "evidence_kept st (snd (append_event e wall i category act decision correlation payload st))"
  by (rule same_evidence; simp add: append_event_def id_drawn_def Let_def split: sum.splits)

lemma evidence_record_risk: "evidence_kept st (snd (record_risk_signal e wall i d weight source note st))"
  by (rule same_evidence; simp add: record_risk_signal_def raise_risk_def update_session_def revoke_session_leases_def id_drawn_def Let_def
      split: sum.splits)

lemma evidence_record_detection: "evidence_kept st (snd (record_detection e wall i rule evidence source st))"
  by (auto simp: evidence_kept_def detected_def incident_open_def record_detection_def Let_def id_drawn_def)

text \<open>Rows that are rewritten in place keep what they are evidence of.\<close>

lemma evidence_map:
  assumes "\<And>d. dt_session_id (f d) = dt_session_id d \<and> dt_rule_id (f d) = dt_rule_id d"
    and "\<And>c. ic_session_id (g c) = ic_session_id c \<and> ic_status (g c) = ic_status c"
  shows "evidence_kept st (st\<lparr>lt_detections := map f (lt_detections st), lt_incidents := map g (lt_incidents st)\<rparr>)"
  using assms by (simp add: evidence_kept_def detected_def incident_open_def)

lemma evidence_open_incident: "evidence_kept st (snd (open_incident e wall i severity reason st))"
proof (cases "find (\<lambda>c. ic_session_id c = i \<and> ic_status c = IncidentOpen) (lt_incidents st)")
  case None
  then show ?thesis
    by (auto simp: open_incident_def evidence_kept_def detected_def incident_open_def Let_def id_drawn_def split: sum.splits)
next
  case (Some existing)
  let ?worse = "\<lambda>c. if ic_incident_id c = ic_incident_id existing \<and> ic_severity existing < severity
      then c\<lparr>ic_severity := severity, ic_reason := excerpt_500 e (ic_reason existing @ ''; escalated by: '' @ excerpt_500 e reason)\<rparr> else c"
  have "evidence_kept st (st\<lparr>lt_detections := map id (lt_detections st), lt_incidents := map ?worse (lt_incidents st)\<rparr>)"
    by (rule evidence_map) simp_all
  then show ?thesis using Some by (simp add: open_incident_def Let_def)
qed

lemma evidence_open_attach: "evidence_kept st (snd (open_and_attach e wall i severity reason st))"
proof (cases "open_incident e wall i severity reason st")
  case (Pair r st1)
  have "evidence_kept st st1" using evidence_open_incident [of st e wall i severity reason] Pair by simp
  moreover have "evidence_kept st1 (attach_detections x i st1)" for x
    using evidence_map [of "\<lambda>d. if dt_session_id d = i \<and> dt_incident_id d = None then d\<lparr>dt_incident_id := Some x\<rparr> else d" id st1]
    by (simp add: attach_detections_def)
  ultimately show ?thesis by (auto simp: open_and_attach_def Pair split: sum.splits intro: evidence.trans)
qed

lemma evidence_record_classes: "evidence_kept st (snd (record_classes e wall i ms cs risk st))"
proof (induction cs arbitrary: risk st)
  case (Cons c cs)
  show ?case
    unfolding record_classes.simps Let_def
    by (intro evidence.kept evidence_record_detection evidence_record_risk evidence_open_attach Cons)
qed (simp add: evidence.refl)

lemma classes_keep:
  "safe_step st (snd (record_classes e wall i ms cs risk st)) \<and> log_kept e st (snd (record_classes e wall i ms cs risk st))"
proof (induction cs arbitrary: risk st)
  case (Cons c cs)
  show ?case
    unfolding record_classes.simps Let_def
    by (intro conjI safe.kept chain.kept safe_record_detection safe_record_risk safe_open_attach log_simple log_record_risk log_open_attach
        Cons [THEN conjunct1] Cons [THEN conjunct2])
qed (simp add: chain.refl)

lemma reconcile_session_keeps:
  "safe_step st (snd (reconcile_session e wall i observed st))" "log_kept e st (snd (reconcile_session e wall i observed st))"
proof -
  have drawn: "safe_step st (snd p)" if "safe_step (id_drawn st) (snd p)" for p :: "(local_error + (Reconciliation \<times> RiskState)) \<times> local_store"
    using that id_drawn_safe safe_trans by blast
  show "safe_step st (snd (reconcile_session e wall i observed st))"
    unfolding reconcile_session_def Let_def
    by (rule safe.kept_if, rule safe.kept_result, rule safe.kept_option, rule safe.kept_result, rule drawn)
       (intro safe.kept safe_append_event classes_keep [THEN conjunct1])
  have drawn': "log_kept e st (snd p)" if "log_kept e (id_drawn st) (snd p)" for p :: "(local_error + (Reconciliation \<times> RiskState)) \<times> local_store"
    using that log_simple(12) chain.trans by blast
  show "log_kept e st (snd (reconcile_session e wall i observed st))"
    unfolding reconcile_session_def Let_def
    by (rule chain.kept_if, rule chain.kept_result, rule chain.kept_option, rule chain.kept_result, rule drawn')
       (intro chain.kept log_append_event classes_keep [THEN conjunct2])
qed

lemma opened:
  assumes "open_and_attach e wall i severity reason st = (Inr u, st')"
  shows "incident_open st' i"
proof (cases "find (\<lambda>c. ic_session_id c = i \<and> ic_status c = IncidentOpen) (lt_incidents st)")
  case None
  then show ?thesis
    using assms by (auto simp: open_and_attach_def open_incident_def Let_def attach_detections_def incident_open_def split: sum.splits prod.splits)
next
  case (Some existing)
  then have "incident_open st i" by (auto simp: incident_open_def find_Some_iff)
  then show ?thesis using evidence_open_attach [of st e wall i severity reason] assms by (simp add: evidence_kept_def)
qed

lemma bypass_rule:
  obtains rule where "rule_for_label ''denied_operation_observed'' = Some rule" "rl_id rule = ''VIGIL-L013''" "DetCritical \<le> rl_severity rule"
proof -
  have "case rule_for_label ''denied_operation_observed'' of None \<Rightarrow> False | Some rule \<Rightarrow> rl_id rule = ''VIGIL-L013'' \<and> DetCritical \<le> rl_severity rule"
    by code_simp
  then show ?thesis using that by (auto split: option.splits)
qed

lemma recorded_and_opened:
  assumes "(case record_detection e wall i rule ev None st of
      (Inl err, st1) \<Rightarrow> (Inl err, st1)
    | (Inr _, st1) \<Rightarrow>
        (case record_risk_signal e wall i dimension weight None note st1 of
           (Inl err, st2) \<Rightarrow> (Inl err, st2)
         | (Inr risk1, st2) \<Rightarrow>
             (case open_and_attach e wall i severity reason st2 of
                (Inl err, st3) \<Rightarrow> (Inl err, st3)
              | (Inr _, st3) \<Rightarrow> rest risk1 st3))) = (Inr y, st')"
    and "\<And>risk1 st3. evidence_kept st3 (snd (rest risk1 st3))"
  shows "detected st' i (rl_id rule) \<and> incident_open st' i"
proof -
  obtain d st1 risk1 st2 u st3 where steps: "record_detection e wall i rule ev None st = (Inr d, st1)"
    "record_risk_signal e wall i dimension weight None note st1 = (Inr risk1, st2)"
    "open_and_attach e wall i severity reason st2 = (Inr u, st3)" "rest risk1 st3 = (Inr y, st')"
    using assms(1) unfolding bind_ok by blast
  have "detected st1 i (rl_id rule)" using steps(1) by (auto simp: record_detection_def Let_def detected_def split: if_splits)
  moreover have "evidence_kept st1 st2" using evidence_record_risk steps(2) by (metis snd_conv)
  moreover have "evidence_kept st2 st3" using evidence_open_attach steps(3) by (metis snd_conv)
  moreover have "evidence_kept st3 st'" using assms(2) steps(4) by (metis snd_conv)
  ultimately show ?thesis using opened [OF steps(3)] by (simp add: evidence_kept_def)
qed

lemma bypass_recorded:
  assumes "record_classes e wall i ms (DeniedOperationObserved # cs) risk st = (Inr risk', st')"
  shows "detected st' i ''VIGIL-L013'' \<and> incident_open st' i"
proof -
  obtain rule where rule: "rule_for_label ''denied_operation_observed'' = Some rule" "rl_id rule = ''VIGIL-L013''" "DetCritical \<le> rl_severity rule"
    by (rule bypass_rule)
  note steps = assms [unfolded record_classes.simps Let_def mismatch_label.simps rule(1) option.case if_P [OF disjI1 [OF rule(3)]]]
  show ?thesis using recorded_and_opened [OF steps evidence_record_classes] rule(2) by simp
qed

lemma classes_then_event:
  assumes "(case p of
      (Inl err, st1) \<Rightarrow> (Inl err, st1)
    | (Inr risk1, st1) \<Rightarrow>
        (case append_event e wall i category act decision correlation (f risk1) st1 of
           (Inl err, st2) \<Rightarrow> (Inl err, st2)
         | (Inr _, st2) \<Rightarrow> (Inr (report1, risk1), st2))) = (Inr (report, risk), st')"
  shows "\<exists>st1. p = (Inr risk, st1) \<and> report = report1 \<and> evidence_kept st1 st'"
proof -
  obtain st1 x where "p = (Inr risk, st1)" "report = report1" "append_event e wall i category act decision correlation (f risk) st1 = (Inr x, st')"
    using assms by (auto split: sum.splits prod.splits)
  then show ?thesis using evidence_append_event by (metis snd_conv)
qed

lemma reconcile_result:
  assumes "reconcile_session e wall i observed st = (Inr (report, risk), st')"
  obtains s st1 where "length observed \<le> MAX_OBSERVATIONS" "session_of st i = Some s"
    "report = reconcile i (sn_workspace s) (declared_intents st i) observed"
    "record_classes e wall i (rn_mismatches report) (mismatch_classes (rn_mismatches report)) (sn_risk_state s) (id_drawn st) = (Inr risk, st1)"
    "evidence_kept st1 st'"
proof -
  have len: "\<not> MAX_OBSERVATIONS < length observed" using assms by (auto simp: reconcile_session_def)
  obtain s where s: "session_of st i = Some s" using assms len by (auto simp: reconcile_session_def split: option.splits)
  from classes_then_event [OF assms [unfolded reconcile_session_def if_not_P [OF len] s option.case Let_def]]
  show ?thesis using that len s by auto
qed

section \<open>Properties\<close>

text \<open>
  C31: a reconciliation is consistent exactly if something was observed and every operation that took effect is accounted
  for: nothing about its resource was refused, and a permitted declaration covers it, for a change one that declares a
  change. Every observation is skipped as refused by the operating system, matched, or reported.
\<close>

theorem reconcile_exact:
  assumes "length observed \<le> MAX_OBSERVATIONS"
  shows "(consistent (reconcile i workspace declared observed) \<longleftrightarrow>
      observed \<noteq> [] \<and> (\<forall>p\<in>set observed. ob_allowed p \<longrightarrow> accounted_for declared p)) \<and>
    rn_matched (reconcile i workspace declared observed) + length (rn_mismatches (reconcile i workspace declared observed)) +
      length (filter (\<lambda>p. \<not> ob_allowed p) observed) = length observed"
proof
  let ?j = "judge_operation workspace declared"
  have all: "take MAX_OBSERVATIONS observed = observed" using assms by simp
  have "mismatch_of (?j p) = None \<longleftrightarrow> (ob_allowed p \<longrightarrow> accounted_for declared p)" for p
    using judge_total [of workspace declared p] judge_accounted [of p workspace declared]
    by (cases "?j p") (auto simp: mismatch_of_def)
  then show "consistent (reconcile i workspace declared observed) \<longleftrightarrow>
      observed \<noteq> [] \<and> (\<forall>p\<in>set observed. ob_allowed p \<longrightarrow> accounted_for declared p)"
    by (auto simp: consistent_def reconcile_def Let_def all map_filter_empty)
  have "length (filter (\<lambda>v. v = OpMatched) (map ?j ps)) + length (List.map_filter mismatch_of (map ?j ps)) +
      length (filter (\<lambda>p. \<not> ob_allowed p) ps) = length ps" for ps
  proof (induction ps)
    case (Cons p ps)
    then show ?case using judge_total [of workspace declared p]
      by (cases "?j p") (auto simp: mismatch_of_def List.map_filter_simps)
  qed (simp add: List.map_filter_simps)
  then show "rn_matched (reconcile i workspace declared observed) + length (rn_mismatches (reconcile i workspace declared observed)) +
      length (filter (\<lambda>p. \<not> ob_allowed p) observed) = length observed"
    by (simp add: reconcile_def Let_def all)
qed

definition demo_read_operation :: ObservedOperation where
  "demo_read_operation = \<lparr>ob_process = ''t'', ob_kind = ObservedRead, ob_path = ''/w/f'', ob_allowed = True\<rparr>"

theorem reconcile_exact_witness:
  "\<not> consistent (reconcile ''s'' ''/w'' [] [demo_read_operation])"
  using reconcile_exact [of "[demo_read_operation]" "''s''" "''/w''" "[]"]
  by (simp add: MAX_OBSERVATIONS_def accounted_for_def demo_read_operation_def)

text \<open>
  C30: a refusal that happened anyway is not lost. If a session was refused a resource and an operation on it is observed to
  take effect, a reconciliation that returns has recorded the bypass against the session and left an incident open.
\<close>

theorem bypass_reported:
  assumes "reconcile_session e wall i observed st = (Inr (report, risk), st')"
    and "p \<in> set observed" "ob_allowed p" "d \<in> set (declared_intents st i)" "di_resource d = ob_path p" "\<not> di_permitted d"
  shows "detected st' i ''VIGIL-L013'' \<and> incident_open st' i"
proof -
  obtain s st1 where s: "length observed \<le> MAX_OBSERVATIONS" and "session_of st i = Some s"
    and report: "report = reconcile i (sn_workspace s) (declared_intents st i) observed"
    and classes: "record_classes e wall i (rn_mismatches report) (mismatch_classes (rn_mismatches report)) (sn_risk_state s) (id_drawn st) = (Inr risk, st1)"
    and kept: "evidence_kept st1 st'"
    by (rule reconcile_result [OF assms(1)])
  obtain m where m: "judge_operation (sn_workspace s) (declared_intents st i) p = OpMismatch m" "mm_class m = DeniedOperationObserved"
    using denied_judged [OF assms(3-6)] by blast
  then have "m \<in> set (rn_mismatches report)"
    using assms(2) s by (force simp: report reconcile_def Let_def List.map_filter_def mismatch_of_def image_iff)
  then have "mismatch_classes (rn_mismatches report) =
      DeniedOperationObserved # filter (\<lambda>c. c \<in> mm_class ` set (rn_mismatches report)) (tl mismatch_all)"
    using m(2) by (simp add: mismatch_classes_def mismatch_all_def rev_image_eqI)
  with classes have "detected st1 i ''VIGIL-L013'' \<and> incident_open st1 i" using bypass_recorded by metis
  then show ?thesis using kept by (simp add: evidence_kept_def)
qed

definition demo_refusal :: LocalEvent where
  "demo_refusal = \<lparr>lx_sequence = 1, lx_event_id = ''e'', lx_timestamp = 0, lx_session_id = ''s'', lx_category = ''policy'', lx_action = ''fs.read'',
     lx_decision = Some ''REQUIRE_APPROVAL'', lx_correlation_id = ''x'', lx_payload = JObj [(''resolved_resource'', JStr ''/w/f'')],
     lx_previous_hash = None, lx_chain_hash = None\<rparr>"

definition demo_intent :: DeclaredIntent where
  "demo_intent = \<lparr>di_action = ''fs.read'', di_resource = ''/w/f'', di_permitted = False\<rparr>"

definition demo_refused_store :: local_store where
  "demo_refused_store = demo_started\<lparr>lt_events := [demo_refusal]\<rparr>"

lemma demo_refusal_intent: "intent_of demo_refusal = Some demo_intent"
  by (simp add: intent_of_def demo_refusal_def demo_intent_def decision_permitted_def obj_get_def json_text_def)

lemma session_exists: "session_risk_state st i = Inr k \<Longrightarrow> session_of st i \<noteq> None"
  by (auto simp: session_risk_state_def split: option.splits)

lemma detection_returns:
  assumes "session_risk_state st i = Inr k"
  shows "\<exists>d st1 k1. record_detection e wall i rule ev source st = (Inr d, st1) \<and> session_risk_state st1 i = Inr k1"
proof -
  obtain d st1 where r: "record_detection e wall i rule ev source st = (Inr d, st1)"
    using session_exists [OF assms] by (auto simp: record_detection_def Let_def)
  then show ?thesis using session_kept [OF safe_record_detection [THEN safe_snd, OF r] assms] by blast
qed

lemma risk_returns:
  assumes "session_risk_state st i = Inr k" "0 < weight" "weight \<le> MAX_SIGNAL_WEIGHT"
  shows "\<exists>r st1 k1. record_risk_signal e wall i d weight source note st = (Inr r, st1) \<and> session_risk_state st1 i = Inr k1"
proof -
  obtain r st1 where r: "record_risk_signal e wall i d weight source note st = (Inr r, st1)"
    using assms by (simp add: record_risk_signal_def Let_def)
  then show ?thesis using session_kept [OF safe_record_risk [THEN safe_snd, OF r] assms(1)] by blast
qed

lemma attach_returns:
  assumes "session_risk_state st i = Inr k"
  shows "\<exists>st1 k1. open_and_attach e wall i severity reason st = (Inr (), st1) \<and> session_risk_state st1 i = Inr k1"
proof -
  obtain st1 where r: "open_and_attach e wall i severity reason st = (Inr (), st1)"
    using assms
    by (cases "find (\<lambda>c. ic_session_id c = i \<and> ic_status c = IncidentOpen) (lt_incidents st)")
      (auto simp: open_and_attach_def open_incident_def Let_def)
  then show ?thesis using session_kept [OF safe_open_attach [THEN safe_snd, OF r] assms] by blast
qed

lemma mismatch_rules:
  "\<exists>rule. rule_for_label (mismatch_label c) = Some rule \<and> 0 < rl_weight rule \<and> rl_weight rule \<le> MAX_SIGNAL_WEIGHT"
proof -
  have "case rule_for_label (mismatch_label c) of None \<Rightarrow> False | Some rule \<Rightarrow> 0 < rl_weight rule \<and> rl_weight rule \<le> MAX_SIGNAL_WEIGHT"
    by (cases c; hypsubst; code_simp)
  then show ?thesis by (auto split: option.splits)
qed

lemma classes_return:
  "session_risk_state st i = Inr k \<Longrightarrow>
     \<exists>r st1 k1. record_classes e wall i ms cs risk st = (Inr r, st1) \<and> session_risk_state st1 i = Inr k1"
proof (induction cs arbitrary: risk st k)
  case (Cons c cs)
  obtain rule where rule: "rule_for_label (mismatch_label c) = Some rule" "0 < rl_weight rule" "rl_weight rule \<le> MAX_SIGNAL_WEIGHT"
    using mismatch_rules by blast
  let ?ev = "JObj [(''class'', JStr (mismatch_as_str c)), (''instances'', JInt (int (length (filter (\<lambda>m. mm_class m = c) ms)))),
      (''examples'', JArr (map example_json (take 32 (filter (\<lambda>m. mm_class m = c) ms))))]"
  let ?reason = "rl_name rule @ '' ('' @ show_nat (length (filter (\<lambda>m. mm_class m = c) ms)) @ '' instance(s))''"
  obtain d st1 k1 where 1: "record_detection e wall i rule ?ev None st = (Inr d, st1)" "session_risk_state st1 i = Inr k1"
    using detection_returns [OF Cons.prems] by blast
  obtain r st2 k2 where 2: "record_risk_signal e wall i (rl_dimension rule) (rl_weight rule) None (rl_description rule) st1 = (Inr r, st2)"
    "session_risk_state st2 i = Inr k2"
    using risk_returns [OF 1(2) rule(2,3)] by blast
  obtain st3 k3 where 3: "(if DetCritical \<le> rl_severity rule \<or> revokes_leases r
      then open_and_attach e wall i (rl_severity rule) ?reason st2 else (Inr (), st2)) = (Inr (), st3)" "session_risk_state st3 i = Inr k3"
    using attach_returns [OF 2(2), of e wall "rl_severity rule" ?reason] 2(2) by (cases "DetCritical \<le> rl_severity rule \<or> revokes_leases r") auto
  show ?case
    unfolding record_classes.simps Let_def rule(1) option.case 1(1) prod.case sum.case 2(1) 3(1)
    by (rule Cons.IH [OF 3(2)])
qed simp

text \<open>A reconciliation of an existing session with a bounded number of observations returns.\<close>

lemma reconcile_returns:
  assumes "session_of st i = Some s" "length observed \<le> MAX_OBSERVATIONS"
  shows "\<exists>report risk st'. reconcile_session e wall i observed st = (Inr (report, risk), st')"
proof -
  let ?report = "reconcile i (sn_workspace s) (declared_intents st i) observed"
  have "session_risk_state (id_drawn st) i = Inr (sn_risk_state s)"
    using assms(1) by (simp add: session_risk_state_def session_of_def id_drawn_def)
  then obtain risk st1 k1 where 1: "record_classes e wall i (rn_mismatches ?report) (mismatch_classes (rn_mismatches ?report)) (sn_risk_state s) (id_drawn st) = (Inr risk, st1)"
    "session_risk_state st1 i = Inr k1"
    using classes_return by blast
  have event: "\<exists>x st2. append_event e wall i category act decision correlation payload st1 = (Inr x, st2)" if "no_floats payload" for category act decision correlation payload
  proof -
    let ?x = "\<lparr>lx_sequence = lt_issued_events st1 + 1, lx_event_id = fresh_id e ''evt_'' st1, lx_timestamp = wall,
      lx_session_id = i, lx_category = category, lx_action = act, lx_decision = decision, lx_correlation_id = correlation,
      lx_payload = payload, lx_previous_hash = (if lt_events st1 = [] then None else lx_chain_hash (List.last (lt_events st1))),
      lx_chain_hash = None\<rparr>"
    obtain h where h: "event_link_hash e ?x = Inr h" using event_link_total [of ?x e] \<open>no_floats payload\<close> by auto
    show ?thesis unfolding append_event_def Let_def if_not_P [OF session_exists [OF 1(2)]] h sum.case by blast
  qed
  let ?payload = "JObj [(''coverage'', JStr (coverage_text (rn_coverage ?report))), (''declared'', JInt (int (length (rn_declared ?report)))),
      (''observations_considered'', JInt (int (rn_observations_considered ?report))), (''matched'', JInt (int (rn_matched ?report))),
      (''mismatches'', JInt (int (length (rn_mismatches ?report)))),
      (''classes'', JArr (map (\<lambda>c. JStr (mismatch_as_str c)) (mismatch_classes (rn_mismatches ?report)))),
      (''risk_state'', JStr (risk_as_str risk)), (''os_enforcement'', JBool False)]"
  have "no_floats ?payload" by (simp add: list_all_iff)
  then obtain x st2 where 2: "append_event e wall i ''reconcile'' ''reconcile.report''
      (Some (if consistent ?report then ''CONSISTENT'' else if rn_coverage ?report = NoObserver then ''NO_OBSERVER'' else ''MISMATCH''))
      (fresh_id e ''cor_'' st) ?payload st1 = (Inr x, st2)"
    using event by blast
  have "\<not> MAX_OBSERVATIONS < length observed" using assms(2) by simp
  then show ?thesis
    unfolding reconcile_session_def if_not_P [OF \<open>\<not> MAX_OBSERVATIONS < length observed\<close>] assms(1) option.case Let_def 1(1) prod.case sum.case 2
    by blast
qed

lemma demo_declared: "demo_intent \<in> set (declared_intents demo_refused_store ''s'')"
  using demo_refusal_intent by (auto simp: declared_intents_set demo_refused_store_def demo_refusal_def)

theorem bypass_reported_witness:
  "\<exists>report risk st'. reconcile_session demo_local_env 0 ''s'' [demo_read_operation] demo_refused_store = (Inr (report, risk), st') \<and>
     detected st' ''s'' ''VIGIL-L013''"
proof -
  have "session_of demo_refused_store ''s'' = Some demo_session"
    by (simp add: session_of_def demo_refused_store_def demo_started_def demo_session_def)
  then obtain report risk st' where r: "reconcile_session demo_local_env 0 ''s'' [demo_read_operation] demo_refused_store = (Inr (report, risk), st')"
    using reconcile_returns [of demo_refused_store "''s''" demo_session "[demo_read_operation]" demo_local_env 0]
    by (auto simp: MAX_OBSERVATIONS_def)
  have "ob_allowed demo_read_operation" "di_resource demo_intent = ob_path demo_read_operation" "\<not> di_permitted demo_intent"
    by (simp_all add: demo_read_operation_def demo_intent_def)
  from bypass_reported [OF r _ this(1) demo_declared this(2,3)] show ?thesis using r by simp
qed

text \<open>
  Asking for approval counts as a refusal for ever. Once a session had to ask for approval of a resource, every operation
  on it that takes effect is reported as a bypass of the broker, also when the approval was granted and the operation
  permitted.
\<close>

theorem approved_operation_reported_as_bypass:
  assumes "x \<in> set (lt_events st)" "lx_session_id x = i" "lx_decision x = Some ''REQUIRE_APPROVAL''" "intent_of x = Some d"
    and "p \<in> set observed" "length observed \<le> MAX_OBSERVATIONS" "ob_allowed p" "ob_path p = di_resource d"
  shows "\<exists>m\<in>set (rn_mismatches (reconcile i workspace (declared_intents st i) observed)).
    mm_class m = DeniedOperationObserved \<and> mm_observed m = p"
proof -
  have "\<not> di_permitted d" using assms(3,4) by (auto simp: intent_of_def decision_permitted_def Let_def split: option.splits)
  moreover have "d \<in> set (declared_intents st i)" using assms(1,2,4) by (auto simp: declared_intents_set)
  ultimately obtain m where "judge_operation workspace (declared_intents st i) p = OpMismatch m"
    "mm_class m = DeniedOperationObserved" "mm_observed m = p"
    using denied_judged [OF assms(7)] assms(8) by metis
  then show ?thesis
    using assms(5,6) by (force simp: reconcile_def Let_def List.map_filter_def mismatch_of_def image_iff)
qed


theorem approved_operation_reported_as_bypass_witness:
  "\<exists>m\<in>set (rn_mismatches (reconcile ''s'' ''/w'' (declared_intents demo_refused_store ''s'') [demo_read_operation])).
     mm_class m = DeniedOperationObserved"
  using approved_operation_reported_as_bypass [of demo_refusal demo_refused_store "''s''" demo_intent demo_read_operation "[demo_read_operation]" "''/w''"]
    demo_refusal_intent
  by (auto simp: demo_refused_store_def demo_refusal_def demo_read_operation_def demo_intent_def MAX_OBSERVATIONS_def)

end
