(* ===== verification/LocalBudget.thy ===== *)
theory LocalBudget
  imports LocalPolicy
begin

text \<open>
  Blast-radius budgets of the local control plane (\<^verbatim>\<open>vigil-local/src/budget.rs\<close>): the limits of the profiles, the
  counters of a session, and reservations that are committed or refunded. Each function on the tables is the
  body of one \<^verbatim>\<open>IMMEDIATE\<close> transaction: an error leaves the tables as they were. Counters are SQLite
  integers, written out as integers with the range checks of the code.
\<close>

section \<open>Dimensions and limits\<close>

datatype BudgetDimension =
    BFileReads | BFileCreates | BFileWrites | BFileDeletes | BFileRenames
  | BTotalWriteBytes | BMaxSingleWriteBytes | BProcessExecutions | BNetworkConnections | BNetworkDestinations
  | BBrokeredSecretUses | BPrivilegedActions | BPersistenceChanges | BGitCommits | BGitPushes

definition budget_all :: "BudgetDimension list" where
  "budget_all = [BFileReads, BFileCreates, BFileWrites, BFileDeletes, BFileRenames,
     BTotalWriteBytes, BMaxSingleWriteBytes, BProcessExecutions, BNetworkConnections, BNetworkDestinations,
     BBrokeredSecretUses, BPrivilegedActions, BPersistenceChanges, BGitCommits, BGitPushes]"

fun budget_text :: "BudgetDimension \<Rightarrow> string" where
  "budget_text BFileReads = ''file_reads''"
| "budget_text BFileCreates = ''file_creates''"
| "budget_text BFileWrites = ''file_writes''"
| "budget_text BFileDeletes = ''file_deletes''"
| "budget_text BFileRenames = ''file_renames''"
| "budget_text BTotalWriteBytes = ''total_write_bytes''"
| "budget_text BMaxSingleWriteBytes = ''max_single_write_bytes''"
| "budget_text BProcessExecutions = ''process_executions''"
| "budget_text BNetworkConnections = ''network_connections''"
| "budget_text BNetworkDestinations = ''network_destinations''"
| "budget_text BBrokeredSecretUses = ''brokered_secret_uses''"
| "budget_text BPrivilegedActions = ''privileged_actions''"
| "budget_text BPersistenceChanges = ''persistence_changes''"
| "budget_text BGitCommits = ''git_commits''"
| "budget_text BGitPushes = ''git_pushes''"

text \<open>The baseline limits, one row per profile, in the order of the dimensions.\<close>

fun budget_row :: "LocalProfile \<Rightarrow> nat list" where
  "budget_row ProfileObserve = [20000, 1000, 1000, 100, 500, 250000000, 25000000, 1000, 2000, 100, 25, 0, 0, 100, 20]"
| "budget_row DeveloperStandard = [5000, 100, 100, 5, 100, 25000000, 5000000, 150, 100, 5, 5, 0, 0, 10, 1]"
| "budget_row DeveloperRestricted = [2000, 50, 50, 0, 25, 10000000, 2000000, 50, 25, 3, 0, 0, 0, 5, 0]"
| "budget_row Research = [10000, 50, 50, 0, 25, 10000000, 2000000, 100, 500, 25, 2, 0, 0, 5, 0]"
| "budget_row UntrustedAgent = [1000, 25, 25, 0, 10, 2000000, 500000, 25, 20, 2, 0, 0, 0, 0, 0]"

definition budget_limit :: "LocalProfile \<Rightarrow> BudgetDimension \<Rightarrow> nat" where
  "budget_limit profile d = the (map_of (zip budget_all (budget_row profile)) d)"

section \<open>Tables\<close>

datatype ReservationStatus = ReservationPending | ReservationCommitted | ReservationRefunded

record BudgetCharge =
  bg_dimension :: BudgetDimension
  bg_amount :: nat

record CounterRow =
  bc_session_id :: string
  bc_dimension :: BudgetDimension
  bc_limit :: int
  bc_consumed :: int
  bc_reserved :: int

record ReservationRow =
  br_id :: string
  br_session_id :: string
  br_correlation_id :: string
  br_created_at :: timestamp
  br_status :: ReservationStatus
  br_items :: "(BudgetDimension \<times> int) list"

record ClaimRow =
  dc_session_id :: string
  dc_destination_key :: string
  dc_reservation_id :: string
  dc_committed :: bool

record budget_tables =
  bt_counters :: "CounterRow list"
  bt_reservations :: "ReservationRow list"
  bt_claims :: "ClaimRow list"

datatype budget_error =
    ChargesEmpty
  | ChargeNotPositive
  | ChargeOverflow
  | NotConsumable
  | CounterUnavailable BudgetDimension
  | AmountOutOfRange
  | CounterOverflow
  | BudgetSpent BudgetDimension
  | BadDestinationKey
  | DestinationUnreconciled
  | ReservationUnknown
  | ReservationDecided ReservationStatus
  | AccountingInconsistent

definition I64_MAX :: int where "I64_MAX = 2 ^ 63 - 1"
definition U64_MAX :: nat where "U64_MAX = 2 ^ 64 - 1"

section \<open>Operations\<close>

definition initial_counters :: "string \<Rightarrow> LocalProfile \<Rightarrow> CounterRow list" where
  "initial_counters i profile =
     map (\<lambda>d. \<lparr>bc_session_id = i, bc_dimension = d, bc_limit = int (budget_limit profile d), bc_consumed = 0, bc_reserved = 0\<rparr>)
       budget_all"

definition initialize_budget_rows :: "string \<Rightarrow> LocalProfile \<Rightarrow> budget_tables \<Rightarrow> budget_tables" where
  "initialize_budget_rows i profile t = t\<lparr>bt_counters := bt_counters t @ initial_counters i profile\<rparr>"

fun aggregate_loop :: "BudgetCharge list \<Rightarrow> (BudgetDimension, nat) hmap \<Rightarrow> budget_error + (BudgetDimension, nat) hmap" where
  "aggregate_loop [] m = Inr m"
| "aggregate_loop (c # cs) m =
     (if bg_amount c = 0 then Inl ChargeNotPositive
      else let total = (case hm_get m (bg_dimension c) of None \<Rightarrow> 0 | Some n \<Rightarrow> n) + bg_amount c
           in if U64_MAX < total then Inl ChargeOverflow else aggregate_loop cs (hm_insert (bg_dimension c) total m))"

text \<open>The map of the totals, listed in the order of the dimensions.\<close>

definition aggregate_charges :: "BudgetCharge list \<Rightarrow> budget_error + (BudgetDimension \<times> nat) list" where
  "aggregate_charges cs =
     (if cs = [] then Inl ChargesEmpty
      else rbind (aggregate_loop cs []) (\<lambda>m.
        Inr (List.map_filter (\<lambda>d. map_option (\<lambda>n. (d, n)) (hm_get m d)) budget_all)))"

definition counter_of :: "string \<Rightarrow> BudgetDimension \<Rightarrow> CounterRow list \<Rightarrow> CounterRow option" where
  "counter_of i d rows = find (\<lambda>r. bc_session_id r = i \<and> bc_dimension r = d) rows"

definition add_reserved :: "string \<Rightarrow> BudgetDimension \<Rightarrow> int \<Rightarrow> CounterRow list \<Rightarrow> CounterRow list" where
  "add_reserved i d amount rows =
     map (\<lambda>r. if bc_session_id r = i \<and> bc_dimension r = d then r\<lparr>bc_reserved := bc_reserved r + amount\<rparr> else r) rows"

fun reserve_loop :: "string \<Rightarrow> (BudgetDimension \<times> nat) list \<Rightarrow> CounterRow list \<Rightarrow> budget_error + CounterRow list" where
  "reserve_loop i [] rows = Inr rows"
| "reserve_loop i ((d, amount) # rest) rows =
     (if d = BMaxSingleWriteBytes then Inl NotConsumable
      else case counter_of i d rows of
             None \<Rightarrow> Inl (CounterUnavailable d)
           | Some r \<Rightarrow>
               if I64_MAX < int amount then Inl AmountOutOfRange
               else if I64_MAX < bc_consumed r + bc_reserved r \<or> I64_MAX < bc_consumed r + bc_reserved r + int amount
                    then Inl CounterOverflow
               else if bc_limit r < bc_consumed r + bc_reserved r + int amount then Inl (BudgetSpent d)
               else reserve_loop i rest (add_reserved i d (int amount) rows))"

definition reserve_in_transaction ::
    "string \<Rightarrow> timestamp \<Rightarrow> string \<Rightarrow> string \<Rightarrow> (BudgetDimension \<times> nat) list \<Rightarrow> budget_tables
      \<Rightarrow> budget_error + (ReservationRow \<times> budget_tables)" where
  "reserve_in_transaction new_id wall i correlation aggregated t =
     rbind (reserve_loop i aggregated (bt_counters t)) (\<lambda>rows.
       let r = \<lparr>br_id = new_id, br_session_id = i, br_correlation_id = correlation, br_created_at = wall,
                br_status = ReservationPending, br_items = map (\<lambda>(d, n). (d, int n)) aggregated\<rparr>
       in Inr (r, t\<lparr>bt_counters := rows, bt_reservations := bt_reservations t @ [r]\<rparr>))"

text \<open>The bodies of \<^verbatim>\<open>reserve_budget\<close> and \<^verbatim>\<open>reserve_network_budget\<close> behind the check that the session is active.\<close>

definition reserve_charges ::
    "string \<Rightarrow> timestamp \<Rightarrow> string \<Rightarrow> string \<Rightarrow> BudgetCharge list \<Rightarrow> budget_tables
      \<Rightarrow> budget_error + (ReservationRow \<times> budget_tables)" where
  "reserve_charges new_id wall i correlation charges t =
     rbind (aggregate_charges charges) (\<lambda>aggregated. reserve_in_transaction new_id wall i correlation aggregated t)"

definition claim_of :: "string \<Rightarrow> string \<Rightarrow> budget_tables \<Rightarrow> ClaimRow option" where
  "claim_of i key t = find (\<lambda>c. dc_session_id c = i \<and> dc_destination_key c = key) (bt_claims t)"

definition reserve_network ::
    "string \<Rightarrow> timestamp \<Rightarrow> string \<Rightarrow> string \<Rightarrow> string \<Rightarrow> budget_tables
      \<Rightarrow> budget_error + (ReservationRow \<times> budget_tables)" where
  "reserve_network new_id wall i correlation key t =
     (if key = [] \<or> 512 < str_len key then Inl BadDestinationKey
      else let claim = claim_of i key t
           in if (case claim of None \<Rightarrow> False | Some c \<Rightarrow> \<not> dc_committed c) then Inl DestinationUnreconciled
              else rbind (reserve_charges new_id wall i correlation
                     (\<lparr>bg_dimension = BNetworkConnections, bg_amount = 1\<rparr> #
                      (if claim = None then [\<lparr>bg_dimension = BNetworkDestinations, bg_amount = 1\<rparr>] else [])) t)
                   (\<lambda>(r, t1). Inr (r, if claim = None
                      then t1\<lparr>bt_claims := bt_claims t1 @ [\<lparr>dc_session_id = i, dc_destination_key = key,
                                dc_reservation_id = br_id r, dc_committed = False\<rparr>]\<rparr>
                      else t1)))"

fun settle_row :: "ReservationStatus \<Rightarrow> int \<Rightarrow> CounterRow \<Rightarrow> CounterRow" where
  "settle_row ReservationCommitted amount r =
     r\<lparr>bc_reserved := bc_reserved r - amount, bc_consumed := bc_consumed r + amount\<rparr>"
| "settle_row _ amount r = r\<lparr>bc_reserved := bc_reserved r - amount\<rparr>"

fun settle_loop ::
    "ReservationStatus \<Rightarrow> string \<Rightarrow> (BudgetDimension \<times> int) list \<Rightarrow> CounterRow list \<Rightarrow> budget_error + CounterRow list" where
  "settle_loop target i [] rows = Inr rows"
| "settle_loop target i ((d, amount) # rest) rows =
     (let hit = (\<lambda>r. bc_session_id r = i \<and> bc_dimension r = d \<and> amount \<le> bc_reserved r)
      in if length (filter hit rows) \<noteq> 1 then Inl AccountingInconsistent
         else settle_loop target i rest (map (\<lambda>r. if hit r then settle_row target amount r else r) rows))"

definition settle_claims :: "ReservationStatus \<Rightarrow> string \<Rightarrow> ClaimRow list \<Rightarrow> ClaimRow list" where
  "settle_claims target reservation_id cs =
     (if target = ReservationCommitted
      then map (\<lambda>c. if dc_reservation_id c = reservation_id \<and> \<not> dc_committed c then c\<lparr>dc_committed := True\<rparr> else c) cs
      else filter (\<lambda>c. \<not> (dc_reservation_id c = reservation_id \<and> \<not> dc_committed c)) cs)"

text \<open>The items are settled in the order of the texts of their dimensions.\<close>

definition reconcile_budget :: "string \<Rightarrow> ReservationStatus \<Rightarrow> budget_tables \<Rightarrow> budget_error + budget_tables" where
  "reconcile_budget reservation_id target t =
     (if target = ReservationPending then Inl (ReservationDecided ReservationPending)
      else case find (\<lambda>r. br_id r = reservation_id) (bt_reservations t) of
             None \<Rightarrow> Inl ReservationUnknown
           | Some r \<Rightarrow>
               if br_status r = target then Inr t
               else if br_status r \<noteq> ReservationPending then Inl (ReservationDecided (br_status r))
               else rbind (settle_loop target (br_session_id r) (sort_key (\<lambda>(d, _). budget_text d) (br_items r)) (bt_counters t))
                      (\<lambda>rows. Inr \<lparr>bt_counters = rows,
                         bt_reservations = map (\<lambda>r. if br_id r = reservation_id then r\<lparr>br_status := target\<rparr> else r) (bt_reservations t),
                         bt_claims = settle_claims target reservation_id (bt_claims t)\<rparr>))"

definition commit_budget :: "string \<Rightarrow> budget_tables \<Rightarrow> budget_error + budget_tables" where
  "commit_budget reservation_id t = reconcile_budget reservation_id ReservationCommitted t"

definition refund_budget :: "string \<Rightarrow> budget_tables \<Rightarrow> budget_error + budget_tables" where
  "refund_budget reservation_id t = reconcile_budget reservation_id ReservationRefunded t"


section \<open>Updates by dimension\<close>

definition counter_key :: "CounterRow \<Rightarrow> string \<times> BudgetDimension" where
  "counter_key r = (bc_session_id r, bc_dimension r)"

definition bump ::
    "string \<Rightarrow> (BudgetDimension \<times> int) list \<Rightarrow> (int \<Rightarrow> CounterRow \<Rightarrow> CounterRow) \<Rightarrow> CounterRow list \<Rightarrow> CounterRow list" where
  "bump i m f rows =
     map (\<lambda>r. if bc_session_id r = i then (case map_of m (bc_dimension r) of None \<Rightarrow> r | Some a \<Rightarrow> f a r) else r) rows"

definition reserve_row :: "int \<Rightarrow> CounterRow \<Rightarrow> CounterRow" where
  "reserve_row a r = r\<lparr>bc_reserved := bc_reserved r + a\<rparr>"

definition keeps_key :: "(int \<Rightarrow> CounterRow \<Rightarrow> CounterRow) \<Rightarrow> bool" where
  "keeps_key f \<longleftrightarrow> (\<forall>a r. bc_session_id (f a r) = bc_session_id r \<and> bc_dimension (f a r) = bc_dimension r \<and> bc_limit (f a r) = bc_limit r)"

lemma keeps_key_rows [simp]: "keeps_key reserve_row" "keeps_key (settle_row target)"
  by (auto simp: keeps_key_def reserve_row_def) (cases target; simp)+

lemma bump_Cons:
  assumes "keeps_key f" "d \<notin> fst ` set m"
  shows "bump i m f (bump i [(d, a)] f rows) = bump i ((d, a) # m) f rows"
proof -
  have "map_of m d = None" using assms(2) by (simp add: map_of_eq_None_iff)
  then show ?thesis using assms(1) by (auto simp: bump_def keeps_key_def split: option.splits)
qed

lemma bump_keys: "keeps_key f \<Longrightarrow> map counter_key (bump i m f rows) = map counter_key rows"
  by (auto simp: bump_def keeps_key_def counter_key_def split: option.splits)

lemma bump_Nil [simp]: "bump i [] f rows = rows"
  by (auto simp: bump_def intro: map_idI)

lemma add_reserved_bump: "add_reserved i d a rows = bump i [(d, a)] reserve_row rows"
  by (auto simp: add_reserved_def bump_def reserve_row_def)

lemma counter_of_iff:
  assumes "distinct (map counter_key rows)"
  shows "counter_of i d rows = Some r \<longleftrightarrow> r \<in> set rows \<and> counter_key r = (i, d)"
  using assms by (induction rows) (auto simp: counter_of_def counter_key_def rev_image_eqI)

text \<open>A row of another dimension is what it was.\<close>

lemma bump_other:
  assumes "r' \<in> set (bump i [(d, a)] f rows)" "keeps_key f" "counter_key r' = (i, d')" "d' \<noteq> d"
  shows "r' \<in> set rows"
  using assms by (auto simp: bump_def keeps_key_def counter_key_def split: if_splits)

lemma bump_other_member:
  assumes "r \<in> set rows" "counter_key r \<noteq> (i, d)"
  shows "r \<in> set (bump i [(d, a)] f rows)"
  using assms by (force simp: bump_def counter_key_def)

section \<open>Reserving\<close>

definition fits :: "string \<Rightarrow> BudgetDimension \<times> nat \<Rightarrow> CounterRow list \<Rightarrow> bool" where
  "fits i x rows \<longleftrightarrow> fst x \<noteq> BMaxSingleWriteBytes \<and>
     (\<exists>r\<in>set rows. counter_key r = (i, fst x) \<and> bc_consumed r + bc_reserved r + int (snd x) \<le> bc_limit r)"

definition rows_bounded :: "CounterRow list \<Rightarrow> bool" where
  "rows_bounded rows \<longleftrightarrow> (\<forall>r\<in>set rows. 0 \<le> bc_consumed r \<and> 0 \<le> bc_reserved r \<and> bc_limit r \<le> I64_MAX \<and>
     bc_consumed r + bc_reserved r \<le> bc_limit r)"

lemma fits_bump:
  assumes "d' \<noteq> d"
  shows "fits i (d', n) (bump i [(d, a)] reserve_row rows) \<longleftrightarrow> fits i (d', n) rows"
proof -
  have k: "keeps_key reserve_row" by simp
  have "(\<exists>r\<in>set (bump i [(d, a)] reserve_row rows). counter_key r = (i, d') \<and> P r) \<longleftrightarrow>
      (\<exists>r\<in>set rows. counter_key r = (i, d') \<and> P r)" for P
    using bump_other [OF _ k _ assms] bump_other_member [of _ rows i d a reserve_row] assms by auto
  then show ?thesis by (simp add: fits_def)
qed

lemma rows_bounded_reserve:
  assumes "rows_bounded rows" "distinct (map counter_key rows)" "fits i (d, n) rows"
  shows "rows_bounded (bump i [(d, int n)] reserve_row rows)"
proof -
  obtain r0 where r0: "r0 \<in> set rows" "counter_key r0 = (i, d)" "bc_consumed r0 + bc_reserved r0 + int n \<le> bc_limit r0"
    using assms(3) by (auto simp: fits_def)
  have "r = r0" if "r \<in> set rows" "bc_session_id r = i" "bc_dimension r = d" for r
    using counter_of_iff [OF assms(2), of i d] that r0 by (metis counter_key_def option.inject)
  then show ?thesis
    using assms(1) r0 by (auto simp: rows_bounded_def bump_def reserve_row_def)
qed

lemma reserve_loop_exact:
  assumes "distinct (map counter_key rows)" "distinct (map fst agg)" "rows_bounded rows"
  shows "reserve_loop i agg rows =
     (if list_all (\<lambda>x. fits i x rows) agg then Inr (bump i (map (\<lambda>(d, n). (d, int n)) agg) reserve_row rows)
      else reserve_loop i agg rows) \<and>
     (\<not> list_all (\<lambda>x. fits i x rows) agg \<longrightarrow> (\<exists>err. reserve_loop i agg rows = Inl err)) \<and>
     (list_all (\<lambda>x. fits i x rows) agg \<longrightarrow> rows_bounded (bump i (map (\<lambda>(d, n). (d, int n)) agg) reserve_row rows))"
  using assms
proof (induction agg arbitrary: rows)
  case (Cons x agg)
  obtain d n where x: "x = (d, n)" by fastforce
  let ?rows = "bump i [(d, int n)] reserve_row rows"
  have nd: "d \<notin> fst ` set agg" "distinct (map fst agg)" using Cons.prems(2) x by auto
  have keys: "distinct (map counter_key ?rows)" using Cons.prems(1) by (simp add: bump_keys)
  have same: "list_all (\<lambda>x. fits i x ?rows) agg \<longleftrightarrow> list_all (\<lambda>x. fits i x rows) agg"
  proof -
    have "fits i y ?rows = fits i y rows" if "y \<in> set agg" for y
      using fits_bump [of "fst y" d i "snd y" "int n" rows] that nd(1) by (cases y) force
    then show ?thesis by (simp add: list_all_iff)
  qed
  show ?case
  proof (cases "fits i (d, n) rows")
    case True
    then obtain r where r: "counter_of i d rows = Some r" "bc_consumed r + bc_reserved r + int n \<le> bc_limit r" "r \<in> set rows"
      using counter_of_iff [OF Cons.prems(1)] by (auto simp: fits_def)
    have b: "0 \<le> bc_consumed r" "0 \<le> bc_reserved r" "bc_limit r \<le> I64_MAX" using Cons.prems(3) r(3) by (auto simp: rows_bounded_def)
    have step: "reserve_loop i (x # agg) rows = reserve_loop i agg ?rows"
      using True r b by (simp add: x fits_def add_reserved_bump)
    have bump: "bump i (map (\<lambda>(d, n). (d, int n)) agg) reserve_row ?rows =
        bump i (map (\<lambda>(d, n). (d, int n)) (x # agg)) reserve_row rows"
      using bump_Cons [of reserve_row d "map (\<lambda>(d, n). (d, int n)) agg" i "int n" rows] nd(1) x by (force simp: image_iff)
    show ?thesis
      using Cons.IH [OF keys nd(2) rows_bounded_reserve [OF Cons.prems(3,1) True]] same True
      unfolding step bump by (simp add: x)
  next
    case False
    have "\<exists>err. reserve_loop i (x # agg) rows = Inl err"
    proof (cases "counter_of i d rows")
      case (Some r)
      then have "r \<in> set rows" "counter_key r = (i, d)" using counter_of_iff [OF Cons.prems(1)] by auto
      then have "d = BMaxSingleWriteBytes \<or> bc_limit r < bc_consumed r + bc_reserved r + int n"
        using False by (force simp: fits_def)
      then show ?thesis using Some by (auto simp: x)
    qed (simp add: x)
    then show ?thesis using False by (auto simp: x)
  qed
qed simp

section \<open>Totals of a list of charges\<close>

definition charge_total :: "BudgetCharge list \<Rightarrow> BudgetDimension \<Rightarrow> nat" where
  "charge_total cs d = sum_list (map bg_amount (filter (\<lambda>c. bg_dimension c = d) cs))"

definition held :: "(BudgetDimension, nat) hmap \<Rightarrow> BudgetDimension \<Rightarrow> nat" where
  "held m d = (case hm_get m d of None \<Rightarrow> 0 | Some n \<Rightarrow> n)"

lemma aggregate_loop_exact:
  "(\<exists>m'. aggregate_loop cs m = Inr m') \<longleftrightarrow>
     list_all (\<lambda>c. 0 < bg_amount c \<and> held m (bg_dimension c) + charge_total cs (bg_dimension c) \<le> U64_MAX) cs"
  "aggregate_loop cs m = Inr m' \<Longrightarrow>
     hm_get m' d = (if charge_total cs d = 0 then hm_get m d else Some (held m d + charge_total cs d))"
proof (induction cs arbitrary: m)
  case (Cons c cs)
  let ?d = "bg_dimension c"
  have held: "held (hm_insert ?d (held m ?d + bg_amount c) m) d + charge_total cs d = held m d + charge_total (c # cs) d" for d m
    by (auto simp: held_def charge_total_def)
  {
    case 1
    let ?m = "hm_insert ?d (held m ?d + bg_amount c) m"
    show ?case
    proof (cases "bg_amount c = 0 \<or> U64_MAX < held m ?d + bg_amount c")
      case True
      then show ?thesis by (auto simp: held_def charge_total_def Let_def)
    next
      case False
      then have "aggregate_loop (c # cs) m = aggregate_loop cs ?m" by (auto simp: held_def Let_def)
      moreover have "held m ?d + charge_total (c # cs) ?d \<le> U64_MAX"
        if "list_all (\<lambda>x. held m (bg_dimension x) + charge_total (c # cs) (bg_dimension x) \<le> U64_MAX) cs"
      proof (cases "\<exists>x\<in>set cs. bg_dimension x = ?d")
        case True
        then show ?thesis using that by (force simp: list_all_iff)
      next
        case no: False
        then have "filter (\<lambda>x. bg_dimension x = ?d) cs = []" by (simp add: filter_empty_conv)
        then show ?thesis using False by (simp add: charge_total_def)
      qed
      ultimately show ?thesis using Cons.IH(1) [of ?m] False by (auto simp: held list_all_iff)
    qed
  next
    case 2
    let ?m = "hm_insert ?d (held m ?d + bg_amount c) m"
    from 2 have ok: "aggregate_loop cs ?m = Inr m'" "0 < bg_amount c" by (auto simp: held_def Let_def split: if_splits)
    show ?case
      using Cons.IH(2) [OF ok(1)] ok(2) by (auto simp: held_def charge_total_def)
  }
qed (simp_all add: charge_total_def)

lemma aggregate_charges_exact:
  "(\<exists>agg. aggregate_charges cs = Inr agg) \<longleftrightarrow>
     cs \<noteq> [] \<and> list_all (\<lambda>c. 0 < bg_amount c \<and> charge_total cs (bg_dimension c) \<le> U64_MAX) cs"
  "aggregate_charges cs = Inr agg \<Longrightarrow>
     agg = map (\<lambda>d. (d, charge_total cs d)) (filter (\<lambda>d. charge_total cs d \<noteq> 0) budget_all)"
proof -
  show "(\<exists>agg. aggregate_charges cs = Inr agg) \<longleftrightarrow>
      cs \<noteq> [] \<and> list_all (\<lambda>c. 0 < bg_amount c \<and> charge_total cs (bg_dimension c) \<le> U64_MAX) cs"
    using aggregate_loop_exact(1) [of cs "[]"] by (auto simp: aggregate_charges_def rbind_eq_Inr held_def)
  assume "aggregate_charges cs = Inr agg"
  then obtain m where m: "aggregate_loop cs [] = Inr m"
    and a: "agg = List.map_filter (\<lambda>d. map_option (\<lambda>n. (d, n)) (hm_get m d)) budget_all"
    by (auto simp: aggregate_charges_def rbind_eq_Inr split: if_splits)
  have "hm_get m d = (if charge_total cs d = 0 then None else Some (charge_total cs d))" for d
    using aggregate_loop_exact(2) [OF m, of d] by (simp add: held_def)
  then show "agg = map (\<lambda>d. (d, charge_total cs d)) (filter (\<lambda>d. charge_total cs d \<noteq> 0) budget_all)"
    unfolding a map_filter_def by (auto simp: comp_def intro!: map_cong filter_cong)
qed

lemma budget_all_complete: "distinct budget_all" "d \<in> set budget_all"
  by (simp add: budget_all_def) (cases d; simp add: budget_all_def)

lemma aggregate_distinct: "aggregate_charges cs = Inr agg \<Longrightarrow> distinct (map fst agg) \<and> (\<forall>x\<in>set agg. 0 < snd x)"
  using aggregate_charges_exact(2) [of cs agg] budget_all_complete(1) by (auto simp: comp_def)

section \<open>Settling\<close>

lemma unique_hit:
  assumes "distinct (map counter_key rows)" "r \<in> set rows" "counter_key r = (i, d)" "a \<le> bc_reserved r"
  shows "filter (\<lambda>r. bc_session_id r = i \<and> bc_dimension r = d \<and> a \<le> bc_reserved r) rows = [r]"
  using assms
proof (induction rows)
  case (Cons x rows)
  show ?case
  proof (cases "x = r")
    case True
    then have "(i, d) \<notin> counter_key ` set rows" using Cons.prems by auto
    then have "filter (\<lambda>r. bc_session_id r = i \<and> bc_dimension r = d \<and> a \<le> bc_reserved r) rows = []"
      by (auto simp: filter_empty_conv counter_key_def image_iff)
    then show ?thesis using True Cons.prems by (auto simp: counter_key_def)
  next
    case False
    then have r: "r \<in> set rows" using Cons.prems by auto
    then have "counter_key x \<noteq> (i, d)" using Cons.prems by (metis distinct.simps(2) image_eqI list.simps(9) list.set_map)
    then show ?thesis using Cons.IH r Cons.prems by (auto simp: counter_key_def)
  qed
qed simp

lemma hit_bump:
  assumes "distinct (map counter_key rows)" "r \<in> set rows" "counter_key r = (i, d)" "a \<le> bc_reserved r"
  shows "map (\<lambda>r. if bc_session_id r = i \<and> bc_dimension r = d \<and> a \<le> bc_reserved r then settle_row target a r else r) rows =
     bump i [(d, a)] (settle_row target) rows"
proof -
  have "x = r" if "x \<in> set rows" "bc_session_id x = i" "bc_dimension x = d" for x
    using counter_of_iff [OF assms(1), of i d] that assms(2,3) by (metis counter_key_def option.inject)
  then show ?thesis using assms(4) by (auto simp: bump_def)
qed

lemma settle_loop_bump:
  assumes "distinct (map counter_key rows)" "distinct (map fst items)"
    and "\<And>d a. (d, a) \<in> set items \<Longrightarrow> \<exists>r\<in>set rows. counter_key r = (i, d) \<and> a \<le> bc_reserved r"
  shows "settle_loop target i items rows = Inr (bump i items (settle_row target) rows)"
  using assms
proof (induction items arbitrary: rows)
  case (Cons x items)
  obtain d a where x: "x = (d, a)" by fastforce
  obtain r where r: "r \<in> set rows" "counter_key r = (i, d)" "a \<le> bc_reserved r"
    using Cons.prems(3) x by auto
  let ?rows = "bump i [(d, a)] (settle_row target) rows"
  have nd: "d \<notin> fst ` set items" using Cons.prems(2) x by simp
  have "settle_loop target i (x # items) rows = settle_loop target i items ?rows"
    using unique_hit [OF Cons.prems(1) r] hit_bump [OF Cons.prems(1) r] by (simp add: x Let_def)
  moreover have "settle_loop target i items ?rows = Inr (bump i items (settle_row target) ?rows)"
  proof (rule Cons.IH)
    show "distinct (map counter_key ?rows)" using Cons.prems(1) by (simp add: bump_keys)
    show "distinct (map fst items)" using Cons.prems(2) by simp
    fix d' a' assume m: "(d', a') \<in> set items"
    then obtain r' where "r' \<in> set rows" "counter_key r' = (i, d')" "a' \<le> bc_reserved r'"
      using Cons.prems(3) by (meson list.set_intros(2))
    moreover have "d' \<noteq> d" using m nd by force
    ultimately show "\<exists>r\<in>set ?rows. counter_key r = (i, d') \<and> a' \<le> bc_reserved r"
      using bump_other_member by (metis prod.inject)
  qed
  ultimately show ?case using bump_Cons [of "settle_row target", OF _ nd] by (simp add: x)
qed simp


section \<open>The accounts\<close>

definition item_amount :: "BudgetDimension \<Rightarrow> ReservationRow \<Rightarrow> int" where
  "item_amount d r = (case map_of (br_items r) d of None \<Rightarrow> 0 | Some a \<Rightarrow> a)"

definition booked :: "string \<Rightarrow> BudgetDimension \<Rightarrow> ReservationStatus \<Rightarrow> ReservationRow \<Rightarrow> int" where
  "booked i d s r = (if br_session_id r = i \<and> br_status r = s then item_amount d r else 0)"

definition item_total :: "string \<Rightarrow> BudgetDimension \<Rightarrow> ReservationStatus \<Rightarrow> ReservationRow list \<Rightarrow> int" where
  "item_total i d s rs = sum_list (map (booked i d s) rs)"

definition reservation_ok :: "CounterRow list \<Rightarrow> ReservationRow \<Rightarrow> bool" where
  "reservation_ok rows r \<longleftrightarrow> distinct (map fst (br_items r)) \<and>
     (\<forall>x\<in>set (br_items r). 0 < snd x \<and> (br_session_id r, fst x) \<in> counter_key ` set rows)"

definition row_ok :: "ReservationRow list \<Rightarrow> CounterRow \<Rightarrow> bool" where
  "row_ok rs c \<longleftrightarrow>
     bc_reserved c = item_total (bc_session_id c) (bc_dimension c) ReservationPending rs \<and>
     bc_consumed c = item_total (bc_session_id c) (bc_dimension c) ReservationCommitted rs"

definition accounts_inv :: "budget_tables \<Rightarrow> bool" where
  "accounts_inv t \<longleftrightarrow> distinct (map counter_key (bt_counters t)) \<and> rows_bounded (bt_counters t) \<and>
     distinct (map br_id (bt_reservations t)) \<and>
     (\<forall>r\<in>set (bt_reservations t). reservation_ok (bt_counters t) r) \<and>
     (\<forall>c\<in>set (bt_counters t). row_ok (bt_reservations t) c)"

inductive accounts_reach :: "budget_tables \<Rightarrow> bool" where
  reach_empty: "accounts_reach \<lparr>bt_counters = [], bt_reservations = [], bt_claims = []\<rparr>"
| reach_session:
    "\<lbrakk>accounts_reach t; i \<notin> bc_session_id ` set (bt_counters t)\<rbrakk> \<Longrightarrow> accounts_reach (initialize_budget_rows i profile t)"
| reach_reserve:
    "\<lbrakk>accounts_reach t; new_id \<notin> br_id ` set (bt_reservations t);
      reserve_charges new_id wall i correlation charges t = Inr (r, t')\<rbrakk> \<Longrightarrow> accounts_reach t'"
| reach_network:
    "\<lbrakk>accounts_reach t; new_id \<notin> br_id ` set (bt_reservations t);
      reserve_network new_id wall i correlation key t = Inr (r, t')\<rbrakk> \<Longrightarrow> accounts_reach t'"
| reach_settle:
    "\<lbrakk>accounts_reach t; reconcile_budget reservation_id target t = Inr t'\<rbrakk> \<Longrightarrow> accounts_reach t'"

lemma counter_key_pair: "c \<in> set rows \<Longrightarrow> (bc_session_id c, bc_dimension c) \<in> counter_key ` set rows"
  by (auto simp: counter_key_def intro!: rev_image_eqI)

lemma item_total_append [simp]: "item_total i d s (rs @ [r]) = item_total i d s rs + booked i d s r"
  by (simp add: item_total_def)

lemma item_amount_nonneg: "reservation_ok rows r \<Longrightarrow> 0 \<le> item_amount d r"
  by (auto simp: item_amount_def reservation_ok_def split: option.splits dest!: map_of_SomeD)

lemma booked_nonneg: "reservation_ok rows r \<Longrightarrow> 0 \<le> booked i d s r"
  by (simp add: booked_def item_amount_nonneg)

lemma booked_le_total:
  assumes "\<forall>r\<in>set rs. reservation_ok rows r" "r \<in> set rs"
  shows "booked i d s r \<le> item_total i d s rs"
proof -
  have "sum_list (map (booked i d s) rs) = booked i d s r + sum_list (map (booked i d s) (remove1 r rs))"
    using assms(2) by (rule sum_list_map_remove1)
  moreover have "0 \<le> sum_list (map (booked i d s) (remove1 r rs))"
    using assms(1) by (intro sum_list_nonneg) (auto dest!: notin_set_remove1 [rotated] set_remove1_subset [THEN subsetD] intro: booked_nonneg)
  ultimately show ?thesis by (simp add: item_total_def)
qed

lemma item_total_fresh:
  assumes "\<forall>r\<in>set rs. reservation_ok rows r" "(i, d) \<notin> counter_key ` set rows"
  shows "item_total i d s rs = 0"
proof -
  have "booked i d s r = 0" if r: "r \<in> set rs" for r
  proof (cases "br_session_id r = i")
    case True
    then have "map_of (br_items r) d = None"
      using assms r by (force simp: reservation_ok_def map_of_eq_None_iff)
    then show ?thesis by (simp add: booked_def item_amount_def)
  qed (simp add: booked_def)
  then show ?thesis by (simp add: item_total_def cong: map_cong) 
qed

lemma item_total_settle:
  assumes "distinct (map br_id rs)" "r \<in> set rs" "br_status r \<noteq> target"
  shows "item_total i d s (map (\<lambda>x. if br_id x = br_id r then x\<lparr>br_status := target\<rparr> else x) rs) =
     item_total i d s rs - booked i d s r + booked i d s (r\<lparr>br_status := target\<rparr>)"
  using assms
proof (induction rs)
  case (Cons x rs)
  have same: "map (\<lambda>y. if br_id y = br_id x then y\<lparr>br_status := target\<rparr> else y) rs = rs"
    using Cons.prems(1) by (intro map_idI) (auto simp: rev_image_eqI)
  show ?case
  proof (cases "x = r")
    case True
    then show ?thesis using same by (simp add: item_total_def)
  next
    case False
    then have "r \<in> set rs" "br_id x \<noteq> br_id r" using Cons.prems by auto
    then show ?thesis using Cons.IH Cons.prems(1,3) by (simp add: item_total_def)
  qed
qed simp

lemma rows_bounded_append: "rows_bounded (xs @ ys) \<longleftrightarrow> rows_bounded xs \<and> rows_bounded ys"
  by (auto simp: rows_bounded_def)

lemma budget_limit_le: "int (budget_limit profile d) \<le> I64_MAX"
  by (cases profile; cases d; simp add: budget_limit_def budget_all_def I64_MAX_def)

lemma reservation_ok_status [simp]: "reservation_ok rows (r\<lparr>br_status := s\<rparr>) = reservation_ok rows r"
  by (simp add: reservation_ok_def)

lemma reservation_ok_mono: "\<lbrakk>reservation_ok rows r; counter_key ` set rows \<subseteq> counter_key ` set rows'\<rbrakk> \<Longrightarrow> reservation_ok rows' r"
  by (auto simp: reservation_ok_def)

section \<open>Every step keeps the accounts\<close>

lemma initialize_inv:
  assumes "accounts_inv t" "i \<notin> bc_session_id ` set (bt_counters t)"
  shows "accounts_inv (initialize_budget_rows i profile t)"
proof -
  let ?new = "initial_counters i profile"
  have keys: "map counter_key ?new = map (\<lambda>d. (i, d)) budget_all"
    by (simp add: initial_counters_def counter_key_def)
  have "counter_key ` set (bt_counters t) \<inter> counter_key ` set ?new = {}"
    using assms(2) by (auto simp: initial_counters_def counter_key_def)
  moreover have "distinct (map counter_key ?new)"
    unfolding keys using budget_all_complete(1) by (simp add: distinct_map inj_on_def)
  moreover have "rows_bounded ?new"
    using budget_limit_le by (auto simp: rows_bounded_def initial_counters_def)
  moreover have "row_ok (bt_reservations t) c" if "c \<in> set ?new" for c
  proof -
    have "(i, bc_dimension c) \<notin> counter_key ` set (bt_counters t)" using assms(2) by (auto simp: counter_key_def)
    then show ?thesis using that assms(1) item_total_fresh
      by (auto simp: row_ok_def initial_counters_def accounts_inv_def)
  qed
  moreover have "reservation_ok (bt_counters t @ ?new) r" if "r \<in> set (bt_reservations t)" for r
  proof (rule reservation_ok_mono)
    show "reservation_ok (bt_counters t) r" using that assms(1) unfolding accounts_inv_def by blast
  qed auto
  ultimately show ?thesis
    using assms(1) unfolding accounts_inv_def initialize_budget_rows_def rows_bounded_append
    by (simp add: rows_bounded_append ball_Un)
qed

lemma bump_image: "keeps_key f \<Longrightarrow> counter_key ` set (bump i m f rows) = counter_key ` set rows"
  using bump_keys [of f i m rows] by (metis list.set_map)

lemma reserve_inv:
  assumes "accounts_inv t" "new_id \<notin> br_id ` set (bt_reservations t)"
    "reserve_charges new_id wall i correlation charges t = Inr (r, t')"
  shows "accounts_inv t'"
proof -
  obtain agg rows where agg: "aggregate_charges charges = Inr agg"
    and rows: "reserve_loop i agg (bt_counters t) = Inr rows"
    and r: "r = \<lparr>br_id = new_id, br_session_id = i, br_correlation_id = correlation, br_created_at = wall,
                br_status = ReservationPending, br_items = map (\<lambda>(d, n). (d, int n)) agg\<rparr>"
    and t': "t' = t\<lparr>bt_counters := rows, bt_reservations := bt_reservations t @ [r]\<rparr>"
    using assms(3) by (auto simp: reserve_charges_def reserve_in_transaction_def rbind_eq_Inr Let_def)
  let ?m = "map (\<lambda>(d, n). (d, int n)) agg"
  note inv = assms(1) [unfolded accounts_inv_def]
  have fits: "list_all (\<lambda>x. fits i x (bt_counters t)) agg" and rows': "rows = bump i ?m reserve_row (bt_counters t)"
    and bounded: "rows_bounded rows"
    using reserve_loop_exact [of "bt_counters t" agg i] aggregate_distinct [OF agg] inv rows by auto
  have keys: "map counter_key rows = map counter_key (bt_counters t)" "counter_key ` set rows = counter_key ` set (bt_counters t)"
    unfolding rows' by (simp_all add: bump_keys bump_image)
  have ok: "reservation_ok rows r"
    unfolding reservation_ok_def keys
  proof (intro conjI ballI)
    show "distinct (map fst (br_items r))" using aggregate_distinct [OF agg] by (simp add: r comp_def case_prod_unfold)
    fix x assume "x \<in> set (br_items r)"
    then obtain y where y: "y \<in> set agg" "x = (fst y, int (snd y))" by (auto simp: r)
    then have "fits i y (bt_counters t)" "0 < snd y" using fits aggregate_distinct [OF agg] by (auto simp: list_all_iff)
    then show "0 < snd x" "(br_session_id r, fst x) \<in> counter_key ` set (bt_counters t)"
      using y(2) by (auto simp: r fits_def rev_image_eqI)
  qed
  moreover have old: "\<forall>r\<in>set (bt_reservations t). reservation_ok rows r"
    using inv unfolding reservation_ok_def keys(2) by blast
  moreover have "row_ok (bt_reservations t @ [r]) c" if c: "c \<in> set rows" for c
  proof -
    obtain c0 where c0: "c0 \<in> set (bt_counters t)"
      "c = (if bc_session_id c0 = i then (case map_of ?m (bc_dimension c0) of None \<Rightarrow> c0 | Some a \<Rightarrow> reserve_row a c0) else c0)"
      using c by (auto simp: rows' bump_def)
    have "row_ok (bt_reservations t) c0" using inv c0(1) by blast
    then show ?thesis
      by (cases "map_of ?m (bc_dimension c0)") (simp_all add: c0(2) row_ok_def booked_def item_amount_def r reserve_row_def)
  qed
  ultimately show ?thesis
    using inv assms(2) bounded keys(1) old by (simp add: t' accounts_inv_def r)
qed

lemma settle_inv:
  assumes "accounts_inv t" "r \<in> set (bt_reservations t)" "br_status r = ReservationPending" "target \<noteq> ReservationPending"
  defines "items \<equiv> sort_key (\<lambda>(d, _). budget_text d) (br_items r)"
  shows "settle_loop target (br_session_id r) items (bt_counters t) =
      Inr (bump (br_session_id r) (br_items r) (settle_row target) (bt_counters t))"
    and "accounts_inv (t\<lparr>bt_counters := bump (br_session_id r) (br_items r) (settle_row target) (bt_counters t),
      bt_reservations := map (\<lambda>x. if br_id x = br_id r then x\<lparr>br_status := target\<rparr> else x) (bt_reservations t)\<rparr>)"
proof -
  let ?i = "br_session_id r" and ?rows = "bt_counters t" and ?rs = "bt_reservations t"
  note inv = assms(1) [unfolded accounts_inv_def]
  have ok: "reservation_ok ?rows r" using inv assms(2) by blast
  have d: "distinct (map fst (br_items r))" "distinct (map fst items)" "map_of items = map_of (br_items r)"
  proof -
    show 1: "distinct (map fst (br_items r))" using ok by (simp add: reservation_ok_def)
    have "mset (map fst items) = mset (map fst (br_items r))" by (simp add: items_def)
    then show 2: "distinct (map fst items)" using 1 mset_eq_imp_distinct_iff by blast
    show "map_of items = map_of (br_items r)" using 1 2 by (intro map_of_inject_set [THEN iffD2]) (simp_all add: items_def)
  qed
  have hold: "\<exists>c\<in>set ?rows. counter_key c = (?i, x) \<and> a \<le> bc_reserved c" if xa: "(x, a) \<in> set (br_items r)" for x a
  proof -
    obtain c where c: "c \<in> set ?rows" "counter_key c = (?i, x)" using ok xa by (force simp: reservation_ok_def)
    have "booked ?i x ReservationPending r = a"
      using xa d(1) assms(3) by (simp add: booked_def item_amount_def)
    moreover have "bc_reserved c = item_total ?i x ReservationPending ?rs" using inv c by (auto simp: row_ok_def counter_key_def)
    ultimately show ?thesis using c booked_le_total [of ?rs ?rows r ?i x ReservationPending] inv assms(2) by auto
  qed
  have bump: "bump ?i items (settle_row target) ?rows = bump ?i (br_items r) (settle_row target) ?rows"
    by (simp add: bump_def d(3))
  have "settle_loop target ?i items ?rows = Inr (bump ?i items (settle_row target) ?rows)"
    using inv d(2) hold by (intro settle_loop_bump) (auto simp: items_def)
  then show "settle_loop target ?i items ?rows = Inr (bump ?i (br_items r) (settle_row target) ?rows)" by (simp add: bump)
  let ?rows' = "bump ?i (br_items r) (settle_row target) ?rows"
    and ?rs' = "map (\<lambda>x. if br_id x = br_id r then x\<lparr>br_status := target\<rparr> else x) ?rs"
  have keys: "map counter_key ?rows' = map counter_key ?rows" "counter_key ` set ?rows' = counter_key ` set ?rows"
    by (simp_all add: bump_keys bump_image)
  have total: "item_total i x s ?rs' = item_total i x s ?rs - booked i x s r + booked i x s (r\<lparr>br_status := target\<rparr>)" for i x s
    using item_total_settle inv assms(2,3,4) by auto
  have settled: "\<exists>c\<in>set ?rows. c' = (if bc_session_id c = ?i then
      (case map_of (br_items r) (bc_dimension c) of None \<Rightarrow> c | Some a \<Rightarrow> settle_row target a c) else c)" if "c' \<in> set ?rows'" for c'
    using that by (auto simp: bump_def)
  have row: "row_ok ?rs' c'" if c': "c' \<in> set ?rows'" for c'
  proof -
    obtain c where c: "c \<in> set ?rows" "c' = (if bc_session_id c = ?i then
        (case map_of (br_items r) (bc_dimension c) of None \<Rightarrow> c | Some a \<Rightarrow> settle_row target a c) else c)"
      using settled [OF c'] by blast
    have "row_ok ?rs c" using inv c(1) by blast
    then show ?thesis using assms(3,4)
      by (cases "map_of (br_items r) (bc_dimension c)"; cases target)
         (simp_all add: c(2) row_ok_def total booked_def item_amount_def)
  qed
  have nonneg: "0 \<le> item_total i x s ?rs'" for i x s
  proof -
    have "0 \<le> booked i x s y" if "y \<in> set ?rs'" for y
      using that inv by (auto simp: booked_def item_amount_def dest!: item_amount_nonneg [of ?rows _ x])
    then show ?thesis unfolding item_total_def by (intro sum_list_nonneg) auto
  qed
  have "rows_bounded ?rows'"
    unfolding rows_bounded_def
  proof
    fix c' assume c': "c' \<in> set ?rows'"
    then have "0 \<le> bc_consumed c'" "0 \<le> bc_reserved c'" using row nonneg by (auto simp: row_ok_def)
    moreover have "bc_limit c' \<le> I64_MAX \<and> bc_consumed c' + bc_reserved c' \<le> bc_limit c'"
    proof -
      obtain c where c: "c \<in> set ?rows" "c' = (if bc_session_id c = ?i then
          (case map_of (br_items r) (bc_dimension c) of None \<Rightarrow> c | Some a \<Rightarrow> settle_row target a c) else c)"
        using settled [OF c'] by blast
      have "0 \<le> item_amount (bc_dimension c) r" using ok by (rule item_amount_nonneg)
      then show ?thesis using c inv assms(4)
        by (cases target) (fastforce simp: rows_bounded_def item_amount_def split: option.splits if_splits)+
    qed
    ultimately show "0 \<le> bc_consumed c' \<and> 0 \<le> bc_reserved c' \<and> bc_limit c' \<le> I64_MAX \<and> bc_consumed c' + bc_reserved c' \<le> bc_limit c'"
      by blast
  qed
  moreover have "distinct (map br_id ?rs')"
  proof -
    have "map br_id ?rs' = map br_id ?rs" by simp
    then show ?thesis using inv by metis
  qed
  moreover have "reservation_ok ?rows' x" if "x \<in> set ?rs'" for x
  proof (rule reservation_ok_mono)
    show "reservation_ok ?rows x" using that inv by auto
  qed (simp add: keys(2))
  ultimately show "accounts_inv (t\<lparr>bt_counters := ?rows', bt_reservations := ?rs'\<rparr>)"
    using row inv keys(1) unfolding accounts_inv_def by (simp del: map_map)
qed


lemma found_reservation:
  "find (\<lambda>r. br_id r = x) rs = Some r \<Longrightarrow> r \<in> set rs \<and> br_id r = x"
  by (auto simp: find_Some_iff in_set_conv_nth)

lemma reservation_found:
  "\<lbrakk>distinct (map br_id rs); r \<in> set rs\<rbrakk> \<Longrightarrow> find (\<lambda>x. br_id x = br_id r) rs = Some r"
  by (induction rs) (auto simp: rev_image_eqI)

lemma reconcile_pending:
  assumes "accounts_inv t" "r \<in> set (bt_reservations t)" "br_status r = ReservationPending" "target \<noteq> ReservationPending"
  shows "reconcile_budget (br_id r) target t =
    Inr \<lparr>bt_counters = bump (br_session_id r) (br_items r) (settle_row target) (bt_counters t),
         bt_reservations = map (\<lambda>x. if br_id x = br_id r then x\<lparr>br_status := target\<rparr> else x) (bt_reservations t),
         bt_claims = settle_claims target (br_id r) (bt_claims t)\<rparr>"
proof -
  have "find (\<lambda>x. br_id x = br_id r) (bt_reservations t) = Some r"
    using assms(1,2) unfolding accounts_inv_def by (blast intro: reservation_found)
  then show ?thesis
    using assms(3,4) settle_inv(1) [OF assms] by (simp add: reconcile_budget_def)
qed

lemma accounts_inv_claims [simp]: "accounts_inv (t\<lparr>bt_claims := cs\<rparr>) = accounts_inv t"
  by (simp add: accounts_inv_def)

lemma reconcile_inv:
  assumes "accounts_inv t" "reconcile_budget x target t = Inr t'"
  shows "accounts_inv t'"
proof (cases "t' = t")
  case False
  obtain r where r: "find (\<lambda>r. br_id r = x) (bt_reservations t) = Some r" "br_status r = ReservationPending" "target \<noteq> ReservationPending"
    using assms(2) False by (auto simp: reconcile_budget_def split: if_splits option.splits)
  note f = found_reservation [OF r(1)]
  let ?t = "t\<lparr>bt_counters := bump (br_session_id r) (br_items r) (settle_row target) (bt_counters t),
      bt_reservations := map (\<lambda>x. if br_id x = br_id r then x\<lparr>br_status := target\<rparr> else x) (bt_reservations t)\<rparr>"
  have "t' = ?t\<lparr>bt_claims := settle_claims target x (bt_claims t)\<rparr>"
    using reconcile_pending [OF assms(1) _ r(2,3)] f assms(2) by auto
  moreover have "accounts_inv ?t" using settle_inv(2) [OF assms(1) _ r(2,3)] f by blast
  ultimately show ?thesis by simp
qed (use assms in simp)

lemma network_inv:
  assumes "accounts_inv t" "new_id \<notin> br_id ` set (bt_reservations t)" "reserve_network new_id wall i correlation key t = Inr (r, t')"
  shows "accounts_inv t'"
proof -
  obtain charges t1 cs where "reserve_charges new_id wall i correlation charges t = Inr (r, t1)" "t' = t1 \<or> t' = t1\<lparr>bt_claims := cs\<rparr>"
    using assms(3) by (auto simp: reserve_network_def rbind_eq_Inr Let_def split: if_splits)
  then show ?thesis using reserve_inv [OF assms(1,2)] by auto
qed

lemma accounts_reach_inv: "accounts_reach t \<Longrightarrow> accounts_inv t"
proof (induction rule: accounts_reach.induct)
  case reach_empty
  show ?case by (simp add: accounts_inv_def rows_bounded_def)
qed (blast intro: initialize_inv reserve_inv network_inv reconcile_inv)+

lemma reserve_charges_exact:
  assumes "accounts_inv t"
  shows "(\<exists>r t'. reserve_charges new_id wall i correlation charges t = Inr (r, t')) \<longleftrightarrow>
     charges \<noteq> [] \<and> list_all (\<lambda>c. 0 < bg_amount c \<and> fits i (bg_dimension c, charge_total charges (bg_dimension c)) (bt_counters t)) charges"
proof -
  note inv = assms [unfolded accounts_inv_def]
  have step: "(\<exists>r t'. reserve_charges new_id wall i correlation charges t = Inr (r, t')) \<longleftrightarrow>
      (\<exists>agg. aggregate_charges charges = Inr agg \<and> list_all (\<lambda>x. fits i x (bt_counters t)) agg)"
  proof -
    have "(\<exists>rows. reserve_loop i agg (bt_counters t) = Inr rows) \<longleftrightarrow> list_all (\<lambda>x. fits i x (bt_counters t)) agg"
      if "aggregate_charges charges = Inr agg" for agg
      using reserve_loop_exact [of "bt_counters t" agg i] aggregate_distinct [OF that] inv by (metis sum.distinct(1))
    then show ?thesis
      by (auto simp: reserve_charges_def reserve_in_transaction_def rbind_eq_Inr Let_def)
  qed
  have small: "charge_total charges d \<le> U64_MAX" if "fits i (d, charge_total charges d) (bt_counters t)" for d
    using that inv by (force simp: fits_def rows_bounded_def I64_MAX_def U64_MAX_def)
  have total: "charge_total charges d \<noteq> 0 \<longleftrightarrow> (\<exists>c\<in>set charges. bg_dimension c = d)" if "list_all (\<lambda>c. 0 < bg_amount c) charges" for d
    using that by (force simp: charge_total_def list_all_iff)
  have "list_all (\<lambda>x. fits i x (bt_counters t)) agg \<longleftrightarrow>
      list_all (\<lambda>c. fits i (bg_dimension c, charge_total charges (bg_dimension c)) (bt_counters t)) charges"
    if "aggregate_charges charges = Inr agg" for agg
  proof -
    have "list_all (\<lambda>c. 0 < bg_amount c) charges" using that aggregate_charges_exact(1) [of charges] by (auto simp: list_all_iff)
    then show ?thesis
      using aggregate_charges_exact(2) [OF that] total budget_all_complete(2) by (auto simp: list_all_iff)
  qed
  then show ?thesis unfolding step using aggregate_charges_exact(1) [of charges] small by (auto simp: list_all_iff)
qed

section \<open>Properties\<close>

text \<open>
  C35: in every state that sessions, reservations, network reservations, commits and refunds can reach, what a
  counter has reserved is the sum of the pending reservations of its session and dimension, what it has consumed
  is the sum of the committed ones, and the two together never exceed its limit.
\<close>

theorem budget_accounting:
  assumes "accounts_reach t" "c \<in> set (bt_counters t)"
  shows "0 \<le> bc_consumed c \<and> 0 \<le> bc_reserved c \<and> bc_consumed c + bc_reserved c \<le> bc_limit c \<and>
     bc_reserved c = item_total (bc_session_id c) (bc_dimension c) ReservationPending (bt_reservations t) \<and>
     bc_consumed c = item_total (bc_session_id c) (bc_dimension c) ReservationCommitted (bt_reservations t)"
  using accounts_reach_inv [OF assms(1)] assms(2) unfolding accounts_inv_def rows_bounded_def row_ok_def by blast

definition demo_tables :: budget_tables where
  "demo_tables = initialize_budget_rows ''s1'' DeveloperStandard \<lparr>bt_counters = [], bt_reservations = [], bt_claims = []\<rparr>"

definition demo_row :: ReservationRow where
  "demo_row = \<lparr>br_id = ''b1'', br_session_id = ''s1'', br_correlation_id = ''c1'', br_created_at = 0,
     br_status = ReservationPending, br_items = [(BFileDeletes, 5)]\<rparr>"

definition demo_reserved :: budget_tables where
  "demo_reserved = demo_tables\<lparr>bt_counters := add_reserved ''s1'' BFileDeletes 5 (bt_counters demo_tables),
     bt_reservations := [demo_row]\<rparr>"

lemma demo_tables_reach: "accounts_reach demo_tables"
  unfolding demo_tables_def by (rule reach_session [OF reach_empty]) simp

lemma demo_aggregated:
  "aggregate_charges [\<lparr>bg_dimension = BFileDeletes, bg_amount = 3\<rparr>, \<lparr>bg_dimension = BFileDeletes, bg_amount = 2\<rparr>] =
     Inr [(BFileDeletes, 5)]"
proof -
  let ?cs = "[\<lparr>bg_dimension = BFileDeletes, bg_amount = 3\<rparr>, \<lparr>bg_dimension = BFileDeletes, bg_amount = 2\<rparr>]"
  have "(5::nat) \<le> U64_MAX" by (simp add: U64_MAX_def)
  then obtain agg where agg: "aggregate_charges ?cs = Inr agg"
    using aggregate_charges_exact(1) [of ?cs] by (auto simp: charge_total_def)
  then show ?thesis using aggregate_charges_exact(2) [OF agg] by (simp add: charge_total_def budget_all_def)
qed

lemma demo_reserved_value:
  "reserve_charges ''b1'' 0 ''s1'' ''c1''
      [\<lparr>bg_dimension = BFileDeletes, bg_amount = 3\<rparr>, \<lparr>bg_dimension = BFileDeletes, bg_amount = 2\<rparr>] demo_tables = Inr (demo_row, demo_reserved)"
  "\<lparr>bc_session_id = ''s1'', bc_dimension = BFileDeletes, bc_limit = 5, bc_consumed = 0, bc_reserved = 5\<rparr> \<in> set (bt_counters demo_reserved)"
  by (simp_all add: demo_reserved_def demo_tables_def demo_row_def initialize_budget_rows_def initial_counters_def budget_all_def
      budget_limit_def reserve_charges_def demo_aggregated I64_MAX_def rbind_def reserve_in_transaction_def counter_of_def add_reserved_def Let_def)

lemma demo_reserved_reach: "accounts_reach demo_reserved"
proof -
  have "bt_reservations demo_tables = []" by (simp add: demo_tables_def initialize_budget_rows_def)
  then show ?thesis using demo_reserved_value(1) reach_reserve [OF demo_tables_reach] by fastforce
qed

theorem budget_accounting_witness:
  "item_total ''s1'' BFileDeletes ReservationPending (bt_reservations demo_reserved) = 5"
proof -
  let ?c = "\<lparr>bc_session_id = ''s1'', bc_dimension = BFileDeletes, bc_limit = 5, bc_consumed = 0, bc_reserved = 5\<rparr>"
  have "?c \<in> set (bt_counters demo_reserved)" by (rule demo_reserved_value(2))
  then show ?thesis using budget_accounting [OF demo_reserved_reach, of ?c] by simp
qed

text \<open>
  A reservation is made exactly when there is something to charge, every charge is positive, and in every
  charged dimension (the size of one write, which is no counter, apart) the total of the charges fits under the
  limit beside what is consumed and reserved. Otherwise the tables stay as they were.
\<close>

theorem reserve_budget_exact:
  assumes "accounts_reach t"
  shows "(\<exists>r t'. reserve_charges new_id wall i correlation charges t = Inr (r, t')) \<longleftrightarrow>
     charges \<noteq> [] \<and> list_all (\<lambda>c. 0 < bg_amount c \<and> fits i (bg_dimension c, charge_total charges (bg_dimension c)) (bt_counters t)) charges"
  by (rule reserve_charges_exact [OF accounts_reach_inv [OF assms]])

theorem reserve_budget_exact_witness:
  "\<not> (\<exists>r t'. reserve_charges ''b2'' 0 ''s1'' ''c2'' [\<lparr>bg_dimension = BFileDeletes, bg_amount = 1\<rparr>] demo_reserved = Inr (r, t'))"
proof -
  have "distinct (map counter_key (bt_counters demo_reserved))"
    using accounts_reach_inv [OF demo_reserved_reach] by (simp add: accounts_inv_def)
  then have "c = \<lparr>bc_session_id = ''s1'', bc_dimension = BFileDeletes, bc_limit = 5, bc_consumed = 0, bc_reserved = 5\<rparr>"
    if "c \<in> set (bt_counters demo_reserved)" "counter_key c = (''s1'', BFileDeletes)" for c
    using that demo_reserved_value(2) counter_of_iff [of "bt_counters demo_reserved" "''s1''" BFileDeletes]
    by (metis CounterRow.select_convs(1) CounterRow.select_convs(2) counter_key_def option.inject)
  then have "\<not> fits ''s1'' (BFileDeletes, 1) (bt_counters demo_reserved)" by (fastforce simp: fits_def)
  then show ?thesis
    using reserve_budget_exact [OF demo_reserved_reach, of "''b2''" 0 "''s1''" "''c2''" "[\<lparr>bg_dimension = BFileDeletes, bg_amount = 1\<rparr>]"]
    by (simp add: charge_total_def)
qed

text \<open>
  A pending reservation can always be committed or refunded (the accounts never stand in the way), doing it
  again changes nothing, and the other settlement is then refused.
\<close>

theorem reservation_settles:
  assumes "accounts_reach t" "r \<in> set (bt_reservations t)" "br_status r = ReservationPending"
    and "target \<noteq> ReservationPending" "other \<notin> {target, ReservationPending}"
  shows "\<exists>t'. reconcile_budget (br_id r) target t = Inr t' \<and> accounts_reach t' \<and>
     reconcile_budget (br_id r) target t' = Inr t' \<and>
     reconcile_budget (br_id r) other t' = Inl (ReservationDecided target)"
proof -
  note inv = accounts_reach_inv [OF assms(1)]
  obtain t' where t': "reconcile_budget (br_id r) target t = Inr t'"
    "bt_reservations t' = map (\<lambda>x. if br_id x = br_id r then x\<lparr>br_status := target\<rparr> else x) (bt_reservations t)"
    using reconcile_pending [OF inv assms(2-4)] by simp
  have reach: "accounts_reach t'" using reach_settle [OF assms(1) t'(1)] .
  have "find (\<lambda>x. br_id x = br_id r) (bt_reservations t') = Some (r\<lparr>br_status := target\<rparr>)"
  proof -
    have "r\<lparr>br_status := target\<rparr> \<in> set (bt_reservations t')" using assms(2) by (force simp: t'(2))
    moreover have "distinct (map br_id (bt_reservations t'))" using accounts_reach_inv [OF reach] by (simp add: accounts_inv_def)
    ultimately show ?thesis using reservation_found by fastforce
  qed
  then show ?thesis using t'(1) reach assms(4,5) by (auto simp: reconcile_budget_def)
qed

theorem reservation_settles_witness:
  "\<exists>t'. commit_budget ''b1'' demo_reserved = Inr t' \<and> commit_budget ''b1'' t' = Inr t' \<and>
     refund_budget ''b1'' t' = Inl (ReservationDecided ReservationCommitted)"
proof -
  have "demo_row \<in> set (bt_reservations demo_reserved)" "br_status demo_row = ReservationPending" "br_id demo_row = ''b1''"
    by (simp_all add: demo_reserved_def demo_row_def)
  then show ?thesis
    using reservation_settles [OF demo_reserved_reach, of demo_row ReservationCommitted ReservationRefunded]
    by (auto simp: commit_budget_def refund_budget_def)
qed

end
