(* ===== verification/LocalSessions.thy ===== *)
theory LocalSessions
  imports LocalSafety LocalBudget
begin

text \<open>
  Where sessions and budgets meet (\<^verbatim>\<open>vigil-local/src/store.rs\<close>, \<^verbatim>\<open>budget.rs\<close>): a session starts with the budget of its
  profile and the standing of its workspace, and only a running, enforced session reserves. The control
  plane is the pair of its store and its budget tables, which are tables of one database.
\<close>

section \<open>Starting a session\<close>

definition WORKSPACE_STANDING_WINDOW_SECONDS :: int where "WORKSPACE_STANDING_WINDOW_SECONDS = 3600"
definition CHURN_THRESHOLD :: nat where "CHURN_THRESHOLD = 5"
definition CHURN_WINDOW_SECONDS :: int where "CHURN_WINDOW_SECONDS = 600"

record NewSession =
  ns_profile :: string
  ns_workspace :: string
  ns_executable :: string
  ns_argv :: "string list"
  ns_task :: "string option"
  ns_enforcement_posture :: string

type_synonym local_plane = "local_store \<times> budget_tables"

definition recorded_argv :: "local_env \<Rightarrow> string list \<Rightarrow> string list" where
  "recorded_argv e argv = (case argv of [] \<Rightarrow> [] | x # xs \<Rightarrow> excerpt_500 e x # map redact_low_entropy xs)"

definition starting_session :: "local_env \<Rightarrow> timestamp \<Rightarrow> NewSession \<Rightarrow> local_store \<Rightarrow> LocalSession" where
  "starting_session e wall r st =
     \<lparr>sn_id = fresh_id e ''ags_'' st, sn_created_at = wall, sn_ended_at = None, sn_profile = ns_profile r,
      sn_workspace = ns_workspace r, sn_executable = excerpt_500 e (ns_executable r), sn_argv = recorded_argv e (ns_argv r),
      sn_task = map_option (excerpt_500 e) (ns_task r), sn_enforcement_posture = ns_enforcement_posture r,
      sn_status = SessionStarting, sn_pid = None, sn_exit_code = None, sn_risk_state = RiskNormal\<rparr>"

text \<open>The newest other session of the workspace that was contained within the window.\<close>

definition contained_before :: "timestamp \<Rightarrow> LocalSession \<Rightarrow> local_store \<Rightarrow> LocalSession option" where
  "contained_before wall s st =
     (case sort_key (\<lambda>p. - sn_created_at p)
             (filter (\<lambda>p. sn_workspace p = sn_workspace s \<and> sn_id p \<noteq> sn_id s \<and>
                        wall - seconds WORKSPACE_STANDING_WINDOW_SECONDS < sn_created_at p \<and>
                        sn_risk_state p \<in> {RiskContained, RiskQuarantined}) (lt_sessions st)) of
        [] \<Rightarrow> None | p # _ \<Rightarrow> Some p)"

definition note_and_elevate ::
    "local_env \<Rightarrow> timestamp \<Rightarrow> string \<Rightarrow> string \<Rightarrow> json \<Rightarrow> string \<Rightarrow> local_store \<Rightarrow> (local_error + unit) \<times> local_store" where
  "note_and_elevate e wall i label evidence reason st =
     (case note_if_ruled e wall i label evidence st of
        (Inl err, st1) \<Rightarrow> (Inl err, st1)
      | (Inr _, st1) \<Rightarrow>
          (case escalate_risk_to e wall i RiskElevated reason st1 of
             (Inl err, st2) \<Rightarrow> (Inl err, st2)
           | (Inr _, st2) \<Rightarrow> (Inr (), st2)))"

definition inherit_containment :: "local_env \<Rightarrow> timestamp \<Rightarrow> LocalSession \<Rightarrow> local_store \<Rightarrow> (local_error + unit) \<times> local_store" where
  "inherit_containment e wall s st =
     (case contained_before wall s st of
        None \<Rightarrow> (Inr (), st)
      | Some prior \<Rightarrow>
          note_and_elevate e wall (sn_id s) ''workspace_standing_inherited''
            (JObj [(''workspace'', JStr (sn_workspace s)), (''prior_session'', JStr (sn_id prior)),
                   (''prior_risk_state'', JStr (risk_as_str (sn_risk_state prior))),
                   (''window_seconds'', JInt WORKSPACE_STANDING_WINDOW_SECONDS)])
            (''a session on this workspace reached '' @ risk_as_str (sn_risk_state prior) @ '' recently'') st)"

definition recent_sessions :: "timestamp \<Rightarrow> LocalSession \<Rightarrow> local_store \<Rightarrow> string list" where
  "recent_sessions wall s st =
     map sn_id (sort_key (\<lambda>p. - sn_created_at p)
       (filter (\<lambda>p. sn_workspace p = sn_workspace s \<and> wall - seconds CHURN_WINDOW_SECONDS < sn_created_at p) (lt_sessions st)))"

text \<open>What those sessions consumed, by the text of the dimension in order.\<close>

definition cumulative_consumption :: "string list \<Rightarrow> budget_tables \<Rightarrow> json" where
  "cumulative_consumption recent bt =
     JObj (List.map_filter (\<lambda>d.
       let rows = concat (map (\<lambda>i. filter (\<lambda>r. bc_session_id r = i \<and> bc_dimension r = d \<and> 0 < bc_consumed r) (bt_counters bt)) recent)
       in if rows = [] then None else Some (budget_text d, JInt (sum_list (map bc_consumed rows))))
       (sort_key budget_text budget_all))"

definition notice_session_churn ::
    "local_env \<Rightarrow> timestamp \<Rightarrow> LocalSession \<Rightarrow> budget_tables \<Rightarrow> local_store \<Rightarrow> (local_error + unit) \<times> local_store" where
  "notice_session_churn e wall s bt st =
     (let recent = recent_sessions wall s st
      in if length recent < CHURN_THRESHOLD then (Inr (), st)
         else note_and_elevate e wall (sn_id s) ''session_churn''
                (JObj [(''workspace'', JStr (sn_workspace s)), (''sessions_in_window'', JInt (int (length recent))),
                       (''window_seconds'', JInt CHURN_WINDOW_SECONDS), (''cumulative_consumption'', cumulative_consumption recent bt),
                       (''budgets_are_per_session_by_design'', JBool True)])
                (show_nat (length recent) @ '' sessions started on this workspace within '' @
                 show_int CHURN_WINDOW_SECONDS @ ''s'') st)"

definition apply_workspace_standing ::
    "local_env \<Rightarrow> timestamp \<Rightarrow> LocalSession \<Rightarrow> budget_tables \<Rightarrow> local_store \<Rightarrow> (local_error + unit) \<times> local_store" where
  "apply_workspace_standing e wall s bt st =
     (case inherit_containment e wall s st of
        (Inl err, st1) \<Rightarrow> (Inl err, st1)
      | (Inr _, st1) \<Rightarrow> notice_session_churn e wall s bt st1)"

text \<open>
  The row and its counters are one transaction, which fails when the identifier is taken; the standing of the
  workspace follows it.
\<close>

definition create_session :: "local_env \<Rightarrow> timestamp \<Rightarrow> NewSession \<Rightarrow> local_plane \<Rightarrow> (local_error + LocalSession) \<times> local_plane" where
  "create_session e wall r p =
     (let (st, bt) = p; s = starting_session e wall r st
      in case profile_from_str (ns_profile r) of
           None \<Rightarrow> (Inl (LocalConfig ''unknown local profile''), p)
         | Some profile \<Rightarrow>
             if sn_id s \<in> sn_id ` set (lt_sessions st) \<or> sn_id s \<in> bc_session_id ` set (bt_counters bt) then (Inl LocalStorage, p)
             else let bt1 = initialize_budget_rows (sn_id s) profile bt;
                      st1 = (id_drawn st)\<lparr>lt_sessions := lt_sessions st @ [s]\<rparr>
                  in case apply_workspace_standing e wall s bt1 st1 of
                       (Inl err, st2) \<Rightarrow> (Inl err, (st2, bt1))
                     | (Inr _, st2) \<Rightarrow> (Inr s, (st2, bt1)))"

section \<open>Reserving\<close>

datatype plane_error = StoreError local_error | BudgetError budget_error

definition require_active_semantic_session :: "local_store \<Rightarrow> string \<Rightarrow> plane_error + unit" where
  "require_active_semantic_session st i =
     (case session_of st i of
        None \<Rightarrow> Inl (StoreError (LocalNotFound ''local session''))
      | Some s \<Rightarrow>
          if sn_status s \<noteq> SessionRunning \<or> sn_enforcement_posture s \<noteq> ''semantic_enforced''
          then Inl (StoreError (LocalUnauthorized ''budget reservations require a running semantic-enforced session''))
          else Inr ())"

definition drawn_reservation ::
    "local_store \<Rightarrow> budget_error + (ReservationRow \<times> budget_tables) \<Rightarrow> budget_tables \<Rightarrow> (plane_error + ReservationRow) \<times> local_plane" where
  "drawn_reservation st result bt =
     (case result of
        Inl err \<Rightarrow> (Inl (BudgetError err), (st, bt))
      | Inr (r, bt') \<Rightarrow> (Inr r, (id_drawn st, bt')))"

definition reserve_budget ::
    "local_env \<Rightarrow> timestamp \<Rightarrow> string \<Rightarrow> string \<Rightarrow> BudgetCharge list \<Rightarrow> local_plane \<Rightarrow> (plane_error + ReservationRow) \<times> local_plane" where
  "reserve_budget e wall i correlation charges p =
     (let (st, bt) = p
      in case aggregate_charges charges of
           Inl err \<Rightarrow> (Inl (BudgetError err), p)
         | Inr aggregated \<Rightarrow>
             (case require_active_semantic_session st i of
                Inl err \<Rightarrow> (Inl err, p)
              | Inr _ \<Rightarrow>
                  drawn_reservation st (reserve_in_transaction (fresh_id e ''bres_'' st) wall i correlation aggregated bt) bt))"

definition reserve_network_budget ::
    "local_env \<Rightarrow> timestamp \<Rightarrow> string \<Rightarrow> string \<Rightarrow> string \<Rightarrow> local_plane \<Rightarrow> (plane_error + ReservationRow) \<times> local_plane" where
  "reserve_network_budget e wall i correlation key p =
     (let (st, bt) = p
      in if key = [] \<or> 512 < str_len key then (Inl (BudgetError BadDestinationKey), p)
         else case require_active_semantic_session st i of
                Inl err \<Rightarrow> (Inl err, p)
              | Inr _ \<Rightarrow> drawn_reservation st (reserve_network (fresh_id e ''bres_'' st) wall i correlation key bt) bt)"

section \<open>Proofs\<close>

lemma safe_note_elevate: "safe_step st (snd (note_and_elevate e wall i label evidence reason st))"
  unfolding note_and_elevate_def by (intro safe_bind safe_note safe_escalate safe_result)

lemma safe_inherit: "safe_step st (snd (inherit_containment e wall s st))"
  by (simp add: inherit_containment_def safe_note_elevate split: option.splits)

lemma safe_churn: "safe_step st (snd (notice_session_churn e wall s bt st))"
  by (simp add: notice_session_churn_def Let_def safe_note_elevate)

lemma safe_standing: "safe_step st (snd (apply_workspace_standing e wall s bt st))"
  unfolding apply_workspace_standing_def by (intro safe_bind safe_inherit safe_churn)

lemma safe_create_session: "safe_step (fst p) (fst (snd (create_session e wall r p)))"
proof -
  obtain st bt where p: "p = (st, bt)" by fastforce
  let ?s = "starting_session e wall r st"
  show ?thesis
  proof (cases "\<exists>profile. profile_from_str (ns_profile r) = Some profile \<and> sn_id ?s \<notin> sn_id ` set (lt_sessions st) \<and>
      sn_id ?s \<notin> bc_session_id ` set (bt_counters bt)")
    case False
    then have "snd (create_session e wall r p) = p" by (auto simp: create_session_def p Let_def split: option.splits)
    then show ?thesis by simp
  next
    case True
    then obtain profile where t: "profile_from_str (ns_profile r) = Some profile" "sn_id ?s \<notin> sn_id ` set (lt_sessions st)"
      "sn_id ?s \<notin> bc_session_id ` set (bt_counters bt)" by blast
    let ?st1 = "(id_drawn st)\<lparr>lt_sessions := lt_sessions st @ [?s]\<rparr>" and ?bt1 = "initialize_budget_rows (sn_id ?s) profile bt"
    have "safe_step (id_drawn st) ?st1"
      using safe_session [of ?s "id_drawn st"] t(2) by (simp add: id_drawn_def)
    then have "safe_step st ?st1" using safe_trans same_authority_safe [OF same_authority_drawn] by blast
    moreover have "fst (snd (create_session e wall r p)) = snd (apply_workspace_standing e wall ?s ?bt1 ?st1)"
      using t by (auto simp: create_session_def p Let_def split: sum.splits prod.splits)
    ultimately show ?thesis using safe_standing safe_trans p by fastforce
  qed
qed

lemma elevates:
  assumes "note_and_elevate e wall i label evidence reason st = (Inr u, st')" "session_risk_state st' i = Inr risk"
  shows "RiskElevated \<le> risk"
proof -
  obtain st1 r where "escalate_risk_to e wall i RiskElevated reason st1 = (Inr r, st')"
    using assms(1) by (auto simp: note_and_elevate_def split: prod.splits sum.splits)
  then show ?thesis
    using assms(2) by (auto simp: escalate_risk_to_def raise_risk_parts split: sum.splits if_splits)
qed

lemma contained_before_found:
  assumes "prior \<in> set (lt_sessions st)" "sn_workspace prior = sn_workspace s" "sn_id prior \<noteq> sn_id s"
    "wall - seconds WORKSPACE_STANDING_WINDOW_SECONDS < sn_created_at prior" "sn_risk_state prior \<in> {RiskContained, RiskQuarantined}"
  shows "contained_before wall s st \<noteq> None"
proof -
  let ?c = "sort_key (\<lambda>p. - sn_created_at p)
             (filter (\<lambda>p. sn_workspace p = sn_workspace s \<and> sn_id p \<noteq> sn_id s \<and>
                        wall - seconds WORKSPACE_STANDING_WINDOW_SECONDS < sn_created_at p \<and>
                        sn_risk_state p \<in> {RiskContained, RiskQuarantined}) (lt_sessions st))"
  have "prior \<in> set ?c" using assms by simp
  then have "?c \<noteq> []" by (metis empty_iff empty_set)
  then obtain p rest where "?c = p # rest" by (meson neq_Nil_conv)
  then show ?thesis by (simp add: contained_before_def)
qed

lemma created:
  assumes "create_session e wall r (st, bt) = (Inr s, (st', bt'))"
  obtains profile st1 u1 u2 where "profile_from_str (ns_profile r) = Some profile" "s = starting_session e wall r st"
    "sn_id s \<notin> sn_id ` set (lt_sessions st)" "sn_id s \<notin> bc_session_id ` set (bt_counters bt)"
    "bt' = initialize_budget_rows (sn_id s) profile bt"
    "inherit_containment e wall s ((id_drawn st)\<lparr>lt_sessions := lt_sessions st @ [s]\<rparr>) = (Inr u1, st1)"
    "notice_session_churn e wall s bt' st1 = (Inr u2, st')"
  using assms unfolding create_session_def apply_workspace_standing_def Let_def prod.case
  by (auto split: option.splits if_splits sum.splits prod.splits)

lemma created_session_known:
  assumes "sn_id s \<notin> sn_id ` set (lt_sessions st)"
  shows "session_risk_state (st\<lparr>lt_sessions := lt_sessions st @ [s]\<rparr>) (sn_id s) = Inr (sn_risk_state s)"
proof -
  have "map_of (map (\<lambda>s. (sn_id s, sn_risk_state s)) (lt_sessions st)) (sn_id s) = None"
    using assms by (auto simp: map_of_eq_None_iff image_image)
  then show ?thesis by (simp add: risk_by_map_of map_add_def)
qed

lemma create_session_accounts:
  "\<lbrakk>accounts_reach bt; create_session e wall r (st, bt) = (Inr s, (st', bt'))\<rbrakk> \<Longrightarrow> accounts_reach bt'"
  by (erule created) (simp add: reach_session)

lemma reserve_budget_accounts:
  assumes "accounts_reach bt" "fresh_id e ''bres_'' st \<notin> br_id ` set (bt_reservations bt)"
    and "reserve_budget e wall i correlation charges (st, bt) = (Inr r, (st', bt'))"
  shows "accounts_reach bt'"
proof -
  have "reserve_charges (fresh_id e ''bres_'' st) wall i correlation charges bt = Inr (r, bt')"
    using assms(3) by (auto simp: reserve_budget_def drawn_reservation_def reserve_charges_def rbind_def split: sum.splits)
  then show ?thesis using reach_reserve [OF assms(1,2)] by blast
qed

section \<open>Properties\<close>

text \<open>
  Starting again does not shed containment. A session created on a workspace where another session, created
  within the hour, is contained or quarantined starts at elevated risk at least, so that no change of the workspace
  is allowed to it without a human.
\<close>

theorem containment_inherited:
  assumes "create_session e wall r (st, bt) = (Inr s, (st', bt'))"
    and "prior \<in> set (lt_sessions st)" "sn_workspace prior = ns_workspace r"
    and "wall - seconds WORKSPACE_STANDING_WINDOW_SECONDS < sn_created_at prior"
    and "sn_risk_state prior \<in> {RiskContained, RiskQuarantined}" "is_workspace_mutation a"
  shows "\<exists>risk. session_risk_state st' (sn_id s) = Inr risk \<and> RiskElevated \<le> risk \<and> \<not> risk_admits risk a"
proof -
  obtain st1 u1 u2 where s: "s = starting_session e wall r st" "sn_id s \<notin> sn_id ` set (lt_sessions st)"
    and i: "inherit_containment e wall s ((id_drawn st)\<lparr>lt_sessions := lt_sessions st @ [s]\<rparr>) = (Inr u1, st1)"
    and c: "notice_session_churn e wall s bt' st1 = (Inr u2, st')"
    using created [OF assms(1)] by metis
  let ?st = "(id_drawn st)\<lparr>lt_sessions := lt_sessions st @ [s]\<rparr>"
  have "sn_id prior \<noteq> sn_id s" using assms(2) s(2) by (metis image_eqI)
  then have "contained_before wall s ?st \<noteq> None"
    using assms(2-5) by (intro contained_before_found [of prior]) (simp_all add: s(1) starting_session_def)
  then obtain label evidence reason where n: "note_and_elevate e wall (sn_id s) label evidence reason ?st = (Inr u1, st1)"
    using i by (auto simp: inherit_containment_def split: option.splits)
  have "session_risk_state ?st (sn_id s) = Inr (sn_risk_state s)"
    using created_session_known [of s "id_drawn st"] s(2) by (simp add: id_drawn_def)
  then obtain r1 where r1: "session_risk_state st1 (sn_id s) = Inr r1"
    using session_kept [OF safe_note_elevate [THEN safe_snd, OF n]] by blast
  then obtain risk where risk: "session_risk_state st' (sn_id s) = Inr risk" "r1 \<le> risk"
    using safe_churn [THEN safe_snd, OF c] unfolding safe_step_def store_le_def by blast
  have "RiskElevated \<le> risk" using elevates [OF n r1] risk(2) by simp
  moreover have "\<not> risk_admits RiskElevated a" using assms(6) by (simp add: risk_admits_def)
  ultimately show ?thesis using risk(1) risk_admits_antitone by blast
qed

definition demo_contained :: local_store where
  "demo_contained = empty_store\<lparr>lt_sessions := [demo_session\<lparr>sn_risk_state := RiskContained\<rparr>]\<rparr>"

definition demo_new_session :: NewSession where
  "demo_new_session = \<lparr>ns_profile = ''research'', ns_workspace = ''/w'', ns_executable = ''/x'', ns_argv = [], ns_task = None,
     ns_enforcement_posture = ''semantic_enforced''\<rparr>"

lemma demo_created:
  "\<exists>s st' bt'. create_session demo_local_env 1 demo_new_session (demo_contained, \<lparr>bt_counters = [], bt_reservations = [], bt_claims = []\<rparr>) =
     (Inr s, (st', bt'))"
proof -
  have "profile_from_str ''research'' = Some Research" by code_simp
  then show ?thesis
    by (simp add: create_session_def demo_new_session_def demo_contained_def starting_session_def fresh_id_def demo_local_env_def
      demo_session_def empty_store_def apply_workspace_standing_def inherit_containment_def note_and_elevate_def note_if_ruled_def
      record_detection_def session_of_def contained_before_def seconds_def nanos_per_second_def WORKSPACE_STANDING_WINDOW_SECONDS_def
      notice_session_churn_def recent_sessions_def escalate_risk_to_def id_drawn_def session_risk_state_def Let_def raise_risk_def
      update_session_def CHURN_THRESHOLD_def CHURN_WINDOW_SECONDS_def less_eq_RiskState_def revokes_leases_def split: option.splits)
qed

theorem containment_inherited_witness:
  "\<exists>s st' bt' risk. create_session demo_local_env 1 demo_new_session (demo_contained, \<lparr>bt_counters = [], bt_reservations = [], bt_claims = []\<rparr>) =
     (Inr s, (st', bt')) \<and> session_risk_state st' (sn_id s) = Inr risk \<and> \<not> risk_admits risk FsWrite"
proof -
  obtain s st' bt' where c: "create_session demo_local_env 1 demo_new_session
      (demo_contained, \<lparr>bt_counters = [], bt_reservations = [], bt_claims = []\<rparr>) = (Inr s, (st', bt'))"
    using demo_created by blast
  let ?p = "demo_session\<lparr>sn_risk_state := RiskContained\<rparr>"
  have "?p \<in> set (lt_sessions demo_contained)" "sn_workspace ?p = ns_workspace demo_new_session"
    "1 - seconds WORKSPACE_STANDING_WINDOW_SECONDS < sn_created_at ?p" "sn_risk_state ?p \<in> {RiskContained, RiskQuarantined}"
    "is_workspace_mutation FsWrite"
    by (simp_all add: demo_contained_def demo_new_session_def demo_session_def seconds_def nanos_per_second_def
        WORKSPACE_STANDING_WINDOW_SECONDS_def is_workspace_mutation_def)
  then show ?thesis using containment_inherited [OF c] c by blast
qed

end
