(* ===== verification/Spec2Isabelle.thy ===== *)
theory Spec2Isabelle
  imports AuditLog Commands Decide Flows Gateway LocalReconcile LocalSessions
begin

text \<open>
  A verification development of VIGIL, a policy enforcement system for AI agents: an agent proposes
  an action, VIGIL Core decides on it, a gateway executes it only behind a capability, and adapters on
  the host confine the processes and network flows of managed agents.

  \<^bold>\<open>How the parts interact.\<close> A caller authenticates (\<^verbatim>\<open>vigil-identity\<close>, \<^verbatim>\<open>vigil-core/src/auth.rs\<close>) and sends an
  action request (\<^verbatim>\<open>vigil-protocol\<close>). The pipeline (\<^verbatim>\<open>vigil-core/src/pipeline.rs\<close>) hashes the canonical form of the
  action, looks up the tool manifest, evaluates policy, remit, budget, provenance and detectors, merges
  their verdicts by restrictiveness, redeems a presented approval, and for a permitted action mints a signed
  capability. The gateway (\<^verbatim>\<open>vigil-gateway\<close>) recomputes the hash, verifies and spends the capability and
  invokes the tool. Every step can be recorded in a hash-chained log (\<^verbatim>\<open>vigil-audit\<close>). On the host, the
  endpoint and network extensions (\<^verbatim>\<open>vigil-endpoint\<close>, \<^verbatim>\<open>vigil-network\<close>) hold signed policy snapshots and
  decide events of processes and flows by themselves.

  \<^bold>\<open>Theories and the sources they model.\<close>
  \<^item> \<open>Prelude\<close>: results and the question-mark operator, machine integers, instants, Rust string functions,
    doubles without rounding, hash maps (locale \<open>hash_map\<close>, interpreted on association lists).
  \<^item> \<open>Decisions\<close>, \<open>Reasons\<close>, \<open>Actions\<close>: \<^verbatim>\<open>vigil-protocol/src/{decision,trust,reason,action,principal,lib}.rs\<close>. The
    merges of decisions and of trust levels interpret the locale \<open>ranked_merge\<close>.
  \<^item> \<open>Globs\<close>, \<open>Policy\<close>: \<^verbatim>\<open>vigil-policy/src/{glob,request,rules,lib}.rs\<close>. The two-pointer matcher equals a reference
    meaning of patterns; evaluation resolves to the most restrictive enforced matching rule.
  \<^item> \<open>Paths\<close>: \<^verbatim>\<open>vigil-common/src/path.rs\<close>. \<open>Canonical\<close>: \<^verbatim>\<open>canonical.rs\<close>, \<^verbatim>\<open>hash.rs\<close> and the action hash; canonical text
    determines a value, and the hash binds every material field unless the digest collides.
  \<^item> \<open>Remit\<close>: \<^verbatim>\<open>vigil-remit/src/{schema,lib,budget}.rs\<close>, the remit and its budget ledger, with sequential and
    concurrent charging.
  \<^item> \<open>Capability\<close>: \<^verbatim>\<open>vigil-capability/src\<close>; the nonce store is the locale \<open>nonce_store\<close>. \<open>Approval\<close>:
    \<^verbatim>\<open>vigil-core/src/approval.rs\<close>, a step relation over histories of the service.
  \<^item> \<open>Trace\<close>: \<^verbatim>\<open>vigil-trace/src/{flow,lib}.rs\<close>. \<open>Risk\<close>: \<^verbatim>\<open>vigil-protocol/src/detector.rs\<close>, \<^verbatim>\<open>vigil-core/src/risk.rs\<close> and the
    detector registry. \<open>Manifests\<close>, \<open>Sessions\<close>: \<^verbatim>\<open>vigil-core/src/{manifest,session}.rs\<close>.
  \<^item> \<open>Redact\<close>, \<open>Dlp\<close>, \<open>Network\<close>, \<open>Commands\<close>: \<^verbatim>\<open>vigil-common/src/{redact,time}.rs\<close>, \<^verbatim>\<open>vigil-detect/src/{dlp,network,command}.rs\<close>.
  \<^item> \<open>Identity\<close>: \<^verbatim>\<open>vigil-identity/src/lib.rs\<close>, \<^verbatim>\<open>vigil-core/src/auth.rs\<close>; the trait \<^verbatim>\<open>Authenticator\<close> is a locale.
  \<^item> \<open>Pipeline\<close>, \<open>Decide\<close>: \<^verbatim>\<open>vigil-core/src/pipeline.rs\<close> with \<^verbatim>\<open>config.rs\<close>: the stages and their composition, then
    what a decision guarantees, over single calls and over histories of calls.
  \<^item> \<open>AuditLog\<close>: \<^verbatim>\<open>vigil-audit/src/{lib,sink}.rs\<close>, \<^verbatim>\<open>vigil-protocol/src/event.rs\<close>: the chain, its file, recovery and
    verification.
  \<^item> \<open>Gateway\<close>: \<^verbatim>\<open>vigil-gateway/src/{lib,broker,tools,api}.rs\<close>; a tool is a function on the outside world.
  \<^item> \<open>Endpoint\<close>: \<^verbatim>\<open>vigil-endpoint/src/lib.rs\<close>; reachable fast paths are an inductive predicate, and the simulator
    refines an abstract specification by descent from bound roots.
  \<^item> \<open>Envelopes\<close>: \<^verbatim>\<open>vigil-endpoint/src/snapshot.rs\<close>, with the locale \<open>policy_verifier\<close>; \<open>Flows\<close>: \<^verbatim>\<open>vigil-network/src/{lib,signed}.rs\<close>,
    which interprets it a second time; budgets over histories of flows and installations.
  \<^item> \<open>LocalPolicy\<close>: \<^verbatim>\<open>vigil-local/src/policy.rs\<close>, with the operating system as a record of functions. \<open>LocalRules\<close>: the
    detection catalogue of \<^verbatim>\<open>detection.rs\<close> and the modules that own rules.
  \<^item> \<open>LocalStore\<close>: the tables of \<^verbatim>\<open>store.rs\<close>, \<^verbatim>\<open>risk.rs\<close>, \<^verbatim>\<open>lease.rs\<close>, \<^verbatim>\<open>clock.rs\<close>, \<^verbatim>\<open>detection.rs\<close> and \<^verbatim>\<open>incident.rs\<close> as one
    record, a transaction as one step on it. \<open>LocalAuthorize\<close>: \<^verbatim>\<open>approval.rs\<close> and \<^verbatim>\<open>authorize.rs\<close>. \<open>LocalSafety\<close>: what every
    sequence of operations keeps. \<open>LocalBudget\<close>: \<^verbatim>\<open>budget.rs\<close>. \<open>LocalSessions\<close>: how sessions start and reserve.
    \<open>LocalMcp\<close>: \<^verbatim>\<open>mcp.rs\<close>, the registry of MCP servers and tools beside the store and the authorization of their calls.
    \<open>LocalChain\<close>: the event log of \<^verbatim>\<open>store.rs\<close>, its verification and \<^verbatim>\<open>checkpoint.rs\<close>. \<open>LocalReconcile\<close>: \<^verbatim>\<open>reconcile.rs\<close>, what a
    session declared against what the operating system observed.
  \<^item> This theory: properties that span the pipeline and the gateway.

  \<^bold>\<open>What the theorems show.\<close> End to end, an executed action was permitted by a decision for materially the same
  request, a capability of a permitted decision executes under stated conditions, and a gated action needs a human. Per
  component: the decision is the strictest verdict, refusals stand, terminated sessions stay closed, and it is stated exactly
  which requests are answered; capabilities and approvals are single-use and bound to their transaction; canonical text
  and hash are faithful; budgets are bounded, with the exact overshoot of concurrent charging; logs verify and
  verified prefixes are authentic; managed processes and flows are confined, budgets are not refilled and
  policies not rolled back. On the local control plane, allowed actions rest on the policy or on a fresh human grant, only sealing
  lowers a risk, leases are spent together or not at all, and reservations add up. Where the code does less than its comments say, a theorem states what it does.

  \<^bold>\<open>Parameters and bounds.\<close> Ed25519, SHA-256, Base64, serde, YAML, regular expressions, URL parsing, clocks, random
  generators and the operating system are arguments; what is relied on (a signature verifies, a digest does not
  collide, decoding inverts encoding) is a named hypothesis, with a concrete instance in each witness. Loops are
  total functions with a measure; no fuel is used. A character is a Unicode scalar below 256, a length in
  bytes is its UTF-8 length. A double is a rational, an infinity or not a number, without rounding. A lock is
  one atomic step; a poisoned lock is a flag. Unforgeability is only assumed of the tokens and checkpoints that are presented.

  \<^bold>\<open>Not modelled.\<close> Injection heuristics and Unicode normalization (\<^verbatim>\<open>vigil-detect/src/{injection,normalize}.rs\<close>) need
  Unicode tables. HTTP, TLS and process start-up (\<^verbatim>\<open>vigil-core/src/{api,server}.rs\<close>, binaries), the daemon's
  inter-process communication and the command line are input and output around modelled operations.
  Of \<^verbatim>\<open>vigil-local\<close> the brokers, which act on files, processes, sockets and the keychain of the host, schema
  migration, the sequence heuristics of \<^verbatim>\<open>sequence.rs\<close> and read-only listings are not modelled.
\<close>

section \<open>From a decision to an execution\<close>

text \<open>
  The pipeline and the gateway each derive the target of an action. They agree except on a database
  operation that names its database: the pipeline binds the name, the gateway presents none.
\<close>

definition names_database :: "Action \<Rightarrow> bool" where
  "names_database a \<longleftrightarrow> (case a of ActDatabase d \<Rightarrow> db_database d \<noteq> None | _ \<Rightarrow> False)"

lemma presented_matches:
  "\<not> names_database (ar_action r) \<Longrightarrow> presented_for (capability_claims_for c r h rv pd ap) = presented_action r h"
  by (cases "ar_action r")
     (simp_all add: names_database_def presented_for_def capability_claims_for_def presented_action_def gateway_tool_id_def gateway_target_def)

lemma issued_presented: "presented_for (issued_claims now nonce c ttl) = presented_for c"
  by (simp add: presented_for_def issued_claims_def Let_def)

lemma presented_binds: "check_binding (issued_claims now nonce c ttl) (presented_for c) = Inr ()"
  by (simp add: check_binding_ok issued_claims_def Let_def presented_for_def)

text \<open>The claims a decision signs when it permits the request.\<close>

definition decided_claims :: "('sk, 'vk) core_env \<Rightarrow> core_call \<Rightarrow> AuthenticatedRequest \<Rightarrow> ContentHash \<Rightarrow> core_state \<Rightarrow> CapabilityClaims" where
  "decided_claims e c auth h st =
     issued_claims (ca_issued c) (ca_nonce c)
       (capability_claims_for c (au_request auth) h
          (snd (registry_evaluate (ce_remits e) (ar_agent_id (au_request auth)) (ar_action (au_request auth))))
          (ev_policy (live_evaluation e c (au_request auth) h st)) (live_approval e c (au_request auth) h st))
       (co_capability_ttl_seconds (ce_config e))"

lemma decided_token:
  assumes "decide e c auth st = (Inr oc, st')" "rs_capability (oc_response oc) = Some token"
  obtains h where "request_action_hash (ce_format e) (ce_sha e) (au_request auth) = Inr h"
    "issue (ce_crypto e) (ce_format e) (ce_issuer e) (ca_issued c) (ca_nonce c)
       (capability_claims_for c (au_request auth) h
          (snd (registry_evaluate (ce_remits e) (ar_agent_id (au_request auth)) (ar_action (au_request auth))))
          (ev_policy (live_evaluation e c (au_request auth) h st)) (live_approval e c (au_request auth) h st))
       (co_capability_ttl_seconds (ce_config e)) = Inr (token, decided_claims e c auth h st)"
proof -
  obtain h claims where h: "request_action_hash (ce_format e) (ce_sha e) (au_request auth) = Inr h"
    "issue (ce_crypto e) (ce_format e) (ce_issuer e) (ca_issued c) (ca_nonce c)
       (capability_claims_for c (au_request auth) h
          (snd (registry_evaluate (ce_remits e) (ar_agent_id (au_request auth)) (ar_action (au_request auth))))
          (ev_policy (live_evaluation e c (au_request auth) h st)) (live_approval e c (au_request auth) h st))
       (co_capability_ttl_seconds (ce_config e)) = Inr (token, claims)"
    using assms by (rule live_allowed)
  then have "claims = decided_claims e c auth h st"
    by (auto simp: issue_def decided_claims_def Let_def split: sum.splits)
  with h that show thesis by blast
qed

lemma decided_binds:
  assumes "\<not> names_database (ar_action (au_request auth))"
  shows "check_binding (decided_claims e c auth h st) (presented_action (au_request auth) h) = Inr ()"
  unfolding decided_claims_def using presented_binds presented_matches [OF assms] by metis

text \<open>
  The claims a gateway accepts were minted by a decision of the given log: no signature is forged and no
  other issuer holds a trusted key.
\<close>

type_synonym ('sk, 'vk) decision_log = "(('sk, 'vk) core_env \<times> core_call \<times> AuthenticatedRequest \<times> core_state) list"

definition minted :: "number_format \<Rightarrow> (u8 list \<Rightarrow> string) \<Rightarrow> ('sk, 'vk) decision_log \<Rightarrow> CapabilityClaims \<Rightarrow> bool" where
  "minted nf sha ds claims \<longleftrightarrow>
     (\<exists>(e, c, auth, st) \<in> set ds. \<exists>oc st' h. decide e c auth st = (Inr oc, st') \<and>
        rs_capability (oc_response oc) \<noteq> None \<and> ce_format e = nf \<and> ce_sha e = sha \<and>
        request_action_hash nf sha (au_request auth) = Inr h \<and> claims = decided_claims e c auth h st)"

lemma minted_target:
  "check_binding (decided_claims e c auth h st) (presented_action r h') = Inr () \<Longrightarrow> \<not> names_database (ar_action (au_request auth))"
proof
  assume b: "check_binding (decided_claims e c auth h st) (presented_action r h') = Inr ()"
    and n: "names_database (ar_action (au_request auth))"
  then obtain d name where d: "ar_action (au_request auth) = ActDatabase d" "db_database d = Some name"
    by (auto simp: names_database_def split: Action.splits)
  have "action_kind (ar_action r) = ''database''" "gateway_target (ar_action r) = Some name"
    using b d by (auto simp: check_binding_ok decided_claims_def issued_claims_def capability_claims_for_def
        presented_action_def Let_def)
  then show False by (cases "ar_action r") (simp_all add: gateway_target_def)
qed

lemma hash_material:
  assumes "decimal_rendering nf" "\<not> collision sha"
    "request_action_hash nf sha r = Inr h" "request_action_hash nf sha r' = Inr h"
  shows "action_norm (ar_action r) = action_norm (ar_action r')"
proof -
  have eq: "jnorm (request_material_projection r) = jnorm (request_material_projection r')"
    using assms(3,4) unfolding request_action_hash_def by (rule hash_commits [OF assms(1,2)])
  have "jnorm (material_projection (ar_action r)) = jnorm (material_projection (ar_action r'))"
    using arg_cong [OF eq, of "\<lambda>j. obj_get j ''action''"]
    by (simp add: request_material_projection_def obj_get_jnorm del: jnorm.simps(3))
  then show ?thesis using projection_binds by blast
qed

lemma decided_constraints:
  assumes "decide e c auth st = (Inr oc, st')" "rs_capability (oc_response oc) = Some token"
    "request_action_hash (ce_format e) (ce_sha e) (au_request auth) = Inr h"
  shows "cc_constraints (decided_claims e c auth h st) = rs_constraints (oc_response oc)"
  using assms(1)
proof (cases rule: decide_answer)
  case (terminated h')
  then show ?thesis using assms(2) by simp
next
  case (live h' st1 cap req st2)
  then show ?thesis
    using assms(3) by (simp add: decided_claims_def issued_claims_def capability_claims_for_def outcome_of_def Let_def)
qed

lemma gate_needs_approval:
  assumes "decide e c auth st = (Inr oc, st')" "rs_capability (oc_response oc) = Some token"
    "request_action_hash (ce_format e) (ce_sha e) (au_request auth) = Inr h"
    "live_approval e c (au_request auth) h st = None"
  shows "\<not> needs_approval e (ar_action (au_request auth))"
    "pd_decision (ev_policy (live_evaluation e c (au_request auth) h st)) \<noteq> RequireApproval"
    "remit_stage e (au_request auth) \<noteq> RequireApproval"
proof -
  let ?ev = "live_evaluation e c (au_request auth) h st"
  have p: "permits_execution (ev_decision ?ev)"
    using live_allowed [OF assms(1,2)] assms(3) by (metis Inr_inject)
  have ne: "verdicts (needs_approval e (ar_action (au_request auth))) False ?ev \<noteq> []" by (simp add: verdicts_def)
  have v: "\<forall>v \<in> set (verdicts (needs_approval e (ar_action (au_request auth))) False ?ev). permits_execution v"
    using resolve_permits [OF p [unfolded live_evaluation_simps(4) assms(4)]] ne assms(4) by simp
  then show "\<not> needs_approval e (ar_action (au_request auth))" "pd_decision (ev_policy ?ev) \<noteq> RequireApproval"
    "remit_stage e (au_request auth) \<noteq> RequireApproval"
    by (auto simp: verdicts_def live_evaluation_simps split: if_splits)
qed

section \<open>A sample core and gateway\<close>

text \<open>Core and gateway share a token format in which every claim set reads back as the decided claims.\<close>

definition sample_decided :: CapabilityClaims where
  "sample_decided = decided_claims (sample_env (Some (sample_policy Allow))) sample_core_call sample_auth sample_hash sample_state"

definition sample_wire :: "(unit, unit) crypto" where
  "sample_wire = hex_crypto\<lparr>claims_parse := (\<lambda>b. Some sample_decided)\<rparr>"

definition sample_core :: "(unit, unit) core_env" where
  "sample_core = sample_env_with sample_wire (Some (sample_policy Allow))"

definition sample_door :: "(unit, unit, RecordedInvocation list) gateway_env" where
  "sample_door = \<lparr>ge_crypto = sample_wire, ge_verifier = sample_verifier, ge_format = sample_format, ge_sha = (\<lambda>b. ''00''),
     ge_tools = [(resource_name (ar_action (au_request sample_auth)), recording_invoke JNull)],
     ge_canon = (\<lambda>p. None), ge_codec = sample_codec, ge_marks = sample_marks, ge_rfc3339 = (\<lambda>t. ''now''),
     ge_parse_error = (\<lambda>b. ''error'')\<rparr>"

lemma sample_core_decides:
  obtains oc st' token where "decide sample_core sample_core_call sample_auth sample_state = (Inr oc, st')"
    "rs_capability (oc_response oc) = Some token"
proof -
  have "claims_value sample_wire = (\<lambda>c. JNull)" by (simp add: sample_wire_def hex_claims_value)
  then obtain oc st' where d: "decide sample_core sample_core_call sample_auth sample_state = (Inr oc, st')"
    unfolding sample_core_def using sample_answers_with [OF sample_state_usable] by metis
  then obtain token where "rs_capability (oc_response oc) = Some token"
    unfolding sample_core_def by (rule sample_allowed)
  with d that show thesis by blast
qed

lemma sample_core_claims: "decided_claims sample_core sample_core_call sample_auth sample_hash sample_state = sample_decided"
proof -
  have "ev_policy (live_evaluation (sample_env_with k pd) c r h st) = (case pd of Some d \<Rightarrow> d | None \<Rightarrow> policy_unavailable ''b1'')" for k pd c r h st
    by (simp add: live_evaluation_simps policy_stage_def sample_env_with_def split: option.splits)
  moreover have "live_approval (sample_env_with k pd) sample_core_call (au_request sample_auth) sample_hash sample_state = None" for k pd
    by (rule sample_open)
  ultimately show ?thesis
    by (simp add: sample_decided_def decided_claims_def sample_core_def) (simp add: sample_env_with_def)
qed

lemma sample_core_hash: "request_action_hash (ce_format sample_core) (ce_sha sample_core) (au_request sample_auth) = Inr sample_hash"
  using sample_ready(3) by (simp add: sample_core_def)

lemma sample_decided_fields: "cc_constraints sample_decided = []" "cc_nonce sample_decided = ''n1''" "cc_max_uses sample_decided = 1"
  "cc_issued_at sample_decided = 2" "cc_expires_at sample_decided = 2 + seconds 60"
  by (simp_all add: sample_decided_def decided_claims_def issued_claims_def capability_claims_for_def Let_def live_evaluation_simps
      policy_stage_def sample_policy_def sample_core_call_def config_development_def config_default_def
      DEFAULT_CAPABILITY_TTL_SECONDS_def clamp_def MAX_CAPABILITY_TTL_SECONDS_def)

lemma sample_core_facts:
  "crypto_laws sample_wire" "ce_crypto sample_core = sample_wire" "ce_format sample_core = sample_format"
  "ce_sha sample_core = (\<lambda>b. ''00'')" "ce_issuer sample_core = \<lparr>ci_key_id = ''k1'', ci_key = ()\<rparr>"
  "header_parse sample_wire (header_json sample_wire \<lparr>th_alg = ALG_ED25519, th_kid = ''k1''\<rparr>) =
     Some \<lparr>th_alg = ALG_ED25519, th_kid = ''k1''\<rparr>"
  "claims_parse sample_wire b = Some sample_decided"
  "ca_issued sample_core_call = 2" "ca_nonce sample_core_call = ''n1''"
  "co_capability_ttl_seconds (ce_config sample_core) = 60" "\<not> names_database (ar_action (au_request sample_auth))"
proof -
  show "crypto_laws sample_wire"
    by (simp add: crypto_laws_def sample_wire_def hex_crypto_def sample_crypto_def hex_decode_encode hex_encode_no_dot)
  show "\<not> names_database (ar_action (au_request sample_auth))" by code_simp
qed (simp_all add: sample_core_def sample_wire_def hex_crypto_def sample_crypto_def sample_header_def ALG_ED25519_def sample_core_call_def
      config_development_def config_default_def DEFAULT_CAPABILITY_TTL_SECONDS_def)

lemma sample_door_facts:
  "ge_crypto sample_door = sample_wire" "ge_format sample_door = sample_format" "ge_sha sample_door = (\<lambda>b. ''00'')"
  "hm_get (cv_keys (ge_verifier sample_door)) ''k1'' = Some (ed_public sample_wire ())"
  "tool_get (ge_tools sample_door) (resource_name (ar_action (au_request sample_auth))) = Some (recording_invoke JNull)"
  "\<not> cb_by_tool_poisoned (gs_broker sample_gate_state)" "\<not> ns_poisoned (gs_nonces sample_gate_state)"
  "hm_get (ns_entries (gs_nonces sample_gate_state)) n = None" "seconds (clamp 60 1 MAX_CAPABILITY_TTL_SECONDS) > 1"
proof -
  show "tool_get (ge_tools sample_door) (resource_name (ar_action (au_request sample_auth))) = Some (recording_invoke JNull)"
    by (simp add: sample_door_def tool_get_def hm_get_def)
qed (simp_all add: sample_door_def sample_verifier_def trust_key_def sample_gate_state_def broker_new_def
      nonce_store_new_def seconds_def nanos_per_second_def clamp_def MAX_CAPABILITY_TTL_SECONDS_def)

lemma sample_core_token:
  assumes "decide sample_core sample_core_call sample_auth sample_state = (Inr oc, st')" "rs_capability (oc_response oc) = Some token"
  shows "str_len token \<le> MAX_TOKEN_BYTES"
proof -
  have "token = token_encode hex_crypto \<lparr>th_alg = ALG_ED25519, th_kid = ''k1''\<rparr> (utf8 ''null'') (replicate 64 0)"
    using assms
    by (rule decided_token)
       (auto simp: sample_core_facts issue_def Let_def sample_wire_def hex_crypto_def sample_crypto_def canonical_bytes_def
          canonicalize_def token_encode_def)
  moreover have "str_len (token_encode hex_crypto \<lparr>th_alg = ALG_ED25519, th_kid = ''k1''\<rparr> (utf8 ''null'') (replicate 64 0)) \<le> MAX_TOKEN_BYTES"
    by code_simp
  ultimately show ?thesis by simp
qed

definition sample_door_token :: string where
  "sample_door_token = token_encode hex_crypto \<lparr>th_alg = ALG_ED25519, th_kid = ''k1''\<rparr> (utf8 ''null'') (replicate 64 0)"

lemma sample_door_parse:
  "token_parse sample_wire sample_door_token = Inr \<lparr>pt_header = \<lparr>th_alg = ALG_ED25519, th_kid = ''k1''\<rparr>, pt_claims_json = utf8 ''null'',
     pt_signature = replicate 64 0, pt_signed_payload = signing_input (b64_encode hex_crypto (header_json hex_crypto \<lparr>th_alg = ALG_ED25519, th_kid = ''k1''\<rparr>)) (b64_encode hex_crypto (utf8 ''null''))\<rparr>"
proof -
  have "str_len sample_door_token \<le> MAX_TOKEN_BYTES" by code_simp
  then show ?thesis
    using token_parse_encode [of sample_wire "\<lparr>th_alg = ALG_ED25519, th_kid = ''k1''\<rparr>" "utf8 ''null''" "replicate 64 0"]
      sample_core_facts(1,2,6)
    by (simp add: sample_door_token_def token_encode_def sample_wire_def)
qed

lemma sample_door_authenticates:
  "authenticate_token (ge_crypto sample_door) (ge_verifier sample_door) 3 sample_door_token (presented_action (au_request sample_auth) sample_hash) =
     Inr sample_decided"
proof -
  have "check_lifetime sample_decided 3 (cv_leeway_seconds (ge_verifier sample_door)) = Inr ()"
    by (simp add: check_lifetime_ok sample_decided_fields sample_door_def sample_verifier_def trust_key_def verifier_new_def
        MAX_CAPABILITY_TTL_SECONDS_def CLOCK_SKEW_LEEWAY_SECONDS_def) (simp add: seconds_def nanos_per_second_def)
  moreover have "check_binding sample_decided (presented_action (au_request sample_auth) sample_hash) = Inr ()"
    unfolding sample_decided_def by (rule decided_binds [OF sample_core_facts(11)])
  moreover have "ed_verify sample_wire () m (replicate 64 0)" for m
    by (simp add: sample_wire_def hex_crypto_def sample_crypto_def)
  moreover have "ed_public sample_wire () = ()" by simp
  ultimately show ?thesis
    using sample_door_parse sample_door_facts(1,4) sample_core_facts(7) by (simp add: authenticate_token_ok ALG_ED25519_def)
qed

lemma sample_door_minted:
  assumes "authenticate_token (ge_crypto sample_door) (ge_verifier sample_door) 3 sample_door_token p = Inr claims"
  shows "minted (ge_format sample_door) (ge_sha sample_door) [(sample_core, sample_core_call, sample_auth, sample_state)] claims"
proof -
  have "claims = sample_decided"
    using assms sample_door_parse sample_door_facts(1) sample_core_facts(7) by (auto simp: authenticate_token_ok)
  moreover obtain oc st' token where "decide sample_core sample_core_call sample_auth sample_state = (Inr oc, st')"
    "rs_capability (oc_response oc) = Some token" by (rule sample_core_decides)
  ultimately show ?thesis
    using sample_core_hash by (auto simp: minted_def sample_door_facts sample_core_facts sample_core_claims)
qed

lemma sample_door_executes:
  obtains res gst' where "execute_as sample_door 3 (au_request sample_auth) (Some sample_door_token) None sample_gate_state = (Inr res, gst')"
    "er_executed res"
proof -
  obtain vc s where v: "verify_and_consume (ge_crypto sample_door) (ge_verifier sample_door) 3 sample_door_token
      (presented_action (au_request sample_auth) sample_hash) (gs_nonces sample_gate_state) = (Inr vc, s)"
    "vc_claims vc = sample_decided"
    using sample_door_authenticates
    by (auto simp: verify_and_consume_def consume_def nonce_store_new_def sample_decided_fields sample_gate_state_def or_else_def Let_def)
  show thesis
    using that v sample_core_hash sample_door_facts(5)
    by (simp add: execute_as_def execute_verified_def dispatch_def sample_decided_fields broker_resolve_def sample_gate_state_def
        broker_new_def invoke_backend_def recording_invoke_def sample_door_facts(2,3) sample_core_facts)
qed

text \<open>A request that presents the sample approval, under a policy that asks for one.\<close>

definition sample_gated_auth :: AuthenticatedRequest where
  "sample_gated_auth = sample_auth\<lparr>au_request := (au_request sample_auth)\<lparr>ar_context :=
     (ar_context (au_request sample_auth))\<lparr>rc_approval_token := Some sample_approval_token\<rparr>\<rparr>\<rparr>"

definition sample_gated_state :: core_state where
  "sample_gated_state = \<lparr>cs_sessions = [], cs_sessions_poisoned = False, cs_approvals = sample_granted_service\<rparr>"

lemma sample_gated_facts:
  "request_validate (au_request sample_gated_auth) = Inr ()" "check_identity config_development sample_gated_auth = Inr ()"
  "request_action_hash sample_format (\<lambda>b. ''00'') (au_request sample_gated_auth) = Inr sample_hash"
  "remit_stage (sample_env (Some (sample_policy RequireApproval))) (au_request sample_gated_auth) = Allow"
  "live_budget (sample_env (Some (sample_policy RequireApproval))) sample_core_call (au_request sample_gated_auth) sample_hash
     sample_gated_state = Within"
  "ss_terminated (live_session sample_core_call (au_request sample_gated_auth) sample_gated_state) = False"
  "ar_tenant_id (au_request sample_gated_auth) = ''t1''" "ar_agent_id (au_request sample_gated_auth) = ''support''"
  "ar_session_id (au_request sample_gated_auth) = ''s1''"
  "rc_approval_token (ar_context (au_request sample_gated_auth)) = Some sample_approval_token"
  by code_simp+

lemma sample_gated_approval:
  "live_approval (sample_env (Some (sample_policy RequireApproval))) sample_core_call (au_request sample_gated_auth) sample_hash
     sample_gated_state = Some ''ap1''"
  using sample_redeem
  by (auto simp: live_approval_def verify_presented_approval_def sample_gated_facts sample_gated_state_def sample_core_call_def)

lemma sample_gated_usable: "\<not> as_poisoned (cs_approvals sample_gated_state)" "\<not> cs_sessions_poisoned sample_gated_state"
proof -
  show "\<not> as_poisoned (cs_approvals sample_gated_state)"
    using sample_redeem by (auto simp: redeem_approval_def sample_gated_state_def split: sum.splits)
qed (simp add: sample_gated_state_def)

lemma sample_gated_decides:
  obtains oc st' token where "decide (sample_env (Some (sample_policy RequireApproval))) sample_core_call sample_gated_auth sample_gated_state = (Inr oc, st')"
    "rs_capability (oc_response oc) = Some token"
proof -
  let ?e = "sample_env (Some (sample_policy RequireApproval))" and ?r = "au_request sample_gated_auth"
  have roles: "required_roles (co_default_approver_roles (ce_config ?e)) (human_approvals (pd_obligations (policy_stage ?e q))) \<noteq> []" for q
    by (simp add: sample_policy_def policy_stage_def human_approvals_def required_roles_def
        config_development_def config_default_def map_filter_simps)
  obtain oc st' where d: "decide ?e sample_core_call sample_gated_auth sample_gated_state = (Inr oc, st')"
    by (rule decide_returns [of sample_gated_auth ?e sample_hash sample_gated_state])
       (use roles sample_gated_facts sample_gated_usable in \<open>simp_all add: hex_claims_value canonical_bytes_def canonicalize_def\<close>)
  have det: "detector_stage ?e x y = []" for x y by (simp add: detector_stage_def run_all_def)
  have "ev_detectors (live_evaluation ?e sample_core_call ?r sample_hash sample_gated_state) = []"
    by (simp add: live_evaluation_def evaluate_action_def Let_def det)
  moreover have "pd_decision (ev_policy (live_evaluation ?e sample_core_call ?r sample_hash sample_gated_state)) = RequireApproval"
    by (simp add: live_evaluation_simps policy_stage_def sample_policy_def)
  ultimately have "verdicts n True (live_evaluation ?e sample_core_call ?r sample_hash sample_gated_state) =
      [RequireApproval, Allow, Allow]" for n
    by (simp add: verdicts_def live_evaluation_simps(1,2) sample_gated_facts proposals_def map_filter_simps)
  then have ev: "ev_decision (live_evaluation ?e sample_core_call ?r sample_hash sample_gated_state) = AllowWithConstraints"
    unfolding live_evaluation_simps(4) sample_gated_approval by (simp add: resolve_def max_def less_eq_Decision_def)
  from d obtain token where "rs_capability (oc_response oc) = Some token"
  proof (cases rule: decide_answer)
    case (terminated h)
    then show ?thesis using sample_gated_facts(6) by simp
  next
    case (live h st1 cap req st2)
    have "h = sample_hash" using live(1) sample_gated_facts(3) by simp
    then show ?thesis using conclude_ok [OF live(3)] live(5) ev that by (auto simp: mints_capability_def)
  qed
  with d that show thesis by blast
qed

section \<open>Properties\<close>

text \<open>
  C1: nothing is executed that was not permitted. When the gateway performs a side effect and the claims
  it accepted were minted by decisions of VIGIL Core, one of those decisions permitted a request of the
  same tenant, agent, session and principal with the same action hash; unless the digest collides, that
  request's action is materially the executed one.
\<close>

theorem executed_action_was_permitted:
  assumes "execute_as g now r tok caller gst = (x, gst')"
    and "gs_world gst' \<noteq> gs_world gst \<or> (\<exists>res. x = Inr res \<and> er_executed res)"
    and "\<And>token h claims. tok = Some token \<Longrightarrow>
       authenticate_token (ge_crypto g) (ge_verifier g) now token (presented_action r h) = Inr claims \<Longrightarrow>
       minted (ge_format g) (ge_sha g) ds claims"
  shows "\<exists>(e, c, auth, st) \<in> set ds. \<exists>oc st' h. decide e c auth st = (Inr oc, st') \<and>
     permits_execution (rs_decision (oc_response oc)) \<and>
     request_action_hash (ge_format g) (ge_sha g) (au_request auth) = Inr h \<and>
     request_action_hash (ge_format g) (ge_sha g) r = Inr h \<and>
     ar_tenant_id (au_request auth) = ar_tenant_id r \<and> ar_agent_id (au_request auth) = ar_agent_id r \<and>
     ar_session_id (au_request auth) = ar_session_id r \<and>
     p_id (ar_principal (au_request auth)) = p_id (ar_principal r) \<and>
     (decimal_rendering (ge_format g) \<and> \<not> collision (ge_sha g) \<longrightarrow>
        action_norm (ar_action (au_request auth)) = action_norm (ar_action r))"
proof -
  obtain token h vc s where 1: "tok = Some token" "request_action_hash (ge_format g) (ge_sha g) r = Inr h"
    "verify_and_consume (ge_crypto g) (ge_verifier g) now token (presented_action r h) (gs_nonces gst) = (Inr vc, s)"
    using execute_verified_effect [OF execute_as_effect(1) [OF assms(1,2)] assms(2)] by metis
  note a = verify_accepted(1) [OF 1(3)]
  obtain e c auth st oc st' h' where m: "(e, c, auth, st) \<in> set ds" "decide e c auth st = (Inr oc, st')"
    "rs_capability (oc_response oc) \<noteq> None" "request_action_hash (ge_format g) (ge_sha g) (au_request auth) = Inr h'"
    "vc_claims vc = decided_claims e c auth h' st"
    using assms(3) [OF 1(1) a] unfolding minted_def by blast
  have p: "permits_execution (rs_decision (oc_response oc))" using decide_capability_permits [OF m(2,3)] .
  have b: "h' = h" "ar_tenant_id (au_request auth) = ar_tenant_id r" "ar_agent_id (au_request auth) = ar_agent_id r"
     "ar_session_id (au_request auth) = ar_session_id r" "p_id (ar_principal (au_request auth)) = p_id (ar_principal r)"
    using a m(5) by (auto simp: authenticate_token_ok check_binding_ok decided_claims_def issued_claims_def
        capability_claims_for_def presented_action_def Let_def)
  have n: "action_norm (ar_action (au_request auth)) = action_norm (ar_action r)"
    if "decimal_rendering (ge_format g)" "\<not> collision (ge_sha g)"
    using hash_material [OF that m(4) 1(2) [folded b(1)]] .
  show ?thesis using m p b n 1(2) by blast
qed

theorem executed_action_was_permitted_witness:
  "\<exists>res gst' oc st'. execute_as sample_door 3 (au_request sample_auth) (Some sample_door_token) None sample_gate_state = (Inr res, gst') \<and>
     er_executed res \<and> decide sample_core sample_core_call sample_auth sample_state = (Inr oc, st') \<and>
     permits_execution (rs_decision (oc_response oc))"
proof -
  obtain res gst' where x: "execute_as sample_door 3 (au_request sample_auth) (Some sample_door_token) None sample_gate_state = (Inr res, gst')"
    "er_executed res" by (rule sample_door_executes)
  have eff: "gs_world gst' \<noteq> gs_world sample_gate_state \<or>
      (\<exists>r. (Inr res :: gateway_error + ExecutionResult) = Inr r \<and> er_executed r)" using x(2) by blast
  show ?thesis
  proof (rule bexE [OF executed_action_was_permitted [OF x(1) eff,
        where ds = "[(sample_core, sample_core_call, sample_auth, sample_state)]"]])
    fix token h claims
    assume "Some sample_door_token = Some token"
      "authenticate_token (ge_crypto sample_door) (ge_verifier sample_door) 3 token (presented_action (au_request sample_auth) h) = Inr claims"
    then show "minted (ge_format sample_door) (ge_sha sample_door) [(sample_core, sample_core_call, sample_auth, sample_state)] claims"
      using sample_door_minted by simp
  qed (use x in auto)
qed



text \<open>
  C40: a permitted database operation that names its database can never be executed. The pipeline binds the
  database name as the target of the capability, the gateway presents no target for any database
  operation, so the capability is refused whatever request presents it.
\<close>

theorem named_database_never_executes:
  assumes "ar_action (au_request auth) = ActDatabase d" and "db_database d = Some name"
  shows "check_binding (decided_claims e c auth h st) (presented_action r h') \<noteq> Inr () \<and>
     authenticate_token k v now token (presented_action r h') \<noteq> Inr (decided_claims e c auth h st)"
proof -
  have "names_database (ar_action (au_request auth))" using assms by (simp add: names_database_def)
  with minted_target have "check_binding (decided_claims e c auth h st) (presented_action r h') \<noteq> Inr ()" by blast
  then show ?thesis by (simp add: authenticate_token_ok)
qed

theorem named_database_never_executes_witness:
  "check_binding (decided_claims (sample_env (Some (sample_policy Allow))) sample_core_call
       (for_trusted_in_process_caller (sample_request (ActDatabase
         \<lparr>db_engine = ''pg'', db_statement = ''SELECT 1'', db_parameters = [], db_database = Some ''crm''\<rparr>)))
       sample_hash sample_state)
     (presented_action (sample_request (ActDatabase
         \<lparr>db_engine = ''pg'', db_statement = ''SELECT 1'', db_parameters = [], db_database = Some ''crm''\<rparr>)) sample_hash) \<noteq> Inr ()"
proof -
  let ?d = "\<lparr>db_engine = ''pg'', db_statement = ''SELECT 1'', db_parameters = [], db_database = Some ''crm''\<rparr>"
  have "ar_action (au_request (for_trusted_in_process_caller (sample_request (ActDatabase ?d)))) = ActDatabase ?d"
    "db_database ?d = Some ''crm''"
    by (simp_all add: for_trusted_in_process_caller_def auth_bind_def sample_request_def)
  from named_database_never_executes [OF this] show ?thesis by blast
qed

text \<open>
  C5: an approval gate is opened by a human. When a tool's manifest or a stage asked for approval and a capability was minted
  all the same, and the approval token presented with the request is no forgery, then the token carries the claims of
  a grant in the history of the approval service: the grant of the very approval the capability names, to an eligible
  human approver (of the tenant, not the requester, with a required role), for exactly this tenant, agent, session and action
  hash, less than fifteen minutes before.
\<close>

theorem gated_capability_needs_human:
  assumes "decide e c auth st = (Inr oc, st')" and "rs_capability (oc_response oc) = Some token"
    and "request_action_hash (ce_format e) (ce_sha e) (au_request auth) = Inr h"
    and "needs_approval e (ar_action (au_request auth)) \<or>
         pd_decision (ev_policy (live_evaluation e c (au_request auth) h st)) = RequireApproval \<or>
         remit_stage e (au_request auth) = RequireApproval"
    and "approval_steps (ce_approval_crypto e) nf (approval_service_new, []) (cs_approvals st, lg)"
    and "\<And>presented. rc_approval_token (ar_context (au_request auth)) = Some presented \<Longrightarrow>
           unforged_token (ce_approval_crypto e) lg presented"
  shows "\<exists>i presented grant p stored. cc_approval_id (decided_claims e c auth h st) = Some i \<and>
     rc_approval_token (ar_context (au_request auth)) = Some presented \<and>
     approval_token_claims (ce_approval_crypto e) presented = Some grant \<and> (grant, p) \<in> set lg \<and> ac_approval_id grant = i \<and>
     hm_get (as_approvals (cs_approvals st)) i = Some stored \<and> sa_state stored = Granted \<and>
     grant = grant_claims (ac_granted_at grant) (ac_nonce grant) p (sa_request stored) \<and>
     aq_tenant_id (sa_request stored) = ar_tenant_id (au_request auth) \<and>
     aq_agent_id (sa_request stored) = ar_agent_id (au_request auth) \<and>
     aq_session_id (sa_request stored) = ar_session_id (au_request auth) \<and>
     aq_action_hash (sa_request stored) = h \<and> eligible p (sa_request stored) \<and>
     ca_redeemed c < ac_granted_at grant + seconds 900"
proof -
  let ?r = "au_request auth"
  have "live_approval e c ?r h st \<noteq> None"
    using gate_needs_approval [OF assms(1,2,3)] assms(4) by blast
  then obtain i where i: "live_approval e c ?r h st = Some i" by blast
  then obtain presented svc where t: "rc_approval_token (ar_context ?r) = Some presented"
    "redeem_approval (ce_approval_crypto e) (ca_redeemed c) presented (ar_tenant_id ?r) (ar_agent_id ?r)
      (ar_session_id ?r) h (cs_approvals st) = (Inr i, svc)"
    by (auto simp: live_approval_def verify_presented_approval_def split: option.splits prod.splits sum.splits)
  have "cc_approval_id (decided_claims e c auth h st) = Some i"
    by (simp add: decided_claims_def issued_claims_def capability_claims_for_def Let_def i)
  with t(1) redeemed_grant [OF assms(5) assms(6) [OF t(1)] t(2)] show ?thesis by blast
qed

theorem gated_capability_needs_human_witness:
  "\<exists>oc st' token i. decide (sample_env (Some (sample_policy RequireApproval))) sample_core_call sample_gated_auth sample_gated_state = (Inr oc, st') \<and>
     rs_capability (oc_response oc) = Some token \<and>
     cc_approval_id (decided_claims (sample_env (Some (sample_policy RequireApproval))) sample_core_call sample_gated_auth sample_hash
       sample_gated_state) = Some i \<and>
     ac_approval_id sample_approval_claims = i \<and> p_kind sample_approver = Human"
proof -
  let ?e = "sample_env (Some (sample_policy RequireApproval))"
  obtain oc st' token where d: "decide ?e sample_core_call sample_gated_auth sample_gated_state = (Inr oc, st')"
    "rs_capability (oc_response oc) = Some token" by (rule sample_gated_decides)
  have h: "request_action_hash (ce_format ?e) (ce_sha ?e) (au_request sample_gated_auth) = Inr sample_hash"
    using sample_gated_facts(3) by simp
  have g: "needs_approval ?e (ar_action (au_request sample_gated_auth)) \<or>
      pd_decision (ev_policy (live_evaluation ?e sample_core_call (au_request sample_gated_auth) sample_hash sample_gated_state)) = RequireApproval \<or>
      remit_stage ?e (au_request sample_gated_auth) = RequireApproval"
    by (simp add: live_evaluation_simps policy_stage_def sample_policy_def)
  have l: "approval_steps (ce_approval_crypto ?e) sample_format (approval_service_new, [])
      (cs_approvals sample_gated_state, [(sample_approval_claims, sample_approver)])"
    using sample_lifecycle by (simp add: sample_gated_state_def)
  have u: "unforged_token (ce_approval_crypto ?e) [(sample_approval_claims, sample_approver)] presented"
    if "rc_approval_token (ar_context (au_request sample_gated_auth)) = Some presented" for presented
    using that sample_unforged by (simp add: sample_gated_facts)
  from gated_capability_needs_human [OF d h g l u] d show ?thesis
    by (auto simp: eligible_def)
qed

end
